(* ===== verification/Prelude.thy ===== *)
theory Prelude
  imports Main "HOL-Library.Word"
begin

unbundle bit_operations_syntax

section \<open>Shared types, collections and lemmas\<close>

text \<open>
  What every component of the model shares: the machine integer types of the C and C++
  sources, byte strings, the collection of model equations (\<open>model_defs\<close>), and generic
  lemmas on words, lists and options.

  A C \<open>uint8_t\<close>, \<open>uint32_t\<close>, \<open>uint64_t\<close> (and \<open>size_t\<close>, on the 64-bit targets the build
  files name) is a word of that width, so that \<open>+\<close>, \<open>-\<close> and \<open>*\<close> wrap around as they do in
  the program. A \<open>std::string\<close> or a buffer that holds binary data is a list of bytes.
\<close>

type_synonym u8 = "8 word"
type_synonym u16 = "16 word"
type_synonym u32 = "32 word"
type_synonym u64 = "64 word"
type_synonym bytes = "u8 list"

named_theorems model_defs \<open>equations of the model's definitions, for evaluation\<close>

subsection \<open>Words\<close>

lemma unat_u64_bound [simp]: "unat (x :: u64) < 18446744073709551616"
  using unsigned_less [of x, where ?'a = nat] by simp

lemma unat_u32_bound [simp]: "unat (x :: u32) < 4294967296"
  using unsigned_less [of x, where ?'a = nat] by simp

lemma unat_u8_bound [simp]: "unat (x :: u8) < 256"
  using unsigned_less [of x, where ?'a = nat] by simp

lemma unat_u64_lt: "unat (x :: u64) < 2 ^ 64"
  by (rule order_less_le_trans [OF unat_u64_bound]) simp

lemma unat_u32_lt: "unat (x :: u32) < 2 ^ 32"
  by (rule order_less_le_trans [OF unat_u32_bound]) simp

lemma word_eq_of_unat: "unat (x :: 'a::len word) = n \<Longrightarrow> x = of_nat n"
  by auto

lemma unat_ucast_u32_u64 [simp]: "unat (ucast (x :: u32) :: u64) = unat x"
  by (simp add: unsigned_ucast_eq take_bit_nat_eq_self order_less_trans [OF unat_u32_bound])

lemma unat_u64_add: "unat (x + y :: u64) = (unat x + unat y) mod 18446744073709551616"
  by (simp add: unat_word_ariths)

lemma unat_u64_mult: "unat (x * y :: u64) = (unat x * unat y) mod 18446744073709551616"
  by (simp add: unat_word_ariths)

lemma unat_add_no_wrap:
  fixes x y :: "'a::len word"
  assumes "unat x + unat y < 2 ^ LENGTH('a)"
  shows "unat (x + y) = unat x + unat y"
  using assms by (rule unat_add_lem [THEN iffD1])

lemma unat_of_nat_lt: "n < 2 ^ LENGTH('a) \<Longrightarrow> unat (of_nat n :: 'a::len word) = n"
  by (simp add: unat_of_nat)

lemma of_nat_nonzero: "0 < n \<Longrightarrow> n < 2 ^ LENGTH('a) \<Longrightarrow> (of_nat n :: 'a::len word) \<noteq> 0"
  using unat_of_nat_lt [of n, where 'a = 'a] by auto

lemma unat_drop_bit: "unat (drop_bit n (x :: 'a::len word)) = unat x div 2 ^ n"
  by (rule trans [OF unat_drop_bit_eq drop_bit_eq_div])

lemma unat_and_low: "unat (x AND of_nat (2 ^ n - 1) :: 'a::len word) = unat x mod 2 ^ n"
proof -
  have "of_nat (2 ^ n - 1) = (mask n :: 'a word)"
    by (simp add: mask_eq_exp_minus_1 of_nat_diff)
  then have "x AND of_nat (2 ^ n - 1) = take_bit n x" by (simp add: take_bit_eq_mask)
  then show ?thesis
    by (simp only: trans [OF unsigned_take_bit_eq take_bit_eq_mod])
qed

lemma unat_ucast_mod: "unat (ucast (x :: 'a::len word) :: 'b::len word) = unat x mod 2 ^ LENGTH('b)"
  by (simp add: unsigned_ucast_eq take_bit_eq_mod)

lemma unat_ucast_up:
  "LENGTH('a) \<le> LENGTH('b) \<Longrightarrow> unat (ucast (x :: 'a::len word) :: 'b::len word) = unat x"
proof -
  assume "LENGTH('a) \<le> LENGTH('b)"
  then have "(2 :: nat) ^ LENGTH('a) \<le> 2 ^ LENGTH('b)" by (intro power_increasing) simp_all
  moreover have "unat x < 2 ^ LENGTH('a)" by simp
  ultimately have "unat x < 2 ^ LENGTH('b)" by linarith
  then show ?thesis by (simp add: unat_ucast_mod)
qed

lemma unat_push_bit: "unat (push_bit n (x :: 'a::len word)) = unat x * 2 ^ n mod 2 ^ LENGTH('a)"
  by (rule trans [OF unsigned_push_bit_eq]) (simp add: push_bit_eq_mult [where 'a = nat] take_bit_eq_mod)

lemma unat_mask: "n < LENGTH('a) \<Longrightarrow> unat (mask n :: 'a::len word) = 2 ^ n - 1"
proof -
  assume "n < LENGTH('a)"
  then have "(2 :: nat) ^ n \<le> 2 ^ LENGTH('a)" by (intro power_increasing) simp_all
  moreover have "0 < (2 :: nat) ^ n" by simp
  ultimately have "2 ^ n - 1 < (2 :: nat) ^ LENGTH('a)" by linarith
  moreover have "mask n = (of_nat (2 ^ n - 1) :: 'a word)"
    by (simp add: mask_eq_exp_minus_1 of_nat_diff)
  ultimately show ?thesis by (simp only: unat_of_nat mod_less)
qed

lemma unat_sub_le: "y \<le> (x :: 'a::len word) \<Longrightarrow> unat (x - y) = unat x - unat y"
  by (rule unat_sub) (simp add: word_le_nat_alt)

text \<open>The C idiom for unsigned overflow: a sum wrapped exactly when it is below an operand.\<close>

lemma add_wraps_iff:
  fixes x y :: "'a::len word"
  shows "x + y < x \<longleftrightarrow> 2 ^ LENGTH('a) \<le> unat x + unat y"
proof (cases "unat x + unat y < 2 ^ LENGTH('a)")
  case True
  then show ?thesis by (simp add: word_less_nat_alt unat_add_no_wrap)
next
  case False
  have y: "unat y < 2 ^ LENGTH('a)" and x: "unat x < 2 ^ LENGTH('a)"
    by simp_all
  from x y have "unat x + unat y - 2 ^ LENGTH('a) < 2 ^ LENGTH('a)"
    by linarith
  with False have "unat (x + y) = unat x + unat y - 2 ^ LENGTH('a)"
    by (simp add: unat_word_ariths le_mod_geq)
  with False y show ?thesis unfolding word_less_nat_alt by linarith
qed

lemma or_shifted_disjoint:
  fixes x y :: "'a::len word"
  assumes "unat y < 2 ^ n"
  shows "push_bit n x OR y = push_bit n x + y"
proof -
  have "push_bit n x AND y = 0"
  proof (rule bit_word_eqI)
    fix k
    assume "k < LENGTH('a)"
    from assms have y: "take_bit n y = y"
      by (simp add: word_unat_eq_iff unsigned_take_bit_eq take_bit_nat_eq_self)
    show "bit (push_bit n x AND y) k = bit (0 :: 'a word) k"
    proof (cases "k < n")
      case True
      then show ?thesis by (simp add: bit_and_iff bit_push_bit_iff)
    next
      case False
      then have "\<not> bit y k" by (subst y [symmetric]) (simp add: bit_take_bit_iff)
      then show ?thesis by (simp add: bit_and_iff)
    qed
  qed
  then show ?thesis by (simp add: disjunctive_add_eq_or)
qed

text \<open>
  A statement about every bit of a word, as a list of closed instances that the simplifier
  evaluates one by one.
\<close>

lemma all_less_32:
  "(\<forall>k < 32 :: nat. P k) \<longleftrightarrow> list_all P
    [0, 1, 2, 3, 4, 5, 6, 7, 8, 9, 10, 11, 12, 13, 14, 15, 16, 17, 18, 19, 20, 21, 22, 23, 24,
    25, 26, 27, 28, 29, 30, 31]"
proof -
  have "[0..<32] =
    [0, 1, 2, 3, 4, 5, 6, 7, 8, 9, 10, 11, 12, 13, 14, 15, 16, 17, 18, 19, 20, 21, 22, 23, 24,
    25, 26, 27, 28, 29, 30, 31]"
    by code_simp
  then show ?thesis by (metis Ball_set atLeast0LessThan lessThan_iff set_upt)
qed

lemma all_less_64:
  "(\<forall>k < 64 :: nat. P k) \<longleftrightarrow> list_all P
    [0, 1, 2, 3, 4, 5, 6, 7, 8, 9, 10, 11, 12, 13, 14, 15, 16, 17, 18, 19, 20, 21, 22, 23, 24,
    25, 26, 27, 28, 29, 30, 31, 32, 33, 34, 35, 36, 37, 38, 39, 40, 41, 42, 43, 44, 45, 46,
    47, 48, 49, 50, 51, 52, 53, 54, 55, 56, 57, 58, 59, 60, 61, 62, 63]"
proof -
  have "[0..<64] =
    [0, 1, 2, 3, 4, 5, 6, 7, 8, 9, 10, 11, 12, 13, 14, 15, 16, 17, 18, 19, 20, 21, 22, 23, 24,
    25, 26, 27, 28, 29, 30, 31, 32, 33, 34, 35, 36, 37, 38, 39, 40, 41, 42, 43, 44, 45, 46,
    47, 48, 49, 50, 51, 52, 53, 54, 55, 56, 57, 58, 59, 60, 61, 62, 63]"
    by code_simp
  then show ?thesis by (metis Ball_set atLeast0LessThan lessThan_iff set_upt)
qed

lemma list_all_uptD: "list_all P [0..<n] \<Longrightarrow> k < n \<Longrightarrow> P k"
  by (simp add: list_all_iff)

lemma unat_or_shifted_byte:
  fixes i :: "'a::len word" and b :: u8
  assumes s: "shift < LENGTH('a)" and i: "unat i < 2 ^ shift"
    and b: "unat b * 2 ^ shift < 2 ^ LENGTH('a)"
  shows "unat (i OR push_bit shift (ucast b)) = unat i + unat b * 2 ^ shift"
proof -
  let ?L = "LENGTH('a)"
  have e: "(2 :: nat) ^ ?L = 2 ^ (?L - shift) * 2 ^ shift"
    using s by (simp flip: power_add)
  with b have bs: "unat b < 2 ^ (?L - shift)" by simp
  then have "(unat b + 1) * 2 ^ shift \<le> 2 ^ ?L" unfolding e by (intro mult_right_mono) simp_all
  with i have m: "unat b * 2 ^ shift + unat i < 2 ^ ?L" by simp
  have "unat b < 2 ^ ?L"
    using bs by (rule order_less_le_trans) (simp add: power_increasing)
  then have "unat (push_bit shift (ucast b :: 'a word)) = unat b * 2 ^ shift"
    using b by (simp add: unat_push_bit unat_ucast_mod)
  then show ?thesis
    using m or_shifted_disjoint [OF i, of "ucast b"]
    by (simp add: or.commute [of i] unat_add_no_wrap)
qed

subsection \<open>Byte strings as numbers\<close>

text \<open>Big- and little-endian values of byte strings, as natural numbers.\<close>

fun be_nat :: "bytes \<Rightarrow> nat" where
  "be_nat [] = 0"
| "be_nat (b # bs) = unat b * 256 ^ length bs + be_nat bs"

fun le_nat :: "bytes \<Rightarrow> nat" where
  "le_nat [] = 0"
| "le_nat (b # bs) = unat b + 256 * le_nat bs"

lemma be_nat_append: "be_nat (xs @ ys) = be_nat xs * 256 ^ length ys + be_nat ys"
  by (induction xs) (simp_all add: power_add algebra_simps)

lemma be_nat_bound: "be_nat bs < 256 ^ length bs"
proof (induction bs)
  case (Cons b bs)
  have "unat b * 256 ^ length bs + be_nat bs < (unat b + 1) * 256 ^ length bs"
    using Cons.IH by simp
  also have "\<dots> \<le> 256 * 256 ^ length bs"
    using unat_u8_bound [of b] by (intro mult_right_mono) (simp_all add: Suc_le_eq del: unat_u8_bound)
  finally show ?case by simp
qed simp

lemma le_nat_bound: "le_nat bs < 256 ^ length bs"
proof (induction bs)
  case (Cons b bs)
  have "unat b + 256 * le_nat bs < 256 * (le_nat bs + 1)"
    using unat_u8_bound [of b] by simp
  also have "\<dots> \<le> 256 * 256 ^ length bs"
    using Cons.IH by (intro mult_left_mono) simp_all
  finally show ?case by simp
qed simp

lemma be_nat_inj:
  "length xs = length ys \<Longrightarrow> be_nat xs = be_nat ys \<Longrightarrow> xs = ys"
proof (induction xs ys rule: list_induct2)
  case (Cons x xs y ys)
  have bx: "be_nat xs < 256 ^ length ys" and yb: "be_nat ys < 256 ^ length ys"
    using be_nat_bound [of xs] be_nat_bound [of ys] Cons.hyps by simp_all
  let ?m = "256 ^ length ys :: nat"
  have eq: "unat x * ?m + be_nat xs = unat y * ?m + be_nat ys"
    using Cons.prems Cons.hyps by simp
  have "(unat x * ?m + be_nat xs) div ?m = unat x" and "(unat x * ?m + be_nat xs) mod ?m = be_nat xs"
    and "(unat y * ?m + be_nat ys) div ?m = unat y" and "(unat y * ?m + be_nat ys) mod ?m = be_nat ys"
    using bx yb by simp_all
  with eq have "unat x = unat y" and "be_nat xs = be_nat ys" by metis+
  with Cons.IH show ?case by (simp add: word_unat_eq_iff)
qed simp

lemma le_nat_append: "le_nat (xs @ ys) = le_nat xs + 256 ^ length xs * le_nat ys"
  by (induction xs) (simp_all add: algebra_simps)

lemma le_nat_rev: "le_nat (rev bs) = be_nat bs"
  by (induction bs) (simp_all add: le_nat_append)

lemma le_nat_drop: "le_nat (drop n bs) = le_nat bs div 256 ^ n"
proof (induction n arbitrary: bs)
  case (Suc n)
  then show ?case by (cases bs) (simp_all add: div_mult2_eq)
qed simp

lemma le_nat_take: "le_nat (take n bs) = le_nat bs mod 256 ^ n"
proof (induction n arbitrary: bs)
  case (Suc n)
  then show ?case by (cases bs) (simp_all add: mod_mult2_eq)
qed simp

text \<open>The low \<open>n\<close> bytes of a number, most significant first.\<close>

fun nat_to_be :: "nat \<Rightarrow> nat \<Rightarrow> bytes" where
  "nat_to_be 0 x = []"
| "nat_to_be (Suc n) x = nat_to_be n (x div 256) @ [of_nat (x mod 256)]"

lemma length_nat_to_be [simp]: "length (nat_to_be n x) = n"
  by (induction n arbitrary: x) simp_all

lemma be_nat_to_be: "be_nat (nat_to_be n x) = x mod 256 ^ n"
proof (induction n arbitrary: x)
  case (Suc n)
  have "unat (of_nat (x mod 256) :: u8) = x mod 256"
    by (simp add: unat_of_nat)
  then have "be_nat (nat_to_be (Suc n) x) = (x div 256) mod 256 ^ n * 256 + x mod 256"
    by (simp add: be_nat_append Suc.IH)
  also have "\<dots> = x mod (256 * 256 ^ n)"
    by (simp add: mod_mult2_eq mult.commute)
  finally show ?case by simp
qed simp

lemma nat_to_be_be_nat: "nat_to_be (length bs) (be_nat bs) = bs"
proof (rule be_nat_inj)
  show "be_nat (nat_to_be (length bs) (be_nat bs)) = be_nat bs"
    using be_nat_bound [of bs] by (simp add: be_nat_to_be)
qed simp

text \<open>The low \<open>n\<close> bytes of a number, least significant first.\<close>

fun nat_to_le :: "nat \<Rightarrow> nat \<Rightarrow> bytes" where
  "nat_to_le 0 x = []"
| "nat_to_le (Suc n) x = of_nat (x mod 256) # nat_to_le n (x div 256)"

lemma length_nat_to_le [simp]: "length (nat_to_le n x) = n"
  by (induction n arbitrary: x) simp_all

lemma le_nat_to_le: "le_nat (nat_to_le n x) = x mod 256 ^ n"
proof (induction n arbitrary: x)
  case (Suc n)
  have "unat (of_nat (x mod 256) :: u8) = x mod 256"
    by (simp add: unat_of_nat)
  then show ?case by (simp add: Suc.IH mod_mult2_eq)
qed simp

lemma nat_to_le_le_nat: "nat_to_le (length bs) (le_nat bs) = bs"
  by (induction bs) simp_all

text \<open>
  What a little-endian machine reads and writes through a cast pointer: a word from the bytes
  at an address, and the bytes of a word.
\<close>

definition load32 :: "bytes \<Rightarrow> u32" where
  "load32 bs = of_nat (le_nat (take 4 bs))"

definition store32 :: "u32 \<Rightarrow> bytes" where
  "store32 w = nat_to_le 4 (unat w)"

definition load64 :: "bytes \<Rightarrow> u64" where
  "load64 bs = of_nat (le_nat (take 8 bs))"

definition store64 :: "u64 \<Rightarrow> bytes" where
  "store64 w = nat_to_le 8 (unat w)"

lemma length_store32 [simp]: "length (store32 w) = 4"
  and length_store64 [simp]: "length (store64 w') = 8"
  by (simp_all add: store32_def store64_def)

lemma load_store32: "load32 (store32 w @ bs) = w"
  by (simp add: load32_def store32_def le_nat_to_le)

lemma load_store64: "load64 (store64 w @ bs) = w"
  by (simp add: load64_def store64_def le_nat_to_le)

lemma le_nat_store64: "le_nat (store64 w) = unat w"
  by (simp add: store64_def le_nat_to_le)

lemma unat_load64: "8 \<le> length bs \<Longrightarrow> unat (load64 bs) = le_nat (take 8 bs)"
  using le_nat_bound [of "take 8 bs"] by (simp add: load64_def unat_of_nat)

lemma store_load32: "4 \<le> length bs \<Longrightarrow> store32 (load32 bs) = take 4 bs"
proof -
  assume "4 \<le> length bs"
  then have l: "length (take 4 bs) = 4" by simp
  have "unat (load32 bs) = le_nat (take 4 bs)"
    using le_nat_bound [of "take 4 bs"] l by (simp add: load32_def unat_of_nat)
  then show ?thesis using nat_to_le_le_nat [of "take 4 bs"] l by (simp add: store32_def)
qed

lemma store_load64: "8 \<le> length bs \<Longrightarrow> store64 (load64 bs) = take 8 bs"
proof -
  assume "8 \<le> length bs"
  then have l: "length (take 8 bs) = 8" by simp
  have "unat (load64 bs) = le_nat (take 8 bs)"
    using le_nat_bound [of "take 8 bs"] l by (simp add: load64_def unat_of_nat)
  then show ?thesis using nat_to_le_le_nat [of "take 8 bs"] l by (simp add: store64_def)
qed

subsection \<open>Results of calls that may fail\<close>

text \<open>
  The C++ sources report failure by a \<open>bool\<close> result with out-parameters; the model returns
  the out-parameter in an option, \<open>None\<close> for \<open>false\<close>. Sequencing is \<open>Option.bind\<close>.
\<close>

lemma bind_Some_iff [simp]:
  "Option.bind m f = Some y \<longleftrightarrow> (\<exists>x. m = Some x \<and> f x = Some y)"
  by (cases m) auto

fun map_option_list :: "('a \<Rightarrow> 'b option) \<Rightarrow> 'a list \<Rightarrow> 'b list option" where
  "map_option_list f [] = Some []"
| "map_option_list f (x # xs) =
     (case f x of None \<Rightarrow> None
      | Some y \<Rightarrow> (case map_option_list f xs of None \<Rightarrow> None | Some ys \<Rightarrow> Some (y # ys)))"

lemma map_option_list_length: "map_option_list f xs = Some ys \<Longrightarrow> length ys = length xs"
  by (induction xs arbitrary: ys) (auto split: option.splits)

lemma map_option_list_append:
  "map_option_list f (xs @ ys) =
     (case map_option_list f xs of None \<Rightarrow> None
      | Some us \<Rightarrow> (case map_option_list f ys of None \<Rightarrow> None | Some vs \<Rightarrow> Some (us @ vs)))"
  by (induction xs) (auto split: option.splits)

lemma map_option_list_inverse:
  "(\<And>x. x \<in> set xs \<Longrightarrow> f (g x) = Some x) \<Longrightarrow> map_option_list f (map g xs) = Some xs"
  by (induction xs) simp_all

subsection \<open>Chunks of a list\<close>

text \<open>The full pieces of length \<open>n\<close> of a list, front to back; the rest is dropped.\<close>

function chunks :: "nat \<Rightarrow> 'a list \<Rightarrow> 'a list list" where
  "chunks n xs = (if n = 0 \<or> length xs < n then [] else take n xs # chunks n (drop n xs))"
  by pat_completeness auto
termination
  by (relation "measure (\<lambda>(n, xs). length xs)") auto

declare chunks.simps [simp del]

lemma chunks_short [simp]: "length xs < n \<Longrightarrow> chunks n xs = []"
  by (simp add: chunks.simps)

lemma chunks_append:
  "0 < n \<Longrightarrow> length xs = n \<Longrightarrow> chunks n (xs @ ys) = xs # chunks n ys"
  by (subst chunks.simps) simp

lemma length_chunks: "0 < n \<Longrightarrow> length (chunks n xs) = length xs div n"
proof (induction n xs rule: chunks.induct)
  case (1 n xs)
  show ?case
  proof (cases "length xs < n")
    case False
    then have "length xs div n = Suc ((length xs - n) div n)"
      using "1.prems" by (simp add: le_div_geq)
    with False "1" show ?thesis by (subst chunks.simps) simp
  qed simp
qed

lemma concat_chunks: "0 < n \<Longrightarrow> concat (chunks n xs) = take (length xs div n * n) xs"
proof (induction n xs rule: chunks.induct)
  case (1 n xs)
  show ?case
  proof (cases "length xs < n")
    case False
    then have d: "length xs div n = Suc ((length xs - n) div n)"
      using "1.prems" by (simp add: le_div_geq)
    from False "1" show ?thesis
      by (subst chunks.simps) (simp add: d take_add [of n])
  qed simp
qed

lemma chunks_all_length: "c \<in> set (chunks n xs) \<Longrightarrow> length c = n"
proof (induction n xs rule: chunks.induct)
  case (1 n xs)
  then show ?case by (subst (asm) chunks.simps) (auto split: if_splits)
qed

end
