(* ===== verification/Varint.thy ===== *)
theory Varint
  imports Prelude
begin

unbundle bit_operations_syntax

section \<open>Variable-length integers (src/src/common/varint.h)\<close>

text \<open>
  The base-128 encoding of unsigned integers that the binary serialization, the account
  addresses and the key derivation use. A C++ template over an unsigned type \<open>T\<close> of \<open>bits\<close>
  digits is a definition over \<open>'a::len word\<close>; an output iterator is the list of written
  bytes; a pair of input iterators is the list of bytes still to be read.
\<close>

subsection \<open>Definitions\<close>

text \<open>The loop of \<open>get_varint_packed_size\<close>; \<open>vmax\<close> loses its lowest set bits at each turn.\<close>

function packed_size_loop :: "u64 \<Rightarrow> u64 \<Rightarrow> nat \<Rightarrow> nat" where
  "packed_size_loop unsigned_v vmax i =
     (if vmax \<noteq> 0 \<and> NOT vmax < unsigned_v
      then packed_size_loop unsigned_v (push_bit 7 vmax) (i + 1)
      else i)"
  by pat_completeness auto
termination
proof (relation "measure (\<lambda>(v, vmax, i). LEAST n. push_bit n vmax = (0 :: u64))")
  fix unsigned_v vmax :: u64 and i :: nat
  assume "vmax \<noteq> 0 \<and> NOT vmax < unsigned_v"
  let ?P = "\<lambda>x n. push_bit n x = (0 :: u64)"
  have ex: "?P vmax (LEAST n. ?P vmax n)"
    by (rule LeastI [of _ 64], rule bit_word_eqI) (simp add: bit_push_bit_iff)
  have pos: "(LEAST n. ?P vmax n) \<noteq> 0"
    using ex \<open>vmax \<noteq> 0 \<and> _\<close> by (metis push_bit_of_0 push_bit_0_id id_apply)
  have "?P (push_bit 7 vmax) ((LEAST n. ?P vmax n) - 1)"
  proof -
    have "push_bit ((LEAST n. ?P vmax n) - 1) (push_bit 7 vmax) =
        push_bit 6 (push_bit (LEAST n. ?P vmax n) vmax)"
      using pos by simp
    then show ?thesis unfolding ex by simp
  qed
  then have "(LEAST n. ?P (push_bit 7 vmax) n) \<le> (LEAST n. ?P vmax n) - 1"
    by (rule Least_le)
  with pos show "((unsigned_v, push_bit 7 vmax, i + 1), (unsigned_v, vmax, i))
      \<in> measure (\<lambda>(v, vmax, i). LEAST n. push_bit n vmax = (0 :: u64))"
    by simp
qed simp

declare packed_size_loop.simps [simp del]

definition get_varint_packed_size :: "'a::len word \<Rightarrow> nat" where
  "get_varint_packed_size v = packed_size_loop (ucast v) (NOT 0x7F) 1"

function write_varint :: "'a::len word \<Rightarrow> bytes" where
  "write_varint i =
     (if 0x80 \<le> unat i
      then ((ucast i AND 0x7f) OR 0x80) # write_varint (drop_bit 7 i)
      else [ucast i])"
  by pat_completeness auto
termination
  by (relation "measure unat") (auto simp: unat_drop_bit)

declare write_varint.simps [simp del]

definition get_varint_data :: "'a::len word \<Rightarrow> bytes" where
  "get_varint_data v = write_varint v"

text \<open>
  The body of \<open>read_varint\<close>: the returned code (the number of bytes read, \<open>-1\<close> for an
  overflow, \<open>-2\<close> for a non-canonical representation), the out-parameter, and the input that
  is left.
\<close>

fun read_varint_loop ::
    "nat \<Rightarrow> nat \<Rightarrow> 'a::len word \<Rightarrow> int \<Rightarrow> bytes \<Rightarrow> int \<times> 'a word \<times> bytes" where
  "read_varint_loop bits shift i read [] = (read, i, [])"
| "read_varint_loop bits shift i read (byte # rest) =
     (if bits \<le> shift + 7 \<and> 2 ^ (bits - shift) \<le> unat byte then (-1, i, rest)
      else if byte = 0 \<and> shift \<noteq> 0 then (-2, i, rest)
      else let i' = i OR push_bit shift (ucast (byte AND 0x7f))
           in if byte AND 0x80 = 0 then (read + 1, i', rest)
              else read_varint_loop bits (shift + 7) i' (read + 1) rest)"

definition read_varint_bits :: "nat \<Rightarrow> bytes \<Rightarrow> int \<times> 'a::len word \<times> bytes" where
  "read_varint_bits bits input = read_varint_loop bits 0 0 0 input"

definition read_varint :: "bytes \<Rightarrow> int \<times> 'a::len word \<times> bytes" where
  "read_varint input = read_varint_bits LENGTH('a) input"

subsection \<open>Bytes of the encoding\<close>

lemma unat_low7: "unat (b AND 0x7f :: u8) = unat b mod 128"
  using unat_and_low [of b 7] by simp

lemma high_bit_clear: "(b AND 0x80 :: u8) = 0 \<longleftrightarrow> unat b < 128"
proof -
  have "(b AND 0x80 = 0) \<longleftrightarrow> \<not> bit b 7"
    using and_exp_eq_0_iff_not_bit [of b 7] by simp
  also have "\<dots> \<longleftrightarrow> take_bit 7 b = b"
  proof
    assume n: "\<not> bit b 7"
    show "take_bit 7 b = b"
    proof (rule bit_word_eqI)
      fix k :: nat
      assume "k < LENGTH(8)"
      then have "k < 7 \<or> k = 7" by auto
      then show "bit (take_bit 7 b) k = bit b k" using n by (auto simp: bit_take_bit_iff)
    qed
  next
    assume "take_bit 7 b = b"
    then have "bit b 7 = bit (take_bit 7 b) 7" by simp
    then show "\<not> bit b 7" by (simp add: bit_take_bit_iff)
  qed
  also have "\<dots> \<longleftrightarrow> unat b mod 128 = unat b"
    by (simp add: word_unat_eq_iff trans [OF unsigned_take_bit_eq take_bit_eq_mod])
  finally show ?thesis by (simp add: mod_eq_self_iff_div_eq_0 div_eq_0_iff)
qed

lemma unat_or_high: "unat (b AND 0x7f OR 0x80 :: u8) = unat b mod 128 + 128"
proof -
  have "push_bit 7 (1 :: u8) = 0x80" by simp
  then have "b AND 0x7f OR 0x80 = 0x80 + (b AND 0x7f)"
    using or_shifted_disjoint [of "b AND 0x7f" 7 1] by (simp add: unat_low7 or.commute)
  then show ?thesis
    by (simp add: unat_add_no_wrap unat_low7)
qed

lemma unat_ucast_byte_mod128: "8 \<le> LENGTH('a) \<or> True \<Longrightarrow> unat (ucast (i :: 'a::len word) :: u8) mod 128 = unat i mod 128"
  by (simp add: unat_ucast_mod mod_mod_cancel)

lemma write_varint_short: "unat i < 0x80 \<Longrightarrow> write_varint i = [ucast i]"
  by (subst write_varint.simps) simp

lemma write_varint_long:
  "0x80 \<le> unat i \<Longrightarrow>
    write_varint i = ((ucast i AND 0x7f) OR 0x80) # write_varint (drop_bit 7 i)"
  by (subst write_varint.simps) simp

lemma write_varint_not_empty [simp]: "write_varint i \<noteq> []"
  by (subst write_varint.simps) simp

subsection \<open>The packed size is the length of the encoding\<close>

fun varint_len :: "nat \<Rightarrow> nat" where
  "varint_len n = (if n < 128 then 1 else Suc (varint_len (n div 128)))"

declare varint_len.simps [simp del]

lemma length_write_varint: "length (write_varint i) = varint_len (unat i)"
proof (induction i rule: write_varint.induct)
  case (1 i)
  then show ?case
    by (subst varint_len.simps) (simp add: write_varint_short write_varint_long unat_drop_bit)
qed

lemma packed_size_loop_len:
  "0 < i \<Longrightarrow> packed_size_loop v (NOT (mask (7 * i))) i =
     i + (if 2 ^ (7 * i) \<le> unat v then varint_len (unat v div 2 ^ (7 * i)) else 0)"
proof (induction "10 - i" arbitrary: i rule: less_induct)
  case less
  show ?case
  proof (cases "i < 10 \<and> 2 ^ (7 * i) \<le> unat v")
    case False
    then have "\<not> 2 ^ (7 * i) \<le> unat v"
    proof (cases "i < 10")
      case False
      then have "(2 :: nat) ^ 64 \<le> 2 ^ (7 * i)" by (intro power_increasing) simp_all
      then show ?thesis using unat_u64_lt [of v] by linarith
    qed simp
    moreover have "NOT (mask (7 * i) :: u64) = 0 \<or> \<not> NOT (NOT (mask (7 * i))) < v"
    proof (cases "7 * i < 64")
      case True
      with calculation show ?thesis by (simp add: word_less_nat_alt unat_mask) linarith
    next
      case False
      then have "NOT (mask (7 * i) :: u64) = 0"
        by (intro bit_word_eqI) (simp add: bit_simps)
      then show ?thesis by simp
    qed
    ultimately show ?thesis by (subst packed_size_loop.simps) auto
  next
    case True
    then have i: "7 * i < 64" by simp
    have "unat (mask (7 * i) :: u64) = 2 ^ (7 * i) - 1"
      using i by (simp add: unat_mask)
    moreover have "0 < (2 :: nat) ^ (7 * i)" by simp
    ultimately have lt: "mask (7 * i) < v" using True unfolding word_less_nat_alt by linarith
    have "bit (NOT (mask (7 * i)) :: u64) 63" using True by (simp add: bit_simps)
    then have m: "NOT (mask (7 * i)) \<noteq> (0 :: u64)" by auto
    have p: "push_bit 7 (NOT (mask (7 * i))) = (NOT (mask (7 * (i + 1))) :: u64)"
      by (rule bit_word_eqI) (auto simp: bit_simps)
    have r: "packed_size_loop v (NOT (mask (7 * i))) i = packed_size_loop v (NOT (mask (7 * (i + 1)))) (i + 1)"
      using m lt by (subst packed_size_loop.simps) (simp add: p)
    have e: "(2 :: nat) ^ (7 * (i + 1)) = 2 ^ (7 * i) * 128" by (simp add: power_add)
    have "2 ^ (7 * (i + 1)) \<le> unat v \<longleftrightarrow> 128 \<le> unat v div 2 ^ (7 * i)"
      unfolding e by (simp add: less_eq_div_iff_mult_less_eq mult.commute)
    moreover have "unat v div 2 ^ (7 * (i + 1)) = unat v div 2 ^ (7 * i) div 128"
      unfolding e by (rule div_mult2_eq)
    moreover have "10 - (i + 1) < 10 - i" and "0 < i + 1" using True by auto
    ultimately have "packed_size_loop v (NOT (mask (7 * (i + 1)))) (i + 1) = (i + 1) +
        (if 128 \<le> unat v div 2 ^ (7 * i) then varint_len (unat v div 2 ^ (7 * i) div 128) else 0)"
      using less.hyps [of "i + 1"] by simp
    then show ?thesis
      unfolding r using True varint_len.simps [of "unat v div 2 ^ (7 * i)"] by simp
  qed
qed

lemma packed_size_exact:
  assumes "LENGTH('a::len) \<le> 64"
  shows "get_varint_packed_size (v :: 'a word) = length (write_varint v)"
proof -
  have v: "unat (ucast v :: u64) = unat v"
  proof -
    have "unat v < 2 ^ LENGTH('a)" by simp
    also have "\<dots> \<le> 2 ^ 64" using assms by (intro power_increasing) simp_all
    finally show ?thesis by (simp add: unat_ucast_mod)
  qed
  have m: "NOT 0x7F = (NOT (mask (7 * 1)) :: u64)" by (simp add: mask_eq_exp_minus_1)
  show ?thesis
    unfolding get_varint_packed_size_def m
    by (subst packed_size_loop_len) (simp_all add: v length_write_varint varint_len.simps [of "unat v"])
qed

subsection \<open>Reading back\<close>

text \<open>The loop started with \<open>shift\<close> bits already read adds the bits of the encoding above them.\<close>

lemma digit_below:
  fixes a d s :: nat
  assumes "a < 2 ^ s" and "d < 128"
  shows "a + d * 2 ^ s < 2 ^ (s + 7)"
proof -
  have "a + d * 2 ^ s < (d + 1) * 2 ^ s" using assms(1) by simp
  also have "\<dots> \<le> 128 * 2 ^ s" using assms(2) by (intro mult_right_mono) simp_all
  finally show ?thesis by (simp add: power_add)
qed

lemma read_write_loop:
  fixes i x :: "'a::len word"
  assumes "shift < LENGTH('a)" and "unat i < 2 ^ shift" and "unat x * 2 ^ shift < 2 ^ LENGTH('a)"
    and "shift = 0 \<or> 0 < unat x"
  shows "read_varint_loop LENGTH('a) shift i read (write_varint x @ rest) =
    (read + int (length (write_varint x)), of_nat (unat i + unat x * 2 ^ shift), rest)"
  using assms
proof (induction x arbitrary: shift i read rule: write_varint.induct)
  case (1 x)
  let ?L = "LENGTH('a)"
  note joined = unat_or_shifted_byte [OF "1.prems"(1,2)]
  show ?case
  proof (cases "0x80 \<le> unat x")
    case False
    have b: "unat (ucast x :: u8) = unat x" using False by (simp add: unat_ucast_mod)
    have nov: "\<not> (?L \<le> shift + 7 \<and> 2 ^ (?L - shift) \<le> unat x)"
    proof
      assume "?L \<le> shift + 7 \<and> 2 ^ (?L - shift) \<le> unat x"
      then have "2 ^ (?L - shift) * 2 ^ shift \<le> unat x * 2 ^ shift" by simp
      moreover have "2 ^ (?L - shift) * 2 ^ shift = (2 :: nat) ^ ?L"
        using "1.prems"(1) by (simp flip: power_add)
      ultimately show False using "1.prems"(3) by simp
    qed
    have nz: "\<not> ((ucast x :: u8) = 0 \<and> shift \<noteq> 0)"
      using "1.prems"(4) b by (auto simp: word_unat_eq_iff)
    have "(ucast x AND 0x7f :: u8) = ucast x"
      using False by (simp add: word_unat_eq_iff unat_low7 b)
    moreover have "unat (i OR push_bit shift (ucast (ucast x :: u8))) = unat i + unat x * 2 ^ shift"
      using "1.prems"(3) joined [of "ucast x"] by (simp only: b)
    then have "i OR push_bit shift (ucast (ucast x :: u8)) = of_nat (unat i + unat x * 2 ^ shift)"
      by (rule word_eq_of_unat)
    moreover have "write_varint x @ rest = ucast x # rest" and "length (write_varint x) = 1"
      using False by (simp_all add: write_varint_short)
    moreover have "(ucast x AND 0x80 :: u8) = 0" using False by (simp add: high_bit_clear b)
    ultimately show ?thesis
      by (simp only: read_varint_loop.simps b nov nz if_False if_True Let_def of_nat_1 simp_thms)
  next
    case True
    let ?b = "ucast x AND 0x7f OR 0x80 :: u8"
    have b: "unat ?b = unat x mod 128 + 128" by (simp add: unat_or_high unat_ucast_byte_mod128)
    have "(128 :: nat) * 2 ^ shift \<le> unat x * 2 ^ shift" using True by simp
    moreover have "(2 :: nat) ^ (shift + 7) = 128 * 2 ^ shift" by (simp add: power_add)
    ultimately have "(2 :: nat) ^ (shift + 7) < 2 ^ ?L" using "1.prems"(3) by linarith
    then have s7: "shift + 7 < ?L" by (simp only: power_strict_increasing_iff)
    have low: "unat (?b AND 0x7f) = unat x mod 128" by (simp add: unat_low7 b)
    let ?i = "i OR push_bit shift (ucast (?b AND 0x7f))"
    have "unat x mod 128 * 2 ^ shift \<le> unat x * 2 ^ shift" by (rule mult_right_mono) simp_all
    then have "unat (?b AND 0x7f) * 2 ^ shift < 2 ^ ?L"
      unfolding low using "1.prems"(3) by (rule order_le_less_trans)
    then have i': "unat ?i = unat i + unat x mod 128 * 2 ^ shift" using joined low by simp
    have i'b: "unat ?i < 2 ^ (shift + 7)"
      unfolding i' using "1.prems"(2) by (rule digit_below) simp
    have x: "unat i + unat x * 2 ^ shift = unat ?i + unat (drop_bit 7 x) * 2 ^ (shift + 7)"
    proof -
      have "unat x * 2 ^ shift = (unat x div 128 * 128 + unat x mod 128) * 2 ^ shift"
        by (simp only: div_mult_mod_eq)
      moreover have "unat (drop_bit 7 x) = unat x div 128" by (simp add: unat_drop_bit)
      ultimately show ?thesis
        unfolding i' by (simp only: power_add algebra_simps) (simp add: algebra_simps)
    qed
    have "read_varint_loop ?L (shift + 7) ?i (read + 1) (write_varint (drop_bit 7 x) @ rest) =
        (read + 1 + int (length (write_varint (drop_bit 7 x))),
          of_nat (unat ?i + unat (drop_bit 7 x) * 2 ^ (shift + 7)), rest)"
    proof (rule "1.IH" [OF True s7 i'b])
      show "unat (drop_bit 7 x) * 2 ^ (shift + 7) < 2 ^ ?L"
        using x "1.prems"(3) i' by linarith
      show "shift + 7 = 0 \<or> 0 < unat (drop_bit 7 x)" using True by (simp add: unat_drop_bit div_greater_zero_iff)
    qed
    moreover have "?b \<noteq> 0" using b by (auto simp: word_unat_eq_iff)
    moreover have "?b AND 0x80 \<noteq> 0" by (simp only: high_bit_clear b)
    ultimately show ?thesis
      using True s7 x by (simp add: write_varint_long Let_def)
  qed
qed

lemma read_varint_write:
  "read_varint (write_varint (v :: 'a::len word) @ rest) = (int (length (write_varint v)), v, rest)"
  unfolding read_varint_def read_varint_bits_def
  using read_write_loop [of 0 0 v 0 rest] by simp

text \<open>
  A loop that reports no error either read exactly the encoding of its result, or ran out of
  input in the middle of one.
\<close>

lemma read_loop_canonical:
  fixes i :: "'a::len word"
  assumes "shift < LENGTH('a)" and "unat i < 2 ^ shift"
    and "read_varint_loop LENGTH('a) shift i read bs = (n, v, rest)" and "0 \<le> n"
  shows "(\<exists>x :: 'a word. bs = write_varint x @ rest \<and> (shift = 0 \<or> x \<noteq> 0) \<and>
            unat x * 2 ^ shift < 2 ^ LENGTH('a)) \<or>
         (rest = [] \<and> n = read + int (length bs) \<and> (\<forall>b \<in> set bs. 128 \<le> unat b))"
  using assms
proof (induction bs arbitrary: shift i read)
  case (Cons b bs)
  let ?L = "LENGTH('a)"
  let ?i = "i OR push_bit shift (ucast (b AND 0x7f)) :: 'a word"
  from Cons.prems(3,4) have nov: "\<not> (?L \<le> shift + 7 \<and> 2 ^ (?L - shift) \<le> unat b)"
    and nz: "\<not> (b = 0 \<and> shift \<noteq> 0)"
    by (auto split: if_splits)
  have e: "(2 :: nat) ^ ?L = 2 ^ (?L - shift) * 2 ^ shift"
    using Cons.prems(1) by (simp flip: power_add)
  show ?case
  proof (cases "b AND 0x80 = 0")
    case True
    then have b: "unat b < 128" by (simp add: high_bit_clear)
    have "unat b < 2 ^ (?L - shift)"
    proof (cases "?L \<le> shift + 7")
      case False
      then have "(2 :: nat) ^ 7 \<le> 2 ^ (?L - shift)" by (intro power_increasing) simp_all
      with b show ?thesis by simp
    qed (use nov in simp)
    then have bs: "unat b * 2 ^ shift < 2 ^ ?L" unfolding e by simp
    have "unat b < 2 ^ ?L"
      using \<open>unat b < 2 ^ (?L - shift)\<close> by (rule order_less_le_trans) (simp add: power_increasing)
    then have x: "unat (ucast b :: 'a word) = unat b" by (simp add: unat_ucast_mod)
    then have "write_varint (ucast b :: 'a word) = [b]"
      using b by (simp add: write_varint_short word_unat_eq_iff unat_ucast_mod)
    moreover have "rest = bs"
      using Cons.prems(3,4) True by (auto split: if_splits simp: Let_def)
    moreover have "shift = 0 \<or> (ucast b :: 'a word) \<noteq> 0"
      using nz x by (auto simp: word_unat_eq_iff)
    ultimately show ?thesis using bs x by (intro disjI1 exI [of _ "ucast b"]) simp
  next
    case False
    then have b: "128 \<le> unat b" by (simp add: high_bit_clear)
    have s7: "shift + 7 < ?L"
    proof (rule ccontr)
      assume "\<not> shift + 7 < ?L"
      then have "(2 :: nat) ^ (?L - shift) \<le> 2 ^ 7" by (intro power_increasing) simp_all
      with b nov \<open>\<not> shift + 7 < ?L\<close> show False by simp
    qed
    have low: "unat (b AND 0x7f) < 128" by (simp add: unat_low7)
    have p: "(2 :: nat) ^ (shift + 7) = 128 * 2 ^ shift" by (simp add: power_add)
    have "(2 :: nat) ^ (shift + 7) \<le> 2 ^ ?L" using s7 by (intro power_increasing) simp_all
    moreover have "unat (b AND 0x7f) * 2 ^ shift < 128 * 2 ^ shift" using low by simp
    ultimately have "unat (b AND 0x7f) * 2 ^ shift < 2 ^ ?L" using p by linarith
    from unat_or_shifted_byte [OF Cons.prems(1,2) this]
    have i': "unat ?i < 2 ^ (shift + 7)"
      using digit_below [OF Cons.prems(2) low] by simp
    have r: "read_varint_loop ?L (shift + 7) ?i (read + 1) bs = (n, v, rest)"
      using Cons.prems(3) False nov nz by (simp add: Let_def split: if_splits)
    from Cons.IH [OF s7 i' r Cons.prems(4)] show ?thesis
    proof (rule disjE)
      assume "\<exists>x :: 'a word. bs = write_varint x @ rest \<and> (shift + 7 = 0 \<or> x \<noteq> 0) \<and>
        unat x * 2 ^ (shift + 7) < 2 ^ ?L"
      then obtain x :: "'a word" where x: "bs = write_varint x @ rest" "unat x * 2 ^ (shift + 7) < 2 ^ ?L"
        and "shift + 7 = 0 \<or> x \<noteq> 0" by blast
      then have x0: "0 < unat x" by (simp add: unat_gt_0)
      define y where "y = unat x * 128 + unat b mod 128"
      have e7: "(2 :: nat) ^ ?L = 2 ^ (?L - (shift + 7)) * 2 ^ (shift + 7)"
        using s7 by (simp flip: power_add)
      have "y * 2 ^ shift < (unat x + 1) * 128 * 2 ^ shift"
        by (rule mult_strict_right_mono) (simp_all add: y_def)
      also have "\<dots> = (unat x + 1) * 2 ^ (shift + 7)"
        by (simp only: p mult.assoc)
      also have "\<dots> \<le> 2 ^ ?L"
        using x(2) unfolding e7 by (intro mult_right_mono) simp_all
      finally have y: "y * 2 ^ shift < 2 ^ ?L" .
      have "y \<le> y * 2 ^ shift" by simp
      then have "y < 2 ^ ?L" using y by (rule order_le_less_trans)
      then have uy: "unat (of_nat y :: 'a word) = y" by (simp add: unat_of_nat)
      have "drop_bit 7 (of_nat y :: 'a word) = x"
        by (simp add: word_unat_eq_iff unat_drop_bit uy) (simp add: y_def)
      moreover have "(ucast (of_nat y :: 'a word) AND 0x7f) OR 0x80 = b"
      proof -
        have "unat b mod 128 + 128 = unat b"
        proof -
          have "unat b < 128 + 128" by (rule order_less_le_trans [OF unat_u8_bound]) simp
          then have "(unat b - 128) mod 128 = unat b - 128" using b by (intro mod_less) linarith
          then show ?thesis using b by (simp add: le_mod_geq)
        qed
        moreover have "y mod 128 = unat b mod 128" unfolding y_def by simp
        ultimately show ?thesis
          by (simp add: word_unat_eq_iff unat_or_high unat_ucast_byte_mod128 uy)
      qed
      ultimately have "b # bs = write_varint (of_nat y :: 'a word) @ rest"
        using x x0 uy by (simp add: write_varint_long y_def)
      then show ?thesis using y uy x0
        by (intro disjI1 exI [of _ "of_nat y"]) (auto simp: word_unat_eq_iff y_def)
    qed (use b in auto)
  qed
qed simp

lemma read_varint_accepts_only_encodings:
  assumes "read_varint bs = (n, v :: 'a::len word, rest)" and "0 \<le> n"
  shows "(bs = write_varint v @ rest \<and> n = int (length (write_varint v))) \<or>
    (rest = [] \<and> n = int (length bs) \<and> (\<forall>b \<in> set bs. 128 \<le> unat b))"
proof -
  have "read_varint_loop LENGTH('a) 0 (0 :: 'a word) 0 bs = (n, v, rest)"
    using assms(1) by (simp add: read_varint_def read_varint_bits_def)
  from read_loop_canonical [OF _ _ this assms(2)]
  have "(\<exists>x :: 'a word. bs = write_varint x @ rest) \<or>
      (rest = [] \<and> n = int (length bs) \<and> (\<forall>b \<in> set bs. 128 \<le> unat b))"
    by auto
  then show ?thesis
  proof
    assume "\<exists>x :: 'a word. bs = write_varint x @ rest"
    then obtain x :: "'a word" where "bs = write_varint x @ rest" by blast
    moreover from this assms(1) read_varint_write [of x rest]
    have "n = int (length (write_varint x))" and "v = x" by auto
    ultimately show ?thesis by simp
  qed simp
qed

subsection \<open>Properties\<close>

text \<open>Whatever follows it in the input, \<open>read_varint\<close> reads back the value that
  \<open>write_varint\<close> wrote, reports the number of bytes written, and leaves the rest.\<close>
theorem varint_roundtrip:
  "read_varint (write_varint (v :: 'a::len word) @ rest) = (int (length (write_varint v)), v, rest)"
  by (rule read_varint_write)

text \<open>\<open>read_varint\<close> accepts canonical encodings only: when it reports no error, what it
  read is exactly \<open>write_varint\<close> of its result, or the input ended in the middle of a varint
  (every byte had its continuation bit set).\<close>
theorem varint_canonical:
  assumes "read_varint bs = (n, v :: 'a::len word, rest)" and "0 \<le> n"
  shows "(bs = write_varint v @ rest \<and> n = int (length (write_varint v))) \<or>
    (rest = [] \<and> n = int (length bs) \<and> (\<forall>b \<in> set bs. 128 \<le> unat b))"
  by (rule read_varint_accepts_only_encodings [OF assms])

theorem varint_canonical_witness:
  "([0xAC, 0x02] = write_varint (300 :: u64) @ [] \<and> 2 = int (length (write_varint (300 :: u64)))) \<or>
    ([] = ([] :: bytes) \<and> 2 = int (length [0xAC :: u8, 0x02]) \<and> (\<forall>b \<in> set [0xAC :: u8, 0x02]. 128 \<le> unat b))"
  by (rule varint_canonical) (simp_all add: read_varint_def read_varint_bits_def)

text \<open>The size that \<open>get_varint_packed_size\<close> computes without encoding is the length of
  the encoding.\<close>
theorem varint_packed_size: "get_varint_packed_size (v :: u64) = length (write_varint v)"
  by (rule packed_size_exact) simp

end
