(* ===== verification/IntUtil.thy ===== *)
theory IntUtil
  imports Prelude
begin

unbundle bit_operations_syntax

section \<open>Integer helpers (src/src/common/int-util.h)\<close>

text \<open>
  The rotation, 64 x 64 to 128 bit multiplication, 128 by 32 bit division and byte-order
  helpers of \<open>int-util.h\<close> (the branches compiled by a non-Microsoft, little-endian
  target). The lemmas say that the multi-word arithmetic computes exactly the product, the
  quotient and the remainder, that its assertion never fires, and that the byte swaps
  reverse the bytes.
\<close>

subsection \<open>Rotations\<close>

definition rol32 :: "u32 \<Rightarrow> int \<Rightarrow> u32" where
  "rol32 x r = push_bit (nat (r AND 31)) x OR drop_bit (nat ((- r) AND 31)) x"

definition rol64 :: "u64 \<Rightarrow> int \<Rightarrow> u64" where
  "rol64 x r = push_bit (nat (r AND 63)) x OR drop_bit (nat ((- r) AND 63)) x"

subsection \<open>Multiplication\<close>

definition hi_dword :: "u64 \<Rightarrow> u64" where
  "hi_dword val = drop_bit 32 val"

definition lo_dword :: "u64 \<Rightarrow> u64" where
  "lo_dword val = val AND 0xFFFFFFFF"

text \<open>
  The result is the pair of the returned low word and the out-parameter \<open>product_hi\<close>.
  The C function ends with \<open>assert(ac <= *product_hi)\<close>; \<open>mul128_assert\<close> is its condition.
\<close>

definition mul128_manually :: "u64 \<Rightarrow> u64 \<Rightarrow> u64 \<times> u64" where
  "mul128_manually multiplier multiplicand =
     (let a = hi_dword multiplier; b = lo_dword multiplier;
          c = hi_dword multiplicand; d = lo_dword multiplicand;
          ac = a * c; ad = a * d; bc = b * c; bd = b * d;
          adbc = ad + bc;
          adbc_carry = (if adbc < ad then 1 else 0);
          product_lo = bd + push_bit 32 adbc;
          product_lo_carry = (if product_lo < bd then 1 else 0)
      in (product_lo, ac + drop_bit 32 adbc + push_bit 32 adbc_carry + product_lo_carry))"

definition mul128_assert :: "u64 \<Rightarrow> u64 \<Rightarrow> bool" where
  "mul128_assert multiplier multiplicand \<longleftrightarrow>
     hi_dword multiplier * hi_dword multiplicand \<le> snd (mul128_manually multiplier multiplicand)"

definition mul128 :: "u64 \<Rightarrow> u64 \<Rightarrow> u64 \<times> u64" where
  "mul128 multiplier multiplicand = mul128_manually multiplier multiplicand"

subsection \<open>Division\<close>

text \<open>
  \<open>div_with_reminder\<close> returns the quotient and the new value of \<open>*remainder\<close>. A zero
  divisor traps in C, which is \<open>None\<close> here.
\<close>

definition div_with_reminder :: "u64 \<Rightarrow> u32 \<Rightarrow> u32 \<Rightarrow> (u64 \<times> u32) option" where
  "div_with_reminder dividend0 divisor remainder =
     (let dividend = dividend0 OR push_bit 32 (ucast remainder :: u64)
      in if divisor = 0 then None
         else Some (dividend div ucast divisor, ucast (dividend mod ucast divisor)))"

text \<open>The result is \<open>(remainder, quotient_hi, quotient_lo)\<close>.\<close>

definition div128_32_manually :: "u64 \<Rightarrow> u64 \<Rightarrow> u32 \<Rightarrow> (u32 \<times> u64 \<times> u64) option" where
  "div128_32_manually dividend_hi dividend_lo divisor =
     Option.bind (div_with_reminder (hi_dword dividend_hi) divisor 0) (\<lambda>(q3, r3).
     Option.bind (div_with_reminder (lo_dword dividend_hi) divisor r3) (\<lambda>(q2, r2).
     Option.bind (div_with_reminder (hi_dword dividend_lo) divisor r2) (\<lambda>(q1, r1).
     Option.bind (div_with_reminder (lo_dword dividend_lo) divisor r1) (\<lambda>(q0, r0).
       Some (r0, push_bit 32 q3 OR q2, push_bit 32 q1 OR q0)))))"

definition div128_32 :: "u64 \<Rightarrow> u64 \<Rightarrow> u32 \<Rightarrow> (u32 \<times> u64 \<times> u64) option" where
  "div128_32 dividend_hi dividend_lo divisor = div128_32_manually dividend_hi dividend_lo divisor"

subsection \<open>Byte order\<close>

definition SWAP64 :: "u64 \<Rightarrow> u64" where
  "SWAP64 x =
     push_bit 56 (x AND 0x00000000000000ff) OR push_bit 40 (x AND 0x000000000000ff00) OR
     push_bit 24 (x AND 0x0000000000ff0000) OR push_bit 8 (x AND 0x00000000ff000000) OR
     drop_bit 8 (x AND 0x000000ff00000000) OR drop_bit 24 (x AND 0x0000ff0000000000) OR
     drop_bit 40 (x AND 0x00ff000000000000) OR drop_bit 56 (x AND 0xff00000000000000)"

definition SWAP32 :: "u32 \<Rightarrow> u32" where
  "SWAP32 x =
     push_bit 24 (x AND 0x000000ff) OR push_bit 8 (x AND 0x0000ff00) OR
     drop_bit 8 (x AND 0x00ff0000) OR drop_bit 24 (x AND 0xff000000)"

definition swap32 :: "u32 \<Rightarrow> u32" where
  "swap32 x0 =
     (let x = push_bit 8 (x0 AND 0x00ff00ff) OR drop_bit 8 (x0 AND 0xff00ff00)
      in push_bit 16 x OR drop_bit 16 x)"

definition swap64 :: "u64 \<Rightarrow> u64" where
  "swap64 x0 =
     (let x1 = push_bit 8 (x0 AND 0x00ff00ff00ff00ff) OR drop_bit 8 (x0 AND 0xff00ff00ff00ff00);
          x2 = push_bit 16 (x1 AND 0x0000ffff0000ffff) OR drop_bit 16 (x1 AND 0xffff0000ffff0000)
      in push_bit 32 x2 OR drop_bit 32 x2)"

definition mem_inplace_swap32 :: "u32 list \<Rightarrow> u32 list" where
  "mem_inplace_swap32 mem = map swap32 mem"

definition mem_inplace_swap64 :: "u64 list \<Rightarrow> u64 list" where
  "mem_inplace_swap64 mem = map swap64 mem"

text \<open>\<open>memcpy_swap32(dst, src, n)\<close> writes the first \<open>n\<close> words of \<open>dst\<close>.\<close>

definition memcpy_swap32 :: "u32 list \<Rightarrow> u32 list \<Rightarrow> nat \<Rightarrow> u32 list" where
  "memcpy_swap32 dst src n = map swap32 (take n src) @ drop n dst"

definition memcpy_swap64 :: "u64 list \<Rightarrow> u64 list \<Rightarrow> nat \<Rightarrow> u64 list" where
  "memcpy_swap64 dst src n = map swap64 (take n src) @ drop n dst"

subsection \<open>The product is exact\<close>

lemma unat_hi_dword: "unat (hi_dword x) = unat x div 2 ^ 32"
  unfolding hi_dword_def unat_drop_bit_eq by (rule drop_bit_eq_div)

lemma unat_lo_dword: "unat (lo_dword x) = unat x mod 2 ^ 32"
proof -
  have "lo_dword x = x AND mask 32"
    by (simp add: lo_dword_def mask_eq_exp_minus_1)
  then show ?thesis
    by (simp only: take_bit_eq_mask [symmetric] unsigned_take_bit_eq) (rule take_bit_eq_mod)
qed

lemma unat_hi_dword_bound: "unat (hi_dword x) < 2 ^ 32"
  unfolding unat_hi_dword by (rule less_mult_imp_div_less) simp

lemma unat_lo_dword_bound: "unat (lo_dword x) < 2 ^ 32"
  by (simp add: unat_lo_dword)

lemma unat_dwords: "unat x = unat (hi_dword x) * 2 ^ 32 + unat (lo_dword x)"
  by (simp add: unat_hi_dword unat_lo_dword)

lemma unat_dword_product:
  assumes "unat (x :: u64) < 2 ^ 32" and "unat y < 2 ^ 32"
  shows "unat (x * y) = unat x * unat y"
proof -
  have "unat x * unat y < 2 ^ 32 * 2 ^ 32"
    using assms by (intro mult_strict_mono') simp_all
  then show ?thesis by (simp add: unat_u64_mult)
qed

lemma unat_push_bit_32: "unat (push_bit 32 (x :: u64)) = (unat x mod 2 ^ 32) * 2 ^ 32"
  by (simp add: push_bit_eq_mult unat_u64_mult mult_mod_left)

text \<open>Schoolbook multiplication in base \<open>B\<close>, with the two carries the code keeps.\<close>

lemma schoolbook_carries:
  fixes ac adbc bd B M :: nat
  assumes "M = B * B" and "0 < B"
  shows "ac * M + adbc * B + bd =
     (ac + adbc mod M div B + adbc div M * B + (bd + adbc mod M mod B * B) div M) * M
       + (bd + adbc mod M mod B * B) mod M"
proof -
  let ?l = "bd + adbc mod M mod B * B"
  obtain p q r where p: "adbc div M = p" and q: "adbc mod M div B = q" and r: "adbc mod M mod B = r"
    by blast
  have "adbc = adbc div M * M + (adbc mod M div B * B + adbc mod M mod B)"
    by simp
  then have "adbc = p * M + (q * B + r)" by (simp only: p q r)
  then have "ac * M + adbc * B + bd = (ac + q + p * B) * M + (bd + r * B)"
    using assms(1) by (simp add: algebra_simps)
  also have "\<dots> = (ac + adbc mod M div B + adbc div M * B) * M + ?l"
    by (simp only: p q r)
  also have "?l = ?l div M * M + ?l mod M" by simp
  finally show ?thesis by (simp add: algebra_simps)
qed

lemma carry_div:
  fixes x y :: u64
  shows "(if x + y < x then 1 else 0 :: u64) = of_nat ((unat x + unat y) div 2 ^ 64)"
proof (cases "unat x + unat y < 2 ^ 64")
  case True
  then have "\<not> x + y < x" by (simp add: add_wraps_iff)
  with True show ?thesis by simp
next
  case False
  have "unat x + unat y < 2 * 2 ^ 64"
    using unat_u64_lt [of x] unat_u64_lt [of y] by linarith
  with False have "(unat x + unat y) div 2 ^ 64 = 1"
    by (simp add: div_nat_eqI)
  moreover from False have "x + y < x" by (simp add: add_wraps_iff)
  ultimately show ?thesis by simp
qed

theorem mul128_exact:
  "unat (snd (mul128 x y)) * 2 ^ 64 + unat (fst (mul128 x y)) = unat x * unat y"
proof -
  let ?a = "hi_dword x" and ?b = "lo_dword x" and ?c = "hi_dword y" and ?d = "lo_dword y"
  let ?B = "2 ^ 32 :: nat" and ?M = "2 ^ 64 :: nat"
  note bnd = unat_hi_dword_bound unat_lo_dword_bound
  define ac where "ac = unat ?a * unat ?c"
  define bd where "bd = unat ?b * unat ?d"
  define adbc where "adbc = unat ?a * unat ?d + unat ?b * unat ?c"
  have w: "unat (?a * ?c) = ac" "unat (?b * ?d) = bd"
    "unat (?a * ?d) = unat ?a * unat ?d" "unat (?b * ?c) = unat ?b * unat ?c"
    unfolding ac_def bd_def by (rule unat_dword_product; rule bnd)+
  have s: "unat (?a * ?d + ?b * ?c) = adbc mod ?M"
    by (simp add: unat_u64_add w adbc_def)
  have lo: "unat (fst (mul128 x y)) = (bd + adbc mod ?M mod ?B * ?B) mod ?M"
    unfolding mul128_def mul128_manually_def Let_def
    by (simp only: fst_conv unat_u64_add [of "?b * ?d"] unat_push_bit_32 s w) simp
  have tot: "unat x * unat y = ac * ?M + adbc * ?B + bd"
    unfolding ac_def bd_def adbc_def
    by (subst unat_dwords [of x], subst unat_dwords [of y]) (simp add: algebra_simps)
  define hi where "hi = ac + adbc mod ?M div ?B + adbc div ?M * ?B + (bd + adbc mod ?M mod ?B * ?B) div ?M"
  have split: "unat x * unat y = hi * ?M + (bd + adbc mod ?M mod ?B * ?B) mod ?M"
    unfolding tot hi_def by (rule schoolbook_carries) simp_all
  have "unat x * unat y < ?M * ?M"
    using unat_u64_bound [of x] unat_u64_bound [of y] by (intro mult_strict_mono') simp_all
  with split have hib: "hi < ?M" by (simp add: less_mult_imp_div_less) 
  have hi: "snd (mul128 x y) = of_nat hi"
  proof -
    have c1: "(if ?a * ?d + ?b * ?c < ?a * ?d then 1 else 0 :: u64) = of_nat (adbc div ?M)"
      by (simp only: carry_div w adbc_def)
    have c2: "(if ?b * ?d + push_bit 32 (?a * ?d + ?b * ?c) < ?b * ?d then 1 else 0 :: u64) =
        of_nat ((bd + adbc mod ?M mod ?B * ?B) div ?M)"
      by (simp only: carry_div unat_push_bit_32 s w)
    have d: "drop_bit 32 (?a * ?d + ?b * ?c) = of_nat (adbc mod ?M div ?B)"
      unfolding hi_dword_def [symmetric] by (rule word_eq_of_unat) (simp only: unat_hi_dword s)
    have p: "push_bit 32 (of_nat (adbc div ?M) :: u64) = of_nat (adbc div ?M * ?B)"
      by (simp add: push_bit_eq_mult)
    have ac: "?a * ?c = of_nat ac"
      by (rule word_eq_of_unat) (rule w(1))
    show ?thesis
      unfolding mul128_def mul128_manually_def Let_def snd_conv c1 c2 d p ac hi_def
      by (simp only: of_nat_add)
  qed
  then show ?thesis using hib lo split by (simp add: unat_of_nat)
qed

lemma mul128_assert_holds: "mul128_assert x y"
proof -
  let ?h = "snd (mul128 x y)"
  have "unat (hi_dword x * hi_dword y) * 2 ^ 64 \<le> unat x * unat y"
  proof -
    have "unat (hi_dword x) * 2 ^ 32 \<le> unat x" and "unat (hi_dword y) * 2 ^ 32 \<le> unat y"
      using unat_dwords [of x] unat_dwords [of y] by linarith+
    then have "(unat (hi_dword x) * 2 ^ 32) * (unat (hi_dword y) * 2 ^ 32) \<le> unat x * unat y"
      by (rule mult_le_mono)
    then show ?thesis
      by (simp add: unat_dword_product [OF unat_hi_dword_bound unat_hi_dword_bound])
  qed
  also have "\<dots> = unat ?h * 2 ^ 64 + unat (fst (mul128 x y))"
    by (rule mul128_exact [symmetric])
  also have "\<dots> < (unat ?h + 1) * 2 ^ 64"
    using unat_u64_lt [of "fst (mul128 x y)"] by simp
  finally have "unat (hi_dword x * hi_dword y) < unat ?h + 1"
    by (rule mult_less_cancel2 [THEN iffD1, THEN conjunct2])
  then show ?thesis
    by (simp add: mul128_assert_def mul128_def word_le_nat_alt)
qed

subsection \<open>The quotient and the remainder are exact\<close>

lemma div_with_reminder_exact:
  assumes d: "divisor \<noteq> 0" and r: "remainder < divisor" and w: "unat dw < 2 ^ 32"
  obtains q r' where "div_with_reminder dw divisor remainder = Some (q, r')"
    and "unat remainder * 2 ^ 32 + unat dw = unat q * unat divisor + unat r'"
    and "r' < divisor" and "unat q < 2 ^ 32"
proof -
  let ?n = "dw OR push_bit 32 (ucast remainder :: u64)"
  let ?D = "ucast divisor :: u64"
  have ur: "unat (ucast remainder :: u64) = unat remainder" and ud: "unat ?D = unat divisor"
    by simp_all
  have d0: "0 < unat divisor" using d by (simp add: unat_gt_0)
  have rd: "unat remainder < unat divisor" using r by (simp add: word_less_nat_alt)
  have pb: "unat (push_bit 32 (ucast remainder :: u64)) = unat remainder * 2 ^ 32"
    unfolding unat_push_bit_32 ur using unat_u32_lt [of remainder] by simp
  have sum: "unat remainder * 2 ^ 32 + unat dw < unat divisor * 2 ^ 32"
  proof -
    have "unat remainder * 2 ^ 32 + unat dw < (unat remainder + 1) * 2 ^ 32" using w by simp
    also have "\<dots> \<le> unat divisor * 2 ^ 32" using rd by (intro mult_right_mono) simp_all
    finally show ?thesis .
  qed
  have "?n = push_bit 32 (ucast remainder) + dw"
    using or_shifted_disjoint [OF w] by (simp add: or.commute)
  moreover have "unat divisor * 2 ^ 32 \<le> 2 ^ 32 * 2 ^ 32"
    using unat_u32_lt [of divisor] by (intro mult_right_mono less_imp_le) simp_all
  then have "unat remainder * 2 ^ 32 + unat dw < 2 ^ 64"
    using sum by simp
  ultimately have n: "unat ?n = unat remainder * 2 ^ 32 + unat dw"
    by (simp add: unat_u64_add pb)
  have q: "unat (?n div ?D) < 2 ^ 32"
    unfolding unat_div_distrib n ud using sum by (simp add: less_mult_imp_div_less mult.commute)
  have m: "unat (?n mod ?D) < unat divisor"
    unfolding unat_mod_distrib ud using d0 by simp
  have r': "unat (ucast (?n mod ?D) :: u32) = unat (?n mod ?D)"
  proof -
    have "unat (?n mod ?D) < 2 ^ 32" using m unat_u32_lt [of divisor] by (rule order_less_trans)
    then show ?thesis by (simp add: unsigned_ucast_eq take_bit_nat_eq_self)
  qed
  show thesis
  proof (rule that)
    show "div_with_reminder dw divisor remainder = Some (?n div ?D, ucast (?n mod ?D))"
      using d by (simp add: div_with_reminder_def Let_def)
    show "unat remainder * 2 ^ 32 + unat dw = unat (?n div ?D) * unat divisor + unat (ucast (?n mod ?D) :: u32)"
      unfolding r' unat_div_distrib unat_mod_distrib n ud by simp
    show "(ucast (?n mod ?D) :: u32) < divisor"
      using m r' by (simp add: word_less_nat_alt)
    show "unat (?n div ?D) < 2 ^ 32" by (rule q)
  qed
qed

lemma unat_or_dwords:
  assumes "unat (h :: u64) < 2 ^ 32" and "unat l < 2 ^ 32"
  shows "unat (push_bit 32 h OR l) = unat h * 2 ^ 32 + unat l"
proof -
  have "unat h * 2 ^ 32 + unat l < 2 ^ 64" using assms by simp
  then show ?thesis
    using assms(1) by (simp add: or_shifted_disjoint [OF assms(2)] unat_u64_add unat_push_bit_32)
qed

theorem div128_32_exact:
  assumes "divisor \<noteq> 0"
  shows "\<exists>r qh ql. div128_32 dividend_hi dividend_lo divisor = Some (r, qh, ql) \<and>
    unat dividend_hi * 2 ^ 64 + unat dividend_lo =
      (unat qh * 2 ^ 64 + unat ql) * unat divisor + unat r \<and> unat r < unat divisor"
proof -
  let ?B = "2 ^ 32 :: nat"
  let ?w3 = "hi_dword dividend_hi" and ?w2 = "lo_dword dividend_hi"
    and ?w1 = "hi_dword dividend_lo" and ?w0 = "lo_dword dividend_lo"
  have z: "(0 :: u32) < divisor" using assms by (simp add: word_neq_0_conv)
  obtain q3 r3 where 3: "div_with_reminder ?w3 divisor 0 = Some (q3, r3)"
      "unat (0::u32) * ?B + unat ?w3 = unat q3 * unat divisor + unat r3" "r3 < divisor" "unat q3 < ?B"
    by (rule div_with_reminder_exact [OF assms z unat_hi_dword_bound])
  obtain q2 r2 where 2: "div_with_reminder ?w2 divisor r3 = Some (q2, r2)"
      "unat r3 * ?B + unat ?w2 = unat q2 * unat divisor + unat r2" "r2 < divisor" "unat q2 < ?B"
    by (rule div_with_reminder_exact [OF assms 3(3) unat_lo_dword_bound])
  obtain q1 r1 where 1: "div_with_reminder ?w1 divisor r2 = Some (q1, r1)"
      "unat r2 * ?B + unat ?w1 = unat q1 * unat divisor + unat r1" "r1 < divisor" "unat q1 < ?B"
    by (rule div_with_reminder_exact [OF assms 2(3) unat_hi_dword_bound])
  obtain q0 r0 where 0: "div_with_reminder ?w0 divisor r1 = Some (q0, r0)"
      "unat r1 * ?B + unat ?w0 = unat q0 * unat divisor + unat r0" "r0 < divisor" "unat q0 < ?B"
    by (rule div_with_reminder_exact [OF assms 1(3) unat_lo_dword_bound])
  have "unat dividend_hi * 2 ^ 64 + unat dividend_lo =
      ((unat ?w3 * ?B + unat ?w2) * ?B + unat ?w1) * ?B + unat ?w0"
    using unat_dwords [of dividend_hi] unat_dwords [of dividend_lo] by simp
  also have "\<dots> = ((unat q3 * ?B + unat q2) * 2 ^ 64 + (unat q1 * ?B + unat q0)) * unat divisor + unat r0"
    using 3(2) 2(2) 1(2) 0(2) by (simp add: algebra_simps)
  finally show ?thesis
    using 0 1 2 3 unfolding div128_32_def div128_32_manually_def
    by (simp add: unat_or_dwords word_less_nat_alt)
qed

lemma div128_32_zero: "div128_32 dividend_hi dividend_lo 0 = None"
  by (simp add: div128_32_def div128_32_manually_def div_with_reminder_def)

lemma div128_32_quotient:
  assumes "div128_32 dividend_hi dividend_lo divisor = Some (r, qh, ql)"
  shows "unat qh * 2 ^ 64 + unat ql = (unat dividend_hi * 2 ^ 64 + unat dividend_lo) div unat divisor"
    and "unat r = (unat dividend_hi * 2 ^ 64 + unat dividend_lo) mod unat divisor"
proof -
  have "divisor \<noteq> 0" using assms div128_32_zero by force
  from div128_32_exact [OF this, of dividend_hi dividend_lo] assms
  have e: "unat dividend_hi * 2 ^ 64 + unat dividend_lo = (unat qh * 2 ^ 64 + unat ql) * unat divisor + unat r"
    and l: "unat r < unat divisor" by auto
  show "unat qh * 2 ^ 64 + unat ql = (unat dividend_hi * 2 ^ 64 + unat dividend_lo) div unat divisor"
    and "unat r = (unat dividend_hi * 2 ^ 64 + unat dividend_lo) mod unat divisor"
    unfolding e using l by simp_all
qed

subsection \<open>Byte order\<close>

text \<open>
  Bit \<open>k\<close> of a swapped word is the same bit of the mirrored byte; so the macros and the
  functions agree, and swapping twice is the identity.
\<close>

lemma bit_swap64: "k < 64 \<Longrightarrow> bit (swap64 x) k = bit x (8 * (7 - k div 8) + k mod 8)"
proof -
  have "\<forall>k < 64. bit (swap64 x) k = bit x (8 * (7 - k div 8) + k mod 8)"
    unfolding all_less_64 by (simp add: swap64_def Let_def bit_simps flip: numeral_2_eq_2)
  then show "k < 64 \<Longrightarrow> ?thesis" by blast
qed

lemma bit_SWAP64: "k < 64 \<Longrightarrow> bit (SWAP64 x) k = bit x (8 * (7 - k div 8) + k mod 8)"
proof -
  have "\<forall>k < 64. bit (SWAP64 x) k = bit x (8 * (7 - k div 8) + k mod 8)"
    unfolding all_less_64 by (simp add: SWAP64_def bit_simps flip: numeral_2_eq_2)
  then show "k < 64 \<Longrightarrow> ?thesis" by blast
qed

lemma bit_swap32: "k < 32 \<Longrightarrow> bit (swap32 x) k = bit x (8 * (3 - k div 8) + k mod 8)"
proof -
  have "\<forall>k < 32. bit (swap32 x) k = bit x (8 * (3 - k div 8) + k mod 8)"
    unfolding all_less_32 by (simp add: swap32_def Let_def bit_simps flip: numeral_2_eq_2)
  then show "k < 32 \<Longrightarrow> ?thesis" by blast
qed

lemma bit_SWAP32: "k < 32 \<Longrightarrow> bit (SWAP32 x) k = bit x (8 * (3 - k div 8) + k mod 8)"
proof -
  have "\<forall>k < 32. bit (SWAP32 x) k = bit x (8 * (3 - k div 8) + k mod 8)"
    unfolding all_less_32 by (simp add: SWAP32_def bit_simps flip: numeral_2_eq_2)
  then show "k < 32 \<Longrightarrow> ?thesis" by blast
qed

lemma swap64_eq_SWAP64: "swap64 x = SWAP64 x"
  by (rule bit_word_eqI) (simp add: bit_swap64 bit_SWAP64)

lemma swap32_eq_SWAP32: "swap32 x = SWAP32 x"
  by (rule bit_word_eqI) (simp add: bit_swap32 bit_SWAP32)

lemma mirrored_byte:
  fixes k n :: nat
  assumes "k < 8 * Suc n"
  shows "8 * (n - (8 * (n - k div 8) + k mod 8) div 8) + (8 * (n - k div 8) + k mod 8) mod 8 = k"
    and "8 * (n - k div 8) + k mod 8 < 8 * Suc n"
proof -
  have d: "(8 * (n - k div 8) + k mod 8) div 8 = n - k div 8"
    and m: "(8 * (n - k div 8) + k mod 8) mod 8 = k mod 8" by simp_all
  have "k div 8 \<le> n" using assms by (simp add: less_mult_imp_div_less less_Suc_eq_le [symmetric] mult.commute)
  then show "8 * (n - (8 * (n - k div 8) + k mod 8) div 8) + (8 * (n - k div 8) + k mod 8) mod 8 = k"
    unfolding d m by simp
  show "8 * (n - k div 8) + k mod 8 < 8 * Suc n"
  proof -
    have "8 * c + b < 8 * Suc n" if "b < 8" "c \<le> n" for b c :: nat
      using that by simp
    then show ?thesis by simp
  qed
qed

theorem swap64_involution: "swap64 (swap64 x) = x"
proof (rule bit_word_eqI)
  fix k :: nat
  assume "k < LENGTH(64)"
  then show "bit (swap64 (swap64 x)) k = bit x k"
    using mirrored_byte [of k 7] by (simp add: bit_swap64)
qed

theorem swap32_involution: "swap32 (swap32 x) = x"
proof (rule bit_word_eqI)
  fix k :: nat
  assume "k < LENGTH(32)"
  then show "bit (swap32 (swap32 x)) k = bit x k"
    using mirrored_byte [of k 3] by (simp add: bit_swap32)
qed

lemma memcpy_swap64_twice:
  "n \<le> length src \<Longrightarrow> n \<le> length dst \<Longrightarrow>
    take n (memcpy_swap64 dst (memcpy_swap64 dst' src n) n) = take n src"
  by (simp add: memcpy_swap64_def swap64_involution o_def)

lemma mem_inplace_swap64_twice: "mem_inplace_swap64 (mem_inplace_swap64 mem) = mem"
  by (simp add: mem_inplace_swap64_def swap64_involution o_def)

lemma mem_inplace_swap32_twice: "mem_inplace_swap32 (mem_inplace_swap32 mem) = mem"
  by (simp add: mem_inplace_swap32_def swap32_involution o_def)

subsection \<open>Rotations are rotations\<close>

lemma rol64_eq_rotl: "rol64 x r = word_rotl (nat (r AND 63)) x"
proof (rule bit_word_eqI)
  fix k :: nat
  assume k: "k < LENGTH(64)"
  have a: "(r AND 63) = r mod 64" for r :: int
    using take_bit_eq_mask [of 6 r] by (simp add: take_bit_eq_mod mask_eq_exp_minus_1)
  define m where "m = nat (r mod 64)"
  have m: "m < 64" and r: "nat (r AND 63) = m" by (simp_all add: m_def a nat_less_iff)
  have n: "nat ((- r) AND 63) = (64 - m) mod 64"
  proof -
    have "(- r) mod 64 = (64 - r mod 64) mod 64"
      by (metis mod_diff_right_eq diff_0 mod_self mod_diff_left_eq)
    also have "64 - r mod 64 = int (64 - m)"
      using m unfolding m_def by (simp add: of_nat_diff nat_less_iff)
    finally show ?thesis unfolding a by (simp add: nat_mod_distrib del: of_nat_diff)
  qed
  show "bit (rol64 x r) k = bit (word_rotl (nat (r AND 63)) x) k"
  proof (cases "m = 0")
    case True
    then show ?thesis unfolding rol64_def n r using k by (simp add: bit_word_rotl_iff)
  next
    case False
    then have "(64 - m) mod 64 = 64 - m" by simp
    with m k False show ?thesis
      unfolding rol64_def n r
      by (auto simp: bit_simps bit_word_rotl_iff mod_if add.commute [of 64] not_less
          dest: bit_imp_le_length)
  qed
qed

subsection \<open>Properties\<close>

text \<open>The 128-bit product of \<open>mul128\<close>, read from its returned low word and its
  \<open>product_hi\<close> out-parameter, is the exact product of the operands, and the assertion at the
  end of the manual multiplication never fires.\<close>
theorem mul128_product:
  "unat (snd (mul128 x y)) * 2 ^ 64 + unat (fst (mul128 x y)) = unat x * unat y \<and> mul128_assert x y"
  by (rule conjI [OF mul128_exact mul128_assert_holds])

text \<open>\<open>div128_32\<close> by a non-zero divisor returns exactly the 128-bit quotient and the
  remainder of the dividend.\<close>
theorem div128_32_division:
  assumes "divisor \<noteq> 0"
  shows "\<exists>r qh ql. div128_32 dividend_hi dividend_lo divisor = Some (r, qh, ql) \<and>
    unat qh * 2 ^ 64 + unat ql = (unat dividend_hi * 2 ^ 64 + unat dividend_lo) div unat divisor \<and>
    unat r = (unat dividend_hi * 2 ^ 64 + unat dividend_lo) mod unat divisor"
  using div128_32_exact [OF assms, of dividend_hi dividend_lo] div128_32_quotient by blast

theorem div128_32_division_witness:
  "\<exists>r qh ql. div128_32 5 7 3 = Some (r, qh, ql) \<and>
    unat qh * 2 ^ 64 + unat ql = (unat (5 :: u64) * 2 ^ 64 + unat (7 :: u64)) div unat (3 :: u32) \<and>
    unat r = (unat (5 :: u64) * 2 ^ 64 + unat (7 :: u64)) mod unat (3 :: u32)"
  by (rule div128_32_division) simp

text \<open>The byte-order swaps reverse the bytes: bit \<open>k\<close> of \<open>swap64 x\<close> is the same bit of
  the mirrored byte of \<open>x\<close>, the function and the macro agree, and swapping twice restores
  the value.\<close>
theorem swap64_mirrors:
  "(\<forall>k < 64. bit (swap64 x) k = bit x (8 * (7 - k div 8) + k mod 8)) \<and>
    swap64 x = SWAP64 x \<and> swap64 (swap64 x) = x"
  using bit_swap64 swap64_eq_SWAP64 swap64_involution by blast

theorem swap64_mirrors_witness:
  "bit (swap64 (0x0100000000000000 :: u64)) 0"
  using swap64_mirrors [of "0x0100000000000000"] by (auto simp: bit_simps)

end
