(* ===== verification/Difficulty.thy ===== *)
theory Difficulty
  imports IntUtil "HOL-Library.Multiset"
begin

unbundle bit_operations_syntax

section \<open>Proof-of-work difficulty (src/src/currency_core/difficulty.cpp, difficulty_cache.cpp)\<close>

text \<open>
  The check of a block's hash against a difficulty, the difficulty boundaries, the retarget
  rule over the last blocks and the cache of the next difficulty. \<open>uint128_t\<close> of Boost is a
  128-bit word, \<open>std::vector\<close> a list, a thrown exception \<open>None\<close>. The lemmas characterise the
  64-bit fast path of \<open>check_hash\<close> by the product of the hash's value and the difficulty, show
  that the path for large difficulties rejects every hash, that the retarget rule succeeds on
  well-formed input and keeps a steady difficulty, and what the cache returns.
\<close>

type_synonym u128 = "128 word"
type_synonym wide_difficulty_type = u128

subsection \<open>Checking a hash\<close>

text \<open>The out-parameters are \<open>(low, high)\<close>.\<close>

definition mul :: "u64 \<Rightarrow> u64 \<Rightarrow> u64 \<times> u64" where
  "mul a b = (let res = (ucast a :: u128) * ucast b in (ucast res, ucast (drop_bit 64 res)))"

definition cadd :: "u64 \<Rightarrow> u64 \<Rightarrow> bool" where
  "cadd a b \<longleftrightarrow> a + b < a"

definition cadc :: "u64 \<Rightarrow> u64 \<Rightarrow> bool \<Rightarrow> bool" where
  "cadc a b c \<longleftrightarrow> a + b < a \<or> (c \<and> a + b = - 1)"

definition max64bit :: u128 where "max64bit = 2 ^ 64 - 1"

definition max128bit :: nat where "max128bit = 2 ^ 128 - 1"

definition max256bit :: "512 word" where "max256bit = 2 ^ 256 - 1"

text \<open>
  Byte \<open>i\<close> of the hash goes to byte \<open>31 - i\<close> of \<open>h\<close>; \<open>hash_word\<close> is \<open>swap64le(((const uint64_t *) &h)[i])\<close>,
  where \<open>swap64le\<close> is the identity on a little-endian target. The statement
  \<open>hashVal << 64;\<close> of the slow path has no effect.
\<close>

definition hash_word :: "bytes \<Rightarrow> nat \<Rightarrow> u64" where
  "hash_word h i = load64 (drop (8 * i) h)"

definition check_hash :: "bytes \<Rightarrow> wide_difficulty_type \<Rightarrow> bool" where
  "check_hash hash_in difficulty =
     (let h = rev hash_in
      in if difficulty < max64bit then
           let dl = (ucast difficulty :: u64);
               (top, high) = mul (hash_word h 3) dl
           in if high \<noteq> 0 then False
              else
                let (low, cur) = mul (hash_word h 0) dl;
                    (low, high) = mul (hash_word h 1) dl;
                    carry = cadd cur low;
                    cur = high;
                    (low, high) = mul (hash_word h 2) dl;
                    carry = cadc cur low carry;
                    carry = cadc high top carry
                in \<not> carry
         else if 0 < hash_word h 3 then False
         else
           let hashVal = fold (\<lambda>i hashVal. hashVal OR ucast (hash_word h (3 - i))) [1, 2, 3] (0 :: 512 word)
           in max256bit < hashVal * ucast difficulty)"

subsection \<open>Boundaries\<close>

text \<open>A zero difficulty makes Boost's division throw.\<close>

definition difficulty_to_boundary :: "wide_difficulty_type \<Rightarrow> u64 option" where
  "difficulty_to_boundary difficulty =
     (if difficulty = 0 then None
      else let nominal_hash = (- 1 :: 256 word) div ucast difficulty
           in Some (ucast (drop_bit 192 nominal_hash)))"

definition difficulty_to_boundary_long :: "wide_difficulty_type \<Rightarrow> bytes option" where
  "difficulty_to_boundary_long difficulty =
     (if difficulty = 0 then None
      else let nominal_hash = (- 1 :: 256 word) div ucast difficulty;
               step = (\<lambda>i (nominal_hash, result).
                 (drop_bit 64 nominal_hash, result @ store64 (ucast nominal_hash)))
           in Some (snd (fold step [0..<4] (nominal_hash, []))))"

subsection \<open>The retarget rule\<close>

definition DIFFICULTY_STARTER :: wide_difficulty_type where "DIFFICULTY_STARTER = 1"
definition DIFFICULTY_WINDOW :: nat where "DIFFICULTY_WINDOW = 720"
definition DIFFICULTY_CUT :: nat where "DIFFICULTY_CUT = 60"
definition DIFFICULTY_POS_TARGET :: u64 where "DIFFICULTY_POS_TARGET = 120"
definition DIFFICULTY_POW_TARGET :: u64 where "DIFFICULTY_POW_TARGET = 120"

text \<open>
  The part of the sorted vectors that a zone uses, from \<open>cut_begin\<close> to \<open>cut_end - 1\<close>.
\<close>

definition zone_cut :: "nat \<Rightarrow> nat \<Rightarrow> nat \<Rightarrow> nat \<Rightarrow> nat \<times> nat" where
  "zone_cut len window cut_old cut_last =
     (let cut_length = window - (cut_old + cut_last);
          cut_begin = (if len > cut_length + cut_last then cut_last
                       else if len > cut_length then len - cut_length
                       else 0);
          cut_end = cut_begin + cut_length;
          cut_end = (if cut_end > len then len else cut_end)
      in (cut_begin, cut_end))"

definition get_adjustment_for_zone ::
    "u64 list \<Rightarrow> wide_difficulty_type list \<Rightarrow> u64 \<Rightarrow> nat \<Rightarrow> nat \<Rightarrow> nat \<Rightarrow> wide_difficulty_type option" where
  "get_adjustment_for_zone timestamps_sorted cumulative_difficulties target_seconds window cut_old cut_last =
     (let (cut_begin, cut_end) = zone_cut (length timestamps_sorted) window cut_old cut_last
      in if \<not> (cut_begin + 2 \<le> cut_end \<and> cut_end \<le> length timestamps_sorted) then None
         else
           let time_span = timestamps_sorted ! cut_begin - timestamps_sorted ! (cut_end - 1);
               time_span = (if time_span = 0 then 1 else time_span)
           in if \<not> cumulative_difficulties ! (cut_end - 1) < cumulative_difficulties ! cut_begin then None
              else
                let total_work = cumulative_difficulties ! cut_begin - cumulative_difficulties ! (cut_end - 1);
                    res = (unat total_work * unat target_seconds + unat time_span - 1) div unat time_span;
                    res = (if res > max128bit then max128bit else res)
                in Some (of_nat res))"

definition adjust_zones ::
    "u64 list \<Rightarrow> wide_difficulty_type list \<Rightarrow> u64 \<Rightarrow> wide_difficulty_type option" where
  "adjust_zones timestamps cumulative_difficulties target_seconds =
     (case get_adjustment_for_zone timestamps cumulative_difficulties target_seconds
             DIFFICULTY_WINDOW (DIFFICULTY_CUT div 2) (DIFFICULTY_CUT div 2) of
        None \<Rightarrow> None
      | Some dif_slow \<Rightarrow>
          (case get_adjustment_for_zone timestamps cumulative_difficulties target_seconds
                  (DIFFICULTY_WINDOW div 3) (DIFFICULTY_CUT div 8) (DIFFICULTY_CUT div 12) of
             None \<Rightarrow> None
           | Some dif_medium \<Rightarrow>
               (case get_adjustment_for_zone timestamps cumulative_difficulties target_seconds
                       (DIFFICULTY_WINDOW div 18) (DIFFICULTY_CUT div 10) 2 of
                  None \<Rightarrow> None
                | Some dif_fast \<Rightarrow>
                    let res = (dif_slow + dif_medium + dif_fast) div 3
                    in Some (if res = 0 then DIFFICULTY_STARTER else res))))"

text \<open>
  \<open>std::vector::resize\<close> truncates a longer vector and pads a shorter one with zeros. The
  function also leaves its two vectors cut and sorted; the callers drop them, so only the
  result is modelled.
\<close>

definition next_difficulty ::
    "u64 list \<Rightarrow> wide_difficulty_type list \<Rightarrow> u64 \<Rightarrow> wide_difficulty_type option" where
  "next_difficulty timestamps0 cumulative_difficulties0 target_seconds =
     (let (timestamps, cumulative_difficulties) =
            (if length timestamps0 > DIFFICULTY_WINDOW
             then (take DIFFICULTY_WINDOW timestamps0,
                   take DIFFICULTY_WINDOW cumulative_difficulties0 @
                     replicate (DIFFICULTY_WINDOW - length cumulative_difficulties0) 0)
             else (timestamps0, cumulative_difficulties0))
      in if length timestamps \<noteq> length cumulative_difficulties then Some 0
         else if length timestamps \<le> 1 then Some DIFFICULTY_STARTER
         else if \<not> length timestamps \<le> DIFFICULTY_WINDOW then Some 0
         else adjust_zones (rev (sort timestamps)) cumulative_difficulties target_seconds)"

subsection \<open>The cache of the next difficulty\<close>

text \<open>\<open>m_diffs\<close> is indexed by \<open>is_pos\<close>; the lock makes every operation atomic.\<close>

record difficulty_cache =
  m_diffs :: "bool \<Rightarrow> wide_difficulty_type"
  m_chain_length :: nat

definition difficulty_cache_init :: difficulty_cache where
  "difficulty_cache_init = \<lparr>m_diffs = (\<lambda>_. 0), m_chain_length = 0\<rparr>"

definition difficulty_cache_get ::
    "difficulty_cache \<Rightarrow> bool \<Rightarrow> nat \<Rightarrow> wide_difficulty_type \<times> difficulty_cache" where
  "difficulty_cache_get c is_pos chain_length =
     (let c = (if chain_length \<noteq> m_chain_length c then c\<lparr>m_diffs := (m_diffs c)(is_pos := 0)\<rparr> else c)
      in (m_diffs c is_pos, c))"

definition difficulty_cache_set ::
    "difficulty_cache \<Rightarrow> wide_difficulty_type \<Rightarrow> bool \<Rightarrow> nat \<Rightarrow> difficulty_cache" where
  "difficulty_cache_set c diff is_pos chain_length =
     c\<lparr>m_diffs := (m_diffs c)(is_pos := diff), m_chain_length := chain_length\<rparr>"

definition difficulty_cache_reset :: "difficulty_cache \<Rightarrow> difficulty_cache" where
  "difficulty_cache_reset c = c\<lparr>m_diffs := (\<lambda>_. 0)\<rparr>"

definition difficulty_cache_reset_type :: "difficulty_cache \<Rightarrow> bool \<Rightarrow> difficulty_cache" where
  "difficulty_cache_reset_type c is_pos = c\<lparr>m_diffs := (m_diffs c)(is_pos := 0)\<rparr>"

subsection \<open>The products of the fast path\<close>

lemma mul_exact:
  shows "unat (fst (mul a b)) = unat a * unat b mod 2 ^ 64"
    and "unat (snd (mul a b)) = unat a * unat b div 2 ^ 64"
proof -
  have lt: "unat a * unat b < 2 ^ 64 * 2 ^ 64"
    using unat_u64_lt [of a] unat_u64_lt [of b] by (intro mult_strict_mono) simp_all
  have "unat (ucast a :: u128) = unat a" and "unat (ucast b :: u128) = unat b"
    by (simp_all add: unat_ucast_up)
  then have p: "unat ((ucast a :: u128) * ucast b) = unat a * unat b"
    using lt by (simp add: unat_word_ariths)
  show "unat (fst (mul a b)) = unat a * unat b mod 2 ^ 64"
    by (simp add: mul_def Let_def unat_ucast_mod p)
  have "unat a * unat b div 2 ^ 64 < 2 ^ 64" using lt by (rule less_mult_imp_div_less)
  then show "unat (snd (mul a b)) = unat a * unat b div 2 ^ 64"
    by (simp add: mul_def Let_def unat_ucast_mod unat_drop_bit p)
qed

lemma mul_split: "unat a * unat b = unat (fst (mul a b)) + 2 ^ 64 * unat (snd (mul a b))"
  unfolding mul_exact by simp

lemma cadd_iff: "cadd a b \<longleftrightarrow> 2 ^ 64 \<le> unat a + unat b"
  by (simp add: cadd_def add_wraps_iff)

lemma cadc_iff: "cadc a b c \<longleftrightarrow> 2 ^ 64 \<le> unat a + unat b + of_bool c"
proof (cases "unat a + unat b < 2 ^ 64")
  case True
  then have s: "unat (a + b) = unat a + unat b" by (simp add: unat_add_no_wrap)
  have "a + b = - 1 \<longleftrightarrow> unat (a + b) = 2 ^ 64 - 1"
    by (simp add: word_unat_eq_iff unsigned_minus_1_eq_mask mask_eq_exp_minus_1)
  with True show ?thesis
    unfolding cadc_def add_wraps_iff s by auto
next
  case False
  then show ?thesis by (simp add: cadc_def add_wraps_iff)
qed

lemma of_bool_le_1: "of_bool b \<le> (1 :: nat)"
  by simp

lemma carry_step:
  fixes x R Y M :: nat
  assumes "x < 2 * M"
  shows "x + M * R < M * Y \<longleftrightarrow> of_bool (M \<le> x) + R < Y"
proof -
  have M: "0 < M" using assms by simp
  have "x + M * R < M * Y \<longleftrightarrow> (x + M * R) div M < Y"
    using div_less_iff_less_mult [OF M, of "x + M * R" Y] by (simp only: mult.commute)
  also have "(x + M * R) div M = x div M + R" using M by simp
  also have "x div M = of_bool (M \<le> x)"
    using assms by (cases "M \<le> x") (simp_all add: div_nat_eqI)
  finally show ?thesis .
qed

subsection \<open>The value of a hash\<close>

lemma hash_words_value:
  assumes "length hash_in = 32"
  shows "be_nat hash_in = unat (hash_word (rev hash_in) 0) + 2 ^ 64 * (unat (hash_word (rev hash_in) 1) +
    2 ^ 64 * (unat (hash_word (rev hash_in) 2) + 2 ^ 64 * unat (hash_word (rev hash_in) 3)))"
proof -
  let ?h = "rev hash_in"
  have step: "le_nat (drop (8 * i) ?h) = unat (hash_word ?h i) + 2 ^ 64 * le_nat (drop (8 * (i + 1)) ?h)"
    if "i < 4" for i
  proof -
    have l: "8 \<le> length (drop (8 * i) ?h)" using that assms by simp
    have "drop (8 * i) ?h = take 8 (drop (8 * i) ?h) @ drop (8 * (i + 1)) ?h"
      by (metis append_take_drop_id drop_drop mult.commute mult_Suc_right Suc_eq_plus1 add.commute)
    then have "le_nat (drop (8 * i) ?h) =
        le_nat (take 8 (drop (8 * i) ?h)) + 256 ^ 8 * le_nat (drop (8 * (i + 1)) ?h)"
      using le_nat_append [of "take 8 (drop (8 * i) ?h)" "drop (8 * (i + 1)) ?h"] l by simp
    then show ?thesis using unat_load64 [OF l] by (simp add: hash_word_def)
  qed
  have "be_nat hash_in = le_nat (drop (8 * 0) ?h)" by (simp add: le_nat_rev)
  also have "le_nat (drop (8 * 4) ?h) = 0" using assms by simp
  ultimately show ?thesis
    using step [of 0] step [of 1] step [of 2] step [of 3] by simp
qed

lemma check_hash_small_iff:
  assumes len: "length hash_in = 32" and d: "unat difficulty < 2 ^ 64 - 1"
  shows "check_hash hash_in difficulty \<longleftrightarrow> be_nat hash_in * unat difficulty < 2 ^ 256"
proof -
  let ?M = "2 ^ 64 :: nat"
  define w where "w = (\<lambda>i. hash_word (rev hash_in) i)"
  define dl where "dl = (ucast difficulty :: u64)"
  have dl: "unat dl = unat difficulty"
    using d by (simp add: dl_def unat_ucast_mod)
  define l where "l = (\<lambda>i. fst (mul (w i) dl))"
  define h where "h = (\<lambda>i. snd (mul (w i) dl))"
  have p: "unat (w i) * unat dl = unat (l i) + ?M * unat (h i)" for i
    unfolding l_def h_def by (rule mul_split)
  have small: "difficulty < max64bit"
    using d by (simp add: word_less_nat_alt max64bit_def unat_sub_le word_le_nat_alt)
  define c1 where "c1 = cadd (h 0) (l 1)"
  define c2 where "c2 = cadc (h 1) (l 2) c1"
  define c3 where "c3 = cadc (h 2) (l 3) c2"
  have code: "check_hash hash_in difficulty \<longleftrightarrow> h 3 = 0 \<and> \<not> c3"
    using small unfolding check_hash_def
    by (auto simp: Let_def c1_def c2_def c3_def l_def h_def w_def dl_def split: prod.splits)
  have b0: "unat (l 0) < 2 * ?M" and n0: "of_bool (?M \<le> unat (l 0)) = (0 :: nat)"
    using unat_u64_lt [of "l 0"] by (linarith, simp add: not_le)
  have b1: "unat (h 0) + unat (l 1) < 2 * ?M"
    using unat_u64_lt [of "h 0"] unat_u64_lt [of "l 1"] by linarith
  have b2: "unat (h 1) + unat (l 2) + of_bool c1 < 2 * ?M"
    using unat_u64_lt [of "h 1"] unat_u64_lt [of "l 2"] of_bool_le_1 [of c1] by linarith
  have b3: "unat (h 2) + unat (l 3) + of_bool c2 < 2 * ?M"
    using unat_u64_lt [of "h 2"] unat_u64_lt [of "l 3"] of_bool_le_1 [of c2] by linarith
  have "be_nat hash_in * unat difficulty =
      unat (w 0) * unat dl + ?M * (unat (w 1) * unat dl + ?M * (unat (w 2) * unat dl +
        ?M * (unat (w 3) * unat dl)))"
    unfolding hash_words_value [OF len] dl w_def by (simp only: algebra_simps)
  also have "\<dots> = unat (l 0) + ?M * ((unat (h 0) + unat (l 1)) + ?M * ((unat (h 1) + unat (l 2)) +
      ?M * ((unat (h 2) + unat (l 3)) + ?M * unat (h 3))))"
    unfolding p by (simp only: algebra_simps)
  finally have total: "be_nat hash_in * unat difficulty = \<dots>" .
  have "be_nat hash_in * unat difficulty < ?M * (?M * (?M * ?M)) \<longleftrightarrow>
      (unat (h 0) + unat (l 1)) + ?M * ((unat (h 1) + unat (l 2)) +
        ?M * ((unat (h 2) + unat (l 3)) + ?M * unat (h 3))) < ?M * (?M * ?M)"
    unfolding total carry_step [OF b0] n0 by (simp only: add_0)
  also have "\<dots> \<longleftrightarrow> (unat (h 1) + unat (l 2) + of_bool c1) +
        ?M * ((unat (h 2) + unat (l 3)) + ?M * unat (h 3)) < ?M * ?M"
    unfolding carry_step [OF b1] c1_def cadd_iff by (simp only: ac_simps)
  also have "\<dots> \<longleftrightarrow> (unat (h 2) + unat (l 3) + of_bool c2) + ?M * unat (h 3) < ?M * 1"
    unfolding carry_step [OF b2] c2_def cadc_iff by (simp only: ac_simps mult_1_right mult_1)
  also have "\<dots> \<longleftrightarrow> of_bool c3 + unat (h 3) < 1"
    unfolding carry_step [OF b3] c3_def cadc_iff by simp
  also have "\<dots> \<longleftrightarrow> h 3 = 0 \<and> \<not> c3"
    by (auto simp: unat_eq_0)
  finally show ?thesis unfolding code by simp
qed

lemma product_below_max256:
  fixes v :: u64 and d :: u128
  shows "\<not> max256bit < ucast v * ucast d"
proof -
  have w: "unat (ucast v :: 512 word) = unat v" and d: "unat (ucast d :: 512 word) = unat d"
    by (simp_all add: unat_ucast_up)
  have "unat d < 2 ^ 128" using unsigned_less [of d, where ?'a = nat] by simp
  then have "unat v * unat d < 2 ^ 64 * 2 ^ 128"
    using unat_u64_lt [of v] by (intro mult_strict_mono) simp_all
  then have "unat ((ucast v :: 512 word) * ucast d) \<le> 2 ^ 256 - 1"
    by (simp add: unat_word_ariths w d)
  moreover have "unat max256bit = 2 ^ 256 - 1"
    by (simp add: max256bit_def unat_sub_le word_le_nat_alt)
  ultimately show ?thesis by (simp only: word_less_nat_alt not_less)
qed

lemma check_hash_large_rejects:
  assumes "2 ^ 64 - 1 \<le> unat difficulty"
  shows "\<not> check_hash hash_in difficulty"
proof -
  have "\<not> difficulty < max64bit"
    using assms by (simp add: word_less_nat_alt max64bit_def unat_sub_le word_le_nat_alt)
  moreover have "\<not> max256bit < fold (\<lambda>i hashVal. hashVal OR ucast (hash_word h (3 - i))) [1, 2, 3] 0 * ucast difficulty" for h
  proof -
    let ?w = "hash_word h 2 OR hash_word h 1 OR hash_word h 0"
    have f: "fold (\<lambda>i hashVal. hashVal OR ucast (hash_word h (3 - i))) [1, 2, 3] 0 = (ucast ?w :: 512 word)"
      by (rule bit_word_eqI) (auto simp: bit_simps)
    show ?thesis unfolding f by (rule product_below_max256)
  qed
  ultimately show ?thesis by (simp add: check_hash_def Let_def del: fold_simps)
qed

subsection \<open>The boundaries\<close>

lemma nominal_hash:
  fixes d :: u128
  shows "unat ((- 1 :: 256 word) div ucast d) = (2 ^ 256 - 1) div unat d"
  by (simp add: unat_div_distrib unat_ucast_up unsigned_minus_1_eq_mask mask_eq_exp_minus_1)

lemma boundary_long_value:
  assumes "difficulty \<noteq> 0"
  shows "\<exists>bs. difficulty_to_boundary_long difficulty = Some bs \<and> length bs = 32 \<and>
    le_nat bs = (2 ^ 256 - 1) div unat difficulty"
proof -
  let ?n = "(- 1 :: 256 word) div ucast difficulty"
  have w: "unat (ucast x :: u64) = unat x mod 2 ^ 64" for x :: "256 word"
    by (simp add: unat_ucast_mod)
  have bound: "unat ?n < 2 ^ 64 * (2 ^ 64 * (2 ^ 64 * 2 ^ 64))"
    using unsigned_less [of ?n, where ?'a = nat] by simp
  have digits: "n = n mod M + M * (n div M mod M + M * (n div M div M mod M + M * (n div M div M div M mod M)))"
    if "n < M * (M * (M * M))" for n M :: nat
  proof -
    have "n div M div M div M < M"
      using that by (simp add: less_mult_imp_div_less ac_simps flip: div_mult2_eq)
    then show ?thesis by (simp add: mod_mult2_eq)
  qed
  define bs where "bs = store64 (ucast ?n) @ store64 (ucast (drop_bit 64 ?n)) @
    store64 (ucast (drop_bit 64 (drop_bit 64 ?n))) @ store64 (ucast (drop_bit 64 (drop_bit 64 (drop_bit 64 ?n))))"
  have "difficulty_to_boundary_long difficulty = Some bs"
    using assms by (simp add: difficulty_to_boundary_long_def Let_def bs_def upt_conv_Cons del: drop_bit_drop_bit)
  moreover have "length bs = 32" by (simp add: bs_def)
  moreover have "le_nat bs = unat ?n"
    unfolding bs_def le_nat_append le_nat_store64 length_store64 w unat_drop_bit
    using digits [OF bound] by simp
  ultimately show ?thesis by (auto simp: nominal_hash)
qed

lemma boundary_value:
  assumes "difficulty \<noteq> 0"
  shows "\<exists>b. difficulty_to_boundary difficulty = Some b \<and>
    unat b = (2 ^ 256 - 1) div unat difficulty div 2 ^ 192"
proof -
  have "(2 ^ 256 - 1) div unat difficulty div 2 ^ 192 \<le> (2 ^ 256 - 1) div 2 ^ 192"
    by (intro div_le_mono) simp
  also have "\<dots> < 2 ^ 64" by simp
  finally show ?thesis
    using assms by (simp add: difficulty_to_boundary_def unat_ucast_mod unat_drop_bit nominal_hash)
qed

lemma product_below_iff_boundary:
  fixes d :: nat
  assumes "0 < d"
  shows "h * d < 2 ^ 256 \<longleftrightarrow> h \<le> (2 ^ 256 - 1) div d"
proof -
  have "h * d < 2 ^ 256 \<longleftrightarrow> h * d \<le> 2 ^ 256 - 1" by auto
  then show ?thesis unfolding less_eq_div_iff_mult_less_eq [OF assms] .
qed

subsection \<open>The retarget rule is total on well-formed input\<close>

lemma zone_cut_bounds:
  assumes "2 \<le> len" and "cut_old + cut_last + 2 \<le> window" and "zone_cut len window cut_old cut_last = (b, e)"
  shows "b + 2 \<le> e" and "e \<le> len"
  using assms by (auto simp: zone_cut_def Let_def split: if_splits)

lemma clamped_nonzero: "1 \<le> r \<Longrightarrow> of_nat (if r > max128bit then max128bit else r) \<noteq> (0 :: u128)"
proof -
  assume "1 \<le> r"
  then have "0 < (if r > max128bit then max128bit else r)" by (simp add: max128bit_def)
  moreover have "(if r > max128bit then max128bit else r) \<le> max128bit" by simp
  then have "(if r > max128bit then max128bit else r) < 2 ^ LENGTH(128)"
    by (rule order_le_less_trans) (simp add: max128bit_def)
  ultimately show ?thesis by (rule of_nat_nonzero)
qed

lemma adjustment_defined:
  assumes "2 \<le> length ts" and "cut_old + cut_last + 2 \<le> window"
    and "length cds = length ts" and "sorted_wrt (>) cds" and "target \<noteq> 0"
  shows "\<exists>d. get_adjustment_for_zone ts cds target window cut_old cut_last = Some d \<and> d \<noteq> 0"
proof -
  obtain b e where z: "zone_cut (length ts) window cut_old cut_last = (b, e)" by fastforce
  note be = zone_cut_bounds [OF assms(1,2) z]
  have w: "cds ! (e - 1) < cds ! b"
    using be assms(3) by (intro sorted_wrt_nth_less [OF assms(4)]) simp_all
  let ?w = "unat (cds ! b - cds ! (e - 1))"
  let ?s = "ts ! b - ts ! (e - 1)"
  let ?ts = "unat (if ?s = 0 then 1 else ?s)"
  let ?r = "(?w * unat target + ?ts - 1) div ?ts"
  have "?w \<noteq> 0" using w by (simp add: unat_eq_0)
  moreover have "unat target \<noteq> 0" using assms(5) by (simp add: unat_eq_0)
  ultimately have "1 \<le> ?w * unat target" by simp
  moreover have ts: "0 < ?ts" by (simp add: unat_gt_0)
  ultimately have "?ts \<le> ?w * unat target + ?ts - 1" by linarith
  then have "1 \<le> ?r" using ts by (simp add: less_eq_div_iff_mult_less_eq)
  then have "of_nat (if ?r > max128bit then max128bit else ?r) \<noteq> (0 :: u128)"
    by (rule clamped_nonzero)
  moreover have "get_adjustment_for_zone ts cds target window cut_old cut_last =
      Some (of_nat (if ?r > max128bit then max128bit else ?r))"
    using z w be by (simp add: get_adjustment_for_zone_def Let_def)
  ultimately show ?thesis by blast
qed

lemma adjust_zones_defined:
  assumes "2 \<le> length ts" and "length cds = length ts" and "sorted_wrt (>) cds" and "target \<noteq> 0"
  shows "\<exists>d. adjust_zones ts cds target = Some d \<and> d \<noteq> 0"
proof -
  have c: "DIFFICULTY_CUT div 2 + DIFFICULTY_CUT div 2 + 2 \<le> DIFFICULTY_WINDOW"
      "DIFFICULTY_CUT div 8 + DIFFICULTY_CUT div 12 + 2 \<le> DIFFICULTY_WINDOW div 3"
      "DIFFICULTY_CUT div 10 + 2 + 2 \<le> DIFFICULTY_WINDOW div 18"
    by (simp_all add: DIFFICULTY_CUT_def DIFFICULTY_WINDOW_def)
  obtain d1 d2 d3 where
    "get_adjustment_for_zone ts cds target DIFFICULTY_WINDOW (DIFFICULTY_CUT div 2) (DIFFICULTY_CUT div 2) = Some d1"
    "get_adjustment_for_zone ts cds target (DIFFICULTY_WINDOW div 3) (DIFFICULTY_CUT div 8) (DIFFICULTY_CUT div 12) = Some d2"
    "get_adjustment_for_zone ts cds target (DIFFICULTY_WINDOW div 18) (DIFFICULTY_CUT div 10) 2 = Some d3"
    using adjustment_defined [OF assms(1) c(1) assms(2-4)] adjustment_defined [OF assms(1) c(2) assms(2-4)]
      adjustment_defined [OF assms(1) c(3) assms(2-4)] by blast
  then show ?thesis by (simp add: adjust_zones_def Let_def DIFFICULTY_STARTER_def)
qed

lemma next_difficulty_defined:
  assumes "length cds = length ts" and "sorted_wrt (>) cds" and "target \<noteq> 0"
  shows "\<exists>d. next_difficulty ts cds target = Some d \<and> d \<noteq> 0"
proof -
  define n where "n = min (length ts) DIFFICULTY_WINDOW"
  have cut: "next_difficulty ts cds target =
      (if n \<le> 1 then Some DIFFICULTY_STARTER
       else adjust_zones (rev (sort (take n ts))) (take n cds) target)"
    using assms(1) by (auto simp: next_difficulty_def n_def Let_def min_def)
  show ?thesis
  proof (cases "n \<le> 1")
    case False
    moreover have "\<exists>d. adjust_zones (rev (sort (take n ts))) (take n cds) target = Some d \<and> d \<noteq> 0"
      using False assms by (intro adjust_zones_defined) (auto simp: n_def sorted_wrt_take)
    ultimately show ?thesis by (simp add: cut)
  qed (simp add: cut DIFFICULTY_STARTER_def)
qed

lemma next_difficulty_order_irrelevant:
  assumes "mset ts = mset ts'" and "length ts \<le> DIFFICULTY_WINDOW"
  shows "next_difficulty ts cds target = next_difficulty ts' cds target"
proof -
  have "sort ts = sort ts'" and "length ts = length ts'"
    using assms(1) by (auto intro: properties_for_sort dest: mset_eq_length)
  then show ?thesis using assms(2) by (simp add: next_difficulty_def Let_def)
qed

subsection \<open>A steady chain keeps its difficulty\<close>

text \<open>
  Blocks of constant work \<open>D\<close> at exactly the target interval \<open>T\<close>, newest first.
\<close>

definition steady_timestamps :: "nat \<Rightarrow> nat \<Rightarrow> nat \<Rightarrow> u64 list" where
  "steady_timestamps t T n = map (\<lambda>i. of_nat (t - i * T)) [0..<n]"

definition steady_difficulties :: "nat \<Rightarrow> nat \<Rightarrow> nat \<Rightarrow> wide_difficulty_type list" where
  "steady_difficulties c D n = map (\<lambda>i. of_nat (c - i * D)) [0..<n]"

lemma steady_step:
  fixes c D :: nat
  assumes "i < j" and "j * D \<le> c" and "c < 2 ^ LENGTH('a::len)" and "0 < D"
  shows "(of_nat (c - j * D) :: 'a word) < of_nat (c - i * D)"
    and "unat (of_nat (c - i * D) - of_nat (c - j * D) :: 'a word) = (j - i) * D"
proof -
  have ij: "i * D \<le> j * D" using assms(1) by simp
  have u: "unat (of_nat (c - j * D) :: 'a word) = c - j * D" "unat (of_nat (c - i * D) :: 'a word) = c - i * D"
    using assms(3) by (simp_all add: unat_of_nat_lt less_imp_diff_less)
  have "i * D < j * D" using assms(1,4) by simp
  then have "c - j * D < c - i * D" using assms(2) by linarith
  then show lt: "(of_nat (c - j * D) :: 'a word) < of_nat (c - i * D)"
    unfolding word_less_nat_alt u .
  show "unat (of_nat (c - i * D) - of_nat (c - j * D) :: 'a word) = (j - i) * D"
    unfolding unat_sub_le [OF less_imp_le [OF lt]] u using assms(2) ij by (simp add: diff_mult_distrib)
qed

lemma zone_steady:
  assumes n: "2 \<le> n" and w: "cut_old + cut_last + 2 \<le> window"
    and T: "0 < T" "n * T \<le> t" "t < 2 ^ 64" and D: "0 < D" "n * D \<le> c" "c < 2 ^ 128"
  shows "get_adjustment_for_zone (steady_timestamps t T n) (steady_difficulties c D n) (of_nat T)
    window cut_old cut_last = Some (of_nat D)"
proof -
  obtain b e where z0: "zone_cut n window cut_old cut_last = (b, e)" by fastforce
  obtain m where e: "e = Suc m" using zone_cut_bounds(1) [OF n w z0] by (cases e) auto
  note z = z0 [unfolded e]
  note be = zone_cut_bounds [OF n w z]
  have "m * T \<le> n * T" and "m * D \<le> n * D" using be by (auto intro!: mult_right_mono)
  then have tT: "m * T \<le> t" and cD: "m * D \<le> c" using T D by linarith+
  have bi: "b < m" using be by linarith
  let ?k = "m - b"
  have k: "0 < ?k" and "m < n" and "b < n" using bi be by linarith+
  have ts: "steady_timestamps t T n ! b = of_nat (t - b * T)"
      "steady_timestamps t T n ! m = of_nat (t - m * T)"
      "length (steady_timestamps t T n) = n"
    using \<open>m < n\<close> \<open>b < n\<close> by (simp_all add: steady_timestamps_def)
  have cs: "steady_difficulties c D n ! b = of_nat (c - b * D)"
      "steady_difficulties c D n ! m = of_nat (c - m * D)"
    using \<open>m < n\<close> \<open>b < n\<close> by (simp_all add: steady_difficulties_def)
  have span: "unat (of_nat (t - b * T) - of_nat (t - m * T) :: u64) = ?k * T"
    using steady_step(2) [OF bi tT _ T(1), where 'a = 64] T(3) by simp
  have work: "unat (of_nat (c - b * D) - of_nat (c - m * D) :: u128) = ?k * D"
    and lt: "(of_nat (c - m * D) :: u128) < of_nat (c - b * D)"
    using steady_step [OF bi cD _ D(1), where 'a = 128] D(3) by simp_all
  have nz: "(of_nat (t - b * T) - of_nat (t - m * T) :: u64) \<noteq> 0"
    using span k T(1) by (auto simp: word_unat_eq_iff)
  have "T \<le> n * T" and "D \<le> n * D" using n by simp_all
  then have Tb: "T < 2 ^ 64" and "D < 2 ^ 128" using T D by linarith+
  then have uT: "unat (of_nat T :: u64) = T" and Dm: "D \<le> max128bit"
    by (simp_all add: unat_of_nat_lt max128bit_def)
  have kT: "0 < ?k * T" using k T by simp
  have "(K * D + K - 1) div K = D" if "0 < K" for K :: nat
  proof (rule div_nat_eqI)
    show "K * D \<le> K * D + K - 1" using that by linarith
    show "K * D + K - 1 < K * Suc D" using that by simp
  qed
  from this [OF kT] have "(?k * D * T + ?k * T - 1) div (?k * T) = D"
    by (simp only: ac_simps)
  then show ?thesis
    using be lt nz Dm by (simp add: get_adjustment_for_zone_def Let_def z ts cs span work uT)
qed

lemma steady_timestamps_sorted:
  assumes "n * T \<le> t" and "t < 2 ^ 64"
  shows "rev (sort (steady_timestamps t T n)) = steady_timestamps t T n"
proof -
  have "sorted (rev (steady_timestamps t T n))"
  proof (subst sorted_rev_iff_nth_mono, intro allI impI)
    fix i j :: nat
    assume ij: "i \<le> j" "j < length (steady_timestamps t T n)"
    then have j: "j < n" by (simp add: steady_timestamps_def)
    have "t - j * T \<le> t - i * T" using ij by (intro diff_le_mono2 mult_right_mono) simp_all
    then show "steady_timestamps t T n ! j \<le> steady_timestamps t T n ! i"
      using ij j assms(2)
      by (simp add: steady_timestamps_def word_le_nat_alt unat_of_nat_lt less_imp_diff_less)
  qed
  then show ?thesis by (metis mset_rev properties_for_sort rev_rev_ident)
qed

lemma next_difficulty_steady:
  assumes n: "2 \<le> n" "n \<le> DIFFICULTY_WINDOW"
    and T: "0 < T" "n * T \<le> t" "t < 2 ^ 64" and D: "0 < D" "n * D \<le> c" "c < 2 ^ 128" "3 * D < 2 ^ 128"
  shows "next_difficulty (steady_timestamps t T n) (steady_difficulties c D n) (of_nat T) = Some (of_nat D)"
proof -
  have l: "length (steady_timestamps t T n) = n" "length (steady_difficulties c D n) = n"
    by (simp_all add: steady_timestamps_def steady_difficulties_def)
  note zone = zone_steady [OF n(1) _ T D(1-3)]
  have three: "(of_nat D + of_nat D + of_nat D) div 3 = (of_nat D :: u128)"
  proof -
    have "of_nat D + of_nat D + of_nat D = (of_nat (3 * D) :: u128)" by simp
    then have "unat (of_nat D + of_nat D + of_nat D :: u128) = 3 * D"
      using D(4) by (simp only:) (rule unat_of_nat_lt, simp)
    then show ?thesis
      using D(4) by (simp add: word_unat_eq_iff unat_div_distrib unat_of_nat_lt)
  qed
  have "(of_nat D :: u128) \<noteq> 0" using D by (intro of_nat_nonzero) simp_all
  then have "adjust_zones (steady_timestamps t T n) (steady_difficulties c D n) (of_nat T) = Some (of_nat D)"
    using three by (simp add: adjust_zones_def zone DIFFICULTY_CUT_def DIFFICULTY_WINDOW_def Let_def)
  then show ?thesis
    using n l by (simp add: next_difficulty_def steady_timestamps_sorted [OF T(2,3)])
qed

subsection \<open>What the cache returns\<close>

lemma cache_get_set:
  "fst (difficulty_cache_get (difficulty_cache_set c d p n) p n) = d"
  by (simp add: difficulty_cache_get_def difficulty_cache_set_def)

lemma cache_get_other_length:
  "m_chain_length c \<noteq> n \<Longrightarrow> fst (difficulty_cache_get c p n) = 0"
  by (simp add: difficulty_cache_get_def)

lemma cache_get_reset: "fst (difficulty_cache_get (difficulty_cache_reset c) p n) = 0"
  by (simp add: difficulty_cache_get_def difficulty_cache_reset_def)

subsection \<open>Properties\<close>

text \<open>The reversal of the bytes decides: the hash whose only set byte is its last one is the number 1 and passes at difficulty
  256. The repository's own test of this function (src/tests/hash-target.cpp) reads the hash the other way round and
  expects that it is refused.\<close>
lemma reversed_hash_passes: "check_hash (replicate 31 0 @ [1]) 256"
proof -
  have "be_nat (replicate n 0) = 0" for n by (induction n) simp_all
  then have "be_nat (replicate 31 0 @ [1]) * unat (256 :: u128) < 2 ^ 256" by (simp add: be_nat_append)
  then show ?thesis by (subst check_hash_small_iff) simp_all
qed

text \<open>C33: Below difficulty \<open>2 ^ 64 - 1\<close>, \<open>check_hash\<close> accepts exactly the hashes whose value, read big
  endian as the reversal of the bytes at its start does, times the difficulty stays below \<open>2 ^ 256\<close>; equivalently the value is at most the
  boundary that \<open>difficulty_to_boundary_long\<close> writes. (The test src/tests/hash-target.cpp expects the little
  endian reading; the code does not have it.)\<close>
theorem check_hash_exact:
  assumes "length hash_in = 32" and "0 < unat difficulty" and "unat difficulty < 2 ^ 64 - 1"
  shows "(check_hash hash_in difficulty \<longleftrightarrow> be_nat hash_in * unat difficulty < 2 ^ 256) \<and>
    (\<exists>boundary. difficulty_to_boundary_long difficulty = Some boundary \<and> length boundary = 32 \<and>
      (check_hash hash_in difficulty \<longleftrightarrow> be_nat hash_in \<le> le_nat boundary))"
proof -
  have "difficulty \<noteq> 0" using assms(2) by auto
  from boundary_long_value [OF this] show ?thesis
    using check_hash_small_iff [OF assms(1,3)] product_below_iff_boundary [OF assms(2)] by auto
qed

theorem check_hash_exact_witness:
  "(check_hash (replicate 32 0) 1000 \<longleftrightarrow> be_nat (replicate 32 0) * unat (1000 :: u128) < 2 ^ 256) \<and>
    (\<exists>boundary. difficulty_to_boundary_long 1000 = Some boundary \<and> length boundary = 32 \<and>
      (check_hash (replicate 32 0) 1000 \<longleftrightarrow> be_nat (replicate 32 0) \<le> le_nat boundary))"
  by (rule check_hash_exact) simp_all

text \<open>From difficulty \<open>2 ^ 64 - 1\<close> on, the slow path of \<open>check_hash\<close> rejects every hash,
  the zero hash included: the shifted value is discarded and the last comparison is reversed.\<close>
theorem check_hash_rejects_large_difficulty:
  assumes "2 ^ 64 - 1 \<le> unat difficulty"
  shows "\<not> check_hash hash_in difficulty"
  by (rule check_hash_large_rejects [OF assms])

theorem check_hash_rejects_large_difficulty_witness:
  "\<not> check_hash (replicate 32 0) 0xFFFFFFFFFFFFFFFF"
  by (rule check_hash_rejects_large_difficulty) simp

text \<open>C37: On blocks with strictly decreasing cumulative difficulties, \<open>next_difficulty\<close> never
  throws, whatever the timestamps are, and never returns zero.\<close>
theorem next_difficulty_total:
  assumes "length cds = length ts" and "sorted_wrt (>) cds" and "target \<noteq> 0"
  shows "\<exists>d. next_difficulty ts cds target = Some d \<and> d \<noteq> 0"
  by (rule next_difficulty_defined [OF assms])

theorem next_difficulty_total_witness:
  "\<exists>d. next_difficulty [5, 900, 5] [30, 20, 10] DIFFICULTY_POW_TARGET = Some d \<and> d \<noteq> 0"
  by (rule next_difficulty_total) (simp_all add: DIFFICULTY_POW_TARGET_def)

text \<open>A steady chain keeps its difficulty: if the last blocks (up to the window) each added
  the work \<open>D\<close> and arrived exactly \<open>T\<close> seconds apart, the three zones agree and the next
  difficulty for the target \<open>T\<close> is \<open>D\<close>.\<close>
theorem next_difficulty_steady_state:
  assumes "2 \<le> n" and "n \<le> DIFFICULTY_WINDOW"
    and "0 < T" and "n * T \<le> t" and "t < 2 ^ 64"
    and "0 < D" and "n * D \<le> c" and "c < 2 ^ 128" and "3 * D < 2 ^ 128"
  shows "next_difficulty (steady_timestamps t T n) (steady_difficulties c D n) (of_nat T) = Some (of_nat D)"
  by (rule next_difficulty_steady [OF assms])

theorem next_difficulty_steady_state_witness:
  "next_difficulty (steady_timestamps 1600000000 120 100) (steady_difficulties 5000000 1000 100) (of_nat 120) =
    Some (of_nat 1000)"
  by (rule next_difficulty_steady_state) (simp_all add: DIFFICULTY_WINDOW_def)

text \<open>The cache serves a stale difficulty: after the value for one kind of block was stored
  at length \<open>n\<close>, a lookup and store for the other kind at length \<open>n + 1\<close> makes the lookup
  for the first kind at length \<open>n + 1\<close> return the value of length \<open>n\<close> instead of a miss.\<close>
theorem difficulty_cache_stale:
  "(let c1 = difficulty_cache_set c d p n;
        (missed, c2) = difficulty_cache_get c1 (\<not> p) (n + 1);
        c3 = difficulty_cache_set c2 d' (\<not> p) (n + 1)
    in missed = 0 \<and> fst (difficulty_cache_get c3 p (n + 1)) = d)"
  by (simp add: difficulty_cache_set_def difficulty_cache_get_def)

end
