(* ===== verification/Keccak.thy ===== *)
theory Keccak
  imports Prelude
begin

unbundle bit_operations_syntax

section \<open>The Keccak hash (src/src/crypto/keccak.c, hash.c, hash-ops.h)\<close>

text \<open>
  The permutation \<open>keccakf\<close> with its in-place rounds, the sponge \<open>keccak\<close> and the hash
  \<open>cn_fast_hash\<close> of the program. The state \<open>uint64_t st[25]\<close> is a list of 25 words; a loop over
  an array is a \<open>fold\<close> over the loop's indices that updates the list. The lemmas say that a
  round is the round of the Keccak specification on lanes \<open>A[x, y] = st[x + 5 y]\<close>, that the
  sponge absorbs exactly the padded blocks of the input, and that the digest has 32 bytes.
\<close>

subsection \<open>The permutation\<close>

definition KECCAK_ROUNDS :: nat where "KECCAK_ROUNDS = 24"

definition ROTL64 :: "u64 \<Rightarrow> nat \<Rightarrow> u64" where
  "ROTL64 x y = push_bit y x OR drop_bit (64 - y) x"

definition keccakf_rndc :: "u64 list" where
  "keccakf_rndc =
    [0x0000000000000001, 0x0000000000008082, 0x800000000000808a,
     0x8000000080008000, 0x000000000000808b, 0x0000000080000001,
     0x8000000080008081, 0x8000000000008009, 0x000000000000008a,
     0x0000000000000088, 0x0000000080008009, 0x000000008000000a,
     0x000000008000808b, 0x800000000000008b, 0x8000000000008089,
     0x8000000000008003, 0x8000000000008002, 0x8000000000000080,
     0x000000000000800a, 0x800000008000000a, 0x8000000080008081,
     0x8000000000008080, 0x0000000080000001, 0x8000000080008008]"

definition keccakf_rotc :: "nat list" where
  "keccakf_rotc =
    [1, 3, 6, 10, 15, 21, 28, 36, 45, 55, 2, 14,
     27, 41, 56, 8, 25, 43, 62, 18, 39, 61, 20, 44]"

definition keccakf_piln :: "nat list" where
  "keccakf_piln =
    [10, 7, 11, 17, 18, 3, 5, 16, 8, 21, 24, 4,
     15, 23, 19, 13, 12, 2, 20, 14, 22, 9, 6, 1]"

text \<open>The four parts of the body of the round loop.\<close>

definition keccak_theta :: "u64 list \<Rightarrow> u64 list" where
  "keccak_theta st0 =
     (let bc = map (\<lambda>i. st0 ! i XOR st0 ! (i + 5) XOR st0 ! (i + 10) XOR st0 ! (i + 15) XOR st0 ! (i + 20))
                 [0, 1, 2, 3, 4]
      in fold (\<lambda>i st.
           let t = bc ! ((i + 4) mod 5) XOR ROTL64 (bc ! ((i + 1) mod 5)) 1
           in fold (\<lambda>j st. st[j + i := st ! (j + i) XOR t]) [0, 5, 10, 15, 20] st)
         [0, 1, 2, 3, 4] st0)"

definition keccak_rho_pi :: "u64 list \<Rightarrow> u64 list" where
  "keccak_rho_pi st0 =
     snd (fold (\<lambda>i (t, st).
            let j = keccakf_piln ! i
            in (st ! j, st[j := ROTL64 t (keccakf_rotc ! i)]))
          [0, 1, 2, 3, 4, 5, 6, 7, 8, 9, 10, 11, 12, 13, 14, 15, 16, 17, 18, 19, 20, 21, 22, 23]
          (st0 ! 1, st0))"

definition keccak_chi :: "u64 list \<Rightarrow> u64 list" where
  "keccak_chi st0 =
     fold (\<lambda>j st.
         let bc = map (\<lambda>i. st ! (j + i)) [0, 1, 2, 3, 4]
         in fold (\<lambda>i st.
              st[j + i := st ! (j + i) XOR (NOT (bc ! ((i + 1) mod 5)) AND bc ! ((i + 2) mod 5))])
            [0, 1, 2, 3, 4] st)
       [0, 5, 10, 15, 20] st0"

definition keccak_round :: "nat \<Rightarrow> u64 list \<Rightarrow> u64 list" where
  "keccak_round round st0 =
     (let st = keccak_chi (keccak_rho_pi (keccak_theta st0))
      in st[0 := st ! 0 XOR keccakf_rndc ! round])"

definition keccakf :: "u64 list \<Rightarrow> nat \<Rightarrow> u64 list" where
  "keccakf st rounds = fold keccak_round [0..<rounds] st"

subsection \<open>The sponge\<close>

definition HASH_DATA_AREA :: nat where "HASH_DATA_AREA = 136"

definition HASH_SIZE :: nat where "HASH_SIZE = 32"

text \<open>\<open>sizeof(state_t)\<close>\<close>

definition state_size :: nat where "state_size = 200"

text \<open>XOR the first \<open>rsizw\<close> words of a block into the state.\<close>

definition xor_block :: "nat \<Rightarrow> bytes \<Rightarrow> u64 list \<Rightarrow> u64 list" where
  "xor_block rsizw block st0 =
     fold (\<lambda>i st. st[i := st ! i XOR load64 (drop (8 * i) block)]) [0..<rsizw] st0"

definition keccak_rate :: "nat \<Rightarrow> nat" where
  "keccak_rate mdlen = (if state_size = mdlen then HASH_DATA_AREA else 200 - 2 * mdlen)"

text \<open>The loop over full blocks: the state and the bytes that remain.\<close>

function keccak_blocks :: "nat \<Rightarrow> bytes \<Rightarrow> u64 list \<Rightarrow> u64 list \<times> bytes" where
  "keccak_blocks rsiz input st =
     (if rsiz = 0 \<or> length input < rsiz then (st, input)
      else keccak_blocks rsiz (drop rsiz input)
             (keccakf (xor_block (rsiz div 8) (take rsiz input) st) KECCAK_ROUNDS))"
  by pat_completeness auto
termination
  by (relation "measure (\<lambda>(rsiz, input, st). length input)") auto

declare keccak_blocks.simps [simp del]

text \<open>The last block: \<open>memcpy\<close>, the byte 1, zeros, and the bit 7 of the last byte.\<close>

definition keccak_last_block :: "nat \<Rightarrow> bytes \<Rightarrow> bytes" where
  "keccak_last_block rsiz input =
     (let temp = input @ [1] @ replicate (rsiz - (length input + 1)) 0
      in temp[rsiz - 1 := temp ! (rsiz - 1) OR 0x80])"

definition state_bytes :: "u64 list \<Rightarrow> bytes" where
  "state_bytes st = concat (map store64 st)"

definition keccak :: "bytes \<Rightarrow> nat \<Rightarrow> bytes" where
  "keccak input mdlen =
     (let rsiz = keccak_rate mdlen;
          rsizw = rsiz div 8;
          (st, rest) = keccak_blocks rsiz input (replicate 25 0);
          st = xor_block rsizw (keccak_last_block rsiz rest) st;
          st = keccakf st KECCAK_ROUNDS
      in take mdlen (state_bytes st))"

definition keccak1600 :: "bytes \<Rightarrow> bytes" where
  "keccak1600 input = keccak input state_size"

definition hash_permutation :: "u64 list \<Rightarrow> u64 list" where
  "hash_permutation state = keccakf state 24"

definition hash_process :: "bytes \<Rightarrow> bytes" where
  "hash_process buf = keccak1600 buf"

definition cn_fast_hash :: "bytes \<Rightarrow> bytes" where
  "cn_fast_hash data = take HASH_SIZE (hash_process data)"

subsection \<open>The specification of a round\<close>

text \<open>
  The steps of the Keccak reference on a state of lanes indexed by \<open>x\<close> and \<open>y\<close>, with the
  table of rotation offsets; \<open>spec_round\<close> writes the lanes back in the order of the code.
\<close>

definition lane :: "u64 list \<Rightarrow> nat \<Rightarrow> nat \<Rightarrow> u64" where
  "lane st x y = st ! (x + 5 * y)"

definition spec_theta :: "(nat \<Rightarrow> nat \<Rightarrow> u64) \<Rightarrow> nat \<Rightarrow> nat \<Rightarrow> u64" where
  "spec_theta A x y =
     (let C = (\<lambda>x. A x 0 XOR A x 1 XOR A x 2 XOR A x 3 XOR A x 4)
      in A x y XOR (C ((x + 4) mod 5) XOR word_rotl 1 (C ((x + 1) mod 5))))"

definition spec_offset :: "nat \<Rightarrow> nat \<Rightarrow> nat" where
  "spec_offset x y =
    [[0, 36, 3, 41, 18], [1, 44, 10, 45, 2], [62, 6, 43, 15, 61], [28, 55, 25, 21, 56],
     [27, 20, 39, 8, 14]] ! x ! y"

definition spec_rho_pi :: "(nat \<Rightarrow> nat \<Rightarrow> u64) \<Rightarrow> nat \<Rightarrow> nat \<Rightarrow> u64" where
  "spec_rho_pi A x y =
     (let x' = (x + 3 * y) mod 5; y' = x in word_rotl (spec_offset x' y') (A x' y'))"

definition spec_chi :: "(nat \<Rightarrow> nat \<Rightarrow> u64) \<Rightarrow> nat \<Rightarrow> nat \<Rightarrow> u64" where
  "spec_chi B x y = B x y XOR (NOT (B ((x + 1) mod 5) y) AND B ((x + 2) mod 5) y)"

definition spec_iota :: "u64 \<Rightarrow> (nat \<Rightarrow> nat \<Rightarrow> u64) \<Rightarrow> nat \<Rightarrow> nat \<Rightarrow> u64" where
  "spec_iota rc A x y = (if x = 0 \<and> y = 0 then A x y XOR rc else A x y)"

definition lanes_list :: "(nat \<Rightarrow> nat \<Rightarrow> u64) \<Rightarrow> u64 list" where
  "lanes_list A = map (\<lambda>k. A (k mod 5) (k div 5))
    [0, 1, 2, 3, 4, 5, 6, 7, 8, 9, 10, 11, 12, 13, 14, 15, 16, 17, 18, 19, 20, 21, 22, 23, 24]"

definition spec_round :: "nat \<Rightarrow> u64 list \<Rightarrow> u64 list" where
  "spec_round round st =
     lanes_list (spec_iota (keccakf_rndc ! round) (spec_chi (spec_rho_pi (spec_theta (lane st)))))"

subsection \<open>The in-place round is the specified round\<close>

lemma ROTL64_rotl: "n < 64 \<Longrightarrow> ROTL64 x n = word_rotl n x"
proof (rule bit_word_eqI)
  fix k :: nat
  assume n: "n < 64" and k: "k < LENGTH(64)"
  show "bit (ROTL64 x n) k = bit (word_rotl n x) k"
  proof (cases "n = 0")
    case True
    then show ?thesis using k by (auto simp: ROTL64_def bit_simps bit_word_rotl_iff dest: bit_imp_le_length)
  next
    case False
    with n k show ?thesis
      by (auto simp: ROTL64_def bit_simps bit_word_rotl_iff mod_if add.commute [of 64] not_less
          dest: bit_imp_le_length)
  qed
qed

lemma state_cases:
  assumes "length (st :: u64 list) = 25"
  obtains a0 a1 a2 a3 a4 a5 a6 a7 a8 a9 a10 a11 a12 a13 a14 a15 a16 a17 a18 a19 a20 a21 a22 a23 a24 where "st = [a0, a1, a2, a3, a4, a5, a6, a7, a8, a9, a10, a11, a12, a13, a14, a15, a16, a17, a18, a19, a20, a21, a22, a23, a24]"
  using assms by (auto simp: numeral_eq_Suc length_Suc_conv)

lemma word_rotl_0 [simp]: "word_rotl 0 x = x"
  by (rule bit_word_eqI) (simp add: bit_word_rotl_iff)

lemma lanes_list_cong:
  "(\<And>x y. x < 5 \<Longrightarrow> y < 5 \<Longrightarrow> A x y = B x y) \<Longrightarrow> lanes_list A = lanes_list B"
  by (simp add: lanes_list_def)

lemma length_lanes_list [simp]: "length (lanes_list A) = 25"
  by (simp add: lanes_list_def)

lemma theta_columns:
  "length st = 25 \<Longrightarrow>
    fold (\<lambda>i st. fold (\<lambda>j st. st[j + i := st ! (j + i) XOR T i]) [0, 5, 10, 15, 20] st)
      [0, 1, 2, 3, 4] st = lanes_list (\<lambda>x y. lane st x y XOR T x)"
  by (erule state_cases) (simp add: lanes_list_def lane_def)

lemma keccak_theta_spec:
  assumes "length st = 25"
  shows "keccak_theta st = lanes_list (spec_theta (lane st))"
  unfolding keccak_theta_def Let_def theta_columns [OF assms]
proof (rule lanes_list_cong)
  fix x y :: nat
  assume "x < 5"
  then have "x = 0 \<or> x = 1 \<or> x = 2 \<or> x = 3 \<or> x = 4" by auto
  then show "lane st x y XOR
      (map (\<lambda>i. st ! i XOR st ! (i + 5) XOR st ! (i + 10) XOR st ! (i + 15) XOR st ! (i + 20))
        [0, 1, 2, 3, 4] ! ((x + 4) mod 5) XOR
       ROTL64 (map (\<lambda>i. st ! i XOR st ! (i + 5) XOR st ! (i + 10) XOR st ! (i + 15) XOR st ! (i + 20))
        [0, 1, 2, 3, 4] ! ((x + 1) mod 5)) 1) = spec_theta (lane st) x y"
    by (elim disjE) (simp_all add: spec_theta_def lane_def ROTL64_rotl flip: numeral_2_eq_2)
qed

lemma keccak_rho_pi_spec: "length st = 25 \<Longrightarrow> keccak_rho_pi st = lanes_list (spec_rho_pi (lane st))"
  by (erule state_cases)
    (simp add: keccak_rho_pi_def lanes_list_def spec_rho_pi_def lane_def ROTL64_rotl
      keccakf_piln_def keccakf_rotc_def spec_offset_def)

lemma chi_rows:
  "length st = 25 \<Longrightarrow>
    fold (\<lambda>j st.
         let bc = map (\<lambda>i. st ! (j + i)) [0, 1, 2, 3, 4]
         in fold (\<lambda>i st. st[j + i := G (st ! (j + i)) (bc ! ((i + 1) mod 5)) (bc ! ((i + 2) mod 5))])
            [0, 1, 2, 3, 4] st)
       [0, 5, 10, 15, 20] st =
    lanes_list (\<lambda>x y. G (lane st x y) (lane st ((x + 1) mod 5) y) (lane st ((x + 2) mod 5) y))"
  by (erule state_cases) (simp add: lanes_list_def lane_def)

lemma keccak_chi_spec: "length st = 25 \<Longrightarrow> keccak_chi st = lanes_list (spec_chi (lane st))"
  unfolding keccak_chi_def spec_chi_def
  by (rule chi_rows [where G = "\<lambda>a b c. a XOR (NOT b AND c)"])

lemma lane_lanes_list: "x < 5 \<Longrightarrow> y < 5 \<Longrightarrow> lane (lanes_list A) x y = A x y"
proof -
  assume "x < 5" and "y < 5"
  then have "x = 0 \<or> x = 1 \<or> x = 2 \<or> x = 3 \<or> x = 4" and "y = 0 \<or> y = 1 \<or> y = 2 \<or> y = 3 \<or> y = 4"
    by auto
  then show ?thesis by (elim disjE) (simp_all add: lanes_list_def lane_def)
qed

lemma iota_lanes: "(lanes_list A)[0 := lanes_list A ! 0 XOR rc] = lanes_list (spec_iota rc A)"
  by (simp add: lanes_list_def spec_iota_def)

lemma spec_rho_pi_cong:
  "(\<And>x y. x < 5 \<Longrightarrow> y < 5 \<Longrightarrow> A x y = B x y) \<Longrightarrow> x < 5 \<Longrightarrow> y < 5 \<Longrightarrow>
    spec_rho_pi A x y = spec_rho_pi B x y"
  by (simp add: spec_rho_pi_def Let_def)

lemma keccak_round_spec:
  assumes "length st = 25"
  shows "keccak_round round st = spec_round round st"
proof -
  let ?T = "spec_theta (lane st)"
  let ?R = "lane (lanes_list ?T)"
  have 1: "lanes_list (spec_rho_pi ?R) = lanes_list (spec_rho_pi ?T)"
    by (intro lanes_list_cong spec_rho_pi_cong) (simp_all add: lane_lanes_list)
  have 2: "lanes_list (spec_chi (lane (lanes_list (spec_rho_pi ?T)))) = lanes_list (spec_chi (spec_rho_pi ?T))"
    by (rule lanes_list_cong) (simp add: spec_chi_def lane_lanes_list)
  show ?thesis
    unfolding keccak_round_def Let_def spec_round_def keccak_theta_spec [OF assms]
      keccak_rho_pi_spec [OF length_lanes_list] 1 keccak_chi_spec [OF length_lanes_list] 2 iota_lanes ..
qed

lemma length_keccak_round: "length st = 25 \<Longrightarrow> length (keccak_round r st) = 25"
  by (simp add: keccak_round_spec spec_round_def)

lemma length_keccakf: "length st = 25 \<Longrightarrow> length (keccakf st rounds) = 25"
  by (induction rounds) (simp_all add: keccakf_def length_keccak_round)

subsection \<open>The sponge absorbs the padded input\<close>

text \<open>
  The specification: pad the input with the bit pattern \<open>1 0* 1\<close> (bytes \<open>0x01 \<dots> 0x80\<close>, or
  \<open>0x81\<close> when one byte is left), cut it in blocks of the rate and absorb them one by one.
\<close>

definition sponge_pad :: "nat \<Rightarrow> bytes \<Rightarrow> bytes" where
  "sponge_pad rate input =
     (let m = length input mod rate
      in if m = rate - 1 then input @ [0x81]
         else input @ [1] @ replicate (rate - m - 2) 0 @ [0x80])"

definition sponge_absorb :: "nat \<Rightarrow> u64 list \<Rightarrow> bytes \<Rightarrow> u64 list" where
  "sponge_absorb rate st block = keccakf (xor_block (rate div 8) block st) KECCAK_ROUNDS"

definition sponge :: "nat \<Rightarrow> bytes \<Rightarrow> u64 list" where
  "sponge rate input = foldl (sponge_absorb rate) (replicate 25 0) (chunks rate (sponge_pad rate input))"

lemma keccak_last_block_pad:
  assumes "length input < rate" and "2 \<le> rate"
  shows "keccak_last_block rate input = sponge_pad rate input"
proof (cases "length input = rate - 1")
  case True
  then show ?thesis using assms
    by (simp add: keccak_last_block_def sponge_pad_def nth_append list_update_append)
next
  case False
  with assms obtain k where k: "rate = length input + 2 + k"
    by (metis Nat.le_imp_diff_is_add One_nat_def Suc_leI Suc_1 add.commute add_Suc_right diff_Suc_1 le_neq_implies_less less_Suc_eq_le not_less_eq_eq plus_1_eq_Suc)
  moreover have "(replicate (Suc k) (0 :: u8))[k := 0x80] = replicate k 0 @ [0x80]"
    unfolding replicate_Suc replicate_append_same [symmetric] by (simp add: list_update_append)
  ultimately show ?thesis
    by (simp add: keccak_last_block_def sponge_pad_def nth_append list_update_append
        flip: replicate_Suc)
qed

lemma sponge_pad_block:
  assumes "length block = rate"
  shows "sponge_pad rate (block @ input) = block @ sponge_pad rate input"
  using assms by (simp add: sponge_pad_def Let_def)

lemma length_sponge_pad_short:
  "length input < rate \<Longrightarrow> 2 \<le> rate \<Longrightarrow> length (sponge_pad rate input) = rate"
  by (auto simp: sponge_pad_def Let_def)

lemma keccak_blocks_sponge:
  assumes "2 \<le> rate"
  shows "(case keccak_blocks rate input st of (st', rest) \<Rightarrow>
            sponge_absorb rate st' (keccak_last_block rate rest)) =
         foldl (sponge_absorb rate) st (chunks rate (sponge_pad rate input))"
  using assms
proof (induction rate input st rule: keccak_blocks.induct)
  case (1 rate input st)
  show ?case
  proof (cases "length input < rate")
    case True
    then have "chunks rate (sponge_pad rate input) = [sponge_pad rate input]"
      using chunks_append [of rate "sponge_pad rate input" "[]"] 1(2)
      by (simp add: length_sponge_pad_short)
    with True 1(2) show ?thesis
      by (subst keccak_blocks.simps) (simp add: keccak_last_block_pad)
  next
    case False
    then have l: "length (take rate input) = rate" by simp
    have "sponge_pad rate input = take rate input @ sponge_pad rate (drop rate input)"
      using sponge_pad_block [OF l, of "drop rate input"] by simp
    then have "chunks rate (sponge_pad rate input) =
        take rate input # chunks rate (sponge_pad rate (drop rate input))"
      using chunks_append [OF _ l] 1(2) by simp
    with False 1 show ?thesis
      by (subst keccak_blocks.simps) (simp flip: sponge_absorb_def)
  qed
qed

lemma keccak_sponge:
  assumes "2 \<le> keccak_rate mdlen"
  shows "keccak input mdlen = take mdlen (state_bytes (sponge (keccak_rate mdlen) input))"
  using keccak_blocks_sponge [OF assms, of input "replicate 25 0"]
  by (simp add: keccak_def sponge_def sponge_absorb_def Let_def split: prod.splits)

lemma length_xor_block: "length (xor_block n block st) = length st"
proof -
  have "length (fold (\<lambda>i st. st[i := st ! i XOR load64 (drop (8 * i) block)]) is st) = length st" for "is"
    by (induction "is" arbitrary: st) simp_all
  then show ?thesis by (simp add: xor_block_def)
qed

lemma length_sponge: "length (sponge rate input) = 25"
proof -
  have "length (foldl (sponge_absorb rate) st bs) = 25" if "length st = 25" for st bs
    using that by (induction bs arbitrary: st) (simp_all add: sponge_absorb_def length_keccakf length_xor_block)
  then show ?thesis by (simp add: sponge_def)
qed

lemma length_state_bytes: "length (state_bytes st) = 8 * length st"
  by (induction st) (simp_all add: state_bytes_def)

lemma length_keccak1600: "length (keccak1600 input) = 200"
  using keccak_sponge [of state_size input]
  by (simp add: keccak1600_def keccak_rate_def HASH_DATA_AREA_def state_size_def length_state_bytes length_sponge)

lemma length_cn_fast_hash [simp]: "length (cn_fast_hash data) = HASH_SIZE"
  by (simp add: cn_fast_hash_def hash_process_def length_keccak1600 HASH_SIZE_def)

lemma cn_fast_hash_sponge:
  "cn_fast_hash data = take HASH_SIZE (state_bytes (sponge HASH_DATA_AREA data))"
  using keccak_sponge [of state_size data]
  by (simp add: cn_fast_hash_def hash_process_def keccak1600_def keccak_rate_def HASH_DATA_AREA_def
      state_size_def HASH_SIZE_def)

subsection \<open>Properties\<close>

text \<open>C36: The in-place round of \<open>keccakf\<close> is the round of the Keccak specification: theta, rho,
  pi, chi and iota on the lanes \<open>A[x, y] = st[x + 5 y]\<close> with the specified rotation offsets.\<close>
theorem keccak_round_is_specified:
  assumes "length st = 25"
  shows "keccak_round round st = spec_round round st"
  by (rule keccak_round_spec [OF assms])

theorem keccak_round_is_specified_witness:
  "keccak_round 3 (replicate 25 7) = spec_round 3 (replicate 25 7)"
  by (rule keccak_round_is_specified) simp

text \<open>\<open>cn_fast_hash\<close> is the sponge of the specification: the first 32 bytes of the state
  after the padded input was absorbed in blocks of 136 bytes; the digest always has 32 bytes.\<close>
theorem cn_fast_hash_is_sponge:
  "cn_fast_hash data = take HASH_SIZE (state_bytes (sponge HASH_DATA_AREA data)) \<and>
    length (cn_fast_hash data) = 32"
  using cn_fast_hash_sponge length_cn_fast_hash by (simp add: HASH_SIZE_def)

end
