(* ===== verification/TreeHash.thy ===== *)
theory TreeHash
  imports Keccak
begin

unbundle bit_operations_syntax

section \<open>The transaction tree hash (src/src/crypto/tree-hash.c)\<close>

text \<open>
  \<open>tree_hash\<close> folds the hashes of a block's transactions into one root. The code rounds
  \<open>count - 1\<close> down to a power of two \<open>cnt\<close> with shifts, hashes pairs of the last leaves so
  that \<open>cnt\<close> nodes are left, and then halves the array in place. The lemmas give the value of
  \<open>cnt\<close>, show that \<open>assert(i == count)\<close> holds, that the in-place passes compute the balanced
  Merkle tree, and that two lists with the same root exhibit a collision of the hash among
  the inputs that the two trees hash (\<open>node_inputs\<close>).
  A hash \<open>char[HASH_SIZE]\<close> is a list of 32 bytes; \<open>hashes\<close> points to \<open>count\<close> of them.
\<close>

subsection \<open>Definitions\<close>

text \<open>The power of two: \<open>cnt |= cnt >> i\<close> for \<open>i = 1, 2, 4, \<dots> 32\<close>, then \<open>cnt &= ~(cnt >> 1)\<close>.\<close>

definition tree_smear :: "u64 \<Rightarrow> u64" where
  "tree_smear cnt = fold (\<lambda>i cnt. cnt OR drop_bit i cnt) [1, 2, 4, 8, 16, 32] cnt"

definition tree_hash_cnt :: "u64 \<Rightarrow> u64" where
  "tree_hash_cnt count = (let cnt = tree_smear (count - 1) in cnt AND NOT (drop_bit 1 cnt))"

text \<open>\<open>cn_fast_hash(hashes[i], 64, \<dots>)\<close> reads two adjacent hashes.\<close>

definition hash_node :: "bytes \<Rightarrow> bytes \<Rightarrow> bytes" where
  "hash_node l r = cn_fast_hash (l @ r)"

function tree_combine ::
    "bytes list \<Rightarrow> nat \<Rightarrow> nat \<Rightarrow> nat \<Rightarrow> bytes list \<Rightarrow> nat \<times> bytes list" where
  "tree_combine hashes cnt i j ints =
     (if j < cnt
      then tree_combine hashes cnt (i + 2) (j + 1) (ints[j := hash_node (hashes ! i) (hashes ! (i + 1))])
      else (i, ints))"
  by pat_completeness auto
termination
  by (relation "measure (\<lambda>(hashes, cnt, i, j, ints). cnt - j)") auto

declare tree_combine.simps [simp del]

definition tree_pass :: "nat \<Rightarrow> bytes list \<Rightarrow> bytes list" where
  "tree_pass cnt ints =
     fold (\<lambda>j ints. ints[j := hash_node (ints ! (2 * j)) (ints ! (2 * j + 1))]) [0..<cnt] ints"

function tree_levels :: "nat \<Rightarrow> bytes list \<Rightarrow> bytes list" where
  "tree_levels cnt ints =
     (if 2 < cnt then tree_levels (cnt div 2) (tree_pass (cnt div 2) ints) else ints)"
  by pat_completeness auto
termination
  by (relation "measure fst") auto

declare tree_levels.simps [simp del]

text \<open>
  The root, \<open>None\<close> where an assertion of the code fails. The bytes of the \<open>alloca\<close> buffer
  before they are written are zeros here; every one of them is written before it is read.
\<close>

definition tree_hash :: "bytes list \<Rightarrow> bytes option" where
  "tree_hash hashes =
     (let count = length hashes
      in if count = 0 then None
         else if count = 1 then Some (hashes ! 0)
         else if count = 2 then Some (hash_node (hashes ! 0) (hashes ! 1))
         else
           let cnt = unat (tree_hash_cnt (of_nat count));
               ints = take (2 * cnt - count) hashes @ replicate (count - cnt) (replicate HASH_SIZE 0);
               (i, ints) = tree_combine hashes cnt (2 * cnt - count) (2 * cnt - count) ints
           in if i \<noteq> count then None
              else let ints = tree_levels cnt ints
                   in Some (hash_node (ints ! 0) (ints ! 1)))"

subsection \<open>The specification\<close>

text \<open>The balanced tree on \<open>2 ^ d\<close> leaves, and one level of pairs.\<close>

fun merkle :: "('a \<Rightarrow> 'a \<Rightarrow> 'a) \<Rightarrow> nat \<Rightarrow> 'a list \<Rightarrow> 'a" where
  "merkle h 0 xs = hd xs"
| "merkle h (Suc d) xs = h (merkle h d (take (2 ^ d) xs)) (merkle h d (drop (2 ^ d) xs))"

fun pairs :: "('a \<Rightarrow> 'a \<Rightarrow> 'a) \<Rightarrow> 'a list \<Rightarrow> 'a list" where
  "pairs h (x # y # zs) = h x y # pairs h zs"
| "pairs h _ = []"

text \<open>
  The tree of \<open>n\<close> leaves with \<open>2 ^ d < n \<le> 2 ^ (d + 1)\<close>: the first \<open>2 ^ (d + 1) - n\<close> leaves
  stand at depth \<open>d\<close>, the others in pairs below depth \<open>d\<close>.
\<close>

definition merkle_root :: "('a \<Rightarrow> 'a \<Rightarrow> 'a) \<Rightarrow> nat \<Rightarrow> 'a list \<Rightarrow> 'a" where
  "merkle_root h d xs =
     (let k = 2 * 2 ^ d - length xs in merkle h d (take k xs @ pairs h (drop k xs)))"

text \<open>
  The pairs that a tree hashes, from the root down, and the 64-byte inputs that the tree over
  \<open>hashes\<close> gives to \<open>cn_fast_hash\<close>: first the pairs of the last leaves, then the inner nodes.
\<close>

fun merkle_nodes :: "('a \<Rightarrow> 'a \<Rightarrow> 'a) \<Rightarrow> nat \<Rightarrow> 'a list \<Rightarrow> ('a \<times> 'a) list" where
  "merkle_nodes h 0 xs = []"
| "merkle_nodes h (Suc d) xs =
     (merkle h d (take (2 ^ d) xs), merkle h d (drop (2 ^ d) xs)) #
       merkle_nodes h d (take (2 ^ d) xs) @ merkle_nodes h d (drop (2 ^ d) xs)"

fun pair_nodes :: "'a list \<Rightarrow> ('a \<times> 'a) list" where
  "pair_nodes (x # y # zs) = (x, y) # pair_nodes zs"
| "pair_nodes _ = []"

definition root_nodes :: "('a \<Rightarrow> 'a \<Rightarrow> 'a) \<Rightarrow> nat \<Rightarrow> 'a list \<Rightarrow> ('a \<times> 'a) list" where
  "root_nodes h d xs =
     (let k = 2 * 2 ^ d - length xs
      in pair_nodes (drop k xs) @ merkle_nodes h d (take k xs @ pairs h (drop k xs)))"

fun tree_depth :: "nat \<Rightarrow> nat" where
  "tree_depth n = (if n \<le> 2 then 0 else Suc (tree_depth ((n + 1) div 2)))"

declare tree_depth.simps [simp del]

definition node_inputs :: "bytes list \<Rightarrow> bytes list" where
  "node_inputs hashes =
     (if length hashes \<le> 1 then []
      else map (\<lambda>(l, r). l @ r) (root_nodes hash_node (tree_depth (length hashes)) hashes))"

lemma tree_depth_bounds: "2 \<le> n \<Longrightarrow> 2 ^ tree_depth n < n \<and> n \<le> 2 * 2 ^ tree_depth n"
proof (induction n rule: tree_depth.induct)
  case (1 n)
  show ?case
  proof (cases "n \<le> 2")
    case False
    then have "2 ^ tree_depth ((n + 1) div 2) < (n + 1) div 2"
        "(n + 1) div 2 \<le> 2 * 2 ^ tree_depth ((n + 1) div 2)"
      using 1 by simp_all
    moreover have "2 * ((n + 1) div 2) \<le> n + 1" "n \<le> 2 * ((n + 1) div 2)" by linarith+
    moreover have "tree_depth n = Suc (tree_depth ((n + 1) div 2))"
      using False by (subst tree_depth.simps) simp
    ultimately show ?thesis by (intro conjI; simp only: power_Suc)
  qed (use 1 in \<open>simp add: tree_depth.simps\<close>)
qed

subsection \<open>The leaf count\<close>

lemma bit_smear:
  "bit (fold (\<lambda>i cnt. cnt OR drop_bit i cnt) (map (\<lambda>n. 2 ^ n) [0..<n]) (c :: u64)) k \<longleftrightarrow>
    (\<exists>j < 2 ^ n. bit c (k + j))"
proof (induction n arbitrary: k)
  case (Suc n)
  have split: "(\<exists>j < 2 ^ Suc n. bit c (k + j)) \<longleftrightarrow>
      (\<exists>j < 2 ^ n. bit c (k + j)) \<or> (\<exists>j < 2 ^ n. bit c (k + 2 ^ n + j))"
  proof
    assume "\<exists>j < 2 ^ Suc n. bit c (k + j)"
    then obtain j where "j < 2 ^ n + 2 ^ n" and b: "bit c (k + j)" by (auto simp: mult_2)
    then show "(\<exists>j < 2 ^ n. bit c (k + j)) \<or> (\<exists>j < 2 ^ n. bit c (k + 2 ^ n + j))"
    proof (cases "j < 2 ^ n")
      case False
      then have "j - 2 ^ n < 2 ^ n" and "k + 2 ^ n + (j - 2 ^ n) = k + j"
        using \<open>j < 2 ^ n + 2 ^ n\<close> by simp_all
      with b show ?thesis by metis
    qed auto
  next
    assume "(\<exists>j < 2 ^ n. bit c (k + j)) \<or> (\<exists>j < 2 ^ n. bit c (k + 2 ^ n + j))"
    then show "\<exists>j < 2 ^ Suc n. bit c (k + j)"
    proof
      assume "\<exists>j < 2 ^ n. bit c (k + 2 ^ n + j)"
      then obtain j where "j < 2 ^ n" "bit c (k + 2 ^ n + j)" by auto
      then show ?thesis by (intro exI [of _ "2 ^ n + j"]) (simp add: add.assoc)
    next
      assume "\<exists>j < 2 ^ n. bit c (k + j)"
      then obtain j where "j < 2 ^ n" "bit c (k + j)" by auto
      then show ?thesis by (intro exI [of _ j]) simp
    qed
  qed
  show ?case
    using Suc.IH unfolding split by (simp add: bit_or_iff bit_drop_bit_eq add.commute)
qed simp

lemma tree_smear_bit: "bit (tree_smear c) k \<longleftrightarrow> (\<exists>j \<ge> k. bit c j)"
proof -
  have l: "[1, 2, 4, 8, 16, 32 :: nat] = map (\<lambda>n. 2 ^ n) [0..<6]"
    by (simp add: upt_conv_Cons)
  have "bit (tree_smear c) k \<longleftrightarrow> (\<exists>j < 64. bit c (k + j))"
    unfolding tree_smear_def l bit_smear by simp
  also have "\<dots> \<longleftrightarrow> (\<exists>j \<ge> k. bit c j)"
  proof
    assume "\<exists>j \<ge> k. bit c j"
    then obtain j where "k \<le> j" "bit c j" by blast
    then show "\<exists>j < 64. bit c (k + j)"
      using bit_imp_le_length [of c j] by (intro exI [of _ "j - k"]) auto
  next
    assume "\<exists>j < 64. bit c (k + j)"
    then show "\<exists>j \<ge> k. bit c j" using le_add1 by blast
  qed
  finally show ?thesis .
qed

lemma tree_hash_cnt_power:
  assumes "2 \<le> n" and "n < 2 ^ 64"
  obtains d where "unat (tree_hash_cnt (of_nat n)) = 2 ^ d" and "2 ^ d < n" and "n \<le> 2 * 2 ^ d"
proof -
  let ?c = "of_nat n - 1 :: u64"
  have c: "unat ?c = n - 1"
  proof -
    have "of_nat n - 1 = (of_nat (n - 1) :: u64)" using assms by (simp add: of_nat_diff)
    then show ?thesis using assms by (simp only: unat_of_nat) simp
  qed
  obtain d where d: "2 ^ d \<le> n - 1" "n - 1 < 2 * 2 ^ d"
  proof -
    have "1 \<le> n - 1" using assms by simp
    from ex_power_ivl1 [OF order_refl this] that show thesis by auto
  qed
  have d64: "d < 64"
  proof (rule ccontr)
    assume "\<not> d < 64"
    then have "(2 :: nat) ^ 64 \<le> 2 ^ d" by (intro power_increasing) simp_all
    with d assms show False by simp
  qed
  have bit_c: "bit ?c j \<longleftrightarrow> bit (n - 1) j" for j
    unfolding c [symmetric] by (auto simp: bit_unsigned_iff dest: bit_imp_le_length)
  have top: "bit ?c d"
  proof -
    have "(n - 1) div 2 ^ d = 1" using d by (intro div_nat_eqI) simp_all
    then show ?thesis unfolding bit_c by (simp add: bit_iff_odd)
  qed
  have above: "\<not> bit ?c j" if "d < j" for j
  proof -
    have "(2 :: nat) * 2 ^ d \<le> 2 ^ j" using that power_increasing [of "Suc d" j "2 :: nat"] by simp
    with d have "n - 1 < 2 ^ j" by linarith
    then show ?thesis unfolding bit_c by (simp add: bit_iff_odd)
  qed
  have sm: "bit (tree_smear ?c) k \<longleftrightarrow> k \<le> d" for k
    unfolding tree_smear_bit
  proof
    assume "\<exists>j \<ge> k. bit ?c j"
    then show "k \<le> d" using above by (metis le_trans not_le)
  qed (use top in blast)
  have "tree_hash_cnt (of_nat n) = push_bit d 1"
    using d64 by (intro bit_word_eqI)
      (auto simp: tree_hash_cnt_def Let_def bit_and_iff bit_not_iff bit_drop_bit_eq sm bit_exp_iff)
  then have "unat (tree_hash_cnt (of_nat n)) = 2 ^ d"
    using d64 power_strict_increasing [of d 64 "2 :: nat"] by (simp only: unat_push_bit) simp
  moreover have "2 ^ d < n" and "n \<le> 2 * 2 ^ d" using d assms by linarith+
  ultimately show thesis by (rule that)
qed

subsection \<open>The passes compute the tree\<close>

lemma tree_combine_result:
  assumes "j \<le> cnt" and "length ints = cnt" and "length hashes = i + 2 * (cnt - j)"
  shows "tree_combine hashes cnt i j ints =
    (length hashes, take j ints @ pairs hash_node (drop i hashes))"
  using assms
proof (induction hashes cnt i j ints rule: tree_combine.induct)
  case (1 hashes cnt i j ints)
  show ?case
  proof (cases "j < cnt")
    case True
    then have "drop i hashes = hashes ! i # hashes ! (i + 1) # drop (i + 2) hashes"
      using "1.prems" Cons_nth_drop_Suc [of i hashes] Cons_nth_drop_Suc [of "i + 1" hashes] by simp
    moreover have "tree_combine hashes cnt (i + 2) (j + 1) (ints[j := hash_node (hashes ! i) (hashes ! (i + 1))]) =
        (length hashes, take (j + 1) (ints[j := hash_node (hashes ! i) (hashes ! (i + 1))]) @
          pairs hash_node (drop (i + 2) hashes))"
      using True "1.prems" by (intro "1.IH") auto
    ultimately show ?thesis
      using True "1.prems"
      by (subst tree_combine.simps) (simp add: take_Suc_conv_app_nth)
  next
    case False
    then show ?thesis using "1.prems" by (subst tree_combine.simps) simp
  qed
qed

lemma length_pairs: "length (pairs h xs) = length xs div 2"
  by (induction h xs rule: pairs.induct) simp_all

lemma nth_pairs: "2 * j + 1 < length xs \<Longrightarrow> pairs h xs ! j = h (xs ! (2 * j)) (xs ! (2 * j + 1))"
proof (induction h xs arbitrary: j rule: pairs.induct)
  case (1 h x y zs)
  then show ?case by (cases j) simp_all
qed simp_all

text \<open>A pass reads the entries \<open>2 j\<close> and \<open>2 j + 1\<close> before it overwrites them.\<close>

lemma tree_pass_result:
  assumes "2 * cnt \<le> length ints"
  shows "length (tree_pass cnt ints) = length ints"
    and "take cnt (tree_pass cnt ints) = pairs hash_node (take (2 * cnt) ints)"
proof -
  let ?f = "\<lambda>j ints. ints[j := hash_node (ints ! (2 * j)) (ints ! (2 * j + 1))]"
  let ?p = "\<lambda>n. fold ?f [0..<n] ints"
  have len: "length (?p n) = length ints" for n by (induction n) simp_all
  have rest: "?p n ! k = ints ! k" if "n \<le> k" for n k using that by (induction n) simp_all
  have written: "?p n ! k = hash_node (ints ! (2 * k)) (ints ! (2 * k + 1))"
    if "k < n" "n \<le> cnt" for n k
    using that
  proof (induction n)
    case (Suc n)
    then show ?case using rest [of n] len [of n] assms by (cases "k = n") auto
  qed simp
  show lp: "length (tree_pass cnt ints) = length ints" unfolding tree_pass_def by (rule len)
  show "take cnt (tree_pass cnt ints) = pairs hash_node (take (2 * cnt) ints)"
  proof (rule nth_equalityI)
    show l: "length (take cnt (tree_pass cnt ints)) = length (pairs hash_node (take (2 * cnt) ints))"
      using assms by (simp add: length_pairs lp)
    fix k
    assume "k < length (take cnt (tree_pass cnt ints))"
    then have "k < cnt" by simp
    then show "take cnt (tree_pass cnt ints) ! k = pairs hash_node (take (2 * cnt) ints) ! k"
      using assms written [of k cnt] unfolding tree_pass_def by (simp add: nth_pairs)
  qed
qed

lemma pairs_take: "pairs h (take (2 * n) xs) = take n (pairs h xs)"
proof (induction h xs arbitrary: n rule: pairs.induct)
  case (1 h x y zs)
  then show ?case by (cases n) simp_all
qed (simp_all add: take_Cons')

lemma pairs_drop: "pairs h (drop (2 * n) xs) = drop n (pairs h xs)"
proof (induction h xs arbitrary: n rule: pairs.induct)
  case (1 h x y zs)
  then show ?case by (cases n) simp_all
qed (simp_all add: drop_Cons')

lemma merkle_pairs: "length xs = 2 ^ Suc d \<Longrightarrow> merkle h (Suc d) xs = merkle h d (pairs h xs)"
proof (induction d arbitrary: xs)
  case 0
  then obtain x y where "xs = [x, y]" by (auto simp: length_Suc_conv numeral_2_eq_2)
  then show ?case by simp
next
  case (Suc d)
  have "length (take (2 ^ Suc d) xs) = 2 ^ Suc d" and "length (drop (2 ^ Suc d) xs) = 2 ^ Suc d"
    using Suc.prems by simp_all
  from this [THEN Suc.IH] show ?case
    using pairs_take [of h "2 ^ d" xs] pairs_drop [of h "2 ^ d" xs]
    by (subst merkle.simps(2), subst (3) merkle.simps(2)) simp
qed

lemma tree_levels_merkle:
  assumes "length ints \<ge> 2 * 2 ^ d"
  shows "hash_node (tree_levels (2 * 2 ^ d) ints ! 0) (tree_levels (2 * 2 ^ d) ints ! 1) =
    merkle hash_node (Suc d) (take (2 * 2 ^ d) ints)"
  using assms
proof (induction d arbitrary: ints)
  case 0
  then obtain x y zs where "ints = x # y # zs"
    by (metis Suc_le_length_iff mult_2 numeral_2_eq_2 one_add_one power_0)
  then show ?case by (subst (1 2) tree_levels.simps) simp
next
  case (Suc d)
  let ?n = "2 * 2 ^ d :: nat"
  have p: "length (tree_pass ?n ints) = length ints"
      "take ?n (tree_pass ?n ints) = pairs hash_node (take (2 * ?n) ints)"
    using tree_pass_result [of ?n ints] Suc.prems by simp_all
  have "merkle hash_node (Suc d) (take ?n (tree_pass ?n ints)) =
      merkle hash_node (Suc (Suc d)) (take (2 * ?n) ints)"
    unfolding p(2) using Suc.prems by (intro merkle_pairs [symmetric]) simp
  moreover have "tree_levels (2 * 2 ^ Suc d) ints = tree_levels ?n (tree_pass ?n ints)"
  proof -
    have "1 \<le> (2 :: nat) ^ d" by simp
    then have "2 < (2 :: nat) * 2 ^ Suc d" unfolding power_Suc by linarith
    then show ?thesis by (subst tree_levels.simps) simp
  qed
  ultimately show ?case using Suc.IH [of "tree_pass ?n ints"] Suc.prems p(1) by simp
qed

lemma tree_hash_one: "tree_hash [x] = Some x"
  by (simp add: tree_hash_def)

lemma tree_hash_root:
  assumes "length hashes = n" and "2 \<le> n" and "n < 2 ^ 64" and d: "2 ^ d < n" "n \<le> 2 * 2 ^ d"
  shows "tree_hash hashes = Some (merkle_root hash_node d hashes)"
proof (cases "n = 2")
  case True
  have "d = 0"
  proof (cases d)
    case (Suc k)
    then have "2 \<le> (2 :: nat) ^ d" by simp
    with d True show ?thesis by simp
  qed
  obtain x y where "hashes = [x, y]"
    using assms True by (auto simp: length_Suc_conv numeral_2_eq_2)
  with \<open>d = 0\<close> show ?thesis by (simp add: tree_hash_def merkle_root_def numeral_2_eq_2)
next
  case False
  obtain d' where d': "unat (tree_hash_cnt (of_nat n)) = 2 ^ d'" "2 ^ d' < n" "n \<le> 2 * 2 ^ d'"
    by (rule tree_hash_cnt_power [OF assms(2,3)])
  have "d' = d"
  proof -
    have "(2 :: nat) ^ d' < 2 ^ Suc d" and "(2 :: nat) ^ d < 2 ^ Suc d'"
      using d d' by simp_all
    then have "d' < Suc d" and "d < Suc d'" by (simp_all only: power_strict_increasing_iff one_less_numeral_iff semiring_norm)
    then show ?thesis by simp
  qed
  note cnt = d'(1) [unfolded \<open>d' = d\<close>]
  let ?c = "2 ^ d :: nat" and ?k = "2 * 2 ^ d - n"
  let ?ints = "take ?k hashes @ replicate (n - ?c) (replicate HASH_SIZE 0)"
  let ?mid = "take ?k hashes @ pairs hash_node (drop ?k hashes)"
  have l: "length ?mid = ?c" using assms by (simp add: length_pairs)
  have comb: "tree_combine hashes ?c ?k ?k ?ints = (n, ?mid)"
    using assms tree_combine_result [of ?k ?c ?ints hashes ?k] by simp
  obtain e where e: "d = Suc e" using False assms(2) d by (cases d) auto
  have "hash_node (tree_levels ?c ?mid ! 0) (tree_levels ?c ?mid ! 1) = merkle hash_node d ?mid"
  proof -
    have "take (2 * 2 ^ e) ?mid = ?mid" and "2 * 2 ^ e \<le> length ?mid"
      using l unfolding e power_Suc by (simp_all only: order_refl take_all)
    then show ?thesis using tree_levels_merkle [of e ?mid] unfolding e power_Suc by simp
  qed
  then show ?thesis
    using False assms(1,2) by (simp add: tree_hash_def Let_def cnt comb merkle_root_def)
qed

subsection \<open>The root binds the leaves\<close>

text \<open>
  The interface of a two-to-one hash as the tree uses it: nodes of one sort \<open>ok\<close>, closed under
  the hash. Two lists of as many leaves with one root are equal, or a pair that the one tree
  hashes and another pair that the other tree hashes have the same value.
\<close>

locale node_hash =
  fixes h :: "'a \<Rightarrow> 'a \<Rightarrow> 'a" and ok :: "'a \<Rightarrow> bool"
  assumes closed: "ok x \<Longrightarrow> ok y \<Longrightarrow> ok (h x y)"
begin

definition apart :: "('a \<times> 'a) list \<Rightarrow> ('a \<times> 'a) list \<Rightarrow> bool" where
  "apart ps qs \<longleftrightarrow> (\<forall>(a, b) \<in> set ps. \<forall>(c, d) \<in> set qs. h a b = h c d \<longrightarrow> a = c \<and> b = d)"

lemma apart_append:
  "apart (ps @ ps') (qs @ qs') \<Longrightarrow> apart ps qs \<and> apart ps' qs'"
  unfolding apart_def by (auto simp: ball_Un)

lemma apart_Cons:
  "apart (p # ps) (q # qs) \<Longrightarrow> (h (fst p) (snd p) = h (fst q) (snd q) \<longrightarrow> p = q) \<and> apart ps qs"
  unfolding apart_def by (cases p, cases q) auto

lemma ok_pairs: "list_all ok xs \<Longrightarrow> list_all ok (pairs h xs)"
  by (induction xs rule: induct_list012) (simp_all add: closed)

lemma ok_halves: "list_all ok xs \<Longrightarrow> list_all ok (take n xs) \<and> list_all ok (drop n xs)"
  by (auto simp: list_all_iff dest: in_set_takeD in_set_dropD)

lemma ok_merkle: "list_all ok xs \<Longrightarrow> length xs = 2 ^ d \<Longrightarrow> ok (merkle h d xs)"
proof (induction d arbitrary: xs)
  case 0
  then show ?case by (cases xs) simp_all
next
  case (Suc d)
  with ok_halves [of xs "2 ^ d"] show ?case by (simp add: closed)
qed

lemma ok_merkle_nodes:
  "list_all ok xs \<Longrightarrow> length xs = 2 ^ d \<Longrightarrow> list_all (\<lambda>(a, b). ok a \<and> ok b) (merkle_nodes h d xs)"
proof (induction d arbitrary: xs)
  case (Suc d)
  with ok_halves [of xs "2 ^ d"] show ?case by (simp add: ok_merkle)
qed simp

lemma ok_pair_nodes: "list_all ok xs \<Longrightarrow> list_all (\<lambda>(a, b). ok a \<and> ok b) (pair_nodes xs)"
  by (induction xs rule: induct_list012) simp_all

lemma ok_root_nodes:
  assumes "list_all ok xs" and "2 ^ d < length xs" and "length xs \<le> 2 * 2 ^ d"
  shows "list_all (\<lambda>(a, b). ok a \<and> ok b) (root_nodes h d xs)"
proof -
  let ?k = "2 * 2 ^ d - length xs"
  have "list_all ok (take ?k xs)" "list_all ok (drop ?k xs)" using ok_halves assms(1) by auto
  then show ?thesis
    using assms
    by (auto simp: root_nodes_def Let_def length_pairs intro!: ok_pair_nodes ok_merkle_nodes ok_pairs)
qed

lemma pairs_binding:
  assumes "apart (pair_nodes xs) (pair_nodes ys)"
    and "length xs = 2 * n" and "length ys = 2 * n" and "pairs h xs = pairs h ys"
  shows "xs = ys"
  using assms
proof (induction n arbitrary: xs ys)
  case (Suc n)
  then obtain a b xs' c d ys' where l: "xs = a # b # xs'" "ys = c # d # ys'"
    by (auto simp: length_Suc_conv)
  show ?case using Suc.prems apart_Cons [of "(a, b)" "pair_nodes xs'" "(c, d)" "pair_nodes ys'"]
    Suc.IH [of xs' ys'] unfolding l by simp
qed simp

lemma merkle_binding:
  assumes "apart (merkle_nodes h d xs) (merkle_nodes h d ys)"
    and "length xs = 2 ^ d" and "length ys = 2 ^ d" and "merkle h d xs = merkle h d ys"
  shows "xs = ys"
  using assms
proof (induction d arbitrary: xs ys)
  case 0
  then show ?case by (cases xs; cases ys) simp_all
next
  case (Suc d)
  let ?l = "take (2 ^ d)" and ?r = "drop (2 ^ d)"
  have len: "length (?l xs) = 2 ^ d" "length (?r xs) = 2 ^ d" "length (?l ys) = 2 ^ d" "length (?r ys) = 2 ^ d"
    using Suc.prems by simp_all
  from apart_Cons [OF Suc.prems(1) [unfolded merkle_nodes.simps]] Suc.prems(4)
  have "merkle h d (?l xs) = merkle h d (?l ys)" "merkle h d (?r xs) = merkle h d (?r ys)"
    and "apart (merkle_nodes h d (?l xs) @ merkle_nodes h d (?r xs)) (merkle_nodes h d (?l ys) @ merkle_nodes h d (?r ys))"
    by simp_all
  then have "?l xs = ?l ys" and "?r xs = ?r ys"
    using Suc.IH len apart_append by blast+
  then show ?case by (metis append_take_drop_id)
qed

lemma merkle_root_binding:
  assumes "apart (root_nodes h d xs) (root_nodes h d ys)"
    and n: "length xs = n" "length ys = n" and d: "2 ^ d < n" "n \<le> 2 * 2 ^ d"
    and root: "merkle_root h d xs = merkle_root h d ys"
  shows "xs = ys"
proof -
  let ?k = "2 * 2 ^ d - n"
  have ap: "apart (pair_nodes (drop ?k xs)) (pair_nodes (drop ?k ys))"
      "apart (merkle_nodes h d (take ?k xs @ pairs h (drop ?k xs)))
        (merkle_nodes h d (take ?k ys @ pairs h (drop ?k ys)))"
    using apart_append [OF assms(1) [unfolded root_nodes_def Let_def n]] by blast+
  have "take ?k xs @ pairs h (drop ?k xs) = take ?k ys @ pairs h (drop ?k ys)"
    by (rule merkle_binding [OF ap(2)]) (use root n d in \<open>simp_all add: merkle_root_def Let_def length_pairs\<close>)
  then have "take ?k xs = take ?k ys" and p: "pairs h (drop ?k xs) = pairs h (drop ?k ys)"
    using n d by (simp_all add: append_eq_append_conv)
  moreover have "drop ?k xs = drop ?k ys"
    by (rule pairs_binding [OF ap(1) _ _ p, where n = "n - 2 ^ d"]) (use n d in simp_all)
  ultimately show ?thesis by (metis append_take_drop_id)
qed

end

interpretation tree: node_hash hash_node "\<lambda>x. length x = HASH_SIZE"
  by unfold_locales (simp add: hash_node_def)

subsection \<open>Properties\<close>

text \<open>C35: \<open>tree_hash\<close> of \<open>n\<close> hashes, with \<open>2 ^ d < n \<le> 2 ^ (d + 1)\<close>, passes its assertions and
  returns the root of the balanced Merkle tree of depth \<open>d\<close> whose last leaves are paired.\<close>
theorem tree_hash_is_merkle_root:
  assumes "length hashes = n" and "2 \<le> n" and "n < 2 ^ 64" and "2 ^ d < n" and "n \<le> 2 * 2 ^ d"
  shows "tree_hash hashes = Some (merkle_root hash_node d hashes)"
  by (rule tree_hash_root [OF assms])

theorem tree_hash_is_merkle_root_witness:
  "tree_hash (replicate 5 (replicate 32 1)) = Some (merkle_root hash_node 2 (replicate 5 (replicate 32 1)))"
  by (rule tree_hash_is_merkle_root [where n = 5]) simp_all

text \<open>C34: The root binds the transactions: two lists of equally many hashes with the same root
  are the same list, or one of the 64-byte inputs that the first tree gives to \<open>cn_fast_hash\<close>
  and a different one that the second tree gives to it have the same hash, so that two lists
  with one root exhibit a collision that can be read off the two trees.\<close>
theorem tree_hash_binds_leaves:
  assumes "tree_hash xs = Some root" and "tree_hash ys = Some root"
    and "length xs = length ys" and "length xs < 2 ^ 64"
    and "\<forall>h \<in> set xs \<union> set ys. length h = HASH_SIZE"
  shows "xs = ys \<or>
    (\<exists>u \<in> set (node_inputs xs). \<exists>v \<in> set (node_inputs ys).
       length u = 64 \<and> length v = 64 \<and> u \<noteq> v \<and> cn_fast_hash u = cn_fast_hash v)"
proof (cases "2 \<le> length xs")
  case False
  then have "length xs = 0 \<or> length xs = 1" by linarith
  then show ?thesis
    using assms by (auto simp: length_Suc_conv tree_hash_one)
next
  case True
  let ?d = "tree_depth (length xs)" and ?ok = "\<lambda>x :: bytes. length x = HASH_SIZE"
  note d = tree_depth_bounds [OF True, THEN conjunct1] tree_depth_bounds [OF True, THEN conjunct2]
  have root: "merkle_root hash_node ?d xs = merkle_root hash_node ?d ys"
    using assms tree_hash_root [OF refl True assms(4) d] tree_hash_root [OF assms(3) [symmetric] True assms(4) d]
    by simp
  show ?thesis
  proof (cases "tree.apart (root_nodes hash_node ?d xs) (root_nodes hash_node ?d ys)")
    case True
    then show ?thesis
      using tree.merkle_root_binding [OF _ refl assms(3) [symmetric] d root] by blast
  next
    case False
    then obtain a b e f where in_xs: "(a, b) \<in> set (root_nodes hash_node ?d xs)"
        and in_ys: "(e, f) \<in> set (root_nodes hash_node ?d ys)"
        and "hash_node a b = hash_node e f" and "(a, b) \<noteq> (e, f)"
      unfolding tree.apart_def by auto
    have "list_all ?ok xs" and "list_all ?ok ys" using assms(5) by (simp_all add: list_all_iff)
    then have "list_all (\<lambda>(a, b). ?ok a \<and> ?ok b) (root_nodes hash_node ?d xs)"
        "list_all (\<lambda>(a, b). ?ok a \<and> ?ok b) (root_nodes hash_node ?d ys)"
      using tree.ok_root_nodes [of xs ?d] tree.ok_root_nodes [of ys ?d] d assms(3) by simp_all
    then have "?ok a" "?ok b" "?ok e" "?ok f"
      using in_xs in_ys by (auto simp: list_all_iff)
    moreover have "a @ b \<in> set (node_inputs xs)" "e @ f \<in> set (node_inputs ys)"
      using in_xs in_ys \<open>2 \<le> length xs\<close> assms(3)
      by (auto simp: node_inputs_def image_iff intro: bexI [of _ "(a, b)"] bexI [of _ "(e, f)"])
    ultimately show ?thesis
      using \<open>hash_node a b = hash_node e f\<close> \<open>(a, b) \<noteq> (e, f)\<close>
      by (intro disjI2 bexI [of _ "a @ b"] bexI [of _ "e @ f"])
        (auto simp: hash_node_def HASH_SIZE_def)
  qed
qed

theorem tree_hash_binds_leaves_witness:
  "replicate 2 (replicate 32 (7 :: u8)) = replicate 2 (replicate 32 7) \<or>
    (\<exists>u \<in> set (node_inputs (replicate 2 (replicate 32 7))).
     \<exists>v \<in> set (node_inputs (replicate 2 (replicate 32 7))).
       length u = 64 \<and> length v = 64 \<and> u \<noteq> v \<and> cn_fast_hash u = cn_fast_hash v)"
  by (rule tree_hash_binds_leaves [where root = "hash_node (replicate 32 7) (replicate 32 7)"])
    (simp_all add: tree_hash_def HASH_SIZE_def)

end
