(* ===== verification/LimbMachine.thy ===== *)
theory LimbMachine
  imports Prelude
begin

unbundle bit_operations_syntax

section \<open>Straight-line limb arithmetic (the statements of src/src/crypto/crypto-ops.c)\<close>

text \<open>
  The field and scalar routines of \<open>crypto-ops.c\<close> work on numbers cut in limbs: signed 64-bit
  variables \<open>h0 \<dots> h9\<close> or \<open>s0 \<dots> s23\<close>. After the products they consist of three kinds of
  statements, which are the constructors of \<open>limb_stmt\<close>:

  \<^item> \<open>carry6 = (s6 + (1<<20)) >> 21; s7 += carry6; s6 -= carry6 << 21;\<close> is \<open>Carry 6 7 1 21 True\<close>
    (without the rounding term the last argument is \<open>False\<close>; \<open>h0 += carry9 * 19\<close> has factor 19);
  \<^item> \<open>s11 += s23 * 666643; s12 += s23 * 470296; \<dots>\<close> is \<open>Mac 23 [(11, 666643), (12, 470296), \<dots>]\<close>;
  \<^item> \<open>s12 = 0;\<close> is \<open>Clear 12\<close>.

  \<open>exec_stmt\<close> is the meaning of a statement on the list of the variables, every assignment
  wrapped to \<open>int64_t\<close> (\<open>int64\<close>), \<open>>>\<close> the arithmetic shift. The lemmas give, for any sequence of
  statements, an interval analysis that proves the absence of overflow and a check that the
  value of the limbs is kept modulo a number; both are evaluated on the sequences of the code.
\<close>

subsection \<open>Machine integers\<close>

definition int64 :: "int \<Rightarrow> int" where
  "int64 x = signed_take_bit 63 x"

definition int32 :: "int \<Rightarrow> int" where
  "int32 x = signed_take_bit 31 x"

definition fits64 :: "int \<Rightarrow> bool" where
  "fits64 x \<longleftrightarrow> - 9223372036854775808 \<le> x \<and> x \<le> 9223372036854775807"

definition fits32 :: "int \<Rightarrow> bool" where
  "fits32 x \<longleftrightarrow> - 2147483648 \<le> x \<and> x \<le> 2147483647"

lemma int64_id: "fits64 x \<Longrightarrow> int64 x = x"
  unfolding int64_def fits64_def by (rule signed_take_bit_int_eq_self) simp_all

lemma int32_id: "fits32 x \<Longrightarrow> int32 x = x"
  unfolding int32_def fits32_def by (rule signed_take_bit_int_eq_self) simp_all

subsection \<open>Statements\<close>

datatype limb_stmt =
    Carry nat nat int nat bool
  | Mac nat "(nat \<times> int) list"
  | Clear nat

definition rounding :: "nat \<Rightarrow> bool \<Rightarrow> int" where
  "rounding w r = (if r then push_bit (w - 1) 1 else 0)"

fun exec_stmt :: "limb_stmt \<Rightarrow> int list \<Rightarrow> int list" where
  "exec_stmt (Carry src dst m w r) s =
     (let carry = drop_bit w (int64 (s ! src + rounding w r));
          s = s[dst := int64 (s ! dst + int64 (carry * m))]
      in s[src := int64 (s ! src - int64 (push_bit w carry))])"
| "exec_stmt (Mac src ps) s =
     fold (\<lambda>(dst, c) s. s[dst := int64 (s ! dst + int64 (s ! src * c))]) ps s"
| "exec_stmt (Clear k) s = s[k := 0]"

definition exec_stmts :: "limb_stmt list \<Rightarrow> int list \<Rightarrow> int list" where
  "exec_stmts p s = fold exec_stmt p s"

subsection \<open>The same statements on unbounded integers\<close>

fun ideal_mac :: "int \<Rightarrow> (nat \<times> int) list \<Rightarrow> int list \<Rightarrow> int list" where
  "ideal_mac x [] s = s"
| "ideal_mac x ((dst, c) # ps) s = ideal_mac x ps (s[dst := s ! dst + x * c])"

fun ideal_stmt :: "limb_stmt \<Rightarrow> int list \<Rightarrow> int list" where
  "ideal_stmt (Carry src dst m w r) s =
     (let carry = (s ! src + rounding w r) div 2 ^ w
      in s[dst := s ! dst + carry * m, src := s ! src - carry * 2 ^ w])"
| "ideal_stmt (Mac src ps) s = ideal_mac (s ! src) ps s"
| "ideal_stmt (Clear k) s = s[k := 0]"

definition ideal_stmts :: "limb_stmt list \<Rightarrow> int list \<Rightarrow> int list" where
  "ideal_stmts p s = fold ideal_stmt p s"

subsection \<open>Interval analysis\<close>

type_synonym ivl = "int \<times> int"

definition inside :: "int \<Rightarrow> ivl \<Rightarrow> bool" where
  "inside x b \<longleftrightarrow> fst b \<le> x \<and> x \<le> snd b"

definition ivl_fits :: "ivl \<Rightarrow> bool" where
  "ivl_fits b \<longleftrightarrow> - 9223372036854775808 \<le> fst b \<and> snd b \<le> 9223372036854775807"

definition ivl_scale :: "int \<Rightarrow> ivl \<Rightarrow> ivl" where
  "ivl_scale c b = (if 0 \<le> c then (fst b * c, snd b * c) else (snd b * c, fst b * c))"

definition ivl_add :: "ivl \<Rightarrow> ivl \<Rightarrow> ivl" where
  "ivl_add a b = (fst a + fst b, snd a + snd b)"

fun ivl_mac :: "nat \<Rightarrow> ivl \<Rightarrow> (nat \<times> int) list \<Rightarrow> ivl list \<Rightarrow> ivl list option" where
  "ivl_mac src x [] bs = Some bs"
| "ivl_mac src x ((dst, c) # ps) bs =
     (let y = ivl_scale c x; z = ivl_add (bs ! dst) y
      in if dst \<noteq> src \<and> dst < length bs \<and> ivl_fits y \<and> ivl_fits z
         then ivl_mac src x ps (bs[dst := z]) else None)"

fun ivl_stmt :: "limb_stmt \<Rightarrow> ivl list \<Rightarrow> ivl list option" where
  "ivl_stmt (Carry src dst m w r) bs =
     (let k = rounding w r; x = ivl_add (bs ! src) (k, k);
          c = (fst x div 2 ^ w, snd x div 2 ^ w);
          y = ivl_scale m c; z = ivl_add (bs ! dst) y
      in if src \<noteq> dst \<and> src < length bs \<and> dst < length bs \<and> 0 < w \<and> w < 60 \<and>
            ivl_fits x \<and> ivl_fits y \<and> ivl_fits z \<and> ivl_fits (ivl_scale (2 ^ w) c)
         then Some (bs[dst := z, src := (- k, 2 ^ w - 1 - k)]) else None)"
| "ivl_stmt (Mac src ps) bs = (if src < length bs then ivl_mac src (bs ! src) ps bs else None)"
| "ivl_stmt (Clear k) bs = Some (bs[k := (0, 0)])"

fun ivl_stmts :: "limb_stmt list \<Rightarrow> ivl list \<Rightarrow> ivl list option" where
  "ivl_stmts [] bs = Some bs"
| "ivl_stmts (c # p) bs = (case ivl_stmt c bs of None \<Rightarrow> None | Some bs' \<Rightarrow> ivl_stmts p bs')"

definition within :: "int list \<Rightarrow> ivl list \<Rightarrow> bool" where
  "within s bs \<longleftrightarrow> list_all2 inside s bs"

lemma within_length: "within s bs \<Longrightarrow> length s = length bs"
  by (simp add: within_def list_all2_lengthD)

lemma within_nth: "within s bs \<Longrightarrow> k < length bs \<Longrightarrow> inside (s ! k) (bs ! k)"
  by (simp add: within_def list_all2_conv_all_nth)

lemma within_update: "within s bs \<Longrightarrow> inside x b \<Longrightarrow> within (s[k := x]) (bs[k := b])"
  unfolding within_def by (rule list_all2_update_cong)

lemma inside_add: "inside x a \<Longrightarrow> inside y b \<Longrightarrow> inside (x + y) (ivl_add a b)"
  by (simp add: inside_def ivl_add_def)

lemma inside_scale: "inside x a \<Longrightarrow> inside (x * c) (ivl_scale c a)"
  by (simp add: inside_def ivl_scale_def mult_right_mono mult_right_mono_neg)

lemma inside_fits: "inside x b \<Longrightarrow> ivl_fits b \<Longrightarrow> int64 x = x"
  by (rule int64_id) (auto simp: inside_def ivl_fits_def fits64_def)

lemma mac_sound:
  assumes "within s bs" and "inside x b" and "ivl_mac src b ps bs = Some bs'"
    and "src < length bs" and "s ! src = x"
  shows "fold (\<lambda>(dst, c) s. s[dst := int64 (s ! dst + int64 (s ! src * c))]) ps s = ideal_mac x ps s
    \<and> within (ideal_mac x ps s) bs'"
  using assms
proof (induction ps arbitrary: s bs)
  case (Cons p ps)
  obtain dst c where p: "p = (dst, c)" by fastforce
  let ?y = "ivl_scale c b"
  let ?z = "ivl_add (bs ! dst) ?y"
  have c: "dst \<noteq> src" "dst < length bs" "ivl_fits ?y" "ivl_fits ?z"
    and r: "ivl_mac src b ps (bs[dst := ?z]) = Some bs'"
    using Cons.prems(3) by (auto simp: p Let_def split: if_splits)
  have y: "inside (x * c) ?y" using Cons.prems(2) by (rule inside_scale)
  then have z: "inside (s ! dst + x * c) ?z"
    using within_nth [OF Cons.prems(1) c(2)] by (intro inside_add)
  have w: "within (s[dst := s ! dst + x * c]) (bs[dst := ?z])"
    by (rule within_update [OF Cons.prems(1) z])
  show ?case
    using Cons.IH [OF w Cons.prems(2) r] Cons.prems(4,5) c inside_fits [OF y c(3)] inside_fits [OF z c(4)]
    by (simp add: p)
qed simp

lemma stmt_sound:
  assumes "within s bs" and "ivl_stmt c bs = Some bs'"
  shows "exec_stmt c s = ideal_stmt c s \<and> within (ideal_stmt c s) bs'"
proof (cases c)
  case (Carry src dst m w r)
  let ?k = "rounding w r"
  let ?x = "ivl_add (bs ! src) (?k, ?k)"
  let ?c = "(fst ?x div 2 ^ w, snd ?x div 2 ^ w)"
  let ?y = "ivl_scale m ?c"
  let ?z = "ivl_add (bs ! dst) ?y"
  have i: "src \<noteq> dst" "src < length bs" "dst < length bs" "0 < w"
    and f: "ivl_fits ?x" "ivl_fits ?y" "ivl_fits ?z" "ivl_fits (ivl_scale (2 ^ w) ?c)"
    and w60: "w < 60" and bs': "bs' = bs[dst := ?z, src := (- ?k, 2 ^ w - 1 - ?k)]"
    using assms(2) by (auto simp: Carry Let_def split: if_splits)
  define v where "v = s ! src + ?k"
  define q where "q = v div 2 ^ w"
  have x: "inside v ?x"
    unfolding v_def using within_nth [OF assms(1) i(2)] by (rule inside_add) (simp add: inside_def)
  then have q: "inside q ?c" by (simp add: inside_def q_def zdiv_mono1)
  have y: "inside (q * m) ?y" and p: "inside (q * 2 ^ w) (ivl_scale (2 ^ w) ?c)"
    using q by (rule inside_scale)+
  have z: "inside (s ! dst + q * m) ?z"
    using within_nth [OF assms(1) i(3)] y by (rule inside_add)
  have rest: "s ! src - q * 2 ^ w = v mod 2 ^ w - ?k"
    by (simp add: v_def q_def minus_div_mult_eq_mod [symmetric])
  have s: "inside (s ! src - q * 2 ^ w) (- ?k, 2 ^ w - 1 - ?k)"
    unfolding rest inside_def by simp
  have "?k \<le> 2 ^ w"
    using i(4) by (simp add: rounding_def push_bit_eq_mult power_increasing)
  moreover have "(2 :: int) ^ w \<le> 2 ^ 60" using w60 by (intro power_increasing) simp_all
  moreover have "0 \<le> ?k" by (simp add: rounding_def push_bit_eq_mult)
  ultimately have "ivl_fits (- ?k, 2 ^ w - 1 - ?k)" by (simp add: ivl_fits_def)
  then have "int64 (s ! src - q * 2 ^ w) = s ! src - q * 2 ^ w" by (rule inside_fits [OF s])
  then have "exec_stmt c s = ideal_stmt c s"
    using i inside_fits [OF x f(1)] inside_fits [OF y f(2)] inside_fits [OF z f(3)] inside_fits [OF p f(4)]
      within_length [OF assms(1)]
    by (simp add: Carry Let_def drop_bit_eq_div push_bit_eq_mult flip: v_def q_def)
  moreover have "within (ideal_stmt c s) bs'"
    unfolding bs' using within_update [OF within_update [OF assms(1) z] s]
    by (simp add: Carry Let_def flip: v_def q_def)
  ultimately show ?thesis ..
next
  case (Mac src ps)
  then have i: "src < length bs" and r: "ivl_mac src (bs ! src) ps bs = Some bs'"
    using assms(2) by (auto split: if_splits)
  show ?thesis
    unfolding Mac exec_stmt.simps ideal_stmt.simps
    by (rule mac_sound [OF assms(1) within_nth [OF assms(1) i] r i refl])
next
  case (Clear k)
  then show ?thesis
    using assms within_update [OF assms(1), of 0 "(0, 0)" k] by (auto simp: inside_def)
qed

theorem stmts_sound:
  assumes "within s bs" and "ivl_stmts p bs = Some bs'"
  shows "exec_stmts p s = ideal_stmts p s" and "within (ideal_stmts p s) bs'"
proof -
  have "exec_stmts p s = ideal_stmts p s \<and> within (ideal_stmts p s) bs'"
    using assms
  proof (induction p arbitrary: s bs)
    case (Cons c p)
    then obtain bs1 where "ivl_stmt c bs = Some bs1" "ivl_stmts p bs1 = Some bs'"
      by (auto split: option.splits)
    with Cons.prems Cons.IH [of "ideal_stmt c s" bs1] stmt_sound [of s bs c bs1] show ?case
      by (simp add: exec_stmts_def ideal_stmts_def)
  qed (simp add: exec_stmts_def ideal_stmts_def)
  then show "exec_stmts p s = ideal_stmts p s" and "within (ideal_stmts p s) bs'" by simp_all
qed

subsection \<open>The value of the limbs\<close>

text \<open>
  Each variable has a weight; the value is the weighted sum. A \<open>Mac\<close> moves the value of its
  source into the targets, so the source counts nothing afterwards (weight 0) until a \<open>Clear\<close>
  makes it available again. \<open>weigh_stmts\<close> checks that every statement keeps the value modulo
  \<open>n\<close> (exactly, for \<open>n = 0\<close>) and returns the weights at the end.
\<close>

definition limb_val :: "int list \<Rightarrow> int list \<Rightarrow> int" where
  "limb_val ws s = sum_list (map2 (*) s ws)"

fun weigh_stmt :: "int \<Rightarrow> int list \<Rightarrow> limb_stmt \<Rightarrow> int list \<Rightarrow> int list option" where
  "weigh_stmt n ws0 (Carry src dst m w r) ws =
     (if src \<noteq> dst \<and> src < length ws \<and> dst < length ws \<and> (m * ws ! dst - 2 ^ w * ws ! src) mod n = 0
      then Some ws else None)"
| "weigh_stmt n ws0 (Mac src ps) ws =
     (if src < length ws \<and> list_all (\<lambda>(dst, c). dst \<noteq> src \<and> dst < length ws) ps \<and>
         (sum_list (map (\<lambda>(dst, c). c * ws ! dst) ps) - ws ! src) mod n = 0
      then Some (ws[src := 0]) else None)"
| "weigh_stmt n ws0 (Clear k) ws =
     (if k < length ws \<and> ws ! k = 0 then Some (ws[k := ws0 ! k]) else None)"

fun weigh_stmts :: "int \<Rightarrow> int list \<Rightarrow> limb_stmt list \<Rightarrow> int list \<Rightarrow> int list option" where
  "weigh_stmts n ws0 [] ws = Some ws"
| "weigh_stmts n ws0 (c # p) ws =
     (case weigh_stmt n ws0 c ws of None \<Rightarrow> None | Some ws' \<Rightarrow> weigh_stmts n ws0 p ws')"

lemma limb_val_Cons [simp]: "limb_val (w # ws) (x # s) = x * w + limb_val ws s"
  by (simp add: limb_val_def)

lemma limb_val_Nil [simp]: "limb_val [] [] = 0"
  by (simp add: limb_val_def)

lemma limb_val_update:
  "k < length s \<Longrightarrow> length ws = length s \<Longrightarrow> limb_val ws (s[k := x]) = limb_val ws s + (x - s ! k) * ws ! k"
proof (induction s arbitrary: ws k)
  case (Cons y s)
  then obtain w ws' where "ws = w # ws'" by (cases ws) auto
  with Cons show ?case by (cases k) (simp_all add: left_diff_distrib right_diff_distrib)
qed simp

lemma limb_val_reweigh:
  "k < length s \<Longrightarrow> length ws = length s \<Longrightarrow> limb_val (ws[k := y]) s = limb_val ws s + s ! k * (y - ws ! k)"
proof (induction s arbitrary: ws k)
  case (Cons x s)
  then obtain w ws' where "ws = w # ws'" by (cases ws) auto
  with Cons show ?case by (cases k) (simp_all add: left_diff_distrib right_diff_distrib)
qed simp

lemma ideal_mac_val:
  assumes "length ws = length s" and "list_all (\<lambda>(dst, c). dst \<noteq> src \<and> dst < length ws) ps"
  shows "limb_val ws (ideal_mac x ps s) = limb_val ws s + x * sum_list (map (\<lambda>(dst, c). c * ws ! dst) ps)
    \<and> length (ideal_mac x ps s) = length s \<and> ideal_mac x ps s ! src = s ! src"
  using assms
proof (induction ps arbitrary: s)
  case (Cons p ps)
  obtain dst c where p: "p = (dst, c)" by fastforce
  show ?case
    using Cons.IH [of "s[dst := s ! dst + x * c]"] Cons.prems
    by (simp add: p limb_val_update algebra_simps)
qed simp

lemma weigh_stmt_sound:
  assumes "length ws = length s" and "weigh_stmt n ws0 c ws = Some ws'"
  shows "length ws' = length (ideal_stmt c s) \<and> limb_val ws' (ideal_stmt c s) mod n = limb_val ws s mod n"
proof (cases c)
  case (Carry src dst m w r)
  let ?q = "(s ! src + rounding w r) div 2 ^ w"
  have i: "src \<noteq> dst" "src < length s" "dst < length s" "ws' = ws"
    and z: "(m * ws ! dst - 2 ^ w * ws ! src) mod n = 0"
    using assms by (auto simp: Carry split: if_splits)
  have "limb_val ws (ideal_stmt c s) = limb_val ws s + ?q * (m * ws ! dst - 2 ^ w * ws ! src)"
    using i assms(1) by (simp add: Carry Let_def limb_val_update algebra_simps)
  moreover have "(?q * (m * ws ! dst - 2 ^ w * ws ! src)) mod n = 0"
    using z by (simp add: mod_eq_0_iff_dvd)
  ultimately show ?thesis
    using i assms(1) by (simp add: Carry Let_def mod_eq_dvd_iff mod_eq_0_iff_dvd)
next
  case (Mac src ps)
  let ?c = "sum_list (map (\<lambda>(dst, c). c * ws ! dst) ps)"
  have i: "src < length ws" "list_all (\<lambda>(dst, c). dst \<noteq> src \<and> dst < length ws) ps" "ws' = ws[src := 0]"
    and z: "(?c - ws ! src) mod n = 0"
    using assms by (auto simp: Mac split: if_splits)
  note v = ideal_mac_val [OF assms(1) i(2), of "s ! src"]
  have "limb_val ws' (ideal_stmt c s) = limb_val ws s + s ! src * (?c - ws ! src)"
    using v i assms(1) by (simp add: Mac limb_val_reweigh algebra_simps)
  moreover have "(s ! src * (?c - ws ! src)) mod n = 0"
    using z by (simp add: mod_eq_0_iff_dvd)
  ultimately show ?thesis
    using v i assms(1) by (simp add: Mac mod_eq_dvd_iff mod_eq_0_iff_dvd)
next
  case (Clear k)
  then show ?thesis
    using assms by (auto simp: limb_val_update limb_val_reweigh split: if_splits)
qed

theorem weigh_stmts_sound:
  assumes "length ws = length s" and "weigh_stmts n ws0 p ws = Some ws'"
  shows "length ws' = length (ideal_stmts p s) \<and> limb_val ws' (ideal_stmts p s) mod n = limb_val ws s mod n"
  using assms
proof (induction p arbitrary: s ws)
  case (Cons c p)
  then obtain ws1 where 1: "weigh_stmt n ws0 c ws = Some ws1" "weigh_stmts n ws0 p ws1 = Some ws'"
    by (auto split: option.splits)
  from weigh_stmt_sound [OF Cons.prems(1) 1(1)] Cons.IH [OF _ 1(2), of "ideal_stmt c s"] show ?case
    by (simp add: ideal_stmts_def)
qed (simp add: ideal_stmts_def)

subsection \<open>Variables that a sequence does not use\<close>

fun uses_below :: "nat \<Rightarrow> limb_stmt \<Rightarrow> bool" where
  "uses_below n (Carry src dst m w r) \<longleftrightarrow> src < n \<and> dst < n"
| "uses_below n (Mac src ps) \<longleftrightarrow> src < n \<and> list_all (\<lambda>(dst, c). dst < n) ps"
| "uses_below n (Clear k) \<longleftrightarrow> k < n"

lemma length_exec_stmt [simp]: "length (exec_stmt c s) = length s"
proof (cases c)
  case (Mac src ps)
  have "length (fold (\<lambda>(dst, c) s. s[dst := int64 (s ! dst + int64 (s ! src * c))]) ps s) = length s"
    by (induction ps arbitrary: s) (auto split: prod.split)
  then show ?thesis by (simp add: Mac)
qed (simp_all add: Let_def)

lemma length_exec_stmts [simp]: "length (exec_stmts p s) = length s"
  unfolding exec_stmts_def by (induction p arbitrary: s) simp_all

lemma exec_stmt_append:
  assumes "uses_below (length s) c"
  shows "exec_stmt c (s @ t) = exec_stmt c s @ t"
proof (cases c)
  case (Mac src ps)
  have "fold (\<lambda>(dst, c) s. s[dst := int64 (s ! dst + int64 (s ! src * c))]) ps (s @ t) =
      fold (\<lambda>(dst, c) s. s[dst := int64 (s ! dst + int64 (s ! src * c))]) ps s @ t"
    if "src < length s" "list_all (\<lambda>(dst, c). dst < length s) ps"
    using that by (induction ps arbitrary: s) (auto simp: nth_append list_update_append)
  then show ?thesis using assms by (simp add: Mac)
qed (use assms in \<open>simp_all add: Let_def nth_append list_update_append\<close>)

lemma exec_stmts_append:
  "list_all (uses_below (length s)) p \<Longrightarrow> exec_stmts p (s @ t) = exec_stmts p s @ t"
  unfolding exec_stmts_def
  by (induction p arbitrary: s) (simp_all add: exec_stmt_append)

lemma exec_stmts_seq: "exec_stmts (p @ q) s = exec_stmts q (exec_stmts p s)"
  by (simp add: exec_stmts_def)

lemma limb_val_append:
  "length ws = length s \<Longrightarrow> limb_val (ws @ ws') (s @ s') = limb_val ws s + limb_val ws' s'"
  by (simp add: limb_val_def)

subsection \<open>Bytes of a number in limbs\<close>

text \<open>
  The routines store their result byte by byte, a byte that two limbs share as
  \<open>(h0 >> 24) | (h1 << 2)\<close>. \<open>limb_join w a r\<close> is the number with the low limb \<open>a\<close> of \<open>w\<close> bits
  and the rest \<open>r\<close>; the lemmas rewrite the bytes of such a number into what the code stores.
\<close>

lemma le_nat_bytes:
  "0 \<le> v \<Longrightarrow> int (le_nat (map (\<lambda>j. word_of_int (drop_bit (8 * j) v)) [0..<n])) = v mod 256 ^ n"
proof (induction n)
  case (Suc n)
  have "int (unat (word_of_int (drop_bit (8 * n) v) :: u8)) = v div 256 ^ n mod 256"
    by (simp add: uint_nat [symmetric] uint_word_of_int drop_bit_eq_div power_mult take_bit_eq_mod)
  moreover have "v mod 256 ^ Suc n = v mod 256 ^ n + 256 ^ n * (v div 256 ^ n mod 256)"
    using zmod_zmult2_eq [of "256" v "256 ^ n"] by (simp add: mult.commute)
  ultimately show ?case
    using Suc by (simp add: le_nat_append)
qed simp

definition limb_join :: "nat \<Rightarrow> int \<Rightarrow> int \<Rightarrow> int" where
  "limb_join w a r = a + 2 ^ w * r"

lemma bit_high_limb:
  assumes "0 \<le> a" and "a < 2 ^ w" and "w \<le> n"
  shows "\<not> bit (a :: int) n"
proof -
  have "take_bit w a = a" using assms by (simp add: take_bit_int_eq_self)
  then show ?thesis using assms(3) by (metis bit_take_bit_iff not_less)
qed

lemma bit_limb_join:
  assumes "0 \<le> a" and "a < 2 ^ w"
  shows "bit (limb_join w a r) n \<longleftrightarrow> (if n < w then bit a n else bit r (n - w))"
proof -
  note high = bit_high_limb [OF assms]
  have "a AND push_bit w r = 0"
    by (rule bit_eqI) (auto simp: bit_and_iff bit_push_bit_iff dest: high)
  then have "limb_join w a r = a OR push_bit w r"
    by (simp add: limb_join_def disjunctive_add_eq_or push_bit_eq_mult mult.commute)
  then show ?thesis
    using high by (auto simp: bit_or_iff bit_push_bit_iff)
qed

lemma drop_limb:
  assumes "0 \<le> a" and "a < 2 ^ w" and "w \<le> n"
  shows "drop_bit n (limb_join w a r) = drop_bit (n - w) r"
  using assms by (intro bit_eqI) (simp add: bit_drop_bit_eq bit_limb_join add.commute)

lemma low_limb:
  assumes "0 \<le> a" and "a < 2 ^ w" and "n + 8 \<le> w"
  shows "(word_of_int (drop_bit n (limb_join w a r)) :: u8) = word_of_int (drop_bit n a)"
proof -
  have "take_bit 8 (drop_bit n (limb_join w a r)) = take_bit 8 (drop_bit n a)"
    using assms by (intro bit_eqI) (auto simp: bit_take_bit_iff bit_drop_bit_eq bit_limb_join)
  then show ?thesis by (simp add: word_of_int_eq_iff)
qed

lemma join_limbs:
  assumes "0 \<le> a" and "a < 2 ^ w" and "n < w" and "w < n + 8"
  shows "(word_of_int (drop_bit n (limb_join w a r)) :: u8) = word_of_int (drop_bit n a OR push_bit (w - n) r)"
proof -
  have "take_bit 8 (drop_bit n (limb_join w a r)) = take_bit 8 (drop_bit n a OR push_bit (w - n) r)"
    using assms
    by (intro bit_eqI)
      (auto simp: bit_take_bit_iff bit_drop_bit_eq bit_limb_join bit_or_iff bit_push_bit_iff
        add.commute [of n] not_less bit_high_limb [OF assms(1,2)])
  then show ?thesis by (simp add: word_of_int_eq_iff)
qed

lemma join_push:
  assumes "0 \<le> b" and "b < 2 ^ w" and "8 \<le> w"
  shows "(word_of_int (x OR push_bit m (limb_join w b r)) :: u8) = word_of_int (x OR push_bit m b)"
proof -
  have "take_bit 8 (x OR push_bit m (limb_join w b r)) = take_bit 8 (x OR push_bit m b)"
    using assms by (intro bit_eqI) (auto simp: bit_take_bit_iff bit_or_iff bit_push_bit_iff bit_limb_join)
  then show ?thesis by (simp add: word_of_int_eq_iff)
qed

lemma low_limb_0:
  "0 \<le> a \<Longrightarrow> a < 2 ^ w \<Longrightarrow> 8 \<le> w \<Longrightarrow> (word_of_int (limb_join w a r) :: u8) = word_of_int a"
  using low_limb [of a w 0 r] by simp

end
