(* ===== verification/ScalarOps.thy ===== *)
theory ScalarOps
  imports LimbMachine
begin

unbundle bit_operations_syntax

section \<open>Scalars modulo the group order (src/src/crypto/crypto-ops.c, sc_* functions)\<close>

text \<open>
  Arithmetic modulo \<open>l = 2 ^ 252 + 27742317777372353535851937790883648493\<close> on scalars of 32
  little-endian bytes, in limbs of 21 bits. Each routine loads limbs (\<open>sc_load12\<close>,
  \<open>sc_load24\<close>), combines them, runs the sequence of statements of its body
  (\<open>sc_reduce_high\<close>, \<open>sc_reduce_low\<close>) and stores 32 bytes (\<open>sc_store\<close>). The theorems say that no
  assignment overflows and that the result is the fully reduced sum, difference,
  \<open>c - a b\<close> or remainder.
\<close>

subsection \<open>Loading limbs\<close>

definition load_3 :: "bytes \<Rightarrow> u64" where
  "load_3 s = ucast (s ! 0) OR push_bit 8 (ucast (s ! 1)) OR push_bit 16 (ucast (s ! 2))"

definition load_4 :: "bytes \<Rightarrow> u64" where
  "load_4 s = ucast (s ! 0) OR push_bit 8 (ucast (s ! 1)) OR push_bit 16 (ucast (s ! 2))
     OR push_bit 24 (ucast (s ! 3))"

text \<open>\<open>2097151 & (load_3(s + o) >> k)\<close> and \<open>2097151 & (load_4(s + o) >> k)\<close>, as \<open>int64_t\<close>.\<close>

definition limb3 :: "bytes \<Rightarrow> nat \<Rightarrow> nat \<Rightarrow> int" where
  "limb3 s off k = uint (0x1FFFFF AND drop_bit k (load_3 (drop off s)))"

definition limb4 :: "bytes \<Rightarrow> nat \<Rightarrow> nat \<Rightarrow> int" where
  "limb4 s off k = uint (0x1FFFFF AND drop_bit k (load_4 (drop off s)))"

definition sc_load12 :: "bytes \<Rightarrow> int list" where
  "sc_load12 s =
    [limb3 s 0 0, limb4 s 2 5, limb3 s 5 2, limb4 s 7 7, limb4 s 10 4, limb3 s 13 1, limb4 s 15 6,
     limb3 s 18 3, limb3 s 21 0, limb4 s 23 5, limb3 s 26 2, uint (drop_bit 7 (load_4 (drop 28 s)))]"

definition sc_load24 :: "bytes \<Rightarrow> int list" where
  "sc_load24 s =
    [limb3 s 0 0, limb4 s 2 5, limb3 s 5 2, limb4 s 7 7, limb4 s 10 4, limb3 s 13 1, limb4 s 15 6,
     limb3 s 18 3, limb3 s 21 0, limb4 s 23 5, limb3 s 26 2, limb4 s 28 7,
     limb4 s 31 4, limb3 s 34 1, limb4 s 36 6, limb3 s 39 3, limb3 s 42 0, limb4 s 44 5, limb3 s 47 2,
     limb4 s 49 7, limb4 s 52 4, limb3 s 55 1, limb4 s 57 6, uint (drop_bit 3 (load_4 (drop 60 s)))]"

subsection \<open>Storing limbs\<close>

text \<open>An assignment to \<open>unsigned char\<close> keeps the low byte.\<close>

definition sc_store :: "int list \<Rightarrow> bytes" where
  "sc_store s = map word_of_int
    [
      drop_bit 0 (s ! 0),
      drop_bit 8 (s ! 0),
      (drop_bit 16 (s ! 0)) OR push_bit 5 (s ! 1),
      drop_bit 3 (s ! 1),
      drop_bit 11 (s ! 1),
      (drop_bit 19 (s ! 1)) OR push_bit 2 (s ! 2),
      drop_bit 6 (s ! 2),
      (drop_bit 14 (s ! 2)) OR push_bit 7 (s ! 3),
      drop_bit 1 (s ! 3),
      drop_bit 9 (s ! 3),
      (drop_bit 17 (s ! 3)) OR push_bit 4 (s ! 4),
      drop_bit 4 (s ! 4),
      drop_bit 12 (s ! 4),
      (drop_bit 20 (s ! 4)) OR push_bit 1 (s ! 5),
      drop_bit 7 (s ! 5),
      (drop_bit 15 (s ! 5)) OR push_bit 6 (s ! 6),
      drop_bit 2 (s ! 6),
      drop_bit 10 (s ! 6),
      (drop_bit 18 (s ! 6)) OR push_bit 3 (s ! 7),
      drop_bit 5 (s ! 7),
      drop_bit 13 (s ! 7),
      drop_bit 0 (s ! 8),
      drop_bit 8 (s ! 8),
      (drop_bit 16 (s ! 8)) OR push_bit 5 (s ! 9),
      drop_bit 3 (s ! 9),
      drop_bit 11 (s ! 9),
      (drop_bit 19 (s ! 9)) OR push_bit 2 (s ! 10),
      drop_bit 6 (s ! 10),
      (drop_bit 14 (s ! 10)) OR push_bit 7 (s ! 11),
      drop_bit 1 (s ! 11),
      drop_bit 9 (s ! 11),
      drop_bit 17 (s ! 11)
    ]"

subsection \<open>Statement sequences\<close>

text \<open>
  \<open>fold_limb k\<close> is the group \<open>s(k-12) += s(k) * 666643; \<dots>; s(k-7) -= s(k) * 683901;\<close>, \<open>carry i\<close> the
  line of \<open>carry(i)\<close> with rounding, \<open>carry_floor i\<close> the one without.
\<close>

definition fold_limb :: "nat \<Rightarrow> limb_stmt" where
  "fold_limb k = Mac k [(k - 12, 666643), (k - 11, 470296), (k - 10, 654183), (k - 9, - 997805),
     (k - 8, 136657), (k - 7, - 683901)]"

definition carry :: "nat \<Rightarrow> limb_stmt" where
  "carry i = Carry i (i + 1) 1 21 True"

definition carry_floor :: "nat \<Rightarrow> limb_stmt" where
  "carry_floor i = Carry i (i + 1) 1 21 False"

text \<open>The part from the first folding of \<open>s23\<close> to the folding of \<open>s12\<close> in \<open>sc_reduce\<close> and \<open>sc_mulsub\<close>.\<close>

definition sc_reduce_high :: "limb_stmt list" where
  "sc_reduce_high =
     map fold_limb [23, 22, 21, 20, 19, 18]
     @ map carry [6, 8, 10, 12, 14, 16] @ map carry [7, 9, 11, 13, 15]
     @ map fold_limb [17, 16, 15, 14, 13, 12] @ [Clear 12]"

text \<open>The carries up to the second folding of \<open>s12\<close>, and the two chains of floor carries.\<close>

definition sc_round_carries :: "limb_stmt list" where
  "sc_round_carries =
     map carry [0, 2, 4, 6, 8, 10] @ map carry [1, 3, 5, 7, 9, 11] @ [fold_limb 12, Clear 12]"

definition sc_first_floor :: "limb_stmt list" where
  "sc_first_floor = map carry_floor [0, 1, 2, 3, 4, 5, 6, 7, 8, 9, 10, 11]"

definition sc_final_floor :: "limb_stmt list" where
  "sc_final_floor = map carry_floor [0, 1, 2, 3, 4, 5, 6, 7, 8, 9, 10]"

definition sc_reduce_low :: "limb_stmt list" where
  "sc_reduce_low = sc_round_carries @ sc_first_floor @ [fold_limb 12] @ sc_final_floor"

definition sc_mulsub_carries :: "limb_stmt list" where
  "sc_mulsub_carries =
     map carry [0, 2, 4, 6, 8, 10, 12, 14, 16, 18, 20, 22]
     @ map carry [1, 3, 5, 7, 9, 11, 13, 15, 17, 19, 21]"

subsection \<open>The routines\<close>

definition sc_0 :: bytes where
  "sc_0 = replicate 32 0"

definition sc_reduce :: "bytes \<Rightarrow> bytes" where
  "sc_reduce s = sc_store (exec_stmts (sc_reduce_high @ sc_reduce_low) (sc_load24 s))"

definition sc_reduce32 :: "bytes \<Rightarrow> bytes" where
  "sc_reduce32 s = sc_store (exec_stmts sc_reduce_low (sc_load12 s @ [0]))"

definition sc_add :: "bytes \<Rightarrow> bytes \<Rightarrow> bytes" where
  "sc_add a b =
     sc_store (exec_stmts sc_reduce_low (map2 (\<lambda>x y. int64 (x + y)) (sc_load12 a) (sc_load12 b) @ [0]))"

definition sc_sub :: "bytes \<Rightarrow> bytes \<Rightarrow> bytes" where
  "sc_sub a b =
     sc_store (exec_stmts sc_reduce_low (map2 (\<lambda>x y. int64 (x - y)) (sc_load12 a) (sc_load12 b) @ [0]))"

text \<open>
  \<open>s(k) = c(k) - (a0*b(k) + a1*b(k-1) + \<dots> + a(k)*b0)\<close>; above \<open>k = 11\<close> there is no \<open>c(k)\<close> and the
  products start at \<open>a(k-11)*b11\<close>; \<open>s23 = 0\<close>.
\<close>

definition mulsub_limb :: "int list \<Rightarrow> int list \<Rightarrow> int list \<Rightarrow> nat \<Rightarrow> int" where
  "mulsub_limb a b c k =
     int64 ((if k < 12 then c ! k else 0) - sum_list (map (\<lambda>i. a ! i * b ! (k - i)) [k - 11..<min (k + 1) 12]))"

definition sc_mulsub :: "bytes \<Rightarrow> bytes \<Rightarrow> bytes \<Rightarrow> bytes" where
  "sc_mulsub a b c =
     sc_store (exec_stmts (sc_mulsub_carries @ sc_reduce_high @ sc_reduce_low)
       (map (mulsub_limb (sc_load12 a) (sc_load12 b) (sc_load12 c)) [0..<24]))"

text \<open>\<open>int64_t\<close> arithmetic; the shifts are arithmetic.\<close>

definition signum :: "int \<Rightarrow> int" where
  "signum a = int64 (drop_bit 63 a - drop_bit 63 (int64 (- a)))"

definition sc_check :: "bytes \<Rightarrow> int" where
  "sc_check s =
     (let w = (\<lambda>i. uint (load_4 (drop (4 * i) s)))
      in drop_bit 8 (int64 (signum (int64 (1559614444 - w 0)) + push_bit 1 (signum (int64 (1477600026 - w 1)))
           + push_bit 2 (signum (int64 (2734136534 - w 2))) + push_bit 3 (signum (int64 (350157278 - w 3)))
           + push_bit 4 (signum (int64 (- w 4))) + push_bit 5 (signum (int64 (- w 5)))
           + push_bit 6 (signum (int64 (- w 6))) + push_bit 7 (signum (int64 (268435456 - w 7))))))"

definition sc_isnonzero :: "bytes \<Rightarrow> int" where
  "sc_isnonzero s =
     drop_bit 8 (uint (fold (\<lambda>b acc. acc OR b) (take 32 s) (0 :: u8)) - 1) + 1"

subsection \<open>The limbs are the digits of the number\<close>

lemma unat_le_255: "unat (x :: u8) \<le> 255"
  using unat_u8_bound [of x] by linarith

lemma or_two_bytes:
  "unat (ucast (b0 :: u8) OR push_bit 8 (ucast (b1 :: u8)) :: u64) = unat b0 + unat b1 * 2 ^ 8"
  using unat_le_255 [of b0] unat_le_255 [of b1] unat_or_shifted_byte [of 8 "ucast b0 :: u64" b1]
  by (simp add: unat_ucast_up)

lemma or_three_bytes:
  "unat (ucast (b0 :: u8) OR push_bit 8 (ucast (b1 :: u8)) OR push_bit 16 (ucast (b2 :: u8)) :: u64) =
    unat b0 + unat b1 * 2 ^ 8 + unat b2 * 2 ^ 16"
proof -
  have "unat (ucast b0 OR push_bit 8 (ucast b1) :: u64) < 2 ^ 16"
    unfolding or_two_bytes using unat_le_255 [of b0] unat_le_255 [of b1] by simp
  moreover have "unat b2 * 2 ^ 16 < 2 ^ 64" using unat_le_255 [of b2] by simp
  ultimately show ?thesis
    using unat_or_shifted_byte [of 16 "ucast b0 OR push_bit 8 (ucast b1) :: u64" b2]
    by (simp only: or_two_bytes or.assoc) simp
qed

lemma or_four_bytes:
  "unat (ucast (b0 :: u8) OR push_bit 8 (ucast (b1 :: u8)) OR push_bit 16 (ucast (b2 :: u8)) OR
      push_bit 24 (ucast (b3 :: u8)) :: u64) =
    unat b0 + unat b1 * 2 ^ 8 + unat b2 * 2 ^ 16 + unat b3 * 2 ^ 24"
proof -
  let ?l = "ucast b0 OR push_bit 8 (ucast b1) OR push_bit 16 (ucast b2) :: u64"
  have "unat ?l < 2 ^ 24"
    unfolding or_three_bytes
    using unat_le_255 [of b0] unat_le_255 [of b1] unat_le_255 [of b2] by simp
  moreover have "unat b3 * 2 ^ 24 < 2 ^ 64" using unat_le_255 [of b3] by simp
  ultimately have "unat (?l OR push_bit 24 (ucast b3)) = unat ?l + unat b3 * 2 ^ 24"
    by (intro unat_or_shifted_byte) simp_all
  then show ?thesis by (simp only: or_three_bytes or.assoc)
qed

lemma unat_load_3: "3 \<le> length s \<Longrightarrow> unat (load_3 s) = le_nat (take 3 s)"
proof -
  assume "3 \<le> length s"
  then have "Suc (Suc (Suc 0)) \<le> length s" by simp
  then obtain b0 b1 b2 t where s: "s = b0 # b1 # b2 # t" by (auto simp: Suc_le_length_iff)
  have "load_3 s = ucast b0 OR push_bit 8 (ucast b1) OR push_bit 16 (ucast b2)"
    by (simp add: load_3_def s)
  then show ?thesis by (simp only: or_three_bytes) (simp add: s)
qed

lemma unat_load_4: "4 \<le> length s \<Longrightarrow> unat (load_4 s) = le_nat (take 4 s)"
proof -
  assume "4 \<le> length s"
  then have "Suc (Suc (Suc (Suc 0))) \<le> length s" by simp
  then obtain b0 b1 b2 b3 t where s: "s = b0 # b1 # b2 # b3 # t" by (auto simp: Suc_le_length_iff)
  have "load_4 s = ucast b0 OR push_bit 8 (ucast b1) OR push_bit 16 (ucast b2) OR push_bit 24 (ucast b3)"
    by (simp add: load_4_def s)
  then show ?thesis by (simp only: or_four_bytes) (simp add: s)
qed

lemma uint_masked: "uint (0x1FFFFF AND w :: u64) = int (unat w mod 2 ^ 21)"
proof -
  have "unat (0x1FFFFF AND w :: u64) = unat w mod 2 ^ 21"
    using unat_and_low [of w 21] by (simp add: and.commute)
  then show ?thesis by (simp only: uint_nat)
qed

lemma mod_div_mod_pow2:
  "k + n \<le> m \<Longrightarrow> (x :: nat) mod 2 ^ m div 2 ^ k mod 2 ^ n = x div 2 ^ k mod 2 ^ n"
  unfolding take_bit_eq_mod [symmetric] drop_bit_eq_div [symmetric]
  by (simp add: drop_bit_take_bit)

lemma digit_of_load:
  "unat w = le_nat s div 256 ^ off mod 2 ^ m \<Longrightarrow> k + 21 \<le> m \<Longrightarrow>
    unat (drop_bit k (w :: u64)) mod 2 ^ 21 = le_nat s div 2 ^ (8 * off + k) mod 2 ^ 21"
  using mod_div_mod_pow2 [of k 21 m "le_nat s div 256 ^ off"]
  by (simp add: unat_drop_bit div_mult2_eq power_add power_mult)

lemma limb3_digit:
  assumes "off + 3 \<le> length s" and "k + 21 \<le> 24"
  shows "limb3 s off k = int (le_nat s div 2 ^ (8 * off + k) mod 2 ^ 21)"
proof -
  have "unat (load_3 (drop off s)) = le_nat s div 256 ^ off mod 2 ^ 24"
    using assms(1) by (simp add: unat_load_3 le_nat_take le_nat_drop)
  from digit_of_load [OF this assms(2)] show ?thesis by (simp add: limb3_def uint_masked)
qed

lemma limb4_digit:
  assumes "off + 4 \<le> length s" and "k + 21 \<le> 32"
  shows "limb4 s off k = int (le_nat s div 2 ^ (8 * off + k) mod 2 ^ 21)"
proof -
  have "unat (load_4 (drop off s)) = le_nat s div 256 ^ off mod 2 ^ 32"
    using assms(1) by (simp add: unat_load_4 le_nat_take le_nat_drop)
  from digit_of_load [OF this assms(2)] show ?thesis by (simp add: limb4_def uint_masked)
qed

text \<open>The limbs of \<open>n\<close> bytes: \<open>k\<close> digits in base \<open>2 ^ 21\<close> and the rest.\<close>

definition sc_digits :: "nat \<Rightarrow> nat \<Rightarrow> int list" where
  "sc_digits k x = map (\<lambda>i. int (x div 2 ^ (21 * i) mod 2 ^ 21)) [0..<k] @ [int (x div 2 ^ (21 * k))]"

lemma last_limb:
  assumes "length s = off + 4"
  shows "uint (drop_bit k (load_4 (drop off s))) = int (le_nat s div 2 ^ (8 * off + k))"
proof -
  have "take 4 (drop off s) = drop off s" using assms by simp
  then have "unat (load_4 (drop off s)) = le_nat s div 256 ^ off"
    using assms by (simp add: unat_load_4 le_nat_drop del: take_all_iff)
  then show ?thesis by (simp add: uint_nat unat_drop_bit div_mult2_eq power_add power_mult)
qed

lemma sc_load12_digits: "length s = 32 \<Longrightarrow> sc_load12 s = sc_digits 11 (le_nat s)"
  by (simp add: sc_load12_def sc_digits_def limb3_digit limb4_digit last_limb upt_conv_Cons)

lemma sc_load24_digits: "length s = 64 \<Longrightarrow> sc_load24 s = sc_digits 23 (le_nat s)"
  by (simp add: sc_load24_def sc_digits_def limb3_digit limb4_digit last_limb upt_conv_Cons)

definition sc_weights :: "nat \<Rightarrow> int list" where
  "sc_weights n = map (\<lambda>i. 2 ^ (21 * i)) [0..<n]"

lemma length_sc_weights [simp]: "length (sc_weights n) = n"
  by (simp add: sc_weights_def)

lemma sc_digits_value: "limb_val (sc_weights (k + 1)) (sc_digits k x) = int x"
proof -
  have "limb_val (sc_weights k) (map (\<lambda>i. int (x div 2 ^ (21 * i) mod 2 ^ 21)) [0..<k])
      + int (x div 2 ^ (21 * k)) * 2 ^ (21 * k) = int x"
  proof (induction k)
    case (Suc k)
    let ?q = "x div 2 ^ (21 * k)"
    have p: "(2 :: int) ^ (21 * Suc k) = 2 ^ 21 * 2 ^ (21 * k)" by (simp add: power_add)
    have "int a * w + int b * (2 ^ 21 * w) = int (a + b * 2 ^ 21) * w" for a b :: nat and w :: int
      by (simp add: algebra_simps)
    then have e: "int (?q mod 2 ^ 21) * 2 ^ (21 * k) + int (?q div 2 ^ 21) * 2 ^ (21 * Suc k) = int ?q * 2 ^ (21 * k)"
      unfolding p by (simp only: mod_div_mult_eq)
    have "x div 2 ^ (21 * Suc k) = ?q div 2 ^ 21"
      by (simp add: power_add div_mult2_eq mult.commute)
    then show ?case
      using Suc.IH e by (simp add: sc_weights_def limb_val_append)
  qed (simp add: sc_weights_def)
  then show ?thesis
    by (simp add: sc_digits_def sc_weights_def limb_val_append)
qed

subsection \<open>The stored bytes are the bytes of the value\<close>

lemma horner_value: "limb_val (sc_weights 12) [s0, s1, s2, s3, s4, s5, s6, s7, s8, s9, s10, s11] =
  limb_join 21 s0 (limb_join 21 s1 (limb_join 21 s2 (limb_join 21 s3 (limb_join 21 s4 (limb_join 21 s5 (limb_join 21 s6 (limb_join 21 s7 (limb_join 21 s8 (limb_join 21 s9 (limb_join 21 s10 s11))))))))))"
  by (simp add: sc_weights_def limb_val_def upt_conv_Cons limb_join_def algebra_simps)

lemma twelve_limbs:
  assumes "length (s :: int list) = 12"
  obtains s0 s1 s2 s3 s4 s5 s6 s7 s8 s9 s10 s11 where "s = [s0, s1, s2, s3, s4, s5, s6, s7, s8, s9, s10, s11]"
  using assms by (auto simp: numeral_eq_Suc length_Suc_conv)

lemma sc_store_value:
  assumes lo: "\<forall>i < 11. 0 \<le> s ! i \<and> s ! i < 2097152" and hi: "0 \<le> s ! 11"
    and v: "v = limb_val (sc_weights 12) (take 12 s)" and len: "12 \<le> length s"
  shows "length (sc_store s) = 32" and "int (le_nat (sc_store s)) = v mod 2 ^ 256"
proof -
  show "length (sc_store s) = 32" by (simp add: sc_store_def)
  have "length (take 12 s) = 12" using len by simp
  then obtain s0 s1 s2 s3 s4 s5 s6 s7 s8 s9 s10 s11 where t: "take 12 s = [s0, s1, s2, s3, s4, s5, s6, s7, s8, s9, s10, s11]"
    by (rule twelve_limbs)
  have nth: "k < 12 \<Longrightarrow> s ! k = [s0, s1, s2, s3, s4, s5, s6, s7, s8, s9, s10, s11] ! k" for k
    unfolding t [symmetric] by simp
  have b: "0 \<le> s0" "s0 < 2097152" "0 \<le> s1" "s1 < 2097152" "0 \<le> s2" "s2 < 2097152" "0 \<le> s3" "s3 < 2097152" "0 \<le> s4" "s4 < 2097152" "0 \<le> s5" "s5 < 2097152" "0 \<le> s6" "s6 < 2097152" "0 \<le> s7" "s7 < 2097152" "0 \<le> s8" "s8 < 2097152" "0 \<le> s9" "s9 < 2097152" "0 \<le> s10" "s10 < 2097152"
    using lo [rule_format, of 0] lo [rule_format, of 1] lo [rule_format, of 2] lo [rule_format, of 3]
      lo [rule_format, of 4] lo [rule_format, of 5] lo [rule_format, of 6] lo [rule_format, of 7]
      lo [rule_format, of 8] lo [rule_format, of 9] lo [rule_format, of 10]
    by (simp_all add: nth)
  have h: "0 \<le> s11" using hi by (simp add: nth)
  note vv = v [unfolded t horner_value]
  have v0: "0 \<le> v" unfolding vv limb_join_def using b h by simp
  have "sc_store s = map (\<lambda>j. word_of_int (drop_bit (8 * j) v)) [0..<32]"
    unfolding vv sc_store_def
    by (simp add: upt_conv_Cons nth drop_limb low_limb low_limb_0 join_limbs join_push
        join_push [where m = 1, simplified] b)
  then show "int (le_nat (sc_store s)) = v mod 2 ^ 256"
    using le_nat_bytes [OF v0, of 32] by simp
qed

subsection \<open>The reduction sequence reduces fully\<close>

definition group_order :: int where
  "group_order = 2 ^ 252 + 27742317777372353535851937790883648493"

text \<open>Bounds on entry and between the parts of \<open>sc_reduce_low\<close>.\<close>

definition low_entry :: "ivl list" where
  "low_entry = replicate 12 (- 562949953421312, 562949953421312) @ [(0, 0)]"

definition floor_exit :: "ivl list" where
  "floor_exit = replicate 12 (0, 2097151) @ [(- 1, 0)]"

definition low_exit :: "ivl list" where
  "low_exit = replicate 11 (0, 2097151) @ [(- 1, 2097152), (- 1, 0)]"

text \<open>The weight of \<open>s12\<close> after the floor carries: what the last folding adds for it.\<close>

definition fold_weights :: "int list" where
  "fold_weights = (sc_weights 13)[12 := 2 ^ 252 - group_order]"

lemma low_no_overflow:
  "ivl_stmts (sc_round_carries @ sc_first_floor) low_entry = Some floor_exit"
  "ivl_stmts (fold_limb 12 # sc_final_floor) floor_exit = Some low_exit"
  by code_simp+

lemma low_values:
  "weigh_stmts group_order (sc_weights 13) (sc_round_carries @ sc_first_floor) (sc_weights 13) = Some (sc_weights 13)"
  "weigh_stmts 0 fold_weights (fold_limb 12 # sc_final_floor) fold_weights = Some (fold_weights[12 := 0])"
  by code_simp+

lemma low_uses: "list_all (uses_below 13) sc_reduce_low"
  by code_simp

lemma thirteen_limbs:
  assumes "length (s :: int list) = 13"
  obtains s0 s1 s2 s3 s4 s5 s6 s7 s8 s9 s10 s11 s12 where "s = [s0, s1, s2, s3, s4, s5, s6, s7, s8, s9, s10, s11, s12]"
  using assms by (auto simp: numeral_eq_Suc length_Suc_conv)

lemma sc_weights_13: "sc_weights 13 = [1, 2097152, 4398046511104, 9223372036854775808, 19342813113834066795298816, 40564819207303340847894502572032, 85070591730234615865843651857942052864, 178405961588244985132285746181186892047843328, 374144419156711147060143317175368453031918731001856, 784637716923335095479473677900958302012794430558004314112, 1645504557321206042154969182557350504982735865633579863348609024, 3450873173395281893717377931138512726225554486085193277581262111899648, 7237005577332262213973186563042994240829374041602535252466099000494570602496]"
  by code_simp

lemma floor_exit_range:
  assumes w: "within r floor_exit"
  shows "0 \<le> limb_val fold_weights r" and "limb_val fold_weights r < group_order"
    and "limb_val fold_weights r mod group_order = limb_val (sc_weights 13) r mod group_order"
proof -
  have "length r = 13" using within_length [OF w] by (simp add: floor_exit_def)
  then obtain s0 s1 s2 s3 s4 s5 s6 s7 s8 s9 s10 s11 s12 where r: "r = [s0, s1, s2, s3, s4, s5, s6, s7, s8, s9, s10, s11, s12]" by (rule thirteen_limbs)
  let ?low = "s0 * 1 + s1 * 2097152 + s2 * 4398046511104 + s3 * 9223372036854775808 + s4 * 19342813113834066795298816 + s5 * 40564819207303340847894502572032 + s6 * 85070591730234615865843651857942052864 + s7 * 178405961588244985132285746181186892047843328 + s8 * 374144419156711147060143317175368453031918731001856 + s9 * 784637716923335095479473677900958302012794430558004314112 + s10 * 1645504557321206042154969182557350504982735865633579863348609024 + s11 * 3450873173395281893717377931138512726225554486085193277581262111899648"
  have b: "0 \<le> s0" "s0 \<le> 2097151" "0 \<le> s1" "s1 \<le> 2097151" "0 \<le> s2" "s2 \<le> 2097151" "0 \<le> s3" "s3 \<le> 2097151" "0 \<le> s4" "s4 \<le> 2097151" "0 \<le> s5" "s5 \<le> 2097151" "0 \<le> s6" "s6 \<le> 2097151" "0 \<le> s7" "s7 \<le> 2097151" "0 \<le> s8" "s8 \<le> 2097151" "0 \<le> s9" "s9 \<le> 2097151" "0 \<le> s10" "s10 \<le> 2097151" "0 \<le> s11" "s11 \<le> 2097151" "s12 = - 1 \<or> s12 = 0"
    using w by (auto simp: r floor_exit_def within_def inside_def numeral_eq_Suc)
  have low: "0 \<le> ?low" "?low < 2 ^ 252" using b by simp_all
  have v: "limb_val fold_weights r = ?low + s12 * (2 ^ 252 - group_order)"
    and v13: "limb_val (sc_weights 13) r = ?low + s12 * 2 ^ 252"
    by (simp_all add: fold_weights_def sc_weights_13 r)
  show "0 \<le> limb_val fold_weights r" and "limb_val fold_weights r < group_order"
    unfolding v using low b(25) by (auto simp: group_order_def)
  have "limb_val (sc_weights 13) r = limb_val fold_weights r + s12 * group_order"
    unfolding v v13 by (simp add: algebra_simps)
  then show "limb_val fold_weights r mod group_order = limb_val (sc_weights 13) r mod group_order"
    by simp
qed

lemma low_exit_store:
  assumes w: "within t low_exit" and v: "v = limb_val (fold_weights[12 := 0]) t" and v0: "0 \<le> v"
  shows "\<forall>i < 11. 0 \<le> t ! i \<and> t ! i < 2097152" and "0 \<le> t ! 11"
    and "limb_val (sc_weights 12) (take 12 t) = v"
proof -
  have l: "length t = 13" using within_length [OF w] by (simp add: low_exit_def)
  then obtain s0 s1 s2 s3 s4 s5 s6 s7 s8 s9 s10 s11 s12 where t: "t = [s0, s1, s2, s3, s4, s5, s6, s7, s8, s9, s10, s11, s12]" by (rule thirteen_limbs)
  have b: "0 \<le> s0" "s0 \<le> 2097151" "0 \<le> s1" "s1 \<le> 2097151" "0 \<le> s2" "s2 \<le> 2097151" "0 \<le> s3" "s3 \<le> 2097151" "0 \<le> s4" "s4 \<le> 2097151" "0 \<le> s5" "s5 \<le> 2097151" "0 \<le> s6" "s6 \<le> 2097151" "0 \<le> s7" "s7 \<le> 2097151" "0 \<le> s8" "s8 \<le> 2097151" "0 \<le> s9" "s9 \<le> 2097151" "0 \<le> s10" "s10 \<le> 2097151"
    using w by (auto simp: t low_exit_def within_def inside_def numeral_eq_Suc)
  show r: "\<forall>i < 11. 0 \<le> t ! i \<and> t ! i < 2097152"
  proof (intro allI impI)
    fix i :: nat
    assume i: "i < 11"
    have "inside (t ! i) (low_exit ! i)" using within_nth [OF w, of i] i by (simp add: low_exit_def)
    then show "0 \<le> t ! i \<and> t ! i < 2097152"
      using i by (simp add: low_exit_def nth_append inside_def)
  qed
  have vv: "v = s0 * 1 + s1 * 2097152 + s2 * 4398046511104 + s3 * 9223372036854775808 + s4 * 19342813113834066795298816 + s5 * 40564819207303340847894502572032 + s6 * 85070591730234615865843651857942052864 + s7 * 178405961588244985132285746181186892047843328 + s8 * 374144419156711147060143317175368453031918731001856 + s9 * 784637716923335095479473677900958302012794430558004314112 + s10 * 1645504557321206042154969182557350504982735865633579863348609024 + s11 * 3450873173395281893717377931138512726225554486085193277581262111899648"
    unfolding v by (simp add: fold_weights_def sc_weights_13 t)
  show "0 \<le> t ! 11"
  proof (rule ccontr)
    assume "\<not> 0 \<le> t ! 11"
    then have "s11 \<le> - 1" by (simp add: t)
    then show False using v0 b unfolding vv by simp
  qed
  have "sc_weights 12 = take 12 (sc_weights 13)" by code_simp
  then show "limb_val (sc_weights 12) (take 12 t) = v"
    unfolding vv by (simp add: sc_weights_13 t)
qed

theorem sc_low_reduces:
  assumes w: "within s low_entry"
  shows "length (sc_store (exec_stmts sc_reduce_low (s @ rest))) = 32"
    and "int (le_nat (sc_store (exec_stmts sc_reduce_low (s @ rest)))) = limb_val (sc_weights 13) s mod group_order"
proof -
  let ?p = "sc_round_carries @ sc_first_floor" and ?q = "fold_limb 12 # sc_final_floor"
  have l: "length s = 13" using within_length [OF w] by (simp add: low_entry_def)
  define r where "r = ideal_stmts ?p s"
  define t where "t = ideal_stmts ?q r"
  note 1 = stmts_sound [OF w low_no_overflow(1), folded r_def]
  note 2 = stmts_sound [OF 1(2) low_no_overflow(2), folded t_def]
  have "sc_reduce_low = ?p @ ?q" by (simp add: sc_reduce_low_def)
  then have e: "exec_stmts sc_reduce_low (s @ rest) = t @ rest"
    using exec_stmts_append [of s sc_reduce_low rest] low_uses l 1(1) 2(1)
      exec_stmts_seq [of ?p ?q s]
    by simp
  have lr: "length r = 13" and lt: "length t = 13"
    using within_length [OF 1(2)] within_length [OF 2(2)] by (simp_all add: floor_exit_def low_exit_def)
  have 3: "limb_val (sc_weights 13) r mod group_order = limb_val (sc_weights 13) s mod group_order"
    using weigh_stmts_sound [OF _ low_values(1), of s] l by (simp add: r_def sc_weights_def)
  have 4: "limb_val (fold_weights[12 := 0]) t = limb_val fold_weights r"
    using weigh_stmts_sound [OF _ low_values(2), of r] lr by (simp add: t_def fold_weights_def sc_weights_def)
  note range = floor_exit_range [OF 1(2)]
  define v where "v = limb_val fold_weights r"
  have "0 \<le> v" using range(1) by (simp add: v_def)
  note st = low_exit_store [OF 2(2) 4 [symmetric, folded v_def] this]
  have t12: "take 12 (t @ rest) = take 12 t" and nth: "i < 12 \<Longrightarrow> (t @ rest) ! i = t ! i" for i
    using lt by (simp_all add: nth_append)
  have lo: "\<forall>i < 11. 0 \<le> (t @ rest) ! i \<and> (t @ rest) ! i < 2097152" and hi: "0 \<le> (t @ rest) ! 11"
    using st(1,2) by (simp_all add: nth)
  note store = sc_store_value [OF lo hi, of v, unfolded t12, OF st(3) [symmetric]]
  show "length (sc_store (exec_stmts sc_reduce_low (s @ rest))) = 32"
    unfolding e using store(1) lt by simp
  have "v < 2 ^ 256" using range(2) by (simp add: v_def group_order_def)
  then have "int (le_nat (sc_store (t @ rest))) = v" using store(2) lt \<open>0 \<le> v\<close> by simp
  also have "v = v mod group_order" using range(1,2) by (simp add: v_def)
  also have "\<dots> = limb_val (sc_weights 13) s mod group_order"
    unfolding v_def range(3) 3 ..
  finally show "int (le_nat (sc_store (exec_stmts sc_reduce_low (s @ rest)))) = limb_val (sc_weights 13) s mod group_order"
    unfolding e .
qed

subsection \<open>Folding the high limbs\<close>

text \<open>
  The limbs of 64 bytes, and the limbs of \<open>c - a b\<close>, bound the sequence \<open>sc_reduce_high\<close>; it ends
  with the weights of \<open>s13 \<dots> s23\<close> at zero.
\<close>

definition wide_limbs :: "ivl list" where
  "wide_limbs = replicate 23 (0, 2097151) @ [(0, 536870911)]"

definition mulsub_limbs :: "ivl list" where
  "mulsub_limbs = replicate 11 (- 105553116266496, 2097151) @ replicate 11 (- 562949953421312, 33554431)
     @ [(- 1125899906842624, 0), (0, 0)]"

definition high_weights :: "int list" where
  "high_weights = sc_weights 13 @ replicate 11 0"

definition ivl_le :: "ivl \<Rightarrow> ivl \<Rightarrow> bool" where
  "ivl_le a b \<longleftrightarrow> fst b \<le> fst a \<and> snd a \<le> snd b"

lemma within_mono: "within s bs \<Longrightarrow> list_all2 ivl_le bs bs' \<Longrightarrow> within s bs'"
  unfolding within_def by (rule list_all2_trans [of inside ivl_le inside]) (auto simp: inside_def ivl_le_def)

definition high_fits :: "limb_stmt list \<Rightarrow> ivl list \<Rightarrow> bool" where
  "high_fits p bs = (case ivl_stmts p bs of None \<Rightarrow> False
     | Some bs' \<Rightarrow> list_all2 ivl_le (take 13 bs') low_entry)"

lemma high_no_overflow:
  "high_fits sc_reduce_high wide_limbs"
  "high_fits (sc_mulsub_carries @ sc_reduce_high) mulsub_limbs"
  by code_simp+

lemma high_values:
  "weigh_stmts group_order (sc_weights 24) sc_reduce_high (sc_weights 24) = Some high_weights"
  "weigh_stmts group_order (sc_weights 24) (sc_mulsub_carries @ sc_reduce_high) (sc_weights 24) = Some high_weights"
  by code_simp+

lemma sc_high_reduces:
  assumes w: "within s bs" and fits: "high_fits p bs" and len: "length s = 24"
    and val: "weigh_stmts group_order (sc_weights 24) p (sc_weights 24) = Some high_weights"
  shows "length (sc_store (exec_stmts (p @ sc_reduce_low) s)) = 32"
    and "int (le_nat (sc_store (exec_stmts (p @ sc_reduce_low) s))) = limb_val (sc_weights 24) s mod group_order"
proof -
  obtain bs' where bs': "ivl_stmts p bs = Some bs'" and le: "list_all2 ivl_le (take 13 bs') low_entry"
    using fits by (auto simp: high_fits_def split: option.splits)
  define h where "h = ideal_stmts p s"
  note 1 = stmts_sound [OF w bs', folded h_def]
  have lw: "length (sc_weights 24) = length s" using len by (simp add: sc_weights_def)
  from weigh_stmts_sound [OF lw val, folded h_def] have lh: "length h = 24"
    and vh: "limb_val high_weights h mod group_order = limb_val (sc_weights 24) s mod group_order"
    by (simp_all add: high_weights_def sc_weights_def)
  have "within (take 13 h) (take 13 bs')"
    using 1(2) unfolding within_def by (rule list_all2_takeI)
  then have low: "within (take 13 h) low_entry" using le by (rule within_mono)
  have split: "h = take 13 h @ drop 13 h" by simp
  have "limb_val (replicate n 0) xs = 0" if "length xs = n" for xs n
    using that by (induction xs arbitrary: n) auto
  from this [of "drop 13 h" 11] have "limb_val high_weights h = limb_val (sc_weights 13) (take 13 h)"
    using lh by (subst split) (simp only: high_weights_def, subst limb_val_append, simp_all add: sc_weights_def)
  moreover have "exec_stmts (p @ sc_reduce_low) s = exec_stmts sc_reduce_low (take 13 h @ drop 13 h)"
    using 1(1) by (simp add: exec_stmts_seq)
  ultimately show "length (sc_store (exec_stmts (p @ sc_reduce_low) s)) = 32"
    and "int (le_nat (sc_store (exec_stmts (p @ sc_reduce_low) s))) = limb_val (sc_weights 24) s mod group_order"
    using sc_low_reduces [OF low, of "drop 13 h"] vh by simp_all
qed

subsection \<open>The limbs on entry\<close>

lemma sc_digits_within:
  assumes "x < 2 ^ (21 * k + n)"
  shows "within (sc_digits k x) (replicate k (0, 2097151) @ [(0, 2 ^ n - 1)])"
proof -
  have d: "x div 2 ^ (21 * k) < 2 ^ n"
    using assms by (simp add: power_add less_mult_imp_div_less mult.commute)
  have "int (x div 2 ^ (21 * k)) < 2 ^ n" using d by (metis of_nat_less_iff of_nat_numeral of_nat_power)
  then have last: "inside (int (x div 2 ^ (21 * k))) (0, 2 ^ n - 1)" by (simp add: inside_def)
  have m: "inside (int (x div 2 ^ (21 * i) mod 2 ^ 21)) (0, 2097151)" for i
  proof -
    have "x div 2 ^ (21 * i) mod 2 ^ 21 < 2 ^ 21" by (rule mod_less_divisor) simp
    then show ?thesis by (simp add: inside_def)
  qed
  have "list_all2 inside (map (\<lambda>i. int (x div 2 ^ (21 * i) mod 2 ^ 21)) [0..<k]) (replicate k (0, 2097151))"
    by (rule list_all2_all_nthI) (use m in simp_all)
  then show ?thesis
    unfolding within_def sc_digits_def using last by (intro list_all2_appendI) simp_all
qed

lemma le_nat_32: "length s = 32 \<Longrightarrow> le_nat s < 2 ^ 256"
  using le_nat_bound [of s] by simp

lemma sc_load12_within:
  "length s = 32 \<Longrightarrow> within (sc_load12 s) (replicate 11 (0, 2097151) @ [(0, 33554431)])"
  using sc_digits_within [of "le_nat s" 11 25] le_nat_32 [of s] by (simp add: sc_load12_digits)

lemma sc_load12_value: "length s = 32 \<Longrightarrow> limb_val (sc_weights 12) (sc_load12 s) = int (le_nat s)"
  using sc_digits_value [of 11 "le_nat s"] by (simp add: sc_load12_digits)

lemma length_sc_load12 [simp]: "length (sc_load12 s) = 12"
  by (simp add: sc_load12_def)

lemma sc_reduce_correct:
  assumes "length s = 64"
  shows "length (sc_reduce s) = 32" and "int (le_nat (sc_reduce s)) = int (le_nat s) mod group_order"
proof -
  have "le_nat s < 2 ^ 512" using le_nat_bound [of s] assms by simp
  then have w: "within (sc_load24 s) wide_limbs"
    using sc_digits_within [of "le_nat s" 23 29] assms by (simp add: sc_load24_digits wide_limbs_def)
  have l: "length (sc_load24 s) = 24" by (simp add: sc_load24_def)
  have v: "limb_val (sc_weights 24) (sc_load24 s) = int (le_nat s)"
    using sc_digits_value [of 23 "le_nat s"] assms by (simp add: sc_load24_digits)
  show "length (sc_reduce s) = 32" and "int (le_nat (sc_reduce s)) = int (le_nat s) mod group_order"
    using sc_high_reduces [OF w high_no_overflow(1) l high_values(1)] v by (simp_all add: sc_reduce_def)
qed

subsection \<open>Sums and differences\<close>

lemma limb_range:
  assumes "length s = 32" and "i < 12"
  shows "0 \<le> sc_load12 s ! i \<and> sc_load12 s ! i \<le> (if i = 11 then 33554431 else 2097151)"
proof -
  have "i = 11 \<or> i < 11" using assms(2) by linarith
  then show ?thesis
    using within_nth [OF sc_load12_within [OF assms(1)], of i] by (auto simp: inside_def nth_append)
qed

lemma limb_val_map2_add:
  "length a = length ws \<Longrightarrow> length ws = length b \<Longrightarrow>
    limb_val ws (map2 (+) a b) = limb_val ws a + limb_val ws b"
  by (induction a ws b rule: list_induct3) (simp_all add: algebra_simps)

lemma limb_val_map2_diff:
  "length a = length ws \<Longrightarrow> length ws = length b \<Longrightarrow>
    limb_val ws (map2 (-) a b) = limb_val ws a - limb_val ws b"
  by (induction a ws b rule: list_induct3) (simp_all add: algebra_simps)

lemma limb_val_zero_top: "length s = 12 \<Longrightarrow> limb_val (sc_weights 13) (s @ [0]) = limb_val (sc_weights 12) s"
proof -
  assume "length s = 12"
  moreover have "sc_weights 13 = sc_weights 12 @ [2 ^ 252]" by (simp add: sc_weights_def upt_conv_Cons)
  ultimately show ?thesis by (simp add: limb_val_append sc_weights_def)
qed

text \<open>A combination of two loads whose limbs stay small needs no wrapping and enters the reduction.\<close>

lemma combine_limbs:
  assumes small: "\<And>i. i < 12 \<Longrightarrow> - 67108864 \<le> f (a ! i) (b ! i) \<and> f (a ! i) (b ! i) \<le> 67108864"
    and len: "length a = 12" "length b = 12"
  shows "map2 (\<lambda>x y. int64 (f x y)) a b = map2 f a b" and "within (map2 f a b @ [0]) low_entry"
proof -
  show "map2 (\<lambda>x y. int64 (f x y)) a b = map2 f a b"
  proof (rule nth_equalityI)
    fix i
    assume "i < length (map2 (\<lambda>x y. int64 (f x y)) a b)"
    then have "i < 12" using len by simp
    then show "map2 (\<lambda>x y. int64 (f x y)) a b ! i = map2 f a b ! i"
      using small [of i] len by (simp add: int64_id fits64_def)
  qed simp
  have "list_all2 inside (map2 f a b) (replicate 12 (- 562949953421312, 562949953421312))"
  proof (rule list_all2_all_nthI)
    fix i
    assume "i < length (map2 f a b)"
    then have "i < 12" using len by simp
    then show "inside (map2 f a b ! i) (replicate 12 (- 562949953421312, 562949953421312) ! i)"
      using small [of i] len by (simp add: inside_def)
  qed (use len in simp)
  then show "within (map2 f a b @ [0]) low_entry"
    unfolding within_def low_entry_def by (intro list_all2_appendI) (simp_all add: inside_def)
qed

lemma sc_add_correct:
  assumes "length a = 32" and "length b = 32"
  shows "length (sc_add a b) = 32"
    and "int (le_nat (sc_add a b)) = (int (le_nat a) + int (le_nat b)) mod group_order"
proof -
  let ?a = "sc_load12 a" and ?b = "sc_load12 b"
  have small: "- 67108864 \<le> ?a ! i + ?b ! i \<and> ?a ! i + ?b ! i \<le> 67108864" if "i < 12" for i
    using limb_range [OF assms(1) that] limb_range [OF assms(2) that] by (auto split: if_splits)
  note c = combine_limbs [of "(+)" ?a ?b, OF small length_sc_load12 length_sc_load12]
  have v: "limb_val (sc_weights 13) (map2 (+) ?a ?b @ [0]) = int (le_nat a) + int (le_nat b)"
    using assms by (simp add: limb_val_zero_top limb_val_map2_add sc_load12_value)
  show "length (sc_add a b) = 32"
    and "int (le_nat (sc_add a b)) = (int (le_nat a) + int (le_nat b)) mod group_order"
    using sc_low_reduces [OF c(2), of "[]"] v by (simp_all add: sc_add_def c(1))
qed

lemma sc_sub_correct:
  assumes "length a = 32" and "length b = 32"
  shows "length (sc_sub a b) = 32"
    and "int (le_nat (sc_sub a b)) = (int (le_nat a) - int (le_nat b)) mod group_order"
proof -
  let ?a = "sc_load12 a" and ?b = "sc_load12 b"
  have small: "- 67108864 \<le> ?a ! i - ?b ! i \<and> ?a ! i - ?b ! i \<le> 67108864" if "i < 12" for i
    using limb_range [OF assms(1) that] limb_range [OF assms(2) that] by (auto split: if_splits)
  note c = combine_limbs [of "(-)" ?a ?b, OF small length_sc_load12 length_sc_load12]
  have v: "limb_val (sc_weights 13) (map2 (-) ?a ?b @ [0]) = int (le_nat a) - int (le_nat b)"
    using assms by (simp add: limb_val_zero_top limb_val_map2_diff sc_load12_value)
  show "length (sc_sub a b) = 32"
    and "int (le_nat (sc_sub a b)) = (int (le_nat a) - int (le_nat b)) mod group_order"
    using sc_low_reduces [OF c(2), of "[]"] v by (simp_all add: sc_sub_def c(1))
qed

lemma sc_reduce32_correct:
  assumes "length s = 32"
  shows "length (sc_reduce32 s) = 32" and "int (le_nat (sc_reduce32 s)) = int (le_nat s) mod group_order"
proof -
  have "within (sc_load12 s) (replicate 12 (- 562949953421312, 562949953421312))"
    by (rule within_mono [OF sc_load12_within [OF assms]]) (simp add: ivl_le_def numeral_eq_Suc)
  then have w: "within (sc_load12 s @ [0]) low_entry"
    unfolding within_def low_entry_def by (intro list_all2_appendI) (simp_all add: inside_def)
  show "length (sc_reduce32 s) = 32" and "int (le_nat (sc_reduce32 s)) = int (le_nat s) mod group_order"
    using sc_low_reduces [OF w, of "[]"] assms
    by (simp_all add: sc_reduce32_def limb_val_zero_top sc_load12_value)
qed

subsection \<open>The product\<close>

lemma limb_val_upt:
  "limb_val (sc_weights n) (map f [0..<n]) = (\<Sum>k < n. f k * 2 ^ (21 * k))"
  by (induction n) (simp_all add: sc_weights_def limb_val_append)

text \<open>The products that the code adds up in limb \<open>k\<close>.\<close>

definition conv :: "int list \<Rightarrow> int list \<Rightarrow> nat \<Rightarrow> int" where
  "conv a b k = sum_list (map (\<lambda>i. a ! i * b ! (k - i)) [k - 11..<min (k + 1) 12])"

lemma conv_sum:
  "conv a b k = (\<Sum>i < 12. if i \<le> k \<and> k - i < 12 then a ! i * b ! (k - i) else 0)"
proof -
  have "conv a b k = (\<Sum>i \<in> {k - 11..<min (k + 1) 12}. a ! i * b ! (k - i))"
    by (simp only: conv_def interv_sum_list_conv_sum_set_nat set_upt)
  also have "\<dots> = (\<Sum>i \<in> {k - 11..<min (k + 1) 12}. if i \<le> k \<and> k - i < 12 then a ! i * b ! (k - i) else 0)"
    by (rule sum.cong) auto
  also have "\<dots> = (\<Sum>i < 12. if i \<le> k \<and> k - i < 12 then a ! i * b ! (k - i) else 0)"
    by (rule sum.mono_neutral_left) auto
  finally show ?thesis .
qed

lemma conv_value:
  "(\<Sum>k < 24. conv a b k * 2 ^ (21 * k)) = (\<Sum>i < 12. a ! i * 2 ^ (21 * i)) * (\<Sum>j < 12. b ! j * 2 ^ (21 * j))"
proof -
  let ?t = "\<lambda>i k. (if i \<le> k \<and> k - i < 12 then a ! i * b ! (k - i) * 2 ^ (21 * k) else 0)"
  have row: "(\<Sum>k < 24. ?t i k) = a ! i * 2 ^ (21 * i) * (\<Sum>j < 12. b ! j * 2 ^ (21 * j))" if "i < 12" for i
  proof -
    have "(\<Sum>k < 24. ?t i k) = (\<Sum>k \<in> (\<lambda>j. i + j) ` {..<12}. ?t i k)"
    proof (rule sum.mono_neutral_right)
      show "(\<lambda>j. i + j) ` {..<12} \<subseteq> {..<24}" using that by auto
      show "\<forall>k \<in> {..<24} - (\<lambda>j. i + j) ` {..<12}. ?t i k = 0"
      proof
        fix k
        assume k: "k \<in> {..<24} - (\<lambda>j. i + j) ` {..<12}"
        have "\<not> (i \<le> k \<and> k - i < 12)"
        proof
          assume "i \<le> k \<and> k - i < 12"
          then have "k \<in> (\<lambda>j. i + j) ` {..<12}" by (intro image_eqI [of _ _ "k - i"]) auto
          with k show False by simp
        qed
        then show "?t i k = 0" by auto
      qed
    qed simp
    also have "\<dots> = (\<Sum>j < 12. a ! i * b ! j * 2 ^ (21 * (i + j)))"
      by (subst sum.reindex) (simp_all add: inj_on_def)
    also have "\<dots> = a ! i * 2 ^ (21 * i) * (\<Sum>j < 12. b ! j * 2 ^ (21 * j))"
      by (simp only: sum_distrib_left power_add distrib_left) (simp only: ac_simps)
    finally show ?thesis .
  qed
  have "(\<Sum>k < 24. conv a b k * 2 ^ (21 * k)) = (\<Sum>k < 24. \<Sum>i < 12. ?t i k)"
    unfolding conv_sum sum_distrib_right by (intro sum.cong refl) simp
  also have "\<dots> = (\<Sum>i < 12. \<Sum>k < 24. ?t i k)" by (rule sum.swap)
  also have "\<dots> = (\<Sum>i < 12. a ! i * 2 ^ (21 * i) * (\<Sum>j < 12. b ! j * 2 ^ (21 * j)))"
    using row by (intro sum.cong refl) simp
  finally show ?thesis by (simp only: sum_distrib_right)
qed

text \<open>The largest limbs of a scalar, and the largest sums of products.\<close>

definition max_limbs :: "int list" where
  "max_limbs = replicate 11 2097151 @ [33554431]"

lemma max_products:
  "list_all (\<lambda>k. ivl_le (- conv max_limbs max_limbs k, if k < 12 then max_limbs ! k else 0) (mulsub_limbs ! k) \<and>
      ivl_fits (mulsub_limbs ! k)) [0..<24]"
  by code_simp

lemma conv_range:
  assumes "\<forall>i < 12. 0 \<le> a ! i \<and> a ! i \<le> max_limbs ! i" and "\<forall>i < 12. 0 \<le> b ! i \<and> b ! i \<le> max_limbs ! i"
  shows "0 \<le> conv a b k" and "conv a b k \<le> conv max_limbs max_limbs k"
proof -
  let ?t = "\<lambda>a b i. if i \<le> k \<and> k - i < 12 then a ! i * b ! (k - i) else 0"
  have t: "0 \<le> ?t a b i \<and> ?t a b i \<le> ?t max_limbs max_limbs i" if "i < 12" for i
  proof (cases "i \<le> k \<and> k - i < 12")
    case True
    then have j: "k - i < 12" by simp
    have ai: "0 \<le> a ! i" "a ! i \<le> max_limbs ! i" using assms(1) that by simp_all
    have bj: "0 \<le> b ! (k - i)" "b ! (k - i) \<le> max_limbs ! (k - i)" using assms(2) j by simp_all
    have "a ! i * b ! (k - i) \<le> max_limbs ! i * max_limbs ! (k - i)"
      by (rule mult_mono [OF ai(2) bj(2) order_trans [OF ai] bj(1)])
    then show ?thesis using True ai(1) bj(1) by simp
  next
    case False
    then show ?thesis by (simp only: if_False order_refl simp_thms)
  qed
  show "0 \<le> conv a b k" and "conv a b k \<le> conv max_limbs max_limbs k"
    unfolding conv_sum using t by (intro sum_nonneg sum_mono; simp)+
qed


lemma sc_mulsub_correct:
  assumes len: "length a = 32" "length b = 32" "length c = 32"
  shows "length (sc_mulsub a b c) = 32"
    and "int (le_nat (sc_mulsub a b c)) = (int (le_nat c) - int (le_nat a) * int (le_nat b)) mod group_order"
proof -
  let ?a = "sc_load12 a" and ?b = "sc_load12 b" and ?c = "sc_load12 c"
  let ?u = "\<lambda>k. (if k < 12 then ?c ! k else 0) - conv ?a ?b k"
  have m: "max_limbs ! i = (if i = 11 then 33554431 else 2097151)" if "i < 12" for i
    using that by (auto simp: max_limbs_def nth_append)
  have r: "\<forall>i < 12. 0 \<le> sc_load12 s ! i \<and> sc_load12 s ! i \<le> max_limbs ! i" if "length s = 32" for s
    using limb_range [OF that] m by simp
  have ins: "inside (?u k) (mulsub_limbs ! k)" and fit: "int64 (?u k) = ?u k" if k: "k < 24" for k
  proof -
    have t: "ivl_le (- conv max_limbs max_limbs k, if k < 12 then max_limbs ! k else 0) (mulsub_limbs ! k)"
      "ivl_fits (mulsub_limbs ! k)"
      using max_products k unfolding list_all_iff by auto
    note p = conv_range [OF r [OF len(1)] r [OF len(2)], of k]
    have "- conv max_limbs max_limbs k \<le> ?u k \<and> ?u k \<le> (if k < 12 then max_limbs ! k else 0)"
      using p r [OF len(3)] by auto
    then show "inside (?u k) (mulsub_limbs ! k)"
      using t(1) unfolding inside_def ivl_le_def fst_conv snd_conv by linarith
    then show "int64 (?u k) = ?u k" using t(2) by (rule inside_fits)
  qed
  have e: "map (mulsub_limb ?a ?b ?c) [0..<24] = map ?u [0..<24]"
    using fit by (intro map_cong refl) (simp add: mulsub_limb_def conv_def)
  have w: "within (map ?u [0..<24]) mulsub_limbs"
    unfolding within_def
  proof (rule list_all2_all_nthI)
    show "length (map ?u [0..<24]) = length mulsub_limbs" by (simp add: mulsub_limbs_def)
    fix k
    assume "k < length (map ?u [0..<24])"
    then have "k < 24" by simp
    moreover from this have "map ?u [0..<24] ! k = ?u k" by simp
    ultimately show "inside (map ?u [0..<24] ! k) (mulsub_limbs ! k)" by (simp only: ins)
  qed
  have load: "(\<Sum>k < 12. sc_load12 s ! k * 2 ^ (21 * k)) = int (le_nat s)" if "length s = 32" for s
  proof -
    have "sc_load12 s = map ((!) (sc_load12 s)) [0..<12]"
      by (rule nth_equalityI) simp_all
    then show ?thesis using limb_val_upt [of 12 "(!) (sc_load12 s)"] sc_load12_value [OF that] by simp
  qed
  have "limb_val (sc_weights 24) (map ?u [0..<24]) = (\<Sum>k < 24. ?u k * 2 ^ (21 * k))"
    by (rule limb_val_upt)
  also have "\<dots> = (\<Sum>k < 24. (if k < 12 then ?c ! k else 0) * 2 ^ (21 * k)) - (\<Sum>k < 24. conv ?a ?b k * 2 ^ (21 * k))"
    by (simp only: left_diff_distrib sum_subtractf)
  also have "(\<Sum>k < 24. (if k < 12 then ?c ! k else 0) * 2 ^ (21 * k)) = (\<Sum>k < 12. ?c ! k * 2 ^ (21 * k))"
    by (rule sum.mono_neutral_cong_right) auto
  finally have v: "limb_val (sc_weights 24) (map ?u [0..<24]) = int (le_nat c) - int (le_nat a) * int (le_nat b)"
    unfolding conv_value load [OF len(1)] load [OF len(2)] load [OF len(3)] .
  have l24: "length (map ?u [0..<24]) = 24" by simp
  note h = sc_high_reduces [OF w high_no_overflow(2) l24 high_values(2)]
  have e: "sc_mulsub a b c = sc_store (exec_stmts ((sc_mulsub_carries @ sc_reduce_high) @ sc_reduce_low) (map ?u [0..<24]))"
    by (simp only: sc_mulsub_def e append_assoc)
  show "length (sc_mulsub a b c) = 32" unfolding e by (rule h(1))
  show "int (le_nat (sc_mulsub a b c)) = (int (le_nat c) - int (le_nat a) * int (le_nat b)) mod group_order"
    unfolding e v [symmetric] by (rule h(2))
qed

subsection \<open>Checks on scalars\<close>

lemma or_all_zero: "fold (\<lambda>b acc. acc OR b) xs acc = (0 :: u8) \<longleftrightarrow> acc = 0 \<and> (\<forall>b \<in> set xs. b = 0)"
proof (induction xs arbitrary: acc)
  case (Cons x xs)
  have "acc OR x = 0 \<longleftrightarrow> acc = 0 \<and> x = 0" by (rule or_eq_0_iff)
  then show ?case using Cons.IH [of "acc OR x"] by auto
qed simp

lemma le_nat_0_iff: "le_nat xs = 0 \<longleftrightarrow> (\<forall>b \<in> set xs. b = 0)"
  by (induction xs) (auto simp: unat_eq_0)

lemma sc_isnonzero_correct:
  assumes "length s = 32"
  shows "sc_isnonzero s = (if le_nat s = 0 then 0 else 1)"
proof -
  let ?o = "fold (\<lambda>b acc. acc OR b) s (0 :: u8)"
  have b: "0 \<le> uint ?o" "uint ?o < 256" using uint_range_size [of ?o] by (simp_all add: word_size)
  have z: "uint ?o = 0 \<longleftrightarrow> le_nat s = 0"
    unfolding uint_0_iff or_all_zero le_nat_0_iff by simp
  have "drop_bit 8 (x - 1) = (if x = 0 then - 1 else 0)" if "0 \<le> x" "x < 256" for x :: int
    using that div_pos_pos_trivial [of "x - 1" 256] by (auto simp: drop_bit_eq_div)
  note this [OF b]
  moreover have "take 32 s = s" using assms by simp
  ultimately show ?thesis unfolding sc_isnonzero_def z by simp
qed

lemma signum_sgn:
  assumes "- 4294967296 < a" and "a < 4294967296"
  shows "signum a = sgn a"
proof -
  have i: "int64 (- a) = - a" using assms by (simp add: int64_id fits64_def)
  have s: "drop_bit 63 x = (if x < 0 then - 1 else 0)" if "- 4294967296 < x" "x < 4294967296" for x :: int
  proof (cases "x < 0")
    case True
    then have "x div 9223372036854775808 = - 1" using that by (intro int_div_pos_eq [of _ _ _ "x + 9223372036854775808"]) auto
    then show ?thesis using True by (simp add: drop_bit_eq_div)
  qed (use that in \<open>simp add: drop_bit_eq_div\<close>)
  have "drop_bit 63 a - drop_bit 63 (- a) = sgn a"
    using s [of a] s [of "- a"] assms by (auto simp: sgn_if)
  moreover have "fits64 (sgn a)" by (simp add: fits64_def sgn_if)
  ultimately show ?thesis by (simp add: signum_def i int64_id)
qed

text \<open>The sum of the signs with weights \<open>2 ^ i\<close> has the sign of the number.\<close>

lemma signs_decide:
  "list_all (\<lambda>d. - 4294967296 < d \<and> d < 4294967296) ds \<Longrightarrow>
    sgn (foldr (\<lambda>d r. sgn d + 2 * r) ds 0) = sgn (foldr (\<lambda>d r. d + 4294967296 * r) ds (0 :: int))"
proof (induction ds)
  case (Cons d ds)
  let ?s = "foldr (\<lambda>d r. sgn d + 2 * r) ds 0" and ?v = "foldr (\<lambda>d r. d + 4294967296 * r) ds (0 :: int)"
  have "sgn ?s = sgn ?v" and "- 4294967296 < d" "d < 4294967296" using Cons by simp_all
  then have "sgn (sgn d + 2 * ?s) = sgn (d + 4294967296 * ?v)"
    by (auto simp: sgn_if split: if_splits)
  then show ?case by simp
qed simp

lemma le_nat_words:
  assumes "length s = 32"
  shows "int (le_nat s) = foldr (\<lambda>w r. w + 4294967296 * r) (map (\<lambda>i. uint (load_4 (drop (4 * i) s))) [0..<8]) 0"
proof -
  have words: "int (le_nat t) = uint (load_4 t) + 4294967296 * int (le_nat (drop 4 t))" if "4 \<le> length t" for t
  proof -
    have "le_nat t = le_nat (take 4 t) + 256 ^ 4 * le_nat (drop 4 t)"
      using le_nat_append [of "take 4 t" "drop 4 t"] that by (simp add: min_def)
    then show ?thesis using unat_load_4 [OF that] by (simp add: uint_nat)
  qed
  have "int (le_nat (drop (4 * i) s)) =
      foldr (\<lambda>w r. w + 4294967296 * r) (map (\<lambda>i. uint (load_4 (drop (4 * i) s))) [i..<8]) 0" if "i \<le> 8" for i
    using that
  proof (induction rule: inc_induct)
    case (step i)
    then have "4 \<le> length (drop (4 * i) s)" using assms by simp
    moreover have "drop 4 (drop (4 * i) s) = drop (4 * Suc i) s" by (simp add: add.commute)
    ultimately have "int (le_nat (drop (4 * i) s)) =
        uint (load_4 (drop (4 * i) s)) + 4294967296 * int (le_nat (drop (4 * Suc i) s))"
      using words [of "drop (4 * i) s"] by (simp only:)
    then show ?case
      unfolding upt_conv_Cons [OF \<open>i < 8\<close>] list.map foldr.simps o_apply step.IH .
  qed (use assms in simp)
  from this [of 0] show ?thesis by (simp only: drop_0 mult_0_right le0 simp_thms)
qed

lemma load_4_bound:
  assumes "4 \<le> length t"
  shows "0 \<le> uint (load_4 t) \<and> uint (load_4 t) < 4294967296"
proof -
  have "length (take 4 t) = 4" using assms by simp
  then have "le_nat (take 4 t) < 256 ^ 4" using le_nat_bound [of "take 4 t"] by (simp only:)
  then have "unat (load_4 t) < 4294967296" unfolding unat_load_4 [OF assms] by simp
  then show ?thesis unfolding uint_nat by linarith
qed

lemma sc_check_correct:
  assumes "length s = 32"
  shows "sc_check s = (if int (le_nat s) < group_order then 0 else - 1)"
proof -
  define w where "w i = uint (load_4 (drop (4 * i) s))" for i
  define d where "d = [1559614444 - w 0, 1477600026 - w 1, 2734136534 - w 2, 350157278 - w 3,
    - w 4, - w 5, - w 6, 268435456 - w 7]"
  have w: "0 \<le> w i \<and> w i < 4294967296" if "i < 8" for i
    unfolding w_def by (rule load_4_bound) (use that assms in simp)
  note w8 = w [of 0, simplified] w [of 1, simplified] w [of 2, simplified] w [of 3, simplified]
    w [of 4, simplified] w [of 5, simplified] w [of 6, simplified] w [of 7, simplified]
  have b: "list_all (\<lambda>d. - 4294967296 < d \<and> d < 4294967296) d"
    using w8 by (simp add: d_def)
  let ?S = "foldr (\<lambda>d r. sgn d + 2 * r) d 0"
  have "foldr (\<lambda>d r. d + 4294967296 * r) d 0 = group_order - 1 - int (le_nat s)"
    using le_nat_words [OF assms] by (simp add: d_def upt_conv_Cons w_def group_order_def algebra_simps)
  with signs_decide [OF b] have sg: "sgn ?S = sgn (group_order - 1 - int (le_nat s))" by simp
  have i: "int64 x = x \<and> signum x = sgn x" if "- 4294967296 < x" "x < 4294967296" for x
    using that signum_sgn [of x] by (simp add: int64_id fits64_def)
  have Sb: "- 255 \<le> ?S \<and> ?S \<le> 255"
  proof -
    have "- 1 \<le> sgn x \<and> sgn x \<le> 1" for x :: int by (simp add: sgn_if)
    then show ?thesis unfolding d_def foldr.simps o_apply id_apply
      by (smt (verit))
  qed
  have "sc_check s = drop_bit 8 (int64 ?S)"
    unfolding sc_check_def Let_def w_def [symmetric]
    using w8 by (simp add: i d_def push_bit_eq_mult algebra_simps)
  also have "\<dots> = (if ?S < 0 then - 1 else 0)"
    using Sb int_div_pos_eq [of ?S 256 "- 1" "?S + 256"]
    by (auto simp: int64_id fits64_def drop_bit_eq_div)
  also have "\<dots> = (if int (le_nat s) < group_order then 0 else - 1)"
    using sg by (auto simp: sgn_if split: if_splits)
  finally show ?thesis .
qed

subsection \<open>Properties\<close>

text \<open>For 64 bytes \<open>s\<close>, \<open>sc_reduce\<close> returns 32 bytes whose little-endian value is that of \<open>s\<close>
  modulo the group order, fully reduced; no \<open>int64_t\<close> assignment on the way changes the result.\<close>
theorem sc_reduce_is_mod:
  assumes "length s = 64"
  shows "length (sc_reduce s) = 32 \<and> int (le_nat (sc_reduce s)) = int (le_nat s) mod group_order"
  using sc_reduce_correct [OF assms] by blast

lemma sc_reduce_is_mod_witness:
  "length (sc_reduce (replicate 64 255)) = 32 \<and>
   int (le_nat (sc_reduce (replicate 64 255))) = int (le_nat (replicate 64 255)) mod group_order"
  by (rule sc_reduce_is_mod) (rule length_replicate)

text \<open>C32: \<open>sc_mulsub\<close> computes \<open>c - a b\<close> modulo the group order, fully reduced, for any three
  strings of 32 bytes, reduced or not: the schoolbook products, the carries and the three rounds of
  folding never leave \<open>int64_t\<close>.\<close>
theorem sc_mulsub_is_c_minus_ab:
  assumes "length a = 32" and "length b = 32" and "length c = 32"
  shows "length (sc_mulsub a b c) = 32 \<and>
    int (le_nat (sc_mulsub a b c)) = (int (le_nat c) - int (le_nat a) * int (le_nat b)) mod group_order"
  using sc_mulsub_correct [OF assms] by blast

lemma sc_mulsub_is_c_minus_ab_witness:
  "length (sc_mulsub (replicate 32 255) (replicate 32 254) (replicate 32 1)) = 32 \<and>
    int (le_nat (sc_mulsub (replicate 32 255) (replicate 32 254) (replicate 32 1))) =
    (int (le_nat (replicate 32 1)) - int (le_nat (replicate 32 255)) * int (le_nat (replicate 32 254))) mod group_order"
  by (rule sc_mulsub_is_c_minus_ab) (rule length_replicate)+

text \<open>\<open>sc_add\<close>, \<open>sc_sub\<close> and \<open>sc_reduce32\<close> are addition, subtraction and reduction modulo the
  group order, on any 32-byte strings; the results are canonical.\<close>
theorem sc_ring_operations:
  assumes "length a = 32" and "length b = 32"
  shows "int (le_nat (sc_add a b)) = (int (le_nat a) + int (le_nat b)) mod group_order \<and>
    int (le_nat (sc_sub a b)) = (int (le_nat a) - int (le_nat b)) mod group_order \<and>
    int (le_nat (sc_reduce32 a)) = int (le_nat a) mod group_order \<and>
    sc_check (sc_add a b) = 0 \<and> sc_check (sc_sub a b) = 0 \<and> sc_check (sc_reduce32 a) = 0"
proof -
  have g: "0 < group_order" by (simp add: group_order_def)
  have c: "sc_check s = 0" if "length s = 32" "int (le_nat s) = x mod group_order" for s x
    using sc_check_correct [OF that(1)] that(2) g by simp
  show ?thesis
    using sc_add_correct [OF assms] sc_sub_correct [OF assms] sc_reduce32_correct [OF assms(1)]
    by (intro conjI c) assumption+
qed

lemma sc_ring_operations_witness:
  "sc_check (sc_add (replicate 32 255) (replicate 32 254)) = 0"
  using sc_ring_operations [of "replicate 32 255" "replicate 32 254"] by (simp only: length_replicate simp_thms)

text \<open>\<open>sc_check\<close> accepts (returns 0) exactly the strings below the group order, and
  \<open>sc_isnonzero\<close> returns 1 exactly on strings with a bit set.\<close>
theorem sc_check_exact:
  assumes "length s = 32"
  shows "sc_check s = (if int (le_nat s) < group_order then 0 else - 1) \<and>
    sc_isnonzero s = (if le_nat s = 0 then 0 else 1)"
  using sc_check_correct [OF assms] sc_isnonzero_correct [OF assms] by blast

lemma sc_check_exact_witness:
  "sc_isnonzero sc_0 = 0 \<and> sc_check sc_0 = 0"
proof -
  have z: "le_nat sc_0 = 0" by (simp add: sc_0_def le_nat_0_iff)
  have g: "0 < group_order" by (simp add: group_order_def)
  have "length sc_0 = 32" by (simp add: sc_0_def)
  from sc_check_exact [OF this] show ?thesis by (simp add: z g)
qed

end
