(* ===== verification/FieldOps.thy ===== *)
theory FieldOps
  imports ScalarOps
begin

unbundle bit_operations_syntax

section \<open>The field of 2^255 - 19 (src/src/crypto/crypto-ops.c, fe_* functions)\<close>

text \<open>
  A field element (\<open>fe\<close>) is an array of ten \<open>int32_t\<close> limbs with weights \<open>2 ^ ceiling (25.5 i)\<close>;
  the limbs are signed and not unique, so each routine has a bound on the limbs it takes and one
  on the limbs it returns. \<open>fe_is c f a\<close> says that the limbs of \<open>f\<close> are at most \<open>c / 100\<close> times
  \<open>2 ^ 25\<close> or \<open>2 ^ 24\<close> (the bounds of the comments: 1.01, 1.1, 1.65 times a power of two) and that \<open>f\<close>
  represents \<open>a\<close> modulo \<open>2 ^ 255 - 19\<close>. The rules at the end of the theory compose:
  every routine within its bounds computes the field operation without overflow in \<open>int32_t\<close> or
  \<open>int64_t\<close>. The products are tables of the terms of the C expressions.
\<close>

subsection \<open>Limb-wise operations\<close>

type_synonym fe = "int list"

definition fe_0 :: fe where
  "fe_0 = [0, 0, 0, 0, 0, 0, 0, 0, 0, 0]"

definition fe_1 :: fe where
  "fe_1 = [1, 0, 0, 0, 0, 0, 0, 0, 0, 0]"

definition fe_add :: "fe \<Rightarrow> fe \<Rightarrow> fe" where
  "fe_add f g = map2 (\<lambda>x y. int32 (x + y)) f g"

definition fe_sub :: "fe \<Rightarrow> fe \<Rightarrow> fe" where
  "fe_sub f g = map2 (\<lambda>x y. int32 (x - y)) f g"

definition fe_neg :: "fe \<Rightarrow> fe" where
  "fe_neg f = map (\<lambda>x. int32 (- x)) f"

definition fe_copy :: "fe \<Rightarrow> fe" where
  "fe_copy f = map (\<lambda>i. f ! i) [0..<10]"

text \<open>The assertion of \<open>fe_cmov\<close>, then the masked exchange; \<open>b\<close> is an \<open>unsigned int\<close>.\<close>

definition fe_cmov_assert :: "u32 \<Rightarrow> bool" where
  "fe_cmov_assert b \<longleftrightarrow> ((b - 1) AND (NOT b)) OR ((b - 2) AND (NOT (b - 1))) = - 1"

definition fe_cmov :: "fe \<Rightarrow> fe \<Rightarrow> u32 \<Rightarrow> fe option" where
  "fe_cmov f g b =
     (if fe_cmov_assert b
      then Some (map2 (\<lambda>x y. x XOR sint ((word_of_int (x XOR y) :: u32) AND (- b))) f g)
      else None)"

subsection \<open>Products\<close>

text \<open>
  A term \<open>(i, m, j, n)\<close> is a product such as \<open>f1g9_38 = f1_2 * (int64_t) g9_19\<close>, here \<open>(1, 2, 9, 19)\<close>:
  \<open>f1_2 = 2 * f1\<close> and \<open>g9_19 = 19 * g9\<close> are \<open>int32_t\<close>. The rows are the sums \<open>h0 \<dots> h9\<close>.
\<close>

type_synonym fe_term = "nat \<times> int \<times> nat \<times> int"

fun fe_product :: "fe \<Rightarrow> fe \<Rightarrow> fe_term \<Rightarrow> int" where
  "fe_product f g (i, m, j, n) = int64 (int32 (m * f ! i) * int32 (n * g ! j))"

definition fe_sums :: "fe_term list list \<Rightarrow> fe \<Rightarrow> fe \<Rightarrow> int list" where
  "fe_sums rows f g = map (\<lambda>ts. int64 (sum_list (map (fe_product f g) ts))) rows"

definition fe_mul_terms :: "fe_term list list" where
  "fe_mul_terms =
     [[(0, 1, 0, 1), (1, 2, 9, 19), (2, 1, 8, 19), (3, 2, 7, 19), (4, 1, 6, 19), (5, 2, 5, 19), (6, 1, 4, 19), (7, 2, 3, 19), (8, 1, 2, 19), (9, 2, 1, 19)],
      [(0, 1, 1, 1), (1, 1, 0, 1), (2, 1, 9, 19), (3, 1, 8, 19), (4, 1, 7, 19), (5, 1, 6, 19), (6, 1, 5, 19), (7, 1, 4, 19), (8, 1, 3, 19), (9, 1, 2, 19)],
      [(0, 1, 2, 1), (1, 2, 1, 1), (2, 1, 0, 1), (3, 2, 9, 19), (4, 1, 8, 19), (5, 2, 7, 19), (6, 1, 6, 19), (7, 2, 5, 19), (8, 1, 4, 19), (9, 2, 3, 19)],
      [(0, 1, 3, 1), (1, 1, 2, 1), (2, 1, 1, 1), (3, 1, 0, 1), (4, 1, 9, 19), (5, 1, 8, 19), (6, 1, 7, 19), (7, 1, 6, 19), (8, 1, 5, 19), (9, 1, 4, 19)],
      [(0, 1, 4, 1), (1, 2, 3, 1), (2, 1, 2, 1), (3, 2, 1, 1), (4, 1, 0, 1), (5, 2, 9, 19), (6, 1, 8, 19), (7, 2, 7, 19), (8, 1, 6, 19), (9, 2, 5, 19)],
      [(0, 1, 5, 1), (1, 1, 4, 1), (2, 1, 3, 1), (3, 1, 2, 1), (4, 1, 1, 1), (5, 1, 0, 1), (6, 1, 9, 19), (7, 1, 8, 19), (8, 1, 7, 19), (9, 1, 6, 19)],
      [(0, 1, 6, 1), (1, 2, 5, 1), (2, 1, 4, 1), (3, 2, 3, 1), (4, 1, 2, 1), (5, 2, 1, 1), (6, 1, 0, 1), (7, 2, 9, 19), (8, 1, 8, 19), (9, 2, 7, 19)],
      [(0, 1, 7, 1), (1, 1, 6, 1), (2, 1, 5, 1), (3, 1, 4, 1), (4, 1, 3, 1), (5, 1, 2, 1), (6, 1, 1, 1), (7, 1, 0, 1), (8, 1, 9, 19), (9, 1, 8, 19)],
      [(0, 1, 8, 1), (1, 2, 7, 1), (2, 1, 6, 1), (3, 2, 5, 1), (4, 1, 4, 1), (5, 2, 3, 1), (6, 1, 2, 1), (7, 2, 1, 1), (8, 1, 0, 1), (9, 2, 9, 19)],
      [(0, 1, 9, 1), (1, 1, 8, 1), (2, 1, 7, 1), (3, 1, 6, 1), (4, 1, 5, 1), (5, 1, 4, 1), (6, 1, 3, 1), (7, 1, 2, 1), (8, 1, 1, 1), (9, 1, 0, 1)]]"

definition fe_sq_terms :: "fe_term list list" where
  "fe_sq_terms =
     [[(0, 1, 0, 1), (1, 2, 9, 38), (2, 2, 8, 19), (3, 2, 7, 38), (4, 2, 6, 19), (5, 1, 5, 38)],
      [(0, 2, 1, 1), (2, 1, 9, 38), (3, 2, 8, 19), (4, 1, 7, 38), (5, 2, 6, 19)],
      [(0, 2, 2, 1), (1, 2, 1, 1), (3, 2, 9, 38), (4, 2, 8, 19), (5, 2, 7, 38), (6, 1, 6, 19)],
      [(0, 2, 3, 1), (1, 2, 2, 1), (4, 1, 9, 38), (5, 2, 8, 19), (6, 1, 7, 38)],
      [(0, 2, 4, 1), (1, 2, 3, 2), (2, 1, 2, 1), (5, 2, 9, 38), (6, 2, 8, 19), (7, 1, 7, 38)],
      [(0, 2, 5, 1), (1, 2, 4, 1), (2, 2, 3, 1), (6, 1, 9, 38), (7, 2, 8, 19)],
      [(0, 2, 6, 1), (1, 2, 5, 2), (2, 2, 4, 1), (3, 2, 3, 1), (7, 2, 9, 38), (8, 1, 8, 19)],
      [(0, 2, 7, 1), (1, 2, 6, 1), (2, 2, 5, 1), (3, 2, 4, 1), (8, 1, 9, 38)],
      [(0, 2, 8, 1), (1, 2, 7, 2), (2, 2, 6, 1), (3, 2, 5, 2), (4, 1, 4, 1), (9, 1, 9, 38)],
      [(0, 2, 9, 1), (1, 2, 8, 1), (2, 2, 7, 1), (3, 2, 6, 1), (4, 2, 5, 1)]]"

text \<open>The twelve carries, and the assignment of the \<open>int64_t\<close> limbs to \<open>int32_t\<close>.\<close>

definition fe_carry :: "nat \<Rightarrow> limb_stmt" where
  "fe_carry i = (if i = 9 then Carry 9 0 19 25 True
     else Carry i (i + 1) 1 (if even i then 26 else 25) True)"

definition fe_carries :: "limb_stmt list" where
  "fe_carries = map fe_carry [0, 4, 1, 5, 2, 6, 3, 7, 4, 8, 9, 0]"

definition fe_mul :: "fe \<Rightarrow> fe \<Rightarrow> fe" where
  "fe_mul f g = map int32 (exec_stmts fe_carries (fe_sums fe_mul_terms f g))"

definition fe_sq :: "fe \<Rightarrow> fe" where
  "fe_sq f = map int32 (exec_stmts fe_carries (fe_sums fe_sq_terms f f))"

definition fe_sq2 :: "fe \<Rightarrow> fe" where
  "fe_sq2 f = map int32 (exec_stmts fe_carries (map (\<lambda>h. int64 (h + h)) (fe_sums fe_sq_terms f f)))"

subsection \<open>Powers\<close>

text \<open>\<open>for (i = 0; i < n; ++i) fe_sq(t, t);\<close>\<close>

definition fe_sq_times :: "nat \<Rightarrow> fe \<Rightarrow> fe" where
  "fe_sq_times n t = (fe_sq ^^ n) t"

definition fe_invert :: "fe \<Rightarrow> fe" where
  "fe_invert z =
     (let t0 = fe_sq z;
          t1 = fe_sq t0;
          t1 = fe_sq t1;
          t1 = fe_mul z t1;
          t0 = fe_mul t0 t1;
          t2 = fe_sq t0;
          t1 = fe_mul t1 t2;
          t2 = fe_sq t1;
          t2 = fe_sq_times 4 t2;
          t1 = fe_mul t2 t1;
          t2 = fe_sq t1;
          t2 = fe_sq_times 9 t2;
          t2 = fe_mul t2 t1;
          t3 = fe_sq t2;
          t3 = fe_sq_times 19 t3;
          t2 = fe_mul t3 t2;
          t2 = fe_sq t2;
          t2 = fe_sq_times 9 t2;
          t1 = fe_mul t2 t1;
          t2 = fe_sq t1;
          t2 = fe_sq_times 49 t2;
          t2 = fe_mul t2 t1;
          t3 = fe_sq t2;
          t3 = fe_sq_times 99 t3;
          t2 = fe_mul t3 t2;
          t2 = fe_sq t2;
          t2 = fe_sq_times 49 t2;
          t1 = fe_mul t2 t1;
          t1 = fe_sq t1;
          t1 = fe_sq_times 4 t1
      in fe_mul t1 t0)"

definition fe_divpowm1 :: "fe \<Rightarrow> fe \<Rightarrow> fe" where
  "fe_divpowm1 u v =
     (let v3 = fe_sq v;
          v3 = fe_mul v3 v;
          uv7 = fe_sq v3;
          uv7 = fe_mul uv7 v;
          uv7 = fe_mul uv7 u;
          t0 = fe_sq uv7;
          t1 = fe_sq t0;
          t1 = fe_sq t1;
          t1 = fe_mul uv7 t1;
          t0 = fe_mul t0 t1;
          t0 = fe_sq t0;
          t0 = fe_mul t1 t0;
          t1 = fe_sq t0;
          t1 = fe_sq_times 4 t1;
          t0 = fe_mul t1 t0;
          t1 = fe_sq t0;
          t1 = fe_sq_times 9 t1;
          t1 = fe_mul t1 t0;
          t2 = fe_sq t1;
          t2 = fe_sq_times 19 t2;
          t1 = fe_mul t2 t1;
          t1 = fe_sq_times 10 t1;
          t0 = fe_mul t1 t0;
          t1 = fe_sq t0;
          t1 = fe_sq_times 49 t1;
          t1 = fe_mul t1 t0;
          t2 = fe_sq t1;
          t2 = fe_sq_times 99 t2;
          t1 = fe_mul t2 t1;
          t1 = fe_sq_times 50 t1;
          t0 = fe_mul t1 t0;
          t0 = fe_sq t0;
          t0 = fe_sq t0;
          t0 = fe_mul t0 uv7;
          t0 = fe_mul t0 v3
      in fe_mul t0 u)"

subsection \<open>Bytes\<close>

definition fe_width :: "nat \<Rightarrow> nat" where
  "fe_width i = (if even i then 26 else 25)"

text \<open>\<open>q = (h0 + q) >> 26; q = (h1 + q) >> 25; \<dots>\<close>, all in \<open>int32_t\<close>.\<close>

fun fe_quotient :: "nat \<Rightarrow> int \<Rightarrow> fe \<Rightarrow> int" where
  "fe_quotient i q [] = q"
| "fe_quotient i q (h # hs) = fe_quotient (i + 1) (drop_bit (fe_width i) (int32 (h + q))) hs"

text \<open>
  \<open>carry0 = h0 >> 26; h1 += carry0; h0 -= carry0 << 26; \<dots>\<close> with the carry into the current limb
  as argument; the carry out of \<open>h9\<close> is dropped.
\<close>

fun fe_floor_carries :: "nat \<Rightarrow> int \<Rightarrow> fe \<Rightarrow> fe" where
  "fe_floor_carries i c [] = []"
| "fe_floor_carries i c (h # hs) =
     (let h = int32 (h + c); c = drop_bit (fe_width i) h
      in int32 (h - int32 (push_bit (fe_width i) c)) # fe_floor_carries (i + 1) c hs)"

definition fe_pack :: "fe \<Rightarrow> bytes" where
  "fe_pack h = map word_of_int
     [drop_bit 0 (h ! 0),
      drop_bit 8 (h ! 0),
      drop_bit 16 (h ! 0),
      drop_bit 24 (h ! 0) OR push_bit 2 (h ! 1),
      drop_bit 6 (h ! 1),
      drop_bit 14 (h ! 1),
      drop_bit 22 (h ! 1) OR push_bit 3 (h ! 2),
      drop_bit 5 (h ! 2),
      drop_bit 13 (h ! 2),
      drop_bit 21 (h ! 2) OR push_bit 5 (h ! 3),
      drop_bit 3 (h ! 3),
      drop_bit 11 (h ! 3),
      drop_bit 19 (h ! 3) OR push_bit 6 (h ! 4),
      drop_bit 2 (h ! 4),
      drop_bit 10 (h ! 4),
      drop_bit 18 (h ! 4),
      drop_bit 0 (h ! 5),
      drop_bit 8 (h ! 5),
      drop_bit 16 (h ! 5),
      drop_bit 24 (h ! 5) OR push_bit 1 (h ! 6),
      drop_bit 7 (h ! 6),
      drop_bit 15 (h ! 6),
      drop_bit 23 (h ! 6) OR push_bit 3 (h ! 7),
      drop_bit 5 (h ! 7),
      drop_bit 13 (h ! 7),
      drop_bit 21 (h ! 7) OR push_bit 4 (h ! 8),
      drop_bit 4 (h ! 8),
      drop_bit 12 (h ! 8),
      drop_bit 20 (h ! 8) OR push_bit 6 (h ! 9),
      drop_bit 2 (h ! 9),
      drop_bit 10 (h ! 9),
      drop_bit 18 (h ! 9)]"

definition fe_tobytes :: "fe \<Rightarrow> bytes" where
  "fe_tobytes h =
     (let q = drop_bit 25 (int32 (int32 (19 * h ! 9) + push_bit 24 1));
          q = fe_quotient 0 q h
      in fe_pack (fe_floor_carries 0 (int32 (19 * q)) h))"

definition fe_isnegative :: "fe \<Rightarrow> int" where
  "fe_isnegative f = uint (fe_tobytes f ! 0 AND 1)"

definition fe_isnonzero :: "fe \<Rightarrow> int" where
  "fe_isnonzero f = drop_bit 8 (uint (fold (\<lambda>b acc. acc OR b) (fe_tobytes f) (0 :: u8)) - 1) + 1"

text \<open>\<open>fe_frombytes\<close>, expanded in \<open>ge_frombytes_vartime\<close> and \<open>ge_fromfe_frombytes_vartime\<close>.\<close>

definition fe_load :: "int \<Rightarrow> bytes \<Rightarrow> int list" where
  "fe_load h9 s =
     [uint (load_4 s), uint (push_bit 6 (load_3 (drop 4 s))), uint (push_bit 5 (load_3 (drop 7 s))),
      uint (push_bit 3 (load_3 (drop 10 s))), uint (push_bit 2 (load_3 (drop 13 s))), uint (load_4 (drop 16 s)),
      uint (push_bit 7 (load_3 (drop 20 s))), uint (push_bit 5 (load_3 (drop 23 s))),
      uint (push_bit 4 (load_3 (drop 26 s))), h9]"

definition fe_load_masked :: "bytes \<Rightarrow> int list" where
  "fe_load_masked s = fe_load (uint (push_bit 2 (load_3 (drop 29 s) AND 8388607))) s"

definition fe_load_full :: "bytes \<Rightarrow> int list" where
  "fe_load_full s = fe_load (uint (push_bit 2 (load_3 (drop 29 s)))) s"

definition fe_load_carries :: "limb_stmt list" where
  "fe_load_carries = map fe_carry [9, 1, 3, 5, 7, 0, 2, 4, 6, 8]"

definition fe_noncanonical :: "int list \<Rightarrow> bool" where
  "fe_noncanonical h \<longleftrightarrow>
     h ! 9 = 33554428 \<and> h ! 8 = 268435440 \<and> h ! 7 = 536870880 \<and> h ! 6 = 2147483520 \<and>
     h ! 5 = 4294967295 \<and> h ! 4 = 67108860 \<and> h ! 3 = 134217720 \<and> h ! 2 = 536870880 \<and>
     h ! 1 = 1073741760 \<and> 4294967277 \<le> h ! 0"

definition fe_of_limbs :: "int list \<Rightarrow> fe" where
  "fe_of_limbs h = map int32 (exec_stmts fe_load_carries h)"

subsection \<open>Representation\<close>

definition p25519 :: int where
  "p25519 = 2 ^ 255 - 19"

definition fe_weights :: "int list" where
  "fe_weights = map ((^) 2) [0, 26, 51, 77, 102, 128, 153, 179, 204, 230]"

definition fe_val :: "fe \<Rightarrow> int" where
  "fe_val f = limb_val fe_weights f"

definition fe_limit :: "int \<Rightarrow> nat \<Rightarrow> int" where
  "fe_limit c i = c * 2 ^ (25 - i mod 2) div 100"

definition fe_bounded :: "int \<Rightarrow> fe \<Rightarrow> bool" where
  "fe_bounded c f \<longleftrightarrow> length f = 10 \<and> (\<forall>i < 10. \<bar>f ! i\<bar> \<le> fe_limit c i)"

definition eqp :: "int \<Rightarrow> int \<Rightarrow> bool" where
  "eqp a b \<longleftrightarrow> a mod p25519 = b mod p25519"

definition fe_is :: "int \<Rightarrow> fe \<Rightarrow> int \<Rightarrow> bool" where
  "fe_is c f a \<longleftrightarrow> fe_bounded c f \<and> eqp (fe_val f) a"

lemma eqp_refl [simp]: "eqp a a"
  by (simp add: eqp_def)

lemma eqp_sym: "eqp a b \<Longrightarrow> eqp b a"
  by (simp add: eqp_def)

lemma eqp_trans [trans]: "eqp a b \<Longrightarrow> eqp b c \<Longrightarrow> eqp a c"
  by (simp add: eqp_def)

lemma eqp_add: "eqp a b \<Longrightarrow> eqp c d \<Longrightarrow> eqp (a + c) (b + d)"
  unfolding eqp_def by (rule mod_add_cong)

lemma eqp_diff: "eqp a b \<Longrightarrow> eqp c d \<Longrightarrow> eqp (a - c) (b - d)"
  unfolding eqp_def by (rule mod_diff_cong)

lemma eqp_minus: "eqp a b \<Longrightarrow> eqp (- a) (- b)"
  using eqp_diff [of 0 0 a b] by simp

lemma eqp_mult: "eqp a b \<Longrightarrow> eqp c d \<Longrightarrow> eqp (a * c) (b * d)"
  unfolding eqp_def by (rule mod_mult_cong)

lemma eqp_power: "eqp a b \<Longrightarrow> eqp (a ^ n) (b ^ n)"
  by (induction n) (simp_all add: eqp_mult)

lemma eqp_iff_dvd: "eqp a b \<longleftrightarrow> p25519 dvd (a - b)"
  unfolding eqp_def by (rule mod_eq_dvd_iff)

lemma fe_is_eqp: "fe_is c f a \<Longrightarrow> eqp a b \<Longrightarrow> fe_is c f b"
  by (auto simp: fe_is_def intro: eqp_trans)

lemma ten_limbs:
  assumes "length (f :: int list) = 10"
  obtains f0 f1 f2 f3 f4 f5 f6 f7 f8 f9 where "f = [f0, f1, f2, f3, f4, f5, f6, f7, f8, f9]"
  using assms by (auto simp: numeral_eq_Suc length_Suc_conv)

lemma length_fe_weights [simp]: "length fe_weights = 10"
  by (simp add: fe_weights_def)

lemma fe_limit_mono: "c \<le> d \<Longrightarrow> fe_limit c i \<le> fe_limit d i"
  unfolding fe_limit_def by (intro zdiv_mono1 mult_right_mono) simp_all

lemma fe_limit_add: "fe_limit c i + fe_limit d i \<le> fe_limit (c + d) i"
proof -
  let ?w = "2 ^ (25 - i mod 2) :: int"
  have "c * ?w div 100 + d * ?w div 100 \<le> (c * ?w + d * ?w) div 100"
    by linarith
  then show ?thesis by (simp add: fe_limit_def distrib_right)
qed

lemma fe_limit_fits: "c \<le> 6000 \<Longrightarrow> fe_limit c i \<le> 2013265920"
proof -
  assume "c \<le> 6000"
  then have "fe_limit c i \<le> fe_limit 6000 i" by (rule fe_limit_mono)
  also have "\<dots> \<le> 2013265920"
    by (cases "i mod 2 = 0") (simp_all add: fe_limit_def)
  finally show ?thesis .
qed

lemma fe_bounded_mono: "fe_bounded c f \<Longrightarrow> c \<le> d \<Longrightarrow> fe_bounded d f"
  unfolding fe_bounded_def using fe_limit_mono [of c d] order_trans by blast

lemma fe_is_mono: "fe_is c f a \<Longrightarrow> c \<le> d \<Longrightarrow> fe_is d f a"
  by (auto simp: fe_is_def intro: fe_bounded_mono)

subsection \<open>Sums, differences, copies\<close>

lemma limb_val_map2:
  assumes "length f = length ws" and "length g = length ws" and "\<And>x y w. h x y * w = x * w + e * (y * w)"
  shows "limb_val ws (map2 h f g) = limb_val ws f + e * limb_val ws g"
  using assms(1,2)
proof (induction ws arbitrary: f g)
  case (Cons w ws)
  then obtain x f' y g' where "f = x # f'" "g = y # g'" by (metis length_Suc_conv)
  with Cons show ?case using assms(3) [of x y w] by (simp add: distrib_left)
qed simp

lemma fe_pointwise:
  assumes f: "fe_bounded c f" and g: "fe_bounded d g" and cd: "c + d \<le> 6000"
    and h: "\<And>x y. \<bar>h x y\<bar> \<le> \<bar>x\<bar> + \<bar>y\<bar>"
  shows "map2 (\<lambda>x y. int32 (h x y)) f g = map2 h f g" and "fe_bounded (c + d) (map2 h f g)"
proof -
  have len: "length f = 10" "length g = 10" using f g by (simp_all add: fe_bounded_def)
  have b: "\<bar>h (f ! i) (g ! i)\<bar> \<le> fe_limit (c + d) i" if "i < 10" for i
  proof -
    have "\<bar>f ! i\<bar> + \<bar>g ! i\<bar> \<le> fe_limit c i + fe_limit d i"
      using f g that by (intro add_mono) (simp_all add: fe_bounded_def)
    with h [of "f ! i" "g ! i"] fe_limit_add [of c i d] show ?thesis by linarith
  qed
  show "map2 (\<lambda>x y. int32 (h x y)) f g = map2 h f g"
  proof (rule nth_equalityI)
    fix i
    assume "i < length (map2 (\<lambda>x y. int32 (h x y)) f g)"
    then have i: "i < 10" using len by simp
    have "fits32 (h (f ! i) (g ! i))"
      using b [OF i] fe_limit_fits [OF cd, of i] by (auto simp: fits32_def)
    then show "map2 (\<lambda>x y. int32 (h x y)) f g ! i = map2 h f g ! i"
      using i len by (simp add: int32_id)
  qed simp
  show "fe_bounded (c + d) (map2 h f g)"
    using b len by (simp add: fe_bounded_def)
qed

lemma fe_add_is:
  assumes "fe_is c f a" and "fe_is d g b" and "c + d \<le> 6000"
  shows "fe_is (c + d) (fe_add f g) (a + b)"
proof -
  have f: "fe_bounded c f" and g: "fe_bounded d g" and e: "eqp (fe_val f) a" "eqp (fe_val g) b"
    using assms(1,2) by (simp_all add: fe_is_def)
  note p = fe_pointwise [OF f g assms(3), of "(+)", OF abs_triangle_ineq]
  have "fe_val (map2 (+) f g) = fe_val f + fe_val g"
    unfolding fe_val_def using f g limb_val_map2 [of f fe_weights g "(+)" 1]
    by (simp add: fe_bounded_def distrib_right)
  then show ?thesis
    using p(2) eqp_add [OF e] by (simp add: fe_is_def fe_add_def p(1))
qed

lemma fe_sub_is:
  assumes "fe_is c f a" and "fe_is d g b" and "c + d \<le> 6000"
  shows "fe_is (c + d) (fe_sub f g) (a - b)"
proof -
  have f: "fe_bounded c f" and g: "fe_bounded d g" and e: "eqp (fe_val f) a" "eqp (fe_val g) b"
    using assms(1,2) by (simp_all add: fe_is_def)
  note p = fe_pointwise [OF f g assms(3), of "(-)", OF abs_triangle_ineq4]
  have "fe_val (map2 (-) f g) = fe_val f - fe_val g"
    unfolding fe_val_def using f g limb_val_map2 [of f fe_weights g "(-)" "- 1"]
    by (simp add: fe_bounded_def left_diff_distrib)
  then show ?thesis
    using p(2) eqp_diff [OF e] by (simp add: fe_is_def fe_sub_def p(1))
qed

lemma fe_neg_is:
  assumes "fe_is c f a" and "c \<le> 6000"
  shows "fe_is c (fe_neg f) (- a)"
proof -
  have f: "fe_bounded c f" and e: "eqp (fe_val f) a" using assms(1) by (simp_all add: fe_is_def)
  have z: "fe_bounded 0 (replicate 10 0)" by (simp add: fe_bounded_def fe_limit_def)
  have m: "map2 h (replicate 10 0) f = map (h 0) f" if "length f = 10" for h :: "int \<Rightarrow> int \<Rightarrow> int"
    by (rule nth_equalityI) (use that in simp_all)
  have len: "length f = 10" using f by (simp add: fe_bounded_def)
  have minus: "(-) 0 = (uminus :: int \<Rightarrow> int)" by (rule ext) simp
  have p: "map (\<lambda>x. int32 (- x)) f = map uminus f" "fe_bounded c (map uminus f)"
    using fe_pointwise [OF z f, of "\<lambda>x y. x - y"] assms(2) by (simp_all add: m [OF len] minus abs_triangle_ineq4)
  have "fe_val (map uminus f) = - fe_val f"
    using len unfolding fe_val_def limb_val_def
    by (elim ten_limbs) (simp add: fe_weights_def)
  then show ?thesis
    using p(2) eqp_minus [OF e] by (simp add: fe_is_def fe_neg_def p(1))
qed

lemma fe_copy_id: "length f = 10 \<Longrightarrow> fe_copy f = f"
  unfolding fe_copy_def by (rule nth_equalityI) simp_all

lemma fe_copy_is: "fe_is c f a \<Longrightarrow> fe_is c (fe_copy f) a"
  by (simp add: fe_is_def fe_bounded_def fe_copy_id)

lemma fe_0_is: "fe_is 0 fe_0 0"
  by (auto simp: fe_is_def fe_bounded_def fe_0_def fe_limit_def fe_val_def fe_weights_def less_Suc_eq numeral_eq_Suc)

lemma fe_1_is: "fe_is 1 fe_1 1"
proof -
  have "\<bar>fe_1 ! i\<bar> \<le> fe_limit 1 i" if "i < 10" for i
  proof -
    have "i mod 2 = 0 \<or> i mod 2 = 1" by linarith
    then have "1 \<le> fe_limit 1 i" by (auto simp: fe_limit_def)
    moreover have "\<bar>fe_1 ! i\<bar> \<le> 1"
      using that by (auto simp: fe_1_def nth_Cons split: nat.splits)
    ultimately show ?thesis by linarith
  qed
  then show ?thesis by (simp add: fe_is_def fe_bounded_def fe_val_def fe_1_def fe_weights_def)
qed

subsection \<open>The carries after a product\<close>

definition fe_entry :: "ivl list" where
  "fe_entry = replicate 10 (- 4611686018427387904, 4611686018427387904)"

definition limb_ivls :: "int \<Rightarrow> ivl list" where
  "limb_ivls c = map (\<lambda>i. (- fe_limit c i, fe_limit c i)) [0..<10]"

definition carries_fit :: "limb_stmt list \<Rightarrow> ivl list \<Rightarrow> bool" where
  "carries_fit p bs = (case ivl_stmts p bs of None \<Rightarrow> False
     | Some bs' \<Rightarrow> list_all2 ivl_le bs' (limb_ivls 101))"

lemma fe_carries_fit: "carries_fit fe_carries fe_entry"
  by code_simp

lemma fe_carries_value: "weigh_stmts p25519 fe_weights fe_carries fe_weights = Some fe_weights"
  by code_simp

lemma within_limb_ivls: "within f (limb_ivls c) \<longleftrightarrow> fe_bounded c f"
proof -
  have l: "length (limb_ivls c) = 10" by (simp add: limb_ivls_def)
  have "limb_ivls c ! i = (- fe_limit c i, fe_limit c i)" if "i < 10" for i
    using that by (simp add: limb_ivls_def)
  then have "inside (f ! i) (limb_ivls c ! i) \<longleftrightarrow> \<bar>f ! i\<bar> \<le> fe_limit c i" if "i < 10" for i
    using that by (auto simp: inside_def)
  then show ?thesis by (auto simp: within_def list_all2_conv_all_nth l fe_bounded_def)
qed

lemma fe_carried:
  assumes w: "within h bs" and fit: "carries_fit p bs"
    and val: "weigh_stmts p25519 fe_weights p fe_weights = Some fe_weights"
  shows "fe_is 101 (map int32 (exec_stmts p h)) (limb_val fe_weights h)"
proof -
  obtain bs' where bs': "ivl_stmts p bs = Some bs'" and le: "list_all2 ivl_le bs' (limb_ivls 101)"
    using fit by (auto simp: carries_fit_def split: option.splits)
  note 1 = stmts_sound [OF w bs']
  have b: "fe_bounded 101 (ideal_stmts p h)"
    using within_mono [OF 1(2) le] by (simp add: within_limb_ivls)
  then have len: "length (ideal_stmts p h) = 10" by (simp add: fe_bounded_def)
  have "map int32 (ideal_stmts p h) = ideal_stmts p h"
  proof (rule nth_equalityI)
    fix i
    assume "i < length (map int32 (ideal_stmts p h))"
    then have i: "i < 10" using len by simp
    then have "fits32 (ideal_stmts p h ! i)"
      using b fe_limit_fits [of 101 i] by (force simp: fits32_def fe_bounded_def)
    then show "map int32 (ideal_stmts p h) ! i = ideal_stmts p h ! i"
      using i len by (simp add: int32_id)
  qed simp
  moreover have "length h = 10"
    using len 1(1) by (metis length_exec_stmts)
  then have "eqp (limb_val fe_weights (ideal_stmts p h)) (limb_val fe_weights h)"
    using weigh_stmts_sound [of fe_weights h, OF _ val] by (simp add: eqp_def)
  ultimately show ?thesis using b by (simp add: fe_is_def fe_val_def 1(1))
qed

subsection \<open>The schoolbook products\<close>

fun ideal_product :: "fe \<Rightarrow> fe \<Rightarrow> fe_term \<Rightarrow> int" where
  "ideal_product f g (i, m, j, n) = m * n * (f ! i * g ! j)"

definition ideal_sums :: "fe_term list list \<Rightarrow> fe \<Rightarrow> fe \<Rightarrow> int list" where
  "ideal_sums rows f g = map (\<lambda>ts. sum_list (map (ideal_product f g) ts)) rows"

text \<open>Bounds of the terms and the rows for operands of bound 330 (1.65 times a power of two).\<close>

fun term_fits :: "fe_term \<Rightarrow> bool" where
  "term_fits (i, m, j, n) \<longleftrightarrow> i < 10 \<and> j < 10 \<and> 0 \<le> m \<and> 0 \<le> n \<and>
     m * fe_limit 330 i \<le> 2147483647 \<and> n * fe_limit 330 j \<le> 2147483647"

fun term_bound :: "fe_term \<Rightarrow> int" where
  "term_bound (i, m, j, n) = m * n * (fe_limit 330 i * fe_limit 330 j)"

definition rows_fit :: "fe_term list list \<Rightarrow> bool" where
  "rows_fit rows \<longleftrightarrow> length rows = 10 \<and> list_all (\<lambda>ts. list_all term_fits ts \<and>
     sum_list (map term_bound ts) \<le> 2305843009213693952) rows"

lemma fe_rows_fit: "rows_fit fe_mul_terms" "rows_fit fe_sq_terms"
  by code_simp+

lemma product_exact:
  assumes f: "fe_bounded 330 f" and g: "fe_bounded 330 g" and t: "term_fits t"
  shows "fe_product f g t = ideal_product f g t" and "\<bar>ideal_product f g t\<bar> \<le> term_bound t"
proof -
  obtain i m j n where e: "t = (i, m, j, n)" by (metis prod_cases4)
  note c = t [unfolded e term_fits.simps]
  have fi: "\<bar>f ! i\<bar> \<le> fe_limit 330 i" and gj: "\<bar>g ! j\<bar> \<le> fe_limit 330 j"
    using f g c by (simp_all add: fe_bounded_def)
  have mf: "\<bar>m * f ! i\<bar> \<le> m * fe_limit 330 i" and ng: "\<bar>n * g ! j\<bar> \<le> n * fe_limit 330 j"
    using fi gj c by (simp_all add: abs_mult mult_left_mono)
  have x: "int32 (m * f ! i) = m * f ! i" and y: "int32 (n * g ! j) = n * g ! j"
    using mf ng c by (auto intro!: int32_id simp: fits32_def)
  have "\<bar>(m * f ! i) * (n * g ! j)\<bar> \<le> (m * fe_limit 330 i) * (n * fe_limit 330 j)"
    unfolding abs_mult [of "m * f ! i"] by (rule mult_mono [OF mf ng]) (use c fi in simp_all)
  then show bound: "\<bar>ideal_product f g t\<bar> \<le> term_bound t" by (simp add: e mult_ac)
  have "(m * fe_limit 330 i) * (n * fe_limit 330 j) \<le> 2147483647 * 2147483647"
    using c fi gj by (intro mult_mono) auto
  then have "fits64 ((m * f ! i) * (n * g ! j))"
    using bound by (auto simp: fits64_def e mult_ac)
  then show "fe_product f g t = ideal_product f g t"
    by (simp add: e x y int64_id mult_ac)
qed

lemma sums_exact:
  assumes f: "fe_bounded 330 f" and g: "fe_bounded 330 g" and rows: "rows_fit rows"
  shows "fe_sums rows f g = ideal_sums rows f g" and "\<forall>h \<in> set (ideal_sums rows f g). \<bar>h\<bar> \<le> 2305843009213693952"
proof -
  have row: "int64 (sum_list (map (fe_product f g) ts)) = sum_list (map (ideal_product f g) ts) \<and>
      \<bar>sum_list (map (ideal_product f g) ts)\<bar> \<le> 2305843009213693952" if "ts \<in> set rows" for ts
  proof -
    have fit: "\<forall>t \<in> set ts. term_fits t" and b: "sum_list (map term_bound ts) \<le> 2305843009213693952"
      using rows that by (auto simp: rows_fit_def list_all_iff)
    have e: "map (fe_product f g) ts = map (ideal_product f g) ts"
      using fit product_exact(1) [OF f g] by simp
    have "\<bar>sum_list (map (ideal_product f g) ts)\<bar> \<le> sum_list (map term_bound ts)"
      using fit
    proof (induction ts)
      case (Cons t ts)
      then show ?case using product_exact(2) [OF f g, of t] by (simp del: ideal_product.simps term_bound.simps)
    qed simp
    with b have "\<bar>sum_list (map (ideal_product f g) ts)\<bar> \<le> 2305843009213693952" by linarith
    moreover from this have "fits64 (sum_list (map (ideal_product f g) ts))" by (auto simp: fits64_def)
    ultimately show ?thesis by (simp add: e int64_id)
  qed
  then show "fe_sums rows f g = ideal_sums rows f g" by (simp add: fe_sums_def ideal_sums_def)
  show "\<forall>h \<in> set (ideal_sums rows f g). \<bar>h\<bar> \<le> 2305843009213693952"
    using row by (simp add: ideal_sums_def)
qed

lemma sums_within:
  assumes b: "\<forall>h \<in> set (ideal_sums rows f g). \<bar>h\<bar> \<le> 2305843009213693952" and rows: "rows_fit rows"
  shows "within (ideal_sums rows f g) fe_entry" and "within (map (\<lambda>h. h + h) (ideal_sums rows f g)) fe_entry"
    and "map (\<lambda>h. int64 (h + h)) (ideal_sums rows f g) = map (\<lambda>h. h + h) (ideal_sums rows f g)"
proof -
  have len: "length (ideal_sums rows f g) = 10" using rows by (simp add: ideal_sums_def rows_fit_def)
  have i: "\<bar>ideal_sums rows f g ! i\<bar> \<le> 2305843009213693952" if "i < 10" for i
    using b that len nth_mem [of i "ideal_sums rows f g"] by simp
  have s: "fe_entry ! i = (- 4611686018427387904, 4611686018427387904)" "length fe_entry = 10" if "i < 10" for i
    using that by (simp_all add: fe_entry_def)
  show "within (ideal_sums rows f g) fe_entry"
    unfolding within_def
  proof (rule list_all2_all_nthI)
    fix k
    assume "k < length (ideal_sums rows f g)"
    then have "k < 10" using len by simp
    then show "inside (ideal_sums rows f g ! k) (fe_entry ! k)"
      unfolding s(1) [OF \<open>k < 10\<close>] inside_def fst_conv snd_conv using i [of k] by linarith
  qed (simp add: len fe_entry_def)
  show "within (map (\<lambda>h. h + h) (ideal_sums rows f g)) fe_entry"
    unfolding within_def
  proof (rule list_all2_all_nthI)
    fix k
    assume "k < length (map (\<lambda>h. h + h) (ideal_sums rows f g))"
    then have k: "k < 10" using len by simp
    have e: "map (\<lambda>h. h + h) (ideal_sums rows f g) ! k = ideal_sums rows f g ! k + ideal_sums rows f g ! k"
      using k len by (simp only: nth_map)
    show "inside (map (\<lambda>h. h + h) (ideal_sums rows f g) ! k) (fe_entry ! k)"
      unfolding e s(1) [OF k] inside_def fst_conv snd_conv using i [OF k] by linarith
  qed (simp add: len fe_entry_def)
  show "map (\<lambda>h. int64 (h + h)) (ideal_sums rows f g) = map (\<lambda>h. h + h) (ideal_sums rows f g)"
    using b by (intro map_cong refl int64_id) (auto simp: fits64_def abs_le_iff)
qed

text \<open>
  Every pair of limbs occurs once in the table, in the row where its weight is the weight of the
  product modulo \<open>p25519\<close>.
\<close>

definition weighed_terms :: "fe_term list list \<Rightarrow> (int \<times> nat \<times> nat) list" where
  "weighed_terms rows = concat (map2 (\<lambda>w ts. map (\<lambda>(i, m, j, n). (w * (m * n), i, j)) ts) fe_weights rows)"

lemma mul_terms_distinct: "distinct (map snd (weighed_terms fe_mul_terms))"
  by code_simp

lemma mul_terms_complete: "set (map snd (weighed_terms fe_mul_terms)) = set (List.product [0..<10] [0..<10])"
  by code_simp

lemma mul_terms_weights:
  "list_all (\<lambda>(c, i, j). eqp c (fe_weights ! i * fe_weights ! j)) (weighed_terms fe_mul_terms)"
  by code_simp

lemma limb_val_rows:
  "length ws = length rows \<Longrightarrow> limb_val ws (map (\<lambda>ts. sum_list (map (ideal_product f g) ts)) rows) =
    sum_list (map (\<lambda>(c, i, j). c * (f ! i * g ! j)) (concat (map2 (\<lambda>w ts. map (\<lambda>(i, m, j, n). (w * (m * n), i, j)) ts) ws rows)))"
proof (induction ws rows rule: list_induct2)
  case (Cons w ws ts rows)
  have "sum_list (map (ideal_product f g) ts) * w =
      sum_list (map ((\<lambda>(c, i, j). c * (f ! i * g ! j)) \<circ> (\<lambda>(i, m, j, n). (w * (m * n), i, j))) ts)"
    by (induction ts) (auto simp: algebra_simps)
  with Cons.IH show ?case by simp
qed simp

lemma eqp_sum_list: "(\<And>x. x \<in> set xs \<Longrightarrow> eqp (h x) (k x)) \<Longrightarrow> eqp (sum_list (map h xs)) (sum_list (map k xs))"
  by (induction xs) (auto intro: eqp_add)

lemma sum_list_product:
  "sum_list (map (\<lambda>(i, j). x i * y j) (List.product is js)) = sum_list (map x is) * (sum_list (map y js) :: int)"
proof (induction "is")
  case (Cons i "is")
  have "sum_list (map (\<lambda>j. x i * y j) js) = x i * sum_list (map y js)"
    by (rule sum_list_const_mult)
  with Cons show ?case by (simp add: o_def distrib_right)
qed simp

lemma fe_val_sum: "length f = 10 \<Longrightarrow> fe_val f = sum_list (map (\<lambda>i. fe_weights ! i * f ! i) [0..<10])"
  by (elim ten_limbs) (simp add: fe_val_def fe_weights_def upt_conv_Cons)

lemma mul_sums_value:
  assumes "length f = 10" and "length g = 10"
  shows "eqp (limb_val fe_weights (ideal_sums fe_mul_terms f g)) (fe_val f * fe_val g)"
proof -
  let ?W = "weighed_terms fe_mul_terms"
  let ?h = "\<lambda>(i, j). (fe_weights ! i * f ! i) * (fe_weights ! j * g ! j)"
  have "length fe_weights = length fe_mul_terms" by (simp add: fe_mul_terms_def)
  then have "limb_val fe_weights (ideal_sums fe_mul_terms f g) = sum_list (map (\<lambda>(c, i, j). c * (f ! i * g ! j)) ?W)"
    unfolding ideal_sums_def weighed_terms_def by (rule limb_val_rows)
  also have "eqp \<dots> (sum_list (map (\<lambda>(c, i, j). (fe_weights ! i * fe_weights ! j) * (f ! i * g ! j)) ?W))"
    using mul_terms_weights by (intro eqp_sum_list) (auto simp: list_all_iff intro!: eqp_mult)
  also have "(sum_list (map (\<lambda>(c, i, j). (fe_weights ! i * fe_weights ! j) * (f ! i * g ! j)) ?W)) =
      sum_list (map ?h (map snd ?W))"
    unfolding map_map by (intro arg_cong [of _ _ sum_list] map_cong refl) (auto simp: mult_ac)
  also have "\<dots> = sum_list (map ?h (List.product [0..<10] [0..<10]))"
    unfolding sum_list_distinct_conv_sum_set [OF mul_terms_distinct] mul_terms_complete
    by (rule sum_list_distinct_conv_sum_set [symmetric]) (simp add: distinct_product)
  also have "\<dots> = fe_val f * fe_val g"
    unfolding fe_val_sum [OF assms(1)] fe_val_sum [OF assms(2)] by (rule sum_list_product)
  finally show ?thesis .
qed

text \<open>The squaring table gives the same sums as the product table.\<close>

lemma sq_sums: "ideal_sums fe_sq_terms f f = ideal_sums fe_mul_terms f f"
  unfolding ideal_sums_def fe_sq_terms_def fe_mul_terms_def list.map ideal_product.simps sum_list_simps list.inject
  by (intro conjI; simp add: mult.commute)

lemma fe_mul_is:
  assumes "fe_is c f a" and "fe_is d g b" and "c \<le> 330" and "d \<le> 330"
  shows "fe_is 101 (fe_mul f g) (a * b)"
proof -
  have f: "fe_bounded 330 f" and g: "fe_bounded 330 g" and e: "eqp (fe_val f) a" "eqp (fe_val g) b"
    using assms by (auto simp: fe_is_def intro: fe_bounded_mono)
  note x = sums_exact [OF f g fe_rows_fit(1)]
  from fe_carried [OF sums_within(1) [OF x(2) fe_rows_fit(1)] fe_carries_fit fe_carries_value]
  have "fe_is 101 (fe_mul f g) (limb_val fe_weights (ideal_sums fe_mul_terms f g))"
    by (simp add: fe_mul_def x(1))
  moreover have "eqp (limb_val fe_weights (ideal_sums fe_mul_terms f g)) (a * b)"
    using f g e by (intro eqp_trans [OF mul_sums_value eqp_mult]) (simp_all add: fe_bounded_def)
  ultimately show ?thesis by (rule fe_is_eqp)
qed

lemma fe_sq_mul: "fe_bounded 330 f \<Longrightarrow> fe_sq f = fe_mul f f"
  using sums_exact(1) [of f f, OF _ _ fe_rows_fit(1)] sums_exact(1) [of f f, OF _ _ fe_rows_fit(2)]
  by (simp add: fe_sq_def fe_mul_def sq_sums)

lemma fe_sq_is:
  assumes "fe_is c f a" and "c \<le> 330"
  shows "fe_is 101 (fe_sq f) (a * a)"
proof -
  have "fe_bounded 330 f" using assms by (auto simp: fe_is_def intro: fe_bounded_mono)
  with fe_mul_is [OF assms(1,1) assms(2,2)] show ?thesis by (simp add: fe_sq_mul)
qed

lemma fe_sq2_is:
  assumes "fe_is c f a" and "c \<le> 330"
  shows "fe_is 101 (fe_sq2 f) (2 * (a * a))"
proof -
  have f: "fe_bounded 330 f" and e: "eqp (fe_val f) a"
    using assms by (auto simp: fe_is_def intro: fe_bounded_mono)
  note x = sums_exact [OF f f fe_rows_fit(2)]
  note w = sums_within [OF x(2) fe_rows_fit(2)]
  let ?s = "ideal_sums fe_sq_terms f f"
  have d: "limb_val ws (map (\<lambda>h. h + h) s) = 2 * limb_val ws s" if "length ws = length s" for ws s
    using that by (induction ws s rule: list_induct2) (simp_all add: algebra_simps)
  have "length fe_weights = length ?s" by (simp add: ideal_sums_def fe_sq_terms_def)
  with fe_carried [OF w(2) fe_carries_fit fe_carries_value]
  have "fe_is 101 (fe_sq2 f) (2 * limb_val fe_weights ?s)"
    unfolding fe_sq2_def x(1) w(3) by (simp only: d)
  moreover have "eqp (limb_val fe_weights ?s) (a * a)"
    unfolding sq_sums using f e by (intro eqp_trans [OF mul_sums_value eqp_mult]) (simp_all add: fe_bounded_def)
  then have "eqp (2 * limb_val fe_weights ?s) (2 * (a * a))"
    by (rule eqp_mult [OF eqp_refl])
  ultimately show ?thesis by (rule fe_is_eqp)
qed

subsection \<open>Powers\<close>

lemma mono_sq: "fe_is 330 t (u ^ i * v ^ j) \<Longrightarrow> fe_is 330 (fe_sq t) (u ^ (2 * i) * v ^ (2 * j))"
proof -
  assume "fe_is 330 t (u ^ i * v ^ j)"
  from fe_sq_is [OF this] have "fe_is 101 (fe_sq t) ((u ^ i * v ^ j) * (u ^ i * v ^ j))" by simp
  moreover have "(u ^ i * v ^ j) * (u ^ i * v ^ j) = u ^ (2 * i) * v ^ (2 * j)"
    by (simp only: mult_2 power_add) (simp only: ac_simps)
  ultimately have "fe_is 101 (fe_sq t) (u ^ (2 * i) * v ^ (2 * j))" by (simp only:)
  then show ?thesis by (rule fe_is_mono) simp
qed

lemma mono_mul_final:
  assumes "fe_is 330 s (u ^ i * v ^ j)" and "fe_is 330 t (u ^ k * v ^ l)" and "m = i + k" and "n = j + l"
  shows "fe_is 101 (fe_mul s t) (u ^ m * v ^ n)"
proof -
  have "(u ^ i * v ^ j) * (u ^ k * v ^ l) = u ^ m * v ^ n"
    by (simp add: assms(3,4) power_add mult_ac)
  with fe_mul_is [OF assms(1,2)] show ?thesis by simp
qed

lemma mono_mul:
  assumes "fe_is 330 s (u ^ i * v ^ j)" and "fe_is 330 t (u ^ k * v ^ l)"
  shows "fe_is 330 (fe_mul s t) (u ^ (i + k) * v ^ (j + l))"
  by (rule fe_is_mono [OF mono_mul_final [OF assms refl refl]]) simp

lemma mono_times:
  "fe_is 330 t (u ^ i * v ^ j) \<Longrightarrow> fe_is 330 (fe_sq_times n t) (u ^ (2 ^ n * i) * v ^ (2 ^ n * j))"
  unfolding fe_sq_times_def
proof (induction n)
  case (Suc n)
  then show ?case using mono_sq [of "(fe_sq ^^ n) t" u "2 ^ n * i" v "2 ^ n * j"] by (simp add: mult.assoc)
qed simp

lemma mono_let:
  "fe_is 330 x (u ^ i * v ^ j) \<Longrightarrow> (\<And>t. fe_is 330 t (u ^ i * v ^ j) \<Longrightarrow> fe_is c (f t) r) \<Longrightarrow>
    fe_is c (let t = x in f t) r"
  by (simp add: Let_def)

lemma fe_invert_mono:
  assumes "fe_is 330 z (u ^ 1 * v ^ 0)"
  shows "fe_is 101 (fe_invert z) (u ^ (2 ^ 255 - 21) * v ^ 0)"
  unfolding fe_invert_def using assms
  by - ((rule mono_let, rule mono_sq mono_mul mono_times, assumption+)+,
      rule mono_mul_final, assumption, assumption, simp_all)

lemma fe_invert_is:
  assumes "fe_is 330 z a"
  shows "fe_is 101 (fe_invert z) (a ^ (2 ^ 255 - 21))"
  using fe_invert_mono [of z a 1] assms by simp

lemma fe_divpowm1_mono:
  assumes "fe_is 330 f (u ^ 1 * v ^ 0)" and "fe_is 330 g (u ^ 0 * v ^ 1)"
  shows "fe_is 101 (fe_divpowm1 f g) (u ^ (1 + (2 ^ 252 - 3)) * v ^ (3 + 7 * (2 ^ 252 - 3)))"
  unfolding fe_divpowm1_def using assms
  by - ((rule mono_let, rule mono_sq mono_mul mono_times, assumption+)+,
      rule mono_mul_final, assumption, assumption, simp_all)

lemma fe_divpowm1_is:
  assumes "fe_is 330 f u" and "fe_is 330 g v"
  shows "fe_is 101 (fe_divpowm1 f g) (u * v ^ 3 * (u * v ^ 7) ^ (2 ^ 252 - 3))"
proof -
  have "u ^ (1 + n) * v ^ (3 + 7 * n) = u * v ^ 3 * (u * v ^ 7) ^ n" for n
    by (simp only: power_add power_mult power_mult_distrib power_one_right) (simp only: ac_simps)
  with fe_divpowm1_mono [of f u v g] assms show ?thesis by (simp only: power_0 power_one_right mult_1_left mult_1_right)
qed

subsection \<open>Canonical bytes\<close>

fun fe_value :: "nat \<Rightarrow> fe \<Rightarrow> int" where
  "fe_value i [] = 0"
| "fe_value i (h # hs) = h + 2 ^ fe_width i * fe_value (i + 1) hs"

fun fe_bits :: "nat \<Rightarrow> nat \<Rightarrow> nat" where
  "fe_bits i 0 = 0"
| "fe_bits i (Suc n) = fe_width i + fe_bits (i + 1) n"

lemma fe_value_val: "length f = 10 \<Longrightarrow> fe_value 0 f = fe_val f"
  by (elim ten_limbs) (simp add: fe_val_def fe_weights_def fe_width_def)

lemma fe_width_pos: "25 \<le> fe_width i" "fe_width i \<le> 26"
  by (simp_all add: fe_width_def)

lemma carry_small:
  assumes "\<bar>h\<bar> \<le> 134217728" and "\<bar>c\<bar> \<le> 134217728"
  shows "int32 (h + c) = h + c" and "drop_bit (fe_width i) (h + c) = (h + c) div 2 ^ fe_width i"
    and "\<bar>(h + c) div 2 ^ fe_width i\<bar> \<le> 134217728"
    and "int32 (push_bit (fe_width i) ((h + c) div 2 ^ fe_width i)) = 2 ^ fe_width i * ((h + c) div 2 ^ fe_width i)"
    and "int32 ((h + c) mod 2 ^ fe_width i) = (h + c) mod 2 ^ fe_width i"
proof -
  let ?x = "h + c" and ?m = "2 ^ fe_width i :: int"
  have x: "- 268435456 \<le> ?x" "?x \<le> 268435456" using assms by linarith+
  have m: "4 \<le> ?m" "?m \<le> 67108864" by (simp_all add: fe_width_def)
  show "int32 ?x = ?x" using x by (simp add: int32_id fits32_def)
  show "drop_bit (fe_width i) ?x = ?x div ?m" by (simp add: drop_bit_eq_div)
  have r: "0 \<le> ?x mod ?m" "?x mod ?m < ?m" using m by simp_all
  have e: "?x = ?m * (?x div ?m) + ?x mod ?m" by simp
  have "\<bar>?x div ?m\<bar> \<le> 134217728"
  proof -
    have m0: "0 < ?m" by simp
    have "(- 134217728) * ?m \<le> ?x" and "?x \<le> 134217728 * ?m" using x m by linarith+
    from zdiv_mono1 [OF this(1) m0] zdiv_mono1 [OF this(2) m0]
    have "- 134217728 \<le> ?x div ?m" and "?x div ?m \<le> 134217728"
      by (simp_all only: nonzero_mult_div_cancel_right less_imp_neq [OF m0, symmetric] simp_thms not_False_eq_True)
    then show ?thesis by linarith
  qed
  then show "\<bar>?x div ?m\<bar> \<le> 134217728" .
  show "int32 (push_bit (fe_width i) (?x div ?m)) = ?m * (?x div ?m)"
  proof -
    have "fits32 (?m * (?x div ?m))" using e r m x unfolding fits32_def by linarith
    from int32_id [OF this] show ?thesis by (simp add: push_bit_eq_mult mult.commute)
  qed
  show "int32 (?x mod ?m) = ?x mod ?m"
    by (rule int32_id) (use r m in \<open>unfold fits32_def, linarith\<close>)
qed

lemma fe_quotient_div:
  "\<forall>h \<in> set hs. \<bar>h\<bar> \<le> 134217728 \<Longrightarrow> \<bar>q\<bar> \<le> 134217728 \<Longrightarrow>
    fe_quotient i q hs = (fe_value i hs + q) div 2 ^ fe_bits i (length hs)"
proof (induction hs arbitrary: i q)
  case (Cons h hs)
  let ?m = "2 ^ fe_width i :: int" and ?V = "fe_value (i + 1) hs"
  have s: "\<bar>h\<bar> \<le> 134217728" using Cons.prems by simp
  note c = carry_small [OF s Cons.prems(2)]
  have "(h + ?m * ?V + q) div (?m * 2 ^ fe_bits (i + 1) (length hs)) =
      ((h + q) + ?m * ?V) div ?m div 2 ^ fe_bits (i + 1) (length hs)"
    by (simp add: zdiv_zmult2_eq algebra_simps)
  also have "((h + q) + ?m * ?V) div ?m = ?V + (h + q) div ?m" by simp
  finally show ?case
    using Cons.IH [of "(h + q) div ?m" "i + 1"] Cons.prems c by (simp add: power_add add.commute)
qed simp

lemma fe_floor_carries_digits:
  "\<forall>h \<in> set hs. \<bar>h\<bar> \<le> 134217728 \<Longrightarrow> \<bar>c\<bar> \<le> 134217728 \<Longrightarrow>
    length (fe_floor_carries i c hs) = length hs \<and>
    fe_value i (fe_floor_carries i c hs) = (fe_value i hs + c) mod 2 ^ fe_bits i (length hs) \<and>
    (\<forall>k < length hs. 0 \<le> fe_floor_carries i c hs ! k \<and> fe_floor_carries i c hs ! k < 2 ^ fe_width (i + k))"
proof (induction hs arbitrary: i c)
  case (Cons h hs)
  let ?m = "2 ^ fe_width i :: int" and ?V = "fe_value (i + 1) hs"
  let ?B = "2 ^ fe_bits (i + 1) (length hs) :: int"
  let ?c = "(h + c) div ?m"
  have s: "\<bar>h\<bar> \<le> 134217728" using Cons.prems by simp
  note k = carry_small [OF s Cons.prems(2)]
  have e: "fe_floor_carries i c (h # hs) = (h + c) mod ?m # fe_floor_carries (i + 1) ?c hs"
    using k by (simp add: Let_def minus_mult_div_eq_mod)
  have ih: "length (fe_floor_carries (i + 1) ?c hs) = length hs"
    "fe_value (i + 1) (fe_floor_carries (i + 1) ?c hs) = (?V + ?c) mod ?B"
    "\<And>n. n < length hs \<Longrightarrow> 0 \<le> fe_floor_carries (i + 1) ?c hs ! n \<and>
      fe_floor_carries (i + 1) ?c hs ! n < 2 ^ fe_width (i + 1 + n)"
    using Cons.IH [of ?c "i + 1"] Cons.prems k(3) by auto
  have "(h + ?m * ?V + c) mod (?m * ?B) = ?m * ((h + ?m * ?V + c) div ?m mod ?B) + (h + ?m * ?V + c) mod ?m"
    by (simp add: zmod_zmult2_eq)
  also have "(h + ?m * ?V + c) mod ?m = (h + c) mod ?m"
    by (metis add.commute add.left_commute mod_mult_self1 mult.commute)
  also have "(h + ?m * ?V + c) div ?m = ?V + ?c"
  proof -
    have e: "h + ?m * ?V + c = (h + c) + ?V * ?m" by (simp only: ac_simps)
    have "?m \<noteq> 0" by simp
    then show ?thesis unfolding e by (rule div_mult_self1)
  qed
  finally have "fe_value i (fe_floor_carries i c (h # hs)) = (fe_value i (h # hs) + c) mod 2 ^ fe_bits i (length (h # hs))"
    unfolding e fe_value.simps ih(2) by (simp add: power_add)
  moreover have "0 \<le> fe_floor_carries i c (h # hs) ! n \<and> fe_floor_carries i c (h # hs) ! n < 2 ^ fe_width (i + n)"
    if "n < length (h # hs)" for n
  proof (cases n)
    case 0
    then show ?thesis unfolding e by simp
  next
    case (Suc j)
    then show ?thesis unfolding e using ih(3) [of j] that by simp
  qed
  moreover have "length (fe_floor_carries i c (h # hs)) = length (h # hs)" unfolding e using ih(1) by simp
  ultimately show ?case by blast
qed simp

text \<open>The stored bytes of digits are the bytes of their value.\<close>

lemma fe_value_join: "fe_value 0 [h0, h1, h2, h3, h4, h5, h6, h7, h8, h9] =
  limb_join 26 h0 (limb_join 25 h1 (limb_join 26 h2 (limb_join 25 h3 (limb_join 26 h4
    (limb_join 25 h5 (limb_join 26 h6 (limb_join 25 h7 (limb_join 26 h8 h9))))))))"
  by (simp add: limb_join_def fe_width_def)

lemma fe_pack_value:
  assumes len: "length h = 10" and d: "\<forall>k < 10. 0 \<le> h ! k \<and> h ! k < 2 ^ fe_width k"
  shows "length (fe_pack h) = 32" and "int (le_nat (fe_pack h)) = fe_value 0 h"
proof -
  show "length (fe_pack h) = 32" by (simp add: fe_pack_def)
  obtain h0 h1 h2 h3 h4 h5 h6 h7 h8 h9 where h: "h = [h0, h1, h2, h3, h4, h5, h6, h7, h8, h9]"
    using len by (rule ten_limbs)
  have b: "0 \<le> h0" "h0 < 67108864" "0 \<le> h1" "h1 < 33554432" "0 \<le> h2" "h2 < 67108864"
    "0 \<le> h3" "h3 < 33554432" "0 \<le> h4" "h4 < 67108864" "0 \<le> h5" "h5 < 33554432"
    "0 \<le> h6" "h6 < 67108864" "0 \<le> h7" "h7 < 33554432" "0 \<le> h8" "h8 < 67108864" "0 \<le> h9" "h9 < 33554432"
    using d [rule_format, of 0] d [rule_format, of 1] d [rule_format, of 2] d [rule_format, of 3]
      d [rule_format, of 4] d [rule_format, of 5] d [rule_format, of 6] d [rule_format, of 7]
      d [rule_format, of 8] d [rule_format, of 9]
    by (simp_all add: h fe_width_def)
  let ?v = "fe_value 0 h"
  have v: "0 \<le> ?v" "?v < 2 ^ 256" using b by (simp_all add: h fe_width_def)
  have "fe_pack h = map (\<lambda>j. word_of_int (drop_bit (8 * j) ?v)) [0..<32]"
    unfolding h fe_value_join fe_pack_def
    by (simp add: upt_conv_Cons drop_limb low_limb low_limb_0 join_limbs join_push
        join_push [where m = 1, simplified] b)
  then have "int (le_nat (fe_pack h)) = ?v mod 2 ^ 256"
    using le_nat_bytes [OF v(1), of 32] by simp
  then show "int (le_nat (fe_pack h)) = ?v" using v by simp
qed

lemma fe_value_range:
  assumes "\<forall>k < 10. 0 \<le> h ! k \<and> h ! k < 2 ^ fe_width k" and "length h = 10"
  shows "0 \<le> fe_value 0 h \<and> fe_value 0 h < 2 ^ 255"
proof -
  obtain h0 h1 h2 h3 h4 h5 h6 h7 h8 h9 where h: "h = [h0, h1, h2, h3, h4, h5, h6, h7, h8, h9]"
    using assms(2) by (rule ten_limbs)
  show ?thesis
    using assms(1) [rule_format, of 0] assms(1) [rule_format, of 1] assms(1) [rule_format, of 2]
      assms(1) [rule_format, of 3] assms(1) [rule_format, of 4] assms(1) [rule_format, of 5]
      assms(1) [rule_format, of 6] assms(1) [rule_format, of 7] assms(1) [rule_format, of 8]
      assms(1) [rule_format, of 9]
    by (simp add: h fe_width_def)
qed

text \<open>The estimate of the quotient by \<open>2 ^ 255 - 19\<close>: the comment of \<open>fe_tobytes\<close> in integers.\<close>

lemma quotient_estimate:
  fixes h9 w e q r :: int
  assumes "\<bar>h9\<bar> \<le> 36909875" and "\<bar>w\<bar> \<le> 2 ^ 231"
    and e: "33554432 * e \<le> 19 * h9 + 16777216" "19 * h9 + 16777216 < 33554432 * (e + 1)"
    and v: "h9 * 2 ^ 230 + w = p25519 * q + r" and r: "0 \<le> r" "r < p25519"
  shows "(h9 * 2 ^ 230 + w + e) div 2 ^ 255 = q" and "\<bar>q\<bar> \<le> 3"
proof -
  show q: "\<bar>q\<bar> \<le> 3" using assms unfolding p25519_def by (simp add: abs_le_iff)
  have "0 \<le> r - 19 * q + e" and "r - 19 * q + e < 2 ^ 255"
    using assms q unfolding p25519_def by (simp_all add: abs_le_iff)
  moreover have "h9 * 2 ^ 230 + w + e = (r - 19 * q + e) + 2 ^ 255 * q"
    unfolding v p25519_def by (simp add: algebra_simps)
  ultimately show "(h9 * 2 ^ 230 + w + e) div 2 ^ 255 = q" by simp
qed

lemma fe_bits_10: "fe_bits 0 10 = 255"
  by code_simp

lemma fe_small:
  assumes "fe_bounded 220 f" and "h \<in> set f"
  shows "\<bar>h\<bar> \<le> 134217728"
proof -
  obtain i where "i < 10" "h = f ! i" using assms by (auto simp: in_set_conv_nth fe_bounded_def)
  moreover have "fe_limit 220 i \<le> 134217728" for i
  proof -
    have "i mod 2 = 0 \<or> i mod 2 = 1" by linarith
    then show ?thesis by (auto simp: fe_limit_def)
  qed
  ultimately show ?thesis using assms(1) by (auto simp: fe_bounded_def intro: order_trans)
qed

theorem fe_tobytes_value:
  assumes f: "fe_bounded 220 f"
  shows "length (fe_tobytes f) = 32" and "int (le_nat (fe_tobytes f)) = fe_val f mod p25519"
proof -
  have len: "length f = 10" using f by (simp add: fe_bounded_def)
  then obtain f0 f1 f2 f3 f4 f5 f6 f7 f8 f9 where l: "f = [f0, f1, f2, f3, f4, f5, f6, f7, f8, f9]"
    by (rule ten_limbs)
  define w where "w = fe_val f - f9 * 2 ^ 230"
  define e where "e = (19 * f9 + 16777216) div 33554432"
  define q where "q = fe_val f div p25519"
  define r where "r = fe_val f mod p25519"
  have lim: "\<bar>[f0, f1, f2, f3, f4, f5, f6, f7, f8, f9] ! i\<bar> \<le> fe_limit 220 i" if "i < 10" for i
    using f that by (simp add: fe_bounded_def l)
  have b0: "\<bar>f0\<bar> \<le> 73819750" using lim [of 0] by (simp add: fe_limit_def)
  have b1: "\<bar>f1\<bar> \<le> 36909875" using lim [of 1] by (simp add: fe_limit_def)
  have b2: "\<bar>f2\<bar> \<le> 73819750" using lim [of 2] by (simp add: fe_limit_def)
  have b3: "\<bar>f3\<bar> \<le> 36909875" using lim [of 3] by (simp add: fe_limit_def)
  have b4: "\<bar>f4\<bar> \<le> 73819750" using lim [of 4] by (simp add: fe_limit_def)
  have b5: "\<bar>f5\<bar> \<le> 36909875" using lim [of 5] by (simp add: fe_limit_def)
  have b6: "\<bar>f6\<bar> \<le> 73819750" using lim [of 6] by (simp add: fe_limit_def)
  have b7: "\<bar>f7\<bar> \<le> 36909875" using lim [of 7] by (simp add: fe_limit_def)
  have b8: "\<bar>f8\<bar> \<le> 73819750" using lim [of 8] by (simp add: fe_limit_def)
  have b9: "\<bar>f9\<bar> \<le> 36909875" using lim [of 9] by (simp add: fe_limit_def)
  note b = b0 b1 b2 b3 b4 b5 b6 b7 b8
  have "w = f0 + f1 * 2 ^ 26 + f2 * 2 ^ 51 + f3 * 2 ^ 77 + f4 * 2 ^ 102 + f5 * 2 ^ 128 + f6 * 2 ^ 153
      + f7 * 2 ^ 179 + f8 * 2 ^ 204"
    by (simp add: w_def l fe_val_def fe_weights_def)
  then have w: "\<bar>w\<bar> \<le> 2 ^ 231" using b by (simp add: abs_le_iff)
  have p: "0 < p25519" by (simp add: p25519_def)
  have v: "f9 * 2 ^ 230 + w = p25519 * q + r" by (simp add: w_def q_def r_def)
  have r: "0 \<le> r" "r < p25519" using p by (simp_all add: r_def)
  have e: "33554432 * e \<le> 19 * f9 + 16777216" "19 * f9 + 16777216 < 33554432 * (e + 1)"
    unfolding e_def by (simp_all add: algebra_simps)
  note est = quotient_estimate [OF b9 w e v r]
  have eb: "\<bar>e\<bar> \<le> 134217728" using e b9 by (auto simp: abs_le_iff)
  have i19: "int32 (19 * f9) = 19 * f9" "int32 (19 * f9 + 16777216) = 19 * f9 + 16777216"
    using b9 by (auto intro!: int32_id simp: fits32_def abs_le_iff)
  have small: "\<forall>h \<in> set f. \<bar>h\<bar> \<le> 134217728" using fe_small [OF f] by blast
  have f9nth: "f ! 9 = f9" by (simp add: l)
  have push: "push_bit 24 (1 :: int) = 16777216" by simp
  have drop25: "drop_bit 25 x = x div 33554432" for x :: int by (simp add: drop_bit_eq_div)
  have "fe_quotient 0 e f = q"
    using fe_quotient_div [OF small eb, of 0] est(1)
    by (simp add: len fe_bits_10 fe_value_val w_def)
  then have tb: "fe_tobytes f = fe_pack (fe_floor_carries 0 (int32 (19 * q)) f)"
    unfolding fe_tobytes_def Let_def f9nth push i19 drop25 e_def by (simp only:)
  have q19: "int32 (19 * q) = 19 * q" "\<bar>19 * q\<bar> \<le> 134217728" using est(2) by (auto intro!: int32_id simp: fits32_def abs_le_iff)
  note d = fe_floor_carries_digits [OF small q19(2), of 0]
  let ?d = "fe_floor_carries 0 (19 * q) f"
  have ld: "length ?d = 10" and dd: "\<forall>k < 10. 0 \<le> ?d ! k \<and> ?d ! k < 2 ^ fe_width k" using d len by simp_all
  note pk = fe_pack_value [OF ld dd]
  show "length (fe_tobytes f) = 32" unfolding tb q19(1) by (rule pk(1))
  have "fe_value 0 ?d = (fe_val f + 19 * q) mod 2 ^ 255"
    using d by (simp add: len fe_bits_10 fe_value_val)
  also have "fe_val f + 19 * q = r + 2 ^ 255 * q"
    using v by (simp add: w_def p25519_def algebra_simps)
  also have "\<dots> mod 2 ^ 255 = r"
    using r by (simp add: p25519_def)
  finally show "int (le_nat (fe_tobytes f)) = fe_val f mod p25519"
    unfolding tb q19(1) pk(2) r_def .
qed

lemma fe_tobytes_is:
  assumes "fe_is c f a" and "c \<le> 220"
  shows "length (fe_tobytes f) = 32" and "int (le_nat (fe_tobytes f)) = a mod p25519"
proof -
  have f: "fe_bounded 220 f" and "fe_val f mod p25519 = a mod p25519"
    using assms by (auto simp: fe_is_def eqp_def intro: fe_bounded_mono)
  then show "length (fe_tobytes f) = 32" and "int (le_nat (fe_tobytes f)) = a mod p25519"
    using fe_tobytes_value [OF f] by simp_all
qed

lemma fe_isnonzero_is:
  assumes "fe_is c f a" and "c \<le> 220"
  shows "fe_isnonzero f = (if eqp a 0 then 0 else 1)"
proof -
  note t = fe_tobytes_is [OF assms]
  have "fe_isnonzero f = sc_isnonzero (fe_tobytes f)"
    using t(1) by (simp add: fe_isnonzero_def sc_isnonzero_def)
  also have "\<dots> = (if le_nat (fe_tobytes f) = 0 then 0 else 1)" by (rule sc_isnonzero_correct [OF t(1)])
  also have "le_nat (fe_tobytes f) = 0 \<longleftrightarrow> eqp a 0" using t(2) by (auto simp: eqp_def)
  finally show ?thesis .
qed

lemma fe_isnegative_is:
  assumes "fe_is c f a" and "c \<le> 220"
  shows "fe_isnegative f = a mod p25519 mod 2"
proof -
  note t = fe_tobytes_is [OF assms]
  obtain b bs where s: "fe_tobytes f = b # bs" using t(1) by (cases "fe_tobytes f") simp_all
  have "uint (b AND 1) = uint b mod 2" by (simp only: and_one_eq uint_mod) simp
  then have "fe_isnegative f = uint b mod 2" by (simp only: fe_isnegative_def s nth_Cons_0)
  also have "\<dots> = int (le_nat (fe_tobytes f)) mod 2"
  proof -
    have "x mod 2 = (x + 256 * y) mod 2" for x y :: int by presburger
    from this [of "int (unat b)" "int (le_nat bs)"]
    show ?thesis unfolding s le_nat.simps uint_nat of_nat_add of_nat_mult of_nat_numeral .
  qed
  finally show ?thesis using t(2) by simp
qed

subsection \<open>Loading bytes\<close>

lemma uint_load_3:
  "3 \<le> length s \<Longrightarrow> uint (load_3 s) = int (le_nat (take 3 s)) \<and> 0 \<le> uint (load_3 s) \<and> uint (load_3 s) < 16777216"
  using unat_load_3 [of s] le_nat_bound [of "take 3 s"] by (simp add: uint_nat)

lemma uint_push_load_3:
  assumes "3 \<le> length s" and "k \<le> 8"
  shows "uint (push_bit k (load_3 s)) = 2 ^ k * int (le_nat (take 3 s))"
proof -
  have "unat (load_3 s) < 16777216"
    using unat_load_3 [OF assms(1)] le_nat_bound [of "take 3 s"] assms(1) by simp
  then have "unat (load_3 s) * 2 ^ k < 16777216 * 2 ^ 8"
    using assms(2) by (intro mult_less_le_imp_less power_increasing) simp_all
  then have "unat (push_bit k (load_3 s)) = unat (load_3 s) * 2 ^ k"
    unfolding unat_push_bit by (intro mod_less) simp
  then show ?thesis
    using unat_load_3 [OF assms(1)] by (simp add: uint_nat mult.commute)
qed

definition fe_pieces :: "nat list" where
  "fe_pieces = [4, 3, 3, 3, 3, 4, 3, 3, 3, 3]"

fun cut :: "nat list \<Rightarrow> bytes \<Rightarrow> nat list" where
  "cut [] s = []"
| "cut (n # ns) s = le_nat (take n s) # cut ns (drop n s)"

fun joined :: "nat list \<Rightarrow> nat list \<Rightarrow> nat" where
  "joined (n # ns) (x # xs) = x + 256 ^ n * joined ns xs"
| "joined _ _ = 0"

lemma joined_cut: "length s = sum_list ns \<Longrightarrow> joined ns (cut ns s) = le_nat s"
proof (induction ns arbitrary: s)
  case (Cons n ns)
  then have "length (drop n s) = sum_list ns" "length (take n s) = n" by simp_all
  with Cons.IH [of "drop n s"] le_nat_append [of "take n s" "drop n s"] show ?case by simp
qed simp

lemma cut_bounds: "length s = sum_list ns \<Longrightarrow> list_all2 (\<lambda>n x. x < 256 ^ n) ns (cut ns s)"
proof (induction ns arbitrary: s)
  case (Cons n ns)
  then have "length (drop n s) = sum_list ns" "length (take n s) = n" by simp_all
  with Cons.IH [of "drop n s"] le_nat_bound [of "take n s"] show ?case by simp
qed simp

lemma fe_load_cut:
  assumes "length s = 32"
  obtains x0 x1 x2 x3 x4 x5 x6 x7 x8 x9 where
    "le_nat s = joined fe_pieces [x0, x1, x2, x3, x4, x5, x6, x7, x8, x9]"
    "fe_load_full s = [int x0, 2 ^ 6 * int x1, 2 ^ 5 * int x2, 2 ^ 3 * int x3, 2 ^ 2 * int x4, int x5,
      2 ^ 7 * int x6, 2 ^ 5 * int x7, 2 ^ 4 * int x8, 2 ^ 2 * int x9]"
    "fe_load_masked s = [int x0, 2 ^ 6 * int x1, 2 ^ 5 * int x2, 2 ^ 3 * int x3, 2 ^ 2 * int x4, int x5,
      2 ^ 7 * int x6, 2 ^ 5 * int x7, 2 ^ 4 * int x8, 2 ^ 2 * int (x9 mod 2 ^ 23)]"
    "list_all2 (\<lambda>n x. x < 256 ^ n) fe_pieces [x0, x1, x2, x3, x4, x5, x6, x7, x8, x9]"
proof -
  define y where "y n k = le_nat (take n (drop k s))" for n k
  have c: "cut fe_pieces s = [y 4 0, y 3 4, y 3 7, y 3 10, y 3 13, y 4 16, y 3 20, y 3 23, y 3 26, y 3 29]"
    by (simp add: fe_pieces_def y_def)
  have l: "length s = sum_list fe_pieces" using assms by (simp add: fe_pieces_def)
  have l3: "uint (push_bit j (load_3 (drop k s))) = 2 ^ j * int (y 3 k)" if "k \<le> 29" "j \<le> 8" for j k
    unfolding y_def by (rule uint_push_load_3) (use that assms in simp_all)
  have l4: "uint (load_4 (drop k s)) = int (y 4 k)" if "k \<le> 28" for k
    using unat_load_4 [of "drop k s"] that assms by (simp add: uint_nat y_def)
  have m: "uint (push_bit 2 (load_3 (drop 29 s) AND 8388607)) = 2 ^ 2 * int (y 3 29 mod 2 ^ 23)"
  proof -
    let ?w = "load_3 (drop 29 s)"
    have "unat (?w AND 8388607) = unat ?w mod 2 ^ 23" using unat_and_low [of ?w 23] by simp
    moreover have "unat ?w = y 3 29" using unat_load_3 [of "drop 29 s"] assms by (simp add: y_def)
    ultimately have u: "unat (?w AND 8388607) = y 3 29 mod 2 ^ 23" by simp
    then have "unat (?w AND 8388607) < 2 ^ 23" by simp
    then have "unat (push_bit 2 (?w AND 8388607)) = unat (?w AND 8388607) * 2 ^ 2"
      unfolding unat_push_bit by (intro mod_less) simp
    then show ?thesis unfolding uint_nat u by (simp only: of_nat_mult of_nat_power of_nat_numeral mult.commute)
  qed
  note f = l4 [of 0, simplified] l4 [of 16, simplified] l3 [of 4 6, simplified] l3 [of 7 5, simplified]
    l3 [of 10 3, simplified] l3 [of 13 2, simplified] l3 [of 20 7, simplified] l3 [of 23 5, simplified]
    l3 [of 26 4, simplified] l3 [of 29 2, simplified]
  show thesis
    by (rule that [of "y 4 0" "y 3 4" "y 3 7" "y 3 10" "y 3 13" "y 4 16" "y 3 20" "y 3 23" "y 3 26" "y 3 29"])
      (use joined_cut [OF l] cut_bounds [OF l] m in
        \<open>simp_all add: c fe_load_full_def fe_load_masked_def fe_load_def f\<close>)
qed

definition load_entry :: "ivl list" where
  "load_entry = [(0, 4294967295), (0, 1073741823), (0, 536870911), (0, 134217727), (0, 67108863),
     (0, 4294967295), (0, 2147483647), (0, 536870911), (0, 268435455), (0, 67108863)]"

lemma load_carries_fit: "carries_fit fe_load_carries load_entry"
  by code_simp

lemma load_carries_value: "weigh_stmts p25519 fe_weights fe_load_carries fe_weights = Some fe_weights"
  by code_simp

lemma fe_load_values:
  assumes "length s = 32"
  shows "limb_val fe_weights (fe_load_full s) = int (le_nat s)"
    and "limb_val fe_weights (fe_load_masked s) = int (le_nat s mod 2 ^ 255)"
    and "within (fe_load_full s) load_entry" and "within (fe_load_masked s) load_entry"
    and "fe_noncanonical (fe_load_masked s) \<longleftrightarrow> p25519 \<le> int (le_nat s mod 2 ^ 255)"
proof -
  obtain x0 x1 x2 x3 x4 x5 x6 x7 x8 x9 where
    n: "le_nat s = joined fe_pieces [x0, x1, x2, x3, x4, x5, x6, x7, x8, x9]"
    and f: "fe_load_full s = [int x0, 2 ^ 6 * int x1, 2 ^ 5 * int x2, 2 ^ 3 * int x3, 2 ^ 2 * int x4, int x5,
      2 ^ 7 * int x6, 2 ^ 5 * int x7, 2 ^ 4 * int x8, 2 ^ 2 * int x9]"
    and m: "fe_load_masked s = [int x0, 2 ^ 6 * int x1, 2 ^ 5 * int x2, 2 ^ 3 * int x3, 2 ^ 2 * int x4, int x5,
      2 ^ 7 * int x6, 2 ^ 5 * int x7, 2 ^ 4 * int x8, 2 ^ 2 * int (x9 mod 2 ^ 23)]"
    and b: "list_all2 (\<lambda>n x. x < 256 ^ n) fe_pieces [x0, x1, x2, x3, x4, x5, x6, x7, x8, x9]"
    using assms by (rule fe_load_cut)
  have bb: "x0 < 4294967296" "x1 < 16777216" "x2 < 16777216" "x3 < 16777216" "x4 < 16777216" "x5 < 4294967296"
    "x6 < 16777216" "x7 < 16777216" "x8 < 16777216" "x9 < 16777216"
    using b by (simp_all add: fe_pieces_def)
  have n': "le_nat s = x0 + 2 ^ 32 * x1 + 2 ^ 56 * x2 + 2 ^ 80 * x3 + 2 ^ 104 * x4 + 2 ^ 128 * x5 + 2 ^ 160 * x6
      + 2 ^ 184 * x7 + 2 ^ 208 * x8 + 2 ^ 232 * x9"
    by (simp add: n fe_pieces_def algebra_simps)
  define y where "y = x9 mod 2 ^ 23"
  define z where "z = x9 div 2 ^ 23"
  have y: "y < 8388608" by (simp add: y_def)
  have n'': "le_nat s mod 2 ^ 255 = x0 + 2 ^ 32 * x1 + 2 ^ 56 * x2 + 2 ^ 80 * x3 + 2 ^ 104 * x4 + 2 ^ 128 * x5
      + 2 ^ 160 * x6 + 2 ^ 184 * x7 + 2 ^ 208 * x8 + 2 ^ 232 * y" (is "_ = ?r")
  proof -
    have x9: "x9 = y + 8388608 * z" unfolding y_def z_def by simp
    have "le_nat s = ?r + 2 ^ 255 * z"
      unfolding n' x9 by (simp add: distrib_left)
    moreover have "?r < 2 ^ 255" using bb y by simp
    ultimately show ?thesis by simp
  qed
  show "limb_val fe_weights (fe_load_full s) = int (le_nat s)"
    by (simp add: f n' fe_weights_def)
  show "limb_val fe_weights (fe_load_masked s) = int (le_nat s mod 2 ^ 255)"
    unfolding n'' m y_def [symmetric] by (simp add: fe_weights_def)
  show "within (fe_load_full s) load_entry"
    unfolding f using bb by (simp add: within_def load_entry_def inside_def)
  show "within (fe_load_masked s) load_entry"
    unfolding m y_def [symmetric] using bb y by (simp add: within_def load_entry_def inside_def)
  show "fe_noncanonical (fe_load_masked s) \<longleftrightarrow> p25519 \<le> int (le_nat s mod 2 ^ 255)"
    unfolding n'' m y_def [symmetric] fe_noncanonical_def p25519_def using bb y by simp linarith
qed

lemma fe_of_limbs_full:
  "length s = 32 \<Longrightarrow> fe_is 101 (fe_of_limbs (fe_load_full s)) (int (le_nat s))"
  using fe_carried [OF fe_load_values(3) load_carries_fit load_carries_value, of s]
  by (simp add: fe_of_limbs_def fe_load_values(1))

lemma fe_of_limbs_masked:
  "length s = 32 \<Longrightarrow> fe_is 101 (fe_of_limbs (fe_load_masked s)) (int (le_nat s mod 2 ^ 255))"
  using fe_carried [OF fe_load_values(4) load_carries_fit load_carries_value, of s]
  by (simp add: fe_of_limbs_def fe_load_values(2))

subsection \<open>Conditional move\<close>

lemma sint_of_int32: "fits32 x \<Longrightarrow> sint (word_of_int x :: u32) = x"
proof -
  assume "fits32 x"
  then have "int32 x = x" by (rule int32_id)
  then show ?thesis unfolding int32_def sint_sbintrunc' by simp
qed

lemma fits32_xor: "fits32 x \<Longrightarrow> fits32 y \<Longrightarrow> fits32 (x XOR y)"
proof -
  assume "fits32 x" and "fits32 y"
  then have b: "bit x (min n 31) = bit x n" "bit y (min n 31) = bit y n" for n
    using int32_id [of x] int32_id [of y] bit_signed_take_bit_iff [of 31 x n] bit_signed_take_bit_iff [of 31 y n]
    by (simp_all add: int32_def min.commute [of n])
  have "int32 (x XOR y) = x XOR y"
    unfolding int32_def by (rule bit_eqI) (simp add: bit_signed_take_bit_iff bit_xor_iff min.commute [of _ 31] b [unfolded min.commute [of _ 31]])
  moreover have "fits32 (int32 z)" for z
    using signed_take_bit_int_greater_eq_minus_exp [of 31 z] signed_take_bit_int_less_exp [of 31 z]
    by (simp add: int32_def fits32_def)
  ultimately show ?thesis by metis
qed

lemma fe_cmov_select:
  assumes "\<forall>x \<in> set f. fits32 x" and "\<forall>y \<in> set g. fits32 y" and "length f = length g"
  shows "fe_cmov f g 0 = Some f" and "fe_cmov f g 1 = Some g"
proof -
  have a: "fe_cmov_assert 0" "fe_cmov_assert 1" by (simp_all add: fe_cmov_assert_def)
  have "map2 (\<lambda>x y. x XOR sint ((word_of_int (x XOR y) :: u32) AND - 0)) f g = f"
    by (rule nth_equalityI) (use assms(3) in simp_all)
  then show "fe_cmov f g 0 = Some f" using a(1) by (simp add: fe_cmov_def)
  have "map2 (\<lambda>x y. x XOR sint ((word_of_int (x XOR y) :: u32) AND - 1)) f g = g"
  proof (rule nth_equalityI)
    fix i
    assume "i < length (map2 (\<lambda>x y. x XOR sint ((word_of_int (x XOR y) :: u32) AND - 1)) f g)"
    then have i: "i < length f" "i < length g" using assms(3) by simp_all
    then have "fits32 (f ! i XOR g ! i)" using assms(1,2) by (intro fits32_xor) simp_all
    then show "map2 (\<lambda>x y. x XOR sint ((word_of_int (x XOR y) :: u32) AND - 1)) f g ! i = g ! i"
      using i by (simp add: sint_of_int32 xor.assoc [symmetric])
  qed (use assms(3) in simp)
  then show "fe_cmov f g 1 = Some g" using a(2) by (simp add: fe_cmov_def)
qed

subsection \<open>Properties\<close>

text \<open>C31: \<open>fe_mul\<close> is the product modulo \<open>2 ^ 255 - 19\<close>: for operands within 1.65 times a power of two
  no \<open>int32_t\<close> or \<open>int64_t\<close> operation overflows, the limbs of the result are within 1.01 times a
  power of two, and the value is the product of the values.\<close>
theorem fe_mul_is_product:
  assumes "fe_bounded 330 f" and "fe_bounded 330 g"
  shows "fe_bounded 101 (fe_mul f g) \<and> eqp (fe_val (fe_mul f g)) (fe_val f * fe_val g)"
  using fe_mul_is [of 330 f "fe_val f" 330 g "fe_val g"] assms by (simp add: fe_is_def)

lemma fe_mul_is_product_witness:
  "fe_bounded 101 (fe_mul [110729625, -55364812, 3, 4, 5, 6, 7, 8, 9, 55364812] fe_1)"
proof -
  have "fe_bounded 330 [110729625, -55364812, 3, 4, 5, 6, 7, 8, 9, 55364812]" by code_simp
  moreover have "fe_bounded 330 fe_1" by code_simp
  ultimately show ?thesis using fe_mul_is_product by blast
qed

text \<open>The squaring routine \<open>fe_sq\<close>, with its table of doubled products, returns the same limbs as
  \<open>fe_mul\<close> of the element with itself.\<close>
theorem fe_sq_is_fe_mul:
  assumes "fe_bounded 330 f"
  shows "fe_sq f = fe_mul f f"
  by (rule fe_sq_mul [OF assms])

lemma fe_sq_is_fe_mul_witness:
  "fe_sq [110729625, -55364812, 3, 4, 5, 6, 7, 8, 9, 55364812] =
    fe_mul [110729625, -55364812, 3, 4, 5, 6, 7, 8, 9, 55364812] [110729625, -55364812, 3, 4, 5, 6, 7, 8, 9, 55364812]"
  by (rule fe_sq_is_fe_mul) code_simp

text \<open>\<open>fe_tobytes\<close> writes the canonical encoding: 32 bytes whose little-endian value is the value of
  the limbs reduced modulo \<open>2 ^ 255 - 19\<close>, for all limbs within 2.2 times a power of two.\<close>
theorem fe_tobytes_canonical:
  assumes "fe_bounded 220 f"
  shows "length (fe_tobytes f) = 32 \<and> int (le_nat (fe_tobytes f)) = fe_val f mod p25519"
  using fe_tobytes_value [OF assms] by blast

lemma fe_tobytes_canonical_witness:
  "int (le_nat (fe_tobytes [73819750, -36909875, 3, 4, 5, 6, 7, 8, 9, -36909875])) =
    fe_val [73819750, -36909875, 3, 4, 5, 6, 7, 8, 9, -36909875] mod p25519"
proof -
  have "fe_bounded 220 [73819750, -36909875, 3, 4, 5, 6, 7, 8, 9, -36909875]" by code_simp
  then show ?thesis using fe_tobytes_canonical by blast
qed

text \<open>Bytes are read back: loading 32 bytes that encode a number below \<open>2 ^ 255 - 19\<close> into limbs and
  storing the limbs gives the same bytes.\<close>
theorem fe_bytes_roundtrip:
  assumes "length s = 32" and "int (le_nat s) < p25519"
  shows "fe_tobytes (fe_of_limbs (fe_load_full s)) = s"
proof -
  note t = fe_tobytes_is [OF fe_of_limbs_full [OF assms(1)], simplified]
  have "int (le_nat (fe_tobytes (fe_of_limbs (fe_load_full s)))) = int (le_nat s)"
    using t(2) assms(2) by simp
  then show ?thesis
    using t(1) assms(1) nat_to_le_le_nat by (metis of_nat_eq_iff)
qed

lemma fe_bytes_roundtrip_witness:
  "fe_tobytes (fe_of_limbs (fe_load_full (9 # replicate 31 0))) = 9 # replicate 31 0"
proof (rule fe_bytes_roundtrip)
  have "le_nat (replicate 31 0) = 0" by (simp add: le_nat_0_iff)
  then show "int (le_nat (9 # replicate 31 0)) < p25519" by (simp add: p25519_def)
qed simp

text \<open>The comparison with constants in \<open>ge_frombytes_vartime\<close> recognises exactly the encodings that are
  not reduced: it holds of the limbs loaded from 32 bytes iff the low 255 bits are at least
  \<open>2 ^ 255 - 19\<close>.\<close>
theorem fe_noncanonical_exact:
  assumes "length s = 32"
  shows "fe_noncanonical (fe_load_masked s) \<longleftrightarrow> p25519 \<le> int (le_nat s mod 2 ^ 255)"
  by (rule fe_load_values(5) [OF assms])

lemma fe_noncanonical_exact_witness:
  "fe_noncanonical (fe_load_masked [237, 255, 255, 255, 255, 255, 255, 255, 255, 255, 255, 255, 255, 255, 255, 255, 255, 255, 255, 255, 255, 255, 255, 255, 255, 255, 255, 255, 255, 255, 255, 127])"
proof -
  have "p25519 \<le> int (le_nat [237, 255, 255, 255, 255, 255, 255, 255, 255, 255, 255, 255, 255, 255, 255, 255, 255, 255, 255, 255, 255, 255, 255, 255, 255, 255, 255, 255, 255, 255, 255, 127] mod 2 ^ 255)"
    by (simp add: p25519_def)
  then show ?thesis by (subst fe_noncanonical_exact) simp_all
qed

text \<open>\<open>fe_invert\<close> raises to the power \<open>p - 2\<close>, and \<open>fe_divpowm1\<close> computes
  \<open>u v^3 (u v^7)^((p - 5) / 8)\<close>, through all their squarings, within the bounds.\<close>
theorem fe_powers:
  assumes "fe_bounded 330 z" and "fe_bounded 330 u" and "fe_bounded 330 v"
  shows "fe_bounded 101 (fe_invert z) \<and> eqp (fe_val (fe_invert z)) (fe_val z ^ nat (p25519 - 2)) \<and>
    fe_bounded 101 (fe_divpowm1 u v) \<and>
    eqp (fe_val (fe_divpowm1 u v)) (fe_val u * fe_val v ^ 3 * (fe_val u * fe_val v ^ 7) ^ nat ((p25519 - 5) div 8))"
proof -
  have n: "nat (p25519 - 2) = 2 ^ 255 - 21" "nat ((p25519 - 5) div 8) = 2 ^ 252 - 3" by (simp_all add: p25519_def)
  have z: "fe_is 330 z (fe_val z)" and u: "fe_is 330 u (fe_val u)" and v: "fe_is 330 v (fe_val v)"
    using assms by (simp_all add: fe_is_def)
  show ?thesis
    unfolding n using fe_invert_is [OF z] fe_divpowm1_is [OF u v] unfolding fe_is_def
    by (elim conjE) (intro conjI; assumption)
qed

lemma fe_powers_witness:
  "eqp (fe_val (fe_invert [2, 0, 0, 0, 0, 0, 0, 0, 0, 7]))
    (fe_val [2, 0, 0, 0, 0, 0, 0, 0, 0, 7] ^ nat (p25519 - 2))"
proof -
  have "fe_bounded 330 [2, 0, 0, 0, 0, 0, 0, 0, 0, 7]" by code_simp
  then show ?thesis using fe_powers by blast
qed

end
