(* ===== verification/GroupOps.thy ===== *)
theory GroupOps
  imports FieldOps
begin

unbundle bit_operations_syntax

section \<open>Points of the curve (src/src/crypto/crypto-ops.h and crypto-ops.c, ge_* functions)\<close>

text \<open>
  Points of the curve \<open>- x^2 + y^2 = 1 + d x^2 y^2\<close> in the coordinate systems of the code: \<open>ge_p2\<close>
  (projective), \<open>ge_p3\<close> (extended, with \<open>T = X Y / Z\<close>), \<open>ge_p1p1\<close> (completed: \<open>x = X / Z\<close>,
  \<open>y = Y / T\<close>), \<open>ge_cached\<close> and \<open>ge_precomp\<close> (operands of an addition). Each routine is the sequence of
  field operations of its body, in its order, with the limbs of \<open>FieldOps\<close>. The lemmas give for
  each one the field elements it computes and the bounds of its limbs; \<open>ge_curve\<close> shows that sums and
  doubles stay on the curve.
\<close>

subsection \<open>Coordinates\<close>

record ge_p2 =
  p2_X :: fe
  p2_Y :: fe
  p2_Z :: fe

record ge_p3 =
  p3_X :: fe
  p3_Y :: fe
  p3_Z :: fe
  p3_T :: fe

record ge_p1p1 =
  pp_X :: fe
  pp_Y :: fe
  pp_Z :: fe
  pp_T :: fe

record ge_precomp =
  yplusx :: fe
  yminusx :: fe
  xy2d :: fe

record ge_cached =
  c_YplusX :: fe
  c_YminusX :: fe
  c_Z :: fe
  c_T2d :: fe

subsection \<open>Constants (src/src/crypto/crypto-ops-data.c)\<close>

definition fe_d :: fe where
  "fe_d = [-10913610, 13857413, -15372611, 6949391, 114729, -8787816, -6275908, -3247719, -18696448, -12055116]"

definition fe_sqrtm1 :: fe where
  "fe_sqrtm1 = [-32595792, -7943725, 9377950, 3500415, 12389472, -272473, -25146209, -2005654, 326686, 11406482]"

definition fe_d2 :: fe where
  "fe_d2 = [-21827239, -5839606, -30745221, 13898782, 229458, 15978800, -12551817, -6495438, 29715968, 9444199]"

definition fe_ma2 :: fe where
  "fe_ma2 = [-12721188, -3529, 0, 0, 0, 0, 0, 0, 0, 0]"

definition fe_ma :: fe where
  "fe_ma = [-486662, 0, 0, 0, 0, 0, 0, 0, 0, 0]"

definition fe_fffb1 :: fe where
  "fe_fffb1 = [-31702527, -2466483, -26106795, -12203692, -12169197, -321052, 14850977, -10296299, -16929438, -407568]"

definition fe_fffb2 :: fe where
  "fe_fffb2 = [8166131, -6741800, -17040804, 3154616, 21461005, 1466302, -30876704, -6368709, 10503587, -13363080]"

definition fe_fffb3 :: fe where
  "fe_fffb3 = [-13620103, 14639558, 4532995, 7679154, 16815101, -15883539, -22863840, -14813421, 13716513, -6477756]"

definition fe_fffb4 :: fe where
  "fe_fffb4 = [-21786234, -12173074, 21573800, 4524538, -4645904, 16204591, 8012863, -8444712, 3212926, 6885324]"

subsection \<open>Additions and doublings\<close>

definition ge_add :: "ge_p3 \<Rightarrow> ge_cached \<Rightarrow> ge_p1p1" where
  "ge_add p q =
     (let rX = fe_add (p3_Y p) (p3_X p);
          rY = fe_sub (p3_Y p) (p3_X p);
          rZ = fe_mul rX (c_YplusX q);
          rY = fe_mul rY (c_YminusX q);
          rT = fe_mul (c_T2d q) (p3_T p);
          rX = fe_mul (p3_Z p) (c_Z q);
          t0 = fe_add rX rX;
          rX = fe_sub rZ rY;
          rY = fe_add rZ rY;
          rZ = fe_add t0 rT;
          rT = fe_sub t0 rT
      in \<lparr>pp_X = rX, pp_Y = rY, pp_Z = rZ, pp_T = rT\<rparr>)"

definition ge_sub :: "ge_p3 \<Rightarrow> ge_cached \<Rightarrow> ge_p1p1" where
  "ge_sub p q =
     (let rX = fe_add (p3_Y p) (p3_X p);
          rY = fe_sub (p3_Y p) (p3_X p);
          rZ = fe_mul rX (c_YminusX q);
          rY = fe_mul rY (c_YplusX q);
          rT = fe_mul (c_T2d q) (p3_T p);
          rX = fe_mul (p3_Z p) (c_Z q);
          t0 = fe_add rX rX;
          rX = fe_sub rZ rY;
          rY = fe_add rZ rY;
          rZ = fe_sub t0 rT;
          rT = fe_add t0 rT
      in \<lparr>pp_X = rX, pp_Y = rY, pp_Z = rZ, pp_T = rT\<rparr>)"

definition ge_madd :: "ge_p3 \<Rightarrow> ge_precomp \<Rightarrow> ge_p1p1" where
  "ge_madd p q =
     (let rX = fe_add (p3_Y p) (p3_X p);
          rY = fe_sub (p3_Y p) (p3_X p);
          rZ = fe_mul rX (yplusx q);
          rY = fe_mul rY (yminusx q);
          rT = fe_mul (xy2d q) (p3_T p);
          t0 = fe_add (p3_Z p) (p3_Z p);
          rX = fe_sub rZ rY;
          rY = fe_add rZ rY;
          rZ = fe_add t0 rT;
          rT = fe_sub t0 rT
      in \<lparr>pp_X = rX, pp_Y = rY, pp_Z = rZ, pp_T = rT\<rparr>)"

definition ge_msub :: "ge_p3 \<Rightarrow> ge_precomp \<Rightarrow> ge_p1p1" where
  "ge_msub p q =
     (let rX = fe_add (p3_Y p) (p3_X p);
          rY = fe_sub (p3_Y p) (p3_X p);
          rZ = fe_mul rX (yminusx q);
          rY = fe_mul rY (yplusx q);
          rT = fe_mul (xy2d q) (p3_T p);
          t0 = fe_add (p3_Z p) (p3_Z p);
          rX = fe_sub rZ rY;
          rY = fe_add rZ rY;
          rZ = fe_sub t0 rT;
          rT = fe_add t0 rT
      in \<lparr>pp_X = rX, pp_Y = rY, pp_Z = rZ, pp_T = rT\<rparr>)"

definition ge_p2_dbl :: "ge_p2 \<Rightarrow> ge_p1p1" where
  "ge_p2_dbl p =
     (let rX = fe_sq (p2_X p);
          rZ = fe_sq (p2_Y p);
          rT = fe_sq2 (p2_Z p);
          rY = fe_add (p2_X p) (p2_Y p);
          t0 = fe_sq rY;
          rY = fe_add rZ rX;
          rZ = fe_sub rZ rX;
          rX = fe_sub t0 rY;
          rT = fe_sub rT rZ
      in \<lparr>pp_X = rX, pp_Y = rY, pp_Z = rZ, pp_T = rT\<rparr>)"

definition ge_p1p1_to_p2 :: "ge_p1p1 \<Rightarrow> ge_p2" where
  "ge_p1p1_to_p2 p =
     \<lparr>p2_X = fe_mul (pp_X p) (pp_T p), p2_Y = fe_mul (pp_Y p) (pp_Z p), p2_Z = fe_mul (pp_Z p) (pp_T p)\<rparr>"

definition ge_p1p1_to_p3 :: "ge_p1p1 \<Rightarrow> ge_p3" where
  "ge_p1p1_to_p3 p =
     \<lparr>p3_X = fe_mul (pp_X p) (pp_T p), p3_Y = fe_mul (pp_Y p) (pp_Z p),
      p3_Z = fe_mul (pp_Z p) (pp_T p), p3_T = fe_mul (pp_X p) (pp_Y p)\<rparr>"

definition ge_p2_0 :: ge_p2 where
  "ge_p2_0 = \<lparr>p2_X = fe_0, p2_Y = fe_1, p2_Z = fe_1\<rparr>"

definition ge_p3_0 :: ge_p3 where
  "ge_p3_0 = \<lparr>p3_X = fe_0, p3_Y = fe_1, p3_Z = fe_1, p3_T = fe_0\<rparr>"

definition ge_precomp_0 :: ge_precomp where
  "ge_precomp_0 = \<lparr>yplusx = fe_1, yminusx = fe_1, xy2d = fe_0\<rparr>"

definition ge_cached_0 :: ge_cached where
  "ge_cached_0 = \<lparr>c_YplusX = fe_1, c_YminusX = fe_1, c_Z = fe_1, c_T2d = fe_0\<rparr>"

definition ge_p3_to_p2 :: "ge_p3 \<Rightarrow> ge_p2" where
  "ge_p3_to_p2 p = \<lparr>p2_X = fe_copy (p3_X p), p2_Y = fe_copy (p3_Y p), p2_Z = fe_copy (p3_Z p)\<rparr>"

definition ge_p3_dbl :: "ge_p3 \<Rightarrow> ge_p1p1" where
  "ge_p3_dbl p = ge_p2_dbl (ge_p3_to_p2 p)"

definition ge_p3_to_cached :: "ge_p3 \<Rightarrow> ge_cached" where
  "ge_p3_to_cached p =
     \<lparr>c_YplusX = fe_add (p3_Y p) (p3_X p), c_YminusX = fe_sub (p3_Y p) (p3_X p),
      c_Z = fe_copy (p3_Z p), c_T2d = fe_mul (p3_T p) fe_d2\<rparr>"

definition ge_mul8 :: "ge_p2 \<Rightarrow> ge_p1p1" where
  "ge_mul8 t =
     (let r = ge_p2_dbl t;
          u = ge_p1p1_to_p2 r;
          r = ge_p2_dbl u;
          u = ge_p1p1_to_p2 r
      in ge_p2_dbl u)"

subsection \<open>Encodings\<close>

text \<open>\<open>s[31] ^= fe_isnegative(x) << 7\<close>\<close>

definition ge_tobytes :: "ge_p2 \<Rightarrow> bytes" where
  "ge_tobytes h =
     (let recip = fe_invert (p2_Z h);
          x = fe_mul (p2_X h) recip;
          y = fe_mul (p2_Y h) recip;
          s = fe_tobytes y
      in s[31 := s ! 31 XOR word_of_int (push_bit 7 (fe_isnegative x))])"

definition ge_p3_tobytes :: "ge_p3 \<Rightarrow> bytes" where
  "ge_p3_tobytes h =
     (let recip = fe_invert (p3_Z h);
          x = fe_mul (p3_X h) recip;
          y = fe_mul (p3_Y h) recip;
          s = fe_tobytes y
      in s[31 := s ! 31 XOR word_of_int (push_bit 7 (fe_isnegative x))])"

text \<open>The return value -1 is \<open>None\<close>.\<close>

definition ge_frombytes_vartime :: "bytes \<Rightarrow> ge_p3 option" where
  "ge_frombytes_vartime s =
     (let h = fe_load_masked s
      in if fe_noncanonical h then None
      else
        let hY = fe_of_limbs h;
            hZ = fe_1;
            u = fe_sq hY;
            v = fe_mul u fe_d;
            u = fe_sub u hZ;
            v = fe_add v hZ;
            hX = fe_divpowm1 u v;
            vxx = fe_sq hX;
            vxx = fe_mul vxx v;
            check = fe_sub vxx u;
            root = (if fe_isnonzero check \<noteq> 0
              then let check = fe_add vxx u
                in if fe_isnonzero check \<noteq> 0 then None else Some (fe_mul hX fe_sqrtm1)
              else Some hX)
        in case root of
          None \<Rightarrow> None
        | Some hX \<Rightarrow>
            (case (if fe_isnegative hX \<noteq> uint (drop_bit 7 (s ! 31))
                then (if fe_isnonzero hX = 0 then None else Some (fe_neg hX))
                else Some hX) of
              None \<Rightarrow> None
            | Some hX \<Rightarrow> Some \<lparr>p3_X = hX, p3_Y = hY, p3_Z = hZ, p3_T = fe_mul hX hY\<rparr>))"

text \<open>
  \<open>ge_fromfe_frombytes_vartime\<close>: the computation up to \<open>setsign\<close> with the sign chosen, then the rest.
  \<open>None\<close> is an assertion that fails (in a build with assertions).
\<close>

definition ge_fromfe_root :: "fe \<Rightarrow> (fe \<times> fe \<times> fe \<times> int) option" where
  "ge_fromfe_root u =
     (let v = fe_sq2 u;
          w = fe_1;
          w = fe_add v w;
          x = fe_sq w;
          y = fe_mul fe_ma2 v;
          x = fe_add x y;
          rX = fe_divpowm1 w x;
          y = fe_sq rX;
          x = fe_mul y x;
          y = fe_sub w x;
          z = fe_copy fe_ma;
          positive = (\<lambda>rX. Some (fe_mul rX u, fe_mul z v, w, 0));
          negative =
            (let x = fe_mul x fe_sqrtm1;
                 y = fe_sub w x
             in if fe_isnonzero y \<noteq> 0
                then let y = fe_add w x
                  in if fe_isnonzero y \<noteq> 0 then None else Some (fe_mul rX fe_fffb3, z, w, 1)
                else Some (fe_mul rX fe_fffb4, z, w, 1))
      in if fe_isnonzero y \<noteq> 0
         then let y = fe_add w x
           in if fe_isnonzero y \<noteq> 0 then negative else positive (fe_mul rX fe_fffb1)
         else positive (fe_mul rX fe_fffb2))"

definition ge_fromfe_frombytes_vartime :: "bytes \<Rightarrow> ge_p2 option" where
  "ge_fromfe_frombytes_vartime s =
     (case ge_fromfe_root (fe_of_limbs (fe_load_full s)) of
       None \<Rightarrow> None
     | Some (rX, z, w, sign) \<Rightarrow>
         (case (if fe_isnegative rX \<noteq> sign
             then (if fe_isnonzero rX \<noteq> 0 then Some (fe_neg rX) else None)
             else Some rX) of
           None \<Rightarrow> None
         | Some rX \<Rightarrow>
             let rZ = fe_add z w;
                 rY = fe_sub z w;
                 rX = fe_mul rX rZ
             in Some \<lparr>p2_X = rX, p2_Y = rY, p2_Z = rZ\<rparr>))"

subsection \<open>What the coordinates represent\<close>

definition curve_d :: int where
  "curve_d = fe_val fe_d"

definition p2_is :: "ge_p2 \<Rightarrow> int \<Rightarrow> int \<Rightarrow> int \<Rightarrow> bool" where
  "p2_is p x y z \<longleftrightarrow> fe_is 101 (p2_X p) x \<and> fe_is 203 (p2_Y p) y \<and> fe_is 203 (p2_Z p) z"

definition p3_is :: "ge_p3 \<Rightarrow> int \<Rightarrow> int \<Rightarrow> int \<Rightarrow> int \<Rightarrow> bool" where
  "p3_is p x y z t \<longleftrightarrow> fe_is 101 (p3_X p) x \<and> fe_is 101 (p3_Y p) y \<and> fe_is 101 (p3_Z p) z \<and> fe_is 101 (p3_T p) t"

definition pp_is :: "ge_p1p1 \<Rightarrow> int \<Rightarrow> int \<Rightarrow> int \<Rightarrow> int \<Rightarrow> bool" where
  "pp_is p x y z t \<longleftrightarrow> fe_is 303 (pp_X p) x \<and> fe_is 303 (pp_Y p) y \<and> fe_is 303 (pp_Z p) z \<and> fe_is 303 (pp_T p) t"

definition cached_is :: "ge_cached \<Rightarrow> int \<Rightarrow> int \<Rightarrow> int \<Rightarrow> int \<Rightarrow> bool" where
  "cached_is q x y z t \<longleftrightarrow> fe_is 202 (c_YplusX q) (y + x) \<and> fe_is 202 (c_YminusX q) (y - x) \<and>
     fe_is 101 (c_Z q) z \<and> fe_is 101 (c_T2d q) (2 * curve_d * t)"

definition precomp_is :: "ge_precomp \<Rightarrow> int \<Rightarrow> int \<Rightarrow> bool" where
  "precomp_is q x y \<longleftrightarrow> fe_is 101 (yplusx q) (y + x) \<and> fe_is 101 (yminusx q) (y - x) \<and>
     fe_is 101 (xy2d q) (2 * curve_d * (x * y))"

lemma fe_constants_bounded:
  "fe_bounded 101 fe_d" "fe_bounded 101 fe_d2" "fe_bounded 101 fe_sqrtm1" "fe_bounded 101 fe_ma" "fe_bounded 101 fe_ma2"
  "fe_bounded 101 fe_fffb1" "fe_bounded 101 fe_fffb2" "fe_bounded 101 fe_fffb3" "fe_bounded 101 fe_fffb4"
  by code_simp+

lemma fe_constants_values:
  "eqp (fe_val fe_d * 121666) (- 121665)" "eqp (fe_val fe_d2) (2 * fe_val fe_d)" "eqp (fe_val fe_sqrtm1 * fe_val fe_sqrtm1) (- 1)"
  "eqp (fe_val fe_ma) (- 486662)" "eqp (fe_val fe_ma2) (- (486662 ^ 2))"
  by code_simp+

lemma fe_d_is: "fe_is 101 fe_d curve_d"
  using fe_constants_bounded by (simp add: fe_is_def curve_d_def)

lemma fe_d2_is: "fe_is 101 fe_d2 (2 * curve_d)"
  using fe_constants_bounded fe_constants_values by (simp add: fe_is_def curve_d_def)

lemma fe_is_bounded: "fe_bounded c f \<Longrightarrow> fe_is c f (fe_val f)"
  by (simp add: fe_is_def)

text \<open>The end of every addition: \<open>X = Z - Y\<close>, \<open>Y = Z + Y\<close>, \<open>Z = t0 + T\<close>, \<open>T = t0 - T\<close>.\<close>

lemma sum_coordinates:
  assumes "fe_is 101 rZ a" and "fe_is 101 rY b" and "fe_is 202 t0 c" and "fe_is 101 rT e"
  shows "pp_is \<lparr>pp_X = fe_sub rZ rY, pp_Y = fe_add rZ rY, pp_Z = fe_add t0 rT, pp_T = fe_sub t0 rT\<rparr>
      (a - b) (a + b) (c + e) (c - e)"
    and "pp_is \<lparr>pp_X = fe_sub rZ rY, pp_Y = fe_add rZ rY, pp_Z = fe_sub t0 rT, pp_T = fe_add t0 rT\<rparr>
      (a - b) (a + b) (c - e) (c + e)"
proof -
  have "fe_is 303 (fe_sub rZ rY) (a - b)" "fe_is 303 (fe_add rZ rY) (a + b)"
    using fe_sub_is [OF assms(1,2)] fe_add_is [OF assms(1,2)] by (auto intro: fe_is_mono)
  moreover have "fe_is 303 (fe_add t0 rT) (c + e)" "fe_is 303 (fe_sub t0 rT) (c - e)"
    using fe_add_is [OF assms(3,4)] fe_sub_is [OF assms(3,4)] by simp_all
  ultimately show "pp_is \<lparr>pp_X = fe_sub rZ rY, pp_Y = fe_add rZ rY, pp_Z = fe_add t0 rT, pp_T = fe_sub t0 rT\<rparr>
      (a - b) (a + b) (c + e) (c - e)"
    and "pp_is \<lparr>pp_X = fe_sub rZ rY, pp_Y = fe_add rZ rY, pp_Z = fe_sub t0 rT, pp_T = fe_add t0 rT\<rparr>
      (a - b) (a + b) (c - e) (c + e)"
    by (simp_all add: pp_is_def)
qed

lemma p3_sums:
  assumes "p3_is p x y z t"
  shows "fe_is 202 (fe_add (p3_Y p) (p3_X p)) (y + x)" and "fe_is 202 (fe_sub (p3_Y p) (p3_X p)) (y - x)"
    and "fe_is 202 (fe_add (p3_Z p) (p3_Z p)) (z + z)" and "fe_is 101 (p3_T p) t" and "fe_is 101 (p3_Z p) z"
  using assms fe_add_is [of 101 "p3_Y p" y 101 "p3_X p" x] fe_sub_is [of 101 "p3_Y p" y 101 "p3_X p" x]
    fe_add_is [of 101 "p3_Z p" z 101 "p3_Z p" z]
  by (simp_all add: p3_is_def)

text \<open>The sum of \<open>(x1 : y1 : z1)\<close> and \<open>(x2 : y2 : z2)\<close>, in completed coordinates, up to the factor 2.\<close>

lemma ge_add_is:
  assumes p: "p3_is p x1 y1 z1 t1" and q: "cached_is q x2 y2 z2 t2"
  shows "pp_is (ge_add p q) (2 * (x1 * y2 + y1 * x2)) (2 * (y1 * y2 + x1 * x2))
      (2 * (z1 * z2 + curve_d * t1 * t2)) (2 * (z1 * z2 - curve_d * t1 * t2))"
    and "pp_is (ge_sub p q) (2 * (x1 * y2 - y1 * x2)) (2 * (y1 * y2 - x1 * x2))
      (2 * (z1 * z2 - curve_d * t1 * t2)) (2 * (z1 * z2 + curve_d * t1 * t2))"
proof -
  note s = p3_sums [OF p]
  have c: "fe_is 202 (c_YplusX q) (y2 + x2)" "fe_is 202 (c_YminusX q) (y2 - x2)"
    "fe_is 101 (c_Z q) z2" "fe_is 101 (c_T2d q) (2 * curve_d * t2)"
    using q by (simp_all add: cached_is_def)
  have z: "fe_is 202 (fe_add (fe_mul (p3_Z p) (c_Z q)) (fe_mul (p3_Z p) (c_Z q))) (z1 * z2 + z1 * z2)"
    using fe_add_is [OF fe_mul_is [OF s(5) c(3)] fe_mul_is [OF s(5) c(3)]] by simp
  have t: "fe_is 101 (fe_mul (c_T2d q) (p3_T p)) (2 * curve_d * t2 * t1)"
    using fe_mul_is [OF c(4) s(4)] by simp
  have "fe_is 101 (fe_mul (fe_add (p3_Y p) (p3_X p)) (c_YplusX q)) ((y1 + x1) * (y2 + x2))"
    "fe_is 101 (fe_mul (fe_sub (p3_Y p) (p3_X p)) (c_YminusX q)) ((y1 - x1) * (y2 - x2))"
    using fe_mul_is [OF s(1) c(1)] fe_mul_is [OF s(2) c(2)] by simp_all
  from sum_coordinates(1) [OF this z t]
  show "pp_is (ge_add p q) (2 * (x1 * y2 + y1 * x2)) (2 * (y1 * y2 + x1 * x2))
      (2 * (z1 * z2 + curve_d * t1 * t2)) (2 * (z1 * z2 - curve_d * t1 * t2))"
    by (simp add: ge_add_def Let_def algebra_simps)
  have "fe_is 101 (fe_mul (fe_add (p3_Y p) (p3_X p)) (c_YminusX q)) ((y1 + x1) * (y2 - x2))"
    "fe_is 101 (fe_mul (fe_sub (p3_Y p) (p3_X p)) (c_YplusX q)) ((y1 - x1) * (y2 + x2))"
    using fe_mul_is [OF s(1) c(2)] fe_mul_is [OF s(2) c(1)] by simp_all
  from sum_coordinates(2) [OF this z t]
  show "pp_is (ge_sub p q) (2 * (x1 * y2 - y1 * x2)) (2 * (y1 * y2 - x1 * x2))
      (2 * (z1 * z2 - curve_d * t1 * t2)) (2 * (z1 * z2 + curve_d * t1 * t2))"
    by (simp add: ge_sub_def Let_def algebra_simps)
qed

lemma ge_madd_is:
  assumes p: "p3_is p x1 y1 z1 t1" and q: "precomp_is q x2 y2"
  shows "pp_is (ge_madd p q) (2 * (x1 * y2 + y1 * x2)) (2 * (y1 * y2 + x1 * x2))
      (2 * (z1 + curve_d * t1 * (x2 * y2))) (2 * (z1 - curve_d * t1 * (x2 * y2)))"
    and "pp_is (ge_msub p q) (2 * (x1 * y2 - y1 * x2)) (2 * (y1 * y2 - x1 * x2))
      (2 * (z1 - curve_d * t1 * (x2 * y2))) (2 * (z1 + curve_d * t1 * (x2 * y2)))"
proof -
  note s = p3_sums [OF p]
  have c: "fe_is 101 (yplusx q) (y2 + x2)" "fe_is 101 (yminusx q) (y2 - x2)"
    "fe_is 101 (xy2d q) (2 * curve_d * (x2 * y2))"
    using q by (simp_all add: precomp_is_def)
  have t: "fe_is 101 (fe_mul (xy2d q) (p3_T p)) (2 * curve_d * (x2 * y2) * t1)"
    using fe_mul_is [OF c(3) s(4)] by simp
  have "fe_is 101 (fe_mul (fe_add (p3_Y p) (p3_X p)) (yplusx q)) ((y1 + x1) * (y2 + x2))"
    "fe_is 101 (fe_mul (fe_sub (p3_Y p) (p3_X p)) (yminusx q)) ((y1 - x1) * (y2 - x2))"
    using fe_mul_is [OF s(1) c(1)] fe_mul_is [OF s(2) c(2)] by simp_all
  from sum_coordinates(1) [OF this s(3) t]
  show "pp_is (ge_madd p q) (2 * (x1 * y2 + y1 * x2)) (2 * (y1 * y2 + x1 * x2))
      (2 * (z1 + curve_d * t1 * (x2 * y2))) (2 * (z1 - curve_d * t1 * (x2 * y2)))"
    by (simp add: ge_madd_def Let_def algebra_simps)
  have "fe_is 101 (fe_mul (fe_add (p3_Y p) (p3_X p)) (yminusx q)) ((y1 + x1) * (y2 - x2))"
    "fe_is 101 (fe_mul (fe_sub (p3_Y p) (p3_X p)) (yplusx q)) ((y1 - x1) * (y2 + x2))"
    using fe_mul_is [OF s(1) c(2)] fe_mul_is [OF s(2) c(1)] by simp_all
  from sum_coordinates(2) [OF this s(3) t]
  show "pp_is (ge_msub p q) (2 * (x1 * y2 - y1 * x2)) (2 * (y1 * y2 - x1 * x2))
      (2 * (z1 - curve_d * t1 * (x2 * y2))) (2 * (z1 + curve_d * t1 * (x2 * y2)))"
    by (simp add: ge_msub_def Let_def algebra_simps)
qed

lemma ge_p2_dbl_is:
  assumes "p2_is p x y z"
  shows "pp_is (ge_p2_dbl p) (2 * (x * y)) (y * y + x * x) (y * y - x * x) (2 * (z * z) - (y * y - x * x))"
proof -
  have c: "fe_is 101 (p2_X p) x" "fe_is 203 (p2_Y p) y" "fe_is 203 (p2_Z p) z"
    using assms by (simp_all add: p2_is_def)
  have xx: "fe_is 101 (fe_sq (p2_X p)) (x * x)" and yy: "fe_is 101 (fe_sq (p2_Y p)) (y * y)"
    and zz: "fe_is 101 (fe_sq2 (p2_Z p)) (2 * (z * z))"
    using fe_sq_is [OF c(1)] fe_sq_is [OF c(2)] fe_sq2_is [OF c(3)] by simp_all
  have "fe_is 304 (fe_add (p2_X p) (p2_Y p)) (x + y)" using fe_add_is [OF c(1,2)] by simp
  then have xy: "fe_is 101 (fe_sq (fe_add (p2_X p) (p2_Y p))) ((x + y) * (x + y))"
    by (rule fe_sq_is) simp
  have Y: "fe_is 202 (fe_add (fe_sq (p2_Y p)) (fe_sq (p2_X p))) (y * y + x * x)"
    and Z: "fe_is 202 (fe_sub (fe_sq (p2_Y p)) (fe_sq (p2_X p))) (y * y - x * x)"
    using fe_add_is [OF yy xx] fe_sub_is [OF yy xx] by simp_all
  have e: "(x + y) * (x + y) - (y * y + x * x) = 2 * (x * y)" by (simp add: algebra_simps)
  show ?thesis
    using fe_sub_is [OF xy Y] fe_sub_is [OF zz Z] fe_is_mono [OF Y, of 303] fe_is_mono [OF Z, of 303]
    by (simp add: pp_is_def ge_p2_dbl_def Let_def e)
qed

lemma ge_p1p1_is:
  assumes "pp_is p x y z t"
  shows "p3_is (ge_p1p1_to_p3 p) (x * t) (y * z) (z * t) (x * y)"
    and "p2_is (ge_p1p1_to_p2 p) (x * t) (y * z) (z * t)"
proof -
  have c: "fe_is 303 (pp_X p) x" "fe_is 303 (pp_Y p) y" "fe_is 303 (pp_Z p) z" "fe_is 303 (pp_T p) t"
    using assms by (simp_all add: pp_is_def)
  note m = fe_mul_is [OF c(1) c(4)] fe_mul_is [OF c(2) c(3)] fe_mul_is [OF c(3) c(4)] fe_mul_is [OF c(1) c(2)]
  show "p3_is (ge_p1p1_to_p3 p) (x * t) (y * z) (z * t) (x * y)"
    using m by (simp add: p3_is_def ge_p1p1_to_p3_def)
  show "p2_is (ge_p1p1_to_p2 p) (x * t) (y * z) (z * t)"
    using m fe_is_mono [of 101 "fe_mul (pp_Y p) (pp_Z p)" "y * z" 203]
      fe_is_mono [of 101 "fe_mul (pp_Z p) (pp_T p)" "z * t" 203]
    by (simp add: p2_is_def ge_p1p1_to_p2_def)
qed

lemma ge_p3_to_p2_is: "p3_is p x y z t \<Longrightarrow> p2_is (ge_p3_to_p2 p) x y z"
  using fe_is_mono [of 101 "p3_Y p" y 203] fe_is_mono [of 101 "p3_Z p" z 203]
  by (simp add: p3_is_def p2_is_def ge_p3_to_p2_def fe_copy_is)

lemma ge_p3_to_cached_is:
  assumes "p3_is p x y z t"
  shows "cached_is (ge_p3_to_cached p) x y z t"
proof -
  note s = p3_sums [OF assms]
  have "fe_is 101 (fe_mul (p3_T p) fe_d2) (2 * curve_d * t)"
    using fe_mul_is [OF s(4) fe_d2_is] by (simp add: mult.commute)
  then show ?thesis
    using s by (simp add: cached_is_def ge_p3_to_cached_def fe_copy_is)
qed

lemma ge_neutral_is:
  "p2_is ge_p2_0 0 1 1" "p3_is ge_p3_0 0 1 1 0" "precomp_is ge_precomp_0 0 1" "cached_is ge_cached_0 0 1 1 0"
  using fe_is_mono [OF fe_0_is, of 101] fe_is_mono [OF fe_1_is, of 101] fe_is_mono [OF fe_1_is, of 202]
    fe_is_mono [OF fe_1_is, of 203]
  by (simp_all add: p2_is_def p3_is_def precomp_is_def cached_is_def ge_p2_0_def ge_p3_0_def
      ge_precomp_0_def ge_cached_0_def)

subsection \<open>The curve\<close>

text \<open>The two equations of extended coordinates, modulo \<open>2 ^ 255 - 19\<close>.\<close>

definition on_curve :: "int \<Rightarrow> int \<Rightarrow> int \<Rightarrow> int \<Rightarrow> bool" where
  "on_curve x y z t \<longleftrightarrow> eqp (x * y) (z * t) \<and> eqp (y * y - x * x) (z * z + curve_d * (t * t))"

text \<open>The same for projective coordinates.\<close>

definition on_curve2 :: "int \<Rightarrow> int \<Rightarrow> int \<Rightarrow> bool" where
  "on_curve2 x y z \<longleftrightarrow> eqp ((y * y - x * x) * (z * z)) (z * z * (z * z) + curve_d * (x * x * (y * y)))"

lemma on_curve_proj:
  assumes "on_curve x y z t"
  shows "on_curve2 x y z"
proof -
  have xy: "eqp (x * y) (z * t)" and c: "eqp (y * y - x * x) (z * z + curve_d * (t * t))"
    using assms by (simp_all add: on_curve_def)
  have "eqp ((y * y - x * x) * (z * z)) ((z * z + curve_d * (t * t)) * (z * z))"
    using c by (rule eqp_mult) simp
  also have "(z * z + curve_d * (t * t)) * (z * z) = z * z * (z * z) + curve_d * ((z * t) * (z * t))"
    by algebra
  also have "eqp \<dots> (z * z * (z * z) + curve_d * ((x * y) * (x * y)))"
    by (rule eqp_add [OF eqp_refl eqp_mult [OF eqp_refl eqp_sym [OF eqp_mult [OF xy xy]]]])
  also have "(x * y) * (x * y) = x * x * (y * y)" by algebra
  finally show ?thesis by (simp add: on_curve2_def)
qed

text \<open>The sum: Euler's law in the completed coordinates.\<close>

lemma sum_on_curve:
  assumes 1: "on_curve x1 y1 z1 t1" and 2: "on_curve x2 y2 z2 t2"
  defines "E \<equiv> x1 * y2 + y1 * x2" and "H \<equiv> y1 * y2 + x1 * x2"
    and "G \<equiv> z1 * z2 + curve_d * t1 * t2" and "F \<equiv> z1 * z2 - curve_d * t1 * t2"
  shows "on_curve (E * F) (H * G) (G * F) (E * H)"
proof -
  let ?d = curve_d
  define n1 where "n1 = z1 * z1 + ?d * (t1 * t1)"
  define n2 where "n2 = z2 * z2 + ?d * (t2 * t2)"
  define m1 where "m1 = z1 * t1"
  define m2 where "m2 = z2 * t2"
  define s1 where "s1 = y1 * y1 + x1 * x1"
  define s2 where "s2 = y2 * y2 + x2 * x2"
  have c: "eqp (x1 * y1) m1" "eqp (x2 * y2) m2" "eqp (y1 * y1 - x1 * x1) n1" "eqp (y2 * y2 - x2 * x2) n2"
    using 1 2 by (simp_all add: on_curve_def m1_def m2_def n1_def n2_def)
  have e1: "eqp (H * H - E * E) (n1 * n2)"
  proof -
    have "H * H - E * E = (y1 * y1 - x1 * x1) * (y2 * y2 - x2 * x2)" unfolding E_def H_def by algebra
    then show ?thesis using eqp_mult [OF c(3,4)] by simp
  qed
  have e2: "eqp (H * H + E * E) (s1 * s2 + 4 * (m1 * m2))"
  proof -
    have "H * H + E * E = s1 * s2 + 4 * ((x1 * y1) * (x2 * y2))" unfolding E_def H_def s1_def s2_def by algebra
    then show ?thesis using c by (auto intro!: eqp_add eqp_mult)
  qed
  have e3: "eqp (E * H) (m1 * s2 + m2 * s1)"
  proof -
    have "E * H = (x1 * y1) * s2 + (x2 * y2) * s1" unfolding E_def H_def s1_def s2_def by algebra
    then show ?thesis using c by (auto intro!: eqp_add eqp_mult)
  qed
  have e4: "eqp (s1 * s1) (n1 * n1 + 4 * (m1 * m1))" "eqp (s2 * s2) (n2 * n2 + 4 * (m2 * m2))"
  proof -
    have "s1 * s1 = (y1 * y1 - x1 * x1) * (y1 * y1 - x1 * x1) + 4 * ((x1 * y1) * (x1 * y1))"
      "s2 * s2 = (y2 * y2 - x2 * x2) * (y2 * y2 - x2 * x2) + 4 * ((x2 * y2) * (x2 * y2))"
      unfolding s1_def s2_def by algebra+
    then show "eqp (s1 * s1) (n1 * n1 + 4 * (m1 * m1))" "eqp (s2 * s2) (n2 * n2 + 4 * (m2 * m2))"
      using c by (auto intro!: eqp_add eqp_mult)
  qed
  define a where "a = z1 * z2"
  define b where "b = ?d * t1 * t2"
  have "(H * G) * (H * G) - (E * F) * (E * F) = (H * H - E * E) * (a * a + b * b) + 2 * (a * b) * (H * H + E * E)"
    unfolding G_def F_def a_def b_def by algebra
  also have "eqp \<dots> (n1 * n2 * (a * a + b * b) + 2 * (a * b) * (s1 * s2 + 4 * (m1 * m2)))"
    by (rule eqp_add [OF eqp_mult [OF e1 eqp_refl] eqp_mult [OF eqp_refl e2]])
  also have "n1 * n2 * (a * a + b * b) + 2 * (a * b) * (s1 * s2 + 4 * (m1 * m2)) =
      (G * F) * (G * F) + ?d * (m1 * m1 * (n2 * n2 + 4 * (m2 * m2)) + m2 * m2 * (n1 * n1 + 4 * (m1 * m1)) + 2 * (m1 * m2) * (s1 * s2))"
    unfolding G_def F_def a_def b_def m1_def m2_def n1_def n2_def by algebra
  also have "eqp \<dots> ((G * F) * (G * F) + ?d * (m1 * m1 * (s2 * s2) + m2 * m2 * (s1 * s1) + 2 * (m1 * m2) * (s1 * s2)))"
    using e4 by (intro eqp_add eqp_mult eqp_refl) (simp_all add: eqp_sym)
  also have "m1 * m1 * (s2 * s2) + m2 * m2 * (s1 * s1) + 2 * (m1 * m2) * (s1 * s2) = (m1 * s2 + m2 * s1) * (m1 * s2 + m2 * s1)"
    by algebra
  also have "eqp ((G * F) * (G * F) + ?d * ((m1 * s2 + m2 * s1) * (m1 * s2 + m2 * s1)))
      ((G * F) * (G * F) + ?d * ((E * H) * (E * H)))"
    using e3 by (intro eqp_add eqp_mult eqp_refl) (simp_all add: eqp_sym)
  finally have "eqp ((H * G) * (H * G) - (E * F) * (E * F)) ((G * F) * (G * F) + ?d * ((E * H) * (E * H)))" .
  moreover have "eqp ((E * F) * (H * G)) ((G * F) * (E * H))" by (simp add: mult_ac)
  ultimately show ?thesis by (simp add: on_curve_def)
qed

lemma double_on_curve:
  assumes "on_curve2 x y z"
  defines "E \<equiv> 2 * (x * y)" and "H \<equiv> y * y + x * x" and "G \<equiv> y * y - x * x"
    and "F \<equiv> 2 * (z * z) - (y * y - x * x)"
  shows "on_curve (E * F) (H * G) (G * F) (E * H)"
proof -
  have "(H * G) * (H * G) - (E * F) * (E * F) - (G * F) * (G * F) = H * H * (4 * ((y * y - x * x) * (z * z) - z * z * (z * z)))"
    unfolding E_def F_def G_def H_def by algebra
  also have "eqp \<dots> (H * H * (4 * ((z * z * (z * z) + curve_d * (x * x * (y * y))) - z * z * (z * z))))"
    using assms(1) unfolding on_curve2_def by (intro eqp_mult eqp_diff eqp_refl)
  also have "H * H * (4 * ((z * z * (z * z) + curve_d * (x * x * (y * y))) - z * z * (z * z))) = curve_d * ((E * H) * (E * H))"
    unfolding E_def by algebra
  finally have "eqp ((H * G) * (H * G) - (E * F) * (E * F) - (G * F) * (G * F)) (curve_d * ((E * H) * (E * H)))" .
  from eqp_add [OF this eqp_refl [of "(G * F) * (G * F)"]]
  have "eqp ((H * G) * (H * G) - (E * F) * (E * F)) ((G * F) * (G * F) + curve_d * ((E * H) * (E * H)))"
    by (simp add: add.commute)
  moreover have "eqp ((E * F) * (H * G)) ((G * F) * (E * H))" by (simp add: mult_ac)
  ultimately show ?thesis by (simp add: on_curve_def)
qed

text \<open>
  Points in extended coordinates within the bounds of the code that satisfy the two equations of
  the curve. That \<open>Z\<close> is not zero is no part of it; the theorems on the operations give the
  coordinates of the results themselves.
\<close>

definition p3_valid :: "ge_p3 \<Rightarrow> bool" where
  "p3_valid p \<longleftrightarrow> fe_bounded 101 (p3_X p) \<and> fe_bounded 101 (p3_Y p) \<and> fe_bounded 101 (p3_Z p) \<and> fe_bounded 101 (p3_T p) \<and>
     on_curve (fe_val (p3_X p)) (fe_val (p3_Y p)) (fe_val (p3_Z p)) (fe_val (p3_T p))"

lemma on_curve_eqp:
  assumes "on_curve x y z t" and e: "eqp x' x" "eqp y' y" "eqp z' z" "eqp t' t"
  shows "on_curve x' y' z' t'"
proof -
  have xy: "eqp (x * y) (z * t)" and c: "eqp (y * y - x * x) (z * z + curve_d * (t * t))"
    using assms(1) by (simp_all add: on_curve_def)
  have "eqp (x' * y') (z' * t')"
    by (rule eqp_trans [OF eqp_mult [OF e(1,2)] eqp_trans [OF xy eqp_sym [OF eqp_mult [OF e(3,4)]]]])
  moreover have "eqp (y' * y' - x' * x') (z' * z' + curve_d * (t' * t'))"
    by (rule eqp_trans [OF eqp_diff [OF eqp_mult [OF e(2,2)] eqp_mult [OF e(1,1)]]
          eqp_trans [OF c eqp_sym [OF eqp_add [OF eqp_mult [OF e(3,3)] eqp_mult [OF eqp_refl eqp_mult [OF e(4,4)]]]]]])
  ultimately show ?thesis by (simp add: on_curve_def)
qed

lemma p3_validI: "p3_is p x y z t \<Longrightarrow> on_curve x y z t \<Longrightarrow> p3_valid p"
  unfolding p3_valid_def p3_is_def fe_is_def by (blast intro: on_curve_eqp)

lemma p3_validD:
  "p3_valid p \<Longrightarrow> p3_is p (fe_val (p3_X p)) (fe_val (p3_Y p)) (fe_val (p3_Z p)) (fe_val (p3_T p))"
  by (simp add: p3_valid_def p3_is_def fe_is_def)

lemma p3_validE:
  assumes "p3_valid p"
  obtains x y z t where "p3_is p x y z t" and "on_curve x y z t"
  using that [OF p3_validD [OF assms]] assms unfolding p3_valid_def by blast

lemma p3_valid_0: "p3_valid ge_p3_0"
  by (rule p3_validI [OF ge_neutral_is(2)]) (simp add: on_curve_def)

lemma on_curve_neg: "on_curve x y z t \<Longrightarrow> on_curve (- x) y z (- t)"
  using eqp_minus [of "x * y" "z * t"] by (simp add: on_curve_def)

lemma on_curve_scaled:
  assumes "on_curve (e * f) (h * g) (g * f) (e * h)"
  shows "on_curve (2 * e * (2 * f)) (2 * h * (2 * g)) (2 * g * (2 * f)) (2 * e * (2 * h))"
proof -
  have c: "eqp ((e * f) * (h * g)) ((g * f) * (e * h))"
    "eqp ((h * g) * (h * g) - (e * f) * (e * f)) ((g * f) * (g * f) + curve_d * ((e * h) * (e * h)))"
    using assms by (simp_all add: on_curve_def)
  have "eqp (16 * ((h * g) * (h * g) - (e * f) * (e * f))) (16 * ((g * f) * (g * f) + curve_d * ((e * h) * (e * h))))"
    by (rule eqp_mult [OF eqp_refl c(2)])
  moreover have "16 * ((h * g) * (h * g) - (e * f) * (e * f)) = 2 * h * (2 * g) * (2 * h * (2 * g)) - 2 * e * (2 * f) * (2 * e * (2 * f))"
    "16 * ((g * f) * (g * f) + curve_d * ((e * h) * (e * h))) =
      2 * g * (2 * f) * (2 * g * (2 * f)) + curve_d * (2 * e * (2 * h) * (2 * e * (2 * h)))"
    by algebra+
  moreover have "eqp (2 * e * (2 * f) * (2 * h * (2 * g))) (2 * g * (2 * f) * (2 * e * (2 * h)))"
    by (simp only: ac_simps eqp_refl)
  ultimately show ?thesis by (simp only: on_curve_def)
qed

text \<open>The four coordinates of a point modulo the prime, and those of a point times a factor.\<close>

definition same_coordinates :: "ge_p3 \<Rightarrow> int \<times> int \<times> int \<times> int \<Rightarrow> bool" where
  "same_coordinates p c = (case c of (x, y, z, t) \<Rightarrow>
     eqp (fe_val (p3_X p)) x \<and> eqp (fe_val (p3_Y p)) y \<and> eqp (fe_val (p3_Z p)) z \<and> eqp (fe_val (p3_T p)) t)"

definition scaled :: "int \<Rightarrow> ge_p3 \<Rightarrow> int \<times> int \<times> int \<times> int" where
  "scaled c p = (c * fe_val (p3_X p), c * fe_val (p3_Y p), c * fe_val (p3_Z p), c * fe_val (p3_T p))"

lemma p3_is_same: "p3_is p x y z t \<Longrightarrow> same_coordinates p (x, y, z, t)"
  by (simp add: p3_is_def fe_is_def same_coordinates_def)

lemma p3_is_eqp:
  "p3_is p x y z t \<Longrightarrow> eqp x x' \<Longrightarrow> eqp y y' \<Longrightarrow> eqp z z' \<Longrightarrow> eqp t t' \<Longrightarrow> p3_is p x' y' z' t'"
  unfolding p3_is_def fe_is_def by (blast intro: eqp_trans)

lemma same_coordinates_scaled:
  assumes "p3_is p (c * x) (c * y) (c * z) (c * t)" and "p3_is q x y z t"
  shows "same_coordinates p (scaled c q)"
  using assms unfolding p3_is_def fe_is_def same_coordinates_def scaled_def
  by (auto intro: eqp_trans [OF _ eqp_mult [OF eqp_refl eqp_sym]])

subsection \<open>Encoded points\<close>

lemma byte_split_bit7: "(b AND 127) XOR word_of_int (push_bit 7 (uint (drop_bit 7 (b :: u8)))) = b"
proof (rule bit_word_eqI)
  fix n
  assume "n < LENGTH(8)"
  then have "n \<in> {0, 1, 2, 3, 4, 5, 6, 7}" by auto
  then show "bit ((b AND 127) XOR word_of_int (push_bit 7 (uint (drop_bit 7 b)))) n = bit b n"
    by (auto simp: bit_simps)
qed

lemma encoding_split:
  assumes "length s = 32"
  defines "b \<equiv> s ! 31"
  shows "s = take 31 s @ [b]" and "le_nat s mod 2 ^ 255 = le_nat (take 31 s @ [b AND 127])"
proof -
  show s: "s = take 31 s @ [b]"
  proof -
    have "take (Suc 31) s = take 31 s @ [s ! 31]" by (rule take_Suc_conv_app_nth) (use assms in simp)
    then show ?thesis using assms by simp
  qed
  have u: "unat (b AND 127) = unat b mod 128" using unat_and_low [of b 7] by simp
  have l: "length (take 31 s) = 31" using assms by simp
  have t: "le_nat (take 31 s) < 256 ^ 31" using le_nat_bound [of "take 31 s"] l by simp
  have "le_nat s = le_nat (take 31 s) + 256 ^ 31 * unat b"
    by (subst s) (simp only: le_nat_append l le_nat.simps mult_0_right add_0_right)
  also have "\<dots> = (le_nat (take 31 s) + 256 ^ 31 * (unat b mod 128)) + 2 ^ 255 * (unat b div 128)"
  proof -
    have "unat b = unat b mod 128 + 128 * (unat b div 128)" by simp
    then have "256 ^ 31 * unat b = 256 ^ 31 * (unat b mod 128) + 256 ^ 31 * (128 * (unat b div 128))"
      by (metis distrib_left)
    then show ?thesis by simp
  qed
  finally have e: "le_nat s = (le_nat (take 31 s) + 256 ^ 31 * (unat b mod 128)) + 2 ^ 255 * (unat b div 128)" .
  have "unat b mod 128 < 128" by simp
  then have "le_nat (take 31 s) + 256 ^ 31 * (unat b mod 128) < 2 ^ 255" using t by simp
  then show "le_nat s mod 2 ^ 255 = le_nat (take 31 s @ [b AND 127])"
    unfolding e by (simp only: mod_mult_self2 mod_less le_nat_append l u le_nat.simps mult_0_right add_0_right)
qed

lemma le_nat_inject: "length s = length t \<Longrightarrow> le_nat s = le_nat t \<Longrightarrow> s = t"
  using nat_to_le_le_nat by metis

lemma parity_of_negative:
  assumes "\<not> eqp x 0"
  shows "(- x) mod p25519 mod 2 = 1 - x mod p25519 mod 2"
proof -
  have r: "0 < x mod p25519" "x mod p25519 < p25519"
  proof -
    have p: "0 < p25519" by (simp add: p25519_def)
    have "0 \<le> x mod p25519" using p by (rule pos_mod_sign)
    moreover have "x mod p25519 \<noteq> 0" using assms by (simp add: eqp_def)
    ultimately show "0 < x mod p25519" by linarith
    show "x mod p25519 < p25519" using p by (rule pos_mod_bound)
  qed
  have "(- x) mod p25519 = p25519 - x mod p25519"
    using assms by (simp add: zmod_zminus1_eq_if eqp_def)
  moreover have "(p25519 - y) mod 2 = 1 - y mod 2" for y
    unfolding p25519_def by simp presburger
  ultimately show ?thesis by simp
qed

lemma ge_frombytes_point:
  assumes len: "length s = 32" and dec: "ge_frombytes_vartime s = Some h"
  obtains x where "p3_is h x (int (le_nat s mod 2 ^ 255)) 1 (x * int (le_nat s mod 2 ^ 255))"
    and "on_curve x (int (le_nat s mod 2 ^ 255)) 1 (x * int (le_nat s mod 2 ^ 255))"
    and "int (le_nat s mod 2 ^ 255) < p25519" and "x mod p25519 mod 2 = uint (drop_bit 7 (s ! 31))"
proof -
  define y where "y = int (le_nat s mod 2 ^ 255)"
  let ?hY = "fe_of_limbs (fe_load_masked s)"
  let ?u = "fe_sub (fe_sq ?hY) fe_1"
  let ?v = "fe_add (fe_mul (fe_sq ?hY) fe_d) fe_1"
  let ?r = "fe_divpowm1 ?u ?v"
  let ?vxx = "fe_mul (fe_sq ?r) ?v"
  let ?sign = "uint (drop_bit 7 (s ! 31))"
  have lt: "y < p25519" and nc: "\<not> fe_noncanonical (fe_load_masked s)"
    using dec fe_load_values(5) [OF len] by (auto simp: ge_frombytes_vartime_def Let_def y_def split: if_splits)
  have Y: "fe_is 101 ?hY y" using fe_of_limbs_masked [OF len] by (simp add: y_def)
  have yy: "fe_is 101 (fe_sq ?hY) (y * y)" using fe_sq_is [OF Y] by simp
  have u: "fe_is 102 ?u (y * y - 1)" using fe_sub_is [OF yy fe_1_is] by simp
  have v: "fe_is 102 ?v (y * y * curve_d + 1)" using fe_add_is [OF fe_mul_is [OF yy fe_d_is] fe_1_is] by simp
  define r where "r = fe_val ?r"
  have r: "fe_is 101 ?r r"
    using fe_divpowm1_is [OF fe_is_mono [OF u, of 330] fe_is_mono [OF v, of 330]]
    by (simp add: r_def fe_is_def)
  have vxx: "fe_is 101 ?vxx (r * r * (y * y * curve_d + 1))" using fe_mul_is [OF fe_sq_is [OF r] v] by simp
  have cs: "fe_is 203 (fe_sub ?vxx ?u) (r * r * (y * y * curve_d + 1) - (y * y - 1))"
    and ca: "fe_is 203 (fe_add ?vxx ?u) (r * r * (y * y * curve_d + 1) + (y * y - 1))"
    using fe_sub_is [OF vxx u] fe_add_is [OF vxx u] by simp_all
  have z: "(fe_isnonzero f \<noteq> 0) = (\<not> eqp a 0)" if "fe_is 203 f a" for f a
    using fe_isnonzero_is [OF that] by simp
  have root: "\<exists>f x. fe_is 101 f x \<and> eqp (x * x * (y * y * curve_d + 1)) (y * y - 1) \<and>
      (if fe_isnegative f \<noteq> ?sign
       then fe_isnonzero f \<noteq> 0 \<and> h = \<lparr>p3_X = fe_neg f, p3_Y = ?hY, p3_Z = fe_1, p3_T = fe_mul (fe_neg f) ?hY\<rparr>
       else h = \<lparr>p3_X = f, p3_Y = ?hY, p3_Z = fe_1, p3_T = fe_mul f ?hY\<rparr>)"
  proof (cases "eqp (r * r * (y * y * curve_d + 1) - (y * y - 1)) 0")
    case True
    then have "eqp (r * r * (y * y * curve_d + 1)) (y * y - 1)" by (simp add: eqp_iff_dvd)
    then show ?thesis
      using dec nc r True z [OF cs]
      by (intro exI [of _ ?r] exI [of _ r]) (simp add: ge_frombytes_vartime_def Let_def split: if_splits)
  next
    case False
    let ?f = "fe_mul ?r fe_sqrtm1"
    have f: "fe_is 101 ?f (r * fe_val fe_sqrtm1)"
      using fe_mul_is [OF r fe_is_bounded [OF fe_constants_bounded(3)]] by simp
    have a: "eqp (r * r * (y * y * curve_d + 1) + (y * y - 1)) 0"
      using dec nc False z [OF cs] z [OF ca] by (auto simp: ge_frombytes_vartime_def Let_def split: if_splits)
    have "(r * fe_val fe_sqrtm1) * (r * fe_val fe_sqrtm1) * (y * y * curve_d + 1) =
        (fe_val fe_sqrtm1 * fe_val fe_sqrtm1) * (r * r * (y * y * curve_d + 1))"
      by algebra
    also have "eqp \<dots> (- 1 * (r * r * (y * y * curve_d + 1)))"
      by (rule eqp_mult [OF fe_constants_values(3) eqp_refl])
    also have "eqp \<dots> (y * y - 1)"
      using eqp_diff [OF eqp_refl a, of "y * y - 1"] by (simp add: eqp_sym)
    finally show ?thesis
      using dec nc f False a z [OF cs] z [OF ca]
      by (intro exI [of _ ?f] exI [of _ "r * fe_val fe_sqrtm1"]) (simp add: ge_frombytes_vartime_def Let_def split: if_splits)
  qed
  then obtain f x where f: "fe_is 101 f x" and sq: "eqp (x * x * (y * y * curve_d + 1)) (y * y - 1)"
    and h: "if fe_isnegative f \<noteq> ?sign
       then fe_isnonzero f \<noteq> 0 \<and> h = \<lparr>p3_X = fe_neg f, p3_Y = ?hY, p3_Z = fe_1, p3_T = fe_mul (fe_neg f) ?hY\<rparr>
       else h = \<lparr>p3_X = f, p3_Y = ?hY, p3_Z = fe_1, p3_T = fe_mul f ?hY\<rparr>"
    by blast
  have neg: "fe_isnegative f = x mod p25519 mod 2" using fe_isnegative_is [OF f] by simp
  have curve: "on_curve c y 1 (c * y)" if "c * c = x * x" for c
  proof -
    have e: "y * y - c * c = (y * y - 1) - x * x * (y * y * curve_d + 1) + (1 * 1 + curve_d * ((c * y) * (c * y)))"
      using that by algebra
    have "eqp ((y * y - 1) - x * x * (y * y * curve_d + 1)) 0"
      using eqp_diff [OF eqp_refl sq, of "y * y - 1"] by simp
    from eqp_add [OF this eqp_refl [of "1 * 1 + curve_d * ((c * y) * (c * y))"]]
    have "eqp ((y * y - 1) - x * x * (y * y * curve_d + 1) + (1 * 1 + curve_d * ((c * y) * (c * y))))
        (1 * 1 + curve_d * ((c * y) * (c * y)))" by (simp only: add_0)
    then have "eqp (y * y - c * c) (1 * 1 + curve_d * ((c * y) * (c * y)))" unfolding e .
    then show ?thesis by (simp add: on_curve_def)
  qed
  have one: "fe_is 101 fe_1 1" by (rule fe_is_mono [OF fe_1_is]) simp
  have sign: "?sign = 0 \<or> ?sign = 1"
  proof -
    have "unat (drop_bit 7 (s ! 31)) < 2"
      using unat_le_255 [of "s ! 31"] by (simp add: unat_drop_bit)
    then show ?thesis unfolding uint_nat by linarith
  qed
  show thesis
  proof (cases "fe_isnegative f = ?sign")
    case True
    then have "h = \<lparr>p3_X = f, p3_Y = ?hY, p3_Z = fe_1, p3_T = fe_mul f ?hY\<rparr>" using h by simp
    then have "p3_is h x y 1 (x * y)" using f Y one fe_mul_is [OF f Y] by (simp add: p3_is_def)
    moreover have "x mod p25519 mod 2 = ?sign" using True neg by simp
    ultimately show ?thesis using that [of x, folded y_def] curve [OF refl] lt by blast
  next
    case False
    then have nz: "\<not> eqp x 0" and h': "h = \<lparr>p3_X = fe_neg f, p3_Y = ?hY, p3_Z = fe_1, p3_T = fe_mul (fe_neg f) ?hY\<rparr>"
      using h fe_isnonzero_is [OF f] by auto
    have n: "fe_is 101 (fe_neg f) (- x)" using fe_neg_is [OF f] by simp
    then have "p3_is h (- x) y 1 (- x * y)" using h' Y one fe_mul_is [OF n Y] by (simp add: p3_is_def)
    moreover have "- x mod p25519 mod 2 = ?sign"
      unfolding parity_of_negative [OF nz] using False neg sign by linarith
    moreover have "on_curve (- x) y 1 (- x * y)" by (rule curve) simp
    ultimately show ?thesis using that [of "- x", folded y_def] lt by blast
  qed
qed

lemma ge_p3_tobytes_affine:
  assumes h: "p3_is h x y 1 t"
  obtains s' where "fe_isnegative (fe_mul (p3_X h) (fe_invert (p3_Z h))) = x mod p25519 mod 2"
    and "length s' = 32" and "int (le_nat s') = y mod p25519"
    and "ge_p3_tobytes h = s'[31 := s' ! 31 XOR word_of_int (push_bit 7 (x mod p25519 mod 2))]"
proof -
  have c: "fe_is 101 (p3_X h) x" "fe_is 101 (p3_Y h) y" "fe_is 101 (p3_Z h) 1"
    using h by (simp_all add: p3_is_def)
  have i: "fe_is 101 (fe_invert (p3_Z h)) 1"
    using fe_invert_is [OF fe_is_mono [OF c(3), of 330]] by (simp only: power_one)
  have x: "fe_is 101 (fe_mul (p3_X h) (fe_invert (p3_Z h))) x" and y: "fe_is 101 (fe_mul (p3_Y h) (fe_invert (p3_Z h))) y"
    using fe_mul_is [OF c(1) i] fe_mul_is [OF c(2) i] by simp_all
  have n: "fe_isnegative (fe_mul (p3_X h) (fe_invert (p3_Z h))) = x mod p25519 mod 2"
    using fe_isnegative_is [OF x] by simp
  note t = fe_tobytes_is [OF y, simplified]
  show thesis
    by (rule that [of "fe_tobytes (fe_mul (p3_Y h) (fe_invert (p3_Z h)))"])
      (use n t in \<open>simp_all add: ge_p3_tobytes_def Let_def\<close>)
qed

lemma ge_encoding_roundtrip:
  assumes len: "length s = 32" and dec: "ge_frombytes_vartime s = Some h"
  shows "ge_p3_tobytes h = s"
proof -
  obtain x where h: "p3_is h x (int (le_nat s mod 2 ^ 255)) 1 (x * int (le_nat s mod 2 ^ 255))"
    and lt: "int (le_nat s mod 2 ^ 255) < p25519" and sign: "x mod p25519 mod 2 = uint (drop_bit 7 (s ! 31))"
    using len dec by (rule ge_frombytes_point)
  obtain s' where s': "length s' = 32" "int (le_nat s') = int (le_nat s mod 2 ^ 255) mod p25519"
    and tb: "ge_p3_tobytes h = s'[31 := s' ! 31 XOR word_of_int (push_bit 7 (x mod p25519 mod 2))]"
    using h by (rule ge_p3_tobytes_affine)
  note sp = encoding_split [OF len]
  have "le_nat s' = le_nat (take 31 s @ [s ! 31 AND 127])"
    using s'(2) lt sp(2) by simp
  then have e: "s' = take 31 s @ [s ! 31 AND 127]"
    using s'(1) len by (intro le_nat_inject) simp_all
  have l: "length (take 31 s) = 31" using len by simp
  have "ge_p3_tobytes h = take 31 s @ [s ! 31]"
    unfolding tb sign e using l by (simp add: nth_append list_update_append byte_split_bit7)
  then show ?thesis using sp(1) by simp
qed

text \<open>The encoding of the neutral point is accepted.\<close>

lemma ge_frombytes_neutral: "\<exists>h. ge_frombytes_vartime (1 # replicate 31 0) = Some h"
proof -
  let ?s = "1 # replicate 31 0 :: bytes"
  let ?hY = "fe_of_limbs (fe_load_masked ?s)"
  let ?u = "fe_sub (fe_sq ?hY) fe_1"
  let ?v = "fe_add (fe_mul (fe_sq ?hY) fe_d) fe_1"
  let ?r = "fe_divpowm1 ?u ?v"
  have len: "length ?s = 32" by simp
  have le: "le_nat ?s = 1" by (simp add: le_nat_0_iff)
  have nc: "\<not> fe_noncanonical (fe_load_masked ?s)"
    unfolding fe_load_values(5) [OF len] le by (simp add: p25519_def)
  have Y: "fe_is 101 ?hY 1" using fe_of_limbs_masked [OF len] unfolding le by simp
  have yy: "fe_is 101 (fe_sq ?hY) 1" using fe_sq_is [OF Y] by simp
  have u: "fe_is 102 ?u 0" using fe_sub_is [OF yy fe_1_is] by simp
  have v: "fe_is 102 ?v (curve_d + 1)" using fe_add_is [OF fe_mul_is [OF yy fe_d_is] fe_1_is] by simp
  have r: "fe_is 101 ?r 0"
    using fe_divpowm1_is [OF fe_is_mono [OF u, of 330] fe_is_mono [OF v, of 330]] by simp
  have vxx: "fe_is 101 (fe_mul (fe_sq ?r) ?v) 0" using fe_mul_is [OF fe_sq_is [OF r] v] by simp
  have "fe_is 203 (fe_sub (fe_mul (fe_sq ?r) ?v) ?u) 0" using fe_sub_is [OF vxx u] by simp
  from fe_isnonzero_is [OF this] have check: "fe_isnonzero (fe_sub (fe_mul (fe_sq ?r) ?v) ?u) = 0" by simp
  have "fe_isnegative ?r = 0" using fe_isnegative_is [OF r] by simp
  moreover have "?s ! 31 = 0" by simp
  ultimately show ?thesis
    unfolding ge_frombytes_vartime_def Let_def using nc check by simp
qed

subsection \<open>Properties\<close>

text \<open>C25: \<open>ge_add\<close> followed by \<open>ge_p1p1_to_p3\<close> is Edwards' unified addition law on extended
  coordinates. With \<open>E = X1 Y2 + Y1 X2\<close>, \<open>H = Y1 Y2 + X1 X2\<close>, \<open>G = Z1 Z2 + d T1 T2\<close> and
  \<open>F = Z1 Z2 - d T1 T2\<close>, the result is exactly \<open>(4 E F, 4 H G, 4 G F, 4 E H)\<close> modulo the prime,
  on the curve and within the limb bounds, for all pairs of valid points, equal ones included; so
  \<open>x = X / Z\<close> and \<open>y = Y / Z\<close> are \<open>(x1 y2 + y1 x2) / (1 + d x1 x2 y1 y2)\<close> and
  \<open>(y1 y2 + x1 x2) / (1 - d x1 x2 y1 y2)\<close>, stated without divisions. That \<open>Z\<close> is never zero
  needs that \<open>d\<close> is no square modulo the prime and is not shown here.\<close>
theorem ge_add_is_edwards_sum:
  assumes "p3_valid p" and "p3_valid q"
  defines "x1 \<equiv> fe_val (p3_X p)" and "y1 \<equiv> fe_val (p3_Y p)" and "z1 \<equiv> fe_val (p3_Z p)" and "t1 \<equiv> fe_val (p3_T p)"
    and "x2 \<equiv> fe_val (p3_X q)" and "y2 \<equiv> fe_val (p3_Y q)" and "z2 \<equiv> fe_val (p3_Z q)" and "t2 \<equiv> fe_val (p3_T q)"
    and "r \<equiv> ge_p1p1_to_p3 (ge_add p (ge_p3_to_cached q))"
  shows "eqp (fe_val (p3_X r)) (4 * (x1 * y2 + y1 * x2) * (z1 * z2 - curve_d * t1 * t2)) \<and>
    eqp (fe_val (p3_Y r)) (4 * (y1 * y2 + x1 * x2) * (z1 * z2 + curve_d * t1 * t2)) \<and>
    eqp (fe_val (p3_Z r)) (4 * (z1 * z2 + curve_d * t1 * t2) * (z1 * z2 - curve_d * t1 * t2)) \<and>
    eqp (fe_val (p3_T r)) (4 * (x1 * y2 + y1 * x2) * (y1 * y2 + x1 * x2)) \<and>
    eqp (fe_val (p3_X r) * (z1 * z2 + curve_d * t1 * t2)) (fe_val (p3_Z r) * (x1 * y2 + y1 * x2)) \<and>
    eqp (fe_val (p3_Y r) * (z1 * z2 - curve_d * t1 * t2)) (fe_val (p3_Z r) * (y1 * y2 + x1 * x2)) \<and>
    p3_valid r"
proof -
  let ?E = "x1 * y2 + y1 * x2" and ?H = "y1 * y2 + x1 * x2"
  let ?G = "z1 * z2 + curve_d * t1 * t2" and ?F = "z1 * z2 - curve_d * t1 * t2"
  have p: "p3_is p x1 y1 z1 t1" and q: "p3_is q x2 y2 z2 t2"
    using p3_validD [OF assms(1)] p3_validD [OF assms(2)]
    by (simp_all add: x1_def y1_def z1_def t1_def x2_def y2_def z2_def t2_def)
  have r: "p3_is r (2 * ?E * (2 * ?F)) (2 * ?H * (2 * ?G)) (2 * ?G * (2 * ?F)) (2 * ?E * (2 * ?H))"
    unfolding r_def by (rule ge_p1p1_is(1) [OF ge_add_is(1) [OF p ge_p3_to_cached_is [OF q]]])
  have "on_curve x1 y1 z1 t1" "on_curve x2 y2 z2 t2"
    using assms(1,2) by (simp_all add: p3_valid_def x1_def y1_def z1_def t1_def x2_def y2_def z2_def t2_def)
  then have valid: "p3_valid r"
    by (intro p3_validI [OF r] on_curve_scaled sum_on_curve)
  have four: "2 * a * (2 * b) = 4 * a * b" for a b :: int by simp
  have v: "eqp (fe_val (p3_X r)) (4 * ?E * ?F)" "eqp (fe_val (p3_Y r)) (4 * ?H * ?G)"
    "eqp (fe_val (p3_Z r)) (4 * ?G * ?F)" "eqp (fe_val (p3_T r)) (4 * ?E * ?H)"
    using r unfolding four by (simp_all only: p3_is_def fe_is_def)
  have "eqp (fe_val (p3_X r) * ?G) (4 * ?E * ?F * ?G)" by (rule eqp_mult [OF v(1) eqp_refl])
  also have "4 * ?E * ?F * ?G = 4 * ?G * ?F * ?E" by (simp only: ac_simps)
  also have "eqp \<dots> (fe_val (p3_Z r) * ?E)" by (rule eqp_mult [OF eqp_sym [OF v(3)] eqp_refl])
  finally have 1: "eqp (fe_val (p3_X r) * ?G) (fe_val (p3_Z r) * ?E)" .
  have "eqp (fe_val (p3_Y r) * ?F) (4 * ?H * ?G * ?F)" by (rule eqp_mult [OF v(2) eqp_refl])
  also have "4 * ?H * ?G * ?F = 4 * ?G * ?F * ?H" by (simp only: ac_simps)
  also have "eqp \<dots> (fe_val (p3_Z r) * ?H)" by (rule eqp_mult [OF eqp_sym [OF v(3)] eqp_refl])
  finally have 2: "eqp (fe_val (p3_Y r) * ?F) (fe_val (p3_Z r) * ?H)" .
  show ?thesis using v 1 2 valid by blast
qed

lemma ge_add_is_edwards_sum_witness:
  "eqp (fe_val (p3_Z (ge_p1p1_to_p3 (ge_add ge_p3_0 (ge_p3_to_cached ge_p3_0))))) 4 \<and>
    eqp (fe_val (p3_Y (ge_p1p1_to_p3 (ge_add ge_p3_0 (ge_p3_to_cached ge_p3_0))))) 4"
proof -
  have "fe_val (p3_X ge_p3_0) = 0" "fe_val (p3_Y ge_p3_0) = 1" "fe_val (p3_Z ge_p3_0) = 1" "fe_val (p3_T ge_p3_0) = 0"
    by (simp_all add: ge_p3_0_def fe_0_def fe_1_def fe_val_def fe_weights_def)
  then show ?thesis using ge_add_is_edwards_sum [OF p3_valid_0 p3_valid_0] by simp
qed

text \<open>C26: Doubling, adding a point to itself and subtracting it from itself agree: the four
  coordinates of \<open>ge_add p p\<close> are four times those of \<open>ge_p3_dbl p\<close>, which are
  \<open>(2 X Y F, (Y\<^sup>2 + X\<^sup>2) G, G F, 2 X Y (Y\<^sup>2 + X\<^sup>2))\<close> with \<open>G = Y\<^sup>2 - X\<^sup>2\<close> and
  \<open>F = 2 Z\<^sup>2 - G\<close>; \<open>ge_sub p p\<close> is \<open>(0, c, c, 0)\<close> with \<open>c\<close> the \<open>Z\<close> of \<open>ge_add p p\<close>, the neutral
  point whenever that is not zero; and \<open>ge_sub p q\<close> is the sum of \<open>p\<close> and the negation of \<open>q\<close>.\<close>
theorem doubling_is_sum:
  assumes "p3_valid p" and "p3_valid q"
  defines "x \<equiv> fe_val (p3_X p)" and "y \<equiv> fe_val (p3_Y p)" and "z \<equiv> fe_val (p3_Z p)"
    and "a \<equiv> ge_p1p1_to_p3 (ge_add p (ge_p3_to_cached p))" and "b \<equiv> ge_p1p1_to_p3 (ge_p3_dbl p)"
    and "s \<equiv> ge_p1p1_to_p3 (ge_sub p (ge_p3_to_cached p))"
    and "n \<equiv> q\<lparr>p3_X := fe_neg (p3_X q), p3_T := fe_neg (p3_T q)\<rparr>"
  shows "same_coordinates a (scaled 4 b) \<and>
    same_coordinates b (2 * (x * y) * (2 * (z * z) - (y * y - x * x)), (y * y + x * x) * (y * y - x * x),
      (y * y - x * x) * (2 * (z * z) - (y * y - x * x)), 2 * (x * y) * (y * y + x * x)) \<and>
    same_coordinates s (0, fe_val (p3_Z a), fe_val (p3_Z a), 0) \<and>
    p3_valid n \<and>
    same_coordinates (ge_p1p1_to_p3 (ge_sub p (ge_p3_to_cached q)))
      (scaled 1 (ge_p1p1_to_p3 (ge_add p (ge_p3_to_cached n)))) \<and>
    p3_valid b \<and> p3_valid (ge_p1p1_to_p3 (ge_sub p (ge_p3_to_cached q)))"
proof -
  define t where "t = fe_val (p3_T p)"
  obtain x2 y2 z2 t2 where q: "p3_is q x2 y2 z2 t2" and c2: "on_curve x2 y2 z2 t2"
    using assms(2) by (rule p3_validE)
  have p: "p3_is p x y z t" and c1: "on_curve x y z t"
    using assms(1) by (simp_all add: p3_valid_def p3_is_def fe_is_def x_def y_def z_def t_def)
  have n: "p3_is n (- x2) y2 z2 (- t2)"
    using q fe_neg_is unfolding p3_is_def n_def by auto
  let ?g = "y * y - x * x" and ?h = "y * y + x * x" and ?e = "2 * (x * y)"
  let ?f = "2 * (z * z) - ?g" and ?k = "z * z + curve_d * t * t" and ?m = "z * z - curve_d * t * t"
  have kg: "eqp ?k ?g" using c1 by (simp add: on_curve_def eqp_sym mult.assoc)
  have mf: "eqp ?m ?f"
  proof -
    have "?m = 2 * (z * z) - ?k" by algebra
    with eqp_diff [OF eqp_refl kg, of "2 * (z * z)"] show ?thesis by (simp only:)
  qed
  note add = ge_p1p1_is(1) [OF ge_add_is(1) [OF p ge_p3_to_cached_is [OF p]], folded a_def]
  note sub = ge_p1p1_is(1) [OF ge_add_is(2) [OF p ge_p3_to_cached_is [OF p]], folded s_def]
  have b: "p3_is b (?e * ?f) (?h * ?g) (?g * ?f) (?e * ?h)"
    unfolding b_def ge_p3_dbl_def by (rule ge_p1p1_is(1) [OF ge_p2_dbl_is [OF ge_p3_to_p2_is [OF p]]])
  have a: "p3_is a (4 * (?e * ?f)) (4 * (?h * ?g)) (4 * (?g * ?f)) (4 * (?e * ?h))"
  proof -
    have "2 * (x * y + y * x) * (2 * ?m) = 4 * (?e * ?m)" "2 * ?h * (2 * ?k) = 4 * (?h * ?k)"
      "2 * ?k * (2 * ?m) = 4 * (?k * ?m)" "2 * (x * y + y * x) * (2 * ?h) = 4 * (?e * ?h)"
      by algebra+
    note add [unfolded this]
    moreover have "eqp (4 * (?e * ?m)) (4 * (?e * ?f))" "eqp (4 * (?h * ?k)) (4 * (?h * ?g))"
      "eqp (4 * (?k * ?m)) (4 * (?g * ?f))" by (intro eqp_mult eqp_refl kg mf)+
    ultimately show ?thesis by (rule p3_is_eqp) simp
  qed
  have s: "p3_is s 0 (4 * (?g * ?f)) (4 * (?g * ?f)) 0"
  proof -
    have "2 * (x * y - y * x) * (2 * ?k) = 0" "2 * (y * y - x * x) * (2 * ?m) = 4 * (?g * ?m)"
      "2 * ?m * (2 * ?k) = 4 * (?k * ?m)" "2 * (x * y - y * x) * (2 * (y * y - x * x)) = 0"
      by algebra+
    note sub [unfolded this]
    moreover have "eqp (4 * (?g * ?m)) (4 * (?g * ?f))"
      "eqp (4 * (?k * ?m)) (4 * (?g * ?f))" by (intro eqp_mult eqp_refl kg mf)+
    ultimately show ?thesis by (rule p3_is_eqp [OF _ eqp_refl]) simp
  qed
  note sq = ge_p1p1_is(1) [OF ge_add_is(2) [OF p ge_p3_to_cached_is [OF q]]]
  note an = ge_p1p1_is(1) [OF ge_add_is(1) [OF p ge_p3_to_cached_is [OF n]]]
  have sz: "same_coordinates s (0, fe_val (p3_Z a), fe_val (p3_Z a), 0)"
  proof -
    have "eqp (4 * (?g * ?f)) (fe_val (p3_Z a))" using a by (simp add: p3_is_def fe_is_def eqp_sym)
    with s show ?thesis
      by (auto simp: p3_is_def fe_is_def same_coordinates_def intro: eqp_trans)
  qed
  have vb: "p3_valid b" by (rule p3_validI [OF b double_on_curve [OF on_curve_proj [OF c1]]])
  have vs: "p3_valid (ge_p1p1_to_p3 (ge_sub p (ge_p3_to_cached q)))"
    by (rule p3_validI [OF sq]) (use on_curve_scaled [OF sum_on_curve [OF c1 on_curve_neg [OF c2]]] in \<open>simp add: mult_ac\<close>)
  have "same_coordinates (ge_p1p1_to_p3 (ge_sub p (ge_p3_to_cached q)))
      (scaled 1 (ge_p1p1_to_p3 (ge_add p (ge_p3_to_cached n))))"
    by (rule same_coordinates_scaled [OF _ an]) (use sq in \<open>simp add: algebra_simps\<close>)
  then show ?thesis
    using same_coordinates_scaled [OF a b] p3_is_same [OF b] sz vb vs p3_validI [OF n on_curve_neg [OF c2]]
    by blast
qed

lemma doubling_is_sum_witness:
  "same_coordinates (ge_p1p1_to_p3 (ge_add ge_p3_0 (ge_p3_to_cached ge_p3_0)))
    (scaled 4 (ge_p1p1_to_p3 (ge_p3_dbl ge_p3_0)))"
  using doubling_is_sum [OF p3_valid_0 p3_valid_0] by blast

text \<open>C29: Every accepted encoding is canonical: when \<open>ge_frombytes_vartime\<close> accepts 32 bytes, the point it
  returns is a valid point of the curve and \<open>ge_p3_tobytes\<close> writes exactly those 32 bytes.\<close>
theorem ge_frombytes_canonical:
  assumes "length s = 32" and "ge_frombytes_vartime s = Some h"
  shows "p3_valid h \<and> ge_p3_tobytes h = s"
proof
  show "p3_valid h" using assms by (rule ge_frombytes_point) (rule p3_validI)
  show "ge_p3_tobytes h = s" by (rule ge_encoding_roundtrip [OF assms])
qed

lemma ge_frombytes_canonical_witness:
  "\<exists>h. ge_frombytes_vartime (1 # replicate 31 0) = Some h \<and> p3_valid h \<and> ge_p3_tobytes h = 1 # replicate 31 0"
proof -
  obtain h where "ge_frombytes_vartime (1 # replicate 31 0) = Some h" using ge_frombytes_neutral by blast
  then show ?thesis using ge_frombytes_canonical [of "1 # replicate 31 0" h] by simp
qed

end
