(* ===== verification/ScalarMult.thy ===== *)
theory ScalarMult
  imports GroupOps "HOL-Library.Monad_Syntax"
begin

unbundle bit_operations_syntax

section \<open>Scalar multiplication (src/src/crypto/crypto-ops.c)\<close>

text \<open>
  \<open>ge_scalarmult\<close> recodes the scalar in 64 signed digits of base 16, keeps a table of \<open>1 A \<dots> 8 A\<close>,
  and for each digit doubles four times and adds an entry selected without branches (\<open>equal\<close>,
  \<open>negative\<close>, \<open>fe_cmov\<close>). The variable-time routines recode in sliding windows of odd digits (\<open>slide\<close>)
  and use the table \<open>A, 3 A, \<dots>, 15 A\<close>. The assertion of \<open>fe_cmov\<close> makes the selection an option.
  The theorems: the recodings keep the value and the digits are in the range of the tables; the
  selection is the indexed lookup and never fails its assertion; \<open>ge_scalarmult\<close> returns the
  multiple of the point (\<open>multiple\<close>, built from additions, doublings and negations).
\<close>

subsection \<open>Selection\<close>

text \<open>\<open>unsigned char\<close> and \<open>signed char\<close> arguments; \<open>equal\<close> compares bytes, \<open>negative\<close> takes the sign.\<close>

definition int8 :: "int \<Rightarrow> int" where
  "int8 x = signed_take_bit 7 x"

definition equal_char :: "u8 \<Rightarrow> u8 \<Rightarrow> u8" where
  "equal_char b c =
     (let x = b XOR c;
          y = (ucast x :: u32);
          y = y - 1;
          y = drop_bit 31 y
      in ucast y)"

definition negative_char :: "int \<Rightarrow> u8" where
  "negative_char b = ucast (drop_bit 63 (word_of_int b :: u64))"

text \<open>\<open>babs = b - (((-bnegative) & b) << 1)\<close>\<close>

definition abs_char :: "int \<Rightarrow> u8" where
  "abs_char b = word_of_int (b - push_bit 1 ((- uint (negative_char b)) AND b))"

definition ge_precomp_cmov :: "ge_precomp \<Rightarrow> ge_precomp \<Rightarrow> u8 \<Rightarrow> ge_precomp option" where
  "ge_precomp_cmov t u b =
     do {
       f1 \<leftarrow> fe_cmov (yplusx t) (yplusx u) (ucast b);
       f2 \<leftarrow> fe_cmov (yminusx t) (yminusx u) (ucast b);
       f3 \<leftarrow> fe_cmov (xy2d t) (xy2d u) (ucast b);
       Some \<lparr>yplusx = f1, yminusx = f2, xy2d = f3\<rparr>
     }"

definition ge_cached_cmov :: "ge_cached \<Rightarrow> ge_cached \<Rightarrow> u8 \<Rightarrow> ge_cached option" where
  "ge_cached_cmov t u b =
     do {
       f1 \<leftarrow> fe_cmov (c_YplusX t) (c_YplusX u) (ucast b);
       f2 \<leftarrow> fe_cmov (c_YminusX t) (c_YminusX u) (ucast b);
       f3 \<leftarrow> fe_cmov (c_Z t) (c_Z u) (ucast b);
       f4 \<leftarrow> fe_cmov (c_T2d t) (c_T2d u) (ucast b);
       Some \<lparr>c_YplusX = f1, c_YminusX = f2, c_Z = f3, c_T2d = f4\<rparr>
     }"

text \<open>The eight conditional moves \<open>cmov(t, &row[j], equal(babs, j + 1))\<close>, from the entry \<open>j\<close> on.\<close>

fun cmov_row :: "('a \<Rightarrow> 'a \<Rightarrow> u8 \<Rightarrow> 'a option) \<Rightarrow> u8 \<Rightarrow> nat \<Rightarrow> 'a list \<Rightarrow> 'a \<Rightarrow> 'a option" where
  "cmov_row cmov babs j [] t = Some t"
| "cmov_row cmov babs j (u # us) t =
     Option.bind (cmov t u (equal_char babs (of_nat (j + 1)))) (cmov_row cmov babs (j + 1) us)"

text \<open>\<open>select\<close>, with the row \<open>ge_base[pos]\<close>.\<close>

definition select_row :: "ge_precomp list \<Rightarrow> int \<Rightarrow> ge_precomp option" where
  "select_row row b =
     do {
       t \<leftarrow> cmov_row ge_precomp_cmov (abs_char b) 0 row ge_precomp_0;
       ge_precomp_cmov t
         \<lparr>yplusx = fe_copy (yminusx t), yminusx = fe_copy (yplusx t), xy2d = fe_neg (xy2d t)\<rparr>
         (negative_char b)
     }"

text \<open>The same in the loop of \<open>ge_scalarmult\<close>, on the table of cached multiples.\<close>

definition select_cached :: "ge_cached list \<Rightarrow> int \<Rightarrow> ge_cached option" where
  "select_cached row b =
     do {
       cur \<leftarrow> cmov_row ge_cached_cmov (abs_char b) 0 row ge_cached_0;
       ge_cached_cmov cur
         \<lparr>c_YplusX = fe_copy (c_YminusX cur), c_YminusX = fe_copy (c_YplusX cur), c_Z = fe_copy (c_Z cur),
          c_T2d = fe_neg (c_T2d cur)\<rparr>
         (negative_char b)
     }"

subsection \<open>Recoding in signed digits of base 16\<close>

text \<open>The loop of \<open>ge_scalarmult\<close>; \<open>carry\<close> and \<open>carry2\<close> are \<open>int\<close>. The last byte is not split.\<close>

fun recode16 :: "int \<Rightarrow> bytes \<Rightarrow> int list" where
  "recode16 cy [] = []"
| "recode16 cy [a] =
     (let cy = cy + uint a;
          cy2 = drop_bit 4 (cy + 8)
      in [int8 (cy - push_bit 4 cy2), int8 cy2])"
| "recode16 cy (a # b # as) =
     (let cy = cy + uint a;
          cy2 = drop_bit 4 (cy + 8);
          e0 = int8 (cy - push_bit 4 cy2);
          cy = drop_bit 4 (cy2 + 8);
          e1 = int8 (cy2 - push_bit 4 cy)
      in e0 # e1 # recode16 cy (b # as))"

text \<open>\<open>ge_scalarmult_base\<close>: first the nibbles, then the carries, in \<open>signed char\<close>.\<close>

definition nibbles :: "bytes \<Rightarrow> int list" where
  "nibbles a = concat (map (\<lambda>b. [uint (drop_bit 0 b AND 15), uint (drop_bit 4 b AND 15)]) a)"

fun carry_nibbles :: "int \<Rightarrow> int list \<Rightarrow> int list" where
  "carry_nibbles cy [] = []"
| "carry_nibbles cy [e] = [int8 (e + cy)]"
| "carry_nibbles cy (e # e' # es) =
     (let e = int8 (e + cy);
          cy = int8 (e + 8);
          cy = drop_bit 4 cy;
          e = int8 (e - push_bit 4 cy)
      in e # carry_nibbles cy (e' # es))"

subsection \<open>The multiplication\<close>

text \<open>\<open>Ai[0] = A\<close>, \<open>Ai[i + 1] = A + Ai[i]\<close>.\<close>

fun cached_multiples :: "nat \<Rightarrow> ge_p3 \<Rightarrow> ge_cached \<Rightarrow> ge_cached list" where
  "cached_multiples 0 A c = [c]"
| "cached_multiples (Suc n) A c =
     c # cached_multiples n A (ge_p3_to_cached (ge_p1p1_to_p3 (ge_add A c)))"

definition ge_scalarmult_step :: "ge_cached list \<Rightarrow> ge_p2 \<Rightarrow> int \<Rightarrow> ge_p2 option" where
  "ge_scalarmult_step Ai r b =
     (let r = ge_p1p1_to_p2 (ge_p2_dbl r);
          r = ge_p1p1_to_p2 (ge_p2_dbl r);
          r = ge_p1p1_to_p2 (ge_p2_dbl r);
          u = ge_p1p1_to_p3 (ge_p2_dbl r)
      in do {
        cur \<leftarrow> select_cached Ai b;
        Some (ge_p1p1_to_p2 (ge_add u cur))
      })"

fun ge_scalarmult_loop :: "ge_cached list \<Rightarrow> int list \<Rightarrow> ge_p2 \<Rightarrow> ge_p2 option" where
  "ge_scalarmult_loop Ai [] r = Some r"
| "ge_scalarmult_loop Ai (b # bs) r = Option.bind (ge_scalarmult_step Ai r b) (ge_scalarmult_loop Ai bs)"

definition ge_scalarmult :: "bytes \<Rightarrow> ge_p3 \<Rightarrow> ge_p2 option" where
  "ge_scalarmult a A =
     (let e = recode16 0 (take 32 a);
          Ai = cached_multiples 7 A (ge_p3_to_cached A)
      in ge_scalarmult_loop Ai (rev e) ge_p2_0)"

text \<open>\<open>ge_scalarmult_base\<close> for a table of 32 rows: the odd digits, four doublings, the even digits.\<close>

fun add_selected :: "ge_precomp list list \<Rightarrow> int list \<Rightarrow> nat list \<Rightarrow> ge_p3 \<Rightarrow> ge_p3 option" where
  "add_selected rows e [] h = Some h"
| "add_selected rows e (i # is) h =
     do {
       t \<leftarrow> select_row (rows ! (i div 2)) (e ! i);
       add_selected rows e is (ge_p1p1_to_p3 (ge_madd h t))
     }"

definition scalarmult_rows :: "ge_precomp list list \<Rightarrow> bytes \<Rightarrow> ge_p3 option" where
  "scalarmult_rows rows a =
     (let e = carry_nibbles 0 (nibbles (take 32 a))
      in do {
        h \<leftarrow> add_selected rows e (map (\<lambda>k. 2 * k + 1) [0..<32]) ge_p3_0;
        let s = ge_p1p1_to_p2 (ge_p3_dbl h);
            s = ge_p1p1_to_p2 (ge_p2_dbl s);
            s = ge_p1p1_to_p2 (ge_p2_dbl s);
            h = ge_p1p1_to_p3 (ge_p2_dbl s)
        in add_selected rows e (map (\<lambda>k. 2 * k) [0..<32]) h
      })"

subsection \<open>Sliding windows\<close>

text \<open>The bits of the scalar; then for each position \<open>i\<close> the inner loop over \<open>b\<close>, with the carry loop over \<open>k\<close>.\<close>

definition slide_bits :: "bytes \<Rightarrow> int list" where
  "slide_bits a = map (\<lambda>i. uint (1 AND drop_bit (i mod 8) (a ! (i div 8)))) [0..<256]"

fun slide_carry :: "int list \<Rightarrow> int list" where
  "slide_carry [] = []"
| "slide_carry (x # xs) = (if x = 0 then 1 # xs else 0 # slide_carry xs)"

text \<open>\<open>x\<close> is \<open>r[i]\<close>, \<open>ys\<close> holds \<open>r[i + b]\<close> and what follows; a \<open>break\<close> ends the loop.\<close>

fun slide_window :: "nat \<Rightarrow> nat \<Rightarrow> int \<Rightarrow> int list \<Rightarrow> int \<times> int list" where
  "slide_window 0 b x ys = (x, ys)"
| "slide_window (Suc n) b x [] = (x, [])"
| "slide_window (Suc n) b x (y # ys) =
     (if y \<noteq> 0 then
        (if x + push_bit b y \<le> 15 then
           (let (x, ys) = slide_window n (b + 1) (int8 (x + push_bit b y)) ys in (x, 0 # ys))
         else if - 15 \<le> x - push_bit b y then
           (case slide_carry (y # ys) of
              [] \<Rightarrow> (int8 (x - push_bit b y), [])
            | y' # ys' \<Rightarrow> (let (x, ys) = slide_window n (b + 1) (int8 (x - push_bit b y)) ys' in (x, y' # ys)))
         else (x, y # ys))
      else (let (x, ys) = slide_window n (b + 1) x ys in (x, y # ys)))"

lemma length_slide_carry [simp]: "length (slide_carry xs) = length xs"
  by (induction xs) simp_all

lemma length_slide_window [simp]: "length (snd (slide_window n b x ys)) = length ys"
proof (induction n b x ys rule: slide_window.induct)
  case (3 n b x y ys)
  have "length (slide_carry (y # ys)) = Suc (length ys)" by (rule trans [OF length_slide_carry]) simp
  then obtain y' ys' where "slide_carry (y # ys) = y' # ys'" and "length ys' = length ys"
    by (cases "slide_carry (y # ys)") simp_all
  with 3 show ?case by (auto simp del: slide_carry.simps split: prod.splits list.splits)
qed simp_all

function slide_positions :: "int list \<Rightarrow> int list" where
  "slide_positions [] = []"
| "slide_positions (x # xs) =
     (if x \<noteq> 0 then (let (x, ys) = slide_window 6 1 x xs in x # slide_positions ys)
      else x # slide_positions xs)"
  by pat_completeness auto
termination
proof (relation "measure length")
  fix x xs and p :: "int \<times> int list" and x' ys
  assume "p = slide_window 6 1 x xs" and "(x', ys) = p"
  then have "ys = snd (slide_window 6 1 x xs)" by (metis snd_conv)
  then show "(ys, x # xs) \<in> measure length" by simp
qed simp_all

definition slide :: "bytes \<Rightarrow> int list" where
  "slide a = slide_positions (slide_bits a)"

subsection \<open>Two scalars at once\<close>

definition ge_dsm_precomp :: "ge_p3 \<Rightarrow> ge_cached list" where
  "ge_dsm_precomp s =
     (let s2 = ge_p1p1_to_p3 (ge_p3_dbl s)
      in cached_multiples 7 s2 (ge_p3_to_cached s))"

text \<open>The table lookups \<open>Ai[aslide[i]/2]\<close> and \<open>Ai[(-aslide[i])/2]\<close>; \<open>/\<close> rounds towards zero.\<close>

definition dsm_add :: "ge_cached list \<Rightarrow> int \<Rightarrow> ge_p1p1 \<Rightarrow> ge_p1p1" where
  "dsm_add Ai d t =
     (if 0 < d then ge_add (ge_p1p1_to_p3 t) (Ai ! nat (d div 2))
      else if d < 0 then ge_sub (ge_p1p1_to_p3 t) (Ai ! nat (- d div 2))
      else t)"

definition dsm_madd :: "ge_precomp list \<Rightarrow> int \<Rightarrow> ge_p1p1 \<Rightarrow> ge_p1p1" where
  "dsm_madd Bi d t =
     (if 0 < d then ge_madd (ge_p1p1_to_p3 t) (Bi ! nat (d div 2))
      else if d < 0 then ge_msub (ge_p1p1_to_p3 t) (Bi ! nat (- d div 2))
      else t)"

text \<open>\<open>for (i = 255; i >= 0; --i) if (aslide[i] || bslide[i]) break;\<close> then the digits downwards.\<close>

definition dsm_digits :: "int list \<Rightarrow> int list \<Rightarrow> (int \<times> int) list" where
  "dsm_digits as bs = dropWhile (\<lambda>(a, b). a = 0 \<and> b = 0) (rev (zip as bs))"

definition ge_double_scalarmult_precomp_vartime :: "bytes \<Rightarrow> ge_p3 \<Rightarrow> bytes \<Rightarrow> ge_cached list \<Rightarrow> ge_p2" where
  "ge_double_scalarmult_precomp_vartime a A b Bi =
     (let Ai = ge_dsm_precomp A
      in fold (\<lambda>(d, e) r. ge_p1p1_to_p2 (dsm_add Bi e (dsm_add Ai d (ge_p2_dbl r))))
           (dsm_digits (slide a) (slide b)) ge_p2_0)"

definition double_scalarmult_table :: "ge_precomp list \<Rightarrow> bytes \<Rightarrow> ge_p3 \<Rightarrow> bytes \<Rightarrow> ge_p2" where
  "double_scalarmult_table Bi a A b =
     (let Ai = ge_dsm_precomp A
      in fold (\<lambda>(d, e) r. ge_p1p1_to_p2 (dsm_madd Bi e (dsm_add Ai d (ge_p2_dbl r))))
           (dsm_digits (slide a) (slide b)) ge_p2_0)"

subsection \<open>The recodings keep the value\<close>

fun radix16 :: "int list \<Rightarrow> int" where
  "radix16 [] = 0"
| "radix16 (d # ds) = d + 16 * radix16 ds"

lemma int8_id: "- 128 \<le> x \<Longrightarrow> x \<le> 127 \<Longrightarrow> int8 x = x"
  unfolding int8_def by (rule signed_take_bit_int_eq_self) simp_all

lemma uint_u8: "0 \<le> uint (a :: u8) \<and> uint a \<le> 255"
  using uint_bounded [of a] by simp

lemma recode16_digits:
  "as \<noteq> [] \<Longrightarrow> uint (last as) \<le> 127 \<Longrightarrow> 0 \<le> c \<Longrightarrow> c \<le> 1 \<Longrightarrow>
    radix16 (recode16 c as) = int (le_nat as) + c \<and> length (recode16 c as) = 2 * length as \<and>
    (\<forall>d \<in> set (recode16 c as). - 8 \<le> d \<and> d \<le> 8)"
proof (induction c as rule: recode16.induct)
  case (2 c a)
  define s where "s = c + uint a"
  define q where "q = (s + 8) div 16"
  have s: "0 \<le> s" "s \<le> 128" using 2 uint_u8 [of a] by (simp_all add: s_def)
  have q: "16 * q \<le> s + 8" "s + 8 < 16 * q + 16" "0 \<le> q" "q \<le> 8" using s unfolding q_def by linarith+
  have e: "recode16 c [a] = [s - 16 * q, q]"
    using q by (simp add: Let_def drop_bit_eq_div push_bit_eq_mult int8_id mult.commute flip: s_def q_def)
  show ?case unfolding e using q by (simp add: s_def)
next
  case (3 c a b as)
  define s where "s = c + uint a"
  define q where "q = (s + 8) div 16"
  define r where "r = (q + 8) div 16"
  have s: "0 \<le> s" "s \<le> 256" using 3 uint_u8 [of a] by (simp_all add: s_def)
  have q: "16 * q \<le> s + 8" "s + 8 < 16 * q + 16" "0 \<le> q" "q \<le> 16" using s unfolding q_def by linarith+
  have r: "16 * r \<le> q + 8" "q + 8 < 16 * r + 16" "0 \<le> r" "r \<le> 1" using q unfolding r_def by linarith+
  have e: "recode16 c (a # b # as) = (s - 16 * q) # (q - 16 * r) # recode16 r (b # as)"
    using q r by (simp add: Let_def drop_bit_eq_div push_bit_eq_mult int8_id mult.commute flip: s_def q_def r_def)
  have ih: "radix16 (recode16 r (b # as)) = int (le_nat (b # as)) + r" "length (recode16 r (b # as)) = 2 * length (b # as)"
    "\<forall>d \<in> set (recode16 r (b # as)). - 8 \<le> d \<and> d \<le> 8"
    using "3.IH" [OF refl refl refl refl refl] 3 r
    by (simp_all add: drop_bit_eq_div push_bit_eq_mult flip: s_def q_def r_def)
  have "radix16 (recode16 c (a # b # as)) = s + 256 * int (le_nat (b # as))"
    unfolding e radix16.simps ih(1) by (simp only: distrib_left) simp
  also have "\<dots> = int (le_nat (a # b # as)) + c" by (simp add: s_def)
  finally show ?case unfolding e using q r ih(2,3) by simp
qed simp

lemma carry_nibbles_digits:
  "es \<noteq> [] \<Longrightarrow> \<forall>e \<in> set es. 0 \<le> e \<and> e \<le> 15 \<Longrightarrow> last es \<le> 7 \<Longrightarrow> 0 \<le> c \<Longrightarrow> c \<le> 1 \<Longrightarrow>
    radix16 (carry_nibbles c es) = radix16 es + c \<and> length (carry_nibbles c es) = length es \<and>
    (\<forall>d \<in> set (carry_nibbles c es). - 8 \<le> d \<and> d \<le> 8)"
proof (induction c es rule: carry_nibbles.induct)
  case (3 c e e' es)
  define s where "s = e + c"
  define q where "q = (s + 8) div 16"
  have s: "0 \<le> s" "s \<le> 16" using 3 by (simp_all add: s_def)
  have q: "16 * q \<le> s + 8" "s + 8 < 16 * q + 16" "0 \<le> q" "q \<le> 1" using s unfolding q_def by linarith+
  have i: "int8 s = s" "int8 (s + 8) = s + 8" "int8 (s - 16 * q) = s - 16 * q" using s q by (simp_all add: int8_id)
  have e: "carry_nibbles c (e # e' # es) = (s - 16 * q) # carry_nibbles q (e' # es)"
    using i by (simp add: Let_def drop_bit_eq_div push_bit_eq_mult mult.commute flip: s_def q_def)
  have ih: "radix16 (carry_nibbles q (e' # es)) = radix16 (e' # es) + q" "length (carry_nibbles q (e' # es)) = length (e' # es)"
    "\<forall>d \<in> set (carry_nibbles q (e' # es)). - 8 \<le> d \<and> d \<le> 8"
    using "3.IH" [OF refl refl refl refl] 3 q i
    by (simp_all add: drop_bit_eq_div push_bit_eq_mult flip: s_def q_def)
  have "radix16 (carry_nibbles c (e # e' # es)) = s + 16 * radix16 (e' # es)"
    unfolding e radix16.simps(2) [of "s - 16 * q"] ih(1) by (simp only: distrib_left)
  then show ?case unfolding e using q ih(2,3) by (simp add: s_def)
qed (auto simp: int8_id)

lemma nibble_low: "uint (b AND 15) = uint b mod 16" for b :: u8
proof -
  have "unat (b AND 15) = unat b mod 16" using unat_and_low [of b 4] by simp
  then show ?thesis unfolding uint_nat by (simp add: of_nat_mod)
qed

lemma nibble_high: "uint (drop_bit 4 b AND 15) = uint b div 16" for b :: u8
proof -
  have "unat (drop_bit 4 b AND 15) = unat b div 16 mod 16" using unat_and_low [of "drop_bit 4 b" 4] by (simp add: unat_drop_bit)
  also have "\<dots> = unat b div 16" using unat_le_255 [of b] by simp
  finally show ?thesis unfolding uint_nat by (simp add: of_nat_div)
qed

lemma nibble_top: "uint (drop_bit 4 b) mod 16 = uint b div 16" for b :: u8
  using nibble_high [of b] nibble_low [of "drop_bit 4 b"] by simp

lemma nibbles_value:
  "radix16 (nibbles a) = int (le_nat a) \<and> length (nibbles a) = 2 * length a \<and> (\<forall>e \<in> set (nibbles a). 0 \<le> e \<and> e \<le> 15)"
proof (induction a)
  case (Cons b a)
  have e: "nibbles (b # a) = (uint b mod 16) # (uint b div 16) # nibbles a"
    by (simp add: nibbles_def nibble_low nibble_top)
  have "uint b mod 16 + 16 * (uint b div 16) = uint b" by simp
  moreover have "uint b div 16 \<le> 15" "0 \<le> uint b div 16" using uint_u8 [of b] by linarith+
  ultimately show ?case using Cons unfolding e by simp
qed (simp add: nibbles_def)

subsection \<open>Sliding windows keep the value\<close>

fun bin_val :: "int list \<Rightarrow> int" where
  "bin_val [] = 0"
| "bin_val (x # xs) = x + 2 * bin_val xs"

definition bits01 :: "int list \<Rightarrow> bool" where
  "bits01 xs \<longleftrightarrow> (\<forall>x \<in> set xs. x = 0 \<or> x = 1)"

lemma bin_val_range: "bits01 xs \<Longrightarrow> 0 \<le> bin_val xs \<and> bin_val xs < 2 ^ length xs"
  by (induction xs) (auto simp: bits01_def)

lemma slide_carry_val:
  "bits01 xs \<Longrightarrow> bin_val xs + 1 < 2 ^ length xs \<Longrightarrow>
    bits01 (slide_carry xs) \<and> bin_val (slide_carry xs) = bin_val xs + 1"
  by (induction xs) (auto simp: bits01_def)

text \<open>From a distance of 5 on, nothing fits in the window.\<close>

lemma slide_window_far:
  "5 \<le> b \<Longrightarrow> - 15 \<le> x \<Longrightarrow> x \<le> 15 \<Longrightarrow> bits01 ys \<Longrightarrow> slide_window n b x ys = (x, ys)"
proof (induction n b x ys rule: slide_window.induct)
  case (3 n b x y ys)
  have "(32 :: int) \<le> 2 ^ b" using power_increasing [of 5 b "2 :: int"] 3 by simp
  moreover have "y = 0 \<or> y = 1" using 3 by (simp add: bits01_def)
  ultimately show ?case using 3 by (auto simp: bits01_def push_bit_eq_mult)
qed simp_all

lemma odd_minus_16: "odd x \<Longrightarrow> odd (x - 16)" for x :: int
  by simp

lemma window_bound: "v < P \<Longrightarrow> 0 < P \<Longrightarrow> 2 * (1 + 2 * v) + 2 \<le> 4 * P \<and> 1 + 2 * v + 1 < 4 * P" for v P :: int
  by presburger

lemma slide_window_val:
  "1 \<le> b \<Longrightarrow> b \<le> 4 \<Longrightarrow> 0 < x \<Longrightarrow> x < 2 ^ b \<Longrightarrow> odd x \<Longrightarrow> bits01 ys \<Longrightarrow>
    2 * (x + 2 ^ b * bin_val ys) < 2 ^ (b + length ys) \<or> ys = [] \<Longrightarrow>
    (case slide_window n b x ys of (x', ys') \<Rightarrow>
      x' + 2 ^ b * bin_val ys' = x + 2 ^ b * bin_val ys \<and> odd x' \<and> - 15 \<le> x' \<and> x' \<le> 15 \<and>
      bits01 ys' \<and> 2 * bin_val ys' \<le> 2 ^ length ys' \<and> length ys' = length ys)"
proof (induction n b x ys rule: slide_window.induct)
  case (1 b x ys)
  have "x \<le> 15" using 1 power_increasing [of b 4 "2 :: int"] by simp
  moreover have "2 * bin_val ys \<le> 2 ^ length ys"
  proof (cases ys)
    case (Cons y zs)
    then have "2 ^ b * (2 * bin_val ys) < 2 ^ b * 2 ^ length ys" using 1 by (simp add: power_add algebra_simps)
    then show ?thesis by simp
  qed simp
  ultimately show ?case using 1 by simp
next
  case (2 n b x)
  have "x \<le> 15" using 2 power_increasing [of b 4 "2 :: int"] by simp
  then show ?case using 2 by simp
next
  case (3 n b x y ys)
  have b01: "bits01 ys" "y = 0 \<or> y = 1" using 3 by (simp_all add: bits01_def)
  have lt: "2 * (x + 2 ^ b * (y + 2 * bin_val ys)) < 2 * (2 ^ b * 2 ^ length ys)" using 3 by (simp add: power_add)
  have p16: "(2 :: int) ^ b \<le> 16" using power_increasing [of b 4 "2 :: int"] 3 by simp
  have even_b: "even ((2 :: int) ^ b)" using 3 by simp
  have next_lt: "2 * (x' + 2 ^ (b + 1) * bin_val ys) < 2 ^ (b + 1 + length ys) \<or> ys = []"
    if "x' = x + 2 ^ b * y" for x'
    using lt that by (simp add: power_add algebra_simps)
  have far: "slide_window n (b + 1) z zs = (z, zs)" if "b = 4" "- 15 \<le> z" "z \<le> 15" "bits01 zs" for z zs
    using that by (intro slide_window_far) simp_all
  have tail: "2 * bin_val ys \<le> 2 ^ length ys"
  proof -
    have "x + 2 ^ b * (y + 2 * bin_val ys) < 2 ^ b * 2 ^ length ys" using lt by (simp only: mult_less_cancel_left_pos zero_less_numeral)
    then have "2 ^ b * (y + 2 * bin_val ys) < 2 ^ b * 2 ^ length ys"
      by (rule order_less_trans [rotated]) (use \<open>0 < x\<close> in simp)
    then have "y + 2 * bin_val ys < 2 ^ length ys" by simp
    then show ?thesis using b01(2) by auto
  qed
  show ?case
  proof (cases "y = 0")
    case True
    have split: "slide_window (Suc n) b x (y # ys) = (fst (slide_window n (b + 1) x ys), y # snd (slide_window n (b + 1) x ys))"
      using True by (simp add: split_beta)
    show ?thesis
    proof (cases "b = 4")
      case b4: True
      have "x \<le> 15" using 3 b4 by simp
      then have "slide_window n (b + 1) x ys = (x, ys)" using far [OF b4, of x ys] 3 b01 by simp
      then show ?thesis unfolding split using True 3 b01 tail \<open>x \<le> 15\<close> by (simp add: bits01_def)
    next
      case False
      have "x < 2 ^ (b + 1)" using 3 by simp
      then have "case slide_window n (b + 1) x ys of (x', ys') \<Rightarrow>
        x' + 2 ^ (b + 1) * bin_val ys' = x + 2 ^ (b + 1) * bin_val ys \<and> odd x' \<and> - 15 \<le> x' \<and> x' \<le> 15 \<and>
        bits01 ys' \<and> 2 * bin_val ys' \<le> 2 ^ length ys' \<and> length ys' = length ys"
        using "3.IH"(3) [OF _ _ _ \<open>0 < x\<close>] True False 3 b01 next_lt [of x] by simp
      then show ?thesis unfolding split using True by (auto simp: split_beta bits01_def algebra_simps)
    qed
  next
    case False
    then have y: "y = 1" using b01 by simp
    show ?thesis
    proof (cases "b = 4")
      case b4: True
      have x: "1 \<le> x" "x \<le> 15" using 3 b4 by simp_all
      have nonempty: "bin_val (y # ys) + 1 < 2 ^ length (y # ys)" and half: "2 * (bin_val (y # ys) + 1) \<le> 2 ^ length (y # ys)"
      proof -
        have A: "1 + 2 * bin_val ys < 2 ^ length ys" using lt x unfolding y b4 by simp
        then have "ys \<noteq> []" by auto
        then obtain m where m: "length ys = Suc m" by (cases ys) auto
        have "2 * bin_val ys < 2 * 2 ^ m" using A unfolding m by simp
        then have "bin_val ys < 2 ^ m" by simp
        then have "2 * (1 + 2 * bin_val ys) + 2 \<le> 4 * 2 ^ m \<and> 1 + 2 * bin_val ys + 1 < 4 * 2 ^ m"
          by (rule window_bound) simp
        then show "bin_val (y # ys) + 1 < 2 ^ length (y # ys)" "2 * (bin_val (y # ys) + 1) \<le> 2 ^ length (y # ys)"
          by (simp_all add: m y)
      qed
      have bits: "bits01 (y # ys)" using 3 by simp
      have head: "slide_carry (y # ys) = 0 # slide_carry ys" by (simp add: y)
      note sc = slide_carry_val [OF bits nonempty, unfolded head]
      have bs: "bits01 (slide_carry ys)" using sc by (simp add: bits01_def)
      have fx: "slide_window n (b + 1) (x - 16) (slide_carry ys) = (x - 16, slide_carry ys)"
        using far [OF b4 _ _ bs, of "x - 16"] x by simp
      have i8: "int8 (x - 16) = x - 16" using x by (intro int8_id) simp_all
      have "slide_window (Suc n) b x (y # ys) = (x - 16, 0 # slide_carry ys)"
        using fx i8 x b4 by (simp add: y push_bit_eq_mult)
      moreover have "bin_val (0 # slide_carry ys) = bin_val (y # ys) + 1" using sc by blast
      ultimately show ?thesis
        using x sc half odd_minus_16 [of x] 3 b4 by (simp add: head algebra_simps del: bin_val.simps slide_carry.simps)
    next
      case b3: False
      then have b3: "b \<le> 3" using 3 by simp
      have "(2 :: int) ^ (b + 1) \<le> 16" using power_increasing [of "b + 1" 4 "2 :: int"] b3 by simp
      then have le: "x + 2 ^ b \<le> 15" and lt2: "x + 2 ^ b < 2 ^ (b + 1)" using 3 by simp_all
      have i8: "int8 (x + 2 ^ b) = x + 2 ^ b" using le 3 by (intro int8_id) simp_all
      have split: "slide_window (Suc n) b x (y # ys) =
          (fst (slide_window n (b + 1) (x + 2 ^ b) ys), 0 # snd (slide_window n (b + 1) (x + 2 ^ b) ys))"
        using le i8 by (simp add: y push_bit_eq_mult split_beta)
      have "case slide_window n (b + 1) (x + 2 ^ b) ys of (x', ys') \<Rightarrow>
        x' + 2 ^ (b + 1) * bin_val ys' = x + 2 ^ b + 2 ^ (b + 1) * bin_val ys \<and> odd x' \<and> - 15 \<le> x' \<and> x' \<le> 15 \<and>
        bits01 ys' \<and> 2 * bin_val ys' \<le> 2 ^ length ys' \<and> length ys' = length ys"
        using "3.IH"(1) [unfolded y push_bit_eq_mult mult_1_left i8] le lt2 3 b01 b3 even_b next_lt [of "x + 2 ^ b"]
        by (simp add: y)
      then show ?thesis unfolding split by (auto simp: y split_beta bits01_def algebra_simps)
    qed
  qed
qed

definition window_digit :: "int \<Rightarrow> bool" where
  "window_digit d \<longleftrightarrow> d = 0 \<or> (odd d \<and> - 15 \<le> d \<and> d \<le> 15)"

lemma slide_positions_val:
  "bits01 xs \<Longrightarrow> 2 * bin_val xs \<le> 2 ^ length xs \<Longrightarrow>
    bin_val (slide_positions xs) = bin_val xs \<and> length (slide_positions xs) = length xs \<and>
    (\<forall>d \<in> set (slide_positions xs). window_digit d)"
proof (induction xs rule: slide_positions.induct)
  case (2 x xs)
  have b: "bits01 xs" "x = 0 \<or> x = 1" using 2 by (simp_all add: bits01_def)
  have le: "2 * (x + 2 * bin_val xs) \<le> 2 * 2 ^ length xs" using 2 by simp
  show ?case
  proof (cases "x = 0")
    case True
    then show ?thesis using "2.IH"(2) 2 b le by (simp add: window_digit_def)
  next
    case False
    then have x: "x = 1" using b by simp
    obtain x' ys where w: "slide_window 6 1 x xs = (x', ys)" by fastforce
    have "2 * (x + 2 ^ 1 * bin_val xs) < 2 ^ (1 + length xs) \<or> xs = []"
    proof (cases xs)
      case (Cons z zs)
      then have "even ((2 :: int) ^ length xs)" by simp
      then obtain k where k: "(2 :: int) ^ length xs = 2 * k" by (rule evenE)
      have "1 + 2 * bin_val xs < 2 * k" using le k x by presburger
      then show ?thesis using k x by simp
    qed simp
    then have v: "x' + 2 * bin_val ys = x + 2 * bin_val xs" "odd x'" "- 15 \<le> x'" "x' \<le> 15"
      "bits01 ys" "2 * bin_val ys \<le> 2 ^ length ys" "length ys = length xs"
      using slide_window_val [of 1 x xs 6, unfolded w] b by (auto simp: x)
    have e: "slide_positions (x # xs) = x' # slide_positions ys" using False w by simp
    have "bin_val (slide_positions ys) = bin_val ys \<and> length (slide_positions ys) = length ys \<and>
        (\<forall>d \<in> set (slide_positions ys). window_digit d)"
      using "2.IH"(1) [OF _ refl w [symmetric] v(5,6)] False by simp
    then show ?thesis unfolding e using v by (simp add: window_digit_def)
  qed
qed simp

lemma bin_val_bits: "bin_val (map (\<lambda>i. of_bool (bit N i)) [0..<n]) = int (take_bit n N)"
proof (induction n arbitrary: N)
  case (Suc n)
  have e: "map (\<lambda>i. of_bool (bit N i)) [0..<Suc n] = of_bool (bit N 0) # map (\<lambda>i. of_bool (bit (N div 2) i)) [0..<n]"
    by (simp add: upt_conv_Cons map_Suc_upt [symmetric] bit_Suc del: upt_Suc)
  have b: "of_bool (bit N 0) = int (N mod 2)" by (simp add: bit_0 mod_2_eq_odd)
  show ?case unfolding e bin_val.simps b Suc [of "N div 2"]
    by (simp only: take_bit_Suc of_nat_add of_nat_mult of_nat_numeral mult.commute add.commute)
qed simp

lemma bit_le_nat: "i < 8 * length a \<Longrightarrow> bit (le_nat a) i \<longleftrightarrow> bit (a ! (i div 8)) (i mod 8)"
proof -
  assume i: "i < 8 * length a"
  let ?k = "i div 8"
  have k: "?k < length a" using i by linarith
  have "le_nat (drop ?k a) = le_nat a div 256 ^ ?k" by (rule le_nat_drop)
  moreover have "drop ?k a = a ! ?k # drop (Suc ?k) a" by (rule Cons_nth_drop_Suc [OF k, symmetric])
  ultimately have d: "le_nat a div 2 ^ (8 * ?k) = unat (a ! ?k) + 256 * le_nat (drop (Suc ?k) a)"
    by (simp add: power_mult)
  have "bit (le_nat a) i = bit (drop_bit (8 * ?k) (le_nat a)) (i mod 8)"
    by (simp add: bit_drop_bit_eq)
  also have "drop_bit (8 * ?k) (le_nat a) = unat (a ! ?k) + 256 * le_nat (drop (Suc ?k) a)"
    unfolding drop_bit_eq_div by (rule d)
  also have "bit (unat (a ! ?k) + 256 * le_nat (drop (Suc ?k) a)) (i mod 8) =
      bit (take_bit 8 (unat (a ! ?k) + 256 * le_nat (drop (Suc ?k) a))) (i mod 8)"
    by (simp add: bit_take_bit_iff)
  also have "take_bit 8 (unat (a ! ?k) + 256 * le_nat (drop (Suc ?k) a)) = unat (a ! ?k)"
    using unat_le_255 [of "a ! ?k"] by (simp add: take_bit_eq_mod)
  also have "bit (unat (a ! ?k)) (i mod 8) = bit (a ! ?k) (i mod 8)" by (simp add: bit_unsigned_iff)
  finally show ?thesis .
qed

lemma slide_bits_val:
  assumes "length a = 32"
  shows "bin_val (slide_bits a) = int (le_nat a)" and "bits01 (slide_bits a)" and "length (slide_bits a) = 256"
proof -
  have m: "uint (1 AND drop_bit (i mod 8) (a ! (i div 8))) = of_bool (bit (le_nat a) i)" if "i < 256" for i
  proof -
    have "1 AND drop_bit (i mod 8) (a ! (i div 8)) = of_bool (bit (a ! (i div 8)) (i mod 8))"
      by (simp only: one_and_eq mod_2_eq_odd bit_iff_odd_drop_bit)
    moreover have "bit (a ! (i div 8)) (i mod 8) = bit (le_nat a) i"
      by (rule bit_le_nat [symmetric]) (use that assms in simp)
    ultimately show ?thesis by simp
  qed
  then have e: "slide_bits a = map (\<lambda>i. of_bool (bit (le_nat a) i)) [0..<256]"
    unfolding slide_bits_def by (intro map_cong refl) simp
  have "le_nat a < 2 ^ 256" using le_nat_32 [OF assms] .
  then show "bin_val (slide_bits a) = int (le_nat a)"
    unfolding e bin_val_bits by (simp only: take_bit_nat_eq_self)
  show "bits01 (slide_bits a)" unfolding e bits01_def by (auto split: if_splits)
  show "length (slide_bits a) = 256" unfolding e by simp
qed

lemma slide_val:
  assumes "length a = 32" and "le_nat a \<le> 2 ^ 255"
  shows "bin_val (slide a) = int (le_nat a)" and "length (slide a) = 256" and "\<forall>d \<in> set (slide a). window_digit d"
proof -
  note b = slide_bits_val [OF assms(1)]
  have "int (le_nat a) \<le> 2 ^ 255" using assms(2) by (metis of_nat_le_iff of_nat_numeral of_nat_power)
  then have "2 * bin_val (slide_bits a) \<le> 2 ^ length (slide_bits a)" using b by simp
  from slide_positions_val [OF b(2) this] b
  show "bin_val (slide a) = int (le_nat a)" and "length (slide a) = 256" and "\<forall>d \<in> set (slide a). window_digit d"
    by (simp_all add: slide_def)
qed

subsection \<open>Selection is a lookup\<close>

lemma uint_drop: "uint (drop_bit n w) = uint w div 2 ^ n" for w :: "'a::len word"
  by transfer (simp add: take_bit_drop_bit flip: drop_bit_eq_div)

lemma xor_zero: "b XOR c = 0 \<Longrightarrow> b = c" for b c :: u8
proof -
  assume "b XOR c = 0"
  then have "(b XOR c) XOR c = 0 XOR c" by (rule arg_cong)
  then show "b = c" by (simp add: xor.assoc)
qed

lemma equal_char_of_bool: "equal_char b c = of_bool (b = c)"
proof (cases "b = c")
  case True
  then show ?thesis by (simp add: equal_char_def)
next
  case False
  define x where "x = b XOR c"
  have "x \<noteq> 0" using False xor_zero unfolding x_def by blast
  then have x: "1 \<le> uint x" "uint x \<le> 255" using uint_u8 [of x] uint_0_iff [of x] by linarith+
  have u: "uint (ucast x :: u32) = uint x" unfolding unsigned_ucast_eq using x by (intro take_bit_int_eq_self) simp_all
  have "uint (ucast x - 1 :: u32) = uint x - 1"
    unfolding uint_word_ariths u using x by simp
  then have "uint (drop_bit 31 (ucast x - 1 :: u32)) = 0"
    using x unfolding uint_drop by simp
  then have "drop_bit 31 (ucast x - 1 :: u32) = 0" by (simp add: word_uint_eq_iff)
  then show ?thesis using False by (simp add: equal_char_def flip: x_def)
qed

lemma negative_char_of_bool: "- 128 \<le> b \<Longrightarrow> b \<le> 127 \<Longrightarrow> negative_char b = of_bool (b < 0)"
proof -
  assume b: "- 128 \<le> b" "b \<le> 127"
  have "uint (word_of_int b :: u64) = (if b < 0 then b + 2 ^ 64 else b)"
  proof (cases "b < 0")
    case True
    have "b mod 18446744073709551616 = (b + 18446744073709551616) mod 18446744073709551616" by simp
    also have "\<dots> = b + 18446744073709551616" by (rule mod_pos_pos_trivial) (use b True in simp_all)
    finally show ?thesis using True by (simp add: uint_word_of_int)
  next
    case False
    then show ?thesis using b by (simp add: uint_word_of_int)
  qed
  moreover have "(b + 2 ^ 64) div 2 ^ 63 = 1" if "b < 0" using that b by (intro int_div_pos_eq [of _ _ _ "b + 2 ^ 63"]) simp_all
  ultimately have "uint (drop_bit 63 (word_of_int b :: u64)) = of_bool (b < 0)"
    using b unfolding uint_drop by simp
  then have "drop_bit 63 (word_of_int b :: u64) = of_bool (b < 0)" by (simp add: word_uint_eq_iff)
  then show ?thesis by (simp add: negative_char_def)
qed

lemma abs_char_abs: "- 128 \<le> b \<Longrightarrow> b \<le> 127 \<Longrightarrow> abs_char b = word_of_int \<bar>b\<bar>"
  by (simp add: abs_char_def negative_char_of_bool push_bit_eq_mult)

text \<open>A conditional move whose flag is 0 or 1, and a negation that its operands allow.\<close>

locale cond_move =
  fixes cmov :: "'a \<Rightarrow> 'a \<Rightarrow> u8 \<Rightarrow> 'a option" and ok :: "'a \<Rightarrow> bool" and negate :: "'a \<Rightarrow> 'a"
  assumes keep: "ok t \<Longrightarrow> ok u \<Longrightarrow> cmov t u 0 = Some t"
    and take_new: "ok t \<Longrightarrow> ok u \<Longrightarrow> cmov t u 1 = Some u"
    and negate_ok: "ok t \<Longrightarrow> ok (negate t)"
begin

lemma row_lookup:
  "ok t \<Longrightarrow> \<forall>u \<in> set us. ok u \<Longrightarrow> j + size us \<le> 255 \<Longrightarrow>
    cmov_row cmov b j us t =
      Some (if j < unat b \<and> unat b \<le> j + size us then us ! (unat b - j - 1) else t)"
proof (induction us arbitrary: j t)
  case (Cons u us)
  have c: "cmov t u (equal_char b (of_nat (j + 1))) = Some (if unat b = j + 1 then u else t)"
  proof -
    have "unat (of_nat (j + 1) :: u8) = j + 1" using Cons.prems unfolding unat_of_nat by simp
    then have "b = of_nat (j + 1) \<longleftrightarrow> unat b = j + 1" by (metis unat_eq_nat_uint word_unat_eq_iff)
    then show ?thesis using Cons.prems by (simp add: equal_char_of_bool keep take_new del: of_nat_add of_nat_Suc)
  qed
  have "cmov_row cmov b (j + 1) us (if unat b = j + 1 then u else t) =
      Some (if j + 1 < unat b \<and> unat b \<le> j + 1 + size us then us ! (unat b - (j + 1) - 1) else if unat b = j + 1 then u else t)"
    by (rule Cons.IH) (use Cons.prems in auto)
  then show ?case using c by (auto simp: nth_Cons' Suc_le_eq)
qed auto

lemma select_lookup:
  assumes "ok e" and "\<forall>u \<in> set row. ok u" and "size row = 8" and "- 8 \<le> b" and "b \<le> 8"
  shows "Option.bind (cmov_row cmov (abs_char b) 0 row e) (\<lambda>t. cmov t (negate t) (negative_char b)) =
    Some (if b = 0 then e else if 0 < b then row ! nat (b - 1) else negate (row ! nat (- b - 1)))"
proof -
  have n: "unat (abs_char b) = nat \<bar>b\<bar>" using assms(4,5) by (simp add: abs_char_abs unat_eq_nat_uint uint_word_of_int)
  have r: "cmov_row cmov (abs_char b) 0 row e = Some (if b = 0 then e else row ! nat (\<bar>b\<bar> - 1))"
    using row_lookup [OF assms(1,2), of 0 "abs_char b"] assms(3-5) by (auto simp: n nat_diff_distrib' le_nat_iff)
  have o: "ok (row ! nat (\<bar>b\<bar> - 1))" if "b \<noteq> 0" using that assms(2-5) by (intro bspec [OF assms(2)] nth_mem) auto
  show ?thesis unfolding r using assms(1,4,5) o
    by (auto simp: negative_char_of_bool keep take_new negate_ok)
qed

end

definition fe_fits :: "fe \<Rightarrow> bool" where
  "fe_fits f \<longleftrightarrow> fe_bounded 202 f"

definition cached_fits :: "ge_cached \<Rightarrow> bool" where
  "cached_fits c \<longleftrightarrow> fe_fits (c_YplusX c) \<and> fe_fits (c_YminusX c) \<and> fe_fits (c_Z c) \<and> fe_fits (c_T2d c)"

definition precomp_fits :: "ge_precomp \<Rightarrow> bool" where
  "precomp_fits c \<longleftrightarrow> fe_fits (yplusx c) \<and> fe_fits (yminusx c) \<and> fe_fits (xy2d c)"

definition cached_negate :: "ge_cached \<Rightarrow> ge_cached" where
  "cached_negate c = \<lparr>c_YplusX = fe_copy (c_YminusX c), c_YminusX = fe_copy (c_YplusX c), c_Z = fe_copy (c_Z c),
     c_T2d = fe_neg (c_T2d c)\<rparr>"

definition precomp_negate :: "ge_precomp \<Rightarrow> ge_precomp" where
  "precomp_negate c = \<lparr>yplusx = fe_copy (yminusx c), yminusx = fe_copy (yplusx c), xy2d = fe_neg (xy2d c)\<rparr>"

lemma fe_fits_limbs: "fe_fits f \<Longrightarrow> \<forall>x \<in> set f. fits32 x"
proof
  fix x
  assume "fe_fits f" and "x \<in> set f"
  then obtain i where "i < 10" "x = f ! i" "\<bar>f ! i\<bar> \<le> fe_limit 202 i"
    by (auto simp: fe_fits_def fe_bounded_def in_set_conv_nth)
  moreover have "fe_limit 202 i \<le> 2013265920" by (rule fe_limit_fits) simp
  ultimately show "fits32 x" by (simp add: fits32_def abs_le_iff)
qed

lemma fe_fits_cmov: "fe_fits f \<Longrightarrow> fe_fits g \<Longrightarrow> fe_cmov f g 0 = Some f \<and> fe_cmov f g 1 = Some g"
  using fe_cmov_select [of f g] fe_fits_limbs [of f] fe_fits_limbs [of g] by (simp add: fe_fits_def fe_bounded_def)

lemma fe_fits_neg: "fe_fits f \<Longrightarrow> fe_fits (fe_neg f)" "fe_fits f \<Longrightarrow> fe_fits (fe_copy f)"
  using fe_neg_is [OF fe_is_bounded, of 202 f] fe_copy_is [OF fe_is_bounded, of 202 f] by (simp_all add: fe_fits_def fe_is_def fe_bounded_def)

interpretation cached_move: cond_move ge_cached_cmov cached_fits cached_negate
  by unfold_locales
    (simp_all add: ge_cached_cmov_def cached_fits_def cached_negate_def fe_fits_cmov fe_fits_neg)

interpretation precomp_move: cond_move ge_precomp_cmov precomp_fits precomp_negate
  by unfold_locales
    (simp_all add: ge_precomp_cmov_def precomp_fits_def precomp_negate_def fe_fits_cmov fe_fits_neg)

subsection \<open>Multiples of points\<close>

text \<open>
  \<open>lincomb P Q m n R\<close>: the point \<open>R\<close>, in extended coordinates modulo \<open>2 ^ 255 - 19\<close>, is built from \<open>P\<close>, \<open>Q\<close>
  and the neutral point by Edwards' additions, doublings and negations, in such a way that \<open>P\<close> counts
  \<open>m\<close> times and \<open>Q\<close> counts \<open>n\<close> times; coordinates may be replaced by congruent ones and multiplied
  by a common invertible factor.
\<close>

type_synonym ext = "int \<times> int \<times> int \<times> int"

fun ext_of_completed :: "int \<Rightarrow> int \<Rightarrow> int \<Rightarrow> int \<Rightarrow> ext" where
  "ext_of_completed e h g f = (e * f, h * g, g * f, e * h)"

fun ext_add :: "ext \<Rightarrow> ext \<Rightarrow> ext" where
  "ext_add (x1, y1, z1, t1) (x2, y2, z2, t2) =
     ext_of_completed (2 * (x1 * y2 + y1 * x2)) (2 * (y1 * y2 + x1 * x2))
       (2 * (z1 * z2 + curve_d * t1 * t2)) (2 * (z1 * z2 - curve_d * t1 * t2))"

fun ext_dbl :: "ext \<Rightarrow> ext" where
  "ext_dbl (x, y, z, t) =
     ext_of_completed (2 * (x * y)) (y * y + x * x) (y * y - x * x) (2 * (z * z) - (y * y - x * x))"

fun ext_neg :: "ext \<Rightarrow> ext" where
  "ext_neg (x, y, z, t) = (- x, y, z, - t)"

fun ext_on_curve :: "ext \<Rightarrow> bool" where
  "ext_on_curve (x, y, z, t) = on_curve x y z t"

inductive lincomb :: "ext \<Rightarrow> ext \<Rightarrow> int \<Rightarrow> int \<Rightarrow> ext \<Rightarrow> bool" for P Q where
  neutral: "lincomb P Q 0 0 (0, 1, 1, 0)"
| fst_base: "lincomb P Q 1 0 P"
| snd_base: "lincomb P Q 0 1 Q"
| add: "lincomb P Q m n R \<Longrightarrow> lincomb P Q m' n' S \<Longrightarrow> lincomb P Q (m + m') (n + n') (ext_add R S)"
| dbl: "lincomb P Q m n R \<Longrightarrow> lincomb P Q (2 * m) (2 * n) (ext_dbl R)"
| neg: "lincomb P Q m n R \<Longrightarrow> lincomb P Q (- m) (- n) (ext_neg R)"
| cong: "lincomb P Q m n (x, y, z, t) \<Longrightarrow> eqp x' x \<Longrightarrow> eqp y' y \<Longrightarrow> eqp z' z \<Longrightarrow> eqp t' t \<Longrightarrow>
    lincomb P Q m n (x', y', z', t')"
| scale: "lincomb P Q m n (x, y, z, t) \<Longrightarrow> eqp (k * j) 1 \<Longrightarrow> lincomb P Q m n (k * x, k * y, k * z, k * t)"

lemma on_curve_factor:
  assumes "on_curve x y z t"
  shows "on_curve (k * x) (k * y) (k * z) (k * t)"
proof -
  have c: "eqp (x * y) (z * t)" "eqp (y * y - x * x) (z * z + curve_d * (t * t))"
    using assms by (simp_all add: on_curve_def)
  have "eqp (k * k * (x * y)) (k * k * (z * t))" "eqp (k * k * (y * y - x * x)) (k * k * (z * z + curve_d * (t * t)))"
    by (rule eqp_mult [OF eqp_refl c(1)], rule eqp_mult [OF eqp_refl c(2)])
  moreover have "k * k * (x * y) = (k * x) * (k * y)" "k * k * (z * t) = (k * z) * (k * t)"
    "k * k * (y * y - x * x) = (k * y) * (k * y) - (k * x) * (k * x)"
    "k * k * (z * z + curve_d * (t * t)) = (k * z) * (k * z) + curve_d * ((k * t) * (k * t))"
    by algebra+
  ultimately show ?thesis by (simp only: on_curve_def)
qed

lemma lincomb_on_curve:
  assumes "lincomb P Q m n R" and "ext_on_curve P" and "ext_on_curve Q"
  shows "ext_on_curve R"
  using assms(1)
proof induction
  case (add m n R m' n' S)
  obtain x1 y1 z1 t1 x2 y2 z2 t2 where "R = (x1, y1, z1, t1)" "S = (x2, y2, z2, t2)"
    by (metis prod_cases4)
  then show ?case using on_curve_scaled [OF sum_on_curve [of x1 y1 z1 t1 x2 y2 z2 t2]] add.IH by simp
next
  case (dbl m n R)
  obtain x y z t where "R = (x, y, z, t)" by (metis prod_cases4)
  then show ?case using double_on_curve [OF on_curve_proj [of x y z t]] dbl.IH by simp
next
  case (neg m n R)
  obtain x y z t where "R = (x, y, z, t)" by (metis prod_cases4)
  then show ?case using on_curve_neg [of x y z t] neg.IH by simp
next
  case (cong m n x y z t x' y' z' t')
  then show ?case using on_curve_eqp [of x y z t x' y' z' t'] by simp
next
  case (scale m n x y z t k j)
  then show ?case using on_curve_factor [of x y z t k] by simp
qed (use assms(2,3) in \<open>simp_all add: on_curve_def\<close>)

definition p2_rep :: "ext \<Rightarrow> ext \<Rightarrow> int \<Rightarrow> int \<Rightarrow> ge_p2 \<Rightarrow> bool" where
  "p2_rep P Q m n r \<longleftrightarrow> (\<exists>x y z t. p2_is r x y z \<and> lincomb P Q m n (x, y, z, t))"

definition p3_rep :: "ext \<Rightarrow> ext \<Rightarrow> int \<Rightarrow> int \<Rightarrow> ge_p3 \<Rightarrow> bool" where
  "p3_rep P Q m n r \<longleftrightarrow> (\<exists>x y z t. p3_is r x y z t \<and> lincomb P Q m n (x, y, z, t))"

definition pp_rep :: "ext \<Rightarrow> ext \<Rightarrow> int \<Rightarrow> int \<Rightarrow> ge_p1p1 \<Rightarrow> bool" where
  "pp_rep P Q m n r \<longleftrightarrow> (\<exists>e h g f. pp_is r e h g f \<and> lincomb P Q m n (ext_of_completed e h g f))"

definition cached_rep :: "ext \<Rightarrow> ext \<Rightarrow> int \<Rightarrow> int \<Rightarrow> ge_cached \<Rightarrow> bool" where
  "cached_rep P Q m n r \<longleftrightarrow> (\<exists>x y z t. cached_is r x y z t \<and> lincomb P Q m n (x, y, z, t))"

definition precomp_rep :: "ext \<Rightarrow> ext \<Rightarrow> int \<Rightarrow> int \<Rightarrow> ge_precomp \<Rightarrow> bool" where
  "precomp_rep P Q m n r \<longleftrightarrow> (\<exists>x y. precomp_is r x y \<and> lincomb P Q m n (x, y, 1, x * y))"

lemma ge_add_rep:
  assumes "p3_rep P Q m n p" and "cached_rep P Q m' n' q"
  shows "pp_rep P Q (m + m') (n + n') (ge_add p q)" and "pp_rep P Q (m - m') (n - n') (ge_sub p q)"
proof -
  obtain x1 y1 z1 t1 x2 y2 z2 t2 where p: "p3_is p x1 y1 z1 t1" "lincomb P Q m n (x1, y1, z1, t1)"
    and q: "cached_is q x2 y2 z2 t2" "lincomb P Q m' n' (x2, y2, z2, t2)"
    using assms unfolding p3_rep_def cached_rep_def by blast
  show "pp_rep P Q (m + m') (n + n') (ge_add p q)"
    using ge_add_is(1) [OF p(1) q(1)] lincomb.add [OF p(2) q(2)] unfolding pp_rep_def by auto
  show "pp_rep P Q (m - m') (n - n') (ge_sub p q)"
  proof -
    have "lincomb P Q (m - m') (n - n') (ext_of_completed (2 * (x1 * y2 - y1 * x2)) (2 * (y1 * y2 - x1 * x2))
        (2 * (z1 * z2 - curve_d * t1 * t2)) (2 * (z1 * z2 + curve_d * t1 * t2)))"
      using lincomb.add [OF p(2) lincomb.neg [OF q(2)]] by simp
    with ge_add_is(2) [OF p(1) q(1)] show ?thesis unfolding pp_rep_def by blast
  qed
qed

lemma ge_madd_rep:
  assumes "p3_rep P Q m n p" and "precomp_rep P Q m' n' q"
  shows "pp_rep P Q (m + m') (n + n') (ge_madd p q)" and "pp_rep P Q (m - m') (n - n') (ge_msub p q)"
proof -
  obtain x1 y1 z1 t1 x2 y2 where p: "p3_is p x1 y1 z1 t1" "lincomb P Q m n (x1, y1, z1, t1)"
    and q: "precomp_is q x2 y2" "lincomb P Q m' n' (x2, y2, 1, x2 * y2)"
    using assms unfolding p3_rep_def precomp_rep_def by blast
  show "pp_rep P Q (m + m') (n + n') (ge_madd p q)"
    using ge_madd_is(1) [OF p(1) q(1)] lincomb.add [OF p(2) q(2)] unfolding pp_rep_def by auto
  show "pp_rep P Q (m - m') (n - n') (ge_msub p q)"
  proof -
    have "lincomb P Q (m - m') (n - n') (ext_of_completed (2 * (x1 * y2 - y1 * x2)) (2 * (y1 * y2 - x1 * x2))
        (2 * (z1 - curve_d * t1 * (x2 * y2))) (2 * (z1 + curve_d * t1 * (x2 * y2))))"
      using lincomb.add [OF p(2) lincomb.neg [OF q(2)]] by simp
    with ge_madd_is(2) [OF p(1) q(1)] show ?thesis unfolding pp_rep_def by blast
  qed
qed

lemma ge_p2_dbl_rep: "p2_rep P Q m n p \<Longrightarrow> pp_rep P Q (2 * m) (2 * n) (ge_p2_dbl p)"
proof -
  assume "p2_rep P Q m n p"
  then obtain x y z t where c: "p2_is p x y z" "lincomb P Q m n (x, y, z, t)" unfolding p2_rep_def by blast
  have "lincomb P Q (2 * m) (2 * n)
      (ext_of_completed (2 * (x * y)) (y * y + x * x) (y * y - x * x) (2 * (z * z) - (y * y - x * x)))"
    using lincomb.dbl [OF c(2)] by simp
  with ge_p2_dbl_is [OF c(1)] show ?thesis unfolding pp_rep_def by blast
qed

lemma ge_p1p1_rep:
  assumes "pp_rep P Q m n p"
  shows "p2_rep P Q m n (ge_p1p1_to_p2 p)" and "p3_rep P Q m n (ge_p1p1_to_p3 p)"
proof -
  obtain e h g f where c: "pp_is p e h g f" "lincomb P Q m n (e * f, h * g, g * f, e * h)"
    using assms unfolding pp_rep_def by auto
  show "p2_rep P Q m n (ge_p1p1_to_p2 p)" and "p3_rep P Q m n (ge_p1p1_to_p3 p)"
    unfolding p2_rep_def p3_rep_def using ge_p1p1_is [OF c(1)] c(2) by blast+
qed

lemma ge_p3_to_p2_rep: "p3_rep P Q m n p \<Longrightarrow> p2_rep P Q m n (ge_p3_to_p2 p)"
  unfolding p2_rep_def p3_rep_def using ge_p3_to_p2_is by blast

lemma ge_p3_dbl_rep: "p3_rep P Q m n p \<Longrightarrow> pp_rep P Q (2 * m) (2 * n) (ge_p3_dbl p)"
  unfolding ge_p3_dbl_def by (intro ge_p2_dbl_rep ge_p3_to_p2_rep)

lemma ge_p3_to_cached_rep: "p3_rep P Q m n p \<Longrightarrow> cached_rep P Q m n (ge_p3_to_cached p)"
  unfolding cached_rep_def p3_rep_def using ge_p3_to_cached_is by blast

lemma ge_neutral_rep:
  "p2_rep P Q 0 0 ge_p2_0" "p3_rep P Q 0 0 ge_p3_0" "cached_rep P Q 0 0 ge_cached_0" "precomp_rep P Q 0 0 ge_precomp_0"
  unfolding p2_rep_def p3_rep_def cached_rep_def precomp_rep_def
  using ge_neutral_is lincomb.neutral by (blast, blast, blast, metis mult_zero_left)

lemma cached_negate_rep: "cached_rep P Q m n c \<Longrightarrow> cached_rep P Q (- m) (- n) (cached_negate c)"
proof -
  assume "cached_rep P Q m n c"
  then obtain x y z t where c: "cached_is c x y z t" "lincomb P Q m n (x, y, z, t)" unfolding cached_rep_def by blast
  have "cached_is (cached_negate c) (- x) y z (- t)"
    using c(1) fe_neg_is [of 101 "c_T2d c" "2 * curve_d * t"] by (simp add: cached_is_def cached_negate_def fe_copy_is)
  with lincomb.neg [OF c(2)] show ?thesis unfolding cached_rep_def by auto
qed

lemma precomp_negate_rep: "precomp_rep P Q m n c \<Longrightarrow> precomp_rep P Q (- m) (- n) (precomp_negate c)"
proof -
  assume "precomp_rep P Q m n c"
  then obtain x y where c: "precomp_is c x y" "lincomb P Q m n (x, y, 1, x * y)" unfolding precomp_rep_def by blast
  have "precomp_is (precomp_negate c) (- x) y"
    using c(1) fe_neg_is [of 101 "xy2d c" "2 * curve_d * (x * y)"] by (simp add: precomp_is_def precomp_negate_def fe_copy_is)
  moreover have "lincomb P Q (- m) (- n) (- x, y, 1, - x * y)" using lincomb.neg [OF c(2)] by simp
  ultimately show ?thesis unfolding precomp_rep_def by blast
qed

lemma rep_fits: "cached_rep P Q m n c \<Longrightarrow> cached_fits c" "precomp_rep P Q m n d \<Longrightarrow> precomp_fits d"
  by (auto simp: cached_rep_def precomp_rep_def cached_is_def precomp_is_def cached_fits_def precomp_fits_def fe_fits_def
      dest: fe_is_mono [of 101 _ _ 202] simp: fe_is_def intro: fe_bounded_mono)

lemma select_cached_eq:
  assumes "\<forall>u \<in> set row. cached_fits u" and "size row = 8" and "- 8 \<le> b" and "b \<le> 8"
  shows "select_cached row b =
    Some (if b = 0 then ge_cached_0 else if 0 < b then row ! nat (b - 1) else cached_negate (row ! nat (- b - 1)))"
proof -
  have "cached_fits ge_cached_0" by (rule rep_fits(1) [OF ge_neutral_rep(3)])
  from cached_move.select_lookup [OF this assms] show ?thesis
    unfolding select_cached_def cached_negate_def .
qed

lemma select_row_eq:
  assumes "\<forall>u \<in> set row. precomp_fits u" and "size row = 8" and "- 8 \<le> b" and "b \<le> 8"
  shows "select_row row b =
    Some (if b = 0 then ge_precomp_0 else if 0 < b then row ! nat (b - 1) else precomp_negate (row ! nat (- b - 1)))"
proof -
  have "precomp_fits ge_precomp_0" by (rule rep_fits(2) [OF ge_neutral_rep(4)])
  from precomp_move.select_lookup [OF this assms] show ?thesis
    unfolding select_row_def precomp_negate_def .
qed

lemma length_cached_multiples [simp]: "length (cached_multiples n A c) = Suc n"
  by (induction n A c rule: cached_multiples.induct) simp_all

lemma cached_multiples_rep:
  "p3_rep P Q m n A \<Longrightarrow> cached_rep P Q m' n' c \<Longrightarrow> j \<le> k \<Longrightarrow>
    cached_rep P Q (m' + int j * m) (n' + int j * n) (cached_multiples k A c ! j)"
proof (induction k A c arbitrary: j m' n' rule: cached_multiples.induct)
  case (2 k A c)
  show ?case
  proof (cases j)
    case (Suc i)
    have c: "cached_rep P Q (m + m') (n + n') (ge_p3_to_cached (ge_p1p1_to_p3 (ge_add A c)))"
      by (intro ge_p3_to_cached_rep ge_p1p1_rep(2) ge_add_rep(1) 2)
    have "cached_rep P Q (m + m' + int i * m) (n + n' + int i * n) (cached_multiples (Suc k) A c ! j)"
      using "2.IH" [OF "2.prems"(1) c, of i] 2 Suc by simp
    then show ?thesis by (simp add: Suc distrib_right add_ac)
  qed (use 2 in simp)
qed simp

text \<open>The table of \<open>ge_scalarmult\<close>: entry \<open>j\<close> is \<open>j + 1\<close> times the point.\<close>

lemma scalarmult_select:
  assumes A: "p3_rep P Q 1 0 A" and b: "- 8 \<le> b" "b \<le> 8"
  shows "\<exists>c. select_cached (cached_multiples 7 A (ge_p3_to_cached A)) b = Some c \<and> cached_rep P Q b 0 c"
proof -
  let ?T = "cached_multiples 7 A (ge_p3_to_cached A)"
  have e: "cached_rep P Q (1 + int j) 0 (?T ! j)" if "j \<le> 7" for j
    using cached_multiples_rep [OF A ge_p3_to_cached_rep [OF A] that] by simp
  have fits: "\<forall>u \<in> set ?T. cached_fits u"
    using rep_fits(1) [OF e] by (auto simp: in_set_conv_nth less_Suc_eq_le)
  have pos: "cached_rep P Q b 0 (?T ! nat (b - 1))" if "0 < b"
    using e [of "nat (b - 1)"] that b by simp
  have neg: "cached_rep P Q b 0 (cached_negate (?T ! nat (- b - 1)))" if "b < 0"
    using cached_negate_rep [OF e [of "nat (- b - 1)"]] that b by simp
  have "select_cached ?T b =
    Some (if b = 0 then ge_cached_0 else if 0 < b then ?T ! nat (b - 1) else cached_negate (?T ! nat (- b - 1)))"
    by (rule select_cached_eq [OF fits _ b]) simp
  with pos neg ge_neutral_rep(3) [of P Q] show ?thesis by (cases "b = 0") auto
qed

lemma scalarmult_step:
  assumes "p3_rep P Q 1 0 A" and "p2_rep P Q m 0 r" and "- 8 \<le> b" "b \<le> 8"
  shows "\<exists>r'. ge_scalarmult_step (cached_multiples 7 A (ge_p3_to_cached A)) r b = Some r' \<and> p2_rep P Q (16 * m + b) 0 r'"
proof -
  obtain c where c: "select_cached (cached_multiples 7 A (ge_p3_to_cached A)) b = Some c" "cached_rep P Q b 0 c"
    using scalarmult_select [OF assms(1,3,4)] by blast
  have "p3_rep P Q (2 * (2 * (2 * (2 * m)))) (2 * (2 * (2 * (2 * 0))))
    (ge_p1p1_to_p3 (ge_p2_dbl (ge_p1p1_to_p2 (ge_p2_dbl (ge_p1p1_to_p2 (ge_p2_dbl (ge_p1p1_to_p2 (ge_p2_dbl r))))))))"
    by (intro ge_p1p1_rep ge_p2_dbl_rep assms(2))
  from ge_p1p1_rep(1) [OF ge_add_rep(1) [OF this c(2)]] show ?thesis
    by (simp add: ge_scalarmult_step_def c(1))
qed

lemma scalarmult_loop:
  "p3_rep P Q 1 0 A \<Longrightarrow> p2_rep P Q m 0 r \<Longrightarrow> \<forall>d \<in> set bs. - 8 \<le> d \<and> d \<le> 8 \<Longrightarrow>
    \<exists>r'. ge_scalarmult_loop (cached_multiples 7 A (ge_p3_to_cached A)) bs r = Some r' \<and>
      p2_rep P Q (fold (\<lambda>b m. 16 * m + b) bs m) 0 r'"
proof (induction bs arbitrary: m r)
  case (Cons b bs)
  obtain r' where "ge_scalarmult_step (cached_multiples 7 A (ge_p3_to_cached A)) r b = Some r'"
    and "p2_rep P Q (16 * m + b) 0 r'"
    using scalarmult_step [of P Q A m r b] Cons.prems by auto
  then show ?case using Cons.IH [of "16 * m + b" r'] Cons.prems by simp
qed auto

lemma horner_radix16: "fold (\<lambda>b m. 16 * m + b) (rev ds) 0 = radix16 ds"
  by (induction ds) simp_all

lemma horner_bin: "fold (\<lambda>b m. 2 * m + b) (rev ds) 0 = bin_val ds"
  by (induction ds) simp_all

subsection \<open>Two scalars\<close>

lemma dsm_precomp_rep:
  assumes "p3_rep P Q m n A" and "j \<le> 7"
  shows "cached_rep P Q ((2 * int j + 1) * m) ((2 * int j + 1) * n) (ge_dsm_precomp A ! j)"
proof -
  have "p3_rep P Q (2 * m) (2 * n) (ge_p1p1_to_p3 (ge_p3_dbl A))"
    by (intro ge_p1p1_rep ge_p3_dbl_rep assms(1))
  from cached_multiples_rep [OF this ge_p3_to_cached_rep [OF assms(1)] assms(2)] show ?thesis
    by (simp add: ge_dsm_precomp_def distrib_right distrib_left add_ac mult_ac)
qed

lemma dsm_add_rep:
  assumes "\<And>j. j \<le> 7 \<Longrightarrow> cached_rep P Q ((2 * int j + 1) * a) ((2 * int j + 1) * b) (Ai ! j)"
    and "pp_rep P Q m n t" and "window_digit d"
  shows "pp_rep P Q (m + d * a) (n + d * b) (dsm_add Ai d t)"
proof (cases "d = 0")
  case True
  then show ?thesis using assms(2) by (simp add: dsm_add_def)
next
  case False
  then have d: "odd d" "- 15 \<le> d" "d \<le> 15" using assms(3) by (simp_all add: window_digit_def)
  show ?thesis
  proof (cases "0 < d")
    case True
    have j: "2 * int (nat (d div 2)) + 1 = d" "nat (d div 2) \<le> 7" using True d by (auto elim: oddE)
    from ge_add_rep(1) [OF ge_p1p1_rep(2) [OF assms(2)] assms(1) [OF j(2)]] j(1) True show ?thesis
      by (simp add: dsm_add_def)
  next
    case False
    with \<open>d \<noteq> 0\<close> have neg: "d < 0" by simp
    have j: "2 * int (nat (- d div 2)) + 1 = - d" "nat (- d div 2) \<le> 7" using neg d by (auto elim: oddE)
    from ge_add_rep(2) [OF ge_p1p1_rep(2) [OF assms(2)] assms(1) [OF j(2)]] j(1) neg show ?thesis
      by (simp add: dsm_add_def)
  qed
qed

text \<open>Both digits of a position, and the loop over the positions from the highest non-zero one.\<close>

lemma dsm_loop_rep:
  assumes A: "\<And>j. j \<le> 7 \<Longrightarrow> cached_rep P Q (2 * int j + 1) 0 (Ai ! j)"
    and B: "\<And>j. j \<le> 7 \<Longrightarrow> cached_rep P Q 0 (2 * int j + 1) (Bi ! j)"
  shows "p2_rep P Q m n r \<Longrightarrow> \<forall>(d, e) \<in> set ds. window_digit d \<and> window_digit e \<Longrightarrow>
    p2_rep P Q (fold (\<lambda>b m. 2 * m + b) (map fst ds) m) (fold (\<lambda>b m. 2 * m + b) (map snd ds) n)
      (fold (\<lambda>(d, e) r. ge_p1p1_to_p2 (dsm_add Bi e (dsm_add Ai d (ge_p2_dbl r)))) ds r)"
proof (induction ds arbitrary: m n r)
  case (Cons x ds)
  obtain d e where x: "x = (d, e)" by fastforce
  have w: "window_digit d" "window_digit e" using Cons.prems x by simp_all
  have "pp_rep P Q (2 * m + d * 1) (2 * n + d * 0) (dsm_add Ai d (ge_p2_dbl r))"
    by (rule dsm_add_rep [OF _ ge_p2_dbl_rep [OF Cons.prems(1)] w(1)]) (use A in simp)
  then have "pp_rep P Q (2 * m + d * 1 + e * 0) (2 * n + d * 0 + e * 1) (dsm_add Bi e (dsm_add Ai d (ge_p2_dbl r)))"
    by (rule dsm_add_rep [rotated, OF _ w(2)]) (use B in simp)
  then have "p2_rep P Q (2 * m + d) (2 * n + e) (ge_p1p1_to_p2 (dsm_add Bi e (dsm_add Ai d (ge_p2_dbl r))))"
    using ge_p1p1_rep(1) by fastforce
  from Cons.IH [OF this] Cons.prems show ?case by (simp add: x)
qed simp

lemma horner_drop_zeros:
  "fold (\<lambda>b m. 2 * m + b) (map fst (dropWhile (\<lambda>(a, b). a = 0 \<and> b = 0) ds)) (0 :: int) =
     fold (\<lambda>b m. 2 * m + b) (map fst ds) 0"
  "fold (\<lambda>b m. 2 * m + b) (map snd (dropWhile (\<lambda>(a, b). a = 0 \<and> b = 0) ds)) (0 :: int) =
     fold (\<lambda>b m. 2 * m + b) (map snd ds) 0"
  by (induction ds) auto

lemma dsm_digits_val:
  assumes "length as = length bs"
  shows "fold (\<lambda>b m. 2 * m + b) (map fst (dsm_digits as bs)) 0 = bin_val as"
    and "fold (\<lambda>b m. 2 * m + b) (map snd (dsm_digits as bs)) 0 = bin_val bs"
  using assms by (simp_all add: dsm_digits_def horner_drop_zeros rev_map [symmetric] horner_bin)

subsection \<open>The table of multiples of a base point\<close>

text \<open>Row \<open>i\<close> holds \<open>256 ^ i\<close> times \<open>1 P \<dots> 8 P\<close>, as \<open>ge_base\<close> does for its point.\<close>

definition rows_of :: "ext \<Rightarrow> ge_precomp list list \<Rightarrow> bool" where
  "rows_of P rows \<longleftrightarrow> length rows = 32 \<and> (\<forall>i < 32. length (rows ! i) = 8 \<and>
     (\<forall>j < 8. precomp_rep P P ((int j + 1) * 256 ^ i) 0 (rows ! i ! j)))"

lemma rows_select:
  assumes "rows_of P rows" and "i < 32" and "- 8 \<le> b" "b \<le> 8"
  shows "\<exists>c. select_row (rows ! i) b = Some c \<and> precomp_rep P P (b * 256 ^ i) 0 c"
proof -
  let ?T = "rows ! i"
  have l: "length ?T = 8" and e: "\<And>j. j < 8 \<Longrightarrow> precomp_rep P P ((int j + 1) * 256 ^ i) 0 (?T ! j)"
    using assms(1,2) by (auto simp: rows_of_def)
  have fits: "\<forall>u \<in> set ?T. precomp_fits u"
    using rep_fits(2) [OF e] l by (auto simp: in_set_conv_nth)
  have pos: "precomp_rep P P (b * 256 ^ i) 0 (?T ! nat (b - 1))" if "0 < b"
    using e [of "nat (b - 1)"] that assms(3,4) by simp
  have neg: "precomp_rep P P (b * 256 ^ i) 0 (precomp_negate (?T ! nat (- b - 1)))" if "b < 0"
    using precomp_negate_rep [OF e [of "nat (- b - 1)"]] that assms(3,4) by simp
  show ?thesis unfolding select_row_eq [OF fits l assms(3,4)]
    using pos neg ge_neutral_rep(4) [of P P] by (cases "b = 0") auto
qed

lemma add_selected_rep:
  assumes rows: "rows_of P rows" and e: "\<forall>d \<in> set e. - 8 \<le> d \<and> d \<le> 8" and l: "length e = 64"
  shows "p3_rep P P m 0 h \<Longrightarrow> \<forall>i \<in> set is. i < 64 \<Longrightarrow>
    \<exists>h'. add_selected rows e is h = Some h' \<and> p3_rep P P (m + (\<Sum>i\<leftarrow>is. e ! i * 256 ^ (i div 2))) 0 h'"
proof (induction "is" arbitrary: m h)
  case (Cons i "is")
  have "e ! i \<in> set e" using Cons.prems l by simp
  then have b: "- 8 \<le> e ! i" "e ! i \<le> 8" using e by auto
  have "i div 2 < 32" using Cons.prems by auto
  then obtain c where c: "select_row (rows ! (i div 2)) (e ! i) = Some c"
    "precomp_rep P P (e ! i * 256 ^ (i div 2)) 0 c"
    using rows_select [OF rows _ b] by blast
  have "p3_rep P P (m + e ! i * 256 ^ (i div 2)) 0 (ge_p1p1_to_p3 (ge_madd h c))"
    using ge_p1p1_rep(2) [OF ge_madd_rep(1) [OF Cons.prems(1) c(2)]] by simp
  from Cons.IH [OF this] Cons.prems c(1) show ?case by (simp add: add_ac)
qed auto

lemma radix16_sum: "radix16 ds = (\<Sum>i<length ds. ds ! i * 16 ^ i)"
  by (induction ds) (simp_all add: sum.lessThan_Suc_shift sum_distrib_left mult_ac del: sum.lessThan_Suc)

lemma radix16_odd_even:
  assumes "length e = 64"
  shows "16 * (\<Sum>i\<leftarrow>map (\<lambda>k. 2 * k + 1) [0..<32]. e ! i * 256 ^ (i div 2)) +
    (\<Sum>i\<leftarrow>map (\<lambda>k. 2 * k) [0..<32]. e ! i * 256 ^ (i div 2)) = radix16 e"
proof -
  have s: "(\<Sum>i<2 * n. f i) = (\<Sum>k<n. f (2 * k + 1)) + (\<Sum>k<n. f (2 * k))" for f :: "nat \<Rightarrow> int" and n
    by (induction n) simp_all
  have p: "(256 :: int) ^ k = 16 ^ (2 * k)" for k by (simp add: power_mult)
  have "radix16 e = (\<Sum>i<2 * 32. e ! i * 16 ^ i)" using assms by (simp add: radix16_sum)
  also have "\<dots> = (\<Sum>k<32. e ! (2 * k + 1) * 16 ^ (2 * k + 1)) + (\<Sum>k<32. e ! (2 * k) * 16 ^ (2 * k))" by (rule s)
  also have "\<dots> = 16 * (\<Sum>k<32. e ! (2 * k + 1) * 256 ^ k) + (\<Sum>k<32. e ! (2 * k) * 256 ^ k)"
    by (simp add: p sum_distrib_left mult_ac)
  finally show ?thesis by (simp add: interv_sum_list_conv_sum_set_nat comp_def atLeast0LessThan del: upt_rec_numeral)
qed

lemma last_nibble: "a \<noteq> [] \<Longrightarrow> uint (last a) \<le> 127 \<Longrightarrow> last (nibbles a) \<le> 7"
proof (induction a rule: rev_induct)
  case (snoc b a)
  have "nibbles (a @ [b]) = nibbles a @ [uint b mod 16, uint b div 16]"
    by (simp add: nibbles_def nibble_low nibble_top)
  moreover have "uint b div 16 \<le> 7" using snoc.prems by simp
  ultimately show ?case by simp
qed simp

subsection \<open>Properties\<close>

definition ext_of :: "ge_p3 \<Rightarrow> ext" where
  "ext_of A = (fe_val (p3_X A), fe_val (p3_Y A), fe_val (p3_Z A), fe_val (p3_T A))"

lemma ext_of_rep:
  assumes "p3_valid A"
  shows "p3_rep (ext_of A) Q 1 0 A" and "p3_rep P (ext_of A) 0 1 A"
  unfolding p3_rep_def ext_of_def using p3_validD [OF assms] lincomb.fst_base lincomb.snd_base by blast+

lemma ext_of_on_curve: "p3_valid A \<Longrightarrow> ext_on_curve (ext_of A)"
  by (simp add: p3_valid_def ext_of_def)

lemma carry_digits:
  assumes "length a = 32" and "uint (last a) \<le> 127"
  shows "radix16 (carry_nibbles 0 (nibbles a)) = int (le_nat a)" and "length (carry_nibbles 0 (nibbles a)) = 64"
    and "\<forall>d \<in> set (carry_nibbles 0 (nibbles a)). - 8 \<le> d \<and> d \<le> 8"
proof -
  have a: "a \<noteq> []" using assms(1) by auto
  note n = nibbles_value [of a]
  have "nibbles a \<noteq> []" using n assms(1) by auto
  then show "radix16 (carry_nibbles 0 (nibbles a)) = int (le_nat a)" and "length (carry_nibbles 0 (nibbles a)) = 64"
    and "\<forall>d \<in> set (carry_nibbles 0 (nibbles a)). - 8 \<le> d \<and> d \<le> 8"
    using carry_nibbles_digits [of "nibbles a" 0] n last_nibble [OF a assms(2)] assms(1) by simp_all
qed

text \<open>Both recodings of \<open>ge_scalarmult\<close> and \<open>ge_scalarmult_base\<close> keep the scalar: for 32 bytes below \<open>2 ^ 255\<close>
  the 64 digits lie in \<open>- 8 \<dots> 8\<close>, the range of the tables, and their value in base 16 is the scalar.\<close>
theorem recoding_keeps_scalar:
  assumes "length a = 32" and "uint (last a) \<le> 127"
  shows "radix16 (recode16 0 a) = int (le_nat a) \<and> length (recode16 0 a) = 64 \<and>
      (\<forall>d \<in> set (recode16 0 a). - 8 \<le> d \<and> d \<le> 8) \<and>
    radix16 (carry_nibbles 0 (nibbles a)) = int (le_nat a) \<and> length (carry_nibbles 0 (nibbles a)) = 64 \<and>
      (\<forall>d \<in> set (carry_nibbles 0 (nibbles a)). - 8 \<le> d \<and> d \<le> 8)"
proof -
  have "a \<noteq> []" using assms(1) by auto
  then show ?thesis using recode16_digits [OF _ assms(2), of 0] carry_digits [OF assms] assms(1) by simp
qed

theorem recoding_keeps_scalar_witness:
  "radix16 (recode16 0 (replicate 31 0xFF @ [0x7F])) = int (le_nat (replicate 31 0xFF @ [0x7F]))"
  using recoding_keeps_scalar [of "replicate 31 0xFF @ [0x7F]"] by simp

lemma le_nat_below:
  assumes "length a = 32" and "uint (last a) \<le> 127"
  shows "le_nat a \<le> 2 ^ 255"
proof -
  have a: "a = butlast a @ [last a]" using assms(1) by (metis append_butlast_last_id list.size(3) zero_neq_numeral)
  have "le_nat (butlast a) < 256 ^ 31" using le_nat_bound [of "butlast a"] assms(1) by simp
  moreover have "int (unat (last a)) \<le> 127" using assms(2) by simp
  then have "unat (last a) \<le> 127" by linarith
  then have "256 ^ 31 * unat (last a) \<le> 256 ^ 31 * 127" by (rule mult_le_mono2)
  ultimately have "le_nat (butlast a) + 256 ^ 31 * unat (last a) \<le> 2 ^ 255" by simp
  also have "le_nat (butlast a) + 256 ^ 31 * unat (last a) = le_nat (butlast a @ [last a])"
    using assms(1) by (simp add: le_nat_append)
  finally show ?thesis using a by simp
qed

text \<open>The sliding windows keep the scalar: for 32 bytes up to \<open>2 ^ 255\<close>, \<open>slide\<close> gives 256 digits whose value in
  base 2 is the scalar, each of them zero or odd and between - 15 and 15, so that the table lookups
  \<open>aslide[i] / 2\<close> and \<open>(- aslide[i]) / 2\<close> stay below 8.\<close>
theorem slide_keeps_scalar:
  assumes "length a = 32" and "le_nat a \<le> 2 ^ 255"
  shows "bin_val (slide a) = int (le_nat a) \<and> length (slide a) = 256 \<and>
    (\<forall>d \<in> set (slide a). d = 0 \<or> (odd d \<and> - 15 \<le> d \<and> d \<le> 15))"
  using slide_val [OF assms] by (simp add: window_digit_def)

theorem slide_keeps_scalar_witness:
  "bin_val (slide (replicate 32 0x3F)) = int (le_nat (replicate 32 0x3F))"
proof -
  have "le_nat (replicate 32 0x3F) \<le> 2 ^ 255" by (rule le_nat_below) simp_all
  from slide_keeps_scalar [OF length_replicate this] show ?thesis by blast
qed

text \<open>The branch-free selection is the indexed lookup: for a digit in \<open>- 8 \<dots> 8\<close> and a table of eight entries
  within the limb bounds, \<open>select\<close> and the selection of \<open>ge_scalarmult\<close> pass the assertion of every
  \<open>fe_cmov\<close> and return the neutral point, entry \<open>b - 1\<close>, or the negation of entry \<open>- b - 1\<close>.\<close>
theorem select_is_lookup:
  assumes "\<forall>u \<in> set row. precomp_fits u" and "length row = 8" and "\<forall>u \<in> set tab. cached_fits u" and "length tab = 8"
    and "- 8 \<le> b" and "b \<le> 8"
  shows "select_row row b =
      Some (if b = 0 then ge_precomp_0 else if 0 < b then row ! nat (b - 1) else precomp_negate (row ! nat (- b - 1))) \<and>
    select_cached tab b =
      Some (if b = 0 then ge_cached_0 else if 0 < b then tab ! nat (b - 1) else cached_negate (tab ! nat (- b - 1)))"
  using select_row_eq [OF assms(1,2,5,6)] select_cached_eq [OF assms(3,4,5,6)] by blast

theorem select_is_lookup_witness:
  "select_row (replicate 8 ge_precomp_0) (- 8) = Some (precomp_negate ge_precomp_0)"
  using select_is_lookup [of "replicate 8 ge_precomp_0" "replicate 8 ge_cached_0" "- 8"]
    rep_fits(1) [OF ge_neutral_rep(3)] rep_fits(2) [OF ge_neutral_rep(4)]
  by simp

text \<open>C27: \<open>ge_scalarmult\<close> multiplies: for a scalar of 32 bytes below \<open>2 ^ 255\<close> and a valid point it passes every
  assertion and returns a point of the curve, within the limb bounds of \<open>ge_p2\<close>, that is built from
  the point with the scalar as its count.\<close>
theorem ge_scalarmult_multiplies:
  assumes "length a = 32" and "uint (last a) \<le> 127" and "p3_valid A"
  shows "\<exists>r x y z t. ge_scalarmult a A = Some r \<and> p2_is r x y z \<and> on_curve x y z t \<and>
    lincomb (ext_of A) (ext_of A) (int (le_nat a)) 0 (x, y, z, t)"
proof -
  have "a \<noteq> []" using assms(1) by auto
  note d = recode16_digits [OF this assms(2), of 0]
  obtain r where "ge_scalarmult a A = Some r" and "p2_rep (ext_of A) (ext_of A) (int (le_nat a)) 0 r"
    using scalarmult_loop [OF ext_of_rep(1) [OF assms(3), of "ext_of A"] ge_neutral_rep(1), of "rev (recode16 0 a)"] d assms(1)
    by (auto simp: ge_scalarmult_def horner_radix16)
  then show ?thesis unfolding p2_rep_def
    using lincomb_on_curve [OF _ ext_of_on_curve [OF assms(3)] ext_of_on_curve [OF assms(3)]] by fastforce
qed

theorem ge_scalarmult_multiplies_witness:
  "\<exists>r x y z t. ge_scalarmult (5 # replicate 31 0) ge_p3_0 = Some r \<and> p2_is r x y z \<and> on_curve x y z t"
proof -
  have "length (5 # replicate 31 (0 :: u8)) = 32" "uint (last (5 # replicate 31 (0 :: u8))) \<le> 127" by simp_all
  from ge_scalarmult_multiplies [OF this p3_valid_0] show ?thesis by blast
qed

text \<open>C28: \<open>ge_double_scalarmult_precomp_vartime\<close> with the table of \<open>ge_dsm_precomp\<close> computes \<open>a A + b B\<close>: for two
  scalars of 32 bytes up to \<open>2 ^ 255\<close> and two valid points, the result is a point of the curve, within the
  limb bounds, built from \<open>A\<close> with the count \<open>a\<close> and from \<open>B\<close> with the count \<open>b\<close>.\<close>
theorem ge_double_scalarmult_sums:
  assumes "length a = 32" and "le_nat a \<le> 2 ^ 255" and "length b = 32" and "le_nat b \<le> 2 ^ 255"
    and "p3_valid A" and "p3_valid B"
  shows "\<exists>x y z t. p2_is (ge_double_scalarmult_precomp_vartime a A b (ge_dsm_precomp B)) x y z \<and> on_curve x y z t \<and>
    lincomb (ext_of A) (ext_of B) (int (le_nat a)) (int (le_nat b)) (x, y, z, t)"
proof -
  let ?ds = "dsm_digits (slide a) (slide b)"
  note sa = slide_val [OF assms(1,2)] and sb = slide_val [OF assms(3,4)]
  have l: "length (slide a) = length (slide b)" using sa sb by simp
  have w: "\<forall>(d, e) \<in> set ?ds. window_digit d \<and> window_digit e"
  proof clarify
    fix d e
    assume "(d, e) \<in> set ?ds"
    then have "(d, e) \<in> set (zip (slide a) (slide b))" by (auto simp: dsm_digits_def dest: set_dropWhileD)
    then show "window_digit d \<and> window_digit e" using sa(3) sb(3) by (meson set_zip_leftD set_zip_rightD)
  qed
  have A: "cached_rep (ext_of A) (ext_of B) (2 * int j + 1) 0 (ge_dsm_precomp A ! j)" if "j \<le> 7" for j
    using dsm_precomp_rep [OF ext_of_rep(1) [OF assms(5)] that] by simp
  have B: "cached_rep (ext_of A) (ext_of B) 0 (2 * int j + 1) (ge_dsm_precomp B ! j)" if "j \<le> 7" for j
    using dsm_precomp_rep [OF ext_of_rep(2) [OF assms(6)] that] by simp
  have "p2_rep (ext_of A) (ext_of B) (int (le_nat a)) (int (le_nat b))
      (ge_double_scalarmult_precomp_vartime a A b (ge_dsm_precomp B))"
    using dsm_loop_rep [OF A B ge_neutral_rep(1) w] sa(1) sb(1)
    by (simp add: ge_double_scalarmult_precomp_vartime_def dsm_digits_val [OF l])
  then show ?thesis unfolding p2_rep_def
    using lincomb_on_curve [OF _ ext_of_on_curve [OF assms(5)] ext_of_on_curve [OF assms(6)]] by fastforce
qed

theorem ge_double_scalarmult_sums_witness:
  "\<exists>x y z t. p2_is (ge_double_scalarmult_precomp_vartime (5 # replicate 31 0) ge_p3_0 (7 # replicate 31 0)
      (ge_dsm_precomp ge_p3_0)) x y z \<and> on_curve x y z t"
proof -
  have l: "length (5 # replicate 31 (0 :: u8)) = 32" "length (7 # replicate 31 (0 :: u8)) = 32" by simp_all
  have "le_nat (5 # replicate 31 0) \<le> 2 ^ 255" "le_nat (7 # replicate 31 0) \<le> 2 ^ 255"
    by (rule le_nat_below; simp)+
  from ge_double_scalarmult_sums [OF l(1) this(1) l(2) this(2) p3_valid_0 p3_valid_0] show ?thesis by blast
qed

text \<open>\<open>ge_scalarmult_base\<close>, for any table whose row \<open>i\<close> holds \<open>256 ^ i\<close> times \<open>1 P \<dots> 8 P\<close>, passes every
  assertion and returns the multiple of \<open>P\<close> by the scalar, for 32 bytes below \<open>2 ^ 255\<close>.\<close>
theorem scalarmult_rows_multiplies:
  assumes "length a = 32" and "uint (last a) \<le> 127" and "rows_of P rows"
  shows "\<exists>h x y z t. scalarmult_rows rows a = Some h \<and> p3_is h x y z t \<and> lincomb P P (int (le_nat a)) 0 (x, y, z, t)"
proof -
  let ?e = "carry_nibbles 0 (nibbles a)"
  note e = carry_digits [OF assms(1,2)]
  obtain h where h: "add_selected rows ?e (map (\<lambda>k. 2 * k + 1) [0..<32]) ge_p3_0 = Some h"
    "p3_rep P P (\<Sum>i\<leftarrow>map (\<lambda>k. 2 * k + 1) [0..<32]. ?e ! i * 256 ^ (i div 2)) 0 h"
    using add_selected_rep [OF assms(3) e(3,2) ge_neutral_rep(2), of "map (\<lambda>k. 2 * k + 1) [0..<32]"]
    by (auto simp del: upt_rec_numeral)
  let ?s = "ge_p1p1_to_p3 (ge_p2_dbl (ge_p1p1_to_p2 (ge_p2_dbl (ge_p1p1_to_p2 (ge_p2_dbl (ge_p1p1_to_p2 (ge_p3_dbl h)))))))"
  have "p3_rep P P (2 * (2 * (2 * (2 * (\<Sum>i\<leftarrow>map (\<lambda>k. 2 * k + 1) [0..<32]. ?e ! i * 256 ^ (i div 2))))))
      (2 * (2 * (2 * (2 * 0)))) ?s"
    by (intro ge_p1p1_rep ge_p2_dbl_rep ge_p3_dbl_rep h(2))
  then obtain h' where h': "add_selected rows ?e (map (\<lambda>k. 2 * k) [0..<32]) ?s = Some h'"
    "p3_rep P P (radix16 ?e) 0 h'"
    using add_selected_rep [OF assms(3) e(3,2), of _ ?s "map (\<lambda>k. 2 * k) [0..<32]"]
    by (fastforce simp: radix16_odd_even [OF e(2), symmetric] simp del: upt_rec_numeral)
  then show ?thesis using assms(1) h(1) unfolding p3_rep_def e(1)
    by (simp add: scalarmult_rows_def del: upt_rec_numeral)
qed

text \<open>The point \<open>(0, - 1)\<close> of order 2: its multiples alternate.\<close>

lemma order_two_multiples: "lincomb (0, - 1, 1, 0) (0, - 1, 1, 0) (int k) 0 (0, (- 1) ^ k, 1, 0)"
proof (induction k)
  case (Suc k)
  let ?P = "(0, - 1, 1, 0) :: ext" and ?j = "(p25519 + 1) div 4"
  obtain j where j: "eqp (j * 4) 1"
  proof
    show "eqp (43422033463993573283839119378257965444976244249615211514796594002967423614962 * 4) 1"
      by (simp add: eqp_def p25519_def)
  qed
  have "lincomb ?P ?P (int (Suc k)) 0 (0, - 4 * (- 1) ^ k, 4, 0)"
    using lincomb.add [OF Suc lincomb.fst_base] by (simp add: add.commute)
  from lincomb.scale [OF this j]
  have "lincomb ?P ?P (int (Suc k)) 0 (0, - (j * 4) * (- 1) ^ k, j * 4, 0)" by (simp add: mult_ac)
  then show ?case
    by (rule lincomb.cong) (use eqp_mult [OF eqp_sym [OF j] eqp_refl, of "- ((- 1) ^ k)"] eqp_sym [OF j] in simp_all)
qed (use lincomb.neutral in simp)

lemma order_two_rep:
  "even k \<Longrightarrow> precomp_rep (0, - 1, 1, 0) (0, - 1, 1, 0) (int k) 0 ge_precomp_0"
  "odd k \<Longrightarrow> precomp_rep (0, - 1, 1, 0) (0, - 1, 1, 0) (int k) 0
    \<lparr>yplusx = fe_neg fe_1, yminusx = fe_neg fe_1, xy2d = fe_0\<rparr>"
proof -
  assume "even k"
  then show "precomp_rep (0, - 1, 1, 0) (0, - 1, 1, 0) (int k) 0 ge_precomp_0"
    using order_two_multiples [of k] ge_neutral_is(3) unfolding precomp_rep_def by fastforce
next
  assume "odd k"
  then have "lincomb (0, - 1, 1, 0) (0, - 1, 1, 0) (int k) 0 (0, - 1, 1, 0 * - 1)" using order_two_multiples [of k] by simp
  moreover have "precomp_is \<lparr>yplusx = fe_neg fe_1, yminusx = fe_neg fe_1, xy2d = fe_0\<rparr> 0 (- 1)"
    using fe_neg_is [OF fe_is_mono [OF fe_1_is, of 101]] fe_is_mono [OF fe_0_is, of 101] by (simp add: precomp_is_def)
  ultimately show "precomp_rep (0, - 1, 1, 0) (0, - 1, 1, 0) (int k) 0
    \<lparr>yplusx = fe_neg fe_1, yminusx = fe_neg fe_1, xy2d = fe_0\<rparr>"
    unfolding precomp_rep_def by blast
qed

definition order_two_rows :: "ge_precomp list list" where
  "order_two_rows =
     (let m = \<lparr>yplusx = fe_neg fe_1, yminusx = fe_neg fe_1, xy2d = fe_0\<rparr>; e = ge_precomp_0
      in [m, e, m, e, m, e, m, e] # replicate 31 (replicate 8 e))"

lemma order_two_rows_of: "rows_of (0, - 1, 1, 0) order_two_rows"
  unfolding rows_of_def
proof (intro conjI allI impI)
  fix i j :: nat
  assume i: "i < 32"
  show "length (order_two_rows ! i) = 8" using i by (cases i) (simp_all add: order_two_rows_def Let_def)
  assume j: "j < 8"
  let ?k = "(j + 1) * 256 ^ i"
  have k: "(int j + 1) * 256 ^ i = int ?k" by (simp add: distrib_right)
  show "precomp_rep (0, - 1, 1, 0) (0, - 1, 1, 0) ((int j + 1) * 256 ^ i) 0 (order_two_rows ! i ! j)"
  proof (cases i)
    case 0
    have "j \<in> {0, 1, 2, 3, 4, 5, 6, 7}" using j by auto
    then show ?thesis unfolding k using order_two_rep(1) [of ?k] order_two_rep(2) [of ?k] 0
      by (auto simp: order_two_rows_def Let_def)
  next
    case (Suc n)
    then have "order_two_rows ! i ! j = ge_precomp_0" using i j by (simp add: order_two_rows_def Let_def)
    moreover have "even ?k" using Suc by simp
    ultimately show ?thesis unfolding k by (metis order_two_rep(1))
  qed
qed (simp add: order_two_rows_def Let_def)

theorem scalarmult_rows_multiplies_witness:
  "\<exists>h x y z t. scalarmult_rows order_two_rows (5 # replicate 31 0) = Some h \<and> p3_is h x y z t"
proof -
  have "length (5 # replicate 31 (0 :: u8)) = 32" "uint (last (5 # replicate 31 (0 :: u8))) \<le> 127" by simp_all
  from scalarmult_rows_multiplies [OF this order_two_rows_of] show ?thesis by blast
qed
end
