(* ===== verification/Transactions.thy ===== *)
theory Transactions
  imports GroupOps "HOL-Library.Multiset"
begin

unbundle bit_operations_syntax

section \<open>Transactions and their checks (currency_basic.h, currency_format_utils.cpp, tx_validation.cpp)\<close>

text \<open>
  The transaction format as datatypes with the alternatives of its variants, and the routines that
  count and check its amounts, its extra entries and its references to outputs. Amounts are \<open>uint64_t\<close>
  and sums wrap around. \<open>boost::get\<close> on the wrong alternative and \<open>CHECK_AND_ASSERT_THROW_MES\<close> throw: \<open>None\<close>.
  The theorems: a transaction that passes \<open>check_tx_semantic\<close> has exact sums, does not create
  money and does not spend an output twice; the overflow check is exact; relative offsets denote the
  same outputs as the absolute ones they are made from.
\<close>

subsection \<open>The data\<close>

type_synonym hash = bytes
type_synonym public_key = bytes
type_synonym key_image = bytes
type_synonym signature = bytes

definition null_pkey :: public_key where
  "null_pkey = replicate 32 0"

record account_public_address =
  m_spend_public_key :: public_key
  m_view_public_key :: public_key

record extra_attachment_info =
  eai_sz :: u64
  eai_hsh :: hash
  eai_cnt :: u64

record ref_by_id =
  ref_tx_id :: hash
  ref_n :: u32

datatype txout_v = GlobalIndex u64 | RefById ref_by_id

record signed_parts =
  n_outs :: u32
  n_extras :: u32

datatype txin_etc_details_v = SignedParts signed_parts | EtcAttachmentInfo extra_attachment_info

record txin_to_key =
  tk_amount :: u64
  tk_key_offsets :: "txout_v list"
  tk_k_image :: key_image
  tk_etc_details :: "txin_etc_details_v list"

record txin_multisig =
  ms_amount :: u64
  ms_multisig_out_id :: hash
  ms_sigs_count :: u32
  ms_etc_details :: "txin_etc_details_v list"

record txin_gen =
  gen_height :: u64

datatype txin_v = TxinGen txin_gen | TxinToKey txin_to_key | TxinMultisig txin_multisig

record txout_to_key =
  out_key :: public_key
  mix_attr :: u8

record txout_multisig =
  minimum_sigs :: u32
  ms_keys :: "public_key list"

datatype txout_target_v = TxoutToKey txout_to_key | TxoutMultisig txout_multisig

record tx_out =
  out_amount :: u64
  out_target :: txout_target_v

record tx_service_attachment =
  service_id :: bytes
  instruction :: bytes
  body :: bytes
  security :: "public_key list"
  sa_flags :: u8

record extra_alias_entry_base =
  m_address :: account_public_address
  m_text_comment :: bytes
  m_view_key :: "bytes list"
  m_sign :: "signature list"

record extra_alias_entry = extra_alias_entry_base +
  m_alias :: bytes

text \<open>The alternatives of \<open>extra_v\<close>, \<open>attachment_v\<close> and \<open>payload_items_v\<close>, in the order of \<open>all_payload_types\<close>.\<close>

datatype extra_v =
    TxServiceAttachment tx_service_attachment
  | TxComment bytes
  | TxPayer account_public_address
  | TxReceiver account_public_address
  | TxMessage bytes
  | StdString bytes
  | TxCryptoChecksum bytes u32
  | EtcTxTime u64
  | EtcTxDetailsUnlockTime u64
  | EtcTxDetailsExpirationTime u64
  | EtcTxDetailsFlags u64
  | ExtraPublicKey public_key
  | ExtraAttachmentInfo extra_attachment_info
  | ExtraAliasEntry extra_alias_entry
  | ExtraUserData bytes
  | ExtraPadding bytes
  | EtcTxDerivationHint u16

record transaction =
  tx_version :: u64
  vin :: "txin_v list"
  vout :: "tx_out list"
  extra :: "extra_v list"
  signatures :: "signature list list"
  attachment :: "extra_v list"

record block =
  major_version :: u8
  minor_version :: u8
  timestamp :: u64
  prev_id :: hash
  nonce :: u64
  block_flags :: u8
  miner_tx :: transaction
  tx_hashes :: "hash list"

subsection \<open>Amounts\<close>

definition get_amount_from_variant :: "txin_v \<Rightarrow> u64" where
  "get_amount_from_variant v =
     (case v of TxinGen _ \<Rightarrow> 0 | TxinToKey i \<Rightarrow> tk_amount i | TxinMultisig i \<Rightarrow> ms_amount i)"

definition is_coinbase :: "transaction \<Rightarrow> bool" where
  "is_coinbase tx = (case vin tx of TxinGen _ # _ \<Rightarrow> True | _ \<Rightarrow> False)"

definition is_pos_coinbase :: "transaction \<Rightarrow> bool" where
  "is_pos_coinbase tx \<longleftrightarrow>
     is_coinbase tx \<and> length (vin tx) = 2 \<and> (case vin tx ! 1 of TxinToKey _ \<Rightarrow> True | _ \<Rightarrow> False) \<and>
     length (signatures tx) = length (vin tx) - 1"

definition is_pow_coinbase :: "transaction \<Rightarrow> bool" where
  "is_pow_coinbase tx \<longleftrightarrow> is_coinbase tx \<and> length (vin tx) = 1"

definition is_pos_block :: "block \<Rightarrow> bool" where
  "is_pos_block b = (if block_flags b AND 0x01 = 0 then False else is_pos_coinbase (miner_tx b))"

definition get_block_height :: "transaction \<Rightarrow> u64" where
  "get_block_height coinbase =
     (if is_coinbase coinbase then (case vin coinbase ! 0 of TxinGen g \<Rightarrow> gen_height g | _ \<Rightarrow> 0) else 0)"

definition get_outs_money_amount :: "transaction \<Rightarrow> u64" where
  "get_outs_money_amount tx = fold (\<lambda>out a. a + out_amount out) (vout tx) 0"

fun inputs_money_amount :: "txin_v list \<Rightarrow> u64 \<Rightarrow> u64 option" where
  "inputs_money_amount [] money = Some money"
| "inputs_money_amount (i # is) money =
     (let this_amount = get_amount_from_variant i
      in if this_amount = 0 then None else inputs_money_amount is (money + this_amount))"

definition get_inputs_money_amount :: "transaction \<Rightarrow> u64 option" where
  "get_inputs_money_amount tx = inputs_money_amount (vin tx) 0"

definition get_tx_fee :: "transaction \<Rightarrow> u64 option" where
  "get_tx_fee tx =
     (if is_coinbase tx then Some 0
      else let amount_out = get_outs_money_amount tx;
               amount_in = fold (\<lambda>i a. a + get_amount_from_variant i) (vin tx) 0
           in if amount_out \<le> amount_in then Some (amount_in - amount_out) else None)"

definition get_reward_from_miner_tx :: "transaction \<Rightarrow> u64" where
  "get_reward_from_miner_tx tx =
     (let income = fold (\<lambda>i a. case i of TxinToKey k \<Rightarrow> a + tk_amount k | _ \<Rightarrow> a) (vin tx) 0;
          reward = fold (\<lambda>out a. a + out_amount out) (vout tx) 0
      in reward - income)"

fun inputs_overflow :: "txin_v list \<Rightarrow> u64 \<Rightarrow> bool" where
  "inputs_overflow [] money = True"
| "inputs_overflow (TxinToKey i # is) money =
     (if tk_amount i + money < money then False else inputs_overflow is (money + tk_amount i))"
| "inputs_overflow (TxinMultisig i # is) money =
     (if ms_amount i + money < money then False else inputs_overflow is (money + ms_amount i))"
| "inputs_overflow (TxinGen i # is) money = False"

definition check_inputs_overflow :: "transaction \<Rightarrow> bool" where
  "check_inputs_overflow tx = inputs_overflow (vin tx) 0"

fun outs_overflow :: "tx_out list \<Rightarrow> u64 \<Rightarrow> bool" where
  "outs_overflow [] money = True"
| "outs_overflow (out # os) money =
     (if out_amount out + money < money then False else outs_overflow os (money + out_amount out))"

definition check_outs_overflow :: "transaction \<Rightarrow> bool" where
  "check_outs_overflow tx = outs_overflow (vout tx) 0"

definition check_money_overflow :: "transaction \<Rightarrow> bool" where
  "check_money_overflow tx \<longleftrightarrow> check_inputs_overflow tx \<and> check_outs_overflow tx"

definition get_amount_for_zero_pubkeys :: "transaction \<Rightarrow> u64" where
  "get_amount_for_zero_pubkeys tx =
     fold (\<lambda>out a. case out_target out of
         TxoutToKey o' \<Rightarrow> if out_key o' = null_pkey then a + out_amount out else a
       | TxoutMultisig _ \<Rightarrow> a) (vout tx) 0"

subsection \<open>Inputs and outputs\<close>

text \<open>\<open>crypto_ops::check_key\<close> of crypto.cpp.\<close>

definition check_key :: "public_key \<Rightarrow> bool" where
  "check_key key = (ge_frombytes_vartime key \<noteq> None)"

definition check_inputs_types_supported :: "transaction \<Rightarrow> bool" where
  "check_inputs_types_supported tx =
     list_all (\<lambda>i. case i of TxinGen _ \<Rightarrow> False | TxinToKey _ \<Rightarrow> True | TxinMultisig _ \<Rightarrow> True) (vin tx)"

definition out_valid :: "tx_out \<Rightarrow> bool" where
  "out_valid out \<longleftrightarrow> 0 < out_amount out \<and>
     (case out_target out of
        TxoutToKey k \<Rightarrow> check_key (out_key k)
      | TxoutMultisig ms \<Rightarrow> 0 < length (ms_keys ms) \<and> 0 < minimum_sigs ms \<and> unat (minimum_sigs ms) \<le> length (ms_keys ms))"

definition check_outs_valid :: "transaction \<Rightarrow> bool" where
  "check_outs_valid tx = list_all out_valid (vout tx)"

text \<open>\<open>ki\<close> is the unordered set of the key images seen so far.\<close>

fun keyimages_diff :: "txin_v list \<Rightarrow> key_image list \<Rightarrow> bool" where
  "keyimages_diff [] ki = True"
| "keyimages_diff (TxinToKey i # is) ki =
     (if tk_k_image i \<in> set ki then False else keyimages_diff is (tk_k_image i # ki))"
| "keyimages_diff (_ # is) ki = keyimages_diff is ki"

definition check_tx_inputs_keyimages_diff :: "transaction \<Rightarrow> bool" where
  "check_tx_inputs_keyimages_diff tx = keyimages_diff (vin tx) []"

definition is_mixin_tx :: "transaction \<Rightarrow> bool" where
  "is_mixin_tx tx =
     list_all (\<lambda>e. case e of TxinToKey i \<Rightarrow> 2 \<le> length (tk_key_offsets i) | _ \<Rightarrow> False) (vin tx)"

definition get_multisig_out_index :: "tx_out list \<Rightarrow> nat" where
  "get_multisig_out_index outs =
     length (takeWhile (\<lambda>out. case out_target out of TxoutMultisig _ \<Rightarrow> False | _ \<Rightarrow> True) outs)"

definition get_multisig_in_index :: "txin_v list \<Rightarrow> nat" where
  "get_multisig_in_index inputs = length (takeWhile (\<lambda>i. case i of TxinMultisig _ \<Rightarrow> False | _ \<Rightarrow> True) inputs)"

definition get_input_expected_signatures_count :: "txin_v \<Rightarrow> nat" where
  "get_input_expected_signatures_count i =
     (case i of TxinGen _ \<Rightarrow> 0 | TxinToKey k \<Rightarrow> length (tk_key_offsets k) | TxinMultisig m \<Rightarrow> unat (ms_sigs_count m))"

definition append_per_block_increments_for_tx :: "transaction \<Rightarrow> (u64 \<Rightarrow> u32) \<Rightarrow> u64 \<Rightarrow> u32" where
  "append_per_block_increments_for_tx tx gindices =
     fold (\<lambda>out g. case out_target out of
         TxoutToKey _ \<Rightarrow> g(out_amount out := g (out_amount out) + 1)
       | TxoutMultisig _ \<Rightarrow> g) (vout tx) gindices"

subsection \<open>Extra entries\<close>

record tx_extra_info =
  ei_tx_pub_key :: public_key
  ei_alias :: "extra_alias_entry option"
  ei_user_data_blob :: bytes
  ei_attachment_info :: "extra_attachment_info option"

record tx_extra_handler =
  was_padding :: bool
  was_pubkey :: bool
  was_attachment :: bool
  was_userdata :: bool
  was_alias :: bool
  rei :: tx_extra_info

fun visit_extra :: "extra_v \<Rightarrow> tx_extra_handler \<Rightarrow> tx_extra_handler option" where
  "visit_extra (ExtraPublicKey k) h =
     (if was_pubkey h then None
      else Some (h\<lparr>was_pubkey := True, rei := (rei h)\<lparr>ei_tx_pub_key := k\<rparr>\<rparr>))"
| "visit_extra (ExtraAttachmentInfo ai) h =
     (if was_attachment h then None
      else Some (h\<lparr>was_attachment := True, rei := (rei h)\<lparr>ei_attachment_info := Some ai\<rparr>\<rparr>))"
| "visit_extra (ExtraAliasEntry ae) h =
     (if was_alias h then None
      else Some (h\<lparr>was_alias := True, rei := (rei h)\<lparr>ei_alias := Some ae\<rparr>\<rparr>))"
| "visit_extra (ExtraUserData ud) h =
     (if was_userdata h then None
      else Some (h\<lparr>was_userdata := True,
        rei := (if ud \<noteq> [] then (rei h)\<lparr>ei_user_data_blob := ud\<rparr> else rei h)\<rparr>))"
| "visit_extra (ExtraPadding k) h =
     (if was_padding h then None else Some (h\<lparr>was_padding := True\<rparr>))"
| "visit_extra _ h = Some h"

fun visit_extras :: "extra_v list \<Rightarrow> tx_extra_handler \<Rightarrow> tx_extra_handler option" where
  "visit_extras [] h = Some h"
| "visit_extras (e # es) h = Option.bind (visit_extra e h) (visit_extras es)"

definition extra_handler :: tx_extra_handler where
  "extra_handler = \<lparr>was_padding = False, was_pubkey = False, was_attachment = False, was_userdata = False,
     was_alias = False, rei = \<lparr>ei_tx_pub_key = null_pkey, ei_alias = None, ei_user_data_blob = [], ei_attachment_info = None\<rparr>\<rparr>"

definition parse_and_validate_tx_extra :: "transaction \<Rightarrow> tx_extra_info option" where
  "parse_and_validate_tx_extra tx = map_option rei (visit_extras (extra tx) extra_handler)"

definition check_tx_extra :: "transaction \<Rightarrow> bool" where
  "check_tx_extra tx = (parse_and_validate_tx_extra tx \<noteq> None)"

text \<open>\<open>get_tx_x_detail\<close>: the value of the first entry of the type, or zero.\<close>

fun first_of :: "('a \<Rightarrow> 'b option) \<Rightarrow> 'a list \<Rightarrow> 'b option" where
  "first_of f [] = None"
| "first_of f (e # es) = (case f e of Some v \<Rightarrow> Some v | None \<Rightarrow> first_of f es)"

definition get_tx_pub_key_from_extra :: "transaction \<Rightarrow> public_key" where
  "get_tx_pub_key_from_extra tx =
     (case first_of (\<lambda>e. case e of ExtraPublicKey k \<Rightarrow> Some k | _ \<Rightarrow> None) (extra tx) of Some k \<Rightarrow> k | None \<Rightarrow> null_pkey)"

definition get_tx_unlock_time :: "transaction \<Rightarrow> u64" where
  "get_tx_unlock_time tx =
     (case first_of (\<lambda>e. case e of EtcTxDetailsUnlockTime v \<Rightarrow> Some v | _ \<Rightarrow> None) (extra tx) of Some v \<Rightarrow> v | None \<Rightarrow> 0)"

definition get_tx_flags :: "transaction \<Rightarrow> u64" where
  "get_tx_flags tx =
     (case first_of (\<lambda>e. case e of EtcTxDetailsFlags v \<Rightarrow> Some v | _ \<Rightarrow> None) (extra tx) of Some v \<Rightarrow> v | None \<Rightarrow> 0)"

definition get_tx_expiration_time :: "transaction \<Rightarrow> u64" where
  "get_tx_expiration_time tx =
     (case first_of (\<lambda>e. case e of EtcTxDetailsExpirationTime v \<Rightarrow> Some v | _ \<Rightarrow> None) (extra tx) of Some v \<Rightarrow> v | None \<Rightarrow> 0)"

fun update_or_add :: "('a \<Rightarrow> bool) \<Rightarrow> 'a \<Rightarrow> 'a list \<Rightarrow> 'a list" where
  "update_or_add p v [] = [v]"
| "update_or_add p v (e # es) = (if p e then v # es else e # update_or_add p v es)"

definition set_tx_unlock_time :: "transaction \<Rightarrow> u64 \<Rightarrow> transaction" where
  "set_tx_unlock_time tx v =
     tx\<lparr>extra := update_or_add (\<lambda>e. case e of EtcTxDetailsUnlockTime _ \<Rightarrow> True | _ \<Rightarrow> False) (EtcTxDetailsUnlockTime v) (extra tx)\<rparr>"

definition set_tx_flags :: "transaction \<Rightarrow> u64 \<Rightarrow> transaction" where
  "set_tx_flags tx v =
     tx\<lparr>extra := update_or_add (\<lambda>e. case e of EtcTxDetailsFlags _ \<Rightarrow> True | _ \<Rightarrow> False) (EtcTxDetailsFlags v) (extra tx)\<rparr>"

definition set_tx_expiration_time :: "transaction \<Rightarrow> u64 \<Rightarrow> transaction" where
  "set_tx_expiration_time tx v =
     tx\<lparr>extra := update_or_add (\<lambda>e. case e of EtcTxDetailsExpirationTime _ \<Rightarrow> True | _ \<Rightarrow> False) (EtcTxDetailsExpirationTime v) (extra tx)\<rparr>"

text \<open>\<open>for (auto ex : tx.extra)\<close> resizes a copy of the entry; \<open>None\<close> is the exception.\<close>

definition remove_padding_from_tx :: "transaction \<Rightarrow> nat \<Rightarrow> (bool \<times> transaction) option" where
  "remove_padding_from_tx tx cnt =
     (if cnt = 0 then Some (True, tx)
      else case first_of (\<lambda>e. case e of ExtraPadding buff \<Rightarrow> Some buff | _ \<Rightarrow> None) (extra tx) of
          None \<Rightarrow> None
        | Some buff \<Rightarrow> Some (cnt \<le> length buff, tx))"

definition get_actual_timestamp :: "block \<Rightarrow> u64" where
  "get_actual_timestamp b =
     (let tes_ts = timestamp b
      in if is_pos_block b
         then (case first_of (\<lambda>e. case e of EtcTxTime v \<Rightarrow> Some v | _ \<Rightarrow> None) (extra (miner_tx b)) of
                 Some v \<Rightarrow> v | None \<Rightarrow> tes_ts)
         else tes_ts)"

subsection \<open>The semantic check (tx_validation.cpp)\<close>

definition check_tx_semantic :: "transaction \<Rightarrow> bool" where
  "check_tx_semantic tx =
     (if vin tx = [] then False
      else if \<not> check_inputs_types_supported tx then False
      else if \<not> check_outs_valid tx then False
      else if \<not> check_money_overflow tx then False
      else case get_inputs_money_amount tx of
          None \<Rightarrow> False
        | Some in_amount \<Rightarrow>
            let out_amount = get_outs_money_amount tx
            in if in_amount < out_amount then False
               else if \<not> check_tx_inputs_keyimages_diff tx then False
               else if \<not> check_tx_extra tx then False
               else True)"

subsection \<open>Times, mixing and names\<close>

definition CURRENCY_MAX_BLOCK_NUMBER :: u64 where "CURRENCY_MAX_BLOCK_NUMBER = 500000000"
definition CURRENCY_LOCKED_TX_ALLOWED_DELTA_BLOCKS :: u64 where "CURRENCY_LOCKED_TX_ALLOWED_DELTA_BLOCKS = 1"
definition DIFFICULTY_TOTAL_TARGET :: u64 where "DIFFICULTY_TOTAL_TARGET = (120 + 120) div 4"
definition CURRENCY_LOCKED_TX_ALLOWED_DELTA_SECONDS :: u64 where
  "CURRENCY_LOCKED_TX_ALLOWED_DELTA_SECONDS = DIFFICULTY_TOTAL_TARGET * CURRENCY_LOCKED_TX_ALLOWED_DELTA_BLOCKS"
definition TX_EXPIRATION_MEDIAN_SHIFT :: u64 where "TX_EXPIRATION_MEDIAN_SHIFT = (20 div 2) * DIFFICULTY_TOTAL_TARGET"

definition is_tx_spendtime_unlocked :: "u64 \<Rightarrow> u64 \<Rightarrow> u64 \<Rightarrow> bool" where
  "is_tx_spendtime_unlocked unlock_time current_blockchain_size current_time =
     (if unlock_time < CURRENCY_MAX_BLOCK_NUMBER
      then unlock_time \<le> current_blockchain_size - 1 + CURRENCY_LOCKED_TX_ALLOWED_DELTA_BLOCKS
      else unlock_time \<le> current_time + CURRENCY_LOCKED_TX_ALLOWED_DELTA_SECONDS)"

definition is_tx_expired :: "transaction \<Rightarrow> u64 \<Rightarrow> bool" where
  "is_tx_expired tx expiration_ts_median =
     (let expiration_time = get_tx_expiration_time tx
      in if expiration_time = 0 then False
         else expiration_time \<le> expiration_ts_median + TX_EXPIRATION_MEDIAN_SHIFT)"

definition is_mixattr_applicable_for_fake_outs_counter :: "u8 \<Rightarrow> u64 \<Rightarrow> bool" where
  "is_mixattr_applicable_for_fake_outs_counter attr fake_outputs_count =
     (if 2 \<le> attr then ucast attr \<le> fake_outputs_count + 1
      else if attr = 1 then fake_outputs_count = 0
      else True)"

text \<open>The table of \<open>validate_alias_name\<close> allows \<open>-\<close>, \<open>.\<close>, the digits and the small letters.\<close>

definition alias_alphabet :: "u8 \<Rightarrow> bool" where
  "alias_alphabet c \<longleftrightarrow> c = 0x2D \<or> c = 0x2E \<or> (0x30 \<le> c \<and> c \<le> 0x39) \<or> (0x61 \<le> c \<and> c \<le> 0x7A)"

definition ALIAS_NAME_MAX_LEN :: nat where "ALIAS_NAME_MAX_LEN = 255"

definition validate_alias_name :: "bytes \<Rightarrow> bool" where
  "validate_alias_name al \<longleftrightarrow> length al \<le> ALIAS_NAME_MAX_LEN \<and> list_all alias_alphabet al"

definition get_alias_cost_from_fee :: "bytes \<Rightarrow> u64 \<Rightarrow> u64" where
  "get_alias_cost_from_fee alias median_fee = median_fee * 10"

subsection \<open>References to outputs\<close>

text \<open>The loop over \<open>i\<close> from 1; \<open>p\<close> is \<open>res[i - 1]\<close>, already absolute.\<close>

fun absolute_from :: "txout_v \<Rightarrow> txout_v list \<Rightarrow> txout_v list option" where
  "absolute_from p [] = Some []"
| "absolute_from p (RefById r # xs) = Some (RefById r # xs)"
| "absolute_from p (GlobalIndex n # xs) =
     (case p of
        GlobalIndex m \<Rightarrow> map_option (Cons (GlobalIndex (n + m))) (absolute_from (GlobalIndex (n + m)) xs)
      | RefById _ \<Rightarrow> None)"

fun relative_output_offsets_to_absolute :: "txout_v list \<Rightarrow> txout_v list option" where
  "relative_output_offsets_to_absolute [] = Some []"
| "relative_output_offsets_to_absolute (x # xs) = map_option (Cons x) (absolute_from x xs)"

text \<open>The comparison handed to \<open>std::sort\<close>.\<close>

fun txout_less :: "txout_v \<Rightarrow> txout_v \<Rightarrow> bool" where
  "txout_less (GlobalIndex a) (GlobalIndex b) = (a < b)"
| "txout_less (GlobalIndex a) (RefById r) = True"
| "txout_less (RefById r) _ = False"

fun is_ref :: "txout_v \<Rightarrow> bool" where
  "is_ref (RefById _) = True"
| "is_ref (GlobalIndex _) = False"

text \<open>\<open>while (i != 0 && res[i] is ref_by_id) --i;\<close> and the loop of subtractions downwards.\<close>

fun skip_refs :: "nat \<Rightarrow> txout_v list \<Rightarrow> nat" where
  "skip_refs 0 res = 0"
| "skip_refs (Suc i) res = (if is_ref (res ! Suc i) then skip_refs i res else Suc i)"

fun subtract_down :: "nat \<Rightarrow> txout_v list \<Rightarrow> txout_v list option" where
  "subtract_down 0 res = Some res"
| "subtract_down (Suc i) res =
     (case (res ! Suc i, res ! i) of
        (GlobalIndex a, GlobalIndex b) \<Rightarrow> subtract_down i (res[Suc i := GlobalIndex (a - b)])
      | _ \<Rightarrow> None)"

text \<open>\<open>std::sort\<close> is not stable: it is a parameter with its contract.\<close>

definition absolute_output_offsets_to_relative ::
    "((txout_v \<Rightarrow> txout_v \<Rightarrow> bool) \<Rightarrow> txout_v list \<Rightarrow> txout_v list) \<Rightarrow> txout_v list \<Rightarrow> txout_v list option" where
  "absolute_output_offsets_to_relative srt off =
     (if length off < 2 then Some off
      else let res = srt txout_less off
           in subtract_down (skip_refs (length res - 1) res) res)"

locale std_permute =
  fixes srt :: "('a \<Rightarrow> 'a \<Rightarrow> bool) \<Rightarrow> 'a list \<Rightarrow> 'a list" and lt :: "'a \<Rightarrow> 'a \<Rightarrow> bool"
  assumes permutes: "mset (srt lt xs) = mset xs"
begin

lemma same_size: "size (srt lt xs) = size xs"
  by (metis permutes size_mset)

lemma same_set: "set (srt lt xs) = set xs"
  by (metis permutes set_mset_mset)

end

locale std_sort = std_permute +
  assumes ordered: "sorted_wrt (\<lambda>x y. \<not> lt y x) (srt lt xs)"

text \<open>Insertion behind equal elements.\<close>

fun insert_by :: "('a \<Rightarrow> 'a \<Rightarrow> bool) \<Rightarrow> 'a \<Rightarrow> 'a list \<Rightarrow> 'a list" where
  "insert_by lt x [] = [x]"
| "insert_by lt x (y # ys) = (if lt x y then x # y # ys else y # insert_by lt x ys)"

definition insertion_sort :: "('a \<Rightarrow> 'a \<Rightarrow> bool) \<Rightarrow> 'a list \<Rightarrow> 'a list" where
  "insertion_sort lt xs = fold (insert_by lt) xs []"

lemma mset_insert_by [simp]: "mset (insert_by lt x ys) = add_mset x (mset ys)"
  by (induction ys) auto

lemma mset_insertion_fold: "mset (fold (insert_by lt) xs acc) = mset xs + mset acc"
  by (induction xs arbitrary: acc) simp_all

lemma txout_less_asym: "txout_less a b \<Longrightarrow> \<not> txout_less b a"
  by (cases "(a, b)" rule: txout_less.cases) auto

lemma txout_less_trans: "\<not> txout_less b a \<Longrightarrow> \<not> txout_less c b \<Longrightarrow> \<not> txout_less c a"
  by (cases a; cases b; cases c) auto

lemma insert_by_sorted:
  "sorted_wrt (\<lambda>x y. \<not> txout_less y x) ys \<Longrightarrow> sorted_wrt (\<lambda>x y. \<not> txout_less y x) (insert_by txout_less x ys)"
proof (induction ys)
  case (Cons y ys)
  have s: "set (insert_by txout_less x ys) = insert x (set ys)" by (metis mset_insert_by set_mset_add_mset_insert set_mset_mset)
  show ?case
  proof (cases "txout_less x y")
    case True
    then have yx: "\<not> txout_less y x" by (rule txout_less_asym)
    then have "\<forall>z \<in> set ys. \<not> txout_less z x" using Cons.prems txout_less_trans [OF yx] by simp
    then show ?thesis using Cons.prems True yx by simp
  next
    case False
    then show ?thesis using Cons s by simp
  qed
qed simp

lemma insertion_fold_sorted:
  "sorted_wrt (\<lambda>x y. \<not> txout_less y x) acc \<Longrightarrow>
    sorted_wrt (\<lambda>x y. \<not> txout_less y x) (fold (insert_by txout_less) xs acc)"
  by (induction xs arbitrary: acc) (simp_all add: insert_by_sorted)

interpretation offsets_sort: std_sort insertion_sort txout_less
  by unfold_locales (simp_all add: insertion_sort_def mset_insertion_fold insertion_fold_sorted)

subsection \<open>Exact sums\<close>

definition ins_total :: "transaction \<Rightarrow> nat" where
  "ins_total tx = (\<Sum>i\<leftarrow>vin tx. unat (get_amount_from_variant i))"

definition outs_total :: "transaction \<Rightarrow> nat" where
  "outs_total tx = (\<Sum>out\<leftarrow>vout tx. unat (out_amount out))"

lemma sum_wraps: "a + m < m \<longleftrightarrow> 2 ^ 64 \<le> unat m + unat a" for a m :: u64
proof -
  have "m + a < m \<longleftrightarrow> 2 ^ LENGTH(64) \<le> unat m + unat a" by (rule add_wraps_iff)
  then show ?thesis unfolding add.commute [of a m] by simp
qed

lemma sum_exact: "unat m + unat a < 2 ^ 64 \<Longrightarrow> unat (m + a) = unat m + unat a" for a m :: u64
  by (rule unat_add_no_wrap) simp

lemma outs_overflow_exact:
  "outs_overflow os money \<longleftrightarrow> unat money + (\<Sum>out\<leftarrow>os. unat (out_amount out)) < 2 ^ 64"
proof (induction os arbitrary: money)
  case (Cons out os)
  have w: "out_amount out + money < money \<longleftrightarrow> 2 ^ 64 \<le> unat money + unat (out_amount out)"
    by (rule sum_wraps)
  show ?case
  proof (cases "2 ^ 64 \<le> unat money + unat (out_amount out)")
    case True
    then show ?thesis using w by simp
  next
    case False
    then have "unat (money + out_amount out) = unat money + unat (out_amount out)"
      by (intro sum_exact) simp
    then show ?thesis using w False Cons by (simp add: add.assoc)
  qed
qed (use unat_u64_lt in simp)

lemma inputs_overflow_exact:
  "inputs_overflow is money \<longleftrightarrow>
    list_all (\<lambda>i. case i of TxinGen _ \<Rightarrow> False | TxinToKey _ \<Rightarrow> True | TxinMultisig _ \<Rightarrow> True) is \<and>
    unat money + (\<Sum>i\<leftarrow>is. unat (get_amount_from_variant i)) < 2 ^ 64"
proof (induction "is" arbitrary: money)
  case (Cons i "is")
  let ?a = "get_amount_from_variant i"
  have w: "?a + money < money \<longleftrightarrow> 2 ^ 64 \<le> unat money + unat ?a"
    by (rule sum_wraps)
  have e: "inputs_overflow (i # is) money \<longleftrightarrow>
      (case i of TxinGen _ \<Rightarrow> False | TxinToKey _ \<Rightarrow> True | TxinMultisig _ \<Rightarrow> True) \<and> \<not> ?a + money < money \<and> inputs_overflow is (money + ?a)"
    by (cases i) (simp_all add: get_amount_from_variant_def)
  show ?case
  proof (cases "2 ^ 64 \<le> unat money + unat ?a")
    case True
    then show ?thesis using w e by simp
  next
    case False
    then have "unat (money + ?a) = unat money + unat ?a" by (intro sum_exact) simp
    then show ?thesis unfolding e Cons using w False by (simp add: add.assoc)
  qed
qed (use unat_u64_lt in simp)

lemma outs_sum:
  "unat money + (\<Sum>out\<leftarrow>os. unat (out_amount out)) < 2 ^ 64 \<Longrightarrow>
    unat (fold (\<lambda>out a. a + out_amount out) os money) = unat money + (\<Sum>out\<leftarrow>os. unat (out_amount out))"
proof (induction os arbitrary: money)
  case (Cons out os)
  then have "unat (money + out_amount out) = unat money + unat (out_amount out)"
    by (intro sum_exact) simp
  then show ?case using Cons by simp
qed simp

lemma ins_sum:
  "unat money + (\<Sum>i\<leftarrow>is. unat (get_amount_from_variant i)) < 2 ^ 64 \<Longrightarrow>
    unat (fold (\<lambda>i a. a + get_amount_from_variant i) is money) = unat money + (\<Sum>i\<leftarrow>is. unat (get_amount_from_variant i))"
proof (induction "is" arbitrary: money)
  case (Cons i "is")
  then have "unat (money + get_amount_from_variant i) = unat money + unat (get_amount_from_variant i)"
    by (intro sum_exact) simp
  then show ?case using Cons by simp
qed simp

lemma inputs_money_amount_eq:
  "inputs_money_amount is money =
    (if \<exists>i \<in> set is. get_amount_from_variant i = 0 then None
     else Some (fold (\<lambda>i a. a + get_amount_from_variant i) is money))"
  by (induction "is" arbitrary: money) (auto simp: Let_def)

definition key_images :: "transaction \<Rightarrow> key_image list" where
  "key_images tx = concat (map (\<lambda>i. case i of TxinToKey k \<Rightarrow> [tk_k_image k] | _ \<Rightarrow> []) (vin tx))"

lemma keyimages_diff_exact:
  "keyimages_diff is ki \<longleftrightarrow>
    (let ks = concat (map (\<lambda>i. case i of TxinToKey k \<Rightarrow> [tk_k_image k] | _ \<Rightarrow> []) is)
     in distinct ks \<and> set ks \<inter> set ki = {})"
  by (induction "is" ki rule: keyimages_diff.induct) (auto simp: Let_def)

text \<open>The kinds of extra entries that may occur once.\<close>

fun extra_kind :: "extra_v \<Rightarrow> nat list" where
  "extra_kind (ExtraPublicKey _) = [0]"
| "extra_kind (ExtraAttachmentInfo _) = [1]"
| "extra_kind (ExtraAliasEntry _) = [2]"
| "extra_kind (ExtraUserData _) = [3]"
| "extra_kind (ExtraPadding _) = [4]"
| "extra_kind _ = []"

definition seen_kinds :: "tx_extra_handler \<Rightarrow> nat list" where
  "seen_kinds h = (if was_pubkey h then [0] else []) @ (if was_attachment h then [1] else []) @
     (if was_alias h then [2] else []) @ (if was_userdata h then [3] else []) @ (if was_padding h then [4] else [])"

lemma visit_extra_kind:
  "(visit_extra e h = None \<longleftrightarrow> set (extra_kind e) \<inter> set (seen_kinds h) \<noteq> {}) \<and>
    (\<forall>h'. visit_extra e h = Some h' \<longrightarrow> set (seen_kinds h') = set (extra_kind e) \<union> set (seen_kinds h))"
  by (cases e) (auto simp: seen_kinds_def split: if_splits)

lemma visit_extras_exact:
  "visit_extras es h \<noteq> None \<longleftrightarrow>
    distinct (concat (map extra_kind es)) \<and> set (concat (map extra_kind es)) \<inter> set (seen_kinds h) = {}"
proof (induction es arbitrary: h)
  case (Cons e es)
  have d: "distinct (extra_kind e)" by (cases e) simp_all
  note k = visit_extra_kind [of e h]
  show ?case
  proof (cases "visit_extra e h")
    case None
    then show ?thesis using k by auto
  next
    case (Some h')
    then have "set (seen_kinds h') = set (extra_kind e) \<union> set (seen_kinds h)"
      and "set (extra_kind e) \<inter> set (seen_kinds h) = {}" using k by auto
    then show ?thesis using Some Cons [of h'] d by auto
  qed
qed simp

lemma check_tx_extra_exact: "check_tx_extra tx \<longleftrightarrow> distinct (concat (map extra_kind (extra tx)))"
  using visit_extras_exact [of "extra tx" extra_handler]
  by (simp add: check_tx_extra_def parse_and_validate_tx_extra_def extra_handler_def seen_kinds_def)

subsection \<open>Differences and sums of indices\<close>

fun differences :: "u64 \<Rightarrow> u64 list \<Rightarrow> u64 list" where
  "differences p [] = []"
| "differences p (n # ns) = (n - p) # differences n ns"

lemma length_differences [simp]: "length (differences p ns) = length ns"
  by (induction p ns rule: differences.induct) simp_all

lemma differences_snoc: "differences p (ns @ [n]) = differences p ns @ [n - last (p # ns)]"
  by (induction p ns rule: differences.induct) simp_all

lemma absolute_differences:
  "absolute_from (GlobalIndex p) (map GlobalIndex (differences p ns) @ map RefById rs) =
    Some (map GlobalIndex ns @ map RefById rs)"
  by (induction p ns rule: differences.induct) (cases rs; simp)+

lemma subtract_down_differences:
  "subtract_down (length ns) (map GlobalIndex (n # ns) @ zs) = Some (map GlobalIndex (n # differences n ns) @ zs)"
proof (induction ns arbitrary: zs rule: rev_induct)
  case (snoc m ns)
  let ?xs = "map GlobalIndex (n # ns)"
  have l: "length ?xs = Suc (length ns)" by simp
  have at: "(map GlobalIndex (n # ns @ [m]) @ zs) ! Suc (length ns) = GlobalIndex m"
    "(map GlobalIndex (n # ns @ [m]) @ zs) ! length ns = GlobalIndex (last (n # ns))"
    "(map GlobalIndex (n # ns @ [m]) @ zs)[Suc (length ns) := GlobalIndex (m - last (n # ns))] =
      map GlobalIndex (n # ns) @ GlobalIndex (m - last (n # ns)) # zs"
  proof -
    have e: "map GlobalIndex (n # ns @ [m]) @ zs = ?xs @ GlobalIndex m # zs" by simp
    show "(map GlobalIndex (n # ns @ [m]) @ zs) ! Suc (length ns) = GlobalIndex m"
      unfolding e using nth_append_length [of ?xs] by simp
    have "(?xs @ GlobalIndex m # zs) ! length ns = ?xs ! length ns" by (rule nth_append_left) simp
    also have "\<dots> = GlobalIndex ((n # ns) ! length ns)" by (rule nth_map) simp
    also have "(n # ns) ! length ns = last (n # ns)" by (simp add: last_conv_nth)
    finally show "(map GlobalIndex (n # ns @ [m]) @ zs) ! length ns = GlobalIndex (last (n # ns))" unfolding e .
    show "(map GlobalIndex (n # ns @ [m]) @ zs)[Suc (length ns) := GlobalIndex (m - last (n # ns))] =
      map GlobalIndex (n # ns) @ GlobalIndex (m - last (n # ns)) # zs"
      unfolding e using list_update_length [of ?xs "GlobalIndex m" zs] by simp
  qed
  have "subtract_down (length (ns @ [m])) (map GlobalIndex (n # ns @ [m]) @ zs) =
      subtract_down (length ns) (map GlobalIndex (n # ns) @ GlobalIndex (m - last (n # ns)) # zs)"
    using at by simp
  also have "\<dots> = Some (map GlobalIndex (n # differences n ns) @ GlobalIndex (m - last (n # ns)) # zs)"
    by (rule snoc.IH)
  finally show ?case by (simp add: differences_snoc)
qed simp

lemma skip_refs_prefix:
  "i < Suc (length ns) + length rs \<Longrightarrow> length ns \<le> i \<Longrightarrow>
    skip_refs i (map GlobalIndex (n # ns) @ map RefById rs) = length ns"
proof (induction i)
  case (Suc i)
  show ?case
  proof (cases "length ns = Suc i")
    case True
    have "(map GlobalIndex (n # ns) @ map RefById rs) ! Suc i = GlobalIndex ((n # ns) ! Suc i)"
      using True by (simp add: nth_append)
    then show ?thesis using True by simp
  next
    case False
    then have "(map GlobalIndex (n # ns) @ map RefById rs) ! Suc i = RefById (rs ! (Suc i - Suc (length ns)))"
      using Suc.prems by (simp add: nth_append)
    then show ?thesis using Suc False by simp
  qed
qed simp

lemma skip_refs_all: "i < length rs \<Longrightarrow> skip_refs i (map RefById rs) = 0"
  by (induction i) simp_all

lemma sorted_offsets_split:
  "sorted_wrt (\<lambda>x y. \<not> txout_less y x) xs \<Longrightarrow>
    \<exists>ns rs. xs = map GlobalIndex ns @ map RefById rs \<and> sorted ns"
proof (induction xs)
  case (Cons x xs)
  then obtain ns rs where xs: "xs = map GlobalIndex ns @ map RefById rs" "sorted ns" by auto
  show ?case
  proof (cases x)
    case (GlobalIndex n)
    have "n \<le> m" if "m \<in> set ns" for m
    proof -
      have "GlobalIndex m \<in> set xs" using xs that by simp
      then have "\<not> txout_less (GlobalIndex m) (GlobalIndex n)"
        using Cons.prems unfolding GlobalIndex sorted_wrt.simps by blast
      then show ?thesis by simp
    qed
    then have "sorted (n # ns)" using xs by simp
    then show ?thesis using GlobalIndex xs by (intro exI [of _ "n # ns"] exI [of _ rs]) simp
  next
    case (RefById r)
    then have "ns = []" using Cons.prems xs by (cases ns) auto
    then show ?thesis using RefById xs by (intro exI [of _ "[]"] exI [of _ "r # rs"]) simp
  qed
qed simp

lemma relative_of_sorted:
  assumes "xs = map GlobalIndex ns @ map RefById rs" and "2 \<le> length xs"
  shows "\<exists>ys. subtract_down (skip_refs (length xs - 1) xs) xs = Some ys \<and> relative_output_offsets_to_absolute ys = Some xs"
proof (cases ns)
  case Nil
  then obtain r rs' where rs: "rs = r # rs'" using assms by (cases rs) auto
  have "skip_refs (length xs - 1) xs = 0" using skip_refs_all [of "length xs - 1" rs] assms Nil rs by simp
  moreover have "relative_output_offsets_to_absolute xs = Some xs" using assms Nil rs by (cases rs') simp_all
  ultimately show ?thesis by simp
next
  case (Cons n ns')
  have "skip_refs (length xs - 1) xs = length ns'"
    using skip_refs_prefix [of "length xs - 1" ns' rs n] assms Cons by simp
  then have "subtract_down (skip_refs (length xs - 1) xs) xs = Some (map GlobalIndex (n # differences n ns') @ map RefById rs)"
    using subtract_down_differences [of ns' n "map RefById rs"] assms Cons by simp
  moreover have "relative_output_offsets_to_absolute (map GlobalIndex (n # differences n ns') @ map RefById rs) = Some xs"
    using absolute_differences [of n ns' rs] assms Cons by simp
  ultimately show ?thesis by blast
qed


lemma semantic_iff:
  "check_tx_semantic tx \<longleftrightarrow>
     vin tx \<noteq> [] \<and> (\<forall>i \<in> set (vin tx). (\<forall>g. i \<noteq> TxinGen g) \<and> get_amount_from_variant i \<noteq> 0) \<and>
     list_all out_valid (vout tx) \<and> ins_total tx < 2 ^ 64 \<and> outs_total tx \<le> ins_total tx \<and>
     distinct (key_images tx) \<and> distinct (concat (map extra_kind (extra tx)))"
proof -
  have types: "check_inputs_types_supported tx \<longleftrightarrow> (\<forall>i \<in> set (vin tx). \<forall>g. i \<noteq> TxinGen g)"
    unfolding check_inputs_types_supported_def list_all_iff by (rule ball_cong) (auto split: txin_v.splits)
  have overflow: "check_money_overflow tx \<longleftrightarrow> check_inputs_types_supported tx \<and> ins_total tx < 2 ^ 64 \<and> outs_total tx < 2 ^ 64"
    by (simp add: check_money_overflow_def check_inputs_overflow_def check_outs_overflow_def inputs_overflow_exact
        outs_overflow_exact check_inputs_types_supported_def ins_total_def outs_total_def)
  have sums: "get_inputs_money_amount tx =
      (if \<exists>i \<in> set (vin tx). get_amount_from_variant i = 0 then None
       else Some (fold (\<lambda>i a. a + get_amount_from_variant i) (vin tx) 0))"
    by (simp add: get_inputs_money_amount_def inputs_money_amount_eq)
  have ins: "unat (fold (\<lambda>i a. a + get_amount_from_variant i) (vin tx) 0) = ins_total tx" if "ins_total tx < 2 ^ 64"
    using ins_sum [of 0 "vin tx"] that by (simp add: ins_total_def)
  have outs: "unat (get_outs_money_amount tx) = outs_total tx" if "outs_total tx < 2 ^ 64"
    using outs_sum [of 0 "vout tx"] that by (simp add: outs_total_def get_outs_money_amount_def)
  have images: "check_tx_inputs_keyimages_diff tx \<longleftrightarrow> distinct (key_images tx)"
    by (simp add: check_tx_inputs_keyimages_diff_def keyimages_diff_exact key_images_def)
  show ?thesis
  proof (cases "vin tx \<noteq> [] \<and> check_inputs_types_supported tx \<and> check_outs_valid tx \<and> ins_total tx < 2 ^ 64 \<and>
      outs_total tx < 2 ^ 64 \<and> (\<forall>i \<in> set (vin tx). get_amount_from_variant i \<noteq> 0)")
    case True
    then have "check_tx_semantic tx \<longleftrightarrow> outs_total tx \<le> ins_total tx \<and> distinct (key_images tx) \<and> check_tx_extra tx"
      using ins outs by (auto simp: check_tx_semantic_def overflow sums images Let_def word_less_nat_alt)
    then show ?thesis using True by (auto simp: types check_outs_valid_def check_tx_extra_exact)
  next
    case False
    then have "\<not> check_tx_semantic tx" by (auto simp: check_tx_semantic_def overflow sums)
    then show ?thesis using False by (auto simp: types check_outs_valid_def)
  qed
qed

subsection \<open>Properties\<close>

text \<open>C5: What \<open>check_tx_semantic\<close> accepts, exactly: a transaction with at least one input, no coinbase input, no
  input of amount zero, valid outputs (positive amounts, keys that decode to points of the curve, satisfiable multisig
  thresholds), inputs that add up below \<open>2 ^ 64\<close> without wrapping, outputs that add up to at most that, pairwise
  different key images, and at most one public key, attachment info, alias, user data and padding among its extra
  entries.\<close>
theorem check_tx_semantic_exact:
  "check_tx_semantic tx \<longleftrightarrow>
     vin tx \<noteq> [] \<and> (\<forall>i \<in> set (vin tx). (\<forall>g. i \<noteq> TxinGen g) \<and> get_amount_from_variant i \<noteq> 0) \<and>
     list_all out_valid (vout tx) \<and> ins_total tx < 2 ^ 64 \<and> outs_total tx \<le> ins_total tx \<and>
     distinct (key_images tx) \<and> distinct (concat (map extra_kind (extra tx)))"
  by (rule semantic_iff)

definition simple_tx :: transaction where
  "simple_tx = \<lparr>tx_version = 1,
     vin = [TxinToKey \<lparr>tk_amount = 7, tk_key_offsets = [GlobalIndex 3], tk_k_image = replicate 32 9, tk_etc_details = []\<rparr>],
     vout = [\<lparr>out_amount = 5, out_target = TxoutToKey \<lparr>out_key = 1 # replicate 31 0, mix_attr = 0\<rparr>\<rparr>],
     extra = [ExtraPublicKey (1 # replicate 31 0), EtcTxDetailsUnlockTime 4], signatures = [], attachment = []\<rparr>"

lemma simple_tx_semantic:
  "vin simple_tx \<noteq> [] \<and> (\<forall>i \<in> set (vin simple_tx). (\<forall>g. i \<noteq> TxinGen g) \<and> get_amount_from_variant i \<noteq> 0) \<and>
     list_all out_valid (vout simple_tx) \<and> ins_total simple_tx < 2 ^ 64 \<and> outs_total simple_tx \<le> ins_total simple_tx \<and>
     distinct (key_images simple_tx) \<and> distinct (concat (map extra_kind (extra simple_tx)))"
  using ge_frombytes_neutral
  by (auto simp: simple_tx_def out_valid_def check_key_def get_amount_from_variant_def ins_total_def outs_total_def key_images_def)

lemma check_tx_semantic_exact_witness: "check_tx_semantic simple_tx"
  unfolding check_tx_semantic_exact by (rule simple_tx_semantic)

text \<open>C3: No money from nothing: for a transaction that passes \<open>check_tx_semantic\<close>, \<open>get_tx_fee\<close> succeeds and, over
  the integers, the inputs add up to the outputs plus the fee; the key images of its inputs are different, so
  that no ring input is counted twice.\<close>
theorem semantic_tx_conserves_money:
  assumes "check_tx_semantic tx"
  shows "(\<exists>fee. get_tx_fee tx = Some fee \<and> ins_total tx = outs_total tx + unat fee) \<and> distinct (key_images tx)"
proof -
  have c: "\<forall>i \<in> set (vin tx). \<forall>g. i \<noteq> TxinGen g" "ins_total tx < 2 ^ 64" "outs_total tx \<le> ins_total tx"
    using assms unfolding semantic_iff by blast+
  have "\<not> is_coinbase tx" using c(1) by (auto simp: is_coinbase_def split: list.splits txin_v.splits)
  moreover have i: "unat (fold (\<lambda>i a. a + get_amount_from_variant i) (vin tx) 0) = ins_total tx"
    using ins_sum [of 0 "vin tx"] c(2) by (simp add: ins_total_def)
  moreover have o: "unat (get_outs_money_amount tx) = outs_total tx"
    using outs_sum [of 0 "vout tx"] c(2,3) by (simp add: outs_total_def get_outs_money_amount_def)
  moreover have "distinct (key_images tx)" using assms unfolding semantic_iff by blast
  ultimately show ?thesis using c(3) by (simp add: get_tx_fee_def word_le_nat_alt unat_sub_le)
qed

lemma semantic_tx_conserves_money_witness:
  "(\<exists>fee. get_tx_fee simple_tx = Some fee \<and> ins_total simple_tx = outs_total simple_tx + unat fee) \<and>
    distinct (key_images simple_tx)"
proof -
  have "check_tx_semantic simple_tx" unfolding semantic_iff using simple_tx_semantic by simp
  then show ?thesis by (rule semantic_tx_conserves_money)
qed

text \<open>\<open>absolute_output_offsets_to_relative\<close> and \<open>relative_output_offsets_to_absolute\<close> denote the same outputs: whatever
  permutation \<open>std::sort\<close> returns within its contract, neither conversion throws, and converting there and back gives
  the given references up to their order.\<close>
theorem relative_offsets_roundtrip:
  assumes "std_sort srt txout_less"
  shows "\<exists>ys xs. absolute_output_offsets_to_relative srt off = Some ys \<and>
    relative_output_offsets_to_absolute ys = Some xs \<and> mset xs = mset off"
proof (cases "length off < 2")
  case True
  then have "relative_output_offsets_to_absolute off = Some off" by (cases off rule: list.exhaust) auto
  then show ?thesis using True by (simp add: absolute_output_offsets_to_relative_def)
next
  case False
  obtain ns rs where s: "srt txout_less off = map GlobalIndex ns @ map RefById rs"
    using sorted_offsets_split [OF std_sort.ordered [OF assms]] by blast
  have "2 \<le> length (srt txout_less off)" using False std_permute.same_size [OF std_sort.axioms(1) [OF assms], of off] by simp
  from relative_of_sorted [OF s this] show ?thesis
    using False std_permute.permutes [OF std_sort.axioms(1) [OF assms], of off] by (auto simp: absolute_output_offsets_to_relative_def Let_def)
qed

lemma relative_offsets_roundtrip_witness:
  "\<exists>ys xs. absolute_output_offsets_to_relative insertion_sort [GlobalIndex 9, GlobalIndex 4] = Some ys \<and>
    relative_output_offsets_to_absolute ys = Some xs \<and> mset xs = mset [GlobalIndex 9, GlobalIndex 4]"
  by (rule relative_offsets_roundtrip [OF offsets_sort.std_sort_axioms])

end
