(* ===== verification/BlockReward.thy ===== *)
theory BlockReward
  imports IntUtil
begin

section \<open>Block rewards (currency_config.h and currency_format_utils.cpp)\<close>

text \<open>
  The emission table \<open>CURRENCY_REWARDS\<close> with the macros that fill it, and \<open>get_base_block_reward\<close> and
  \<open>get_block_reward\<close>, in \<open>uint64_t\<close>. A block above the median size (at least 125000 bytes) loses the
  part \<open>((size - median) / median) ^ 2\<close> of its reward; a block above twice the median is refused.
  The theorems: the penalty is the exact rational function rounded down and its internal checks never
  fail; the table emits the documented percentages.
\<close>

subsection \<open>Constants\<close>

definition COIN :: u64 where "COIN = 100000000"
definition PREMINE_AMOUNT :: u64 where "PREMINE_AMOUNT = 100000000000000"
definition BASE_REWARD_DUST_THRESHOLD :: u64 where "BASE_REWARD_DUST_THRESHOLD = 10000"
definition AMOUNT_EXPECTED_10_YEARS :: u64 where "AMOUNT_EXPECTED_10_YEARS = 20 * 1000 * 1000 * COIN"
definition CURRENCY_POW_REWARD_FEXED_NEXT :: u64 where "CURRENCY_POW_REWARD_FEXED_NEXT = 1000000"
definition CURRENCY_COUNT_BLOCK_IN_YEAR :: u64 where "CURRENCY_COUNT_BLOCK_IN_YEAR = 262974"
definition CURRENCY_COUNT_BLOCK_IN_YEAR_COMMON :: u64 where
  "CURRENCY_COUNT_BLOCK_IN_YEAR_COMMON = CURRENCY_COUNT_BLOCK_IN_YEAR * 2"
definition CURRENCY_BLOCK_GRANTED_FULL_REWARD_ZONE :: u64 where
  "CURRENCY_BLOCK_GRANTED_FULL_REWARD_ZONE = 125000"

lemmas reward_constants = COIN_def PREMINE_AMOUNT_def BASE_REWARD_DUST_THRESHOLD_def AMOUNT_EXPECTED_10_YEARS_def
  CURRENCY_POW_REWARD_FEXED_NEXT_def CURRENCY_COUNT_BLOCK_IN_YEAR_def CURRENCY_COUNT_BLOCK_IN_YEAR_COMMON_def
  CURRENCY_BLOCK_GRANTED_FULL_REWARD_ZONE_def

subsection \<open>The emission table\<close>

definition CURRENCY_SIMPLE_PERCENT :: "u64 \<Rightarrow> u64 \<Rightarrow> u64 \<Rightarrow> u64 \<Rightarrow> u64 \<Rightarrow> u64" where
  "CURRENCY_SIMPLE_PERCENT percent blocks part unit without_amount =
     (AMOUNT_EXPECTED_10_YEARS div 100 * percent - without_amount) * part div (blocks * unit)"

record reward_row =
  height :: u64
  reward_pos :: u64
  reward_pow :: u64

definition row_fixed_reward :: "u64 \<Rightarrow> u64 \<Rightarrow> u64 \<Rightarrow> reward_row" where
  "row_fixed_reward h pos pow = \<lparr>height = h, reward_pos = pos, reward_pow = pow\<rparr>"

definition row_without_period_next :: "u64 \<Rightarrow> u64 \<Rightarrow> u64 \<Rightarrow> u64 \<Rightarrow> reward_row" where
  "row_without_period_next h percent blocks without_amount =
     row_fixed_reward h
       (CURRENCY_SIMPLE_PERCENT percent blocks 1 1 without_amount - CURRENCY_POW_REWARD_FEXED_NEXT)
       CURRENCY_POW_REWARD_FEXED_NEXT"

definition row_simple_percent_next :: "u64 \<Rightarrow> u64 \<Rightarrow> reward_row" where
  "row_simple_percent_next h percent = row_without_period_next h percent CURRENCY_COUNT_BLOCK_IN_YEAR 0"

definition CURRENCY_REWARDS :: "reward_row list" where
  "CURRENCY_REWARDS =
     [row_fixed_reward 300 (1 * COIN) (1 * COIN),
      row_without_period_next CURRENCY_COUNT_BLOCK_IN_YEAR_COMMON 20
        (CURRENCY_COUNT_BLOCK_IN_YEAR - 300 div 2) (PREMINE_AMOUNT + 300 * COIN),
      row_simple_percent_next (CURRENCY_COUNT_BLOCK_IN_YEAR_COMMON * 2) 15,
      row_simple_percent_next (CURRENCY_COUNT_BLOCK_IN_YEAR_COMMON * 3) 12,
      row_simple_percent_next (CURRENCY_COUNT_BLOCK_IN_YEAR_COMMON * 4) 11,
      row_simple_percent_next (CURRENCY_COUNT_BLOCK_IN_YEAR_COMMON * 5) 10,
      row_simple_percent_next (CURRENCY_COUNT_BLOCK_IN_YEAR_COMMON * 6) 9,
      row_simple_percent_next (CURRENCY_COUNT_BLOCK_IN_YEAR_COMMON * 7) 8,
      row_simple_percent_next (CURRENCY_COUNT_BLOCK_IN_YEAR_COMMON * 8) 6,
      row_simple_percent_next (CURRENCY_COUNT_BLOCK_IN_YEAR_COMMON * 9) 5,
      row_simple_percent_next (CURRENCY_COUNT_BLOCK_IN_YEAR_COMMON * 10) 4,
      row_simple_percent_next (NOT 0) 1]"

subsection \<open>The reward of a block\<close>

definition get_base_block_reward :: "bool \<Rightarrow> u64 \<Rightarrow> u64 \<Rightarrow> u64" where
  "get_base_block_reward is_pos already_generated_coins h =
     (if h = 0 then PREMINE_AMOUNT
      else
        let raw = (case filter (\<lambda>raw. h \<le> height raw) CURRENCY_REWARDS of
                     raw # _ \<Rightarrow> raw
                   | [] \<Rightarrow> last CURRENCY_REWARDS);
            reward = (if is_pos then reward_pos raw else reward_pow raw)
        in if reward \<le> BASE_REWARD_DUST_THRESHOLD then reward
           else reward - reward mod BASE_REWARD_DUST_THRESHOLD)"

text \<open>\<open>false\<close> is \<open>None\<close>; the two last checks are \<open>CHECK_AND_ASSERT_MES\<close>.\<close>

definition get_block_reward :: "bool \<Rightarrow> u64 \<Rightarrow> u64 \<Rightarrow> u64 \<Rightarrow> u64 \<Rightarrow> u64 option" where
  "get_block_reward is_pos median_size current_block_size already_generated_coins h =
     (let base_reward = get_base_block_reward is_pos already_generated_coins h;
          median_size = (if median_size < CURRENCY_BLOCK_GRANTED_FULL_REWARD_ZONE
                         then CURRENCY_BLOCK_GRANTED_FULL_REWARD_ZONE else median_size)
      in if current_block_size \<le> median_size \<or> h = 0 then Some base_reward
         else if 2 * median_size < current_block_size then None
         else
           let multiplicand = (2 * median_size - current_block_size) * current_block_size;
               (product_lo, product_hi) = mul128 base_reward multiplicand
           in (case div128_32 product_hi product_lo (ucast median_size) of
                 None \<Rightarrow> None
               | Some (_, reward_hi, reward_lo) \<Rightarrow>
                   (case div128_32 reward_hi reward_lo (ucast median_size) of
                      None \<Rightarrow> None
                    | Some (_, reward_hi, reward_lo) \<Rightarrow>
                        if reward_hi = 0 \<and> reward_lo < base_reward then Some reward_lo else None)))"

subsection \<open>The rows of the table\<close>

lemma rewards_table:
  "CURRENCY_REWARDS =
    [row_fixed_reward 300 100000000 100000000,
     row_fixed_reward 525948 1140334124 1000000,
     row_fixed_reward 1051896 1139797189 1000000,
     row_fixed_reward 1577844 911637751 1000000,
     row_fixed_reward 2103792 835584605 1000000,
     row_fixed_reward 2629740 759531459 1000000,
     row_fixed_reward 3155688 683478313 1000000,
     row_fixed_reward 3681636 607425167 1000000,
     row_fixed_reward 4207584 455318875 1000000,
     row_fixed_reward 4733532 379265729 1000000,
     row_fixed_reward 5259480 303212583 1000000,
     row_fixed_reward 18446744073709551615 75053145 1000000]"
  by code_simp

definition crop_dust :: "u64 \<Rightarrow> u64" where
  "crop_dust r = (if r \<le> BASE_REWARD_DUST_THRESHOLD then r else r - r mod BASE_REWARD_DUST_THRESHOLD)"

lemma base_reward_row:
  assumes "CURRENCY_REWARDS = xs @ r # ys" and "\<forall>x \<in> set xs. height x < h" and "h \<le> height r" and "h \<noteq> 0"
  shows "get_base_block_reward is_pos g h = crop_dust (if is_pos then reward_pos r else reward_pow r)"
proof -
  have "filter (\<lambda>x. h \<le> height x) xs = []" using assms(2) by (auto simp: filter_empty_conv)
  then have "filter (\<lambda>x. h \<le> height x) CURRENCY_REWARDS = r # filter (\<lambda>x. h \<le> height x) ys"
    unfolding assms(1) filter_append using assms(3) by simp
  then show ?thesis using assms(4) by (simp add: get_base_block_reward_def crop_dust_def Let_def)
qed

lemma base_reward_nth:
  assumes "i < 12" and "0 < i \<Longrightarrow> height (CURRENCY_REWARDS ! (i - 1)) < h" and "h \<le> height (CURRENCY_REWARDS ! i)" and "h \<noteq> 0"
  shows "get_base_block_reward is_pos g h =
    crop_dust (if is_pos then reward_pos (CURRENCY_REWARDS ! i) else reward_pow (CURRENCY_REWARDS ! i))"
proof (rule base_reward_row)
  have l: "length CURRENCY_REWARDS = 12" by (simp add: CURRENCY_REWARDS_def)
  show "CURRENCY_REWARDS = take i CURRENCY_REWARDS @ CURRENCY_REWARDS ! i # drop (Suc i) CURRENCY_REWARDS"
    using assms(1) l by (simp add: id_take_nth_drop [symmetric])
  have s: "sorted_wrt (\<le>) (map height CURRENCY_REWARDS)" by code_simp
  show "\<forall>x \<in> set (take i CURRENCY_REWARDS). height x < h"
  proof
    fix x
    assume "x \<in> set (take i CURRENCY_REWARDS)"
    then obtain j where j: "j < i" "x = CURRENCY_REWARDS ! j" using assms(1) l by (auto simp: in_set_conv_nth)
    then have "height x \<le> height (CURRENCY_REWARDS ! (i - 1))"
      using sorted_wrt_nth_less [OF s, of j "i - 1"] assms(1) l by (cases "j = i - 1") simp_all
    moreover have "height (CURRENCY_REWARDS ! (i - 1)) < h" using j by (intro assms(2)) simp
    ultimately show "height x < h" by (rule le_less_trans)
  qed
qed (use assms in simp_all)

subsection \<open>The emission of a year\<close>

definition year_percents :: "int list" where
  "year_percents = [20, 15, 12, 11, 10, 9, 8, 6, 5, 4]"

definition year_blocks :: "nat \<Rightarrow> int" where
  "year_blocks y = (if y = 1 then 262974 - 150 else 262974)"

definition year_start :: "nat \<Rightarrow> int" where
  "year_start y = (if y = 1 then uint (PREMINE_AMOUNT + 300 * COIN) else 0)"

definition year_fits :: "nat \<Rightarrow> bool" where
  "year_fits y \<longleftrightarrow>
     (let r = CURRENCY_REWARDS ! y;
          e = uint (crop_dust (reward_pos r)) + uint (crop_dust (reward_pow r));
          goal = year_percents ! (y - 1) * (uint AMOUNT_EXPECTED_10_YEARS div 100)
      in year_start y + year_blocks y * e \<le> goal \<and> goal < year_start y + year_blocks y * (e + 10001))"

lemma years_fit: "list_all year_fits [1, 2, 3, 4, 5, 6, 7, 8, 9, 10]"
  by code_simp

lemma row_heights:
  "list_all (\<lambda>y. uint (height (CURRENCY_REWARDS ! y)) = 525948 * int y) [1, 2, 3, 4, 5, 6, 7, 8, 9, 10]"
  "uint (height (CURRENCY_REWARDS ! 0)) = 300"
  by code_simp+

lemma year_cases: "1 \<le> y \<Longrightarrow> y \<le> 10 \<Longrightarrow> y \<in> set [1, 2, 3, 4, 5, 6, 7, 8, 9, 10]" for y :: nat
  by simp presburger

lemma row_height: "1 \<le> y \<Longrightarrow> y \<le> 10 \<Longrightarrow> uint (height (CURRENCY_REWARDS ! y)) = 525948 * int y"
  using row_heights(1) year_cases [of y] unfolding list_all_iff by blast

subsection \<open>The penalty\<close>

lemma base_reward_positive: "0 < get_base_block_reward is_pos g h"
proof (cases "h = 0")
  case True
  then show ?thesis by (simp add: get_base_block_reward_def PREMINE_AMOUNT_def)
next
  case False
  let ?raw = "case filter (\<lambda>raw. h \<le> height raw) CURRENCY_REWARDS of raw # _ \<Rightarrow> raw | [] \<Rightarrow> last CURRENCY_REWARDS"
  have "?raw \<in> set CURRENCY_REWARDS"
  proof (cases "filter (\<lambda>raw. h \<le> height raw) CURRENCY_REWARDS")
    case Nil
    then show ?thesis by (simp add: CURRENCY_REWARDS_def)
  next
    case (Cons r rs)
    then have "r \<in> set CURRENCY_REWARDS" by (metis filter_is_subset list.set_intros(1) subsetD)
    then show ?thesis using Cons by simp
  qed
  moreover have "list_all (\<lambda>r. 0 < crop_dust (reward_pos r) \<and> 0 < crop_dust (reward_pow r)) CURRENCY_REWARDS"
    by code_simp
  ultimately have "0 < crop_dust (reward_pos ?raw)" "0 < crop_dust (reward_pow ?raw)" by (simp_all add: list_all_iff)
  moreover have "get_base_block_reward is_pos g h = crop_dust (if is_pos then reward_pos ?raw else reward_pow ?raw)"
    using False by (simp only: get_base_block_reward_def crop_dust_def Let_def if_False)
  ultimately show ?thesis by (cases is_pos) simp_all
qed

lemma penalty_bound: "m < s \<Longrightarrow> s \<le> 2 * m \<Longrightarrow> (2 * m - s) * s < m * m" for m s :: nat
proof -
  assume s: "m < s" "s \<le> 2 * m"
  then obtain d where d: "s = m + d" "0 < d" "d \<le> m" by (metis add_le_cancel_left less_imp_add_positive mult_2)
  have "(2 * m - s) * s = m * m - d * d" using d by (simp add: algebra_simps diff_mult_distrib)
  moreover have "0 < d * d" "d * d \<le> m * m" using d by (simp_all add: mult_le_mono)
  ultimately show ?thesis by (metis diff_less less_le_trans)
qed

lemma two_divisions:
  assumes "m \<noteq> 0" and "0 < B" and "p < unat m * unat m" and "unat hi * 2 ^ 64 + unat lo = unat B * p"
  shows "\<exists>r1 h1 l1 r2 l2. div128_32 hi lo m = Some (r1, h1, l1) \<and> div128_32 h1 l1 m = Some (r2, 0, l2) \<and>
    unat l2 = unat B * p div (unat m * unat m) \<and> l2 < B"
proof -
  obtain r1 h1 l1 where 1: "div128_32 hi lo m = Some (r1, h1, l1)" "unat h1 * 2 ^ 64 + unat l1 = unat B * p div unat m"
    using div128_32_exact [OF assms(1), of hi lo] div128_32_quotient(1) [of hi lo m] assms(4) by fastforce
  obtain r2 h2 l2 where 2: "div128_32 h1 l1 m = Some (r2, h2, l2)" "unat h2 * 2 ^ 64 + unat l2 = unat B * p div unat m div unat m"
    using div128_32_exact [OF assms(1), of h1 l1] div128_32_quotient(1) [of h1 l1 m] 1(2) by fastforce
  have m: "0 < unat m" using assms(1) by (simp add: unat_gt_0)
  have b: "0 < unat B" using assms(2) by (simp add: word_less_nat_alt)
  have "unat B * p < unat B * (unat m * unat m)" using b assms(3) by simp
  then have q: "unat B * p div (unat m * unat m) < unat B" using m by (simp add: div_less_iff_less_mult)
  have e: "unat h2 * 2 ^ 64 + unat l2 = unat B * p div (unat m * unat m)" using 2(2) by (simp add: div_mult2_eq)
  have "unat h2 = 0"
  proof (rule ccontr)
    assume "unat h2 \<noteq> 0"
    then have "2 ^ 64 \<le> unat h2 * 2 ^ 64" by simp
    then show False using e q unat_u64_lt [of B] by linarith
  qed
  then have "h2 = 0" and "unat l2 = unat B * p div (unat m * unat m)" using e by (simp_all add: unat_eq_0)
  moreover have "l2 < B" using calculation(2) q by (simp add: word_less_nat_alt)
  ultimately show ?thesis using 1(1) 2(1) by blast
qed

subsection \<open>Properties\<close>

text \<open>The table emits what its comments say. In year \<open>y\<close> of the first ten (525948 blocks, half of them PoS), the rewards of
  the PoS and the PoW blocks do not depend on the height, and together, with the premine and the first 300
  blocks in year 1, they emit the documented percentage of the expected twenty million coins, from below and up to
  the dust cropped from each block.\<close>
theorem emission_follows_schedule:
  assumes "1 \<le> y" and "y \<le> 10" and "525948 * (int y - 1) < uint h" and "uint h \<le> 525948 * int y" and "300 < uint h"
  shows "let e = uint (get_base_block_reward True g h) + uint (get_base_block_reward False g' h);
      goal = year_percents ! (y - 1) * (uint AMOUNT_EXPECTED_10_YEARS div 100)
    in year_start y + year_blocks y * e \<le> goal \<and> goal < year_start y + year_blocks y * (e + 10001)"
proof -
  have h: "height (CURRENCY_REWARDS ! (y - 1)) < h"
  proof (cases "y = 1")
    case True
    then show ?thesis using assms(5) row_heights(2) by (simp add: word_less_def)
  next
    case False
    then have "uint (height (CURRENCY_REWARDS ! (y - 1))) = 525948 * (int y - 1)"
      using row_height [of "y - 1"] assms(1,2) by (simp add: of_nat_diff)
    then show ?thesis using assms(3) by (simp add: word_less_def)
  qed
  have "h \<le> height (CURRENCY_REWARDS ! y)" using assms(4) row_height [OF assms(1,2)] by (simp add: word_le_def)
  moreover have "h \<noteq> 0" using assms(5) by auto
  ultimately have "get_base_block_reward b g'' h =
      crop_dust (if b then reward_pos (CURRENCY_REWARDS ! y) else reward_pow (CURRENCY_REWARDS ! y))" for b g''
    using base_reward_nth [of y h b g''] h assms(1,2) by simp
  moreover have "year_fits y" using years_fit year_cases [OF assms(1,2)] unfolding list_all_iff by blast
  ultimately show ?thesis unfolding year_fits_def by (simp add: Let_def)
qed

theorem emission_follows_schedule_witness:
  "year_blocks 2 * (uint (get_base_block_reward True 0 600000) + uint (get_base_block_reward False 0 600000)) \<le> 300000000000000"
  using emission_follows_schedule [of 2 600000 0 0]
  by (simp add: Let_def year_start_def year_percents_def AMOUNT_EXPECTED_10_YEARS_def COIN_def)

text \<open>C38: The penalty of big blocks. With \<open>m\<close> the median size, at least 125000, below \<open>2 ^ 32\<close>, and \<open>B\<close> the base reward:
  a block of at most \<open>m\<close> bytes gets \<open>B\<close>, a block of more than \<open>2 m\<close> is refused, and in between a block of \<open>s\<close>
  bytes always gets exactly \<open>B (2 m - s) s / m ^ 2\<close> rounded down, less than \<open>B\<close>: no intermediate product overflows
  and neither internal check fails.\<close>
theorem block_reward_penalty:
  fixes g :: u64 and is_pos :: bool
  assumes "h \<noteq> 0" and "unat median < 2 ^ 32"
  defines "m \<equiv> max (unat median) 125000" and "B \<equiv> unat (get_base_block_reward is_pos g h)"
  shows "(unat sz \<le> m \<longrightarrow> get_block_reward is_pos median sz g h = Some (get_base_block_reward is_pos g h)) \<and>
    (2 * m < unat sz \<longrightarrow> get_block_reward is_pos median sz g h = None) \<and>
    (m < unat sz \<and> unat sz \<le> 2 * m \<longrightarrow> (\<exists>r. get_block_reward is_pos median sz g h = Some r \<and>
       unat r = B * ((2 * m - unat sz) * unat sz) div (m * m) \<and> unat r < B))"
proof -
  define M where "M = (if median < CURRENCY_BLOCK_GRANTED_FULL_REWARD_ZONE then CURRENCY_BLOCK_GRANTED_FULL_REWARD_ZONE else median)"
  have M: "unat M = m"
    by (auto simp: M_def m_def CURRENCY_BLOCK_GRANTED_FULL_REWARD_ZONE_def word_less_nat_alt)
  have m: "m < 4294967296" "0 < m" using assms(2) by (simp_all add: m_def)
  have M2: "unat (2 * M) = 2 * m" using m by (simp add: unat_u64_mult M)
  have le: "sz \<le> M \<longleftrightarrow> unat sz \<le> m" "2 * M < sz \<longleftrightarrow> 2 * m < unat sz"
    by (simp_all add: word_le_nat_alt word_less_nat_alt M M2)
  let ?b = "get_base_block_reward is_pos g h"
  have unfold: "get_block_reward is_pos median sz g h =
    (if sz \<le> M \<or> h = 0 then Some ?b else if 2 * M < sz then None
     else case mul128 ?b ((2 * M - sz) * sz) of (lo, hi) \<Rightarrow>
       (case div128_32 hi lo (ucast M) of None \<Rightarrow> None
        | Some (_, reward_hi, reward_lo) \<Rightarrow>
            (case div128_32 reward_hi reward_lo (ucast M) of None \<Rightarrow> None
             | Some (_, reward_hi, reward_lo) \<Rightarrow> if reward_hi = 0 \<and> reward_lo < ?b then Some reward_lo else None)))"
    unfolding get_block_reward_def M_def Let_def by (rule refl)
  have mid: "\<exists>r. get_block_reward is_pos median sz g h = Some r \<and>
      unat r = B * ((2 * m - unat sz) * unat sz) div (m * m) \<and> unat r < B"
    if s: "m < unat sz" "unat sz \<le> 2 * m"
  proof -
    let ?p = "(2 * m - unat sz) * unat sz"
    have c: "unat (ucast M :: u32) = m" using m by (simp add: unat_ucast_mod M)
    have nz: "(ucast M :: u32) \<noteq> 0" using c m by auto
    have p: "?p < m * m" by (rule penalty_bound [OF s])
    have "m * m \<le> 4294967296 * 4294967296" using m by (intro mult_le_mono) simp_all
    then have "?p < 18446744073709551616" using p by simp
    moreover have "sz \<le> 2 * M" using s by (simp add: word_le_nat_alt M2)
    moreover from this have "unat (2 * M - sz) = 2 * m - unat sz" by (simp only: unat_sub_le M2)
    ultimately have "unat ((2 * M - sz) * sz) = ?p" by (simp only: unat_u64_mult mod_less)
    then have pr: "unat (snd (mul128 ?b ((2 * M - sz) * sz))) * 2 ^ 64 + unat (fst (mul128 ?b ((2 * M - sz) * sz))) = unat ?b * ?p"
      using mul128_exact [of ?b "(2 * M - sz) * sz"] by simp
    from two_divisions [OF nz base_reward_positive, of ?p _ _ is_pos g h, unfolded c, OF p pr]
    obtain r1 h1 l1 r2 l2 where
      "div128_32 (snd (mul128 ?b ((2 * M - sz) * sz))) (fst (mul128 ?b ((2 * M - sz) * sz))) (ucast M) = Some (r1, h1, l1)"
      "div128_32 h1 l1 (ucast M) = Some (r2, 0, l2)" "unat l2 = unat ?b * ?p div (m * m)" "l2 < ?b"
      by blast
    moreover from this have "get_block_reward is_pos median sz g h = Some l2"
      unfolding unfold le using s assms(1) by (simp add: split_beta)
    ultimately show ?thesis by (simp add: B_def word_less_nat_alt)
  qed
  have "unat sz \<le> m \<longrightarrow> get_block_reward is_pos median sz g h = Some ?b" unfolding unfold le by simp
  moreover have "2 * m < unat sz \<longrightarrow> get_block_reward is_pos median sz g h = None"
    unfolding unfold le using assms(1) by simp
  ultimately show ?thesis using mid by blast
qed

theorem block_reward_penalty_witness:
  "\<exists>r. get_block_reward False 125000 187500 0 7 = Some r \<and>
    unat r = unat (get_base_block_reward False 0 7) * ((250000 - 187500) * 187500) div (125000 * 125000)"
  using block_reward_penalty [where h = 7 and median = 125000 and is_pos = False and g = 0 and sz = 187500] by auto

end
