(* ===== verification/Amounts.thy ===== *)
theory Amounts
  imports Prelude
begin

section \<open>Amounts of money (currency_format_utils.h, currency_format_utils.cpp, print_fixed_point_helper.h)\<close>

text \<open>
  \<open>decompose_amount_into_digits\<close> splits an amount into its decimal digits and a dust rest; the calls of the
  two handlers are a list of parts. \<open>print_money\<close>, \<open>print_money_brief\<close> and \<open>parse_amount\<close> write and read
  amounts with eight decimals. The theorems: the parts always add up to the amount, within the limits
  given, and reading back a printed amount gives the amount.
\<close>

subsection \<open>Decomposition\<close>

datatype amount_part = Chunk u64 | DustPart u64

fun part_amount :: "amount_part \<Rightarrow> nat" where
  "part_amount (Chunk c) = unat c"
| "part_amount (DustPart d) = unat d"

text \<open>The loop over the digits: \<open>dust_handled\<close>, \<open>dust\<close>, the number of outputs and the parts so far.\<close>

function digit_loop ::
    "u64 \<Rightarrow> u64 \<Rightarrow> u64 \<Rightarrow> u64 \<Rightarrow> u64 \<Rightarrow> bool \<Rightarrow> u64 \<Rightarrow> amount_part list \<Rightarrow>
      u64 \<times> u64 \<times> u64 \<times> bool \<times> u64 \<times> amount_part list" where
  "digit_loop dust_threshold max_output amount multiplier dust handled outs parts =
     (if amount = 0 then (amount, multiplier, dust, handled, outs, parts)
      else let chunk = (amount mod 10) * multiplier
           in if max_output < chunk then (amount, multiplier, dust, handled, outs, parts)
              else if dust + chunk \<le> dust_threshold
              then digit_loop dust_threshold max_output (amount div 10) (multiplier * 10) (dust + chunk) handled outs parts
              else let (handled', parts') = (if \<not> handled \<and> dust \<noteq> 0 then (True, parts @ [DustPart dust]) else (handled, parts));
                       (outs', parts'') = (if chunk \<noteq> 0 then (outs + 1, parts' @ [Chunk chunk]) else (outs, parts'))
                   in digit_loop dust_threshold max_output (amount div 10) (multiplier * 10) dust handled' outs' parts'')"
  by pat_completeness auto
termination
proof (relation "measure (\<lambda>(_, _, amount, _). unat amount)")
  fix amount :: u64
  assume "amount \<noteq> 0"
  then have "unat (amount div 10) < unat amount" by (simp add: unat_div unat_gt_0)
  then show "((a, b, amount div 10, c), a', b', amount, c') \<in> measure (\<lambda>(_, _, amount, _). unat amount)" for a b c a' b' c'
    by simp
  then show "((a, b, amount div 10, c), a', b', amount, c') \<in> measure (\<lambda>(_, _, amount, _). unat amount)" for a b c a' b' c' .
qed simp

declare digit_loop.simps [simp del]

lemma unat_minus_less: "m \<noteq> 0 \<and> \<not> r < m \<Longrightarrow> unat (r - m) < unat r" for m r :: u64
proof -
  assume "m \<noteq> 0 \<and> \<not> r < m"
  then have "0 < unat m" "unat m \<le> unat r" "m \<le> r" by (auto simp: unat_gt_0 not_less word_le_nat_alt)
  then show ?thesis by (simp add: unat_sub_le)
qed

text \<open>\<open>while (amount_multiplied >= max_output_allowed)\<close>; \<open>False\<close> is the failed check "too many outputs".\<close>

function subtract_loop :: "u64 \<Rightarrow> u64 \<Rightarrow> u64 \<Rightarrow> u64 \<Rightarrow> amount_part list \<Rightarrow> bool \<times> u64 \<times> u64 \<times> amount_part list" where
  "subtract_loop max_output max_outs rest outs parts =
     (if max_output = 0 \<or> rest < max_output then (True, rest, outs, parts)
      else let rest = rest - max_output; parts = parts @ [Chunk max_output]; outs = outs + 1
           in if outs < max_outs \<or> rest = 0 then subtract_loop max_output max_outs rest outs parts
              else (False, rest, outs, parts))"
  by pat_completeness auto
termination
  by (relation "measure (\<lambda>(_, _, rest, _). unat rest)") (simp_all add: unat_minus_less)

declare subtract_loop.simps [simp del]

text \<open>
  The first argument bounds the depth of the recursion. \<open>None\<close>: the bound is exhausted, or the division by
  \<open>max_output_allowed = 0\<close>. The flag is false when one of the checks failed.
\<close>

fun decompose_amount_into_digits ::
    "nat \<Rightarrow> u64 \<Rightarrow> u64 \<Rightarrow> u64 \<Rightarrow> u64 \<Rightarrow> u64 \<Rightarrow> (bool \<times> amount_part list) option" where
  "decompose_amount_into_digits 0 amount dust_threshold max_output max_outs outs = None"
| "decompose_amount_into_digits (Suc depth) amount dust_threshold max_output max_outs outs =
     (if amount = 0 then Some (False, [])
      else if max_output = 0 then None
      else if max_outs < amount div max_output then Some (False, [])
      else
        let (amount, multiplier, dust, handled, outs, parts) = digit_loop dust_threshold max_output amount 1 0 False outs [];
            last_dust = (if \<not> handled \<and> dust \<noteq> 0 then [DustPart dust] else [])
        in if amount = 0 then Some (True, parts @ last_dust)
           else if multiplier = 0 then Some (False, parts)
           else (case subtract_loop max_output max_outs (amount * multiplier) outs parts of
                   (ok, rest, outs, parts) \<Rightarrow>
                     if \<not> ok then Some (False, parts)
                     else if rest \<noteq> 0
                     then map_option (\<lambda>(ok, more). (ok, parts @ more @ last_dust))
                            (decompose_amount_into_digits depth rest dust_threshold max_output max_outs outs)
                     else Some (True, parts @ last_dust)))"

definition WALLET_MAX_ALLOWED_OUTPUT_AMOUNT :: u64 where "WALLET_MAX_ALLOWED_OUTPUT_AMOUNT = 0xffffffffffffffff"
definition CURRENCY_TX_MAX_ALLOWED_OUTS :: u64 where "CURRENCY_TX_MAX_ALLOWED_OUTS = 2000"

text \<open>The two overloads with default limits; a depth of two is enough.\<close>

definition decompose_amount_limited :: "u64 \<Rightarrow> u64 \<Rightarrow> u64 \<Rightarrow> (bool \<times> amount_part list) option" where
  "decompose_amount_limited amount dust_threshold max_output =
     decompose_amount_into_digits 2 amount dust_threshold max_output CURRENCY_TX_MAX_ALLOWED_OUTS 0"

definition decompose_amount :: "u64 \<Rightarrow> u64 \<Rightarrow> (bool \<times> amount_part list) option" where
  "decompose_amount amount dust_threshold =
     decompose_amount_into_digits 2 amount dust_threshold WALLET_MAX_ALLOWED_OUTPUT_AMOUNT CURRENCY_TX_MAX_ALLOWED_OUTS 0"

subsection \<open>Printing and parsing\<close>

definition CURRENCY_DISPLAY_DECIMAL_POINT :: nat where "CURRENCY_DISPLAY_DECIMAL_POINT = 8"
definition COIN_UNITS :: u64 where "COIN_UNITS = 100000000"

definition digit_char :: "nat \<Rightarrow> char" where
  "digit_char d = char_of (48 + d)"

text \<open>\<open>std::to_string\<close> of an unsigned number.\<close>

fun to_string :: "nat \<Rightarrow> string" where
  "to_string n = (if n < 10 then [digit_char n] else to_string (n div 10) @ [digit_char (n mod 10)])"

declare to_string.simps [simp del]

definition insert_at :: "nat \<Rightarrow> string \<Rightarrow> string \<Rightarrow> string" where
  "insert_at i t s = take i s @ t @ drop i s"

text \<open>\<open>for (ptrdiff_t i = s.size() - decimal_point - 4; i > 0; i -= 3) s.insert(i, 1, SEPARATOR);\<close>\<close>

function insert_separators :: "int \<Rightarrow> string \<Rightarrow> string" where
  "insert_separators i s = (if 0 < i then insert_separators (i - 3) (insert_at (nat i) ''_'' s) else s)"
  by pat_completeness auto
termination by (relation "measure (\<lambda>(i, _). nat i)") simp_all

declare insert_separators.simps [simp del]

definition print_fixed_decimal_point :: "u64 \<Rightarrow> nat \<Rightarrow> bool \<Rightarrow> string" where
  "print_fixed_decimal_point amount decimal_point with_separates =
     (let s = to_string (unat amount);
          s = (if length s < decimal_point + 1 then replicate (decimal_point + 1 - length s) (CHR ''0'') @ s else s);
          s = insert_at (length s - decimal_point) ''.'' s
      in if \<not> with_separates then s
         else insert_separators (int (length s) - int decimal_point - 4) s)"

definition print_money :: "u64 \<Rightarrow> bool \<Rightarrow> string" where
  "print_money amount with_separates = print_fixed_decimal_point amount CURRENCY_DISPLAY_DECIMAL_POINT with_separates"

text \<open>\<open>r.substr(0, r.find_last_not_of('0') + 1)\<close>; the remainder is not zero here.\<close>

definition drop_last_zeros :: "string \<Rightarrow> string" where
  "drop_last_zeros r = rev (dropWhile (\<lambda>c. c = CHR ''0'') (rev r))"

definition print_money_brief :: "u64 \<Rightarrow> string" where
  "print_money_brief amount =
     (let remainder = amount mod COIN_UNITS; amount = amount div COIN_UNITS
      in if remainder = 0 then to_string (unat amount) @ ''.0''
         else let r = to_string (unat remainder);
                  r = (if length r < CURRENCY_DISPLAY_DECIMAL_POINT
                       then replicate (CURRENCY_DISPLAY_DECIMAL_POINT - length r) (CHR ''0'') @ r else r)
              in to_string (unat amount) @ ''.'' @ drop_last_zeros r)"

text \<open>\<open>boost::algorithm::trim\<close> in the classic locale, and \<open>get_xtype_from_string\<close>: digits only, below \<open>2 ^ 64\<close>.\<close>

definition is_space :: "char \<Rightarrow> bool" where
  "is_space c \<longleftrightarrow> c = CHR '' '' \<or> ((9 :: nat) \<le> of_char c \<and> of_char c \<le> (13 :: nat))"

definition trim :: "string \<Rightarrow> string" where
  "trim s = rev (dropWhile is_space (rev (dropWhile is_space s)))"

definition is_digit :: "char \<Rightarrow> bool" where
  "is_digit c \<longleftrightarrow> (48 :: nat) \<le> of_char c \<and> of_char c \<le> (57 :: nat)"

fun digits_value :: "nat \<Rightarrow> string \<Rightarrow> nat" where
  "digits_value v [] = v"
| "digits_value v (c # cs) = digits_value (10 * v + (of_char c - 48)) cs"

definition u64_from_string :: "string \<Rightarrow> u64 option" where
  "u64_from_string s =
     (if s \<noteq> [] \<and> list_all is_digit s \<and> digits_value 0 s < 2 ^ 64 then Some (of_nat (digits_value 0 s)) else None)"

text \<open>\<open>while (8 < fraction_size && '0' == str_amount.back())\<close>\<close>

fun strip_zeros :: "nat \<Rightarrow> string \<Rightarrow> nat \<times> string" where
  "strip_zeros 0 s = (0, s)"
| "strip_zeros (Suc f) s =
     (if CURRENCY_DISPLAY_DECIMAL_POINT < Suc f \<and> s \<noteq> [] \<and> last s = CHR ''0'' then strip_zeros f (butlast s) else (Suc f, s))"

definition parse_amount :: "string \<Rightarrow> u64 option" where
  "parse_amount str_amount0 =
     (let str_amount = trim str_amount0;
          point_index = length (takeWhile (\<lambda>c. c \<noteq> CHR ''.'') str_amount);
          (ok, fraction_size, str_amount) =
            (if point_index < length str_amount
             then case strip_zeros (length str_amount - point_index - 1) str_amount of
                    (fraction_size, s) \<Rightarrow>
                      if CURRENCY_DISPLAY_DECIMAL_POINT < fraction_size then (False, fraction_size, s)
                      else (True, fraction_size, take point_index s @ drop (point_index + 1) s)
             else (True, 0, str_amount))
      in if \<not> ok \<or> str_amount = [] then None
         else u64_from_string
                (if fraction_size < CURRENCY_DISPLAY_DECIMAL_POINT
                 then str_amount @ replicate (CURRENCY_DISPLAY_DECIMAL_POINT - fraction_size) (CHR ''0'')
                 else str_amount))"

declare decompose_amount_into_digits.simps [simp del]

subsection \<open>The parts add up\<close>

definition parts_total :: "amount_part list \<Rightarrow> nat" where
  "parts_total parts = sum_list (map part_amount parts)"

lemma parts_total_simps [simp]:
  "parts_total [] = 0" "parts_total (xs @ ys) = parts_total xs + parts_total ys" "parts_total [p] = part_amount p"
  by (simp_all add: parts_total_def)

definition part_fits :: "u64 \<Rightarrow> u64 \<Rightarrow> amount_part \<Rightarrow> bool" where
  "part_fits dust_threshold max_output p =
     (case p of Chunk c \<Rightarrow> c \<noteq> 0 \<and> c \<le> max_output | DustPart d \<Rightarrow> d \<noteq> 0 \<and> d \<le> dust_threshold)"

text \<open>
  What the loop keeps: \<open>m\<close> is the multiplier as a number; once a digit did not fit in the dust, no later one does.
\<close>

definition digit_state :: "nat \<Rightarrow> u64 \<Rightarrow> u64 \<Rightarrow> u64 \<Rightarrow> nat \<Rightarrow> u64 \<Rightarrow> bool \<Rightarrow> amount_part list \<Rightarrow> bool" where
  "digit_state tot thr maxo amount m dust handled parts \<longleftrightarrow>
     0 < m \<and> unat amount * m + (if handled then 0 else unat dust) + parts_total parts = tot \<and>
     dust \<le> thr \<and> (parts \<noteq> [] \<longrightarrow> unat thr < unat dust + m) \<and> (handled \<longrightarrow> parts \<noteq> []) \<and>
     unat dust + unat amount * m \<le> tot \<and> list_all (part_fits thr maxo) parts"

lemma digit_step:
  assumes s: "digit_state tot thr maxo amount m dust handled parts" and a: "amount \<noteq> 0" and t: "tot < 2 ^ 64"
  defines "chunk \<equiv> (amount mod 10) * of_nat m"
  shows "unat (of_nat m :: u64) = m" and "unat chunk = unat amount mod 10 * m" and "unat (dust + chunk) = unat dust + unat chunk"
    and "unat amount * m = unat (amount div 10) * (10 * m) + unat chunk"
proof -
  have le: "unat dust + unat amount * m \<le> tot" using s by (simp add: digit_state_def)
  have ua: "0 < unat amount" using a by (simp add: unat_gt_0)
  have "m \<le> unat amount * m" using ua by simp
  then have "m < 2 ^ 64" using le t by linarith
  then show m: "unat (of_nat m :: u64) = m" by (intro unat_of_nat_lt) simp
  have split: "unat amount * m = unat amount div 10 * (10 * m) + unat amount mod 10 * m"
    by (metis add_mult_distrib div_mult_mod_eq mult.assoc)
  have "unat amount mod 10 * m \<le> unat amount * m" unfolding split by simp
  then have c: "unat amount mod 10 * m < 2 ^ 64" using le t by linarith
  show ch: "unat chunk = unat amount mod 10 * m"
    using c unfolding chunk_def unat_u64_mult m by (simp add: unat_mod)
  have "unat dust + unat chunk < 2 ^ 64"
    using le t split ch by linarith
  then show "unat (dust + chunk) = unat dust + unat chunk" by (intro unat_add_no_wrap) simp
  show "unat amount * m = unat (amount div 10) * (10 * m) + unat chunk"
    unfolding ch unat_div by (simp only: split unat_numeral) simp
qed

lemma digit_to_dust:
  assumes s: "digit_state tot thr maxo amount m dust handled parts" and a: "amount \<noteq> 0" and t: "tot < 2 ^ 64"
  defines "chunk \<equiv> (amount mod 10) * of_nat m"
  assumes le: "dust + chunk \<le> thr"
  shows "digit_state tot thr maxo (amount div 10) (10 * m) (dust + chunk) handled parts"
proof -
  note st = digit_step [OF s a t, folded chunk_def]
  have "unat chunk = 0" if "parts \<noteq> []"
  proof (rule ccontr)
    assume "unat chunk \<noteq> 0"
    then have "m \<le> unat chunk" unfolding st(2) by (cases "unat amount mod 10") simp_all
    moreover have "unat thr < unat dust + m" using s that by (simp add: digit_state_def)
    moreover have "unat dust + unat chunk \<le> unat thr" using le st(3) by (simp add: word_le_nat_alt)
    ultimately show False by linarith
  qed
  then show ?thesis using s le st(3,4) by (auto simp: digit_state_def)
qed

lemma digit_to_chunk:
  assumes s: "digit_state tot thr maxo amount m dust handled parts" and a: "amount \<noteq> 0" and t: "tot < 2 ^ 64"
  defines "chunk \<equiv> (amount mod 10) * of_nat m"
  assumes le: "\<not> dust + chunk \<le> thr" and mx: "chunk \<le> maxo"
  defines "handled' \<equiv> (if \<not> handled \<and> dust \<noteq> 0 then True else handled)"
    and "parts' \<equiv> (if \<not> handled \<and> dust \<noteq> 0 then parts @ [DustPart dust] else parts)"
  shows "chunk \<noteq> 0" and "digit_state tot thr maxo (amount div 10) (10 * m) dust handled' (parts' @ [Chunk chunk])"
proof -
  note st = digit_step [OF s a t, folded chunk_def]
  have d: "dust \<le> thr" using s by (simp add: digit_state_def)
  then show nz: "chunk \<noteq> 0" using le by auto
  have "unat chunk \<le> 9 * m" unfolding st(2) by (intro mult_le_mono1) simp
  then have "unat thr < unat dust + 10 * m"
    using le st(3) s by (simp add: word_le_nat_alt digit_state_def)
  moreover have "unat dust = 0" if "\<not> handled'" using that by (auto simp: handled'_def split: if_splits)
  ultimately show "digit_state tot thr maxo (amount div 10) (10 * m) dust handled' (parts' @ [Chunk chunk])"
    using s st(4) d nz mx
    by (auto simp: digit_state_def handled'_def parts'_def part_fits_def split: if_splits)
qed

lemma digit_loop_keeps:
  assumes "tot < 2 ^ 64"
  shows "digit_state tot thr maxo amount m dust handled parts \<Longrightarrow> mult = of_nat m \<Longrightarrow>
    digit_loop thr maxo amount mult dust handled outs parts = (amount', mult', dust', handled', outs', parts') \<Longrightarrow>
    \<exists>m'. mult' = of_nat m' \<and> digit_state tot thr maxo amount' m' dust' handled' parts' \<and>
      (amount' = 0 \<or> maxo < amount' mod 10 * mult')"
proof (induction thr maxo amount mult dust handled outs parts arbitrary: m rule: digit_loop.induct)
  case (1 thr maxo amount mult dust handled outs parts)
  let ?chunk = "amount mod 10 * mult"
  note fold_m = "1.prems"(2) [symmetric]
  show ?case
  proof (cases "amount = 0 \<or> maxo < ?chunk")
    case True
    then have "digit_loop thr maxo amount mult dust handled outs parts = (amount, mult, dust, handled, outs, parts)"
      by (subst digit_loop.simps) (auto simp: Let_def)
    then show ?thesis using True 1 by auto
  next
    case False
    then have a: "amount \<noteq> 0" and nb: "\<not> maxo < ?chunk" and mx: "?chunk \<le> maxo" by (simp_all add: not_less)
    have mult: "mult * 10 = of_nat (10 * m)" using "1.prems"(2) by simp
    show ?thesis
    proof (cases "dust + ?chunk \<le> thr")
      case True
      have e: "digit_loop thr maxo (amount div 10) (mult * 10) (dust + ?chunk) handled outs parts =
          (amount', mult', dust', handled', outs', parts')"
        using True False "1.prems"(3) by (subst (asm) digit_loop.simps) (simp add: Let_def)
      show ?thesis
        by (rule "1.IH"(1) [OF a refl nb True digit_to_dust [OF "1.prems"(1) a assms, unfolded fold_m, OF True] mult e])
    next
      case le: False
      note chunk = digit_to_chunk [OF "1.prems"(1) a assms, unfolded fold_m, OF le mx]
      let ?h = "if \<not> handled \<and> dust \<noteq> 0 then True else handled"
      let ?p = "if \<not> handled \<and> dust \<noteq> 0 then parts @ [DustPart dust] else parts"
      have h: "(?h, ?p) = (if \<not> handled \<and> dust \<noteq> 0 then (True, parts @ [DustPart dust]) else (handled, parts))"
        "(outs + 1, ?p @ [Chunk ?chunk]) = (if ?chunk \<noteq> 0 then (outs + 1, ?p @ [Chunk ?chunk]) else (outs, ?p))"
        using chunk(1) by simp_all
      have e: "digit_loop thr maxo (amount div 10) (mult * 10) dust ?h (outs + 1) (?p @ [Chunk ?chunk]) =
          (amount', mult', dust', handled', outs', parts')"
        using le False chunk(1) "1.prems"(3) by (subst (asm) digit_loop.simps) (auto simp: Let_def split: if_splits)
      show ?thesis
        by (rule "1.IH"(2) [OF a refl nb le refl h(1) refl h(2) chunk(2) mult e])
    qed
  qed
qed

lemma digit_loop_start:
  assumes "digit_loop thr maxo amount 1 0 False outs [] = (amount', mult', dust', handled', outs', parts')"
  shows "\<exists>m'. mult' = of_nat m' \<and> digit_state (unat amount) thr maxo amount' m' dust' handled' parts' \<and>
      (amount' = 0 \<or> maxo < amount' mod 10 * mult')"
proof -
  have "digit_state (unat amount) thr maxo amount 1 0 False []" by (simp add: digit_state_def)
  from digit_loop_keeps [OF unat_u64_lt this _ assms] show ?thesis by simp
qed

definition dust_rest :: "bool \<Rightarrow> u64 \<Rightarrow> amount_part list" where
  "dust_rest handled dust = (if \<not> handled \<and> dust \<noteq> 0 then [DustPart dust] else [])"

lemma dust_rest_total:
  "digit_state tot thr maxo amount m dust handled parts \<Longrightarrow>
    unat amount * m + parts_total (parts @ dust_rest handled dust) = tot \<and>
    list_all (part_fits thr maxo) (parts @ dust_rest handled dust)"
  by (auto simp: digit_state_def dust_rest_def part_fits_def)

lemma subtract_loop_total:
  "subtract_loop maxo max_outs rest outs parts = (True, rest', outs', parts') \<Longrightarrow> maxo \<noteq> 0 \<Longrightarrow>
    rest' < maxo \<and> unat rest' + parts_total parts' = unat rest + parts_total parts \<and>
    (list_all (part_fits thr maxo) parts \<longrightarrow> list_all (part_fits thr maxo) parts')"
proof (induction maxo max_outs rest outs parts rule: subtract_loop.induct)
  case (1 maxo max_outs rest outs parts)
  show ?case
  proof (cases "rest < maxo")
    case True
    then show ?thesis using "1.prems" by (subst (asm) subtract_loop.simps) auto
  next
    case False
    then have le: "maxo \<le> rest" by simp
    note assms_nz = "1.prems"(2)
    have c: "outs + 1 < max_outs \<or> rest - maxo = 0"
      using "1.prems"(1) False assms_nz by (subst (asm) subtract_loop.simps) (simp add: Let_def split: if_splits)
    have e: "subtract_loop maxo max_outs (rest - maxo) (outs + 1) (parts @ [Chunk maxo]) = (True, rest', outs', parts')"
      using "1.prems"(1) False c assms_nz by (subst (asm) subtract_loop.simps) (simp add: Let_def split: if_splits)
    have "unat (rest - maxo) + unat maxo = unat rest" using le by (simp add: unat_sub_le word_le_nat_alt)
    then show ?thesis using "1.IH" [OF _ refl refl refl c e] False "1.prems" by (auto simp: part_fits_def)
  qed
qed

text \<open>When no digit exceeds the limit there is no recursion.\<close>

lemma decompose_small:
  assumes "amount \<noteq> 0" and "amount \<le> maxo" and "amount div maxo \<le> max_outs"
  shows "\<exists>parts. decompose_amount_into_digits (Suc depth) amount thr maxo max_outs outs = Some (True, parts) \<and>
    parts_total parts = unat amount \<and> list_all (part_fits thr maxo) parts"
proof -
  obtain amount' mult' dust' handled' outs' parts' where
    l: "digit_loop thr maxo amount 1 0 False outs [] = (amount', mult', dust', handled', outs', parts')"
    by (metis prod_cases6)
  from digit_loop_start [OF l] obtain m' where m: "mult' = of_nat m'"
    and s: "digit_state (unat amount) thr maxo amount' m' dust' handled' parts'"
    and e: "amount' = 0 \<or> maxo < amount' mod 10 * mult'" by blast
  have "amount' = 0"
  proof (rule ccontr)
    assume a: "amount' \<noteq> 0"
    note st = digit_step [OF s a unat_u64_lt, folded m]
    have "unat (amount' mod 10 * mult') \<le> unat amount" using s st(4) by (simp add: digit_state_def)
    then show False using e a assms(2) by (simp add: word_less_nat_alt word_le_nat_alt)
  qed
  moreover have "maxo \<noteq> 0" using assms(1,2) by auto
  ultimately show ?thesis
    using assms l dust_rest_total [OF s] by (simp add: decompose_amount_into_digits.simps Let_def dust_rest_def not_less)
qed

lemma decompose_sums:
  assumes "amount \<noteq> 0" and "maxo \<noteq> 0"
  shows "\<exists>ok parts. decompose_amount_into_digits 2 amount thr maxo max_outs outs = Some (ok, parts) \<and>
    (ok \<longrightarrow> parts_total parts = unat amount \<and> list_all (part_fits thr maxo) parts)"
proof (cases "max_outs < amount div maxo")
  case True
  then have "decompose_amount_into_digits 2 amount thr maxo max_outs outs = Some (False, [])"
    using assms by (simp add: numeral_2_eq_2 decompose_amount_into_digits.simps)
  then show ?thesis by blast
next
  case few: False
  obtain amount' mult' dust' handled' outs' parts' where
    l: "digit_loop thr maxo amount 1 0 False outs [] = (amount', mult', dust', handled', outs', parts')"
    by (metis prod_cases6)
  from digit_loop_start [OF l] obtain m' where m: "mult' = of_nat m'"
    and s: "digit_state (unat amount) thr maxo amount' m' dust' handled' parts'" by blast
  let ?last = "dust_rest handled' dust'"
  have tot: "unat amount' * m' + parts_total (parts' @ ?last) = unat amount" "list_all (part_fits thr maxo) (parts' @ ?last)"
    using dust_rest_total [OF s] by blast+
  have e: "decompose_amount_into_digits 2 amount thr maxo max_outs outs =
    (if amount' = 0 then Some (True, parts' @ ?last)
     else if mult' = 0 then Some (False, parts')
     else (case subtract_loop maxo max_outs (amount' * mult') outs' parts' of
             (ok, rest, outs, parts) \<Rightarrow>
               if \<not> ok then Some (False, parts)
               else if rest \<noteq> 0 then map_option (\<lambda>(ok, more). (ok, parts @ more @ ?last))
                      (decompose_amount_into_digits 1 rest thr maxo max_outs outs)
               else Some (True, parts @ ?last)))"
  proof -
    have two: "(2 :: nat) = Suc 1" by simp
    show ?thesis unfolding two
      by (subst decompose_amount_into_digits.simps(2)) (use few assms in \<open>simp only: l Let_def prod.case if_False dust_rest_def\<close>)
  qed
  show ?thesis
  proof (cases "amount' = 0 \<or> mult' = 0")
    case True
    show ?thesis
    proof (cases "amount' = 0")
      case a0: True
      then have "parts_total (parts' @ ?last) = unat amount" using tot(1) by simp
      moreover have "decompose_amount_into_digits 2 amount thr maxo max_outs outs = Some (True, parts' @ ?last)"
        unfolding e using a0 by simp
      ultimately show ?thesis using tot(2) by blast
    next
      case False
      then have "decompose_amount_into_digits 2 amount thr maxo max_outs outs = Some (False, parts')"
        unfolding e using True by simp
      then show ?thesis by blast
    qed
  next
    case False
    then have a: "amount' \<noteq> 0" by simp
    have um: "unat mult' = m'" using digit_step(1) [OF s a unat_u64_lt] m by simp
    have "unat amount' * m' \<le> unat amount" using tot by simp
    then have u: "unat (amount' * mult') = unat amount' * m'"
      unfolding unat_u64_mult um by (rule mod_less [OF le_less_trans [OF _ unat_u64_bound [of amount]]])
    obtain ok rest outs'' parts'' where
      sl: "subtract_loop maxo max_outs (amount' * mult') outs' parts' = (ok, rest, outs'', parts'')"
      by (metis prod_cases4)
    show ?thesis
    proof (cases ok)
      case True
      with sl have sl': "subtract_loop maxo max_outs (amount' * mult') outs' parts' = (True, rest, outs'', parts'')" by simp
      from subtract_loop_total [OF sl' assms(2), of thr] have
        r: "rest < maxo" "unat rest + parts_total parts'' = unat amount' * m' + parts_total parts'" "list_all (part_fits thr maxo) parts''"
        using u tot(2) by auto
      show ?thesis
      proof (cases "rest = 0")
        case True
        then have "decompose_amount_into_digits 2 amount thr maxo max_outs outs = Some (True, parts'' @ ?last)"
          using False sl' unfolding e by simp
        moreover have "parts_total (parts'' @ ?last) = unat amount \<and> list_all (part_fits thr maxo) (parts'' @ ?last)"
          using True r tot by simp
        ultimately show ?thesis by blast
      next
        case nz: False
        have "rest div maxo \<le> max_outs" using r(1) by (simp add: word_le_nat_alt word_less_nat_alt unat_div)
        from decompose_small [OF nz less_imp_le [OF r(1)] this, of 0 thr outs''] obtain more where
          "decompose_amount_into_digits 1 rest thr maxo max_outs outs'' = Some (True, more)"
          "parts_total more = unat rest" "list_all (part_fits thr maxo) more"
          unfolding One_nat_def by blast
        moreover from this(1) have "decompose_amount_into_digits 2 amount thr maxo max_outs outs = Some (True, parts'' @ more @ ?last)"
          using False sl' nz unfolding e by simp
        moreover have "parts_total (parts'' @ more @ ?last) = unat amount \<and> list_all (part_fits thr maxo) (parts'' @ more @ ?last)"
          using calculation r tot by simp
        ultimately show ?thesis by blast
      qed
    next
      case bad: False
      with sl have "subtract_loop maxo max_outs (amount' * mult') outs' parts' = (False, rest, outs'', parts'')" by simp
      then have "decompose_amount_into_digits 2 amount thr maxo max_outs outs = Some (False, parts'')"
        using False unfolding e by simp
      then show ?thesis by blast
    qed
  qed
qed

subsection \<open>Digits\<close>

lemma is_digit_char: "d < 10 \<Longrightarrow> is_digit (digit_char d) \<and> of_char (digit_char d) = 48 + d"
  by (simp add: is_digit_def digit_char_def)

lemma is_digit_not: "is_digit c \<Longrightarrow> \<not> is_space c \<and> c \<noteq> CHR ''.''"
  by (auto simp: is_digit_def is_space_def)

lemma digits_value_append: "digits_value v (xs @ ys) = digits_value (digits_value v xs) ys"
  by (induction v xs rule: digits_value.induct) simp_all

lemma digits_value_zeros: "digits_value v (replicate n (CHR ''0'')) = v * 10 ^ n"
  by (induction n arbitrary: v) simp_all

lemma to_string_digits: "list_all is_digit (to_string n) \<and> digits_value 0 (to_string n) = n \<and> to_string n \<noteq> []"
proof (induction n rule: to_string.induct)
  case (1 n)
  show ?case
  proof (cases "n < 10")
    case True
    then show ?thesis using is_digit_char [of n] by (simp add: to_string.simps [of n])
  next
    case False
    then show ?thesis using 1 is_digit_char [of "n mod 10"]
      by (simp add: to_string.simps [of n] digits_value_append)
  qed
qed

lemma digits_value_shift: "digits_value v cs = v * 10 ^ length cs + digits_value 0 cs"
proof (induction cs arbitrary: v)
  case (Cons c cs)
  show ?case using Cons [of "10 * v + (of_char c - 48)"] Cons [of "of_char c - 48"] by (simp add: distrib_right)
qed simp

lemma digits_value_bound: "list_all is_digit cs \<Longrightarrow> digits_value 0 cs < 10 ^ length cs"
proof (induction cs)
  case (Cons c cs)
  then have "of_char c \<le> (57 :: nat)" and small: "digits_value 0 cs < 10 ^ length cs" by (simp_all add: is_digit_def)
  from this(1) have "of_char c - 48 \<le> (9 :: nat)" by linarith
  then have "(of_char c - 48) * 10 ^ length cs \<le> 9 * (10 :: nat) ^ length cs" by (rule mult_le_mono1)
  with small have "(of_char c - 48) * 10 ^ length cs + digits_value 0 cs < 10 * (10 :: nat) ^ length cs" by linarith
  then show ?case using digits_value_shift [of "of_char c - 48" cs] by simp
qed simp

lemma length_to_string_le: "n < 10 ^ k \<Longrightarrow> 0 < k \<Longrightarrow> length (to_string n) \<le> k"
proof (induction n arbitrary: k rule: to_string.induct)
  case (1 n)
  show ?case
  proof (cases "n < 10")
    case False
    then obtain k' where k: "k = Suc k'" using 1 by (cases k) auto
    with False 1(2) have "0 < k'" by (cases k') auto
    moreover have "n div 10 < 10 ^ k'" using 1(2) k by simp
    ultimately show ?thesis using 1(1) [OF False] k False by (simp add: to_string.simps [of n])
  qed (use 1 in \<open>simp add: to_string.simps [of n]\<close>)
qed

text \<open>The general case of the parser: digits, a point, and at most eight digits.\<close>

lemma parse_digits:
  assumes "list_all is_digit xs" and "list_all is_digit ys" and "length ys \<le> 8" and "xs \<noteq> []"
  shows "parse_amount (xs @ CHR ''.'' # ys) = u64_from_string (xs @ ys @ replicate (8 - length ys) (CHR ''0''))"
proof -
  let ?s = "xs @ CHR ''.'' # ys"
  have nsp: "\<forall>c \<in> set ?s. \<not> is_space c"
    using assms(1,2) is_digit_not by (auto simp: list_all_iff is_space_def)
  then have "dropWhile is_space (rev ?s) = rev ?s" "dropWhile is_space ?s = ?s"
    by (metis dropWhile_eq_self_iff hd_in_set set_rev)+
  then have "trim ?s = ?s" unfolding trim_def by (simp only: rev_rev_ident)
  moreover have "takeWhile (\<lambda>c. c \<noteq> CHR ''.'') ?s = xs"
    using assms(1) is_digit_not by (auto simp: list_all_iff takeWhile_append2)
  moreover have "strip_zeros (length ys) ?s = (length ys, ?s)"
    using assms(3) by (cases "length ys") (simp_all add: CURRENCY_DISPLAY_DECIMAL_POINT_def)
  ultimately show ?thesis
    using assms(3,4) by (simp add: parse_amount_def Let_def CURRENCY_DISPLAY_DECIMAL_POINT_def)
qed

lemma from_digits:
  "list_all is_digit s \<Longrightarrow> s \<noteq> [] \<Longrightarrow> digits_value 0 s = unat a \<Longrightarrow> u64_from_string s = Some a" for a :: u64
  using unat_u64_lt [of a] by (simp add: u64_from_string_def)

lemma take_drop_digits: "list_all is_digit s \<Longrightarrow> list_all is_digit (take k s) \<and> list_all is_digit (drop k s)"
  by (auto simp: list_all_iff dest: in_set_takeD in_set_dropD)

lemma zeros_digits: "list_all is_digit (replicate k (CHR ''0''))"
  by (simp add: list_all_iff is_digit_def)

text \<open>\<open>s\<close> filled up with zeros on the left to the length \<open>k\<close>.\<close>

definition pad_left :: "nat \<Rightarrow> string \<Rightarrow> string" where
  "pad_left k s = (if length s < k then replicate (k - length s) (CHR ''0'') @ s else s)"

lemma pad_left_to_string:
  "list_all is_digit (pad_left k (to_string n)) \<and> digits_value 0 (pad_left k (to_string n)) = n \<and>
    length (pad_left k (to_string n)) = max k (length (to_string n))"
  using to_string_digits [of n] zeros_digits by (auto simp: pad_left_def digits_value_append digits_value_zeros)

lemma parse_print_money: "parse_amount (print_money a False) = Some a"
proof -
  let ?s = "pad_left 9 (to_string (unat a))"
  let ?k = "length ?s - 8"
  note p = pad_left_to_string [of 9 "unat a"]
  have "print_money a False = take ?k ?s @ CHR ''.'' # drop ?k ?s"
    by (simp add: print_money_def print_fixed_decimal_point_def pad_left_def insert_at_def Let_def
        CURRENCY_DISPLAY_DECIMAL_POINT_def)
  also have "parse_amount \<dots> = u64_from_string (take ?k ?s @ drop ?k ?s @ replicate (8 - length (drop ?k ?s)) (CHR ''0''))"
  proof (rule parse_digits)
    show "list_all is_digit (take ?k ?s)" "list_all is_digit (drop ?k ?s)" using take_drop_digits p by blast+
    have "0 < ?k" using p by simp
    then show "take ?k ?s \<noteq> []" "length (drop ?k ?s) \<le> 8" using p by auto
  qed
  also have "\<dots> = u64_from_string ?s" using p by simp
  also have "\<dots> = Some a" using p by (intro from_digits) auto
  finally show ?thesis .
qed

lemma drop_last_zeros_split:
  "drop_last_zeros r @ replicate (length r - length (drop_last_zeros r)) (CHR ''0'') = r"
proof -
  have "takeWhile (\<lambda>c. c = CHR ''0'') xs = replicate (length (takeWhile (\<lambda>c. c = CHR ''0'') xs)) (CHR ''0'')" for xs
    by (induction xs) simp_all
  then have "rev (takeWhile (\<lambda>c. c = CHR ''0'') (rev r)) = replicate (length (takeWhile (\<lambda>c. c = CHR ''0'') (rev r))) (CHR ''0'')"
    by (metis rev_replicate)
  moreover have r: "r = drop_last_zeros r @ rev (takeWhile (\<lambda>c. c = CHR ''0'') (rev r))"
    unfolding drop_last_zeros_def by (metis rev_append rev_rev_ident takeWhile_dropWhile_id)
  ultimately show ?thesis by (metis add_diff_cancel_left' length_append length_replicate)
qed

lemma parse_print_money_brief: "parse_amount (print_money_brief a) = Some a"
proof -
  let ?q = "unat a div 100000000" and ?m = "unat a mod 100000000"
  have q: "unat (a div COIN_UNITS) = ?q" "unat (a mod COIN_UNITS) = ?m"
    by (simp_all add: COIN_UNITS_def unat_div unat_mod)
  have qm: "?q * 100000000 + ?m = unat a" by simp
  note tq = to_string_digits [of ?q]
  define r where "r = pad_left 8 (to_string ?m)"
  define d where "d = (if ?m = 0 then ''0'' else drop_last_zeros r)"
  have p: "list_all is_digit r" "digits_value 0 r = ?m" "length r = 8"
    using pad_left_to_string [of 8 ?m] length_to_string_le [of ?m 8] by (simp_all add: r_def)
  have split: "drop_last_zeros r @ replicate (8 - length (drop_last_zeros r)) (CHR ''0'') = r"
    using drop_last_zeros_split [of r] p(3) by simp
  have len: "length (drop_last_zeros r) \<le> 8" using arg_cong [OF split, of length] p(3) by simp
  have dd: "list_all is_digit (drop_last_zeros r)" using split p(1) by (metis list_all_append)
  have "print_money_brief a = to_string ?q @ CHR ''.'' # d"
  proof (cases "?m = 0")
    case True
    then have "a mod COIN_UNITS = 0" using q(2) by (simp only: unat_eq_0 [symmetric])
    then show ?thesis using True q(1) by (simp only: print_money_brief_def d_def Let_def if_True) simp
  next
    case False
    then have "a mod COIN_UNITS \<noteq> 0" using q(2) by (metis unat_eq_0)
    then show ?thesis using False q
      by (simp only: print_money_brief_def d_def r_def pad_left_def Let_def CURRENCY_DISPLAY_DECIMAL_POINT_def if_False) simp
  qed
  also have "parse_amount \<dots> = u64_from_string (to_string ?q @ d @ replicate (8 - length d) (CHR ''0''))"
    using tq dd len by (intro parse_digits) (auto simp: d_def is_digit_def)
  also have "\<dots> = Some a"
  proof (rule from_digits)
    have "digits_value 0 (d @ replicate (8 - length d) (CHR ''0'')) = ?m \<and> length (d @ replicate (8 - length d) (CHR ''0'')) = 8"
    proof (cases "?m = 0")
      case True
      have "''0'' @ replicate (8 - length ''0'') (CHR ''0'') = replicate 8 (CHR ''0'')"
        by (simp add: eval_nat_numeral)
      then have "d @ replicate (8 - length d) (CHR ''0'') = replicate 8 (CHR ''0'')"
        using True by (simp only: d_def if_True simp_thms)
      then show ?thesis by (simp only: digits_value_zeros length_replicate mult_0 True simp_thms)
    next
      case False
      then show ?thesis using split p by (simp only: d_def if_False)
    qed
    then show "digits_value 0 (to_string ?q @ d @ replicate (8 - length d) (CHR ''0'')) = unat a"
      using tq digits_value_shift [of ?q] qm unfolding digits_value_append [of 0 "to_string ?q"] by simp
    show "list_all is_digit (to_string ?q @ d @ replicate (8 - length d) (CHR ''0''))"
      using tq dd zeros_digits by (auto simp: d_def is_digit_def)
  qed (use tq in simp)
  finally show ?thesis .
qed

lemma decompose_all:
  assumes "amount \<noteq> 0"
  shows "\<exists>parts. decompose_amount amount thr = Some (True, parts) \<and> parts_total parts = unat amount \<and>
    list_all (part_fits thr WALLET_MAX_ALLOWED_OUTPUT_AMOUNT) parts"
proof -
  have "amount \<le> WALLET_MAX_ALLOWED_OUTPUT_AMOUNT"
    using unat_u64_lt [of amount] by (simp add: WALLET_MAX_ALLOWED_OUTPUT_AMOUNT_def word_le_nat_alt less_Suc_eq_le [symmetric])
  moreover have "amount div WALLET_MAX_ALLOWED_OUTPUT_AMOUNT \<le> CURRENCY_TX_MAX_ALLOWED_OUTS"
  proof -
    have "unat amount < 2 * 18446744073709551615" by (rule less_le_trans [OF unat_u64_lt]) simp
    then have "unat amount div 18446744073709551615 < 2" by (rule less_mult_imp_div_less)
    then have "unat amount div 18446744073709551615 \<le> 2000" by linarith
    then show ?thesis
      by (simp add: WALLET_MAX_ALLOWED_OUTPUT_AMOUNT_def CURRENCY_TX_MAX_ALLOWED_OUTS_def word_le_nat_alt unat_div)
  qed
  ultimately show ?thesis unfolding decompose_amount_def numeral_2_eq_2 by (intro decompose_small [OF assms])
qed

subsection \<open>Properties\<close>

text \<open>For every amount that is not zero, decompose_amount_into_digits with the default limits returns true, a
  recursion depth of two is enough, the chunks and the dust it hands out add up to exactly the amount, none
  of them is zero and the dust does not exceed the threshold; with a limit on the outputs of the caller's the
  function also returns, and whenever it returns true the parts add up to the amount and keep the limit.\<close>
theorem decompose_adds_up:
  assumes "amount \<noteq> 0" and "max_output \<noteq> 0"
  shows "(\<exists>parts. decompose_amount amount dust_threshold = Some (True, parts) \<and> parts_total parts = unat amount \<and>
      list_all (part_fits dust_threshold WALLET_MAX_ALLOWED_OUTPUT_AMOUNT) parts) \<and>
    (\<exists>ok parts. decompose_amount_limited amount dust_threshold max_output = Some (ok, parts) \<and>
      (ok \<longrightarrow> parts_total parts = unat amount \<and> list_all (part_fits dust_threshold max_output) parts))"
  unfolding decompose_amount_limited_def using decompose_all [OF assms(1)] decompose_sums [OF assms] by blast

lemma decompose_adds_up_witness:
  "\<exists>ok parts. decompose_amount_limited 62387455827 455827 50000000000 = Some (ok, parts) \<and>
    (ok \<longrightarrow> parts_total parts = 62387455827 \<and> list_all (part_fits 455827 50000000000) parts)"
  using decompose_adds_up [of 62387455827 50000000000 455827] by simp

text \<open>Reading back a printed amount gives the amount: parse_amount inverts both print_money without
  separators and print_money_brief, for all 64-bit amounts.\<close>
theorem amount_text_roundtrip:
  "parse_amount (print_money a False) = Some a \<and> parse_amount (print_money_brief a) = Some a"
  by (simp add: parse_print_money parse_print_money_brief)

end
