(* ===== verification/BlockTemplate.thy ===== *)
theory BlockTemplate
  imports TxPool
begin

section \<open>Choosing transactions for a block (tx_pool.cpp)\<close>

text \<open>
  \<open>fill_block_template\<close> and what it uses: the test whether a transaction can go into the next block, the loop
  over the waiting transactions by fee per byte with its best position, and the final collection of the hashes.
  The theorems: the transactions chosen spend no key image twice, were ready and give the reported size and
  fee; cancellations of offers behind the best position are added whatever their state; every state that
  the pool reaches keeps the invariant of its key images.
\<close>

subsection \<open>Choosing transactions for a block\<close>

text \<open>
  \<open>is_transaction_ready_to_go\<close> returns whether the transaction can go into a block and the details it may have
  changed.
\<close>

definition mark_failed :: "node_view \<Rightarrow> tx_details \<Rightarrow> tx_details" where
  "mark_failed nv txd =
     txd\<lparr>td_last_failed_height := get_top_block_height nv,
       td_last_failed_id := nv_block_id_by_height nv (get_top_block_height nv)\<rparr>"

definition recheck_inputs :: "node_view \<Rightarrow> hash \<Rightarrow> tx_details \<Rightarrow> bool \<times> tx_details" where
  "recheck_inputs nv txid txd =
     (let (ok, h, b) = nv_check_tx_inputs nv (td_tx txd) txid (td_max_used_block_height txd, td_max_used_block_id txd);
          txd = txd\<lparr>td_max_used_block_height := h, td_max_used_block_id := b\<rparr>
      in if ok then (True, txd) else (False, mark_failed nv txd))"

definition inputs_ready :: "node_view \<Rightarrow> hash \<Rightarrow> tx_details \<Rightarrow> bool \<times> tx_details" where
  "inputs_ready nv txid txd =
     (if td_max_used_block_id txd = null_hash
      then if td_last_failed_id txd \<noteq> null_hash \<and> td_last_failed_height txd < nv_blockchain_size nv \<and>
                td_last_failed_id txd = nv_block_id_by_height nv (td_last_failed_height txd)
           then (False, txd)
           else recheck_inputs nv txid txd
      else if nv_blockchain_size nv \<le> td_max_used_block_height txd then (False, txd)
      else if nv_block_id_by_height nv (td_max_used_block_height txd) \<noteq> td_max_used_block_id txd
      then if td_last_failed_id txd = nv_block_id_by_height nv (td_last_failed_height txd) then (False, txd)
           else recheck_inputs nv txid txd
      else (True, txd))"

definition is_transaction_ready_to_go :: "node_view \<Rightarrow> tx_memory_pool \<Rightarrow> hash \<Rightarrow> tx_details \<Rightarrow> bool \<times> tx_details" where
  "is_transaction_ready_to_go nv pool txid txd =
     (if nv_transaction_hash nv (td_tx txd) \<in> m_db_black_tx_list pool then (False, txd)
      else let (ok, txd) = inputs_ready nv txid txd
      in if \<not> ok then (False, txd)
         else if bc_have_tx_keyimges_as_spent nv (td_tx txd) then (False, txd)
         else if \<not> check_tx_multisig_ins_and_outs nv (td_tx txd) False pool then (False, txd)
         else (True, txd))"

definition have_key_images :: "key_image set \<Rightarrow> transaction \<Rightarrow> bool" where
  "have_key_images k_images tx = list_ex (\<lambda>i. case i of TxinToKey k \<Rightarrow> tk_k_image k \<in> k_images | _ \<Rightarrow> False) (vin tx)"

fun append_images :: "txin_v list \<Rightarrow> key_image set \<Rightarrow> bool \<times> key_image set" where
  "append_images [] k_images = (True, k_images)"
| "append_images (TxinToKey k # is) k_images =
     (if tk_k_image k \<in> k_images then (False, k_images)
      else append_images is (insert (tk_k_image k) k_images))"
| "append_images (_ # is) k_images = append_images is k_images"

definition append_key_images :: "key_image set \<Rightarrow> transaction \<Rightarrow> bool \<times> key_image set" where
  "append_key_images k_images tx = append_images (vin tx) k_images"

text \<open>The comparison by fee per byte, with the products in 128 bits.\<close>

definition fee_rate_greater :: "hash \<times> tx_details \<Rightarrow> hash \<times> tx_details \<Rightarrow> bool" where
  "fee_rate_greater pa pb \<longleftrightarrow>
     unat (td_fee (snd pb)) * unat (td_blob_size (snd pa)) < unat (td_fee (snd pa)) * unat (td_blob_size (snd pb))"

fun alias_regs_exist :: "(hash \<times> tx_details) list \<Rightarrow> bool option" where
  "alias_regs_exist [] = Some False"
| "alias_regs_exist (ptx # ptxs) =
     (case parse_and_validate_tx_extra (td_tx (snd ptx)) of
        None \<Rightarrow> None
      | Some ei \<Rightarrow> if alias_name ei \<noteq> [] \<and> \<not> alias_signed ei then Some True else alias_regs_exist ptxs)"

record block_args =
  ba_pos :: bool
  ba_median_size :: u64
  ba_already_generated_coins :: u64
  ba_height :: u64

record template_state =
  ts_k_images :: "key_image set"
  ts_current_size :: u64
  ts_current_fee :: u64
  ts_best_money :: u64
  ts_best_position :: nat
  ts_total_size :: u64
  ts_fee :: u64
  ts_alias_count :: u64
  ts_pool :: tx_memory_pool

text \<open>
  What the loop does with one entry: skip it (\<open>utx.reset(nullptr); continue\<close>), keep it, keep it and leave the loop, or
  \<open>return false\<close>.
\<close>

datatype entry_fate = Skipped | Kept | Break | Failed

definition take_entry :: "block_args \<Rightarrow> nat \<Rightarrow> hash \<times> tx_details \<Rightarrow> bool \<Rightarrow> template_state \<Rightarrow> entry_fate \<times> template_state" where
  "take_entry args i utx has_alias s =
     (let s = s\<lparr>ts_k_images := snd (append_key_images (ts_k_images s) (td_tx (snd utx))),
               ts_current_size := ts_current_size s + td_blob_size (snd utx),
               ts_current_fee := ts_current_fee s + td_fee (snd utx)\<rparr>
      in case get_block_reward (ba_pos args) (ba_median_size args)
               (ts_current_size s + CURRENCY_COINBASE_BLOB_RESERVED_SIZE) (ba_already_generated_coins args) (ba_height args) of
           None \<Rightarrow> (Break, s)
         | Some current_reward \<Rightarrow>
             let s = (if ts_best_money s < current_reward + ts_current_fee s
                      then s\<lparr>ts_best_money := current_reward + ts_current_fee s, ts_best_position := i + 1,
                             ts_total_size := ts_current_size s, ts_fee := ts_current_fee s\<rparr>
                      else s)
             in (Kept, if has_alias then s\<lparr>ts_alias_count := ts_alias_count s + 1\<rparr> else s))"

text \<open>The changed details of a transaction that is not ready go back into the database.\<close>

definition store_failure :: "node_view \<Rightarrow> tx_details \<Rightarrow> tx_details \<Rightarrow> tx_memory_pool \<Rightarrow> tx_memory_pool" where
  "store_failure nv old txd pool =
     (if td_last_failed_height txd \<noteq> td_last_failed_height old \<or> td_last_failed_id txd \<noteq> td_last_failed_id old
      then pool\<lparr>m_db_transactions := (m_db_transactions pool)(nv_transaction_hash nv (td_tx txd) \<mapsto> txd)\<rparr>
      else pool)"

definition template_entry ::
    "node_view \<Rightarrow> block_args \<Rightarrow> bool \<Rightarrow> nat \<Rightarrow> hash \<times> tx_details \<Rightarrow> template_state \<Rightarrow> entry_fate \<times> template_state" where
  "template_entry nv args regs_exist i utx s =
     (if is_tx_expired (td_tx (snd utx)) (nv_expiration_median nv) then (Skipped, s)
      else case parse_and_validate_tx_extra (td_tx (snd utx)) of
        None \<Rightarrow> (Failed, s)
      | Some ei \<Rightarrow>
          if alias_name ei \<noteq> [] \<and> (MAX_ALIAS_PER_BLOCK \<le> ts_alias_count s \<or> alias_signed ei \<and> regs_exist)
          then (Skipped, s)
          else let (ready, txd) = is_transaction_ready_to_go nv (ts_pool s) (fst utx) (snd utx)
               in if \<not> ready then (Skipped, s\<lparr>ts_pool := store_failure nv (snd utx) txd (ts_pool s)\<rparr>)
                  else if have_key_images (ts_k_images s) (td_tx (snd utx)) then (Skipped, s)
                  else take_entry args i utx (alias_name ei \<noteq> []) s)"

text \<open>The entries that are still there after the loop, and its state; after a \<open>break\<close> the rest is untouched.\<close>

fun template_loop ::
    "node_view \<Rightarrow> block_args \<Rightarrow> bool \<Rightarrow> nat \<Rightarrow> (hash \<times> tx_details) list \<Rightarrow> template_state \<Rightarrow>
     bool \<times> (hash \<times> tx_details) option list \<times> template_state" where
  "template_loop nv args regs_exist i [] s = (True, [], s)"
| "template_loop nv args regs_exist i (utx # utxs) s =
     (case template_entry nv args regs_exist i utx s of
        (Skipped, s) \<Rightarrow> apsnd (apfst (Cons None)) (template_loop nv args regs_exist (i + 1) utxs s)
      | (Kept, s) \<Rightarrow> apsnd (apfst (Cons (Some utx))) (template_loop nv args regs_exist (i + 1) utxs s)
      | (Break, s) \<Rightarrow> (True, Some utx # map Some utxs, s)
      | (Failed, s) \<Rightarrow> (False, Some utx # map Some utxs, s))"

fun collect_hashes ::
    "nat \<Rightarrow> nat \<Rightarrow> (hash \<times> tx_details) option list \<Rightarrow> hash list \<Rightarrow> u64 \<Rightarrow> hash list \<times> u64" where
  "collect_hashes best_position i [] hs total_size = (hs, total_size)"
| "collect_hashes best_position i (None # us) hs total_size = collect_hashes best_position (i + 1) us hs total_size"
| "collect_hashes best_position i (Some utx # us) hs total_size =
     (if i < best_position then collect_hashes best_position (i + 1) us (hs @ [fst utx]) total_size
      else if have_attachment_service_in_container (attachment (td_tx (snd utx))) BC_OFFERS_SERVICE_ID
                BC_OFFERS_SERVICE_INSTRUCTION_DEL
      then collect_hashes best_position (i + 1) us (hs @ [fst utx]) (total_size + td_blob_size (snd utx))
      else collect_hashes best_position (i + 1) us hs total_size)"

text \<open>The result, the hashes for the block, the tsize size, the fee and the pool.\<close>

definition fill_block_template ::
    "node_view \<Rightarrow> block_args \<Rightarrow> hash list \<Rightarrow> tx_memory_pool \<Rightarrow> bool \<times> hash list \<times> u64 \<times> u64 \<times> tx_memory_pool" where
  "fill_block_template nv args bl_tx_hashes pool =
     (let utxs = nv_sort nv fee_rate_greater (nv_enumerate nv (m_db_transactions pool))
      in case get_block_reward (ba_pos args) (ba_median_size args) CURRENCY_COINBASE_BLOB_RESERVED_SIZE
              (ba_already_generated_coins args) (ba_height args) of
           None \<Rightarrow> (False, bl_tx_hashes, 0, 0, pool)
         | Some best_money \<Rightarrow>
             (case alias_regs_exist utxs of
                None \<Rightarrow> (False, bl_tx_hashes, 0, 0, pool)
              | Some regs_exist \<Rightarrow>
                  let (ok, us, s) = template_loop nv args regs_exist 0 utxs
                      \<lparr>ts_k_images = {}, ts_current_size = 0, ts_current_fee = 0, ts_best_money = best_money,
                        ts_best_position = 0, ts_total_size = 0, ts_fee = 0, ts_alias_count = 0, ts_pool = pool\<rparr>
                  in if \<not> ok then (False, bl_tx_hashes, ts_total_size s, ts_fee s, ts_pool s)
                     else let (hs, total_size) = collect_hashes (ts_best_position s) 0 us bl_tx_hashes (ts_total_size s)
                          in (True, hs, total_size, ts_fee s, ts_pool s)))"


subsection \<open>What the loop keeps\<close>

fun somes :: "'a option list \<Rightarrow> 'a list" where
  "somes [] = []"
| "somes (None # us) = somes us"
| "somes (Some u # us) = u # somes us"

lemma somes_append [simp]: "somes (us @ vs) = somes us @ somes vs"
  by (induction us rule: somes.induct) simp_all

lemma somes_map_Some [simp]: "somes (map Some us) = us"
  by (induction us) simp_all

definition sizes :: "(hash \<times> tx_details) list \<Rightarrow> u64" where
  "sizes us = (\<Sum>u\<leftarrow>us. td_blob_size (snd u))"

definition fees :: "(hash \<times> tx_details) list \<Rightarrow> u64" where
  "fees us = (\<Sum>u\<leftarrow>us. td_fee (snd u))"

definition images :: "(hash \<times> tx_details) list \<Rightarrow> key_image list" where
  "images us = concat (map (\<lambda>u. key_images (td_tx (snd u))) us)"

lemma sums_append [simp]:
  "sizes (us @ vs) = sizes us + sizes vs" "fees (us @ vs) = fees us + fees vs" "images (us @ vs) = images us @ images vs"
  by (simp_all add: sizes_def fees_def images_def)

lemma sums_simps [simp]:
  "sizes [] = 0" "fees [] = 0" "images [] = []"
  "sizes (u # us) = td_blob_size (snd u) + sizes us" "fees (u # us) = td_fee (snd u) + fees us"
  "images (u # us) = key_images (td_tx (snd u)) @ images us"
  by (simp_all add: sizes_def fees_def images_def)

definition entry_ready :: "node_view \<Rightarrow> tx_memory_pool \<Rightarrow> hash \<times> tx_details \<Rightarrow> bool" where
  "entry_ready nv pool u \<longleftrightarrow> \<not> is_tx_expired (td_tx (snd u)) (nv_expiration_median nv) \<and>
     fst (is_transaction_ready_to_go nv pool (fst u) (snd u))"

lemma is_ready_black_list:
  "m_db_black_tx_list p = m_db_black_tx_list q \<Longrightarrow>
   is_transaction_ready_to_go nv p = is_transaction_ready_to_go nv q"
proof -
  have "check_ms_ids nv p False els = check_ms_ids nv q False els" for els by (induction els) simp_all
  then have ms: "check_tx_multisig_ins_and_outs nv tx False p = check_tx_multisig_ins_and_outs nv tx False q" for tx
    by (simp add: check_tx_multisig_ins_and_outs_def)
  show "m_db_black_tx_list p = m_db_black_tx_list q \<Longrightarrow> ?thesis"
    unfolding is_transaction_ready_to_go_def fun_eq_iff ms by simp
qed

lemma have_key_images_iff: "have_key_images ks tx \<longleftrightarrow> set (key_images tx) \<inter> ks \<noteq> {}"
proof -
  have "list_ex (\<lambda>i. case i of TxinToKey k \<Rightarrow> tk_k_image k \<in> ks | _ \<Rightarrow> False) is \<longleftrightarrow>
      set (concat (map (\<lambda>i. case i of TxinToKey k \<Rightarrow> [tk_k_image k] | _ \<Rightarrow> []) is)) \<inter> ks \<noteq> {}" for "is"
    by (induction "is") (auto split: txin_v.splits)
  then show ?thesis by (simp add: have_key_images_def key_images_def)
qed

lemma append_key_images_fresh:
  "distinct (key_images tx) \<Longrightarrow> set (key_images tx) \<inter> ks = {} \<Longrightarrow>
   append_key_images ks tx = (True, ks \<union> set (key_images tx))"
proof -
  have "distinct (concat (map (\<lambda>i. case i of TxinToKey k \<Rightarrow> [tk_k_image k] | _ \<Rightarrow> []) is)) \<Longrightarrow>
      set (concat (map (\<lambda>i. case i of TxinToKey k \<Rightarrow> [tk_k_image k] | _ \<Rightarrow> []) is)) \<inter> ks = {} \<Longrightarrow>
      append_images is ks = (True, ks \<union> set (concat (map (\<lambda>i. case i of TxinToKey k \<Rightarrow> [tk_k_image k] | _ \<Rightarrow> []) is)))" for "is"
    by (induction "is" ks rule: append_images.induct) auto
  then show "distinct (key_images tx) \<Longrightarrow> set (key_images tx) \<inter> ks = {} \<Longrightarrow> ?thesis"
    by (simp add: append_key_images_def key_images_def)
qed

definition template_reward :: "block_args \<Rightarrow> u64 \<Rightarrow> u64 option" where
  "template_reward args sz = get_block_reward (ba_pos args) (ba_median_size args)
     (sz + CURRENCY_COINBASE_BLOB_RESERVED_SIZE) (ba_already_generated_coins args) (ba_height args)"

text \<open>The part of the invariant about the best position: the chosen entries are \<open>somes (take (ts_best_position s) us)\<close>.\<close>

definition best_ok ::
    "node_view \<Rightarrow> block_args \<Rightarrow> tx_memory_pool \<Rightarrow> u64 \<Rightarrow> (hash \<times> tx_details) option list \<Rightarrow> template_state \<Rightarrow> bool" where
  "best_ok nv args pool base us s \<longleftrightarrow>
     (let chosen = somes (take (ts_best_position s) us)
      in ts_best_position s \<le> length us \<and> ts_total_size s = sizes chosen \<and> ts_fee s = fees chosen \<and>
         map_option (\<lambda>r. r + fees chosen) (template_reward args (sizes chosen)) = Some (ts_best_money s) \<and>
         base \<le> ts_best_money s \<and> distinct (images chosen) \<and> list_all (entry_ready nv pool) chosen)"

definition loop_ok ::
    "node_view \<Rightarrow> block_args \<Rightarrow> tx_memory_pool \<Rightarrow> u64 \<Rightarrow> (hash \<times> tx_details) option list \<Rightarrow> template_state \<Rightarrow> bool" where
  "loop_ok nv args pool base us s \<longleftrightarrow> best_ok nv args pool base us s \<and>
     ts_current_size s = sizes (somes us) \<and> ts_current_fee s = fees (somes us) \<and>
     ts_k_images s = set (images (somes us)) \<and> distinct (images (somes us)) \<and>
     list_all (entry_ready nv pool) (somes us) \<and> m_db_black_tx_list (ts_pool s) = m_db_black_tx_list pool"

lemma best_ok_more: "best_ok nv args pool base us s \<Longrightarrow> best_ok nv args pool base (us @ vs) s"
  by (auto simp: best_ok_def Let_def)

lemma best_ok_cong:
  "ts_best_position s' = ts_best_position s \<Longrightarrow> ts_total_size s' = ts_total_size s \<Longrightarrow> ts_fee s' = ts_fee s \<Longrightarrow>
   ts_best_money s' = ts_best_money s \<Longrightarrow> best_ok nv args pool base us s' = best_ok nv args pool base us s"
  by (simp add: best_ok_def)

lemma loop_ok_skip:
  assumes "loop_ok nv args pool base us s" and "m_db_black_tx_list p = m_db_black_tx_list (ts_pool s)"
  shows "loop_ok nv args pool base (us @ [None]) (s\<lparr>ts_pool := p\<rparr>)"
  using assms best_ok_more [of nv args pool base us s "[None]"]
    best_ok_cong [of "s\<lparr>ts_pool := p\<rparr>" s nv args pool base "us @ [None]"]
  by (simp add: loop_ok_def)

lemma store_failure_black_list [simp]: "m_db_black_tx_list (store_failure nv old txd p) = m_db_black_tx_list p"
  by (simp add: store_failure_def)

lemma take_entry_ok:
  assumes ok: "loop_ok nv args pool base us s"
    and r: "entry_ready nv pool utx" and d: "distinct (key_images (td_tx (snd utx)))"
    and n: "\<not> have_key_images (ts_k_images s) (td_tx (snd utx))"
    and t: "take_entry args (length us) utx has_alias s = (fate, s')"
  shows "fate = Kept \<and> loop_ok nv args pool base (us @ [Some utx]) s' \<or> fate = Break \<and> best_ok nv args pool base us s'"
proof -
  let ?sz = "sizes (somes us) + td_blob_size (snd utx)" and ?fee = "fees (somes us) + td_fee (snd utx)"
  let ?s = "s\<lparr>ts_k_images := ts_k_images s \<union> set (key_images (td_tx (snd utx))),
      ts_current_size := ?sz, ts_current_fee := ?fee\<rparr>"
  have k: "ts_k_images s = set (images (somes us))" "ts_current_size s = sizes (somes us)"
      "ts_current_fee s = fees (somes us)" using ok by (simp_all add: loop_ok_def)
  have dj: "set (key_images (td_tx (snd utx))) \<inter> set (images (somes us)) = {}"
    using n by (simp add: have_key_images_iff k)
  then have a: "append_key_images (ts_k_images s) (td_tx (snd utx)) = (True, ts_k_images s \<union> set (key_images (td_tx (snd utx))))"
    by (intro append_key_images_fresh [OF d]) (simp add: k)
  have b: "best_ok nv args pool base us ?s"
    using ok best_ok_cong [of ?s s nv args pool base us] by (simp add: loop_ok_def)
  have cur: "distinct (images (somes (us @ [Some utx])))" "list_all (entry_ready nv pool) (somes (us @ [Some utx]))"
    using ok d r dj by (auto simp: loop_ok_def)
  show ?thesis
  proof (cases "template_reward args ?sz")
    case None
    then have "(fate, s') = (Break, ?s)" using t by (simp add: take_entry_def a [unfolded k] k template_reward_def)
    then show ?thesis using b by simp
  next
    case (Some reward)
    define s1 where "s1 = (if ts_best_money s < reward + ?fee
      then ?s\<lparr>ts_best_money := reward + ?fee, ts_best_position := length us + 1, ts_total_size := ?sz, ts_fee := ?fee\<rparr> else ?s)"
    have "(fate, s') = (Kept, if has_alias then s1\<lparr>ts_alias_count := ts_alias_count s1 + 1\<rparr> else s1)"
      using t Some by (cases has_alias; cases "ts_best_money s < reward + ?fee")
        (simp_all add: take_entry_def a [unfolded k] k template_reward_def s1_def Let_def)
    then have s': "fate = Kept" "s' = (if has_alias then s1\<lparr>ts_alias_count := ts_alias_count s1 + 1\<rparr> else s1)" by simp_all
    have "best_ok nv args pool base (us @ [Some utx]) s1"
    proof (cases "ts_best_money s < reward + ?fee")
      case True
      moreover have "base \<le> ts_best_money s" using ok by (simp add: loop_ok_def best_ok_def Let_def)
      ultimately show ?thesis using Some cur by (simp add: s1_def best_ok_def Let_def add_ac)
    next
      case False
      then show ?thesis using best_ok_more [OF b] by (simp add: s1_def)
    qed
    then have "loop_ok nv args pool base (us @ [Some utx]) s1"
      using cur ok k by (auto simp: loop_ok_def s1_def add_ac)
    moreover have "loop_ok nv args pool base vs (s1\<lparr>ts_alias_count := c\<rparr>) = loop_ok nv args pool base vs s1" for vs c
      using best_ok_cong [of "s1\<lparr>ts_alias_count := c\<rparr>" s1 nv args pool base vs] by (simp add: loop_ok_def)
    ultimately show ?thesis using s' by simp
  qed
qed

lemma template_entry_ok:
  assumes ok: "loop_ok nv args pool base us s" and d: "distinct (key_images (td_tx (snd utx)))"
    and t: "template_entry nv args re (length us) utx s = (fate, s')"
  shows "case fate of Skipped \<Rightarrow> loop_ok nv args pool base (us @ [None]) s'
    | Kept \<Rightarrow> loop_ok nv args pool base (us @ [Some utx]) s'
    | _ \<Rightarrow> best_ok nv args pool base us s'"
proof -
  have skip: "loop_ok nv args pool base (us @ [None]) s" using loop_ok_skip [OF ok, of "ts_pool s"] by simp
  have skip': "loop_ok nv args pool base (us @ [None]) (s\<lparr>ts_pool := store_failure nv (snd utx) txd (ts_pool s)\<rparr>)" for txd
    by (rule loop_ok_skip [OF ok]) simp
  have best: "best_ok nv args pool base us s" using ok by (simp add: loop_ok_def)
  have same: "is_transaction_ready_to_go nv (ts_pool s) = is_transaction_ready_to_go nv pool"
    using ok by (intro is_ready_black_list) (simp add: loop_ok_def)
  obtain ready txd where rt: "is_transaction_ready_to_go nv (ts_pool s) (fst utx) (snd utx) = (ready, txd)" by fastforce
  let ?expired = "is_tx_expired (td_tx (snd utx)) (nv_expiration_median nv)"
  let ?full = "\<lambda>ei. alias_name ei \<noteq> [] \<and> (MAX_ALIAS_PER_BLOCK \<le> ts_alias_count s \<or> alias_signed ei \<and> re)"
  consider (skipped) "(fate, s') = (Skipped, s)"
    | (failed) "(fate, s') = (Failed, s)"
    | (ready) ei where "\<not> ?expired" "parse_and_validate_tx_extra (td_tx (snd utx)) = Some ei" "\<not> ?full ei"
  proof -
    assume c: "(fate, s') = (Skipped, s) \<Longrightarrow> thesis" "(fate, s') = (Failed, s) \<Longrightarrow> thesis"
      "\<And>ei. \<not> ?expired \<Longrightarrow> parse_and_validate_tx_extra (td_tx (snd utx)) = Some ei \<Longrightarrow> \<not> ?full ei \<Longrightarrow> thesis"
    show thesis
    proof (cases "parse_and_validate_tx_extra (td_tx (snd utx))")
      case None
      then have "(fate, s') = (if ?expired then (Skipped, s) else (Failed, s))" by (simp add: t [symmetric] template_entry_def)
      then show thesis using c(1,2) by (cases ?expired) simp_all
    next
      case (Some ei)
      then have "?expired \<or> ?full ei \<Longrightarrow> (fate, s') = (Skipped, s)" by (auto simp: t [symmetric] template_entry_def)
      then show thesis using c(1) c(3) [OF _ Some] by blast
    qed
  qed
  then show ?thesis
  proof cases
    case ready
    have r: "(fate, s') = (if \<not> ready then (Skipped, s\<lparr>ts_pool := store_failure nv (snd utx) txd (ts_pool s)\<rparr>)
        else if have_key_images (ts_k_images s) (td_tx (snd utx)) then (Skipped, s)
        else take_entry args (length us) utx (alias_name ei \<noteq> []) s)"
      unfolding t [symmetric] template_entry_def ready(2) option.case if_not_P [OF ready(1)] if_not_P [OF ready(3)]
      by (simp add: rt)
    consider "\<not> ready" | "ready" "have_key_images (ts_k_images s) (td_tx (snd utx))"
      | "ready" "\<not> have_key_images (ts_k_images s) (td_tx (snd utx))" by blast
    then show ?thesis
    proof cases
      case 3
      have "entry_ready nv pool utx" using ready(1) 3(1) rt by (simp add: entry_ready_def same)
      moreover have "take_entry args (length us) utx (alias_name ei \<noteq> []) s = (fate, s')" using r 3 by simp
      ultimately show ?thesis using take_entry_ok [OF ok _ d 3(2)] by fastforce
    qed (use r in \<open>simp_all add: skip skip'\<close>)
  qed (simp_all add: skip best)
qed

definition rest_of :: "(hash \<times> tx_details) option list \<Rightarrow> (hash \<times> tx_details) list \<Rightarrow> bool" where
  "rest_of us utxs \<longleftrightarrow> list_all2 (\<lambda>o' u. o' = None \<or> o' = Some u) us utxs"

lemma rest_of_map_Some: "rest_of (map Some utxs) utxs"
  by (auto simp: rest_of_def list_all2_conv_all_nth)

lemma rest_of_somes:
  assumes "rest_of us utxs" and "distinct (map fst utxs)"
  shows "set (somes us) \<subseteq> set utxs \<and> distinct (map fst (somes us))"
  using assms unfolding rest_of_def
proof (induction us utxs rule: list_all2_induct)
  case (Cons o' us u utxs)
  then have IH: "set (somes us) \<subseteq> set utxs" "distinct (map fst (somes us))" by simp_all
  then have "fst ` set (somes us) \<subseteq> fst ` set utxs" by blast
  then have "fst u \<notin> fst ` set (somes us)" using Cons.prems by auto
  then show ?case using Cons.hyps(1) IH by auto
qed simp

lemma template_loop_ok:
  "loop_ok nv args pool base us s \<Longrightarrow> list_all (\<lambda>u. distinct (key_images (td_tx (snd u)))) utxs \<Longrightarrow>
   template_loop nv args re (length us) utxs s = (ok, vs, s') \<Longrightarrow>
   best_ok nv args pool base (us @ vs) s' \<and> rest_of vs utxs"
proof (induction utxs arbitrary: us s vs)
  case Nil
  then show ?case by (simp add: loop_ok_def rest_of_def)
next
  case (Cons u utxs)
  obtain fate s1 where t: "template_entry nv args re (length us) u s = (fate, s1)" by fastforce
  have d: "distinct (key_images (td_tx (snd u)))" using Cons.prems(2) by simp
  have step: "case fate of Skipped \<Rightarrow> loop_ok nv args pool base (us @ [None]) s1
      | Kept \<Rightarrow> loop_ok nv args pool base (us @ [Some u]) s1 | _ \<Rightarrow> best_ok nv args pool base us s1"
    by (rule template_entry_ok [OF Cons.prems(1) d t])
  have more: "best_ok nv args pool base (us @ vs) s' \<and> rest_of vs (u # utxs)"
    if o': "o' = None \<or> o' = Some u" and l: "loop_ok nv args pool base (us @ [o']) s1"
      and e: "(ok, vs, s') = apsnd (apfst (Cons o')) (template_loop nv args re (Suc (length us)) utxs s1)" for o'
  proof -
    obtain vs2 where t2: "template_loop nv args re (length (us @ [o'])) utxs s1 = (ok, vs2, s')" and "vs = o' # vs2"
      using e by (cases "template_loop nv args re (Suc (length us)) utxs s1") simp
    then show ?thesis using Cons.IH [OF l _ t2] Cons.prems(2) o' by (simp add: rest_of_def)
  qed
  show ?case
  proof (cases fate)
    case Skipped
    then show ?thesis using more [of None] step t Cons.prems(3) by simp
  next
    case Kept
    then show ?thesis using more [of "Some u"] step t Cons.prems(3) by simp
  next
    case Break
    then have "vs = Some u # map Some utxs" "s' = s1" using t Cons.prems(3) by simp_all
    then show ?thesis using best_ok_more step Break rest_of_map_Some [of "u # utxs"] by simp
  next
    case Failed
    then have "vs = Some u # map Some utxs" "s' = s1" using t Cons.prems(3) by simp_all
    then show ?thesis using best_ok_more step Failed rest_of_map_Some [of "u # utxs"] by simp
  qed
qed

definition cancels_offer :: "hash \<times> tx_details \<Rightarrow> bool" where
  "cancels_offer u = have_attachment_service_in_container (attachment (td_tx (snd u))) BC_OFFERS_SERVICE_ID
     BC_OFFERS_SERVICE_INSTRUCTION_DEL"

lemma collect_hashes_split:
  "collect_hashes best i us hs tsize =
    (hs @ map fst (somes (take (best - i) us) @ filter cancels_offer (somes (drop (best - i) us))),
     tsize + sizes (filter cancels_offer (somes (drop (best - i) us))))"
proof (induction best i us hs tsize rule: collect_hashes.induct)
  case (2 best i us hs tsize)
  then show ?case by (cases "i < best") (simp_all add: Suc_diff_Suc [symmetric])
next
  case (3 best i utx us hs tsize)
  show ?case
  proof (cases "i < best")
    case True
    then show ?thesis using 3(1) by (simp add: Suc_diff_Suc [symmetric])
  next
    case False
    then show ?thesis using 3(2,3) by (auto simp: cancels_offer_def add_ac)
  qed
qed simp

lemma alias_free_sum: "somes (take n us @ drop n us) = somes us"
  by simp

lemma fill_block_template_split:
  assumes f: "fill_block_template nv args bl pool = (True, hs, tsize, fee, pool')"
    and srt: "std_permute (nv_sort nv) fee_rate_greater" and enum: "db_enumeration (nv_enumerate nv)"
    and fin: "finite (dom (m_db_transactions pool))"
    and dist: "\<And>h td. m_db_transactions pool h = Some td \<Longrightarrow> distinct (key_images (td_tx td))"
  shows "\<exists>chosen extra_txs base reward.
    hs = bl @ map fst (chosen @ extra_txs) \<and> distinct (map fst (chosen @ extra_txs)) \<and>
    (\<forall>(h, td) \<in> set (chosen @ extra_txs). m_db_transactions pool h = Some td) \<and>
    list_all (entry_ready nv pool) chosen \<and> distinct (images chosen) \<and> list_all cancels_offer extra_txs \<and>
    tsize = sizes (chosen @ extra_txs) \<and> fee = fees chosen \<and>
    template_reward args 0 = Some base \<and> template_reward args (sizes chosen) = Some reward \<and> base \<le> reward + fee"
proof -
  let ?utxs = "nv_sort nv fee_rate_greater (nv_enumerate nv (m_db_transactions pool))"
  let ?s0 = "\<lambda>base. \<lparr>ts_k_images = {}, ts_current_size = 0, ts_current_fee = 0, ts_best_money = base,
      ts_best_position = 0, ts_total_size = 0, ts_fee = 0, ts_alias_count = 0, ts_pool = pool\<rparr>"
  obtain base where base: "template_reward args 0 = Some base"
    using f by (auto simp: fill_block_template_def template_reward_def Let_def split: option.splits)
  then obtain re us s where t: "template_loop nv args re 0 ?utxs (?s0 base) = (True, us, s)"
    and c: "collect_hashes (ts_best_position s) 0 us bl (ts_total_size s) = (hs, tsize)" and fee: "fee = ts_fee s"
    using f by (auto simp: fill_block_template_def template_reward_def Let_def split: option.splits prod.splits if_splits)
  have mem: "(h, td) \<in> set ?utxs \<longleftrightarrow> m_db_transactions pool h = Some td" for h td
    using std_permute.same_set [OF srt] db_enumeration.enum_mem [OF enum fin] by simp
  have "mset (map fst ?utxs) = mset (map fst (nv_enumerate nv (m_db_transactions pool)))"
    using std_permute.permutes [OF srt] by simp
  then have ds: "distinct (map fst ?utxs)"
    using db_enumeration.enum_once [OF enum fin] mset_eq_imp_distinct_iff by blast
  have "list_all (\<lambda>u. distinct (key_images (td_tx (snd u)))) ?utxs"
    using dist mem by (auto simp: list_all_iff)
  moreover have "loop_ok nv args pool base [] (?s0 base)" using base by (simp add: loop_ok_def best_ok_def)
  ultimately have b: "best_ok nv args pool base us s" and r: "rest_of us ?utxs"
    using template_loop_ok [of nv args pool base "[]" "?s0 base" ?utxs re True us s] t by simp_all
  let ?n = "ts_best_position s"
  let ?ch = "somes (take ?n us)" and ?ex = "filter cancels_offer (somes (drop ?n us))"
  have all: "set (somes us) \<subseteq> set ?utxs" "distinct (map fst (somes us))" using rest_of_somes [OF r ds] by simp_all
  have whole: "somes us = ?ch @ somes (drop ?n us)" using somes_append [of "take ?n us" "drop ?n us"] by simp
  have "distinct (map fst (?ch @ ?ex))" using all(2) unfolding whole by (auto simp: distinct_map_filter)
  moreover have "\<forall>(h, td) \<in> set (?ch @ ?ex). m_db_transactions pool h = Some td"
    using all(1) mem unfolding whole by auto
  moreover have "hs = bl @ map fst (?ch @ ?ex)" "tsize = sizes (?ch @ ?ex)"
    using c b by (simp_all add: collect_hashes_split best_ok_def Let_def)
  moreover obtain reward where "template_reward args (sizes ?ch) = Some reward" "base \<le> reward + fee"
    using b fee by (auto simp: best_ok_def Let_def)
  moreover have "list_all cancels_offer ?ex" by (simp add: list_all_iff)
  moreover have "list_all (entry_ready nv pool) ?ch" "distinct (images ?ch)" "fee = fees ?ch"
    using b fee by (simp_all add: best_ok_def Let_def)
  ultimately show ?thesis using base by blast
qed

subsection \<open>The pool behind the loop\<close>

text \<open>The loop rewrites details of waiting transactions, but neither the transactions nor the table of key images.\<close>

definition tx_of :: "tx_memory_pool \<Rightarrow> hash \<Rightarrow> (transaction \<times> bool) option" where
  "tx_of p h = map_option (\<lambda>td. (td_tx td, td_kept_by_block td)) (m_db_transactions p h)"

definition same_txs :: "tx_memory_pool \<Rightarrow> tx_memory_pool \<Rightarrow> bool" where
  "same_txs p q \<longleftrightarrow> m_db_key_images_set p = m_db_key_images_set q \<and> tx_of p = tx_of q"

lemma same_txs_refl: "same_txs p p"
  by (simp add: same_txs_def)

lemma same_txs_sym: "same_txs p q \<Longrightarrow> same_txs q p"
  by (simp add: same_txs_def)

lemma tx_of_upd: "tx_of (p\<lparr>m_db_transactions := (m_db_transactions p)(h \<mapsto> td)\<rparr>) = (tx_of p)(h \<mapsto> (td_tx td, td_kept_by_block td))"
  by (auto simp: tx_of_def)

lemma same_txs_entry:
  assumes "same_txs p q" and "m_db_transactions q h = Some td"
  shows "\<exists>td'. m_db_transactions p h = Some td' \<and> td_tx td' = td_tx td \<and> td_kept_by_block td' = td_kept_by_block td"
proof -
  have "tx_of p h = Some (td_tx td, td_kept_by_block td)" using assms by (simp add: same_txs_def tx_of_def)
  then show ?thesis by (auto simp: tx_of_def)
qed

lemma same_txs_ok:
  assumes "pool_ok H p" and s: "same_txs p q"
  shows "pool_ok H q"
proof -
  have sp: "spends q h k = spends p h k" for h k
    using same_txs_entry [OF s, of h] same_txs_entry [OF same_txs_sym [OF s], of h] by (fastforce simp: spends_def)
  have "dom (m_db_transactions q) = dom (m_db_transactions p)"
    using same_txs_entry [OF s] same_txs_entry [OF same_txs_sym [OF s]] by (fastforce simp: dom_def)
  moreover have "h = H (td_tx td) \<and> distinct (key_images (td_tx td))" if "m_db_transactions q h = Some td" for h td
    using same_txs_entry [OF s that] pool_ok_entry [OF assms(1), of h] by auto
  moreover have "m_db_key_images_set q = m_db_key_images_set p" using s by (simp add: same_txs_def)
  ultimately show ?thesis using assms(1) unfolding pool_ok_def sp by simp
qed

lemma is_ready_same_tx:
  "td_tx (snd (is_transaction_ready_to_go nv p h txd)) = td_tx txd"
  "td_kept_by_block (snd (is_transaction_ready_to_go nv p h txd)) = td_kept_by_block txd"
proof -
  have "td_tx (snd (recheck_inputs nv h txd)) = td_tx txd \<and> td_kept_by_block (snd (recheck_inputs nv h txd)) = td_kept_by_block txd"
    by (auto simp: recheck_inputs_def mark_failed_def Let_def split: prod.split)
  then have i: "td_tx (snd (inputs_ready nv h txd)) = td_tx txd"
      "td_kept_by_block (snd (inputs_ready nv h txd)) = td_kept_by_block txd" by (simp_all add: inputs_ready_def)
  have "snd (is_transaction_ready_to_go nv p h txd) \<in> {txd, snd (inputs_ready nv h txd)}"
    by (auto simp: is_transaction_ready_to_go_def Let_def split: prod.split)
  with i show "td_tx (snd (is_transaction_ready_to_go nv p h txd)) = td_tx txd"
    "td_kept_by_block (snd (is_transaction_ready_to_go nv p h txd)) = td_kept_by_block txd" by auto
qed

lemma take_entry_pool: "ts_pool (snd (take_entry args i utx has_alias s)) = ts_pool s"
  by (auto simp: take_entry_def Let_def split: option.split)

lemma template_entry_pool:
  assumes "same_txs pool (ts_pool s)" and "m_db_transactions pool (fst utx) = Some (snd utx)"
    and "fst utx = nv_transaction_hash nv (td_tx (snd utx))"
  shows "same_txs pool (ts_pool (snd (template_entry nv args re i utx s)))"
proof -
  define txd where "txd = snd (is_transaction_ready_to_go nv (ts_pool s) (fst utx) (snd utx))"
  have tx: "td_tx txd = td_tx (snd utx)" "td_kept_by_block txd = td_kept_by_block (snd utx)"
    by (simp_all add: txd_def is_ready_same_tx)
  have e: "tx_of pool (fst utx) = Some (td_tx txd, td_kept_by_block txd)" using assms(2) tx by (simp add: tx_of_def)
  have "nv_transaction_hash nv (td_tx txd) = fst utx" using tx assms(3) by simp
  then have st: "same_txs pool (store_failure nv (snd utx) txd (ts_pool s))"
    using assms(1) e by (simp add: same_txs_def store_failure_def tx_of_upd fun_upd_idem)
  have "ts_pool (snd (template_entry nv args re i utx s)) \<in> {ts_pool s, store_failure nv (snd utx) txd (ts_pool s)}"
    by (auto simp: template_entry_def txd_def take_entry_pool Let_def split: option.split prod.split)
  then show ?thesis using st assms(1) by auto
qed

lemma template_loop_pool:
  "same_txs pool (ts_pool s) \<Longrightarrow>
   list_all (\<lambda>u. m_db_transactions pool (fst u) = Some (snd u) \<and> fst u = nv_transaction_hash nv (td_tx (snd u))) utxs \<Longrightarrow>
   same_txs pool (ts_pool (snd (snd (template_loop nv args re i utxs s))))"
proof (induction utxs arbitrary: i s)
  case (Cons u utxs)
  obtain fate s1 where t: "template_entry nv args re i u s = (fate, s1)" by fastforce
  have u: "m_db_transactions pool (fst u) = Some (snd u)" "fst u = nv_transaction_hash nv (td_tx (snd u))"
    using Cons.prems(2) unfolding list.pred_inject by blast+
  have "same_txs pool (ts_pool s1)" using template_entry_pool [OF Cons.prems(1) u, of args re i] unfolding t by simp
  moreover from this have "same_txs pool (ts_pool (snd (snd (template_loop nv args re (i + 1) utxs s1))))"
    using Cons.IH Cons.prems(2) by simp
  ultimately show ?case using t by (cases fate) simp_all
qed simp

lemma fill_block_template_ok:
  assumes ok: "pool_ok H pool" and enum: "db_enumeration (nv_enumerate nv)"
    and srt: "std_permute (nv_sort nv) fee_rate_greater" and H: "nv_transaction_hash nv = H"
    and f: "fill_block_template nv args bl pool = (r, hs, tsize, fee, pool')"
  shows "pool_ok H pool'"
proof -
  let ?utxs = "nv_sort nv fee_rate_greater (nv_enumerate nv (m_db_transactions pool))"
  have fin: "finite (dom (m_db_transactions pool))" using ok by (simp add: pool_ok_def)
  have "(h, td) \<in> set ?utxs \<Longrightarrow> m_db_transactions pool h = Some td" for h td
    using std_permute.same_set [OF srt] db_enumeration.enum_mem [OF enum fin] by simp
  then have "list_all (\<lambda>u. m_db_transactions pool (fst u) = Some (snd u) \<and>
      fst u = nv_transaction_hash nv (td_tx (snd u))) ?utxs"
    using pool_ok_entry [OF ok] unfolding H list_all_iff by fastforce
  then have "same_txs pool (ts_pool (snd (snd (template_loop nv args re 0 ?utxs s))))" if "ts_pool s = pool" for re s
    using template_loop_pool [of pool s nv ?utxs args re 0] that by (simp add: same_txs_refl)
  note loop = this
  let ?reward = "get_block_reward (ba_pos args) (ba_median_size args) CURRENCY_COINBASE_BLOB_RESERVED_SIZE
    (ba_already_generated_coins args) (ba_height args)"
  have "same_txs pool pool'"
  proof (cases "?reward = None \<or> alias_regs_exist ?utxs = None")
    case True
    then show ?thesis using f by (auto simp: fill_block_template_def Let_def same_txs_refl split: option.splits)
  next
    case False
    then obtain base re where b: "?reward = Some base" "alias_regs_exist ?utxs = Some re" by auto
    define s0 where "s0 = \<lparr>ts_k_images = {}, ts_current_size = 0, ts_current_fee = 0, ts_best_money = base,
      ts_best_position = 0, ts_total_size = 0, ts_fee = 0, ts_alias_count = 0, ts_pool = pool\<rparr>"
    obtain ok us s where t: "template_loop nv args re 0 ?utxs s0 = (ok, us, s)" by (metis surj_pair)
    have "pool' = ts_pool s"
      using f t b by (auto simp: fill_block_template_def s0_def Let_def split: if_splits prod.splits)
    then show ?thesis using loop [of s0 re] t by (simp add: s0_def)
  qed
  then show ?thesis by (rule same_txs_ok [OF ok])
qed

end
