(* ===== verification/PoolRuns.thy ===== *)
theory PoolRuns
  imports BlockTemplate
begin

section \<open>Runs of the transaction pool\<close>

text \<open>
  The operations of the pool as a step relation, the invariant of every state it reaches, and the properties of
  the pool: which transactions wait, what is known of the ones that were admitted, what a block template
  contains, and what the pool keeps of transactions that are gone.
\<close>

subsection \<open>Reachable pools\<close>

text \<open>
  A run of the node outside the zone of checkpoints: transactions that passed the semantic check come from the
  network or from blocks of the chain that are taken back, and leave for a block, by age, or all at once. \<open>H\<close> is the
  hash of a transaction.
\<close>

inductive pool_step :: "(transaction \<Rightarrow> hash) \<Rightarrow> tx_memory_pool \<Rightarrow> tx_memory_pool \<Rightarrow> bool" for H where
  network: "pool_step H pool pool'"
    if "\<not> nv_in_checkpoint_zone nv" and "check_tx_semantic tx"
      and "add_new_tx nv tx min_fee (H tx) sz kept tvc pool = Some (r, tvc', pool')"
| chain: "pool_step H pool pool'"
    if "check_tx_semantic tx" and "m_db_transactions pool (H tx) = None"
      and "add_tx nv tx 0 (H tx) sz True True tvc pool = Some (r, tvc', pool')"
| take: "pool_step H pool pool'" if "take_tx nv txid pool = Some (r, pool')"
| stuck: "pool_step H pool (remove_stuck_transactions nv pool)" if "db_enumeration (nv_enumerate nv)"
| template: "pool_step H pool pool'"
    if "db_enumeration (nv_enumerate nv)" and "std_permute (nv_sort nv) fee_rate_greater"
      and "nv_transaction_hash nv = H" and "fill_block_template nv args bl pool = (r, hs, tsize, fee, pool')"
| black: "pool_step H pool (add_transaction_to_black_list nv tx pool)"
| finalize: "pool_step H pool (on_finalize_db_transaction pool)"
| purge: "pool_step H pool (purge_transactions pool)"
| init: "pool_step H pool (pool_init version pool)"

inductive pool_reachable :: "(transaction \<Rightarrow> hash) \<Rightarrow> tx_memory_pool \<Rightarrow> bool" for H where
  start: "pool_reachable H \<lparr>m_db_transactions = Map.empty, m_db_cancel_offer_hash = {}, m_db_black_tx_list = {},
     m_db_key_images_set = Map.empty, m_db_alias_names = {}, m_db_alias_addresses = {}, m_taken_txs = {},
     m_db_storage_major_compatibility_version = version\<rparr>"
| step: "pool_reachable H pool \<Longrightarrow> pool_step H pool pool' \<Longrightarrow> pool_reachable H pool'"

lemma pool_ok_empty:
  "m_db_transactions pool = Map.empty \<Longrightarrow> m_db_key_images_set pool = Map.empty \<Longrightarrow> pool_ok H pool"
  by (simp add: pool_ok_def spends_def)

lemma semantic_images: "check_tx_semantic tx \<Longrightarrow> check_tx_inputs_keyimages_diff tx"
  by (auto simp: check_tx_semantic_def Let_def split: if_splits option.splits)

lemma add_new_tx_ok:
  assumes a: "add_new_tx nv tx min_fee (H tx) sz kept tvc pool = Some (r, tvc', pool')" and ok: "pool_ok H pool"
    and "check_tx_inputs_keyimages_diff tx" and "\<not> nv_in_checkpoint_zone nv"
  shows "pool_ok H pool'"
proof (cases "have_tx (H tx) pool \<or> nv_have_tx nv (H tx)")
  case True
  then show ?thesis using a ok by (auto simp: add_new_tx_def split: if_splits)
next
  case False
  then have "m_db_transactions pool (H tx) = None" by (simp add: have_tx_def split: if_split_asm)
  moreover have "add_tx nv tx min_fee (H tx) sz kept False tvc pool = Some (r, tvc', pool')"
    using a False by (simp add: add_new_tx_def)
  ultimately show ?thesis using add_tx_ok [OF _ ok] assms(3,4) by blast
qed

lemma pool_step_ok: "pool_step H pool pool' \<Longrightarrow> pool_ok H pool \<Longrightarrow> pool_ok H pool'"
proof (induction rule: pool_step.induct)
  case (network nv tx min_fee sz kept tvc pool r tvc' pool')
  then show ?case using add_new_tx_ok semantic_images by blast
next
  case (chain tx pool nv sz tvc r tvc' pool')
  then show ?case using add_tx_ok semantic_images by blast
next
  case (black pool nv tx)
  then show ?case by (subst pool_ok_cong [of _ pool]) (simp_all add: add_transaction_to_black_list_def)
next
  case (finalize pool)
  then show ?case by (subst pool_ok_cong [of _ pool]) (simp_all add: on_finalize_db_transaction_def reset_all_taken_def)
next
  case (purge pool)
  show ?case by (rule pool_ok_empty) (simp_all add: purge_transactions_def)
next
  case (init pool version)
  show ?case
  proof (cases "m_db_storage_major_compatibility_version pool = version")
    case True
    then show ?thesis using init
      by (subst pool_ok_cong [of _ pool]) (simp_all add: pool_init_def initialize_db_solo_options_values_def)
  next
    case False
    then show ?thesis
      by (intro pool_ok_empty) (simp_all add: pool_init_def initialize_db_solo_options_values_def clear_pool_def)
  qed
next
  case (take nv txid pool r pool')
  then show ?case using take_tx_ok by blast
next
  case (stuck nv pool)
  then show ?case using remove_stuck_ok by blast
next
  case (template nv args bl pool r hs tsize fee pool')
  then show ?case using fill_block_template_ok by blast
qed

lemma pool_reachable_ok: "pool_reachable H pool \<Longrightarrow> pool_ok H pool"
  by (induction rule: pool_reachable.induct) (simp_all add: pool_step_ok pool_ok_empty)

subsection \<open>Admission\<close>

lemma cancel_scan_found:
  "cancel_scan nv tx v pool as n co = Inr co' \<Longrightarrow> co' \<noteq> [] \<Longrightarrow>
   co \<noteq> [] \<or> have_attachment_service_in_container as BC_OFFERS_SERVICE_ID BC_OFFERS_SERVICE_INSTRUCTION_DEL"
  by (induction nv tx v pool as n co rule: cancel_scan.induct)
    (auto simp: have_attachment_service_in_container_def is_cancellation_def Let_def split: if_splits)

lemma process_cancel_found:
  "process_cancel_offer_rules nv tx v pool = Some (True, pool') \<Longrightarrow>
   have_attachment_service_in_container (attachment tx) BC_OFFERS_SERVICE_ID BC_OFFERS_SERVICE_INSTRUCTION_DEL"
  using cancel_scan_found [of nv tx v pool "attachment tx" 0 "[]"]
  by (auto simp: process_cancel_offer_rules_def split: sum.splits if_splits)

lemma insert_entry:
  "\<exists>td. m_db_transactions (do_insert_transaction nv tx txid sz kept fee bid bh pool) = (m_db_transactions pool)(txid \<mapsto> td) \<and>
     td_tx td = tx \<and> td_fee td = fee \<and> td_blob_size td = sz \<and> td_kept_by_block td = kept"
  by (rule exI [of _ "\<lparr>td_tx = tx, td_blob_size = sz, td_fee = fee, td_max_used_block_id = bid,
      td_max_used_block_height = bh, td_kept_by_block = kept, td_last_failed_height = 0,
      td_last_failed_id = null_hash, td_receive_time = int64 (uint (nv_core_time nv))\<rparr>"])
    (simp add: do_insert_transaction_def on_tx_add_def insert_key_images_fold Let_def)

lemma fee_rules_added:
  assumes "add_tx_fee_rules nv tx min_fee txid sz fee kept core tvc pool = Some (r, tvc', pool')"
    and "m_added_to_pool tvc'" and "\<not> m_added_to_pool tvc"
  obtains pcor p bid bh where "process_cancel_offer_rules nv tx (\<not> kept \<and> \<not> core) pool = Some (pcor, p)"
    and "pool' = do_insert_transaction nv tx txid sz kept fee bid bh p"
    and "kept \<or> core \<or> fst (nv_check_tx_inputs nv tx txid (0, null_hash))"
    and "nv_in_checkpoint_zone nv \<or> min_fee \<le> fee \<or> pcor \<and> sz \<le> CURRENCY_FREE_TX_MAX_BLOB_SIZE \<or>
      is_valid_contract_finalization_tx nv tx = Some True"
proof -
  obtain pcor p where p: "process_cancel_offer_rules nv tx (\<not> kept \<and> \<not> core) pool = Some (pcor, p)"
    using assms(1) by (auto simp: add_tx_fee_rules_def split: option.splits)
  have "add_tx_checked nv tx txid sz fee kept core tvc p = Some (r, tvc', pool') \<and>
      (nv_in_checkpoint_zone nv \<or> min_fee \<le> fee \<or> pcor \<and> sz \<le> CURRENCY_FREE_TX_MAX_BLOB_SIZE \<or>
       is_valid_contract_finalization_tx nv tx = Some True)"
    using assms by (auto simp: add_tx_fee_rules_def p failed_def not_less split: if_splits option.splits bool.splits)
  then show thesis
    using that [OF p] assms(2,3)
    by (auto simp: add_tx_checked_def Let_def failed_def split: prod.splits if_splits)
qed

lemma added_amounts:
  assumes "check_tx_semantic tx" and "get_inputs_money_amount tx = Some ins" and "get_outs_money_amount tx \<le> ins"
  shows "unat (ins - get_outs_money_amount tx) + outs_total tx = ins_total tx"
proof -
  have c: "ins_total tx < 2 ^ 64" "outs_total tx \<le> ins_total tx" using assms(1) unfolding semantic_iff by blast+
  have "ins = fold (\<lambda>i a. a + get_amount_from_variant i) (vin tx) 0"
    using assms(2) by (auto simp: get_inputs_money_amount_def inputs_money_amount_eq split: if_splits)
  then have "unat ins = ins_total tx" using ins_sum [of 0 "vin tx"] c(1) by (simp add: ins_total_def)
  moreover have "unat (get_outs_money_amount tx) = outs_total tx"
    using outs_sum [of 0 "vout tx"] c by (simp add: get_outs_money_amount_def outs_total_def)
  ultimately show ?thesis using assms(3) c by (simp add: unat_sub_le word_le_nat_alt)
qed

lemma add_new_tx_added:
  assumes "add_new_tx nv tx min_fee txid sz kept tvc pool = Some (r, tvc', pool')"
    and "m_added_to_pool tvc'" and "\<not> m_added_to_pool tvc"
  shows "\<not> have_tx txid pool" and "\<not> nv_have_tx nv txid"
    and "add_tx nv tx min_fee txid sz kept False tvc pool = Some (r, tvc', pool')"
  using assms by (auto simp: add_new_tx_def split: if_splits)

lemma add_tx_added:
  assumes "add_tx nv tx min_fee txid sz kept core tvc pool = Some (r, tvc', pool')"
    and "m_added_to_pool tvc'" and "\<not> m_added_to_pool tvc"
  obtains ins where "get_inputs_money_amount tx = Some ins" and "get_outs_money_amount tx \<le> ins"
    and "\<not> kept \<Longrightarrow> \<not> core \<Longrightarrow> \<not> nv_in_checkpoint_zone nv \<Longrightarrow>
      \<not> have_tx_keyimges_as_spent (vin tx) pool \<and> \<not> bc_is_tx_expired nv tx \<and> check_tx_multisig_ins_and_outs nv tx True pool"
    and "add_tx_fee_rules nv tx min_fee txid sz (ins - get_outs_money_amount tx) kept core tvc pool = Some (r, tvc', pool')"
proof (cases "get_inputs_money_amount tx")
  case None
  then show thesis
    using assms unfolding add_tx_def Let_def failed_def None option.case by (auto split: if_split_asm)
next
  case (Some ins)
  show thesis
    using assms that [OF Some] unfolding add_tx_def Let_def failed_def Some option.case
    by (auto simp: not_less split: if_split_asm)
qed

text \<open>A view of the node that finds nothing wrong, for the witnesses.\<close>

definition calm_view :: node_view where
  "calm_view = \<lparr>nv_in_checkpoint_zone = False, nv_expiration_median = 0, nv_have_alias = (\<lambda>_. False),
     nv_alias_by_address = (\<lambda>_. []), nv_prevalidate_alias = (\<lambda>_ _. True), nv_validate_service = (\<lambda>_ _ _. True),
     nv_check_tx_inputs = (\<lambda>_ _ _. (True, 1, [1])), nv_multisig_id_details = (\<lambda>_. None),
     nv_tx_chain_entry = (\<lambda>_. None), nv_related_to_altblock = (\<lambda>_. False), nv_block_id_by_height = (\<lambda>_. [1]),
     nv_blockchain_size = 5, nv_keyimg_spent = (\<lambda>_. False), nv_multisig_spent = (\<lambda>_. False),
     nv_has_multisig_output = (\<lambda>_. False), nv_have_tx = (\<lambda>_. False), nv_core_time = 100,
     nv_transaction_hash = (\<lambda>_. [1]), nv_multisig_out_id = (\<lambda>_ _. []), nv_cancelled_offer = (\<lambda>b. Some b),
     nv_sort = insertion_sort, nv_enumerate = enumerate_by_key\<rparr>"

definition empty_pool :: tx_memory_pool where
  "empty_pool = \<lparr>m_db_transactions = Map.empty, m_db_cancel_offer_hash = {}, m_db_black_tx_list = {},
     m_db_key_images_set = Map.empty, m_db_alias_names = {}, m_db_alias_addresses = {}, m_taken_txs = {},
     m_db_storage_major_compatibility_version = 5\<rparr>"

definition no_tvc :: tx_verification_context where
  "no_tvc = \<lparr>m_should_be_relayed = False, m_verification_failed = False, m_verification_impossible = False,
     m_added_to_pool = False\<rparr>"

definition simple_details :: tx_details where
  "simple_details = \<lparr>td_tx = simple_tx, td_blob_size = 300, td_fee = 2, td_max_used_block_id = [1],
     td_max_used_block_height = 1, td_kept_by_block = False, td_last_failed_height = 0, td_last_failed_id = null_hash,
     td_receive_time = 100\<rparr>"

definition simple_pool :: tx_memory_pool where
  "simple_pool = empty_pool\<lparr>m_db_transactions := [[1] \<mapsto> simple_details],
     m_db_key_images_set := [replicate 32 9 \<mapsto> 1]\<rparr>"

lemma simple_tx_parts:
  "get_inputs_money_amount simple_tx = Some 7" "get_outs_money_amount simple_tx = 5"
  "check_inputs_types_supported simple_tx" "length (vout simple_tx) = 1" "attachment simple_tx = []"
  "vin simple_tx = [TxinToKey \<lparr>tk_amount = 7, tk_key_offsets = [GlobalIndex 3], tk_k_image = replicate 32 9, tk_etc_details = []\<rparr>]"
  "get_tx_expiration_time simple_tx = 0" "key_images simple_tx = [replicate 32 9]"
  "first_of (\<lambda>e. case e of ExtraAliasEntry a \<Rightarrow> Some a | _ \<Rightarrow> None) (extra simple_tx) = None"
  "\<exists>ei. parse_and_validate_tx_extra simple_tx = Some ei \<and> ei_alias ei = None"
  by (simp_all add: simple_tx_def get_inputs_money_amount_def get_outs_money_amount_def get_amount_from_variant_def
      check_inputs_types_supported_def get_tx_expiration_time_def key_images_def parse_and_validate_tx_extra_def
      extra_handler_def)

lemma simple_tx_added:
  "add_new_tx calm_view simple_tx 2 [1] 300 False no_tvc empty_pool =
    Some (True, no_tvc\<lparr>m_added_to_pool := True, m_should_be_relayed := True\<rparr>, simple_pool)"
proof -
  obtain ei where ei: "parse_and_validate_tx_extra simple_tx = Some ei" "ei_alias ei = None" using simple_tx_parts(10) by blast
  have i: "do_insert_transaction calm_view simple_tx [1] 300 False 2 [1] 1 empty_pool = simple_pool"
    by (simp add: do_insert_transaction_def calm_view_def empty_pool_def simple_pool_def simple_details_def on_tx_add_def
        insert_key_images_def simple_tx_parts add_key_image_def insert_alias_info_def ei int64_def)
  have c: "check_tx_multisig_ins_and_outs calm_view simple_tx True empty_pool"
    by (simp add: check_tx_multisig_ins_and_outs_def collect_multisig_ids_from_tx_def simple_tx_def)
  have p: "process_cancel_offer_rules calm_view simple_tx True empty_pool = Some (False, empty_pool)"
    by (simp add: process_cancel_offer_rules_def simple_tx_parts)
  have n: "nv_in_checkpoint_zone calm_view = False" "nv_have_tx calm_view [1] = False"
      "nv_check_tx_inputs calm_view simple_tx [1] (0, null_hash) = (True, 1, [1])"
    by (simp_all add: calm_view_def)
  have "\<not> bc_is_tx_expired calm_view simple_tx" by (simp add: bc_is_tx_expired_def is_tx_expired_def simple_tx_parts)
  moreover have "validate_alias_info calm_view simple_tx False empty_pool"
    by (simp add: validate_alias_info_def simple_tx_parts)
  moreover have "\<not> have_tx_keyimges_as_spent (vin simple_tx) empty_pool" by (simp add: simple_tx_parts empty_pool_def)
  moreover have "\<not> have_tx [1] empty_pool" by (simp add: have_tx_def empty_pool_def check_is_taken_def)
  moreover have "unat CURRENCY_TX_MAX_ALLOWED_OUTS = 2000" by (simp add: CURRENCY_TX_MAX_ALLOWED_OUTS_def)
  ultimately show ?thesis
    by (simp add: add_new_tx_def add_tx_def simple_tx_parts n c p add_tx_fee_rules_def add_tx_checked_def i no_tvc_def)
qed

lemma simple_pool_reachable: "pool_reachable (\<lambda>_. [1]) simple_pool"
proof -
  have "check_tx_semantic simple_tx" unfolding semantic_iff using simple_tx_semantic by simp
  then have "pool_step (\<lambda>_. [1]) empty_pool simple_pool"
    using pool_step.network [of calm_view simple_tx 2 "\<lambda>_. [1]" 300 False no_tvc empty_pool] simple_tx_added
    by (simp add: calm_view_def)
  then show ?thesis unfolding empty_pool_def by (rule pool_reachable.step [OF pool_reachable.start])
qed

subsection \<open>Loops that break\<close>

text \<open>The loop over a prefix of the transactions, when it does not leave there.\<close>

fun template_prefix ::
    "node_view \<Rightarrow> block_args \<Rightarrow> bool \<Rightarrow> nat \<Rightarrow> (hash \<times> tx_details) list \<Rightarrow> template_state \<Rightarrow>
     ((hash \<times> tx_details) option list \<times> template_state) option" where
  "template_prefix nv args re i [] s = Some ([], s)"
| "template_prefix nv args re i (u # us) s =
     (case template_entry nv args re i u s of
        (Skipped, s) \<Rightarrow> map_option (apfst (Cons None)) (template_prefix nv args re (i + 1) us s)
      | (Kept, s) \<Rightarrow> map_option (apfst (Cons (Some u))) (template_prefix nv args re (i + 1) us s)
      | _ \<Rightarrow> None)"

lemma template_prefix_length: "template_prefix nv args re i pre s = Some (us, s') \<Longrightarrow> length us = length pre"
  by (induction pre arbitrary: i s us) (auto split: entry_fate.splits prod.splits)

lemma template_loop_append:
  "template_prefix nv args re i pre s = Some (us, s1) \<Longrightarrow>
   template_loop nv args re i (pre @ post) s = apsnd (apfst ((@) us)) (template_loop nv args re (i + length pre) post s1)"
proof (induction pre arbitrary: i s us)
  case Nil
  then show ?case by (cases "template_loop nv args re i post s1") simp
next
  case (Cons u pre)
  obtain fate s2 where t: "template_entry nv args re i u s = (fate, s2)" by fastforce
  obtain o' us2 where us: "us = o' # us2" and p: "template_prefix nv args re (i + 1) pre s2 = Some (us2, s1)"
    and l: "template_loop nv args re i ((u # pre) @ post) s = apsnd (apfst (Cons o')) (template_loop nv args re (i + 1) (pre @ post) s2)"
    using Cons.prems t by (cases fate) auto
  show ?case
    unfolding l us Cons.IH [OF p] by (cases "template_loop nv args re (i + 1 + length pre) post s1") simp
qed

lemma break_taken: "template_entry nv args re i u s = (Break, s') \<Longrightarrow> \<exists>ha. take_entry args i u ha s = (Break, s')"
  by (auto simp: template_entry_def Let_def split: if_split_asm option.split_asm prod.split_asm)

lemma break_best: "template_entry nv args re i u s = (Break, s') \<Longrightarrow> ts_best_position s' = ts_best_position s"
  using break_taken [of nv args re i u s s'] by (auto simp: take_entry_def Let_def split: option.splits if_splits)

lemma template_entry_best:
  "template_entry nv args re i u s = (fate, s') \<Longrightarrow> ts_best_position s \<le> i \<Longrightarrow> ts_best_position s' \<le> Suc i"
proof -
  assume t: "template_entry nv args re i u s = (fate, s')" and b: "ts_best_position s \<le> i"
  have "ts_best_position (snd (take_entry args i u ha s)) \<le> Suc i" for ha
    using b by (auto simp: take_entry_def Let_def split: option.split)
  moreover have "s' = s \<or> (\<exists>p. s' = s\<lparr>ts_pool := p\<rparr>) \<or> (\<exists>ha. take_entry args i u ha s = (fate, s'))"
    using t by (auto simp: template_entry_def Let_def split: if_split_asm option.split_asm prod.split_asm)
  ultimately show ?thesis using b by (metis le_Suc_eq snd_conv template_state.select_convs(5) template_state.surjective
      template_state.update_convs(9))
qed

lemma template_prefix_best:
  "template_prefix nv args re i pre s = Some (us, s') \<Longrightarrow> ts_best_position s \<le> i \<Longrightarrow>
   ts_best_position s' \<le> i + length pre"
proof (induction pre arbitrary: i s us)
  case (Cons u pre)
  obtain fate s2 where t: "template_entry nv args re i u s = (fate, s2)" by fastforce
  then have b: "ts_best_position s2 \<le> i + 1" using template_entry_best [OF t Cons.prems(2)] by simp
  obtain us2 where "template_prefix nv args re (i + 1) pre s2 = Some (us2, s')"
    using Cons.prems(1) t by (cases fate) auto
  then show ?case using Cons.IH [OF _ b] by simp
qed simp

subsection \<open>Properties\<close>

text \<open>C1: No double spending inside the pool, outside of the checkpoint zone. In every state that a run reaches, by taking in
  well-formed transactions from the network outside of the checkpoint zone and from blocks that come off the chain,
  and by the other operations of the pool, a key image is marked as spent exactly when a waiting transaction that is not
  \<open>kept_by_block\<close> spends it, no two such transactions spend the same key image, and no waiting transaction spends one
  twice. Transactions that are kept by a block are not marked and may share key images with each other and with
  the others; in the checkpoint zone the pool does not look at the marks.\<close>
theorem pool_key_images_exact:
  assumes "pool_reachable H pool"
  shows "(have_tx_keyimg_as_spent k pool \<longleftrightarrow>
      (\<exists>h td. get_transaction_entry h pool = Some td \<and> \<not> td_kept_by_block td \<and> k \<in> set (key_images (td_tx td)))) \<and>
    (\<forall>h h' td td'. get_transaction_entry h pool = Some td \<longrightarrow> get_transaction_entry h' pool = Some td' \<longrightarrow>
      \<not> td_kept_by_block td \<longrightarrow> \<not> td_kept_by_block td' \<longrightarrow> h \<noteq> h' \<longrightarrow>
      set (key_images (td_tx td)) \<inter> set (key_images (td_tx td')) = {}) \<and>
    (\<forall>h td. get_transaction_entry h pool = Some td \<longrightarrow> distinct (key_images (td_tx td)))"
proof -
  have ok: "pool_ok H pool" using assms by (rule pool_reachable_ok)
  have "have_tx_keyimg_as_spent k pool \<longleftrightarrow> (\<exists>h. spends pool h k)"
    using pool_ok_key [OF ok, of k] by (simp add: have_tx_keyimg_as_spent_def)
  moreover have "h = h'" if "spends pool h x" "spends pool h' x" for h h' x using pool_ok_once [OF ok that] .
  ultimately show ?thesis
    using pool_ok_entry [OF ok] unfolding spends_def get_transaction_entry_def by blast
qed

lemma pool_key_images_exact_witness: "have_tx_keyimg_as_spent (replicate 32 9) simple_pool"
proof -
  have "get_transaction_entry [1] simple_pool = Some simple_details" "\<not> td_kept_by_block simple_details"
    "replicate 32 9 \<in> set (key_images (td_tx simple_details))"
    by (simp_all add: get_transaction_entry_def simple_pool_def simple_details_def simple_tx_parts)
  then show ?thesis using pool_key_images_exact [OF simple_pool_reachable, of "replicate 32 9"] by blast
qed

text \<open>C4: A transaction that the network brings and the pool reports as added was in neither the pool nor the chain, is
  not expired, spends no key image of a waiting transaction, passed the check of its inputs against the chain, and
  is stored with the exact difference of its inputs and outputs as fee; that fee is below the minimum only for a
  cancellation of offers of at most 1024 bytes or for the finalization of a contract.\<close>
theorem network_tx_admitted:
  assumes "add_new_tx nv tx min_fee txid sz False tvc pool = Some (r, tvc', pool')"
    and "m_added_to_pool tvc'" and "\<not> m_added_to_pool tvc"
    and "check_tx_semantic tx" and "\<not> nv_in_checkpoint_zone nv"
  shows "\<exists>td. get_transaction_entry txid pool' = Some td \<and> td_tx td = tx \<and> td_blob_size td = sz \<and> \<not> td_kept_by_block td \<and>
    unat (td_fee td) + outs_total tx = ins_total tx \<and>
    (min_fee \<le> td_fee td \<or>
     have_attachment_service_in_container (attachment tx) BC_OFFERS_SERVICE_ID BC_OFFERS_SERVICE_INSTRUCTION_DEL \<and> sz \<le> 1024 \<or>
     is_valid_contract_finalization_tx nv tx = Some True) \<and>
    \<not> have_tx txid pool \<and> \<not> nv_have_tx nv txid \<and> \<not> is_tx_expired tx (nv_expiration_median nv) \<and>
    (\<forall>k \<in> set (key_images tx). \<not> have_tx_keyimg_as_spent k pool) \<and>
    fst (nv_check_tx_inputs nv tx txid (0, null_hash))"
proof -
  note a = add_new_tx_added [OF assms(1-3)]
  from add_tx_added [OF a(3) assms(2,3)] obtain ins where ins: "get_inputs_money_amount tx = Some ins"
    "get_outs_money_amount tx \<le> ins" and free: "\<not> have_tx_keyimges_as_spent (vin tx) pool" "\<not> bc_is_tx_expired nv tx"
    and f: "add_tx_fee_rules nv tx min_fee txid sz (ins - get_outs_money_amount tx) False False tvc pool = Some (r, tvc', pool')"
    using assms(5) by blast
  show ?thesis
  proof (rule fee_rules_added [OF f assms(2,3)])
    fix pcor p bid bh
    assume p: "process_cancel_offer_rules nv tx (\<not> False \<and> \<not> False) pool = Some (pcor, p)"
      and pool': "pool' = do_insert_transaction nv tx txid sz False (ins - get_outs_money_amount tx) bid bh p"
      and checked: "False \<or> False \<or> fst (nv_check_tx_inputs nv tx txid (0, null_hash))"
      and fee: "nv_in_checkpoint_zone nv \<or> min_fee \<le> ins - get_outs_money_amount tx \<or>
        pcor \<and> sz \<le> CURRENCY_FREE_TX_MAX_BLOB_SIZE \<or> is_valid_contract_finalization_tx nv tx = Some True"
    have "pcor \<Longrightarrow> have_attachment_service_in_container (attachment tx) BC_OFFERS_SERVICE_ID BC_OFFERS_SERVICE_INSTRUCTION_DEL"
      using process_cancel_found [of nv tx True pool p] p by simp
    then have "min_fee \<le> ins - get_outs_money_amount tx \<or>
        have_attachment_service_in_container (attachment tx) BC_OFFERS_SERVICE_ID BC_OFFERS_SERVICE_INSTRUCTION_DEL \<and> sz \<le> 1024 \<or>
        is_valid_contract_finalization_tx nv tx = Some True"
      using fee assms(5) by (auto simp: CURRENCY_FREE_TX_MAX_BLOB_SIZE_def)
    moreover have "\<forall>k \<in> set (key_images tx). \<not> have_tx_keyimg_as_spent k pool"
      using free(1) by (simp add: have_tx_keyimges_as_spent_iff have_tx_keyimg_as_spent_def)
    ultimately show ?thesis
      using insert_entry [of nv tx txid sz False "ins - get_outs_money_amount tx" bid bh p] pool' a(1,2) checked free(2)
        added_amounts [OF assms(4) ins] by (auto simp: get_transaction_entry_def bc_is_tx_expired_def)
  qed
qed

lemma network_tx_admitted_witness: "\<exists>td. get_transaction_entry [1] simple_pool = Some td \<and> unat (td_fee td) + 5 = 7"
proof -
  have "check_tx_semantic simple_tx" unfolding semantic_iff using simple_tx_semantic by simp
  from network_tx_admitted [OF simple_tx_added _ _ this]
  have "\<exists>td. get_transaction_entry [1] simple_pool = Some td \<and> unat (td_fee td) + outs_total simple_tx = ins_total simple_tx"
    by (auto simp: no_tvc_def calm_view_def)
  then show ?thesis by (simp add: ins_total_def outs_total_def simple_tx_def get_amount_from_variant_def)
qed

text \<open>C6: A transaction from the network that was admitted outside of the checkpoint zone can be taken out again with its
  size and its fee, and taking it restores the table of the waiting transactions and the table of the spent key images
  of before; until the block is finalized the pool still knows it. (The tables of alias names and of
  cancelled offers are not part of the statement.)\<close>
theorem take_after_add:
  assumes "pool_reachable H pool"
    and "add_new_tx nv tx min_fee (H tx) sz False tvc pool = Some (r, tvc', pool')"
    and "m_added_to_pool tvc'" and "\<not> m_added_to_pool tvc"
    and "check_tx_semantic tx" and "\<not> nv_in_checkpoint_zone nv"
  shows "\<exists>fee pool''. take_tx nv' (H tx) pool' = Some ((tx, sz, fee), pool'') \<and>
    unat fee + outs_total tx = ins_total tx \<and>
    m_db_transactions pool'' = m_db_transactions pool \<and> m_db_key_images_set pool'' = m_db_key_images_set pool \<and>
    have_tx (H tx) pool'' \<and> \<not> have_tx (H tx) (on_finalize_db_transaction pool'')"
proof -
  let ?h = "H tx"
  note a = add_new_tx_added [OF assms(2-4)]
  have ok: "pool_ok H pool" using assms(1) by (rule pool_reachable_ok)
  have d: "distinct (key_images tx)" using assms(5) by (intro keyimages_diff_distinct semantic_images)
  have new: "m_db_transactions pool ?h = None" using a(1) by (simp add: have_tx_def split: if_split_asm)
  from add_tx_added [OF a(3) assms(3,4)] obtain ins where ins: "get_inputs_money_amount tx = Some ins"
    "get_outs_money_amount tx \<le> ins" and free: "\<not> have_tx_keyimges_as_spent (vin tx) pool"
    and f: "add_tx_fee_rules nv tx min_fee ?h sz (ins - get_outs_money_amount tx) False False tvc pool = Some (r, tvc', pool')"
    using assms(6) by blast
  obtain p bid bh where t: "m_db_transactions p = m_db_transactions pool" "m_db_key_images_set p = m_db_key_images_set pool"
    and pool': "pool' = do_insert_transaction nv tx ?h sz False (ins - get_outs_money_amount tx) bid bh p"
    by (rule fee_rules_added [OF f assms(3,4)]) (blast dest: tables_process_cancel)
  have none: "\<forall>k \<in> set (key_images tx). m_db_key_images_set pool k = None"
    using free by (simp add: have_tx_keyimges_as_spent_iff)
  obtain td where td: "m_db_transactions pool' = (m_db_transactions pool)(?h \<mapsto> td)" "td_tx td = tx"
      "td_fee td = ins - get_outs_money_amount tx" "td_blob_size td = sz" "\<not> td_kept_by_block td"
    using insert_entry [of nv tx ?h sz False "ins - get_outs_money_amount tx" bid bh p] unfolding pool' t by blast
  have k: "m_db_key_images_set pool' = (\<lambda>k. if k \<in> set (key_images tx) then Some 1 else m_db_key_images_set pool k)"
    using tables_insert [of tx False p nv ?h sz "ins - get_outs_money_amount tx" bid bh] d none unfolding pool' t by auto
  have ok': "pool_ok H pool'" by (rule insert_ok [OF ok _ new, where td = td]) (simp_all add: td d none k)
  let ?q = "erase_tx ?h (snd (unprocess_cancel_offer_rules nv' tx pool'))"
  let ?r = "snd (on_tx_remove tx False ?q)"
  have q: "m_db_transactions ?q = m_db_transactions pool" "m_db_key_images_set ?q = m_db_key_images_set pool'"
    using new by (simp_all add: erase_tx_def unprocess_cancel_offer_rules_def td(1) fun_upd_idem)
  have r: "m_db_transactions ?r = m_db_transactions pool" "m_db_key_images_set ?r = m_db_key_images_set pool"
    using tables_on_tx_remove [OF _ pool_ok_counts [OF ok'] q, of False tx] d none k by auto
  have "take_tx nv' ?h pool' = Some ((tx, sz, ins - get_outs_money_amount tx), set_taken ?h ?r)"
    using td by (simp add: take_tx_def Let_def)
  moreover have "have_tx ?h (set_taken ?h ?r)" by (simp add: have_tx_def set_taken_def check_is_taken_def)
  moreover have "\<not> have_tx ?h (on_finalize_db_transaction (set_taken ?h ?r))"
    using new r(1)
    by (simp add: have_tx_def set_taken_def check_is_taken_def on_finalize_db_transaction_def reset_all_taken_def)
  ultimately show ?thesis using r added_amounts [OF assms(5) ins] by (auto simp: set_taken_def)
qed

lemma take_after_add_witness:
  "\<exists>fee pool''. take_tx calm_view [1] simple_pool = Some ((simple_tx, 300, fee), pool'') \<and>
    m_db_transactions pool'' = Map.empty \<and> m_db_key_images_set pool'' = Map.empty"
proof -
  have "check_tx_semantic simple_tx" unfolding semantic_iff using simple_tx_semantic by simp
  from take_after_add [OF pool_reachable.start [of "\<lambda>_. [1]" 5, folded empty_pool_def] simple_tx_added _ _ this, of calm_view]
  show ?thesis by (auto simp: no_tvc_def calm_view_def empty_pool_def)
qed

text \<open>C2: What \<open>fill_block_template\<close> puts into a block, when it succeeds, is a list of chosen transactions and a list of
  cancellations of offers, all waiting in the pool and none twice. The chosen ones are not expired, were ready for
  the block and together spend no key image twice; their size keeps the block within the limit and pays at least
  what an empty block pays; the fee is theirs, and the reported size is that of all.\<close>
theorem block_template_sound:
  assumes "fill_block_template nv args bl pool = (True, hs, tsize, fee, pool')"
    and "std_permute (nv_sort nv) fee_rate_greater" and "db_enumeration (nv_enumerate nv)"
    and "finite (dom (m_db_transactions pool))"
    and "\<forall>h td. get_transaction_entry h pool = Some td \<longrightarrow> distinct (key_images (td_tx td))"
  shows "\<exists>chosen cancellations base reward.
    hs = bl @ map fst (chosen @ cancellations) \<and> distinct (map fst (chosen @ cancellations)) \<and>
    (\<forall>(h, td) \<in> set (chosen @ cancellations). get_transaction_entry h pool = Some td) \<and>
    (\<forall>(h, td) \<in> set chosen. \<not> is_tx_expired (td_tx td) (nv_expiration_median nv) \<and>
       fst (is_transaction_ready_to_go nv pool h td)) \<and>
    distinct (concat (map (\<lambda>(h, td). key_images (td_tx td)) chosen)) \<and>
    (\<forall>(h, td) \<in> set cancellations. have_attachment_service_in_container (attachment (td_tx td))
       BC_OFFERS_SERVICE_ID BC_OFFERS_SERVICE_INSTRUCTION_DEL) \<and>
    tsize = (\<Sum>(h, td)\<leftarrow>chosen @ cancellations. td_blob_size td) \<and> fee = (\<Sum>(h, td)\<leftarrow>chosen. td_fee td) \<and>
    get_block_reward (ba_pos args) (ba_median_size args) CURRENCY_COINBASE_BLOB_RESERVED_SIZE
      (ba_already_generated_coins args) (ba_height args) = Some base \<and>
    get_block_reward (ba_pos args) (ba_median_size args)
      ((\<Sum>(h, td)\<leftarrow>chosen. td_blob_size td) + CURRENCY_COINBASE_BLOB_RESERVED_SIZE)
      (ba_already_generated_coins args) (ba_height args) = Some reward \<and> base \<le> reward + fee"
  using fill_block_template_split [OF assms(1-4)] assms(5)
  unfolding get_transaction_entry_def entry_ready_def list_all_iff images_def sizes_def fees_def template_reward_def
    cancels_offer_def split_beta by simp

text \<open>One waiting transaction and one that cancels an offer, is on the black list and spends the same key image.\<close>

definition cancel_tx :: transaction where
  "cancel_tx = simple_tx\<lparr>attachment := [TxServiceAttachment \<lparr>service_id = BC_OFFERS_SERVICE_ID,
     instruction = BC_OFFERS_SERVICE_INSTRUCTION_DEL, body = [1], security = [], sa_flags = 0\<rparr>]\<rparr>"

definition big_details :: tx_details where
  "big_details = simple_details\<lparr>td_tx := simple_tx\<lparr>vin := []\<rparr>, td_blob_size := 400000\<rparr>"

definition ordered_view :: node_view where
  "ordered_view = calm_view\<lparr>nv_sort := (\<lambda>_ xs. xs),
     nv_enumerate := (\<lambda>_. [([1], simple_details), ([2], big_details),
       ([3], simple_details\<lparr>td_tx := cancel_tx\<rparr>)]),
     nv_transaction_hash := (\<lambda>tx. if tx = cancel_tx then [3] else [1])\<rparr>"

definition small_block :: block_args where
  "small_block = \<lparr>ba_pos = False, ba_median_size = 0, ba_already_generated_coins = 0, ba_height = 1\<rparr>"

lemma small_reward:
  "get_block_reward False 0 1100 0 1 = Some 100000000" "get_block_reward False 0 1400 0 1 = Some 100000000"
  "get_block_reward False 0 401400 0 1 = None"
  by (simp_all add: get_block_reward_def CURRENCY_BLOCK_GRANTED_FULL_REWARD_ZONE_def get_base_block_reward_def
      rewards_table row_fixed_reward_def BASE_REWARD_DUST_THRESHOLD_def Let_def)

lemma simple_ready:
  assumes "nv_transaction_hash nv simple_tx \<notin> m_db_black_tx_list pool" "nv_blockchain_size nv = 5"
    "nv_block_id_by_height nv 1 = [1]" "nv_keyimg_spent nv = (\<lambda>_. False)"
  shows "is_transaction_ready_to_go nv pool h simple_details = (True, simple_details)"
proof -
  have h: "[1] \<noteq> null_hash" by (auto simp: null_hash_def dest: arg_cong [where f = length])
  have n: "\<not> (5 :: u64) \<le> 1" by (simp add: word_le_nat_alt)
  have "inputs_ready nv h simple_details = (True, simple_details)"
    unfolding inputs_ready_def using assms(2,3) h n by (simp add: simple_details_def)
  moreover have "\<not> bc_have_tx_keyimges_as_spent nv simple_tx"
    using assms(4) by (simp add: bc_have_tx_keyimges_as_spent_def simple_tx_def)
  moreover have "check_tx_multisig_ins_and_outs nv simple_tx False pool"
    by (simp add: check_tx_multisig_ins_and_outs_def collect_multisig_ids_from_tx_def simple_tx_def)
  ultimately show ?thesis using assms(1) by (simp add: is_transaction_ready_to_go_def simple_details_def)
qed

lemma simple_details_parts:
  "td_tx simple_details = simple_tx" "td_blob_size simple_details = 300" "td_fee simple_details = 2"
  by (simp_all add: simple_details_def)

lemma simple_entry:
  assumes "is_transaction_ready_to_go nv pool [1] simple_details = (True, simple_details)"
  shows "template_entry nv small_block False 0 ([1], simple_details)
      \<lparr>ts_k_images = {}, ts_current_size = 0, ts_current_fee = 0, ts_best_money = 100000000, ts_best_position = 0,
        ts_total_size = 0, ts_fee = 0, ts_alias_count = 0, ts_pool = pool\<rparr> =
    (Kept, \<lparr>ts_k_images = {replicate 32 9}, ts_current_size = 300, ts_current_fee = 2, ts_best_money = 100000002,
        ts_best_position = 1, ts_total_size = 300, ts_fee = 2, ts_alias_count = 0, ts_pool = pool\<rparr>)"
proof -
  obtain ei where ei: "parse_and_validate_tx_extra simple_tx = Some ei" "ei_alias ei = None" using simple_tx_parts(10) by blast
  show ?thesis
    by (simp add: template_entry_def simple_details_parts is_tx_expired_def simple_tx_parts ei alias_name_def assms
        have_key_images_def take_entry_def append_key_images_def small_block_def CURRENCY_COINBASE_BLOB_RESERVED_SIZE_def
        small_reward)
qed

lemma simple_regs: "alias_regs_exist ((h, simple_details) # us) = alias_regs_exist us"
  using simple_tx_parts(10) by (auto simp: simple_details_parts alias_name_def)

lemma simple_template:
  "fill_block_template calm_view small_block [] simple_pool = (True, [[1]], 300, 2, simple_pool)"
proof -
  have e: "nv_sort calm_view fee_rate_greater (nv_enumerate calm_view (m_db_transactions simple_pool)) = [([1], simple_details)]"
    by (simp add: calm_view_def simple_pool_def enumerate_by_key_def insertion_sort_def)
  have r: "is_transaction_ready_to_go calm_view simple_pool [1] simple_details = (True, simple_details)"
    by (rule simple_ready) (simp_all add: calm_view_def simple_pool_def empty_pool_def)
  have b: "get_block_reward (ba_pos small_block) (ba_median_size small_block) CURRENCY_COINBASE_BLOB_RESERVED_SIZE
      (ba_already_generated_coins small_block) (ba_height small_block) = Some 100000000"
    by (simp add: small_block_def CURRENCY_COINBASE_BLOB_RESERVED_SIZE_def small_reward)
  show ?thesis unfolding fill_block_template_def Let_def e b simple_regs by (simp add: simple_entry [OF r])
qed

lemma block_template_sound_witness:
  "\<exists>chosen cancellations :: (hash \<times> tx_details) list. [[1]] = map fst (chosen @ cancellations) \<and> (300 :: u64) = (\<Sum>(h, td)\<leftarrow>chosen @ cancellations. td_blob_size td)"
proof -
  have p: "std_permute (nv_sort calm_view) fee_rate_greater"
    by unfold_locales (simp add: calm_view_def insertion_sort_def mset_insertion_fold)
  have e: "db_enumeration (nv_enumerate calm_view)" using key_order.db_enumeration_axioms by (simp add: calm_view_def)
  have f: "finite (dom (m_db_transactions simple_pool))" by (simp add: simple_pool_def)
  have d: "\<forall>h td. get_transaction_entry h simple_pool = Some td \<longrightarrow> distinct (key_images (td_tx td))"
    by (auto simp: get_transaction_entry_def simple_pool_def simple_details_parts simple_tx_parts split: if_splits)
  obtain chosen cancellations :: "(hash \<times> tx_details) list" where "[[1]] = [] @ map fst (chosen @ cancellations)"
    "300 = (\<Sum>(h, td)\<leftarrow>chosen @ cancellations. td_blob_size td)"
    using block_template_sound [OF simple_template p e f d] by (elim exE conjE) (rule that; assumption)
  then have "[[1]] = map fst (chosen @ cancellations) \<and> (300 :: u64) = (\<Sum>(h, td)\<leftarrow>chosen @ cancellations. td_blob_size td)"
    unfolding append_Nil by (rule conjI)
  then show ?thesis by (intro exI)
qed

text \<open>C23: When the loop leaves because a transaction makes the block too large, every cancellation of offers from that
  transaction on goes into the block: it is not checked whether it is expired, on the black list, ready for the
  block or a double spend of a chosen transaction, nor does its size count against the limit.\<close>
theorem break_keeps_cancellations:
  assumes "nv_sort nv fee_rate_greater (nv_enumerate nv (m_db_transactions pool)) = pre @ u # post"
    and "alias_regs_exist (pre @ u # post) = Some regs"
    and "get_block_reward (ba_pos args) (ba_median_size args) CURRENCY_COINBASE_BLOB_RESERVED_SIZE
      (ba_already_generated_coins args) (ba_height args) = Some base"
    and "template_prefix nv args regs 0 pre
      \<lparr>ts_k_images = {}, ts_current_size = 0, ts_current_fee = 0, ts_best_money = base, ts_best_position = 0,
        ts_total_size = 0, ts_fee = 0, ts_alias_count = 0, ts_pool = pool\<rparr> = Some (us, s)"
    and "template_entry nv args regs (length pre) u s = (Break, s')"
  shows "\<exists>hs tsize fee pool'. fill_block_template nv args bl pool = (True, hs, tsize, fee, pool') \<and>
    (\<forall>c \<in> set (u # post). have_attachment_service_in_container (attachment (td_tx (snd c)))
      BC_OFFERS_SERVICE_ID BC_OFFERS_SERVICE_INSTRUCTION_DEL \<longrightarrow> fst c \<in> set hs)"
proof -
  let ?s0 = "\<lparr>ts_k_images = {}, ts_current_size = 0, ts_current_fee = 0, ts_best_money = base, ts_best_position = 0,
        ts_total_size = 0, ts_fee = 0, ts_alias_count = 0, ts_pool = pool\<rparr>"
  have l: "template_loop nv args regs 0 (pre @ u # post) ?s0 = (True, us @ Some u # map Some post, s')"
    unfolding template_loop_append [OF assms(4)] using assms(5) by simp
  have len: "length us = length pre" by (rule template_prefix_length [OF assms(4)])
  have b: "ts_best_position s' \<le> length us"
    using template_prefix_best [OF assms(4)] break_best [OF assms(5)] len by simp
  have f: "fill_block_template nv args bl pool =
      (True, fst (collect_hashes (ts_best_position s') 0 (us @ Some u # map Some post) bl (ts_total_size s')),
       snd (collect_hashes (ts_best_position s') 0 (us @ Some u # map Some post) bl (ts_total_size s')), ts_fee s', ts_pool s')"
    unfolding fill_block_template_def Let_def assms(1,3) option.case assms(2) l by (simp add: split_beta)
  have d: "drop (ts_best_position s') (us @ Some u # map Some post) =
      drop (ts_best_position s') us @ map Some (u # post)" using b by simp
  have "fst c \<in> set (fst (collect_hashes (ts_best_position s') 0 (us @ Some u # map Some post) bl (ts_total_size s')))"
    if "c \<in> set (u # post)" "cancels_offer c" for c
    using that unfolding collect_hashes_split diff_zero d somes_append somes_map_Some by auto
  then show ?thesis unfolding f cancels_offer_def by blast
qed

lemma break_keeps_cancellations_witness:
  "\<exists>hs tsize fee pool'. fill_block_template ordered_view small_block [] (simple_pool\<lparr>m_db_black_tx_list := {[3]}\<rparr>) =
    (True, hs, tsize, fee, pool') \<and> [3] \<in> set hs"
proof -
  let ?pool = "simple_pool\<lparr>m_db_black_tx_list := {[3]}\<rparr>"
  let ?u = "([2], big_details)" and ?c = "([3], simple_details\<lparr>td_tx := cancel_tx\<rparr>)"
  let ?s0 = "\<lparr>ts_k_images = {}, ts_current_size = 0, ts_current_fee = 0, ts_best_money = 100000000, ts_best_position = 0,
        ts_total_size = 0, ts_fee = 0, ts_alias_count = 0, ts_pool = ?pool\<rparr>"
  let ?s1 = "\<lparr>ts_k_images = {replicate 32 9}, ts_current_size = 300, ts_current_fee = 2, ts_best_money = 100000002,
        ts_best_position = 1, ts_total_size = 300, ts_fee = 2, ts_alias_count = 0, ts_pool = ?pool\<rparr>"
  obtain ei where ei: "parse_and_validate_tx_extra simple_tx = Some ei" "ei_alias ei = None" using simple_tx_parts(10) by blast
  have x: "extra (td_tx big_details) = extra simple_tx" "extra cancel_tx = extra simple_tx"
    by (simp_all add: big_details_def cancel_tx_def)
  have p: "parse_and_validate_tx_extra (td_tx big_details) = Some ei" "parse_and_validate_tx_extra cancel_tx = Some ei"
    using ei by (simp_all add: parse_and_validate_tx_extra_def x)
  have ne: "simple_tx \<noteq> cancel_tx" "td_tx big_details \<noteq> cancel_tx"
    by (auto simp: cancel_tx_def big_details_def simple_tx_def)
  have e: "nv_sort ordered_view fee_rate_greater (nv_enumerate ordered_view (m_db_transactions ?pool)) =
      [([1], simple_details)] @ ?u # [?c]" by (simp add: ordered_view_def)
  have r: "alias_regs_exist ([([1], simple_details)] @ ?u # [?c]) = Some False"
    using p ei by (simp add: simple_details_parts alias_name_def)
  have b: "get_block_reward (ba_pos small_block) (ba_median_size small_block) CURRENCY_COINBASE_BLOB_RESERVED_SIZE
      (ba_already_generated_coins small_block) (ba_height small_block) = Some 100000000"
    by (simp add: small_block_def CURRENCY_COINBASE_BLOB_RESERVED_SIZE_def small_reward)
  have "is_transaction_ready_to_go ordered_view ?pool [1] simple_details = (True, simple_details)"
    using ne by (intro simple_ready) (simp_all add: ordered_view_def calm_view_def)
  then have t1: "template_prefix ordered_view small_block False 0 [([1], simple_details)] ?s0 = Some ([Some ([1], simple_details)], ?s1)"
    by (simp add: simple_entry)
  have n: "\<not> (5 :: u64) \<le> 1" by (simp add: word_le_nat_alt)
  have h: "[1] \<noteq> null_hash" by (auto simp: null_hash_def dest: arg_cong [where f = length])
  have "is_transaction_ready_to_go ordered_view ?pool [2] big_details = (True, big_details)"
    using ne(2) n h
    by (simp add: is_transaction_ready_to_go_def inputs_ready_def big_details_def simple_details_def ordered_view_def calm_view_def
        bc_have_tx_keyimges_as_spent_def check_tx_multisig_ins_and_outs_def collect_multisig_ids_from_tx_def simple_tx_def)
  moreover have "vin (td_tx big_details) = []" "td_blob_size big_details = 400000" "get_tx_expiration_time (td_tx big_details) = 0"
    using simple_tx_parts(7) by (simp_all add: big_details_def simple_details_def get_tx_expiration_time_def)
  ultimately have t2: "\<exists>s. template_entry ordered_view small_block False 1 ?u ?s1 = (Break, s)"
    using p(1) ei(2) small_reward(3)
    by (simp add: template_entry_def is_tx_expired_def alias_name_def have_key_images_def
        take_entry_def Let_def small_block_def CURRENCY_COINBASE_BLOB_RESERVED_SIZE_def)
  have d: "have_attachment_service_in_container (attachment (td_tx (snd ?c))) BC_OFFERS_SERVICE_ID BC_OFFERS_SERVICE_INSTRUCTION_DEL"
    by (simp add: have_attachment_service_in_container_def cancel_tx_def)
  from t2 obtain s where "template_entry ordered_view small_block False (length [([1] :: hash, simple_details)]) ?u ?s1 = (Break, s)" by auto
  from break_keeps_cancellations [OF e r b t1 this, of "[]"] d show ?thesis by force
qed

subsection \<open>What is kept of transactions that are gone\<close>

lemma alias_inserted:
  "parse_and_validate_tx_extra tx = Some ei \<Longrightarrow> ei_alias ei = Some a \<Longrightarrow> m_alias a \<noteq> [] \<Longrightarrow>
   m_alias a \<in> m_db_alias_names (do_insert_transaction nv tx txid sz kept fee bid bh pool)"
  by (simp add: do_insert_transaction_def on_tx_add_def insert_alias_info_def Let_def)

lemma name_refused:
  assumes "first_of (\<lambda>e. case e of ExtraAliasEntry a \<Rightarrow> Some a | _ \<Rightarrow> None) (extra tx) = Some a"
    and "m_alias a \<in> m_db_alias_names pool" and "\<not> nv_in_checkpoint_zone nv"
  shows "add_tx nv tx min_fee txid sz False False tvc pool = failed tvc pool"
proof -
  have "\<not> validate_alias_info nv tx False pool" using assms(1,2) by (simp add: validate_alias_info_def)
  then show ?thesis using assms(3) by (auto simp: add_tx_def Let_def split: option.split)
qed

text \<open>Purging or clearing the pool leaves the names of aliases behind: after a transaction that registers an alias
  was admitted and the pool was emptied, the network cannot bring any transaction with that alias into the pool,
  although no transaction is waiting.\<close>
theorem purge_keeps_aliases:
  assumes "add_tx nv tx min_fee txid sz False False tvc pool = Some (r, tvc', pool')"
    and "m_added_to_pool tvc'" and "\<not> m_added_to_pool tvc"
    and "parse_and_validate_tx_extra tx = Some ei" and "ei_alias ei = Some a" and "m_alias a \<noteq> []"
    and "first_of (\<lambda>e. case e of ExtraAliasEntry x \<Rightarrow> Some x | _ \<Rightarrow> None) (extra tx2) = Some a2"
    and "m_alias a2 = m_alias a" and "\<not> nv_in_checkpoint_zone nv2"
  shows "add_tx nv2 tx2 fee2 txid2 sz2 False False tvc2 (purge_transactions pool') =
      Some (False, tvc2\<lparr>m_verification_failed := True\<rparr>, purge_transactions pool') \<and>
    add_tx nv2 tx2 fee2 txid2 sz2 False False tvc2 (clear_pool pool') =
      Some (False, tvc2\<lparr>m_verification_failed := True\<rparr>, clear_pool pool') \<and>
    get_transactions_count (purge_transactions pool') = 0 \<and> get_transactions_count (clear_pool pool') = 0"
proof -
  from add_tx_added [OF assms(1-3)] obtain fee
    where f: "add_tx_fee_rules nv tx min_fee txid sz fee False False tvc pool = Some (r, tvc', pool')" by blast
  have "m_alias a2 \<in> m_db_alias_names pool'"
    by (rule fee_rules_added [OF f assms(2,3)]) (simp add: alias_inserted [OF assms(4-6)] assms(8))
  then have "m_alias a2 \<in> m_db_alias_names (purge_transactions pool')" "m_alias a2 \<in> m_db_alias_names (clear_pool pool')"
    by (simp_all add: purge_transactions_def clear_pool_def)
  then show ?thesis
    using name_refused [OF assms(7) _ assms(9)]
    by (simp add: failed_def get_transactions_count_def purge_transactions_def clear_pool_def)
qed

definition alias_entry :: extra_alias_entry where
  "alias_entry = \<lparr>m_address = \<lparr>m_spend_public_key = null_pkey, m_view_public_key = null_pkey\<rparr>,
     m_text_comment = [], m_view_key = [], m_sign = [], m_alias = [0x61]\<rparr>"

definition alias_tx :: transaction where
  "alias_tx = simple_tx\<lparr>extra := [ExtraAliasEntry alias_entry]\<rparr>"

lemma purge_keeps_aliases_witness:
  "\<exists>pool'. add_tx calm_view alias_tx 2 [1] 300 False False no_tvc (purge_transactions pool') =
    Some (False, no_tvc\<lparr>m_verification_failed := True\<rparr>, purge_transactions pool')"
proof -
  have tx: "vin alias_tx = vin simple_tx" "vout alias_tx = vout simple_tx" "attachment alias_tx = []"
      "extra alias_tx = [ExtraAliasEntry alias_entry]"
    by (simp_all add: alias_tx_def simple_tx_parts)
  have e: "parse_and_validate_tx_extra alias_tx = Some \<lparr>ei_tx_pub_key = null_pkey, ei_alias = Some alias_entry,
      ei_user_data_blob = [], ei_attachment_info = None\<rparr>"
    by (simp add: parse_and_validate_tx_extra_def tx extra_handler_def)
  have c: "check_tx_multisig_ins_and_outs calm_view alias_tx True empty_pool"
    by (simp add: check_tx_multisig_ins_and_outs_def collect_multisig_ids_from_tx_def tx simple_tx_def)
  have p: "process_cancel_offer_rules calm_view alias_tx True empty_pool = Some (False, empty_pool)"
    by (simp add: process_cancel_offer_rules_def tx)
  have n: "nv_in_checkpoint_zone calm_view = False"
      "nv_check_tx_inputs calm_view alias_tx [1] (0, null_hash) = (True, 1, [1])"
    by (simp_all add: calm_view_def)
  have i: "get_inputs_money_amount alias_tx = Some 7" "get_outs_money_amount alias_tx = 5"
      "check_inputs_types_supported alias_tx" "length (vout alias_tx) = 1"
    using simple_tx_parts(1-4)
    by (simp_all add: get_inputs_money_amount_def get_outs_money_amount_def check_inputs_types_supported_def tx)
  have "\<not> bc_is_tx_expired calm_view alias_tx"
    by (simp add: bc_is_tx_expired_def is_tx_expired_def get_tx_expiration_time_def tx)
  moreover have "validate_alias_info calm_view alias_tx False empty_pool"
    by (simp add: validate_alias_info_def tx calm_view_def empty_pool_def)
  moreover have "\<not> have_tx_keyimges_as_spent (vin alias_tx) empty_pool" by (simp add: tx simple_tx_parts empty_pool_def)
  moreover have "unat CURRENCY_TX_MAX_ALLOWED_OUTS = 2000" by (simp add: CURRENCY_TX_MAX_ALLOWED_OUTS_def)
  ultimately have "\<exists>tvc' pool'. add_tx calm_view alias_tx 2 [1] 300 False False no_tvc empty_pool = Some (True, tvc', pool') \<and>
      m_added_to_pool tvc'"
    by (simp add: add_tx_def i n c p add_tx_fee_rules_def add_tx_checked_def)
  then obtain tvc' pool' where a: "add_tx calm_view alias_tx 2 [1] 300 False False no_tvc empty_pool = Some (True, tvc', pool')"
    "m_added_to_pool tvc'" by blast
  have "first_of (\<lambda>e. case e of ExtraAliasEntry x \<Rightarrow> Some x | _ \<Rightarrow> None) (extra alias_tx) = Some alias_entry" by (simp add: tx)
  moreover have "\<not> m_added_to_pool no_tvc" "m_alias alias_entry \<noteq> []" by (simp_all add: no_tvc_def alias_entry_def)
  ultimately show ?thesis
    using purge_keeps_aliases [OF a _ e, of alias_entry alias_tx alias_entry calm_view 2 "[1]" 300 no_tvc] n(1) by auto
qed

end
