(* ===== verification/Base58.thy ===== *)
theory Base58
  imports Varint Keccak IntUtil
begin

section \<open>Base58 and the text of addresses (common/base58.cpp)\<close>

text \<open>
  Blocks of eight bytes are written as eleven letters, a last block of one to seven bytes as two to ten letters;
  \<open>encode_addr\<close> puts a tag before and a checksum after the data. A pointer into the output is the part of the
  buffer from there on. \<open>None\<close> is a failed assertion, a write outside of the buffer, or the result \<open>false\<close>.
  The theorems: \<open>decode\<close> accepts exactly what \<open>encode\<close> writes, and gives back what was encoded; the same for
  addresses, whose checksum is checked.
\<close>

subsection \<open>Tables\<close>

definition alphabet :: bytes where
  "alphabet = map of_char ''123456789ABCDEFGHJKLMNPQRSTUVWXYZabcdefghijkmnopqrstuvwxyz''"

definition alphabet_size :: nat where "alphabet_size = 58"

definition encoded_block_sizes :: "nat list" where "encoded_block_sizes = [0, 2, 3, 5, 6, 7, 9, 10, 11]"

definition full_block_size :: nat where "full_block_size = 8"

definition full_encoded_block_size :: nat where "full_encoded_block_size = 11"

definition addr_checksum_size :: nat where "addr_checksum_size = 4"

definition reverse_alphabet_data :: "int list" where
  "reverse_alphabet_data =
     fold (\<lambda>i m. m[unat (alphabet ! i - alphabet ! 0) := int i]) [0..<58] (replicate 74 (- 1))"

text \<open>\<open>char\<close> is signed; a negative difference is a huge index.\<close>

definition reverse_alphabet :: "u8 \<Rightarrow> int" where
  "reverse_alphabet letter =
     (let idx = sint letter - 49
      in if 0 \<le> idx \<and> nat idx < length reverse_alphabet_data then reverse_alphabet_data ! nat idx else - 1)"

definition decoded_block_sizes_data :: "int list" where
  "decoded_block_sizes_data = fold (\<lambda>i m. m[encoded_block_sizes ! i := int i]) [0..<9] (replicate 12 (- 1))"

definition decoded_block_sizes :: "nat \<Rightarrow> int" where
  "decoded_block_sizes n = (if n < length decoded_block_sizes_data then decoded_block_sizes_data ! n else - 1)"

subsection \<open>Blocks\<close>

definition uint_8be_to_64 :: "bytes \<Rightarrow> nat \<Rightarrow> u64 option" where
  "uint_8be_to_64 data n =
     (if 1 \<le> n \<and> n \<le> 8 \<and> n \<le> length data
      then Some (fold (\<lambda>b res. push_bit 8 res OR ucast b) (take n data) 0) else None)"

definition uint_64_to_8be :: "u64 \<Rightarrow> nat \<Rightarrow> bytes \<Rightarrow> bytes option" where
  "uint_64_to_8be num n data =
     (if 1 \<le> n \<and> n \<le> 8 \<and> n \<le> length data
      then Some (drop (8 - n) (store64 (SWAP64 num)) @ drop n data) else None)"

text \<open>\<open>while (0 < num)\<close>; a negative \<open>i\<close> would write before the block.\<close>

function encode_digits :: "u64 \<Rightarrow> int \<Rightarrow> bytes \<Rightarrow> bytes option" where
  "encode_digits num i res =
     (if num = 0 then Some res
      else if i < 0 \<or> length res \<le> nat i then None
      else encode_digits (num div 58) (i - 1) (res[nat i := alphabet ! unat (num mod 58)]))"
  by pat_completeness auto
termination
  by (relation "measure (\<lambda>(num, _). unat num)") (simp_all add: unat_div unat_gt_0)

declare encode_digits.simps [simp del]

definition encode_block :: "bytes \<Rightarrow> nat \<Rightarrow> bytes \<Rightarrow> bytes option" where
  "encode_block block n res =
     Option.bind (uint_8be_to_64 block n) (\<lambda>num. encode_digits num (int (encoded_block_sizes ! n) - 1) res)"

text \<open>\<open>for (size_t i = size - 1; i < size; --i)\<close>: the letters from the last to the first.\<close>

fun decode_digits :: "bytes \<Rightarrow> u64 \<Rightarrow> u64 \<Rightarrow> u64 option" where
  "decode_digits [] res_num order = Some res_num"
| "decode_digits (c # cs) res_num order =
     (let digit = reverse_alphabet c
      in if digit < 0 then None
         else
           let tmp = (ucast res_num :: 128 word) + ucast order * word_of_int digit
           in if tmp < ucast res_num \<or> 0xffffffffffffffff < tmp then None
              else decode_digits cs (ucast tmp) (order * 58))"

definition decode_block :: "bytes \<Rightarrow> nat \<Rightarrow> bytes \<Rightarrow> bytes option" where
  "decode_block block n res =
     (if \<not> (1 \<le> n \<and> n \<le> full_encoded_block_size \<and> n \<le> length block) then None
      else
        let res_size = decoded_block_sizes n
        in if res_size \<le> 0 then None
           else (case decode_digits (rev (take n block)) 0 1 of
                   None \<Rightarrow> None
                 | Some res_num \<Rightarrow>
                     if nat res_size < full_block_size \<and> push_bit (8 * nat res_size) 1 \<le> res_num then None
                     else uint_64_to_8be res_num (nat res_size) res))"

subsection \<open>Texts\<close>

text \<open>The loops over the full blocks; \<open>i\<close> is the number of the block.\<close>

fun encode_blocks :: "nat \<Rightarrow> nat \<Rightarrow> bytes \<Rightarrow> bytes \<Rightarrow> bytes option" where
  "encode_blocks 0 i data res = Some res"
| "encode_blocks (Suc k) i data res =
     Option.bind (encode_block (drop (i * full_block_size) data) full_block_size (drop (i * full_encoded_block_size) res))
       (\<lambda>r. encode_blocks k (i + 1) data (take (i * full_encoded_block_size) res @ r))"

definition encode :: "bytes \<Rightarrow> bytes option" where
  "encode data =
     (if data = [] then Some []
      else
        let full_block_count = length data div full_block_size;
            last_block_size = length data mod full_block_size;
            res_size = full_block_count * full_encoded_block_size + encoded_block_sizes ! last_block_size;
            res = replicate res_size (alphabet ! 0)
        in Option.bind (encode_blocks full_block_count 0 data res)
             (\<lambda>res. if 0 < last_block_size
                then map_option (\<lambda>r. take (full_block_count * full_encoded_block_size) res @ r)
                       (encode_block (drop (full_block_count * full_block_size) data) last_block_size
                          (drop (full_block_count * full_encoded_block_size) res))
                else Some res))"

fun decode_blocks :: "nat \<Rightarrow> nat \<Rightarrow> bytes \<Rightarrow> bytes \<Rightarrow> bytes option" where
  "decode_blocks 0 i enc data = Some data"
| "decode_blocks (Suc k) i enc data =
     Option.bind (decode_block (drop (i * full_encoded_block_size) enc) full_encoded_block_size (drop (i * full_block_size) data))
       (\<lambda>r. decode_blocks k (i + 1) enc (take (i * full_block_size) data @ r))"

definition decode :: "bytes \<Rightarrow> bytes option" where
  "decode enc =
     (if enc = [] then Some []
      else
        let full_block_count = length enc div full_encoded_block_size;
            last_block_size = length enc mod full_encoded_block_size;
            last_block_decoded_size = decoded_block_sizes last_block_size
        in if last_block_decoded_size < 0 then None
           else
             let data = replicate (full_block_count * full_block_size + nat last_block_decoded_size) 0
             in Option.bind (decode_blocks full_block_count 0 enc data)
                  (\<lambda>data. if 0 < last_block_size
                     then map_option (\<lambda>r. take (full_block_count * full_block_size) data @ r)
                            (decode_block (drop (full_block_count * full_encoded_block_size) enc) last_block_size
                               (drop (full_block_count * full_block_size) data))
                     else Some data))"

subsection \<open>Addresses\<close>

definition encode_addr :: "u64 \<Rightarrow> bytes \<Rightarrow> bytes option" where
  "encode_addr tag data =
     (let buf = get_varint_data tag;
          buf = buf @ data;
          hash = cn_fast_hash buf;
          buf = buf @ take addr_checksum_size hash
      in encode buf)"

definition decode_addr :: "bytes \<Rightarrow> (u64 \<times> bytes) option" where
  "decode_addr addr =
     (case decode addr of
        None \<Rightarrow> None
      | Some addr_data \<Rightarrow>
          if length addr_data \<le> addr_checksum_size then None
          else
            let checksum = drop (length addr_data - addr_checksum_size) addr_data;
                addr_data = take (length addr_data - addr_checksum_size) addr_data;
                hash = cn_fast_hash addr_data;
                expected_checksum = take addr_checksum_size hash
            in if expected_checksum \<noteq> checksum then None
               else (case read_varint addr_data of
                       (read, tag, rest) \<Rightarrow> if read \<le> 0 then None else Some (tag, drop (nat read) addr_data)))"

subsection \<open>The tables\<close>

lemma alphabet_values:
  "alphabet = [49, 50, 51, 52, 53, 54, 55, 56, 57, 65, 66, 67, 68, 69, 70, 71, 72, 74, 75, 76, 77, 78, 80, 81, 82, 83, 84, 85,
    86, 87, 88, 89, 90, 97, 98, 99, 100, 101, 102, 103, 104, 105, 106, 107, 109, 110, 111, 112, 113, 114, 115, 116, 117, 118, 119,
    120, 121, 122]"
  by (simp add: alphabet_def)

lemma reverse_alphabet_data_values:
  "reverse_alphabet_data =
    [0, 1, 2, 3, 4, 5, 6, 7, 8, - 1, - 1, - 1, - 1, - 1, - 1, - 1, 9, 10, 11, 12, 13, 14, 15, 16, - 1, 17, 18, 19, 20, 21, - 1, 22,
    23, 24, 25, 26, 27, 28, 29, 30, 31, 32, - 1, - 1, - 1, - 1, - 1, - 1, 33, 34, 35, 36, 37, 38, 39, 40, 41, 42, 43, - 1, 44, 45, 46,
    47, 48, 49, 50, 51, 52, 53, 54, 55, 56, 57]"
  unfolding reverse_alphabet_data_def by code_simp

lemma reverse_of_alphabet: "d < 58 \<Longrightarrow> reverse_alphabet (alphabet ! d) = int d"
proof -
  have "list_all (\<lambda>d. reverse_alphabet (alphabet ! d) = int d) [0..<58]"
    unfolding reverse_alphabet_def reverse_alphabet_data_values alphabet_values by code_simp
  then show "d < 58 \<Longrightarrow> reverse_alphabet (alphabet ! d) = int d" by (rule list_all_uptD)
qed

lemma alphabet_of_reverse:
  assumes "0 \<le> reverse_alphabet c"
  shows "reverse_alphabet c < 58 \<and> alphabet ! nat (reverse_alphabet c) = c"
proof -
  have "list_all (\<lambda>k. reverse_alphabet_data ! k < 0 \<or>
      (reverse_alphabet_data ! k < 58 \<and> alphabet ! nat (reverse_alphabet_data ! k) = of_nat (k + 49))) [0..<74]"
    unfolding reverse_alphabet_data_values alphabet_values by code_simp
  moreover define k where "k = nat (sint c - 49)"
  moreover have k: "49 \<le> sint c" "k < 74" "reverse_alphabet c = reverse_alphabet_data ! k"
    using assms by (auto simp: reverse_alphabet_def Let_def k_def reverse_alphabet_data_values split: if_splits)
  ultimately have "reverse_alphabet_data ! k < 0 \<or>
      (reverse_alphabet_data ! k < 58 \<and> alphabet ! nat (reverse_alphabet_data ! k) = of_nat (k + 49))"
    by (simp only: list_all_iff set_upt atLeastLessThan_iff Ball_def le0 simp_thms)
  then have "reverse_alphabet c < 58 \<and> alphabet ! nat (reverse_alphabet c) = of_nat (k + 49)"
    using assms k(3) by simp
  moreover have "of_nat (k + 49) = c"
  proof -
    have "int (k + 49) = sint c" using k(1) by (simp add: k_def)
    then have "(of_int (int (k + 49)) :: u8) = of_int (sint c)" by (simp only:)
    then show ?thesis by (simp only: of_int_of_nat_eq) simp
  qed
  ultimately show ?thesis by simp
qed


subsection \<open>Numbers in base 58\<close>

fun le58 :: "nat list \<Rightarrow> nat" where
  "le58 [] = 0"
| "le58 (d # ds) = d + 58 * le58 ds"

fun to58 :: "nat \<Rightarrow> nat \<Rightarrow> nat list" where
  "to58 0 v = []"
| "to58 (Suc n) v = v mod 58 # to58 n (v div 58)"

lemma length_to58 [simp]: "length (to58 n v) = n"
  by (induction n arbitrary: v) simp_all

lemma to58_digits: "list_all (\<lambda>d. d < 58) (to58 n v)"
  by (induction n arbitrary: v) simp_all

lemma le58_to58: "le58 (to58 n v) = v mod 58 ^ n"
  by (induction n arbitrary: v) (simp_all add: mod_mult2_eq)

lemma to58_le58: "list_all (\<lambda>d. d < 58) ds \<Longrightarrow> to58 (length ds) (le58 ds) = ds"
  by (induction ds) simp_all

lemma to58_zero: "to58 n 0 = replicate n 0"
  by (induction n) simp_all

text \<open>The letters of a number, most significant first.\<close>

definition text58 :: "nat \<Rightarrow> nat \<Rightarrow> bytes" where
  "text58 n v = rev (map ((!) alphabet) (to58 n v))"

lemma length_text58 [simp]: "length (text58 n v) = n"
  by (simp add: text58_def)

lemma text58_Suc: "text58 (Suc n) v = text58 n (v div 58) @ [alphabet ! (v mod 58)]"
  by (simp add: text58_def)

lemma text58_zero: "text58 n 0 = replicate n (alphabet ! 0)"
  by (simp add: text58_def to58_zero)

definition letter_digit :: "u8 \<Rightarrow> nat option" where
  "letter_digit c = (if reverse_alphabet c < 0 then None else Some (nat (reverse_alphabet c)))"

lemma letter_digit_iff: "letter_digit c = Some d \<longleftrightarrow> d < 58 \<and> c = alphabet ! d"
proof
  assume "letter_digit c = Some d"
  then have "0 \<le> reverse_alphabet c" "d = nat (reverse_alphabet c)" by (auto simp: letter_digit_def split: if_splits)
  with alphabet_of_reverse [of c] show "d < 58 \<and> c = alphabet ! d" by auto
qed (simp add: letter_digit_def reverse_of_alphabet)

lemma letter_digits_iff:
  "map_option_list letter_digit cs = Some ds \<longleftrightarrow> list_all (\<lambda>d. d < 58) ds \<and> cs = map ((!) alphabet) ds"
proof (induction cs arbitrary: ds)
  case (Cons c cs)
  show ?case
  proof (cases ds)
    case Nil
    then show ?thesis by (auto split: option.splits)
  next
    case (Cons d ds')
    then show ?thesis using letter_digit_iff [of c d] Cons.IH [of ds'] by (auto split: option.splits)
  qed
qed auto

subsection \<open>Blocks as numbers\<close>

lemma replicate_Suc_snoc: "replicate (Suc n) x = replicate n x @ [x]"
  by (simp add: replicate_append_same)

lemma encode_digits_text:
  "unat num < 58 ^ k \<Longrightarrow>
    encode_digits num (int k - 1) (replicate k (alphabet ! 0) @ rest) = Some (text58 k (unat num) @ rest)"
proof (induction k arbitrary: num rest)
  case 0
  then have "num = 0" by (simp add: unat_eq_0)
  then show ?case by (simp add: encode_digits.simps [of 0] text58_def)
next
  case (Suc k)
  show ?case
  proof (cases "num = 0")
    case True
    then show ?thesis by (simp add: encode_digits.simps [of 0] text58_zero del: replicate.simps)
  next
    case False
    let ?c = "alphabet ! unat (num mod 58)"
    have "(replicate (Suc k) (alphabet ! 0) @ rest)[k := ?c] = replicate k (alphabet ! 0) @ ?c # rest"
      by (simp only: replicate_Suc_snoc append_assoc append.simps) (simp add: list_update_append)
    moreover have "unat (num div 58) < 58 ^ k" using Suc.prems by (simp add: unat_div div_less_iff_less_mult mult.commute)
    ultimately show ?thesis
      using False Suc.IH [of "num div 58" "?c # rest"]
      by (simp add: encode_digits.simps [of num] text58_Suc unat_div unat_mod del: replicate.simps(2))
  qed
qed

lemma uint_8be_value:
  assumes "1 \<le> n" "n \<le> 8" "n \<le> length data"
  shows "\<exists>num. uint_8be_to_64 data n = Some num \<and> unat num = be_nat (take n data)"
proof -
  have "length bs \<le> 8 \<Longrightarrow> unat (fold (\<lambda>b res. push_bit 8 res OR ucast b) bs (0 :: u64)) = be_nat bs" for bs :: bytes
  proof (induction bs rule: rev_induct)
    case (snoc b bs)
    let ?r = "fold (\<lambda>b res. push_bit 8 res OR ucast b) bs (0 :: u64)"
    have r: "unat ?r = be_nat bs" using snoc by simp
    have b: "unat (ucast b :: u64) = unat b" by (simp add: unat_ucast_up)
    have "be_nat bs < 256 ^ length bs" by (rule be_nat_bound)
    also have "\<dots> \<le> 256 ^ 7" using snoc.prems by (intro power_increasing) simp_all
    finally have "be_nat bs < 72057594037927936" by simp
    moreover have "unat b < 256" by (rule unat_u8_bound)
    ultimately have "be_nat bs * 256 + unat b < 18446744073709551616" by linarith
    then have "be_nat bs * 256 + unat b < 2 ^ 64" by simp
    moreover from this have "unat (push_bit 8 ?r) = be_nat bs * 256" by (simp add: unat_push_bit r)
    ultimately have "unat (push_bit 8 ?r + ucast b) = be_nat bs * 256 + unat b"
      by (subst unat_add_no_wrap) (simp_all add: b)
    moreover have "push_bit 8 ?r OR ucast b = push_bit 8 ?r + ucast b" by (rule or_shifted_disjoint) (simp add: b)
    ultimately show ?case by (simp add: be_nat_append)
  qed simp
  then show ?thesis using assms by (simp add: uint_8be_to_64_def)
qed

lemma block_sizes_fit: "1 \<le> n \<Longrightarrow> n \<le> 8 \<Longrightarrow> (256 :: nat) ^ n \<le> 58 ^ (encoded_block_sizes ! n)"
proof -
  assume "1 \<le> n" "n \<le> 8"
  then have "n = 1 \<or> n = 2 \<or> n = 3 \<or> n = 4 \<or> n = 5 \<or> n = 6 \<or> n = 7 \<or> n = 8" by arith
  then show "(256 :: nat) ^ n \<le> 58 ^ (encoded_block_sizes ! n)"
    by (elim disjE) (simp_all add: encoded_block_sizes_def)
qed

lemma encode_block_text:
  assumes "1 \<le> n" "n \<le> 8" "n \<le> length block"
  shows "encode_block block n (replicate (encoded_block_sizes ! n) (alphabet ! 0) @ rest) =
    Some (text58 (encoded_block_sizes ! n) (be_nat (take n block)) @ rest)"
proof -
  obtain num where num: "uint_8be_to_64 block n = Some num" "unat num = be_nat (take n block)"
    using uint_8be_value [OF assms] by blast
  have "be_nat (take n block) < 256 ^ n" using be_nat_bound [of "take n block"] assms(3) by simp
  then have "unat num < 58 ^ (encoded_block_sizes ! n)" using block_sizes_fit [OF assms(1,2)] num(2) by linarith
  from encode_digits_text [OF this, of rest] num show ?thesis by (simp add: encode_block_def)
qed

subsection \<open>Reading a block\<close>

lemma decode_digits_value:
  "j + length cs \<le> 11 \<Longrightarrow>
    decode_digits cs res (of_nat (58 ^ j)) =
      (case map_option_list letter_digit cs of
         None \<Rightarrow> None
       | Some ds \<Rightarrow> if unat res + 58 ^ j * le58 ds < 2 ^ 64 then Some (of_nat (unat res + 58 ^ j * le58 ds)) else None)"
proof (induction cs arbitrary: res j)
  case Nil
  have "unat res < 2 ^ 64" by (rule unat_u64_lt)
  then show ?case by simp
next
  case (Cons c cs)
  show ?case
  proof (cases "letter_digit c")
    case None
    then have "reverse_alphabet c < 0" by (simp add: letter_digit_def split: if_splits)
    then show ?thesis using None by simp
  next
    case (Some d)
    then have d: "d < 58" and r: "reverse_alphabet c = int d" by (simp_all add: letter_digit_iff reverse_of_alphabet)
    have "(58 :: nat) ^ j \<le> 58 ^ 10" using Cons.prems by (intro power_increasing) simp_all
    then have j: "(58 :: nat) ^ j \<le> 430804206899405824" by simp
    let ?order = "of_nat (58 ^ j) :: u64"
    let ?tmp = "(ucast res :: 128 word) + ucast ?order * word_of_int (reverse_alphabet c)"
    have o: "unat ?order = 58 ^ j" using j by (intro unat_of_nat_lt) simp
    have ub: "unat res < 18446744073709551616" by (rule unat_u64_bound)
    have prod: "58 ^ j * d \<le> 430804206899405824 * 58" using j d by (intro mult_le_mono) simp_all
    have "?tmp = of_nat (unat res) + of_nat (58 ^ j) * of_nat d"
    proof -
      have "(ucast res :: 128 word) = of_nat (unat res)" by (rule word_eq_of_unat) (simp add: unat_ucast_up)
      moreover have "(ucast ?order :: 128 word) = of_nat (58 ^ j)"
        by (rule word_eq_of_unat) (simp add: unat_ucast_up o del: of_nat_power)
      ultimately show ?thesis using r by (simp only: of_int_of_nat_eq)
    qed
    then have tmp: "?tmp = of_nat (unat res + 58 ^ j * d)" by (simp only: of_nat_add of_nat_mult)
    then have t: "unat ?tmp = unat res + 58 ^ j * d"
    proof -
      have "unat res + 58 ^ j * d < 340282366920938463463374607431768211456" using prod ub by linarith
      then have "unat res + 58 ^ j * d < 2 ^ LENGTH(128)" by simp
      then have "unat (of_nat (unat res + 58 ^ j * d) :: 128 word) = unat res + 58 ^ j * d" by (rule unat_of_nat_lt)
      then show ?thesis unfolding tmp .
    qed
    have nl: "\<not> ?tmp < ucast res" unfolding word_less_nat_alt t by (simp add: unat_ucast_up)
    have mx: "0xffffffffffffffff < ?tmp \<longleftrightarrow> \<not> unat res + 58 ^ j * d < 2 ^ 64"
      unfolding word_less_nat_alt t by auto
    show ?thesis
    proof (cases "unat res + 58 ^ j * d < 2 ^ 64")
      case False
      then have "\<not> unat res + 58 ^ j * le58 (d # ds) < 2 ^ 64" for ds by (simp add: distrib_left)
      moreover have "decode_digits (c # cs) res ?order = None"
        using False mx nl r by (simp only: decode_digits.simps Let_def) simp
      ultimately show ?thesis using Some by (auto split: option.splits simp del: le58.simps)
    next
      case True
      have u: "unat (ucast ?tmp :: u64) = unat res + 58 ^ j * d" unfolding unat_ucast_mod t using True by simp
      have "decode_digits (c # cs) res ?order = decode_digits cs (ucast ?tmp) (?order * 58)"
        using True mx nl r by (simp only: decode_digits.simps Let_def) simp
      also have "?order * 58 = of_nat (58 ^ Suc j)" by simp
      also have "decode_digits cs (ucast ?tmp) (of_nat (58 ^ Suc j)) =
          (case map_option_list letter_digit cs of
             None \<Rightarrow> None
           | Some ds \<Rightarrow> if unat res + 58 ^ j * le58 (d # ds) < 2 ^ 64
               then Some (of_nat (unat res + 58 ^ j * le58 (d # ds))) else None)"
      proof -
        have "unat res + 58 ^ j * d + 58 ^ Suc j * le58 ds = unat res + 58 ^ j * le58 (d # ds)" for ds
          by (simp add: distrib_left)
        moreover have "Suc j + length cs \<le> 11" using Cons.prems by simp
        ultimately show ?thesis using Cons.IH [of "Suc j" "ucast ?tmp"] unfolding u by (simp only:)
      qed
      finally show ?thesis using Some by (simp split: option.splits)
    qed
  qed
qed

text \<open>The block of \<open>m\<close> bytes that a block of letters denotes.\<close>

definition block_bytes :: "bytes \<Rightarrow> nat \<Rightarrow> bytes option" where
  "block_bytes enc m =
     (case map_option_list letter_digit (rev enc) of
        None \<Rightarrow> None
      | Some ds \<Rightarrow> if le58 ds < 256 ^ m then Some (nat_to_be m (le58 ds)) else None)"

lemma nth_nat_to_le: "j < n \<Longrightarrow> nat_to_le n v ! j = of_nat (v div 256 ^ j)"
proof (induction n arbitrary: v j)
  case (Suc n)
  show ?case
  proof (cases j)
    case 0
    have "(of_nat (v mod 256) :: u8) = of_nat v"
      by (simp add: word_unat_eq_iff unat_of_nat)
    then show ?thesis using 0 by simp
  next
    case (Suc i)
    then show ?thesis using Suc.prems Suc.IH [of i "v div 256"] by (simp add: div_mult2_eq)
  qed
qed simp

lemma nth_store64: "j < 8 \<Longrightarrow> store64 x ! j = ucast (drop_bit (8 * j) x)"
  by (simp add: store64_def nth_nat_to_le word_unat_eq_iff unat_of_nat unat_ucast_mod unat_drop_bit power_mult)

lemma store64_SWAP64: "store64 (SWAP64 x) = rev (store64 x)"
proof (rule nth_equalityI)
  fix j
  assume "j < length (store64 (SWAP64 x))"
  then have j: "j < 8" by simp
  have "ucast (drop_bit (8 * j) (SWAP64 x)) = (ucast (drop_bit (8 * (7 - j)) x) :: u8)"
  proof (rule bit_word_eqI)
    fix k :: nat
    assume "k < LENGTH(8)"
    then have k: "k < 8" by simp
    then have "8 * j + k < 64" "(8 * j + k) div 8 = j" "(8 * j + k) mod 8 = k" using j by simp_all
    then show "bit (ucast (drop_bit (8 * j) (SWAP64 x)) :: u8) k = bit (ucast (drop_bit (8 * (7 - j)) x) :: u8) k"
      using k by (simp add: bit_ucast_iff bit_drop_bit_eq bit_SWAP64)
  qed
  then show "store64 (SWAP64 x) ! j = rev (store64 x) ! j"
    using j by (simp add: nth_store64 rev_nth)
qed simp

lemma drop_nat_to_be: "drop m (nat_to_be (m + n) v) = nat_to_be n v"
  by (induction n arbitrary: v) simp_all

lemma uint_64_to_8be_bytes:
  assumes "1 \<le> n" "n \<le> 8" "n \<le> length data"
  shows "uint_64_to_8be num n data = Some (nat_to_be n (unat num) @ drop n data)"
proof -
  have "rev (store64 num) = nat_to_be 8 (unat num)"
  proof (rule be_nat_inj)
    have "be_nat (rev (store64 num)) = unat num"
      using le_nat_rev [of "rev (store64 num)"] le_nat_store64 [of num] by simp
    then show "be_nat (rev (store64 num)) = be_nat (nat_to_be 8 (unat num))" by (simp add: be_nat_to_be)
  qed simp
  moreover have "drop (8 - n) (nat_to_be 8 (unat num)) = nat_to_be n (unat num)"
    using drop_nat_to_be [of "8 - n" n] assms(2) by simp
  ultimately show ?thesis using assms by (simp add: uint_64_to_8be_def store64_SWAP64)
qed

lemma decode_block_bytes:
  assumes "1 \<le> n" "n \<le> 11" "n \<le> length block" and m: "decoded_block_sizes n = int m" "1 \<le> m" "m \<le> 8" "m \<le> length res"
  shows "decode_block block n res = map_option (\<lambda>b. b @ drop m res) (block_bytes (take n block) m)"
proof -
  let ?cs = "rev (take n block)"
  have v: "decode_digits ?cs 0 1 =
      (case map_option_list letter_digit ?cs of
         None \<Rightarrow> None | Some ds \<Rightarrow> if le58 ds < 2 ^ 64 then Some (of_nat (le58 ds)) else None)"
    using decode_digits_value [of 0 ?cs 0] assms(2,3) by (cases "map_option_list letter_digit ?cs") simp_all
  show ?thesis
  proof (cases "map_option_list letter_digit ?cs")
    case None
    then show ?thesis using assms v by (simp add: decode_block_def block_bytes_def full_encoded_block_size_def)
  next
    case (Some ds)
    let ?x = "le58 ds"
    have pow: "(256 :: nat) ^ m \<le> 2 ^ 64"
      using power_increasing [OF m(3), of "256 :: nat"] by simp
    show ?thesis
    proof (cases "?x < 2 ^ 64")
      case False
      then have "\<not> ?x < 256 ^ m" using pow by linarith
      then show ?thesis using Some False assms v by (simp add: decode_block_def block_bytes_def full_encoded_block_size_def)
    next
      case True
      then have u: "unat (of_nat ?x :: u64) = ?x" by (intro unat_of_nat_lt) simp
      have "(m < 8 \<and> push_bit (8 * m) 1 \<le> (of_nat ?x :: u64)) \<longleftrightarrow> \<not> ?x < 256 ^ m"
      proof (cases "m < 8")
        case lt: True
        then have "(256 :: nat) ^ m \<le> 256 ^ 7" by (intro power_increasing) simp_all
        then have "(2 :: nat) ^ (8 * m) mod 2 ^ 64 = 256 ^ m" by (simp add: power_mult)
        moreover have "unat (push_bit (8 * m) 1 :: u64) = 2 ^ (8 * m) mod 2 ^ 64"
          by (subst unat_push_bit) simp
        ultimately have "unat (push_bit (8 * m) 1 :: u64) = 256 ^ m" by (simp only:)
        then show ?thesis using lt u by (simp add: word_le_nat_alt not_less)
      qed (use True m(3) in simp)
      then show ?thesis
        using Some True assms v u uint_64_to_8be_bytes [OF m(2,3,4), of "of_nat ?x"]
        by (simp add: decode_block_def block_bytes_def full_encoded_block_size_def full_block_size_def)
    qed
  qed
qed

text \<open>A block of letters denotes exactly the bytes that are written as that block.\<close>

lemma block_bytes_iff:
  assumes "1 \<le> m" "m \<le> 8" "length enc = encoded_block_sizes ! m"
  shows "block_bytes enc m = Some d \<longleftrightarrow> length d = m \<and> enc = text58 (encoded_block_sizes ! m) (be_nat d)"
proof
  assume "block_bytes enc m = Some d"
  then obtain ds where ds: "list_all (\<lambda>d. d < 58) ds" "rev enc = map ((!) alphabet) ds"
    and x: "le58 ds < 256 ^ m" "d = nat_to_be m (le58 ds)"
    by (auto simp: block_bytes_def letter_digits_iff split: option.splits if_splits)
  have "length ds = encoded_block_sizes ! m" using ds(2) assms(3) by (metis length_map length_rev)
  then have "to58 (encoded_block_sizes ! m) (le58 ds) = ds" using to58_le58 [OF ds(1)] by simp
  moreover have "be_nat d = le58 ds" using x by (simp add: be_nat_to_be)
  ultimately have "rev enc = rev (text58 (encoded_block_sizes ! m) (be_nat d))" using ds(2) by (simp add: text58_def)
  then show "length d = m \<and> enc = text58 (encoded_block_sizes ! m) (be_nat d)" using x by simp
next
  assume d: "length d = m \<and> enc = text58 (encoded_block_sizes ! m) (be_nat d)"
  let ?ds = "to58 (encoded_block_sizes ! m) (be_nat d)"
  have b: "be_nat d < 256 ^ m" using be_nat_bound [of d] d by simp
  then have "be_nat d < 58 ^ (encoded_block_sizes ! m)" using block_sizes_fit [OF assms(1,2)] by linarith
  then have "le58 ?ds = be_nat d" by (simp add: le58_to58)
  moreover have "map_option_list letter_digit (rev enc) = Some ?ds"
    unfolding letter_digits_iff using d to58_digits by (simp add: text58_def)
  ultimately show "block_bytes enc m = Some d" using b d nat_to_be_be_nat [of d] by (simp add: block_bytes_def)
qed

subsection \<open>Texts block by block\<close>

text \<open>The encoding without a buffer: the abstract counterpart of \<open>encode\<close> and \<open>decode\<close>.\<close>

fun full_text :: "nat \<Rightarrow> bytes \<Rightarrow> bytes" where
  "full_text 0 d = []"
| "full_text (Suc k) d = text58 11 (be_nat (take 8 d)) @ full_text k (drop 8 d)"

definition base58_text :: "bytes \<Rightarrow> bytes" where
  "base58_text d =
     full_text (length d div 8) d @
     text58 (encoded_block_sizes ! (length d mod 8)) (be_nat (drop (length d div 8 * 8) d))"

fun full_bytes :: "nat \<Rightarrow> bytes \<Rightarrow> bytes option" where
  "full_bytes 0 e = Some []"
| "full_bytes (Suc k) e =
     Option.bind (block_bytes (take 11 e) 8) (\<lambda>b. map_option ((@) b) (full_bytes k (drop 11 e)))"

lemma length_full_text [simp]: "length (full_text k d) = 11 * k"
  by (induction k arbitrary: d) simp_all

lemma encode_blocks_text:
  "length pre = 11 * i \<Longrightarrow> 8 * (i + k) \<le> length data \<Longrightarrow>
    encode_blocks k i data (pre @ replicate (11 * k) (alphabet ! 0) @ rest) =
      Some (pre @ full_text k (drop (8 * i) data) @ rest)"
proof (induction k arbitrary: i pre)
  case (Suc k)
  let ?a = "alphabet ! 0" and ?t = "text58 11 (be_nat (take 8 (drop (8 * i) data)))"
  have "replicate (11 * Suc k) ?a = replicate 11 ?a @ replicate (11 * k) ?a"
    by (simp add: replicate_add [symmetric])
  moreover have "encode_block (drop (8 * i) data) 8 (replicate 11 ?a @ replicate (11 * k) ?a @ rest) =
      Some (?t @ replicate (11 * k) ?a @ rest)"
    using encode_block_text [of 8 "drop (8 * i) data" "replicate (11 * k) ?a @ rest"] Suc.prems(2)
    by (simp add: encoded_block_sizes_def)
  moreover have "encode_blocks k (i + 1) data ((pre @ ?t) @ replicate (11 * k) ?a @ rest) =
      Some ((pre @ ?t) @ full_text k (drop (8 * (i + 1)) data) @ rest)"
    using Suc.prems by (intro Suc.IH) simp_all
  ultimately show ?case
    using Suc.prems(1) by (simp add: full_block_size_def full_encoded_block_size_def mult.commute add.commute)
qed simp

lemma encode_text: "encode data = Some (base58_text data)"
proof (cases "data = []")
  case False
  let ?k = "length data div 8" and ?l = "length data mod 8" and ?a = "alphabet ! 0"
  have len: "length data = ?k * 8 + ?l" by simp
  have r: "replicate (?k * 11 + n) ?a = [] @ replicate (11 * ?k) ?a @ replicate n ?a" for n
    by (simp add: replicate_add [symmetric] mult.commute)
  have b: "encode_blocks ?k 0 data (replicate (?k * 11 + n) ?a) = Some (full_text ?k data @ replicate n ?a)" for n
    using encode_blocks_text [of "[]" 0 ?k data "replicate n ?a"] unfolding r by simp
  show ?thesis
  proof (cases "?l = 0")
    case True
    then show ?thesis using False b [of 0]
      by (simp add: encode_def base58_text_def Let_def full_block_size_def full_encoded_block_size_def encoded_block_sizes_def
          text58_def)
  next
    case l: False
    have "encode_block (drop (?k * 8) data) ?l (replicate (encoded_block_sizes ! ?l) ?a) =
        Some (text58 (encoded_block_sizes ! ?l) (be_nat (drop (?k * 8) data)))"
    proof -
      have "length (drop (?k * 8) data) = ?l" by (simp add: minus_div_mult_eq_mod)
      moreover have "1 \<le> ?l" "?l \<le> 8" using l by simp_all
      ultimately show ?thesis using encode_block_text [of ?l "drop (?k * 8) data" "[]"] by simp
    qed
    then show ?thesis using False l b [of "encoded_block_sizes ! ?l"]
      by (simp add: encode_def base58_text_def Let_def full_block_size_def full_encoded_block_size_def mult.commute)
  qed
qed (simp add: encode_def base58_text_def encoded_block_sizes_def text58_def)

lemma full_bytes_length: "full_bytes k e = Some d \<Longrightarrow> 11 * k \<le> length e \<Longrightarrow> length d = 8 * k"
proof (induction k arbitrary: e d)
  case (Suc k)
  then obtain b d' where "block_bytes (take 11 e) 8 = Some b" "full_bytes k (drop 11 e) = Some d'" "d = b @ d'" by auto
  moreover have "length (take 11 e) = encoded_block_sizes ! 8" using Suc.prems by (simp add: encoded_block_sizes_def)
  ultimately show ?case using Suc.IH [of "drop 11 e" d'] Suc.prems by (simp add: block_bytes_iff)
qed simp

lemma decode_blocks_bytes:
  "length pre = 8 * i \<Longrightarrow> 11 * (i + k) \<le> length enc \<Longrightarrow>
    decode_blocks k i enc (pre @ replicate (8 * k) 0 @ rest) =
      map_option (\<lambda>d. pre @ d @ rest) (full_bytes k (drop (11 * i) enc))"
proof (induction k arbitrary: i pre)
  case (Suc k)
  have dbs: "decoded_block_sizes 11 = int 8" unfolding decoded_block_sizes_def decoded_block_sizes_data_def by code_simp
  have "replicate (8 * Suc k) (0 :: u8) = replicate 8 0 @ replicate (8 * k) 0"
    by (simp add: replicate_add [symmetric])
  moreover have "decode_block (drop (11 * i) enc) 11 (replicate 8 0 @ replicate (8 * k) 0 @ rest) =
      map_option (\<lambda>b. b @ replicate (8 * k) 0 @ rest) (block_bytes (take 11 (drop (11 * i) enc)) 8)"
    using decode_block_bytes [OF _ _ _ dbs, of "drop (11 * i) enc" "replicate 8 0 @ replicate (8 * k) 0 @ rest"] Suc.prems(2)
    by simp
  moreover have "decode_blocks k (i + 1) enc ((pre @ b) @ replicate (8 * k) 0 @ rest) =
      map_option (\<lambda>d. (pre @ b) @ d @ rest) (full_bytes k (drop (11 * (i + 1)) enc))"
    if "block_bytes (take 11 (drop (11 * i) enc)) 8 = Some b" for b
  proof (rule Suc.IH)
    have "length (take 11 (drop (11 * i) enc)) = encoded_block_sizes ! 8"
      using Suc.prems by (simp add: encoded_block_sizes_def)
    then show "length (pre @ b) = 8 * (i + 1)" using that Suc.prems(1) by (simp add: block_bytes_iff)
  qed (use Suc.prems in simp)
  ultimately show ?case
    using Suc.prems(1)
    by (cases "block_bytes (take 11 (drop (11 * i) enc)) 8")
      (simp_all add: full_block_size_def full_encoded_block_size_def mult.commute add.commute option.map_comp comp_def)
qed simp

lemma full_text_append: "length d = 8 * k \<Longrightarrow> full_text k (d @ d') = full_text k d"
  by (induction k arbitrary: d) simp_all

lemma full_bytes_iff:
  "11 * k \<le> length e \<Longrightarrow> full_bytes k e = Some d \<longleftrightarrow> length d = 8 * k \<and> take (11 * k) e = full_text k d"
proof (induction k arbitrary: e d)
  case (Suc k)
  let ?b = "take 8 d" and ?c = "drop 8 d"
  have l: "length (take 11 e) = encoded_block_sizes ! 8" using Suc.prems by (simp add: encoded_block_sizes_def)
  have b: "block_bytes (take 11 e) 8 = Some b \<longleftrightarrow> length b = 8 \<and> take 11 e = text58 11 (be_nat b)" for b
    using block_bytes_iff [OF _ _ l] by (simp add: encoded_block_sizes_def)
  have t: "take (11 * Suc k) e = take 11 e @ take (11 * k) (drop 11 e)"
    using take_add [of 11 "11 * k" e] by simp
  have IH: "full_bytes k (drop 11 e) = Some c \<longleftrightarrow> length c = 8 * k \<and> take (11 * k) (drop 11 e) = full_text k c" for c
    using Suc.prems by (intro Suc.IH) simp
  have "full_bytes (Suc k) e = Some d \<longleftrightarrow>
      (\<exists>b c. d = b @ c \<and> block_bytes (take 11 e) 8 = Some b \<and> full_bytes k (drop 11 e) = Some c)" by auto
  also have "\<dots> \<longleftrightarrow> (\<exists>b c. d = b @ c \<and> length b = 8 \<and> length c = 8 * k \<and>
      take 11 e = text58 11 (be_nat b) \<and> take (11 * k) (drop 11 e) = full_text k c)" unfolding b IH by blast
  also have "\<dots> \<longleftrightarrow> length d = 8 * Suc k \<and> take 11 e = text58 11 (be_nat ?b) \<and> take (11 * k) (drop 11 e) = full_text k ?c"
  proof
    assume r: "length d = 8 * Suc k \<and> take 11 e = text58 11 (be_nat ?b) \<and> take (11 * k) (drop 11 e) = full_text k ?c"
    show "\<exists>b c. d = b @ c \<and> length b = 8 \<and> length c = 8 * k \<and>
      take 11 e = text58 11 (be_nat b) \<and> take (11 * k) (drop 11 e) = full_text k c"
      using r by (intro exI [of _ ?b] exI [of _ ?c]) simp
  qed auto
  also have "\<dots> \<longleftrightarrow> length d = 8 * Suc k \<and> take (11 * Suc k) e = full_text (Suc k) d"
    unfolding t using Suc.prems by auto
  finally show ?case .
qed auto

lemma decoded_block_sizes_iff:
  assumes "n < 11" "0 \<le> decoded_block_sizes n"
  shows "nat (decoded_block_sizes n) < 8 \<and> encoded_block_sizes ! nat (decoded_block_sizes n) = n \<and>
    (n = 0 \<longleftrightarrow> nat (decoded_block_sizes n) = 0)"
proof -
  have "list_all (\<lambda>n. decoded_block_sizes n < 0 \<or> nat (decoded_block_sizes n) < 8 \<and>
      encoded_block_sizes ! nat (decoded_block_sizes n) = n \<and> (n = 0 \<longleftrightarrow> nat (decoded_block_sizes n) = 0)) [0..<11]"
    unfolding decoded_block_sizes_def decoded_block_sizes_data_def encoded_block_sizes_def by code_simp
  from list_all_uptD [OF this assms(1)] assms(2) show ?thesis by simp
qed

lemma encoded_block_sizes_iff:
  assumes "m < 8"
  shows "encoded_block_sizes ! m < 11 \<and> decoded_block_sizes (encoded_block_sizes ! m) = int m"
proof -
  have "list_all (\<lambda>m. encoded_block_sizes ! m < 11 \<and> decoded_block_sizes (encoded_block_sizes ! m) = int m) [0..<8]"
    unfolding decoded_block_sizes_def decoded_block_sizes_data_def encoded_block_sizes_def by code_simp
  from list_all_uptD [OF this assms] show ?thesis .
qed

lemma decode_bytes:
  fixes enc :: bytes
  defines "k \<equiv> length enc div 11" and "l \<equiv> length enc mod 11"
  defines "m \<equiv> nat (decoded_block_sizes l)"
  shows "decode enc =
    (if decoded_block_sizes l < 0 then None
     else Option.bind (full_bytes k enc)
       (\<lambda>b. if l = 0 then Some b else map_option ((@) b) (block_bytes (drop (11 * k) enc) m)))"
proof (cases "enc = [] \<or> decoded_block_sizes l < 0")
  case True
  have "0 \<le> decoded_block_sizes 0" unfolding decoded_block_sizes_def decoded_block_sizes_data_def by code_simp
  then show ?thesis using True
    by (auto simp: decode_def k_def l_def full_encoded_block_size_def Let_def)
next
  case False
  have l: "l < 11" and len: "length enc = 11 * k + l" by (simp_all add: l_def k_def)
  have m: "decoded_block_sizes l = int m" "m < 8" "l = 0 \<longleftrightarrow> m = 0"
    using decoded_block_sizes_iff [OF l] False by (auto simp: m_def)
  have "replicate (k * 8 + m) (0 :: u8) = [] @ replicate (8 * k) 0 @ replicate m 0"
    by (simp add: replicate_add [symmetric] mult.commute)
  then have b: "decode_blocks k 0 enc (replicate (k * 8 + m) 0) = map_option (\<lambda>d. d @ replicate m 0) (full_bytes k enc)"
    using decode_blocks_bytes [of "[]" 0 k enc "replicate m 0"] len by simp
  have d: "decode enc = Option.bind (decode_blocks k 0 enc (replicate (k * 8 + m) 0))
      (\<lambda>data. if 0 < l
         then map_option (\<lambda>r. take (k * 8) data @ r) (decode_block (drop (k * 11) enc) l (drop (k * 8) data))
         else Some data)"
    using False unfolding k_def l_def m_def decode_def Let_def full_encoded_block_size_def full_block_size_def by simp
  show ?thesis
  proof (cases "full_bytes k enc")
    case None
    then show ?thesis unfolding d b using False by simp
  next
    case (Some bs)
    then have lb: "length bs = 8 * k" using full_bytes_length len by simp
    show ?thesis
    proof (cases "l = 0")
      case True
      then show ?thesis unfolding d b using False Some m by simp
    next
      case l0: False
      have "decode_block (drop (11 * k) enc) l (replicate m 0) = block_bytes (drop (11 * k) enc) m"
        using decode_block_bytes [of l "drop (11 * k) enc" m "replicate m 0"] l0 l len m by (simp add: option.map_ident)
      then show ?thesis unfolding d b using False Some l0 lb by (simp add: mult.commute)
    qed
  qed
qed

lemma decode_iff: "decode enc = Some d \<longleftrightarrow> base58_text d = enc"
proof
  assume "decode enc = Some d"
  define k where "k = length enc div 11"
  define l where "l = length enc mod 11"
  define m where "m = nat (decoded_block_sizes l)"
  have l: "l < 11" and len: "length enc = 11 * k + l" by (simp_all add: l_def k_def)
  from \<open>decode enc = Some d\<close> obtain b where nn: "\<not> decoded_block_sizes l < 0" and b: "full_bytes k enc = Some b"
    and d: "(if l = 0 then Some b else map_option ((@) b) (block_bytes (drop (11 * k) enc) m)) = Some d"
    unfolding decode_bytes k_def [symmetric] l_def [symmetric] m_def [symmetric]
    by (auto simp del: if_split_asm split: if_split_asm)
  have m: "m < 8" "encoded_block_sizes ! m = l" "l = 0 \<longleftrightarrow> m = 0"
    using decoded_block_sizes_iff [OF l] nn by (auto simp: m_def)
  have bb: "length b = 8 * k" "take (11 * k) enc = full_text k b" using b len by (simp_all add: full_bytes_iff)
  obtain c where c: "d = b @ c" "length c = m" "drop (11 * k) enc = text58 l (be_nat c)"
  proof (cases "l = 0")
    case True
    then show thesis using that [of "[]"] d len m by (simp add: text58_def)
  next
    case False
    then obtain c where "block_bytes (drop (11 * k) enc) m = Some c" "d = b @ c" using d by auto
    then show thesis
      using that [of c] block_bytes_iff [of m "drop (11 * k) enc" c] m False len by (simp add: Suc_le_eq)
  qed
  have "length d div 8 = k" "length d mod 8 = m" using c bb m(1) by simp_all
  then have "base58_text d = take (11 * k) enc @ drop (11 * k) enc"
    unfolding c(3) bb(2) using c bb m(2) by (simp add: base58_text_def full_text_append mult.commute)
  then show "base58_text d = enc" by simp
next
  assume e: "base58_text d = enc"
  define k where "k = length d div 8"
  define m where "m = length d mod 8"
  let ?b = "take (8 * k) d" and ?c = "drop (8 * k) d"
  have m: "m < 8" and len: "length d = 8 * k + m" by (simp_all add: m_def k_def)
  note tab = encoded_block_sizes_iff [OF m]
  have enc: "enc = full_text k ?b @ text58 (encoded_block_sizes ! m) (be_nat ?c)"
    using e full_text_append [of ?b k ?c] len
    unfolding base58_text_def k_def [symmetric] m_def [symmetric] by (simp add: mult.commute)
  then have le: "length enc = 11 * k + encoded_block_sizes ! m" by simp
  then have kl: "length enc div 11 = k" "length enc mod 11 = encoded_block_sizes ! m" using tab by simp_all
  have b: "full_bytes k enc = Some ?b" using le len enc by (subst full_bytes_iff) simp_all
  show "decode enc = Some d"
  proof (cases "m = 0")
    case True
    then have "encoded_block_sizes ! m = 0" by (simp add: encoded_block_sizes_def)
    then show ?thesis unfolding decode_bytes kl using b tab True len by simp
  next
    case False
    then have "encoded_block_sizes ! m \<noteq> 0"
      using tab decoded_block_sizes_iff [of "encoded_block_sizes ! m"] by auto
    moreover have "block_bytes (drop (11 * k) enc) m = Some ?c"
      using block_bytes_iff [of m "drop (11 * k) enc" ?c] False m le enc len by simp
    ultimately show ?thesis unfolding decode_bytes kl using b tab by simp
  qed
qed

subsection \<open>Addresses\<close>

definition addr_payload :: "u64 \<Rightarrow> bytes \<Rightarrow> bytes" where
  "addr_payload tag data = write_varint tag @ data"

lemma encode_addr_text:
  "encode_addr tag data =
    Some (base58_text (addr_payload tag data @ take 4 (cn_fast_hash (addr_payload tag data))))"
  by (simp add: encode_addr_def Let_def get_varint_data_def addr_payload_def encode_text addr_checksum_size_def)

lemma decode_encode_addr: "encode_addr tag data = Some addr \<Longrightarrow> decode_addr addr = Some (tag, data)"
proof -
  let ?p = "addr_payload tag data"
  let ?h = "take 4 (cn_fast_hash ?p)"
  assume "encode_addr tag data = Some addr"
  then have "decode addr = Some (?p @ ?h)" by (simp add: encode_addr_text decode_iff)
  moreover have "length ?h = 4" by (simp add: HASH_SIZE_def)
  moreover have "?p \<noteq> []" by (simp add: addr_payload_def)
  ultimately show ?thesis
    using read_varint_write [of tag data]
    by (simp add: decode_addr_def Let_def addr_checksum_size_def) (simp add: addr_payload_def)
qed

lemma encode_decode_addr:
  assumes "decode_addr addr = Some (tag, data)" and "data \<noteq> []"
  shows "encode_addr tag data = Some addr"
proof -
  from assms(1) obtain D where D: "decode addr = Some D" "4 < length D"
    by (auto simp: decode_addr_def addr_checksum_size_def split: option.splits if_splits)
  define P where "P = take (length D - 4) D"
  obtain n rest and tag' :: u64 where r: "read_varint P = (n, tag', rest)" by (metis prod_cases3)
  from assms(1) D r have h: "take 4 (cn_fast_hash P) = drop (length D - 4) D"
    and n: "0 < n" "tag' = tag" "data = drop (nat n) P"
    by (auto simp: decode_addr_def addr_checksum_size_def Let_def P_def split: if_splits)
  have "P = write_varint tag @ rest \<and> n = int (length (write_varint tag))"
    using read_varint_accepts_only_encodings [of P n tag rest] r n assms(2) by auto
  then have "P = addr_payload tag data" using n(3) by (simp add: addr_payload_def)
  moreover have "D = P @ take 4 (cn_fast_hash P)" unfolding h by (simp add: P_def)
  moreover have "base58_text D = addr" using D(1) by (simp add: decode_iff)
  ultimately show ?thesis by (simp add: encode_addr_text)
qed

subsection \<open>Properties\<close>

text \<open>C21: \<open>encode\<close> always returns, and \<open>decode\<close> accepts exactly the texts that \<open>encode\<close> writes: a text decodes to some
  data exactly when it is the encoding of the data. So no two data share a text, no text has a second spelling, and
  wrong letters, wrong lengths and overflowing blocks are refused.\<close>
theorem base58_exact:
  "encode data \<noteq> None \<and> (decode text = Some data \<longleftrightarrow> encode data = Some text)"
  by (auto simp: encode_text decode_iff)

text \<open>C22: The text of an address gives back its tag and its data, and no other text does: whatever \<open>decode_addr\<close> accepts
  with some data is what \<open>encode_addr\<close> writes for it, checksum and canonical tag included.\<close>
theorem address_roundtrip:
  assumes "data \<noteq> []"
  shows "decode_addr addr = Some (tag, data) \<longleftrightarrow> encode_addr tag data = Some addr"
  using decode_encode_addr encode_decode_addr [OF _ assms] by blast

lemma address_roundtrip_witness:
  "\<exists>addr. encode_addr 99 [1, 2, 3] = Some addr \<and> decode_addr addr = Some (99, [1, 2, 3])"
proof -
  obtain addr where "encode_addr 99 [1, 2, 3] = Some addr" using encode_addr_text by blast
  then show ?thesis using address_roundtrip [of "[1, 2, 3]" addr 99] by auto
qed

end
