(* ===== verification/Peerlist.thy ===== *)
theory Peerlist
  imports LimbMachine "HOL-Library.Multiset"
begin

section \<open>Peers (p2p/net_peerlist.h, p2p/net_node.inl, net/local_ip.h)\<close>

text \<open>
  The white and the gray list of known peers, the addresses a node refuses and the clocks of its peers. A
  \<open>multi_index_container\<close> is the list of its entries in the order of its index \<open>by_time\<close>, oldest first; where among
  entries of the same time a new one goes is up to the container, so inserting and replacing are parameters
  with their contract as a locale. A \<open>time_t\<close> is an integer and the clock an argument. The theorems: every reachable
  pair of lists is ordered, disjoint, within its limits and free of loopback addresses, through restarts with
  any configuration; what a peer is told are
  the peers seen last; the set of exceptions for blocked addresses stays small.
\<close>

subsection \<open>Addresses\<close>

definition is_ip_local :: "u32 \<Rightarrow> bool" where
  "is_ip_local ip =
     (if ip OR 0xffffff00 = 0xffffff0a then True
      else if ip OR 0xffff0000 = 0xffffa8c0 then True
      else if ip OR 0xffffff00 = 0xffffffac
      then let second_num = push_bit 8 ip AND 0xff000000 in 16 \<le> second_num \<and> second_num \<le> 31
      else False)"

definition is_ip_loopback :: "u32 \<Rightarrow> bool" where
  "is_ip_loopback ip \<longleftrightarrow> ip OR 0xffffff00 = 0xffffff7f"

record net_address =
  ip :: u32
  port :: u32

record peerlist_entry =
  adr :: net_address
  peer_id :: u64
  last_seen :: int

subsection \<open>The container\<close>

text \<open>\<open>get<by_addr>().find(adr)\<close> and \<open>erase\<close> of what it found; addresses are unique.\<close>

definition find_adr :: "net_address \<Rightarrow> peerlist_entry list \<Rightarrow> peerlist_entry option" where
  "find_adr a es = find (\<lambda>e. adr e = a) es"

definition erase_adr :: "net_address \<Rightarrow> peerlist_entry list \<Rightarrow> peerlist_entry list" where
  "erase_adr a es = filter (\<lambda>e. adr e \<noteq> a) es"

definition by_time :: "peerlist_entry list \<Rightarrow> bool" where
  "by_time es \<longleftrightarrow> sorted (map last_seen es) \<and> distinct (map adr es)"

text \<open>What \<open>insert\<close> of a new address and \<open>replace\<close> of a present one promise.\<close>

locale peers_index =
  fixes ins rep :: "peerlist_entry \<Rightarrow> peerlist_entry list \<Rightarrow> peerlist_entry list"
  assumes ins_entries: "by_time es \<Longrightarrow> find_adr (adr e) es = None \<Longrightarrow> mset (ins e es) = add_mset e (mset es)"
    and ins_sorted: "by_time es \<Longrightarrow> find_adr (adr e) es = None \<Longrightarrow> sorted (map last_seen (ins e es))"
    and rep_entries: "by_time es \<Longrightarrow> find_adr (adr e) es \<noteq> None \<Longrightarrow>
      mset (rep e es) = add_mset e (mset (erase_adr (adr e) es))"
    and rep_sorted: "by_time es \<Longrightarrow> find_adr (adr e) es \<noteq> None \<Longrightarrow> sorted (map last_seen (rep e es))"

text \<open>Behind the entries that are not later; a replacement takes the old entry out first.\<close>

definition insert_by_time :: "peerlist_entry \<Rightarrow> peerlist_entry list \<Rightarrow> peerlist_entry list" where
  "insert_by_time e es =
     takeWhile (\<lambda>x. last_seen x \<le> last_seen e) es @ e # dropWhile (\<lambda>x. last_seen x \<le> last_seen e) es"

definition replace_by_time :: "peerlist_entry \<Rightarrow> peerlist_entry list \<Rightarrow> peerlist_entry list" where
  "replace_by_time e es = insert_by_time e (erase_adr (adr e) es)"

subsection \<open>The peer lists\<close>

definition P2P_LOCAL_WHITE_PEERLIST_LIMIT :: nat where "P2P_LOCAL_WHITE_PEERLIST_LIMIT = 1000"
definition P2P_LOCAL_GRAY_PEERLIST_LIMIT :: nat where "P2P_LOCAL_GRAY_PEERLIST_LIMIT = 5000"
definition P2P_DEFAULT_PEERS_IN_HANDSHAKE :: u32 where "P2P_DEFAULT_PEERS_IN_HANDSHAKE = 250"

record peerlist_manager =
  allow_local_ip :: bool
  peers_gray :: "peerlist_entry list"
  peers_white :: "peerlist_entry list"

definition get_white_peers_count :: "peerlist_manager \<Rightarrow> nat" where
  "get_white_peers_count pm = length (peers_white pm)"

definition get_gray_peers_count :: "peerlist_manager \<Rightarrow> nat" where
  "get_gray_peers_count pm = length (peers_gray pm)"

definition peerlist_init :: "int \<Rightarrow> bool \<Rightarrow> peerlist_manager \<Rightarrow> peerlist_manager" where
  "peerlist_init now allow pm =
     pm\<lparr>allow_local_ip := allow,
       peers_white := (if \<exists>e \<in> set (peers_white pm). now < last_seen e then [] else peers_white pm),
       peers_gray := (if \<exists>e \<in> set (peers_gray pm). now < last_seen e then [] else peers_gray pm)\<rparr>"

text \<open>\<open>while (size() > limit) erase(begin());\<close>\<close>

fun trim_oldest :: "nat \<Rightarrow> peerlist_entry list \<Rightarrow> peerlist_entry list" where
  "trim_oldest limit [] = []"
| "trim_oldest limit (e # es) = (if limit < length (e # es) then trim_oldest limit es else e # es)"

definition trim_gray_peerlist :: "peerlist_manager \<Rightarrow> peerlist_manager" where
  "trim_gray_peerlist pm = pm\<lparr>peers_gray := trim_oldest P2P_LOCAL_GRAY_PEERLIST_LIMIT (peers_gray pm)\<rparr>"

definition trim_white_peerlist :: "peerlist_manager \<Rightarrow> peerlist_manager" where
  "trim_white_peerlist pm = pm\<lparr>peers_white := trim_oldest P2P_LOCAL_WHITE_PEERLIST_LIMIT (peers_white pm)\<rparr>"

definition is_ip_allowed :: "peerlist_manager \<Rightarrow> u32 \<Rightarrow> bool" where
  "is_ip_allowed pm a =
     (if is_ip_loopback a then False
      else if \<not> allow_local_ip pm \<and> is_ip_local a then False
      else True)"

definition append_with_peer_white ::
    "(peerlist_entry \<Rightarrow> peerlist_entry list \<Rightarrow> peerlist_entry list) \<Rightarrow>
     (peerlist_entry \<Rightarrow> peerlist_entry list \<Rightarrow> peerlist_entry list) \<Rightarrow> peerlist_entry \<Rightarrow> peerlist_manager \<Rightarrow> peerlist_manager" where
  "append_with_peer_white ins rep ple pm =
     (if \<not> is_ip_allowed pm (ip (adr ple)) then pm
      else
        let pm = (if find_adr (adr ple) (peers_white pm) = None
                  then trim_white_peerlist (pm\<lparr>peers_white := ins ple (peers_white pm)\<rparr>)
                  else pm\<lparr>peers_white := rep ple (peers_white pm)\<rparr>)
        in if find_adr (adr ple) (peers_gray pm) \<noteq> None
           then pm\<lparr>peers_gray := erase_adr (adr ple) (peers_gray pm)\<rparr>
           else pm)"

definition append_with_peer_gray ::
    "(peerlist_entry \<Rightarrow> peerlist_entry list \<Rightarrow> peerlist_entry list) \<Rightarrow>
     (peerlist_entry \<Rightarrow> peerlist_entry list \<Rightarrow> peerlist_entry list) \<Rightarrow> peerlist_entry \<Rightarrow> peerlist_manager \<Rightarrow> peerlist_manager" where
  "append_with_peer_gray ins rep ple pm =
     (if \<not> is_ip_allowed pm (ip (adr ple)) then pm
      else if find_adr (adr ple) (peers_white pm) \<noteq> None then pm
      else if find_adr (adr ple) (peers_gray pm) = None
      then trim_gray_peerlist (pm\<lparr>peers_gray := ins ple (peers_gray pm)\<rparr>)
      else pm\<lparr>peers_gray := rep ple (peers_gray pm)\<rparr>)"

definition merge_peerlist ::
    "(peerlist_entry \<Rightarrow> peerlist_entry list \<Rightarrow> peerlist_entry list) \<Rightarrow>
     (peerlist_entry \<Rightarrow> peerlist_entry list \<Rightarrow> peerlist_entry list) \<Rightarrow> peerlist_entry list \<Rightarrow> peerlist_manager \<Rightarrow> peerlist_manager" where
  "merge_peerlist ins rep outer_bs pm = trim_gray_peerlist (fold (append_with_peer_gray ins rep) outer_bs pm)"

definition set_peer_just_seen ::
    "(peerlist_entry \<Rightarrow> peerlist_entry list \<Rightarrow> peerlist_entry list) \<Rightarrow>
     (peerlist_entry \<Rightarrow> peerlist_entry list \<Rightarrow> peerlist_entry list) \<Rightarrow> int \<Rightarrow> u64 \<Rightarrow> net_address \<Rightarrow> peerlist_manager \<Rightarrow> peerlist_manager" where
  "set_peer_just_seen ins rep now peer addr pm =
     append_with_peer_white ins rep \<lparr>adr = addr, peer_id = peer, last_seen = now\<rparr> pm"

text \<open>\<open>*std::prev(--by_time_index.end(), i)\<close>\<close>

definition get_white_peer_by_index :: "peerlist_manager \<Rightarrow> nat \<Rightarrow> peerlist_entry option" where
  "get_white_peer_by_index pm i =
     (if length (peers_white pm) \<le> i then None else Some (rev (peers_white pm) ! i))"

definition get_gray_peer_by_index :: "peerlist_manager \<Rightarrow> nat \<Rightarrow> peerlist_entry option" where
  "get_gray_peer_by_index pm i =
     (if length (peers_gray pm) \<le> i then None else Some (rev (peers_gray pm) ! i))"

fun head_loop :: "u32 \<Rightarrow> u32 \<Rightarrow> peerlist_entry list \<Rightarrow> peerlist_entry list" where
  "head_loop depth cnt [] = []"
| "head_loop depth cnt (vl # vls) =
     (if last_seen vl = 0 then head_loop depth cnt vls
      else vl # (if depth < cnt then [] else head_loop depth (cnt + 1) vls))"

definition get_peerlist_head :: "peerlist_manager \<Rightarrow> u32 \<Rightarrow> peerlist_entry list" where
  "get_peerlist_head pm depth = head_loop depth 0 (rev (peers_white pm))"

definition get_peerlist_full :: "peerlist_manager \<Rightarrow> peerlist_entry list \<times> peerlist_entry list" where
  "get_peerlist_full pm = (rev (peers_gray pm), rev (peers_white pm))"

text \<open>\<open>peers_indexed_from_old\<close>: entries of the old container whose address is new.\<close>

definition peers_indexed_from_old ::
    "(peerlist_entry \<Rightarrow> peerlist_entry list \<Rightarrow> peerlist_entry list) \<Rightarrow> peerlist_entry list \<Rightarrow> peerlist_entry list \<Rightarrow> peerlist_entry list" where
  "peers_indexed_from_old ins pio pi =
     fold (\<lambda>x pi. if find_adr (adr x) pi = None then ins x pi else pi) pio pi"

subsection \<open>Lists of remote peers\<close>

text \<open>\<open>fix_time_delta\<close>; \<open>None\<close> is the result \<open>false\<close> for an entry from the future.\<close>

fun shift_times :: "int \<Rightarrow> int \<Rightarrow> peerlist_entry list \<Rightarrow> peerlist_entry list option" where
  "shift_times local_time delta [] = Some []"
| "shift_times local_time delta (be # bes) =
     (if local_time < last_seen be then None
      else map_option ((#) (be\<lparr>last_seen := int64 (last_seen be + delta)\<rparr>)) (shift_times local_time delta bes))"

definition fix_time_delta :: "int \<Rightarrow> int \<Rightarrow> peerlist_entry list \<Rightarrow> (peerlist_entry list \<times> int) option" where
  "fix_time_delta now local_time local_peerlist =
     (let delta = int64 (now - local_time)
      in map_option (\<lambda>es. (es, delta)) (shift_times local_time delta local_peerlist))"

definition handle_remote_peerlist ::
    "(peerlist_entry \<Rightarrow> peerlist_entry list \<Rightarrow> peerlist_entry list) \<Rightarrow>
     (peerlist_entry \<Rightarrow> peerlist_entry list \<Rightarrow> peerlist_entry list) \<Rightarrow> int \<Rightarrow> peerlist_entry list \<Rightarrow> int \<Rightarrow> peerlist_manager \<Rightarrow>
     bool \<times> peerlist_manager" where
  "handle_remote_peerlist ins rep now pl local_time pm =
     (case fix_time_delta now local_time pl of
        None \<Rightarrow> (False, pm)
      | Some (pl', delta) \<Rightarrow> (True, merge_peerlist ins rep pl' pm))"

subsection \<open>Choosing and refusing addresses\<close>

definition get_random_index_with_fixed_probability :: "u64 \<Rightarrow> u64 \<Rightarrow> u64" where
  "get_random_index_with_fixed_probability rnd max_index =
     (if max_index = 0 then 0
      else let x = rnd mod (max_index + 1) in (x * x * x) div (max_index * max_index))"

definition P2P_IP_BLOCKTIME :: int where "P2P_IP_BLOCKTIME = 60 * 60 * 24"
definition P2P_IP_FAILS_BEFOR_BLOCK :: u64 where "P2P_IP_FAILS_BEFOR_BLOCK = 2"
definition P2P_ALLOWED_BLOCKLIST_MAX_SIZE :: nat where "P2P_ALLOWED_BLOCKLIST_MAX_SIZE = 2"
definition P2P_FAILED_ADDR_FORGET_SECONDS :: int where "P2P_FAILED_ADDR_FORGET_SECONDS = 60 * 5"

record address_rules =
  offline_mode :: bool
  conn_fails_cache :: "net_address \<Rightarrow> int option"
  blocked_ips :: "net_address \<Rightarrow> int option"
  allowed_blocked_ips :: "net_address list"
  ip_fails_score :: "net_address \<Rightarrow> u64"

definition cache_connect_fail_info :: "int \<Rightarrow> net_address \<Rightarrow> address_rules \<Rightarrow> address_rules" where
  "cache_connect_fail_info now addr ar = ar\<lparr>conn_fails_cache := (conn_fails_cache ar)(addr \<mapsto> now)\<rparr>"

definition is_addr_recently_failed :: "int \<Rightarrow> net_address \<Rightarrow> address_rules \<Rightarrow> bool" where
  "is_addr_recently_failed now addr ar =
     (case conn_fails_cache ar addr of
        None \<Rightarrow> False
      | Some t \<Rightarrow> if P2P_FAILED_ADDR_FORGET_SECONDS < now - t then False else True)"

definition is_address_allowed :: "int \<Rightarrow> net_address \<Rightarrow> address_rules \<Rightarrow> bool \<times> address_rules" where
  "is_address_allowed now address ar =
     (if offline_mode ar then (False, ar)
      else (case blocked_ips ar address of
              None \<Rightarrow> (True, ar)
            | Some t \<Rightarrow>
                if P2P_IP_BLOCKTIME < now - t
                then (True, ar\<lparr>blocked_ips := (blocked_ips ar)(address := None),
                              allowed_blocked_ips := removeAll address (allowed_blocked_ips ar)\<rparr>)
                else if address \<in> set (allowed_blocked_ips ar) then (True, ar)
                else if length (allowed_blocked_ips ar) < P2P_ALLOWED_BLOCKLIST_MAX_SIZE
                then (True, ar\<lparr>allowed_blocked_ips := address # allowed_blocked_ips ar\<rparr>)
                else (False, ar)))"

definition block_address :: "int \<Rightarrow> net_address \<Rightarrow> address_rules \<Rightarrow> address_rules" where
  "block_address now address ar = ar\<lparr>blocked_ips := (blocked_ips ar)(address \<mapsto> now)\<rparr>"

definition address_blocked :: "net_address \<Rightarrow> address_rules \<Rightarrow> bool" where
  "address_blocked address ar \<longleftrightarrow> blocked_ips ar address \<noteq> None"

definition address_allowed_to_outgoing :: "net_address \<Rightarrow> address_rules \<Rightarrow> bool" where
  "address_allowed_to_outgoing address ar \<longleftrightarrow> address \<in> set (allowed_blocked_ips ar)"

definition add_address_fail :: "int \<Rightarrow> net_address \<Rightarrow> address_rules \<Rightarrow> address_rules" where
  "add_address_fail now address ar =
     (let fails = ip_fails_score ar address + 1;
          ar = ar\<lparr>ip_fails_score := (ip_fails_score ar)(address := fails)\<rparr>
      in if P2P_IP_FAILS_BEFOR_BLOCK < fails
         then block_address now address (ar\<lparr>ip_fails_score := (ip_fails_score ar)(address := 0)\<rparr>)
         else ar)"

definition clear_blocklist :: "address_rules \<Rightarrow> address_rules" where
  "clear_blocklist ar = ar\<lparr>blocked_ips := Map.empty, allowed_blocked_ips := []\<rparr>"

text \<open>\<open>connections_history<context_t, max_size>::add\<close>\<close>

fun pop_front_while :: "nat \<Rightarrow> 'a list \<Rightarrow> 'a list" where
  "pop_front_while max_size [] = []"
| "pop_front_while max_size (c # cs) = (if max_size < length (c # cs) then pop_front_while max_size cs else c # cs)"

definition history_add :: "nat \<Rightarrow> 'a \<Rightarrow> 'a list \<Rightarrow> 'a list" where
  "history_add max_size c history = pop_front_while max_size (history @ [c])"

subsection \<open>Addresses of local networks\<close>

lemma or_high_eq:
  fixes a :: u32
  assumes "n < 32" and "unat c < 2 ^ n"
  shows "a OR NOT (mask n) = NOT (mask n) OR c \<longleftrightarrow> unat a mod 2 ^ n = unat c"
proof -
  have c: "take_bit n c = c" using assms(2) by (simp add: word_unat_eq_iff unsigned_take_bit_eq take_bit_nat_eq_self)
  have "a OR NOT (mask n) = NOT (mask n) OR c \<longleftrightarrow> take_bit n a = take_bit n c"
    by (auto simp: bit_eq_iff bit_or_iff bit_not_iff bit_mask_iff bit_take_bit_iff)
  also have "\<dots> \<longleftrightarrow> unat a mod 2 ^ n = unat c"
    unfolding c by (simp add: word_unat_eq_iff trans [OF unsigned_take_bit_eq take_bit_eq_mod])
  finally show ?thesis .
qed

lemma ip_byte: "c < 256 \<Longrightarrow> ip OR 0xffffff00 = 0xffffff00 OR of_nat c \<longleftrightarrow> unat ip mod 256 = c" for ip :: u32
proof -
  assume "c < 256"
  moreover from this have "unat (of_nat c :: u32) = c" by (intro unat_of_nat_lt) simp
  moreover have "NOT (mask 8) = (0xffffff00 :: u32)" by (simp add: mask_eq_exp_minus_1)
  ultimately show ?thesis using or_high_eq [of 8 "of_nat c" ip] by simp
qed

lemma ip_pair: "c < 65536 \<Longrightarrow> ip OR 0xffff0000 = 0xffff0000 OR of_nat c \<longleftrightarrow> unat ip mod 65536 = c" for ip :: u32
proof -
  assume "c < 65536"
  moreover from this have "unat (of_nat c :: u32) = c" by (intro unat_of_nat_lt) simp
  moreover have "NOT (mask 16) = (0xffff0000 :: u32)" by (simp add: mask_eq_exp_minus_1)
  ultimately show ?thesis using or_high_eq [of 16 "of_nat c" ip] by simp
qed

lemma low_bits_clear:
  fixes x :: u32
  assumes "\<And>k. k < 24 \<Longrightarrow> \<not> bit x k"
  shows "\<not> (16 \<le> x \<and> x \<le> 31)"
proof -
  have "x = push_bit 24 (drop_bit 24 x)"
  proof (rule bit_word_eqI)
    fix k :: nat
    show "bit x k = bit (push_bit 24 (drop_bit 24 x)) k" if "k < LENGTH(32)"
      using that assms [of k] by (cases "k < 24") (simp_all add: bit_push_bit_iff bit_drop_bit_eq)
  qed
  then have "unat x = unat (drop_bit 24 x) * 2 ^ 24 mod 2 ^ 32" using unat_push_bit [of 24 "drop_bit 24 x"] by simp
  moreover have "unat (drop_bit 24 x) < 256"
    using unat_u32_lt [of x] by (simp add: unat_drop_bit less_mult_imp_div_less)
  ultimately have s: "unat x = unat (drop_bit 24 x) * 16777216" by simp
  show ?thesis unfolding word_le_nat_alt s by (cases "unat (drop_bit 24 x)") simp_all
qed

lemma second_num_never: "\<not> (16 \<le> push_bit 8 a AND 0xff000000 \<and> push_bit 8 a AND 0xff000000 \<le> (31 :: u32))"
proof (rule low_bits_clear)
  fix k :: nat
  assume "k < 24"
  moreover have "(0xff000000 :: u32) = push_bit 24 0xff" by simp
  ultimately show "\<not> bit (push_bit 8 a AND 0xff000000 :: u32) k" by (simp only: bit_and_iff bit_push_bit_iff) simp
qed

lemma is_ip_local_exact: "is_ip_local a \<longleftrightarrow> unat a mod 256 = 10 \<or> unat a mod 65536 = 192 + 256 * 168"
  using ip_byte [of 10 a] ip_pair [of "192 + 256 * 168" a] second_num_never [of a]
  by (auto simp: is_ip_local_def Let_def)

lemma is_ip_loopback_exact: "is_ip_loopback a \<longleftrightarrow> unat a mod 256 = 127"
  using ip_byte [of 127 a] by (simp add: is_ip_loopback_def)

subsection \<open>Ordered containers\<close>

lemma find_adr_None_iff: "find_adr a es = None \<longleftrightarrow> a \<notin> adr ` set es"
  by (auto simp: find_adr_def find_None_iff)

lemma find_adr_not_None_iff: "find_adr a es \<noteq> None \<longleftrightarrow> a \<in> adr ` set es"
  by (simp add: find_adr_None_iff)

lemma set_erase_adr: "set (erase_adr a es) = {e \<in> set es. adr e \<noteq> a}"
  by (simp add: erase_adr_def)

lemma by_time_filter: "by_time es \<Longrightarrow> by_time (filter P es)"
  by (auto simp: by_time_def sorted_map_same intro: sorted_filter distinct_map_filter)

lemma by_time_erase: "by_time es \<Longrightarrow> by_time (erase_adr a es)"
  by (simp add: erase_adr_def by_time_filter)

lemma by_time_drop: "by_time es \<Longrightarrow> by_time (drop n es)"
  by (simp add: by_time_def drop_map [symmetric] sorted_wrt_drop)

lemma trim_oldest_drop: "trim_oldest limit es = drop (length es - limit) es"
  by (induction es) (auto simp: drop_Cons' not_less)

lemma pop_front_while_drop: "pop_front_while n xs = drop (length xs - n) xs"
  by (induction xs) (auto simp: drop_Cons' not_less)

lemma length_trim_oldest: "length (trim_oldest limit es) = min limit (length es)"
  by (simp add: trim_oldest_drop)

lemma by_time_trim: "by_time es \<Longrightarrow> by_time (trim_oldest limit es)"
  by (simp add: trim_oldest_drop by_time_drop)

lemma set_trim_oldest: "set (trim_oldest limit es) \<subseteq> set es"
  by (simp add: trim_oldest_drop set_drop_subset)

lemma erase_adr_absent: "a \<notin> adr ` set es \<Longrightarrow> erase_adr a es = es"
  by (auto simp: erase_adr_def filter_id_conv)

lemma length_erase_present:
  assumes "distinct (map adr es)" and "a \<in> adr ` set es"
  shows "Suc (length (erase_adr a es)) = length es"
  using assms
proof (induction es)
  case (Cons e es)
  show ?case
  proof (cases "adr e = a")
    case True
    then have "a \<notin> adr ` set es" using Cons.prems(1) by auto
    then show ?thesis using True erase_adr_absent [of a es] by (simp add: erase_adr_def)
  next
    case False
    then show ?thesis using Cons by (simp add: erase_adr_def)
  qed
qed simp

context peers_index
begin

lemma set_ins: "by_time es \<Longrightarrow> find_adr (adr e) es = None \<Longrightarrow> set (ins e es) = insert e (set es)"
  using ins_entries [of es e] by (metis set_mset_add_mset_insert set_mset_mset)

lemma length_ins: "by_time es \<Longrightarrow> find_adr (adr e) es = None \<Longrightarrow> length (ins e es) = Suc (length es)"
  using ins_entries [of es e] by (metis size_add_mset size_mset)

lemma by_time_ins:
  assumes "by_time es" and "find_adr (adr e) es = None"
  shows "by_time (ins e es)"
proof -
  have "mset (map adr (ins e es)) = mset (map adr (e # es))" using ins_entries [OF assms] by simp
  then have "distinct (map adr (ins e es)) = distinct (map adr (e # es))" by (rule mset_eq_imp_distinct_iff)
  then show ?thesis using assms ins_sorted [OF assms] by (simp add: by_time_def find_adr_None_iff)
qed

lemma set_rep: "by_time es \<Longrightarrow> find_adr (adr e) es \<noteq> None \<Longrightarrow>
    set (rep e es) = insert e {x \<in> set es. adr x \<noteq> adr e}"
  using rep_entries [of es e] by (metis set_mset_add_mset_insert set_mset_mset set_erase_adr)

lemma length_rep:
  assumes "by_time es" and "find_adr (adr e) es \<noteq> None"
  shows "length (rep e es) = length es"
proof -
  have "length (rep e es) = Suc (length (erase_adr (adr e) es))"
    using rep_entries [OF assms] by (metis size_add_mset size_mset)
  then show ?thesis using length_erase_present [of es "adr e"] assms by (simp add: by_time_def find_adr_None_iff)
qed

lemma by_time_rep:
  assumes "by_time es" and "find_adr (adr e) es \<noteq> None"
  shows "by_time (rep e es)"
proof -
  have "mset (map adr (rep e es)) = mset (map adr (e # erase_adr (adr e) es))" using rep_entries [OF assms] by simp
  then have "distinct (map adr (rep e es)) = distinct (map adr (e # erase_adr (adr e) es))"
    by (rule mset_eq_imp_distinct_iff)
  moreover have "distinct (map adr (erase_adr (adr e) es))"
    using by_time_erase [OF assms(1), of "adr e"] by (simp add: by_time_def)
  ultimately show ?thesis using rep_sorted [OF assms] by (auto simp: by_time_def set_erase_adr)
qed

end

lemma sorted_insert_by_time:
  assumes "sorted (map last_seen es)"
  shows "sorted (map last_seen (insert_by_time e es))"
proof -
  let ?P = "\<lambda>x. last_seen x \<le> last_seen e"
  have "sorted (map last_seen (takeWhile ?P es @ dropWhile ?P es))"
    using assms by (simp only: takeWhile_dropWhile_id)
  then have "sorted (map last_seen (takeWhile ?P es))" "sorted (map last_seen (dropWhile ?P es))"
    by (simp_all only: map_append sorted_append)
  moreover have "\<forall>x \<in> set (dropWhile ?P es). last_seen e \<le> last_seen x"
    using assms
  proof (induction es)
    case (Cons y ys)
    then show ?case by (cases "?P y") (auto intro: order_trans)
  qed simp
  ultimately show ?thesis
    by (force simp: insert_by_time_def sorted_append dest: set_takeWhileD)
qed

lemma mset_insert_by_time: "mset (insert_by_time e es) = add_mset e (mset es)"
proof -
  let ?P = "\<lambda>x. last_seen x \<le> last_seen e"
  have "mset es = mset (takeWhile ?P es @ dropWhile ?P es)" by (simp only: takeWhile_dropWhile_id)
  also have "\<dots> = mset (takeWhile ?P es) + mset (dropWhile ?P es)" by (rule mset_append)
  finally show ?thesis by (simp add: insert_by_time_def)
qed

lemma sorted_erase_adr: "sorted (map last_seen es) \<Longrightarrow> sorted (map last_seen (erase_adr a es))"
  by (simp add: erase_adr_def sorted_filter)

interpretation at_upper_bound: peers_index insert_by_time replace_by_time
  by unfold_locales
    (auto simp: replace_by_time_def mset_insert_by_time by_time_def sorted_insert_by_time sorted_erase_adr)

subsection \<open>The invariant of the two lists\<close>

text \<open>\<open>L\<close> says whether some start of the node so far allowed local addresses.\<close>

definition peers_ok :: "bool \<Rightarrow> peerlist_manager \<Rightarrow> bool" where
  "peers_ok L pm \<longleftrightarrow> (allow_local_ip pm \<longrightarrow> L) \<and> by_time (peers_white pm) \<and> by_time (peers_gray pm) \<and>
     length (peers_white pm) \<le> P2P_LOCAL_WHITE_PEERLIST_LIMIT \<and>
     length (peers_gray pm) \<le> P2P_LOCAL_GRAY_PEERLIST_LIMIT \<and>
     (\<forall>w \<in> set (peers_white pm). \<forall>g \<in> set (peers_gray pm). adr w \<noteq> adr g) \<and>
     (\<forall>e \<in> set (peers_white pm) \<union> set (peers_gray pm).
        \<not> is_ip_loopback (ip (adr e)) \<and> (is_ip_local (ip (adr e)) \<longrightarrow> L))"

lemma is_ip_allowed_ok:
  "is_ip_allowed pm a \<Longrightarrow> peers_ok L pm \<Longrightarrow> \<not> is_ip_loopback a \<and> (is_ip_local a \<longrightarrow> L)"
  by (auto simp: is_ip_allowed_def peers_ok_def split: if_splits)

lemma peers_ok_init: "peers_ok L pm \<Longrightarrow> peers_ok (allow \<or> L) (peerlist_init now allow pm)"
  unfolding peers_ok_def by (auto simp: peerlist_init_def by_time_def)

lemma peers_ok_empty: "peers_ok L \<lparr>allow_local_ip = False, peers_gray = [], peers_white = []\<rparr>"
  by (simp add: peers_ok_def by_time_def)

lemma peers_ok_trim_gray: "peers_ok L pm \<Longrightarrow> peers_ok L (trim_gray_peerlist pm)"
  using set_trim_oldest [of P2P_LOCAL_GRAY_PEERLIST_LIMIT "peers_gray pm"]
  by (auto simp: peers_ok_def trim_gray_peerlist_def by_time_trim length_trim_oldest)

context peers_index
begin

lemma white_keeps_ok:
  assumes "peers_ok L pm"
  shows "peers_ok L (append_with_peer_white ins rep ple pm)"
proof (cases "is_ip_allowed pm (ip (adr ple))")
  case allowed: True
  let ?w = "if find_adr (adr ple) (peers_white pm) = None
     then trim_oldest P2P_LOCAL_WHITE_PEERLIST_LIMIT (ins ple (peers_white pm)) else rep ple (peers_white pm)"
  let ?g = "erase_adr (adr ple) (peers_gray pm)"
  have pm: "append_with_peer_white ins rep ple pm = pm\<lparr>peers_white := ?w, peers_gray := ?g\<rparr>"
    using allowed erase_adr_absent [of "adr ple" "peers_gray pm"]
    by (auto simp: append_with_peer_white_def trim_white_peerlist_def Let_def find_adr_None_iff)
  have bt: "by_time (peers_white pm)" "by_time (peers_gray pm)" using assms by (simp_all add: peers_ok_def)
  have w: "by_time ?w" using bt by (simp add: by_time_trim by_time_ins by_time_rep)
  have g: "by_time ?g" using bt by (simp add: by_time_erase)
  have sw: "set ?w \<subseteq> insert ple (set (peers_white pm))"
    using set_trim_oldest [of P2P_LOCAL_WHITE_PEERLIST_LIMIT "ins ple (peers_white pm)"] bt
    by (auto simp: set_ins set_rep)
  have lw: "length ?w \<le> P2P_LOCAL_WHITE_PEERLIST_LIMIT"
    using assms bt by (auto simp: length_trim_oldest length_rep peers_ok_def)
  have lg: "length ?g \<le> P2P_LOCAL_GRAY_PEERLIST_LIMIT"
    using assms order_trans [OF length_filter_le] unfolding erase_adr_def peers_ok_def by blast
  have "\<forall>w \<in> set ?w. \<forall>g \<in> set ?g. adr w \<noteq> adr g"
    using sw assms by (auto simp: set_erase_adr peers_ok_def)
  moreover have "\<forall>e \<in> set ?w \<union> set ?g. \<not> is_ip_loopback (ip (adr e)) \<and> (is_ip_local (ip (adr e)) \<longrightarrow> L)"
    using sw assms is_ip_allowed_ok [OF allowed assms] by (auto simp: set_erase_adr peers_ok_def)
  ultimately show ?thesis unfolding pm using w g lw lg assms by (simp add: peers_ok_def)
qed (simp add: append_with_peer_white_def assms)

lemma gray_keeps_ok:
  assumes "peers_ok L pm"
  shows "peers_ok L (append_with_peer_gray ins rep ple pm)"
proof (cases "is_ip_allowed pm (ip (adr ple)) \<and> find_adr (adr ple) (peers_white pm) = None")
  case case_: True
  let ?g = "if find_adr (adr ple) (peers_gray pm) = None
     then trim_oldest P2P_LOCAL_GRAY_PEERLIST_LIMIT (ins ple (peers_gray pm)) else rep ple (peers_gray pm)"
  have pm: "append_with_peer_gray ins rep ple pm = pm\<lparr>peers_gray := ?g\<rparr>"
    using case_ by (simp add: append_with_peer_gray_def trim_gray_peerlist_def)
  have bt: "by_time (peers_gray pm)" using assms by (simp_all add: peers_ok_def)
  have g: "by_time ?g" using bt by (simp add: by_time_trim by_time_ins by_time_rep)
  have sg: "set ?g \<subseteq> insert ple (set (peers_gray pm))"
    using set_trim_oldest [of P2P_LOCAL_GRAY_PEERLIST_LIMIT "ins ple (peers_gray pm)"] bt
    by (auto simp: set_ins set_rep)
  have lg: "length ?g \<le> P2P_LOCAL_GRAY_PEERLIST_LIMIT"
    using assms bt by (auto simp: length_trim_oldest length_rep peers_ok_def)
  have "adr w \<noteq> adr ple" if "w \<in> set (peers_white pm)" for w
    using case_ imageI [OF that, of adr] by (auto simp: find_adr_None_iff)
  then have "\<forall>w \<in> set (peers_white pm). \<forall>g \<in> set ?g. adr w \<noteq> adr g"
    using sg assms unfolding peers_ok_def by blast
  moreover have "\<forall>e \<in> set ?g. \<not> is_ip_loopback (ip (adr e)) \<and> (is_ip_local (ip (adr e)) \<longrightarrow> L)"
    using sg assms is_ip_allowed_ok [OF conjunct1 [OF case_] assms] unfolding peers_ok_def by blast
  ultimately show ?thesis unfolding pm using g lg assms by (auto simp: peers_ok_def)
qed (use assms in \<open>auto simp: append_with_peer_gray_def\<close>)

lemma merge_keeps_ok: "peers_ok L pm \<Longrightarrow> peers_ok L (merge_peerlist ins rep pl pm)"
proof -
  have "peers_ok L pm \<Longrightarrow> peers_ok L (fold (append_with_peer_gray ins rep) pl pm)" for pm
    by (induction pl arbitrary: pm) (simp_all add: gray_keeps_ok)
  then show "peers_ok L pm \<Longrightarrow> ?thesis" by (simp add: merge_peerlist_def peers_ok_trim_gray)
qed

lemma remote_keeps_ok: "peers_ok L pm \<Longrightarrow> peers_ok L (snd (handle_remote_peerlist ins rep now pl t pm))"
  by (auto simp: handle_remote_peerlist_def merge_keeps_ok split: option.split)

end

text \<open>
  What the node does to the lists and to the file that keeps them: it stores them from time to time
  and when it stops, and when it starts it loads what was stored last (nothing where there is no file
  or it is not accepted) and calls \<open>init\<close> with the flag of its configuration, whatever the flag was
  before. The label of a step is the flag of a start.
\<close>

type_synonym stored_peers = "peerlist_entry list \<times> peerlist_entry list"

definition loaded_peers :: "stored_peers \<Rightarrow> peerlist_manager" where
  "loaded_peers f = \<lparr>allow_local_ip = False, peers_gray = fst f, peers_white = snd f\<rparr>"

inductive peers_step ::
    "(peerlist_entry \<Rightarrow> peerlist_entry list \<Rightarrow> peerlist_entry list) \<Rightarrow>
     (peerlist_entry \<Rightarrow> peerlist_entry list \<Rightarrow> peerlist_entry list) \<Rightarrow> bool option \<Rightarrow>
     peerlist_manager \<times> stored_peers \<Rightarrow> peerlist_manager \<times> stored_peers \<Rightarrow> bool"
  for ins rep where
  white: "peers_step ins rep None (pm, f) (append_with_peer_white ins rep ple pm, f)"
| gray: "peers_step ins rep None (pm, f) (append_with_peer_gray ins rep ple pm, f)"
| seen: "peers_step ins rep None (pm, f) (set_peer_just_seen ins rep now peer addr pm, f)"
| remote: "peers_step ins rep None (pm, f) (snd (handle_remote_peerlist ins rep now pl t pm), f)"
| store: "peers_step ins rep None (pm, f) (pm, (peers_gray pm, peers_white pm))"
| restart: "peers_step ins rep (Some allow) (pm, f) (peerlist_init now allow (loaded_peers f), f)"
| refused_file: "peers_step ins rep (Some allow) (pm, f) (peerlist_init now allow (loaded_peers ([], [])), f)"

text \<open>The states that the node reaches from a first start without a file, with the flags of its starts.\<close>

inductive peers_reachable ::
    "(peerlist_entry \<Rightarrow> peerlist_entry list \<Rightarrow> peerlist_entry list) \<Rightarrow>
     (peerlist_entry \<Rightarrow> peerlist_entry list \<Rightarrow> peerlist_entry list) \<Rightarrow> bool list \<Rightarrow>
     peerlist_manager \<times> stored_peers \<Rightarrow> bool"
  for ins rep where
  first: "peers_reachable ins rep [allow] (peerlist_init now allow (loaded_peers ([], [])), ([], []))"
| step: "peers_reachable ins rep flags s \<Longrightarrow> peers_step ins rep None s s' \<Longrightarrow> peers_reachable ins rep flags s'"
| starts: "peers_reachable ins rep flags s \<Longrightarrow> peers_step ins rep (Some allow) s s' \<Longrightarrow>
    peers_reachable ins rep (allow # flags) s'"

inductive_cases peers_stepE: "peers_step ins rep l (pm, f) s'"

definition run_ok :: "bool \<Rightarrow> peerlist_manager \<times> stored_peers \<Rightarrow> bool" where
  "run_ok L s \<longleftrightarrow> peers_ok L (fst s) \<and> peers_ok L (loaded_peers (snd s))"

lemma peers_ok_weaken: "peers_ok L pm \<Longrightarrow> peers_ok (a \<or> L) pm"
  by (auto simp: peers_ok_def)

lemma peers_ok_stored: "peers_ok L pm \<Longrightarrow> peers_ok L (loaded_peers (peers_gray pm, peers_white pm))"
  by (simp add: peers_ok_def loaded_peers_def)

lemma peers_ok_no_file: "peers_ok L (loaded_peers ([], []))"
  by (simp add: loaded_peers_def peers_ok_empty)

lemma allow_white [simp]: "allow_local_ip (append_with_peer_white ins rep ple pm) = allow_local_ip pm"
  by (simp add: append_with_peer_white_def trim_white_peerlist_def Let_def)

lemma allow_gray [simp]: "allow_local_ip (append_with_peer_gray ins rep ple pm) = allow_local_ip pm"
  by (simp add: append_with_peer_gray_def trim_gray_peerlist_def)

lemma allow_remote [simp]: "allow_local_ip (snd (handle_remote_peerlist ins rep now pl t pm)) = allow_local_ip pm"
proof -
  have "allow_local_ip (fold (append_with_peer_gray ins rep) es pm) = allow_local_ip pm" for es pm
    by (induction es arbitrary: pm) simp_all
  then show ?thesis
    by (simp add: handle_remote_peerlist_def merge_peerlist_def trim_gray_peerlist_def split: option.split prod.split)
qed

context peers_index
begin

lemma step_keeps_ok: "peers_step ins rep None s s' \<Longrightarrow> run_ok L s \<Longrightarrow> run_ok L s'"
  by (cases s) (auto simp: run_ok_def white_keeps_ok gray_keeps_ok remote_keeps_ok set_peer_just_seen_def peers_ok_stored
      elim!: peers_stepE)

lemma start_keeps_ok: "peers_step ins rep (Some allow) s s' \<Longrightarrow> run_ok L s \<Longrightarrow> run_ok (allow \<or> L) s'"
  using peers_ok_init [OF peers_ok_no_file, of allow L]
  by (cases s) (auto simp: run_ok_def intro: peers_ok_init peers_ok_weaken elim!: peers_stepE)

lemma reachable_ok: "peers_reachable ins rep flags s \<Longrightarrow> run_ok (True \<in> set flags) s \<and> allow_local_ip (fst s) = hd flags"
proof (induction rule: peers_reachable.induct)
  case (first allow now)
  have "peers_ok (allow \<or> False) (peerlist_init now allow (loaded_peers ([], [])))"
    by (rule peers_ok_init [OF peers_ok_no_file])
  then show ?case by (auto simp: run_ok_def peers_ok_no_file peerlist_init_def)
next
  case (step flags s s')
  have "allow_local_ip (fst s') = allow_local_ip (fst s)"
    using step.hyps(2) by (cases s) (auto elim!: peers_stepE simp: set_peer_just_seen_def)
  with step step_keeps_ok show ?case by metis
next
  case (starts flags s allow s')
  have "allow_local_ip (fst s') = allow"
    using starts.hyps(2) by (cases s) (auto elim!: peers_stepE simp: peerlist_init_def)
  with starts start_keeps_ok [OF starts.hyps(2), of "True \<in> set flags"] show ?case by auto
qed

end

subsection \<open>What other peers are told\<close>

lemma head_loop_take:
  "unat cnt + unat (depth + 1 - cnt) = Suc (unat depth) \<Longrightarrow> unat depth < 4294967295 \<Longrightarrow>
   head_loop depth cnt es = take (Suc (unat (depth + 1 - cnt))) (filter (\<lambda>e. last_seen e \<noteq> 0) es)"
proof (induction es arbitrary: cnt)
  case (Cons e es)
  have d: "unat (depth + 1) = Suc (unat depth)" using Cons.prems(2) by (simp add: unat_word_ariths)
  show ?case
  proof (cases "depth < cnt")
    case True
    then have "unat depth < unat cnt" by (simp add: word_less_nat_alt)
    then have "unat (depth + 1 - cnt) = 0" using Cons.prems by linarith
    then show ?thesis using True Cons by (cases "last_seen e = 0") simp_all
  next
    case False
    then have c: "unat cnt \<le> unat depth" by (simp add: word_less_nat_alt)
    have n: "unat (depth + 1 - (cnt + 1)) = unat depth - unat cnt"
      using c by (simp add: unat_sub_le word_le_nat_alt)
    moreover have "unat (cnt + 1) = Suc (unat cnt)" using c Cons.prems(2) by (simp add: unat_word_ariths)
    ultimately have "head_loop depth (cnt + 1) es =
        take (Suc (unat (depth + 1 - (cnt + 1)))) (filter (\<lambda>e. last_seen e \<noteq> 0) es)"
      using c Cons.prems(2) by (intro Cons.IH) simp_all
    moreover have "unat (depth + 1 - cnt) = Suc (unat depth - unat cnt)" using c Cons.prems(1) by linarith
    ultimately show ?thesis using False n Cons by simp
  qed
qed simp

lemma get_peerlist_head_take:
  "unat depth < 4294967295 \<Longrightarrow>
   get_peerlist_head pm depth = take (unat depth + 2) (filter (\<lambda>e. last_seen e \<noteq> 0) (rev (peers_white pm)))"
  using head_loop_take [of 0 depth "rev (peers_white pm)"]
  by (simp add: get_peerlist_head_def unat_word_ariths)

lemma sorted_take_rev_newest:
  assumes "sorted (map last_seen es)" and "x \<in> set (take n (rev es))" and "y \<in> set (drop n (rev es))"
  shows "last_seen y \<le> last_seen x"
proof -
  have "sorted (map last_seen (rev (drop n (rev es)) @ rev (take n (rev es))))"
    using assms(1) by (simp only: rev_append [symmetric] append_take_drop_id rev_rev_ident)
  then show ?thesis using assms(2,3) by (simp only: map_append sorted_append) auto
qed

lemma shift_times_Some:
  "shift_times t delta es = (if \<exists>e \<in> set es. t < last_seen e then None
     else Some (map (\<lambda>e. e\<lparr>last_seen := int64 (last_seen e + delta)\<rparr>) es))"
  by (induction es) auto

subsection \<open>Refused addresses\<close>

definition rules_ok :: "address_rules \<Rightarrow> bool" where
  "rules_ok ar \<longleftrightarrow> distinct (allowed_blocked_ips ar) \<and>
     (\<forall>a \<in> set (allowed_blocked_ips ar). address_blocked a ar) \<and>
     length (allowed_blocked_ips ar) \<le> P2P_ALLOWED_BLOCKLIST_MAX_SIZE \<and>
     (\<forall>a. ip_fails_score ar a \<le> P2P_IP_FAILS_BEFOR_BLOCK)"

inductive rules_step :: "address_rules \<Rightarrow> address_rules \<Rightarrow> bool" where
  allowed: "rules_step ar (snd (is_address_allowed now a ar))"
| block: "rules_step ar (block_address now a ar)"
| fail: "rules_step ar (add_address_fail now a ar)"
| cache: "rules_step ar (cache_connect_fail_info now a ar)"
| clear: "rules_step ar (clear_blocklist ar)"

inductive rules_reachable :: "address_rules \<Rightarrow> bool" where
  start: "rules_reachable \<lparr>offline_mode = off, conn_fails_cache = Map.empty, blocked_ips = Map.empty,
     allowed_blocked_ips = [], ip_fails_score = (\<lambda>_. 0)\<rparr>"
| step: "rules_reachable ar \<Longrightarrow> rules_step ar ar' \<Longrightarrow> rules_reachable ar'"

inductive_cases rules_stepE: "rules_step ar ar'"

lemmas rules_defs = rules_ok_def address_blocked_def is_address_allowed_def block_address_def
  cache_connect_fail_info_def clear_blocklist_def

lemma allowed_keeps_ok: "rules_ok ar \<Longrightarrow> rules_ok (snd (is_address_allowed now a ar))"
  by (auto simp: rules_defs distinct_removeAll split: option.split intro: order_trans [OF length_removeAll_less_eq])

lemma block_keeps_ok: "rules_ok ar \<Longrightarrow> rules_ok (block_address now a ar)"
  by (auto simp: rules_defs)

lemma fail_keeps_ok: "rules_ok ar \<Longrightarrow> rules_ok (add_address_fail now a ar)"
  by (auto simp: add_address_fail_def Let_def not_less rules_defs)

lemma rules_step_ok: "rules_step ar ar' \<Longrightarrow> rules_ok ar \<Longrightarrow> rules_ok ar'"
  by (erule rules_stepE)
    (simp_all add: allowed_keeps_ok block_keeps_ok fail_keeps_ok, simp_all add: rules_defs)

lemma rules_reachable_ok: "rules_reachable ar \<Longrightarrow> rules_ok ar"
  by (induction rule: rules_reachable.induct) (simp_all add: rules_step_ok, simp add: rules_defs)

lemma fails_cases:
  "ip_fails_score ar a \<le> P2P_IP_FAILS_BEFOR_BLOCK \<Longrightarrow>
   ip_fails_score ar a = 0 \<or> ip_fails_score ar a = 1 \<or> ip_fails_score ar a = 2"
proof -
  assume "ip_fails_score ar a \<le> P2P_IP_FAILS_BEFOR_BLOCK"
  then have "unat (ip_fails_score ar a) \<le> 2" by (simp add: P2P_IP_FAILS_BEFOR_BLOCK_def word_le_nat_alt)
  then consider "unat (ip_fails_score ar a) = 0" | "unat (ip_fails_score ar a) = 1" | "unat (ip_fails_score ar a) = 2"
    by linarith
  then show ?thesis
  proof cases
    case 3
    then have "ip_fails_score ar a = of_nat 2" by (rule word_eq_of_unat)
    then show ?thesis by simp
  next
    case 2
    then have "ip_fails_score ar a = of_nat 1" by (rule word_eq_of_unat)
    then show ?thesis by simp
  qed (simp add: unsigned_eq_0_iff)
qed

lemma three_failures:
  assumes "ip_fails_score ar a \<le> P2P_IP_FAILS_BEFOR_BLOCK"
  shows "\<exists>t \<in> {t1, t2, t3}.
    blocked_ips (add_address_fail t3 a (add_address_fail t2 a (add_address_fail t1 a ar))) a = Some t"
  using fails_cases [OF assms]
  by (auto simp: add_address_fail_def Let_def block_address_def P2P_IP_FAILS_BEFOR_BLOCK_def)

lemma blocked_admission:
  "\<not> offline_mode ar \<Longrightarrow> blocked_ips ar a = Some t \<Longrightarrow>
   fst (is_address_allowed now a ar) \<longleftrightarrow>
     P2P_IP_BLOCKTIME < now - t \<or> a \<in> set (allowed_blocked_ips ar) \<or>
     length (allowed_blocked_ips ar) < P2P_ALLOWED_BLOCKLIST_MAX_SIZE"
  by (simp add: is_address_allowed_def)

lemma fail_keeps [simp]:
  "offline_mode (add_address_fail t a ar) = offline_mode ar"
  "allowed_blocked_ips (add_address_fail t a ar) = allowed_blocked_ips ar"
  by (simp_all add: add_address_fail_def Let_def block_address_def)

subsection \<open>The random index\<close>

lemma random_index_bounds:
  assumes "0 < max_index" and "max_index < 2642246"
  shows "get_random_index_with_fixed_probability rnd max_index \<le> max_index"
proof -
  let ?m = "unat max_index" and ?x = "unat (rnd mod (max_index + 1))"
  have m: "0 < ?m" "?m < 2642246" using assms by (simp_all add: word_less_nat_alt unat_gt_0)
  have "unat (max_index + 1) = ?m + 1" using m by (simp add: unat_word_ariths)
  then have "?x < ?m + 1" by (simp add: unat_mod)
  then have x: "?x \<le> ?m" by simp
  have q: "?x * ?x \<le> ?m * ?m" using x by (intro mult_le_mono)
  then have c: "?x * ?x * ?x \<le> ?m * ?m * ?m" using x by (intro mult_le_mono)
  have "?m * ?m * ?m \<le> 2642245 * 2642245 * 2642245" using m by (intro mult_le_mono) simp_all
  then have b: "?m * ?m * ?m < 18446744073709551616" by simp
  have "?m * ?m \<le> 2642245 * 2642245" using m by (intro mult_le_mono) simp_all
  then have s: "?m * ?m < 18446744073709551616" by simp
  have "unat ((rnd mod (max_index + 1)) * (rnd mod (max_index + 1))) = ?x * ?x"
    using q s by (simp only: unat_u64_mult) simp
  then have "unat ((rnd mod (max_index + 1)) * (rnd mod (max_index + 1)) * (rnd mod (max_index + 1))) = ?x * ?x * ?x"
    using c b unat_u64_mult [of "(rnd mod (max_index + 1)) * (rnd mod (max_index + 1))" "rnd mod (max_index + 1)"]
    by simp
  moreover have "unat (max_index * max_index) = ?m * ?m" using s by (simp only: unat_u64_mult) simp
  ultimately have "unat (get_random_index_with_fixed_probability rnd max_index) = ?x * ?x * ?x div (?m * ?m)"
    using assms by (simp add: get_random_index_with_fixed_probability_def Let_def unat_div)
  also have "\<dots> \<le> ?m * ?m * ?m div (?m * ?m)" using c by (rule div_le_mono)
  also have "\<dots> = ?m" using m by simp
  finally show ?thesis by (simp add: word_le_nat_alt)
qed

subsection \<open>Properties\<close>

text \<open>C20: In every state that the node reaches, by merging peers' lists, adding and renewing white and gray
  entries, storing the lists and starting again from the stored ones under whatever configuration, the white list has
  at most 1000 and the gray list at most 5000 entries, each list is ordered by \<open>last_seen\<close> with every address once, no
  address is in both lists, and no entry is a loopback address. An address that the program takes for local is in a list
  only when one of the starts so far allowed local addresses; where no start did, none is there. (\<open>init\<close> does not look at
  the addresses it has loaded, so such an address can stay after a restart that no longer allows it.) This holds for any
  container that keeps the contract of the index.\<close>
theorem peers_invariant:
  assumes "peers_index ins rep" and "peers_reachable ins rep flags (pm, f)"
  shows "sorted (map last_seen (peers_white pm)) \<and> sorted (map last_seen (peers_gray pm)) \<and>
    distinct (map adr (peers_white pm @ peers_gray pm)) \<and>
    length (peers_white pm) \<le> 1000 \<and> length (peers_gray pm) \<le> 5000 \<and> allow_local_ip pm = hd flags \<and>
    (\<forall>e \<in> set (peers_white pm) \<union> set (peers_gray pm).
       \<not> is_ip_loopback (ip (adr e)) \<and> (is_ip_local (ip (adr e)) \<longrightarrow> True \<in> set flags))"
proof -
  have "peers_ok (True \<in> set flags) pm" "allow_local_ip pm = hd flags"
    using peers_index.reachable_ok [OF assms] by (simp_all add: run_ok_def)
  then show ?thesis
    by (auto simp: peers_ok_def by_time_def P2P_LOCAL_WHITE_PEERLIST_LIMIT_def P2P_LOCAL_GRAY_PEERLIST_LIMIT_def)
qed

lemma peers_invariant_witness:
  "distinct (map adr (peers_white (append_with_peer_white insert_by_time replace_by_time
       \<lparr>adr = \<lparr>ip = 8, port = 9\<rparr>, peer_id = 3, last_seen = 77\<rparr>
       (peerlist_init 80 False (loaded_peers ([], []))))))"
proof -
  let ?pm = "append_with_peer_white insert_by_time replace_by_time
       \<lparr>adr = \<lparr>ip = 8, port = 9\<rparr>, peer_id = 3, last_seen = 77\<rparr> (peerlist_init 80 False (loaded_peers ([], [])))"
  have "peers_reachable insert_by_time replace_by_time [False] (?pm, ([], []))"
    by (rule peers_reachable.step [OF peers_reachable.first peers_step.white])
  from peers_invariant [OF at_upper_bound.peers_index_axioms this] show ?thesis by simp
qed

text \<open>What a peer is told in a handshake are the white entries seen last: the newest \<open>depth + 2\<close> of those with a
  time, newest first, and nothing it is not told is newer than something it is told. (The loop counts after
  storing and compares with \<open>>\<close>, so two more than \<open>depth\<close> are sent.)\<close>
theorem peerlist_head_newest:
  assumes "unat depth < 4294967295" and "by_time (peers_white pm)"
  shows "get_peerlist_head pm depth = take (unat depth + 2) (filter (\<lambda>e. last_seen e \<noteq> 0) (rev (peers_white pm))) \<and>
    (\<forall>x \<in> set (get_peerlist_head pm depth). \<forall>y \<in> set (peers_white pm).
       last_seen y \<noteq> 0 \<longrightarrow> y \<notin> set (get_peerlist_head pm depth) \<longrightarrow> last_seen y \<le> last_seen x)"
proof -
  let ?n = "unat depth + 2" and ?es = "filter (\<lambda>e. last_seen e \<noteq> 0) (peers_white pm)"
  have s: "sorted (map last_seen ?es)" using by_time_filter [OF assms(2)] unfolding by_time_def by blast
  have h: "get_peerlist_head pm depth = take ?n (rev ?es)"
    using get_peerlist_head_take [OF assms(1)] by (simp only: rev_filter)
  have "last_seen y \<le> last_seen x"
    if "x \<in> set (take ?n (rev ?es))" "y \<in> set (peers_white pm)" "last_seen y \<noteq> 0" "y \<notin> set (take ?n (rev ?es))" for x y
  proof -
    have "y \<in> set (take ?n (rev ?es) @ drop ?n (rev ?es))" using that(2,3) by (simp only: append_take_drop_id) simp
    then have "y \<in> set (drop ?n (rev ?es))" using that(4) by (simp only: set_append Un_iff) simp
    then show ?thesis by (rule sorted_take_rev_newest [OF s that(1)])
  qed
  then show ?thesis unfolding h by (simp only: rev_filter) blast
qed

lemma peerlist_head_newest_witness:
  "length (get_peerlist_head \<lparr>allow_local_ip = False, peers_gray = [],
     peers_white = map (\<lambda>t. \<lparr>adr = \<lparr>ip = of_int t, port = 9\<rparr>, peer_id = 3, last_seen = t\<rparr>) [11, 12, 13, 14]\<rparr> 1) = 3"
proof -
  have "by_time (map (\<lambda>t. \<lparr>adr = \<lparr>ip = of_int t, port = 9\<rparr>, peer_id = 3, last_seen = t\<rparr>) [11, 12, 13, 14])"
    by (simp add: by_time_def)
  from peerlist_head_newest [of 1 "\<lparr>allow_local_ip = False, peers_gray = [], peers_white = _\<rparr>", simplified, OF this [simplified]]
  show ?thesis by simp
qed

text \<open>A list received from a peer is refused, and then changes nothing, exactly when it has an entry later than the
  clock the peer reports; an accepted one is merged into the gray list with every time moved by the difference
  of the clocks. No list from a peer ever changes the white list.\<close>
theorem remote_peerlist_effect:
  "handle_remote_peerlist ins rep now pl t pm =
     (if \<exists>e \<in> set pl. t < last_seen e then (False, pm)
      else (True, merge_peerlist ins rep (map (\<lambda>e. e\<lparr>last_seen := int64 (last_seen e + int64 (now - t))\<rparr>) pl) pm)) \<and>
   peers_white (snd (handle_remote_peerlist ins rep now pl t pm)) = peers_white pm"
proof -
  have g: "peers_white (append_with_peer_gray ins rep e pm) = peers_white pm" for e pm
    by (simp add: append_with_peer_gray_def trim_gray_peerlist_def)
  have "peers_white (fold (append_with_peer_gray ins rep) es pm) = peers_white pm" for es pm
    by (induction es arbitrary: pm) (simp_all add: g)
  then show ?thesis
    by (auto simp: handle_remote_peerlist_def fix_time_delta_def shift_times_Some Let_def merge_peerlist_def
        trim_gray_peerlist_def)
qed

text \<open>In every reachable state of the rules for addresses, three failures of an address block it, whatever
  happened before, and from then on the node admits it exactly when 24 hours have passed since the failure that
  blocked it, or it is one of the exceptions, or fewer than two exceptions are taken; the exceptions are always
  at most two distinct blocked addresses.\<close>
theorem three_failures_block:
  fixes a :: net_address and t1 t2 t3 :: int
  assumes "rules_reachable ar" and "\<not> offline_mode ar"
  defines "ar' \<equiv> add_address_fail t3 a (add_address_fail t2 a (add_address_fail t1 a ar))"
  shows "(\<exists>t \<in> {t1, t2, t3}. blocked_ips ar' a = Some t \<and>
      (\<forall>now. fst (is_address_allowed now a ar') \<longleftrightarrow>
         P2P_IP_BLOCKTIME < now - t \<or> address_allowed_to_outgoing a ar' \<or> length (allowed_blocked_ips ar') < 2)) \<and>
    distinct (allowed_blocked_ips ar') \<and> length (allowed_blocked_ips ar') \<le> 2 \<and>
    (\<forall>x \<in> set (allowed_blocked_ips ar'). address_blocked x ar')"
proof -
  have ok: "rules_ok ar" using assms(1) by (rule rules_reachable_ok)
  then have "rules_ok ar'" unfolding ar'_def by (intro fail_keeps_ok)
  moreover obtain t where "t \<in> {t1, t2, t3}" "blocked_ips ar' a = Some t"
    using three_failures [of ar a t1 t2 t3] ok unfolding rules_ok_def ar'_def by blast
  moreover have "\<not> offline_mode ar'" using assms(2) by (simp add: ar'_def)
  ultimately show ?thesis
    using blocked_admission [of ar' a t]
    by (auto simp: rules_ok_def address_allowed_to_outgoing_def P2P_ALLOWED_BLOCKLIST_MAX_SIZE_def)
qed

lemma three_failures_block_witness:
  "let ar = \<lparr>offline_mode = False, conn_fails_cache = Map.empty, blocked_ips = Map.empty,
        allowed_blocked_ips = [], ip_fails_score = (\<lambda>_. 0)\<rparr>; a = \<lparr>ip = 8, port = 9\<rparr>
   in \<exists>t \<in> {10, 20, 30}. blocked_ips (add_address_fail 30 a (add_address_fail 20 a (add_address_fail 10 a ar))) a = Some t"
  using three_failures_block [OF rules_reachable.start [of False], where ?a = "\<lparr>ip = 8, port = 9\<rparr>" and ?t1.0 = 10 and ?t2.0 = 20 and ?t3.0 = 30]
  by (auto simp: Let_def)

text \<open>The test for a local address accepts exactly the addresses \<open>10.x.x.x\<close> and \<open>192.168.x.x\<close> (the first number is
  the low byte of the integer): no address of \<open>172.16.0.0\<close> to \<open>172.31.255.255\<close> passes, although the code has a branch
  for them.\<close>
theorem ip_local_exact:
  "(is_ip_local a \<longleftrightarrow> unat a mod 256 = 10 \<or> unat a mod 65536 = 192 + 256 * 168) \<and>
   (unat a mod 256 = 172 \<longrightarrow> \<not> is_ip_local a) \<and> (is_ip_loopback a \<longleftrightarrow> unat a mod 256 = 127)"
proof -
  have "unat a mod 65536 = 192 + 256 * 168 \<Longrightarrow> unat a mod 256 = 192"
    using mod_mod_cancel [of 256 65536 "unat a"] by simp
  then show ?thesis using is_ip_local_exact is_ip_loopback_exact by auto
qed

lemma ip_local_exact_witness: "\<not> is_ip_local (172 + 256 * 16)"
  using ip_local_exact [of "172 + 256 * 16"] by simp

text \<open>The index of a peer to try is inside the list, for every list that a node can hold.\<close>

theorem random_index_in_range:
  assumes "max_index < 2642246"
  shows "get_random_index_with_fixed_probability rnd max_index \<le> max_index"
  using random_index_bounds [of max_index rnd] assms
  by (cases "max_index = 0") (simp_all add: get_random_index_with_fixed_probability_def word_neq_0_conv)

end
