(* ===== verification/Crypto.thy ===== *)
theory Crypto
  imports CurveTables Keccak Varint Transactions
begin

section \<open>Keys and signatures (crypto.cpp, random.c)\<close>

text \<open>
  Keys, key derivation, signatures and ring signatures over the curve, the scalars and the hash of the other
  theories. A point and a scalar are 32 bytes, a signature is the 64 bytes of its two scalars. The generator of
  random bytes is a state of 25 lanes that every call permutes; the operating system fills it once. \<open>None\<close> is an
  \<open>abort\<close>, an exception, or an assertion of the routines below; the assertions of crypto.cpp itself state
  preconditions and are left out, as they are in a release build. The theorems: exactly which signatures and ring
  signatures are accepted, that no accepted signature has a second form, and that making keys and signatures
  never fails and gives canonical scalars. That a generated signature is accepted is not shown: it needs the
  group law and the table of the base point.
\<close>

subsection \<open>Random bytes\<close>

text \<open>\<open>generate_random_bytes\<close>: 136 bytes of the state after each permutation.\<close>

function random_loop :: "nat \<Rightarrow> u64 list \<Rightarrow> bytes \<times> u64 list" where
  "random_loop n st =
     (let st = hash_permutation st
      in if n \<le> HASH_DATA_AREA then (take n (state_bytes st), st)
         else apfst ((@) (take HASH_DATA_AREA (state_bytes st))) (random_loop (n - HASH_DATA_AREA) st))"
  by pat_completeness auto
termination by (relation "measure fst") (auto simp: HASH_DATA_AREA_def)

declare random_loop.simps [simp del]

definition generate_random_bytes :: "nat \<Rightarrow> u64 list \<Rightarrow> bytes \<times> u64 list" where
  "generate_random_bytes n st = (if n = 0 then ([], st) else random_loop n st)"

subsection \<open>Keys\<close>

definition key_Z :: key_image where "key_Z = replicate 32 0"
definition key_I :: key_image where "key_I = 1 # replicate 31 0"
definition key_L :: key_image where
  "key_L = [0xed, 0xd3, 0xf5, 0x5c, 0x1a, 0x63, 0x12, 0x58, 0xd6, 0x9c, 0xf7, 0xa2, 0xde, 0xf9, 0xde, 0x14,
     0, 0, 0, 0, 0, 0, 0, 0, 0, 0, 0, 0, 0, 0, 0, 0x10]"

definition random_scalar :: "u64 list \<Rightarrow> bytes \<times> u64 list" where
  "random_scalar st = apfst sc_reduce (generate_random_bytes 64 st)"

definition hash_to_scalar :: "bytes \<Rightarrow> bytes" where
  "hash_to_scalar data = sc_reduce32 (cn_fast_hash data)"

text \<open>The public key of a secret one: \<open>ge_scalarmult_base\<close> and \<open>ge_p3_tobytes\<close>.\<close>

definition base_times :: "bytes \<Rightarrow> bytes option" where
  "base_times sec = map_option ge_p3_tobytes (ge_scalarmult_base sec)"

definition keys_from_short :: "bytes \<Rightarrow> (public_key \<times> bytes) option" where
  "keys_from_short a_part =
     (let tmp = take 16 a_part @ replicate 48 0;
          tmp = take 16 tmp @ cn_fast_hash (take 16 tmp) @ drop 48 tmp;
          tmp = take 32 tmp @ cn_fast_hash (take 32 tmp);
          sec = sc_reduce tmp
      in map_option (\<lambda>pub. (pub, sec)) (base_times sec))"

definition keys_from_default :: "bytes \<Rightarrow> (public_key \<times> bytes) option" where
  "keys_from_default a_part =
     (let tmp = take 32 a_part @ replicate 32 0;
          tmp = take 32 tmp @ cn_fast_hash (take 32 tmp);
          sec = sc_reduce tmp
      in map_option (\<lambda>pub. (pub, sec)) (base_times sec))"

definition generate_brain_keys :: "u64 list \<Rightarrow> ((public_key \<times> bytes \<times> bytes) \<times> u64 list) option" where
  "generate_brain_keys st =
     (let (tmp, st) = generate_random_bytes 32 st
      in map_option (\<lambda>(pub, sec). ((pub, sec, tmp), st)) (keys_from_default tmp))"

definition generate_keys :: "u64 list \<Rightarrow> ((public_key \<times> bytes) \<times> u64 list) option" where
  "generate_keys st =
     (let (sec, st) = random_scalar st
      in map_option (\<lambda>pub. ((pub, sec), st)) (base_times sec))"

definition dependent_key :: "bytes \<Rightarrow> bytes option" where
  "dependent_key first =
     (let second = hash_to_scalar first
      in if sc_check second \<noteq> 0 then None else Some second)"

definition scalarmult_key :: "key_image \<Rightarrow> bytes \<Rightarrow> key_image option" where
  "scalarmult_key P a =
     (case ge_frombytes_vartime P of
        None \<Rightarrow> Some key_Z
      | Some A \<Rightarrow> map_option ge_tobytes (ge_scalarmult a A))"

definition validate_key_image :: "key_image \<Rightarrow> bool option" where
  "validate_key_image ki = map_option (\<lambda>r. if \<not> r = key_I then False else True) (scalarmult_key ki key_L)"

text \<open>The outer option is the abort; \<open>Some None\<close> is \<open>return false\<close>.\<close>

definition secret_key_to_public_key :: "bytes \<Rightarrow> public_key option option" where
  "secret_key_to_public_key sec =
     (if sc_check sec \<noteq> 0 then Some None else map_option Some (base_times sec))"

definition generate_key_derivation :: "public_key \<Rightarrow> bytes \<Rightarrow> bytes option option" where
  "generate_key_derivation key1 key2 =
     (case ge_frombytes_vartime key1 of
        None \<Rightarrow> Some None
      | Some point \<Rightarrow>
          map_option (\<lambda>point2. Some (ge_tobytes (ge_p1p1_to_p2 (ge_mul8 point2)))) (ge_scalarmult key2 point))"

definition derivation_to_scalar :: "bytes \<Rightarrow> u64 \<Rightarrow> bytes" where
  "derivation_to_scalar derivation output_index = hash_to_scalar (derivation @ write_varint output_index)"

definition derive_public_key :: "bytes \<Rightarrow> u64 \<Rightarrow> public_key \<Rightarrow> public_key option option" where
  "derive_public_key derivation output_index base =
     (case ge_frombytes_vartime base of
        None \<Rightarrow> Some None
      | Some point1 \<Rightarrow>
          map_option (\<lambda>point2.
            Some (ge_tobytes (ge_p1p1_to_p2 (ge_add point1 (ge_p3_to_cached point2)))))
            (ge_scalarmult_base (derivation_to_scalar derivation output_index)))"

definition derive_secret_key :: "bytes \<Rightarrow> u64 \<Rightarrow> bytes \<Rightarrow> bytes" where
  "derive_secret_key derivation output_index base = sc_add base (derivation_to_scalar derivation output_index)"

subsection \<open>Signatures\<close>

definition sig_c :: "signature \<Rightarrow> bytes" where "sig_c s = take 32 s"
definition sig_r :: "signature \<Rightarrow> bytes" where "sig_r s = drop 32 s"

definition generate_signature ::
    "hash \<Rightarrow> public_key \<Rightarrow> bytes \<Rightarrow> u64 list \<Rightarrow> (signature \<times> u64 list) option" where
  "generate_signature prefix_hash pub sec st =
     (let (k, st) = random_scalar st
      in map_option (\<lambda>comm.
           let c = hash_to_scalar (prefix_hash @ pub @ comm)
           in (c @ sc_mulsub c sec k, st)) (base_times k))"

definition check_signature :: "hash \<Rightarrow> public_key \<Rightarrow> signature \<Rightarrow> bool" where
  "check_signature prefix_hash pub sig =
     (case ge_frombytes_vartime pub of
        None \<Rightarrow> False
      | Some tmp3 \<Rightarrow>
          if sc_check (sig_c sig) \<noteq> 0 \<or> sc_check (sig_r sig) \<noteq> 0 then False
          else
            let comm = ge_tobytes (ge_double_scalarmult_base_vartime (sig_c sig) tmp3 (sig_r sig));
                c = hash_to_scalar (prefix_hash @ pub @ comm);
                c = sc_sub c (sig_c sig)
            in sc_isnonzero c = 0)"

subsection \<open>Ring signatures\<close>

definition hash_to_ec :: "public_key \<Rightarrow> ge_p3 option" where
  "hash_to_ec key =
     map_option (\<lambda>point. ge_p1p1_to_p3 (ge_mul8 point)) (ge_fromfe_frombytes_vartime (cn_fast_hash key))"

definition generate_key_image :: "public_key \<Rightarrow> bytes \<Rightarrow> key_image option" where
  "generate_key_image pub sec =
     (case hash_to_ec pub of
        None \<Rightarrow> None
      | Some point \<Rightarrow> map_option ge_tobytes (ge_scalarmult sec point))"

text \<open>The entry of \<open>rs_comm\<close> for a key that is not the signer's, as both routines compute it.\<close>

definition ring_entry :: "ge_cached list \<Rightarrow> public_key \<Rightarrow> ge_p3 \<Rightarrow> bytes \<Rightarrow> bytes \<Rightarrow> bytes option" where
  "ring_entry image_pre pub point c r =
     (let a = ge_tobytes (ge_double_scalarmult_base_vartime c point r)
      in map_option (\<lambda>h. a @ ge_tobytes (ge_double_scalarmult_precomp_vartime r h c image_pre)) (hash_to_ec pub))"

fun ring_check_loop ::
    "ge_cached list \<Rightarrow> (public_key \<times> signature) list \<Rightarrow> bytes \<Rightarrow> bytes \<Rightarrow> (bytes \<times> bytes) option option" where
  "ring_check_loop image_pre [] buf csum = Some (Some (buf, csum))"
| "ring_check_loop image_pre ((pub, sig) # rest) buf csum =
     (if sc_check (sig_c sig) \<noteq> 0 \<or> sc_check (sig_r sig) \<noteq> 0 then Some None
      else case ge_frombytes_vartime pub of
        None \<Rightarrow> Some None
      | Some tmp3 \<Rightarrow>
          (case ring_entry image_pre pub tmp3 (sig_c sig) (sig_r sig) of
             None \<Rightarrow> None
           | Some ab \<Rightarrow> ring_check_loop image_pre rest (buf @ ab) (sc_add csum (sig_c sig))))"

definition check_ring_signature :: "hash \<Rightarrow> key_image \<Rightarrow> (public_key \<times> signature) list \<Rightarrow> bool option" where
  "check_ring_signature prefix_hash ki ring =
     (case ge_frombytes_vartime ki of
        None \<Rightarrow> Some False
      | Some image_unp \<Rightarrow>
          let image_pre = ge_dsm_precomp image_unp
          in (case ring_check_loop image_pre ring prefix_hash sc_0 of
                None \<Rightarrow> None
              | Some None \<Rightarrow> Some False
              | Some (Some (buf, csum)) \<Rightarrow>
                  let h = hash_to_scalar buf;
                      h = sc_sub h csum
                  in Some (sc_isnonzero h = 0)))"

text \<open>The loop of the generator; the signature at the signer's index is filled in afterwards.\<close>

fun ring_sign_loop ::
    "ge_cached list \<Rightarrow> nat \<Rightarrow> nat \<Rightarrow> public_key list \<Rightarrow> bytes \<Rightarrow> bytes \<Rightarrow> signature list \<Rightarrow> bytes \<Rightarrow> u64 list \<Rightarrow>
     (bytes \<times> bytes \<times> signature list \<times> bytes \<times> u64 list) option" where
  "ring_sign_loop image_pre sec_index i [] buf csum sigs k st = Some (buf, csum, sigs, k, st)"
| "ring_sign_loop image_pre sec_index i (pub # pubs) buf csum sigs k st =
     (if i = sec_index then
        (let (k, st) = random_scalar st
         in case base_times k of None \<Rightarrow> None | Some a \<Rightarrow>
           (case hash_to_ec pub of None \<Rightarrow> None | Some h \<Rightarrow>
             (case ge_scalarmult k h of None \<Rightarrow> None | Some tmp2 \<Rightarrow>
               ring_sign_loop image_pre sec_index (i + 1) pubs (buf @ a @ ge_tobytes tmp2) csum
                 (sigs @ [replicate 64 0]) k st)))
      else
        (let (c, st) = random_scalar st;
             (r, st) = random_scalar st
         in case ge_frombytes_vartime pub of None \<Rightarrow> None | Some tmp3 \<Rightarrow>
           (case ring_entry image_pre pub tmp3 c r of None \<Rightarrow> None | Some ab \<Rightarrow>
              ring_sign_loop image_pre sec_index (i + 1) pubs (buf @ ab) (sc_add csum c) (sigs @ [c @ r]) k st)))"

definition generate_ring_signature ::
    "hash \<Rightarrow> key_image \<Rightarrow> public_key list \<Rightarrow> bytes \<Rightarrow> nat \<Rightarrow> u64 list \<Rightarrow> (signature list \<times> u64 list) option" where
  "generate_ring_signature prefix_hash ki pubs sec sec_index st =
     (if \<not> sec_index < length pubs then None
      else case ge_frombytes_vartime ki of
        None \<Rightarrow> None
      | Some image_unp \<Rightarrow>
          (case ring_sign_loop (ge_dsm_precomp image_unp) sec_index 0 pubs prefix_hash sc_0 [] sc_0 st of
             None \<Rightarrow> None
           | Some (buf, csum, sigs, k, st) \<Rightarrow>
               let h = hash_to_scalar buf;
                   c = sc_sub h csum
               in Some (sigs[sec_index := c @ sc_mulsub c sec k], st)))"

subsection \<open>Canonical scalars\<close>

definition canonical :: "bytes \<Rightarrow> bool" where
  "canonical s \<longleftrightarrow> length s = 32 \<and> int (le_nat s) < group_order"

lemma canonical_check: "length s = 32 \<Longrightarrow> sc_check s = 0 \<longleftrightarrow> canonical s"
  by (simp add: sc_check_correct canonical_def)

lemma canonical_passes: "canonical s \<Longrightarrow> sc_check s = 0"
  by (simp add: sc_check_correct canonical_def)

lemma group_order_pos: "0 < group_order"
  by (simp add: group_order_def)

lemma canonical_mod: "length s = 32 \<Longrightarrow> int (le_nat s) = x mod group_order \<Longrightarrow> canonical s"
  by (simp add: canonical_def group_order_pos)

lemma canonical_value: "canonical s \<Longrightarrow> int (le_nat s) mod group_order = int (le_nat s)"
  by (simp add: canonical_def)

lemma canonical_unique: "canonical s \<Longrightarrow> canonical t \<Longrightarrow> le_nat s = le_nat t \<Longrightarrow> s = t"
  unfolding canonical_def by (metis nat_to_le_le_nat)

lemma canonical_zero: "canonical sc_0"
proof -
  have "le_nat sc_0 = 0" by (simp add: sc_0_def le_nat_0_iff)
  then show ?thesis by (simp add: canonical_def group_order_pos) (simp add: sc_0_def)
qed

lemma canonical_results:
  "length s = 64 \<Longrightarrow> canonical (sc_reduce s)"
  "length s = 32 \<Longrightarrow> canonical (sc_reduce32 s)"
  "length a = 32 \<Longrightarrow> length b = 32 \<Longrightarrow> canonical (sc_add a b)"
  "length a = 32 \<Longrightarrow> length b = 32 \<Longrightarrow> canonical (sc_sub a b)"
  "length a = 32 \<Longrightarrow> length b = 32 \<Longrightarrow> length c = 32 \<Longrightarrow> canonical (sc_mulsub a b c)"
  by (simp_all add: canonical_def sc_reduce_correct sc_reduce32_correct sc_add_correct sc_sub_correct sc_mulsub_correct
      group_order_pos)

lemma canonical_hash: "canonical (hash_to_scalar data)"
  unfolding hash_to_scalar_def by (rule canonical_results) (simp add: HASH_SIZE_def)

text \<open>The last byte of a canonical scalar is small, so the table of the base point can be used.\<close>

lemma canonical_last: "canonical s \<Longrightarrow> uint (last s) \<le> 127"
proof -
  assume s: "canonical s"
  then have l: "length s = 32" "int (le_nat s) < 2 ^ 253" by (simp_all add: canonical_def group_order_def)
  then obtain t b where t: "s = t @ [b]" "length t = 31" by (cases s rule: rev_cases) auto
  then have "256 ^ 31 * unat b \<le> le_nat s" by (simp add: le_nat_append)
  then have "int (256 ^ 31 * unat b) < 2 ^ 253" using l(2) by linarith
  then have "uint b \<le> 127" by simp
  then show ?thesis using t(1) by simp
qed

lemma base_times_total: "canonical s \<Longrightarrow> \<exists>pub. base_times s = Some pub"
  using scalarmult_base_sum [of s] canonical_last [of s] by (auto simp: base_times_def canonical_def)

text \<open>Equal scalars are recognised by \<open>sc_sub\<close> and \<open>sc_isnonzero\<close>.\<close>

lemma sub_is_zero:
  assumes "length a = 32" "length b = 32"
  shows "sc_isnonzero (sc_sub a b) = 0 \<longleftrightarrow> int (le_nat a) mod group_order = int (le_nat b) mod group_order"
proof -
  have "sc_isnonzero (sc_sub a b) = 0 \<longleftrightarrow> (int (le_nat a) - int (le_nat b)) mod group_order = 0"
    using sc_isnonzero_correct [OF sc_sub_correct(1) [OF assms]] sc_sub_correct(2) [OF assms] by (simp split: if_split)
  then show ?thesis by (simp add: mod_eq_dvd_iff mod_eq_0_iff_dvd)
qed

lemma sig_parts: "length s = 64 \<Longrightarrow> length (sig_c s) = 32 \<and> length (sig_r s) = 32"
  by (simp add: sig_c_def sig_r_def)

definition sig_canonical :: "signature \<Rightarrow> bool" where
  "sig_canonical s \<longleftrightarrow> canonical (sig_c s) \<and> canonical (sig_r s)"

lemma sig_checks: "length s = 64 \<Longrightarrow> \<not> (sc_check (sig_c s) \<noteq> 0 \<or> sc_check (sig_r s) \<noteq> 0) \<longleftrightarrow> sig_canonical s"
  using sig_parts [of s] by (simp add: canonical_check sig_canonical_def)

subsection \<open>The loop over a ring\<close>

definition ring_entry_valid :: "ge_cached list \<Rightarrow> public_key \<times> signature \<Rightarrow> bytes \<Rightarrow> bool" where
  "ring_entry_valid pre ps ab \<longleftrightarrow> sig_canonical (snd ps) \<and>
     (\<exists>P. ge_frombytes_vartime (fst ps) = Some P \<and>
        ring_entry pre (fst ps) P (sig_c (snd ps)) (sig_r (snd ps)) = Some ab)"

lemma ring_check_loop_exact:
  assumes "\<forall>ps \<in> set ring. length (snd ps) = 64"
  shows "ring_check_loop pre ring buf csum = Some (Some (buf', csum')) \<longleftrightarrow>
    (\<exists>es. list_all2 (ring_entry_valid pre) ring es \<and> buf' = buf @ concat es \<and>
       csum' = foldl sc_add csum (map (\<lambda>ps. sig_c (snd ps)) ring))"
  using assms
proof (induction ring arbitrary: buf csum)
  case (Cons ps ring)
  obtain pub s where ps: "ps = (pub, s)" by fastforce
  show ?case
  proof (cases "\<exists>ab. ring_entry_valid pre ps ab")
    case True
    then obtain ab P where v: "sig_canonical s" "ge_frombytes_vartime pub = Some P"
      "ring_entry pre pub P (sig_c s) (sig_r s) = Some ab" by (auto simp: ring_entry_valid_def ps)
    then have "ring_entry_valid pre ps x \<longleftrightarrow> x = ab" for x by (auto simp: ring_entry_valid_def ps)
    moreover have "ring_check_loop pre (ps # ring) buf csum = ring_check_loop pre ring (buf @ ab) (sc_add csum (sig_c s))"
      using v sig_checks [of s] Cons.prems by (simp add: ps)
    ultimately show ?thesis
      using Cons.IH [of "buf @ ab" "sc_add csum (sig_c s)"] Cons.prems by (auto simp: list_all2_Cons1 ps)
  next
    case False
    then have "ring_check_loop pre (ps # ring) buf csum \<noteq> Some (Some (buf', csum'))"
      using sig_checks [of s] Cons.prems
      by (auto simp: ps ring_entry_valid_def split: option.splits if_split_asm)
    then show ?thesis using False by (auto simp: list_all2_Cons1)
  qed
qed auto

lemma sum_of_scalars:
  assumes "\<forall>c \<in> set cs. length c = 32" "canonical z"
  shows "canonical (foldl sc_add z cs) \<and>
    int (le_nat (foldl sc_add z cs)) = (int (le_nat z) + (\<Sum>c\<leftarrow>cs. int (le_nat c))) mod group_order"
  using assms
proof (induction cs arbitrary: z)
  case (Cons c cs)
  then have z: "length z = 32" "length c = 32" by (simp_all add: canonical_def)
  have "canonical (sc_add z c)" by (rule canonical_results(3) [OF z])
  from Cons.IH [OF _ this] Cons.prems show ?case
    by (simp add: sc_add_correct [OF z] mod_add_left_eq add.assoc)
qed (simp add: canonical_value)

subsection \<open>Properties\<close>

text \<open>C19: A signature is accepted exactly when the key decodes, both scalars are below the group order, and the first is
  the hash of the message, the key and the point \<open>c P + r B\<close> that the two scalars give. So no accepted signature
  has a second form: adding the group order to a scalar makes it invalid.\<close>
theorem check_signature_exact:
  assumes "length sig = 64"
  shows "check_signature h pub sig \<longleftrightarrow>
    (\<exists>P. ge_frombytes_vartime pub = Some P \<and> canonical (sig_c sig) \<and> canonical (sig_r sig) \<and>
       sig_c sig = hash_to_scalar (h @ pub @ ge_tobytes (ge_double_scalarmult_base_vartime (sig_c sig) P (sig_r sig))))"
proof (cases "ge_frombytes_vartime pub")
  case None
  then show ?thesis by (simp add: check_signature_def)
next
  case (Some P)
  define c where "c = hash_to_scalar (h @ pub @ ge_tobytes (ge_double_scalarmult_base_vartime (sig_c sig) P (sig_r sig)))"
  have c: "canonical c" by (simp add: c_def canonical_hash)
  have "sc_isnonzero (sc_sub c (sig_c sig)) = 0 \<longleftrightarrow> sig_c sig = c" if "canonical (sig_c sig)"
  proof -
    have l: "length c = 32" "length (sig_c sig) = 32" using c that by (simp_all add: canonical_def)
    have "sc_isnonzero (sc_sub c (sig_c sig)) = 0 \<longleftrightarrow> le_nat c = le_nat (sig_c sig)"
      unfolding sub_is_zero [OF l] canonical_value [OF c] canonical_value [OF that] by simp
    then show ?thesis using canonical_unique [OF that c] by metis
  qed
  then show ?thesis
    using sig_checks [OF assms] by (auto simp: check_signature_def Some Let_def sig_canonical_def simp flip: c_def)
qed

theorem check_signature_exact_witness:
  "check_signature null_pkey (1 # replicate 31 0) (replicate 64 255) \<longleftrightarrow>
   (\<exists>P. ge_frombytes_vartime (1 # replicate 31 0) = Some P \<and>
      canonical (sig_c (replicate 64 255)) \<and> canonical (sig_r (replicate 64 255)) \<and>
      sig_c (replicate 64 255) = hash_to_scalar (null_pkey @ (1 # replicate 31 0) @
        ge_tobytes (ge_double_scalarmult_base_vartime (sig_c (replicate 64 255)) P (sig_r (replicate 64 255)))))"
  by (rule check_signature_exact) (rule length_replicate)

text \<open>C15: A ring signature is accepted exactly when the key image and every key of the ring decode, every scalar is
  below the group order, and the first scalars add up, modulo the order, to the hash of the message and the two
  points of every member.\<close>
theorem check_ring_signature_exact:
  assumes "\<forall>ps \<in> set ring. length (snd ps) = 64"
  shows "check_ring_signature h ki ring = Some True \<longleftrightarrow>
    (\<exists>I es. ge_frombytes_vartime ki = Some I \<and> list_all2 (ring_entry_valid (ge_dsm_precomp I)) ring es \<and>
       (\<Sum>ps\<leftarrow>ring. int (le_nat (sig_c (snd ps)))) mod group_order = int (le_nat (hash_to_scalar (h @ concat es))))"
proof (cases "ge_frombytes_vartime ki")
  case None
  then show ?thesis by (simp add: check_ring_signature_def)
next
  case (Some I)
  let ?cs = "map (\<lambda>ps. sig_c (snd ps)) ring" and ?pre = "ge_dsm_precomp I"
  have s: "canonical (foldl sc_add sc_0 ?cs)"
    "int (le_nat (foldl sc_add sc_0 ?cs)) = (\<Sum>ps\<leftarrow>ring. int (le_nat (sig_c (snd ps)))) mod group_order"
  proof -
    have "le_nat sc_0 = 0" by (simp add: sc_0_def le_nat_0_iff)
    then show "canonical (foldl sc_add sc_0 ?cs)"
      "int (le_nat (foldl sc_add sc_0 ?cs)) = (\<Sum>ps\<leftarrow>ring. int (le_nat (sig_c (snd ps)))) mod group_order"
      using sum_of_scalars [of ?cs sc_0] assms sig_parts canonical_zero by (auto simp: comp_def)
  qed
  have test: "sc_isnonzero (sc_sub (hash_to_scalar b) (foldl sc_add sc_0 ?cs)) = 0 \<longleftrightarrow>
      (\<Sum>ps\<leftarrow>ring. int (le_nat (sig_c (snd ps)))) mod group_order = int (le_nat (hash_to_scalar b))" for b
  proof -
    have "length (hash_to_scalar b) = 32" "length (foldl sc_add sc_0 ?cs) = 32"
      using s(1) canonical_hash [of b] by (simp_all add: canonical_def)
    from sub_is_zero [OF this] show ?thesis
      unfolding canonical_value [OF s(1)] canonical_value [OF canonical_hash] s(2) by auto
  qed
  have "check_ring_signature h ki ring = Some True \<longleftrightarrow>
      (\<exists>buf csum. ring_check_loop ?pre ring h sc_0 = Some (Some (buf, csum)) \<and>
         sc_isnonzero (sc_sub (hash_to_scalar buf) csum) = 0)"
    by (auto simp: check_ring_signature_def Some Let_def split: option.splits)
  then show ?thesis unfolding ring_check_loop_exact [OF assms] Some using test by auto
qed

theorem check_ring_signature_exact_witness:
  "check_ring_signature null_pkey key_I [] = Some True \<longleftrightarrow>
    (\<exists>I es. ge_frombytes_vartime key_I = Some I \<and> list_all2 (ring_entry_valid (ge_dsm_precomp I)) [] es \<and>
       (0 :: int) mod group_order = int (le_nat (hash_to_scalar (null_pkey @ concat es))))"
  using check_ring_signature_exact [of "[]" null_pkey key_I] by simp

lemma random_loop_length: "length st = 25 \<Longrightarrow> length (fst (random_loop n st)) = n \<and> length (snd (random_loop n st)) = 25"
proof (induction n st rule: random_loop.induct)
  case (1 n st)
  have p: "length (hash_permutation st) = 25" using 1 by (simp add: hash_permutation_def length_keccakf)
  then show ?case
    using 1(1) [OF refl] by (subst (1 2) random_loop.simps) (auto simp: Let_def length_state_bytes HASH_DATA_AREA_def)
qed

lemma random_bytes_length:
  "length st = 25 \<Longrightarrow> length (fst (generate_random_bytes n st)) = n \<and> length (snd (generate_random_bytes n st)) = 25"
  using random_loop_length [of st n] by (simp add: generate_random_bytes_def)

lemma random_scalar_canonical: "length st = 25 \<Longrightarrow> canonical (fst (random_scalar st)) \<and> length (snd (random_scalar st)) = 25"
  using random_bytes_length [of st 64] canonical_results(1) by (simp add: random_scalar_def)

lemma canonical_keys:
  "canonical sec \<Longrightarrow> \<exists>pub. base_times sec = Some pub \<and> secret_key_to_public_key sec = Some (Some pub)"
  using base_times_total [of sec] by (auto simp: secret_key_to_public_key_def canonical_passes)

lemma keys_valid:
  assumes "length st = 25" and "length a = 32" and "length base = 32"
  shows "\<exists>pub sec st'. generate_keys st = Some ((pub, sec), st') \<and> canonical sec \<and>
      secret_key_to_public_key sec = Some (Some pub) \<and> length st' = 25"
    and "\<exists>pub sec. keys_from_default a = Some (pub, sec) \<and> canonical sec \<and> secret_key_to_public_key sec = Some (Some pub)"
    and "\<exists>pub sec. keys_from_short (take 16 a) = Some (pub, sec) \<and> canonical sec \<and>
      secret_key_to_public_key sec = Some (Some pub)"
    and "\<exists>sec. dependent_key first = Some sec \<and> canonical sec"
    and "canonical (derive_secret_key der i base) \<and> int (le_nat (derive_secret_key der i base)) =
      (int (le_nat base) + int (le_nat (cn_fast_hash (der @ write_varint i)))) mod group_order"
    and "\<exists>sig st'. generate_signature h pub base st = Some (sig, st') \<and> length sig = 64 \<and> sig_canonical sig"
proof -
  show "\<exists>pub sec st'. generate_keys st = Some ((pub, sec), st') \<and> canonical sec \<and>
      secret_key_to_public_key sec = Some (Some pub) \<and> length st' = 25"
    using random_scalar_canonical [OF assms(1)] canonical_keys [of "fst (random_scalar st)"]
    by (auto simp: generate_keys_def split_beta)
  have "length (take 32 a @ cn_fast_hash a) = 64" using assms(2) by (simp add: HASH_SIZE_def)
  note c = canonical_results(1) [OF this]
  show "\<exists>pub sec. keys_from_default a = Some (pub, sec) \<and> canonical sec \<and> secret_key_to_public_key sec = Some (Some pub)"
    using canonical_keys [OF c] c assms(2) by (auto simp: keys_from_default_def)
  let ?b = "take 16 a @ cn_fast_hash (take 16 a) @ replicate 16 0"
  have "length (take 32 ?b @ cn_fast_hash (take 32 ?b)) = 64" using assms(2) by (simp add: HASH_SIZE_def)
  note d = canonical_results(1) [OF this]
  show "\<exists>pub sec. keys_from_short (take 16 a) = Some (pub, sec) \<and> canonical sec \<and>
      secret_key_to_public_key sec = Some (Some pub)"
    using canonical_keys [OF d] d assms(2) by (auto simp: keys_from_short_def Let_def)
  show "\<exists>sec. dependent_key first = Some sec \<and> canonical sec"
    using canonical_hash [of first] by (simp add: dependent_key_def canonical_passes)
  have e: "length (derivation_to_scalar der i) = 32" "length (cn_fast_hash (der @ write_varint i)) = 32"
    using canonical_hash by (simp_all add: derivation_to_scalar_def canonical_def HASH_SIZE_def)
  have "int (le_nat (derivation_to_scalar der i)) = int (le_nat (cn_fast_hash (der @ write_varint i))) mod group_order"
    using sc_reduce32_correct(2) [OF e(2)] by (simp add: derivation_to_scalar_def hash_to_scalar_def)
  then show "canonical (derive_secret_key der i base) \<and> int (le_nat (derive_secret_key der i base)) =
      (int (le_nat base) + int (le_nat (cn_fast_hash (der @ write_varint i)))) mod group_order"
    using sc_add_correct [OF assms(3) e(1)] canonical_results(3) [OF assms(3) e(1)]
    by (simp add: derive_secret_key_def mod_add_right_eq)
  obtain k st' where k: "random_scalar st = (k, st')" "canonical k"
    using random_scalar_canonical [OF assms(1)] by (cases "random_scalar st") auto
  obtain comm where comm: "base_times k = Some comm" using base_times_total [OF k(2)] by blast
  let ?c = "hash_to_scalar (h @ pub @ comm)"
  have l: "length ?c = 32" "length k = 32" using canonical_hash k(2) by (simp_all add: canonical_def)
  have m: "canonical (sc_mulsub ?c base k)" by (rule canonical_results(5) [OF l(1) assms(3) l(2)])
  then have "length (?c @ sc_mulsub ?c base k) = 64" "sig_canonical (?c @ sc_mulsub ?c base k)"
    using l(1) canonical_hash by (simp_all add: sig_canonical_def sig_c_def sig_r_def canonical_def [of "sc_mulsub _ _ _"])
  then show "\<exists>sig st'. generate_signature h pub base st = Some (sig, st') \<and> length sig = 64 \<and> sig_canonical sig"
    by (simp add: generate_signature_def k(1) comm Let_def)
qed

text \<open>Making keys never fails: whatever the random state or the seed, the secret key is a scalar below the group
  order, the public key is the one that \<open>secret_key_to_public_key\<close> computes from it, and the exception of
  \<open>dependent_key\<close> is never thrown. A derived secret is the sum, modulo the order, of the base and the hash of the
  derivation with the index, and a generated signature consists of canonical scalars.\<close>
theorem keys_always_valid:
  assumes "length st = 25" and "length a = 32" and "length base = 32"
  shows "(\<exists>pub sec st'. generate_keys st = Some ((pub, sec), st') \<and> canonical sec \<and>
        secret_key_to_public_key sec = Some (Some pub) \<and> length st' = 25) \<and>
    (\<exists>pub sec. keys_from_default a = Some (pub, sec) \<and> canonical sec \<and> secret_key_to_public_key sec = Some (Some pub)) \<and>
    (\<exists>pub sec. keys_from_short (take 16 a) = Some (pub, sec) \<and> canonical sec \<and>
        secret_key_to_public_key sec = Some (Some pub)) \<and>
    (\<exists>sec. dependent_key first = Some sec \<and> canonical sec) \<and>
    (canonical (derive_secret_key der i base) \<and> int (le_nat (derive_secret_key der i base)) =
        (int (le_nat base) + int (le_nat (cn_fast_hash (der @ write_varint i)))) mod group_order) \<and>
    (\<exists>sig st'. generate_signature h pub base st = Some (sig, st') \<and> length sig = 64 \<and> sig_canonical sig)"
  by (rule conjI [OF keys_valid(1) [OF assms] conjI [OF keys_valid(2) [OF assms] conjI [OF keys_valid(3) [OF assms] conjI [OF keys_valid(4) [OF assms] conjI [OF keys_valid(5) [OF assms] keys_valid(6) [OF assms]]]]]])

theorem keys_always_valid_witness: "\<exists>sec. dependent_key key_I = Some sec \<and> canonical sec"
  using keys_always_valid [of "replicate 25 0" "replicate 32 0" "replicate 32 0" key_I] by (simp only: length_replicate simp_thms)

end
