(* ===== verification/Chacha.thy ===== *)
theory Chacha
  imports IntUtil
begin

unbundle bit_operations_syntax

section \<open>ChaCha8 (chacha8.c)\<close>

text \<open>
  The stream cipher that encrypts the wallet's keys. The sixteen words of the state are a list; an incomplete last
  block is copied to a local buffer of 64 bytes, whose other bytes are whatever the stack held (\<open>junk\<close>). The
  theorems: the output is the input added bytewise to a key stream that depends on key and iv only, so that
  applying the cipher twice gives the input back, whatever the junk was.
\<close>

subsection \<open>Model\<close>

definition QUARTERROUND :: "nat \<Rightarrow> nat \<Rightarrow> nat \<Rightarrow> nat \<Rightarrow> u32 list \<Rightarrow> u32 list" where
  "QUARTERROUND a b c d x =
     (let x = x[a := x ! a + x ! b]; x = x[d := rol32 (x ! d XOR x ! a) 16];
          x = x[c := x ! c + x ! d]; x = x[b := rol32 (x ! b XOR x ! c) 12];
          x = x[a := x ! a + x ! b]; x = x[d := rol32 (x ! d XOR x ! a) 8];
          x = x[c := x ! c + x ! d]
      in x[b := rol32 (x ! b XOR x ! c) 7])"

text \<open>The body of \<open>for (i = 8; i > 0; i -= 2)\<close>.\<close>

definition double_round :: "u32 list \<Rightarrow> u32 list" where
  "double_round x =
     fold (\<lambda>(a, b, c, d). QUARTERROUND a b c d)
       [(0, 4, 8, 12), (1, 5, 9, 13), (2, 6, 10, 14), (3, 7, 11, 15),
        (0, 5, 10, 15), (1, 6, 11, 12), (2, 7, 8, 13), (3, 4, 9, 14)] x"

text \<open>The words \<open>x0\<close> to \<open>x15\<close> after the rounds and the addition of \<open>j0\<close> to \<open>j15\<close>.\<close>

definition chacha_words :: "u32 list \<Rightarrow> u32 list" where
  "chacha_words j = map2 (+) (double_round (double_round (double_round (double_round j)))) j"

definition sigma :: bytes where
  "sigma = [0x65, 0x78, 0x70, 0x61, 0x6e, 0x64, 0x20, 0x33, 0x32, 0x2d, 0x62, 0x79, 0x74, 0x65, 0x20, 0x6b]"

definition chacha_setup :: "bytes \<Rightarrow> bytes \<Rightarrow> u32 list" where
  "chacha_setup key iv =
     map (\<lambda>i. load32 (drop i sigma)) [0, 4, 8, 12] @
     map (\<lambda>i. load32 (drop i key)) [0, 4, 8, 12, 16, 20, 24, 28] @
     [0, 0, load32 iv, load32 (drop 4 iv)]"

text \<open>\<open>j12 = PLUSONE(j12); if (!j12) j13 = PLUSONE(j13);\<close>\<close>

definition next_block :: "u32 list \<Rightarrow> u32 list" where
  "next_block j =
     (let j = j[12 := j ! 12 + 1]
      in if j ! 12 = 0 then j[13 := j ! 13 + 1] else j)"

text \<open>The words of one block, combined with its 64 bytes and stored.\<close>

definition chacha_block :: "u32 list \<Rightarrow> bytes \<Rightarrow> bytes" where
  "chacha_block j data =
     concat (map (\<lambda>i. store32 (chacha_words j ! i XOR load32 (drop (4 * i) data))) [0..<16])"

function chacha8_loop :: "bytes \<Rightarrow> u32 list \<Rightarrow> bytes \<Rightarrow> bytes" where
  "chacha8_loop junk j data =
     (if length data < 64 then take (length data) (chacha_block j (data @ drop (length data) junk))
      else
        let cipher = chacha_block j (take 64 data)
        in if length data \<le> 64 then cipher else cipher @ chacha8_loop junk (next_block j) (drop 64 data))"
  by pat_completeness auto
termination by (relation "measure (\<lambda>(junk, j, data). length data)") auto

declare chacha8_loop.simps [simp del]

definition chacha8 :: "bytes \<Rightarrow> bytes \<Rightarrow> bytes \<Rightarrow> bytes \<Rightarrow> bytes" where
  "chacha8 junk data key iv = (if length data = 0 then [] else chacha8_loop junk (chacha_setup key iv) data)"

subsection \<open>Words and bytes\<close>

lemma ucast_byte: "(of_nat (unat (w :: u32) div 2 ^ n mod 256) :: u8) = ucast (drop_bit n w)"
proof -
  have "unat (of_nat (unat w div 2 ^ n mod 256) :: u8) = unat w div 2 ^ n mod 256"
    by (rule unat_of_nat_lt) simp
  moreover have "unat (ucast (drop_bit n w) :: u8) = unat w div 2 ^ n mod 256"
    by (simp add: unat_ucast_mod unat_drop_bit)
  ultimately show ?thesis by (simp add: word_unat_eq_iff)
qed

lemma store32_bytes: "store32 w = map (\<lambda>i. ucast (drop_bit (8 * i) w)) [0, 1, 2, 3]"
proof -
  have four: "(4 :: nat) = Suc (Suc (Suc (Suc 0)))" by simp
  have "store32 w = [of_nat (unat w div 2 ^ 0 mod 256), of_nat (unat w div 2 ^ 8 mod 256),
      of_nat (unat w div 2 ^ 16 mod 256), of_nat (unat w div 2 ^ 24 mod 256)]"
    unfolding store32_def four nat_to_le.simps div_mult2_eq [symmetric] by simp
  then show ?thesis unfolding ucast_byte by simp
qed

lemma store32_xor: "store32 (v XOR w) = map2 (XOR) (store32 v) (store32 w)"
  unfolding store32_bytes by (simp add: drop_bit_xor) (auto intro!: bit_word_eqI simp: bit_simps)

lemma xor_bytes:
  "n \<le> length ws \<Longrightarrow> 4 * n \<le> length d \<Longrightarrow>
   concat (map (\<lambda>i. store32 (ws ! i XOR load32 (drop (4 * i) d))) [0..<n]) =
   map2 (XOR) (concat (map store32 (take n ws))) (take (4 * n) d)"
proof (induction n)
  case (Suc n)
  have t: "take (4 * Suc n) d = take (4 * n) d @ take 4 (drop (4 * n) d)"
    using take_add [of "4 * n" 4 d] by (simp add: add.commute)
  have l: "length (concat (map store32 (take n ws))) = length (take (4 * n) d)"
    using Suc.prems by (simp add: length_concat comp_def sum_list_triv)
  show ?case
    using Suc unfolding t take_Suc_conv_app_nth [OF Suc_le_lessD [OF Suc.prems(1)]]
    by (simp add: zip_append [OF l] store32_xor store_load32)
qed simp

subsection \<open>The key stream\<close>

definition stream_block :: "u32 list \<Rightarrow> bytes" where
  "stream_block j = concat (map store32 (chacha_words j))"

fun key_stream :: "nat \<Rightarrow> u32 list \<Rightarrow> bytes" where
  "key_stream 0 j = []"
| "key_stream (Suc n) j = stream_block j @ key_stream n (next_block j)"

lemma length_QUARTERROUND [simp]: "length (QUARTERROUND a b c d x) = length x"
  by (simp add: QUARTERROUND_def Let_def)

lemma length_chacha_words: "length (chacha_words j) = length j"
  by (simp add: chacha_words_def double_round_def)

lemma length_next_block [simp]: "length (next_block j) = length j"
  by (simp add: next_block_def Let_def)

lemma length_stream_block: "length (stream_block j) = 4 * length j"
  by (simp add: stream_block_def length_concat comp_def sum_list_triv length_chacha_words)

lemma length_key_stream: "length j = 16 \<Longrightarrow> length (key_stream n j) = 64 * n"
  by (induction n arbitrary: j) (simp_all add: length_stream_block)

lemma chacha_block_stream:
  assumes "length j = 16" "length d = 64"
  shows "chacha_block j d = map2 (XOR) (stream_block j) d"
proof -
  have "length (chacha_words j) = 16" using assms(1) by (simp add: length_chacha_words)
  then show ?thesis
    using xor_bytes [of 16 "chacha_words j" d] assms(2)
    unfolding chacha_block_def stream_block_def by (simp del: upt_rec_numeral)
qed

lemma zip_to_short: "zip (take (length ys) xs) ys = zip xs ys"
proof (induction ys arbitrary: xs)
  case (Cons y ys)
  then show ?case by (cases xs) simp_all
qed simp

lemma chacha8_loop_stream:
  assumes "length j = 16" "length junk = 64" "length data \<le> 64 * m"
  shows "chacha8_loop junk j data = map2 (XOR) (key_stream m j) data"
  using assms
proof (induction junk j data arbitrary: m rule: chacha8_loop.induct)
  case (1 junk j data)
  show ?case
  proof (cases "length data = 0")
    case True
    then show ?thesis by (subst chacha8_loop.simps) simp
  next
    case False
    then obtain n where m: "m = Suc n" using 1(4) by (cases m) auto
    show ?thesis
    proof (cases "length data < 64")
      case True
      let ?d = "data @ drop (length data) junk"
      have "length ?d = 64" using True 1(3) by simp
      then have "chacha8_loop junk j data = take (length data) (map2 (XOR) (stream_block j) ?d)"
        using True 1(2) by (subst chacha8_loop.simps) (simp add: chacha_block_stream)
      also have "\<dots> = map2 (XOR) (take (length data) (stream_block j)) data"
        by (simp add: take_map take_zip)
      also have "\<dots> = map2 (XOR) (key_stream m j) data"
        using True 1(2) by (simp add: m zip_append1 length_stream_block zip_to_short)
      finally show ?thesis .
    next
      case long: False
      have b: "chacha_block j (take 64 data) = map2 (XOR) (stream_block j) (take 64 data)"
        using long 1(2) by (simp add: chacha_block_stream)
      have z: "map2 (XOR) (key_stream m j) data =
          map2 (XOR) (stream_block j) (take 64 data) @ map2 (XOR) (key_stream n (next_block j)) (drop 64 data)"
        using 1(2) by (simp add: m zip_append1 length_stream_block)
      show ?thesis
      proof (cases "length data \<le> 64")
        case True
        then show ?thesis using long b unfolding z by (subst chacha8_loop.simps) simp
      next
        case False
        have "chacha8_loop junk (next_block j) (drop 64 data) = map2 (XOR) (key_stream n (next_block j)) (drop 64 data)"
          using 1(1) [OF long refl False, of n] 1(2-4) m by simp
        then show ?thesis using long False b unfolding z by (subst chacha8_loop.simps) simp
      qed
    qed
  qed
qed

lemma xor_twice: "length ks \<ge> length d \<Longrightarrow> map2 (XOR) ks (map2 (XOR) ks (d :: bytes)) = d"
proof (induction d arbitrary: ks)
  case (Cons b d)
  then show ?case by (cases ks) (simp_all flip: xor.assoc)
qed simp

lemma chacha8_stream:
  assumes "length junk = 64" "length data \<le> 64 * m"
  shows "chacha8 junk data key iv = map2 (XOR) (key_stream m (chacha_setup key iv)) data"
  using chacha8_loop_stream [OF _ assms, of "chacha_setup key iv"] by (simp add: chacha8_def chacha_setup_def)

subsection \<open>Properties\<close>

lemma chacha8_stream_laws:
  assumes "length junk = 64" and "length junk' = 64" and "length data \<le> 64 * m"
  shows "chacha8 junk data key iv = map2 (XOR) (key_stream m (chacha_setup key iv)) data"
    and "length (chacha8 junk data key iv) = length data"
    and "chacha8 junk' (chacha8 junk data key iv) key iv = data"
proof -
  have l: "length (key_stream m (chacha_setup key iv)) = 64 * m" by (rule length_key_stream) (simp add: chacha_setup_def)
  show e: "chacha8 junk data key iv = map2 (XOR) (key_stream m (chacha_setup key iv)) data"
    by (rule chacha8_stream [OF assms(1,3)])
  then show s: "length (chacha8 junk data key iv) = length data" using l assms(3) by simp
  show "chacha8 junk' (chacha8 junk data key iv) key iv = data"
    using chacha8_stream [OF assms(2), of "chacha8 junk data key iv" m] s assms(3) l unfolding e
    by (simp add: xor_twice)
qed

text \<open>C39: The cipher adds a key stream of 64-byte blocks that depends on key and iv only, byte by byte, to data of any
  length; so the bytes of the stack that an incomplete block is padded with never reach the output, its length is
  that of the data, and applying the cipher twice gives the data back.\<close>
theorem chacha8_is_stream_cipher:
  assumes "length junk = 64" and "length junk' = 64" and "length data \<le> 64 * m"
  shows "(chacha8 junk data key iv = map2 (XOR) (key_stream m (chacha_setup key iv)) data) \<and>
    (length (chacha8 junk data key iv) = length data) \<and>
    (chacha8 junk' (chacha8 junk data key iv) key iv = data)"
  by (intro conjI impI) (rule chacha8_stream_laws [OF assms]; assumption?)+

theorem chacha8_is_stream_cipher_witness:
  "chacha8 (replicate 64 7) (chacha8 (replicate 64 0) [1, 2, 3] (replicate 32 0) (replicate 8 0))
     (replicate 32 0) (replicate 8 0) = [1, 2, 3]"
  by (rule conjunct2 [OF conjunct2 [OF chacha8_is_stream_cipher [of _ _ _ 1]]]) simp_all

end
