(* ===== verification/HexText.thy ===== *)
theory HexText
  imports Prelude
begin

section \<open>Hexadecimal texts (string_tools.h of epee, bc_payments_id.h)\<close>

text \<open>
  Bytes written as hexadecimal digits and read back: what checkpoints, links between offers and payment ids go
  through. A text is a list of bytes. The reader hands two characters at a time to \<open>strtoul\<close> with base 16, so
  it takes what \<open>strtoul\<close> takes: digits of either case, but also a blank or a sign before a single digit, and a
  single digit at the end of a text of odd length. The theorems: writing and reading is the identity, and the
  exact set of texts that are read.
\<close>

subsection \<open>Model\<close>

definition hex_char :: "u8 \<Rightarrow> u8" where
  "hex_char d = (if d < 10 then 0x30 + d else 0x57 + d)"

text \<open>\<open>hexStream << setw(2) << setfill('0') << static_cast<unsigned int>(c)\<close> for every byte.\<close>

definition buff_to_hex_nodelimer :: "bytes \<Rightarrow> bytes" where
  "buff_to_hex_nodelimer s = concat (map (\<lambda>c. [hex_char (c div 16), hex_char (c mod 16)]) s)"

definition pod_to_hex :: "bytes \<Rightarrow> bytes" where
  "pod_to_hex s = buff_to_hex_nodelimer s"

text \<open>\<open>isspace\<close> in the classic locale.\<close>

definition isspace :: "u8 \<Rightarrow> bool" where
  "isspace c \<longleftrightarrow> c = 0x20 \<or> (9 \<le> c \<and> c \<le> 13)"

definition xdigit :: "u8 \<Rightarrow> nat option" where
  "xdigit c =
     (if 0x30 \<le> c \<and> c \<le> 0x39 then Some (unat (c - 0x30))
      else if 0x61 \<le> c \<and> c \<le> 0x66 then Some (unat (c - 0x57))
      else if 0x41 \<le> c \<and> c \<le> 0x46 then Some (unat (c - 0x37))
      else None)"

text \<open>
  \<open>strtoul\<close> with base 16: blanks, a sign, the prefix \<open>0x\<close> when a digit follows, digits. The value and the characters
  that are left; a text without digits is not converted and is left whole. A value above \<open>ULONG_MAX\<close> becomes
  \<open>ULONG_MAX\<close>, a minus sign negates modulo \<open>2 ^ 64\<close>. A NUL ends the text because it is no digit.
\<close>

fun xdigits :: "bytes \<Rightarrow> nat \<Rightarrow> nat \<times> bytes" where
  "xdigits [] v = (v, [])"
| "xdigits (c # cs) v = (case xdigit c of None \<Rightarrow> (v, c # cs) | Some d \<Rightarrow> xdigits cs (16 * v + d))"

definition starts_with_digit :: "bytes \<Rightarrow> bool" where
  "starts_with_digit s = (case s of [] \<Rightarrow> False | c # _ \<Rightarrow> xdigit c \<noteq> None)"

definition skip_prefix :: "bytes \<Rightarrow> bytes" where
  "skip_prefix s = (case s of a # b # cs \<Rightarrow>
     if a = 0x30 \<and> (b = 0x78 \<or> b = 0x58) \<and> starts_with_digit cs then cs else s | _ \<Rightarrow> s)"

definition read_sign :: "bytes \<Rightarrow> bool \<times> bytes" where
  "read_sign s = (case s of c # cs \<Rightarrow> if c = 0x2D then (True, cs) else if c = 0x2B then (False, cs) else (False, s)
     | [] \<Rightarrow> (False, []))"

definition strtoul16 :: "bytes \<Rightarrow> u64 \<times> bytes" where
  "strtoul16 s =
     (let (neg, t) = read_sign (dropWhile isspace s); t = skip_prefix t
      in if \<not> starts_with_digit t then (0, s)
         else let (v, rest) = xdigits t 0; w = (if v < 2 ^ 64 then of_nat v else - 1)
              in (if neg \<and> v < 2 ^ 64 then - w else w, rest))"

text \<open>One turn of the loop takes at most two characters.\<close>

fun parse_hexstr_to_binbuff :: "bytes \<Rightarrow> bytes option" where
  "parse_hexstr_to_binbuff [] = Some []"
| "parse_hexstr_to_binbuff [c] =
     (let (v, rest) = strtoul16 [c] in if 0xFF < v \<or> rest \<noteq> [] then None else Some [ucast v])"
| "parse_hexstr_to_binbuff (c # d # s) =
     (let (v, rest) = strtoul16 [c, d]
      in if 0xFF < v \<or> rest \<noteq> [] then None else map_option (Cons (ucast v)) (parse_hexstr_to_binbuff s))"

definition parse_0hexstr_to_binbuff :: "bytes \<Rightarrow> bytes option" where
  "parse_0hexstr_to_binbuff s =
     (if length s mod 2 = 1 then parse_hexstr_to_binbuff (0x30 # s) else parse_hexstr_to_binbuff s)"

text \<open>For a plain type of \<open>sz\<close> bytes.\<close>

definition parse_tpod_from_hex_string :: "nat \<Rightarrow> bytes \<Rightarrow> bytes option" where
  "parse_tpod_from_hex_string sz s =
     (case parse_hexstr_to_binbuff s of
        None \<Rightarrow> None
      | Some buf \<Rightarrow> if length buf \<noteq> sz then None else Some buf)"

definition trim_left :: "bytes \<Rightarrow> bytes" where "trim_left s = dropWhile isspace s"
definition trim_right :: "bytes \<Rightarrow> bytes" where "trim_right s = rev (dropWhile isspace (rev s))"
definition trim_blanks :: "bytes \<Rightarrow> bytes" where "trim_blanks s = trim_right (trim_left s)"

definition hex_to_pod :: "nat \<Rightarrow> bytes \<Rightarrow> bytes option" where
  "hex_to_pod sz hex_str =
     (let hex_str_tr = trim_blanks hex_str
      in if sz * 2 \<noteq> length hex_str then None
         else (case parse_hexstr_to_binbuff hex_str_tr of
                 None \<Rightarrow> None
               | Some bin_buff \<Rightarrow> if length bin_buff \<noteq> sz then None else Some bin_buff))"

text \<open>\<open>bc_payment_id\<close>: a string of bytes. A text that cannot be read clears the id.\<close>

definition BC_PAYMENT_ID_SERVICE_SIZE_MAX :: nat where "BC_PAYMENT_ID_SERVICE_SIZE_MAX = 128"

record bc_payment_id = pid_id :: bytes

definition pid_empty :: "bc_payment_id \<Rightarrow> bool" where "pid_empty p \<longleftrightarrow> pid_id p = []"

definition is_size_ok :: "bc_payment_id \<Rightarrow> bool" where
  "is_size_ok p \<longleftrightarrow> length (pid_id p) \<le> BC_PAYMENT_ID_SERVICE_SIZE_MAX"

definition get_hex :: "bc_payment_id \<Rightarrow> bytes" where "get_hex p = buff_to_hex_nodelimer (pid_id p)"

definition from_hex :: "bytes \<Rightarrow> bc_payment_id \<Rightarrow> bool \<times> bc_payment_id" where
  "from_hex hex p =
     (case parse_0hexstr_to_binbuff hex of
        None \<Rightarrow> (False, p\<lparr>pid_id := []\<rparr>)
      | Some res \<Rightarrow> (True, p\<lparr>pid_id := res\<rparr>))"

subsection \<open>Digits and pairs\<close>

lemma hex_char_digits: "list_all (\<lambda>n. xdigit (hex_char (of_nat n)) = Some n) [0..<16]"
  by code_simp

lemma hex_char_digit: "unat d < 16 \<Longrightarrow> xdigit (hex_char d) = Some (unat d)"
  using list_all_uptD [OF hex_char_digits, of "unat d"] by simp

lemma xdigit_bound: "xdigit c = Some v \<Longrightarrow> v < 16"
proof -
  have b: "unat (c - k) \<le> m" if "k \<le> c" "c \<le> k + of_nat m" "unat k + m < 256" for k :: u8 and m
  proof -
    have "unat (k + of_nat m) = unat k + m"
      using that(3) by (subst unat_add_no_wrap) (simp_all add: unat_of_nat)
    then show ?thesis using that by (simp add: unat_sub_le word_le_nat_alt)
  qed
  assume "xdigit c = Some v"
  then show ?thesis
    using b [of "0x30" 9] b [of "0x57" 15] b [of "0x37" 15] order_trans [of "0x57" "0x61" c] order_trans [of "0x37" "0x41" c]
    by (simp add: xdigit_def split: if_split_asm)
qed

lemma xdigit_no_blank: "xdigit c = Some v \<Longrightarrow> \<not> isspace c \<and> c \<noteq> 0x2D \<and> c \<noteq> 0x2B"
  by (auto simp: xdigit_def isspace_def word_le_nat_alt split: if_split_asm)

text \<open>What is read as a byte: two digits, or a blank or a sign and one digit, where only zero has a minus.\<close>

definition pair_value :: "u8 \<Rightarrow> u8 \<Rightarrow> nat option" where
  "pair_value c d =
     (case (xdigit c, xdigit d) of
        (Some a, Some b) \<Rightarrow> Some (16 * a + b)
      | (None, Some b) \<Rightarrow> if isspace c \<or> c = 0x2B \<or> c = 0x2D \<and> b = 0 then Some b else None
      | _ \<Rightarrow> None)"

lemma pair_value_bound: "pair_value c d = Some v \<Longrightarrow> v < 256"
  using xdigit_bound [of c] xdigit_bound [of d] by (fastforce simp: pair_value_def split: option.splits if_split_asm)

lemma byte_of_value:
  assumes "v < 256"
  shows "\<not> (0xFF :: u64) < of_nat v" and "ucast (of_nat v :: u64) = (of_nat v :: u8)"
proof -
  have "unat (of_nat v :: u64) = v" using assms by (intro unat_of_nat_lt) simp
  then show "\<not> (0xFF :: u64) < of_nat v" "ucast (of_nat v :: u64) = (of_nat v :: u8)"
    using assms by (simp_all add: word_less_nat_alt word_unat_eq_iff unat_ucast_mod unat_of_nat)
qed

lemma negated_is_big:
  assumes "0 < v" "v < 256"
  shows "(0xFF :: u64) < - of_nat v"
proof -
  have "- (of_nat v :: u64) = of_nat (2 ^ 64 - v)" using assms by (simp add: of_nat_diff)
  moreover have "unat (of_nat (2 ^ 64 - v) :: u64) = 2 ^ 64 - v" using assms by (intro unat_of_nat_lt) simp
  ultimately have "unat (- of_nat v :: u64) = 2 ^ 64 - v" by (simp only:)
  then show ?thesis using assms by (simp add: word_less_nat_alt)
qed

lemma strtoul_pair:
  "(case strtoul16 [c, d] of (v, rest) \<Rightarrow> if 0xFF < v \<or> rest \<noteq> [] then None else Some (ucast v :: u8)) =
   map_option of_nat (pair_value c d)"
proof (cases "xdigit c")
  case (Some a)
  then show ?thesis
    using xdigit_no_blank [OF Some] xdigit_bound [OF Some] xdigit_bound [of d] byte_of_value [of "16 * a + the (xdigit d)"]
    by (cases "xdigit d")
      (auto simp: strtoul16_def read_sign_def skip_prefix_def starts_with_digit_def pair_value_def)
next
  case None
  then show ?thesis
    using xdigit_no_blank [of d] xdigit_bound [of d] byte_of_value [of "the (xdigit d)"]
      negated_is_big [of "the (xdigit d)"]
    by (cases "xdigit d")
      (auto simp: strtoul16_def read_sign_def skip_prefix_def starts_with_digit_def pair_value_def)
qed

lemma strtoul_single:
  "(case strtoul16 [c] of (v, rest) \<Rightarrow> if 0xFF < v \<or> rest \<noteq> [] then None else Some [ucast v :: u8]) =
   map_option (\<lambda>v. [of_nat v]) (xdigit c)"
  using xdigit_no_blank [of c] xdigit_bound [of c] byte_of_value [of "the (xdigit c)"]
  by (cases "xdigit c") (auto simp: strtoul16_def read_sign_def skip_prefix_def starts_with_digit_def)

declare parse_hexstr_to_binbuff.simps(2,3) [simp del]

lemma parse_pair:
  "parse_hexstr_to_binbuff (c # d # s) =
     (case pair_value c d of None \<Rightarrow> None | Some v \<Rightarrow> map_option (Cons (of_nat v)) (parse_hexstr_to_binbuff s))"
  using strtoul_pair [of c d]
  by (cases "strtoul16 [c, d]") (auto simp: parse_hexstr_to_binbuff.simps(3) split: option.splits if_split_asm)

lemma parse_single: "parse_hexstr_to_binbuff [c] = map_option (\<lambda>v. [of_nat v]) (xdigit c)"
  using strtoul_single [of c] by (simp add: parse_hexstr_to_binbuff.simps(2))

lemma hex_pair: "pair_value (hex_char (b div 16)) (hex_char (b mod 16)) = Some (unat b)"
proof -
  have "unat (b div 16) = unat b div 16" "unat (b mod 16) = unat b mod 16" by (simp_all add: unat_div unat_mod)
  moreover have "unat b div 16 < 16" using unat_u8_bound [of b] by (simp only: div_less_iff_less_mult)
  ultimately show ?thesis by (simp add: pair_value_def hex_char_digit)
qed

lemma parse_hex_text: "parse_hexstr_to_binbuff (buff_to_hex_nodelimer b @ s) = map_option ((@) b) (parse_hexstr_to_binbuff s)"
  by (induction b) (simp_all add: buff_to_hex_nodelimer_def parse_pair hex_pair option.map_comp comp_def option.map_ident)

lemma hex_text_length: "length (buff_to_hex_nodelimer b) = 2 * length b"
  by (induction b) (simp_all add: buff_to_hex_nodelimer_def)

lemma hex_text_digits: "c \<in> set (buff_to_hex_nodelimer b) \<Longrightarrow> xdigit c \<noteq> None"
proof -
  have "unat (x div 16) < 16" "unat (x mod 16) < 16" for x :: u8
    using unat_u8_bound [of x] by (simp_all add: unat_div unat_mod div_less_iff_less_mult)
  then show "c \<in> set (buff_to_hex_nodelimer b) \<Longrightarrow> xdigit c \<noteq> None"
    by (auto simp: buff_to_hex_nodelimer_def hex_char_digit)
qed

lemma no_blank_trim: "\<forall>c \<in> set s. \<not> isspace c \<Longrightarrow> trim_blanks s = s"
proof -
  assume s: "\<forall>c \<in> set s. \<not> isspace c"
  have "dropWhile isspace t = t" if "\<forall>c \<in> set t. \<not> isspace c" for t using that by (cases t) simp_all
  from this [of s] this [of "rev s"] s show ?thesis
    by (simp only: trim_blanks_def trim_left_def trim_right_def set_rev rev_rev_ident)
qed

subsection \<open>Properties\<close>

lemma hex_texts:
  shows "parse_hexstr_to_binbuff (buff_to_hex_nodelimer b) = Some b"
    and "parse_tpod_from_hex_string (length b) (pod_to_hex b) = Some b"
    and "hex_to_pod (length b) (pod_to_hex b) = Some b"
    and "from_hex (get_hex p) q = (True, p)"
    and "parse_hexstr_to_binbuff (c # d # s) =
       (case pair_value c d of None \<Rightarrow> None | Some v \<Rightarrow> map_option (Cons (of_nat v)) (parse_hexstr_to_binbuff s))"
    and "parse_hexstr_to_binbuff [c] = map_option (\<lambda>v. [of_nat v]) (xdigit c)"
proof -
  have r: "parse_hexstr_to_binbuff (buff_to_hex_nodelimer x) = Some x" for x using parse_hex_text [of x "[]"] by simp
  then show "parse_hexstr_to_binbuff (buff_to_hex_nodelimer b) = Some b" .
  then show "parse_tpod_from_hex_string (length b) (pod_to_hex b) = Some b"
    by (simp add: parse_tpod_from_hex_string_def pod_to_hex_def)
  have "trim_blanks (buff_to_hex_nodelimer b) = buff_to_hex_nodelimer b"
    using hex_text_digits xdigit_no_blank by (intro no_blank_trim) blast
  then show "hex_to_pod (length b) (pod_to_hex b) = Some b"
    by (simp add: hex_to_pod_def pod_to_hex_def r hex_text_length)
  show "from_hex (get_hex p) q = (True, p)"
    by (simp add: from_hex_def get_hex_def parse_0hexstr_to_binbuff_def hex_text_length r)
  show "parse_hexstr_to_binbuff (c # d # s) =
       (case pair_value c d of None \<Rightarrow> None | Some v \<Rightarrow> map_option (Cons (of_nat v)) (parse_hexstr_to_binbuff s))"
    by (rule parse_pair)
  show "parse_hexstr_to_binbuff [c] = map_option (\<lambda>v. [of_nat v]) (xdigit c)" by (rule parse_single)
qed

text \<open>Bytes are read back from their hexadecimal text by every reader, and the readers take exactly these further
  texts: pairs of digits of either case, a blank or a plus sign before a digit, a minus sign before zero, and one
  digit alone at the end.\<close>
theorem hex_text_exact:
  shows "(parse_hexstr_to_binbuff (buff_to_hex_nodelimer b) = Some b) \<and>
    (parse_tpod_from_hex_string (length b) (pod_to_hex b) = Some b) \<and>
    (hex_to_pod (length b) (pod_to_hex b) = Some b) \<and>
    (from_hex (get_hex p) q = (True, p)) \<and>
    (parse_hexstr_to_binbuff (c # d # s) =
         (case pair_value c d of None \<Rightarrow> None | Some v \<Rightarrow> map_option (Cons (of_nat v)) (parse_hexstr_to_binbuff s))) \<and>
    (parse_hexstr_to_binbuff [c] = map_option (\<lambda>v. [of_nat v]) (xdigit c))"
  by (intro conjI impI) (rule hex_texts; assumption?)+

text \<open>
  \<open>hex_to_pod\<close> compares the length before trimming and lets the last byte be a single digit, so a blank and an odd
  number of digits is read as if it were complete.
\<close>
theorem hex_to_pod_blank:
  assumes "isspace c" and "xdigit d = Some v"
  shows "hex_to_pod (length b + 1) (c # buff_to_hex_nodelimer b @ [d]) = Some (b @ [of_nat v])"
proof -
  have "x \<in> set (buff_to_hex_nodelimer b @ [d]) \<Longrightarrow> \<not> isspace x" for x
    using hex_text_digits [of x b] xdigit_no_blank assms(2) by (auto simp del: not_None_eq)
  then have "trim_blanks (buff_to_hex_nodelimer b @ [d]) = buff_to_hex_nodelimer b @ [d]" by (intro no_blank_trim) blast
  moreover have "trim_blanks (c # t) = trim_blanks t" for t using assms(1) by (simp add: trim_blanks_def trim_left_def)
  ultimately show ?thesis
    using assms by (simp add: hex_to_pod_def hex_text_length parse_hex_text parse_single)
qed

theorem hex_to_pod_blank_witness: "hex_to_pod 2 [0x20, 0x61, 0x62, 0x63] = Some [0xAB, 0xC]"
proof -
  have "isspace 0x20" "xdigit 0x63 = Some 12" "buff_to_hex_nodelimer [0xAB] = [0x61, 0x62]" by code_simp+
  from hex_to_pod_blank [OF this(1,2), of "[0xAB]"] this(3) show ?thesis by (simp add: numeral_2_eq_2)
qed

end
