(* ===== verification/Checkpoints.thy ===== *)
theory Checkpoints
  imports HexText Transactions
begin

section \<open>Checkpoints (checkpoints.cpp)\<close>

text \<open>
  The heights at which the identity of the block is fixed in advance. The \<open>std::map\<close> is a list of pairs sorted by
  height. The theorems: adding keeps the map sorted and never changes a checkpoint, and \<open>check_blocks\<close> accepts a
  chain exactly when it passes every checkpoint up to its top, else reports how far it is valid.
\<close>

type_synonym checkpoints = "(u64 \<times> hash) list"

text \<open>\<open>m_points[height] = h\<close> for a height that is not there, \<open>find\<close>, \<open>lower_bound\<close> and \<open>--end()\<close>.\<close>

fun map_insert :: "u64 \<Rightarrow> 'a \<Rightarrow> (u64 \<times> 'a) list \<Rightarrow> (u64 \<times> 'a) list" where
  "map_insert k v [] = [(k, v)]"
| "map_insert k v ((k', v') # m) = (if k < k' then (k, v) # (k', v') # m else (k', v') # map_insert k v m)"

definition lower_bound :: "u64 \<Rightarrow> (u64 \<times> 'a) list \<Rightarrow> (u64 \<times> 'a) option" where
  "lower_bound k m = List.find (\<lambda>kv. k \<le> fst kv) m"

definition add_checkpoint :: "u64 \<Rightarrow> bytes \<Rightarrow> checkpoints \<Rightarrow> bool \<times> checkpoints" where
  "add_checkpoint height hash_str m_points =
     (case parse_tpod_from_hex_string 32 hash_str of
        None \<Rightarrow> (False, m_points)
      | Some h \<Rightarrow>
          if map_of m_points height \<noteq> None then (False, m_points)
          else (True, map_insert height h m_points))"

definition is_in_checkpoint_zone :: "u64 \<Rightarrow> checkpoints \<Rightarrow> bool" where
  "is_in_checkpoint_zone height m_points \<longleftrightarrow> height = 0 \<or> m_points \<noteq> [] \<and> height \<le> fst (last m_points)"

definition is_height_passed_zone :: "u64 \<Rightarrow> u64 \<Rightarrow> checkpoints \<Rightarrow> bool" where
  "is_height_passed_zone height blockchain_last_block_height m_points =
     (if blockchain_last_block_height < height then False
      else (case lower_bound height m_points of
              None \<Rightarrow> False
            | Some it \<Rightarrow> fst it \<le> blockchain_last_block_height))"

definition get_top_checkpoint_height :: "checkpoints \<Rightarrow> u64" where
  "get_top_checkpoint_height m_points = (if m_points = [] then 0 else fst (last m_points))"

definition check_block :: "u64 \<Rightarrow> hash \<Rightarrow> checkpoints \<Rightarrow> bool" where
  "check_block height h m_points =
     (case map_of m_points height of None \<Rightarrow> True | Some h' \<Rightarrow> h' = h)"

text \<open>The result and \<open>valid_blockchain_size\<close>.\<close>

fun check_blocks_from :: "(u64 \<Rightarrow> hash) \<Rightarrow> u64 \<Rightarrow> checkpoints \<Rightarrow> u64 \<Rightarrow> bool \<times> u64" where
  "check_blocks_from get_block_hash max_height [] valid_size = (True, valid_size)"
| "check_blocks_from get_block_hash max_height (kv # m) valid_size =
     (if max_height < fst kv then (True, valid_size)
      else if get_block_hash (fst kv) \<noteq> snd kv then (False, valid_size)
      else check_blocks_from get_block_hash max_height m (fst kv + 1))"

definition check_blocks :: "(u64 \<Rightarrow> hash) \<Rightarrow> u64 \<Rightarrow> checkpoints \<Rightarrow> bool \<times> u64" where
  "check_blocks get_block_hash max_height m_points = check_blocks_from get_block_hash max_height m_points 1"

subsection \<open>Sorted maps\<close>

abbreviation sorted_map :: "(u64 \<times> 'a) list \<Rightarrow> bool" where
  "sorted_map m \<equiv> sorted_wrt (<) (map fst m)"

lemma map_insert_keys: "fst ` set (map_insert k v m) = insert k (fst ` set m)"
  by (induction k v m rule: map_insert.induct) (simp_all add: insert_commute)

lemma map_insert_sorted: "sorted_map m \<Longrightarrow> k \<notin> fst ` set m \<Longrightarrow> sorted_map (map_insert k v m)"
proof (induction m)
  case (Cons kv m)
  have "\<forall>x \<in> fst ` set (map_insert k v m). fst kv < x" if "\<not> k < fst kv"
    using Cons.prems that unfolding map_insert_keys by (auto simp: not_less_iff_gr_or_eq)
  then show ?case using Cons by (cases kv) (auto intro: order_less_trans)
qed simp

lemma map_insert_lookup: "k \<notin> fst ` set m \<Longrightarrow> map_of (map_insert k v m) = (map_of m)(k \<mapsto> v)"
  by (induction k v m rule: map_insert.induct) (auto simp: fun_upd_twist)

lemma last_is_greatest: "sorted_map m \<Longrightarrow> m \<noteq> [] \<Longrightarrow> kv \<in> set m \<Longrightarrow> fst kv \<le> fst (last m)"
proof (induction m rule: rev_induct)
  case (snoc x m)
  then show ?case by (auto simp: sorted_wrt_append)
qed simp

lemma lower_bound_found:
  assumes "sorted_map m"
  shows "(case lower_bound k m of None \<Rightarrow> False | Some kv \<Rightarrow> fst kv \<le> b) \<longleftrightarrow> (\<exists>kv \<in> set m. k \<le> fst kv \<and> fst kv \<le> b)"
  using assms
proof (induction m)
  case (Cons kv m)
  show ?case
  proof (cases "k \<le> fst kv")
    case True
    have "fst kv < fst x" if "x \<in> set m" for x using Cons.prems that by simp
    then show ?thesis using True by (auto simp: lower_bound_def intro: order_trans [OF order_less_imp_le])
  next
    case False
    then show ?thesis using Cons by (simp add: lower_bound_def)
  qed
qed (simp add: lower_bound_def)

text \<open>The maps that \<open>add_checkpoint\<close> builds.\<close>

inductive built :: "checkpoints \<Rightarrow> bool" where
  start: "built []"
| add: "built m \<Longrightarrow> built (snd (add_checkpoint height hash_str m))"

lemma add_checkpoint_sorted: "sorted_map m \<Longrightarrow> sorted_map (snd (add_checkpoint height hash_str m))"
  by (auto simp: add_checkpoint_def map_of_eq_None_iff intro: map_insert_sorted split: option.split)

lemma built_sorted: "built m \<Longrightarrow> sorted_map m"
  by (induction rule: built.induct) (simp_all add: add_checkpoint_sorted)

lemma check_blocks_from_exact:
  assumes "sorted_map m"
  shows "fst (check_blocks_from g tip m n) \<longleftrightarrow> (\<forall>kv \<in> set m. fst kv \<le> tip \<longrightarrow> g (fst kv) = snd kv)"
  using assms
proof (induction m arbitrary: n)
  case (Cons kv m)
  then show ?case by (auto simp: not_less dest: order_less_le_trans)
qed simp

lemma plus_one_le: "x < (y :: u64) \<Longrightarrow> x + 1 \<le> y \<and> x < x + 1"
proof -
  assume xy: "x < y"
  have "unat y < 18446744073709551616" by (rule unat_u64_bound)
  then have "unat x + 1 < 18446744073709551616" using xy by (simp only: word_less_nat_alt)
  then have "unat (x + 1) = unat x + 1" using unat_add_no_wrap [of x 1] by simp
  then show ?thesis using xy by (simp add: word_less_nat_alt word_le_nat_alt)
qed

text \<open>When a checkpoint fails, the reported size lies behind all that were passed before it.\<close>

lemma check_blocks_from_fails:
  assumes "sorted_map m" "check_blocks_from g tip m n = (False, s)" "\<forall>kv \<in> set m. n = 1 \<or> n \<le> fst kv"
  shows "\<exists>kv \<in> set m. fst kv \<le> tip \<and> g (fst kv) \<noteq> snd kv \<and> n \<le> s \<and> (s = 1 \<or> s \<le> fst kv) \<and>
    (\<forall>kv' \<in> set m. fst kv' < fst kv \<longrightarrow> g (fst kv') = snd kv' \<and> fst kv' < s)"
  using assms
proof (induction m arbitrary: n)
  case (Cons kv m)
  then have le: "fst kv \<le> tip" and later: "\<forall>x \<in> set m. fst kv < fst x" by (auto split: if_split_asm)
  show ?case
  proof (cases "g (fst kv) = snd kv")
    case False
    then have "s = n" using Cons.prems(2) le by (auto split: if_split_asm)
    then show ?thesis
      using False le later Cons.prems(3) by (intro bexI [of _ kv]) (auto dest: order_less_asym)
  next
    case True
    have next_le: "fst kv + 1 \<le> fst x" "fst kv < fst kv + 1" if "x \<in> set m" for x
      using later that plus_one_le [of "fst kv" "fst x"] by blast+
    then have "\<forall>x \<in> set m. fst kv + 1 = 1 \<or> fst kv + 1 \<le> fst x" by blast
    then obtain x where x: "x \<in> set m" "fst x \<le> tip" "g (fst x) \<noteq> snd x" "fst kv + 1 \<le> s" "s = 1 \<or> s \<le> fst x"
      "\<forall>y \<in> set m. fst y < fst x \<longrightarrow> g (fst y) = snd y \<and> fst y < s"
      using Cons.IH [of "fst kv + 1"] Cons.prems True le by (auto split: if_split_asm)
    have kv: "fst kv < s" using next_le(2) [OF x(1)] x(4) by (rule order_less_le_trans)
    have "n \<le> s"
    proof (cases "n = 1")
      case True
      then show ?thesis using kv by (auto simp: word_le_nat_alt word_less_nat_alt)
    next
      case False
      then show ?thesis using Cons.prems(3) kv by (auto intro: order_trans)
    qed
    then show ?thesis using x kv True by (intro bexI [of _ x]) auto
  qed
qed simp

subsection \<open>Properties\<close>

lemma checkpoints_say:
  assumes "built m"
  shows "is_in_checkpoint_zone h m \<longleftrightarrow> h = 0 \<or> (\<exists>kv \<in> set m. h \<le> fst kv)"
    and "is_height_passed_zone h tip m \<longleftrightarrow> h \<le> tip \<and> (\<exists>kv \<in> set m. h \<le> fst kv \<and> fst kv \<le> tip)"
    and "fst (check_blocks g tip m) \<longleftrightarrow> (\<forall>h' \<le> tip. check_block h' (g h') m)"
    and "check_blocks g tip m = (False, valid) \<Longrightarrow>
      \<exists>h' \<le> tip. \<not> check_block h' (g h') m \<and> valid \<le> max 1 h' \<and>
        (\<forall>kv \<in> set m. fst kv < h' \<longrightarrow> g (fst kv) = snd kv \<and> fst kv < valid)"
proof -
  have m: "sorted_map m" using assms by (rule built_sorted)
  have d: "distinct (map fst m)" using m by (simp add: strict_sorted_iff)
  have look: "map_of m k = Some v \<longleftrightarrow> (k, v) \<in> set m" for k v using d by (simp add: map_of_eq_Some_iff)
  have block: "check_block k (g k) m \<longleftrightarrow> (\<forall>v. (k, v) \<in> set m \<longrightarrow> g k = v)" for k
    by (auto simp: check_block_def look [symmetric] split: option.split)
  show "is_in_checkpoint_zone h m \<longleftrightarrow> h = 0 \<or> (\<exists>kv \<in> set m. h \<le> fst kv)"
  proof (cases "m = []")
    case False
    then show ?thesis
      using last_is_greatest [OF m False] last_in_set [OF False] order_trans [of h _ "fst (last m)"]
      unfolding is_in_checkpoint_zone_def by blast
  qed (simp add: is_in_checkpoint_zone_def)
  show "is_height_passed_zone h tip m \<longleftrightarrow> h \<le> tip \<and> (\<exists>kv \<in> set m. h \<le> fst kv \<and> fst kv \<le> tip)"
    using lower_bound_found [OF m, where k = h and b = tip] by (auto simp: is_height_passed_zone_def)
  show "fst (check_blocks g tip m) \<longleftrightarrow> (\<forall>h' \<le> tip. check_block h' (g h') m)"
    by (auto simp: check_blocks_def check_blocks_from_exact [OF m] block)
  show "\<exists>h' \<le> tip. \<not> check_block h' (g h') m \<and> valid \<le> max 1 h' \<and>
      (\<forall>kv \<in> set m. fst kv < h' \<longrightarrow> g (fst kv) = snd kv \<and> fst kv < valid)"
    if fails: "check_blocks g tip m = (False, valid)"
  proof -
    obtain kv where kv: "kv \<in> set m" "fst kv \<le> tip" "g (fst kv) \<noteq> snd kv" "valid = 1 \<or> valid \<le> fst kv"
      "\<forall>kv' \<in> set m. fst kv' < fst kv \<longrightarrow> g (fst kv') = snd kv' \<and> fst kv' < valid"
      using check_blocks_from_fails [OF m fails [unfolded check_blocks_def]] by auto
    then have "(fst kv, snd kv) \<in> set m" by simp
    then have "\<not> check_block (fst kv) (g (fst kv)) m" unfolding block using kv(3) by blast
    then show ?thesis using kv by (intro exI [of _ "fst kv"]) (auto simp: le_max_iff_disj)
  qed
qed

text \<open>C40: For every map of checkpoints that \<open>add_checkpoint\<close> builds: the zone ends at the highest one; a height has
  passed it when a checkpoint lies between it and the top block; and \<open>check_blocks\<close> accepts exactly the chains whose
  every block up to the top passes \<open>check_block\<close>. Otherwise the reported size keeps all blocks with a passed
  checkpoint and, from height one on, drops the first block that fails.\<close>
theorem checkpoints_exact:
  assumes "built m"
  shows "(is_in_checkpoint_zone h m \<longleftrightarrow> h = 0 \<or> (\<exists>kv \<in> set m. h \<le> fst kv)) \<and>
    (is_height_passed_zone h tip m \<longleftrightarrow> h \<le> tip \<and> (\<exists>kv \<in> set m. h \<le> fst kv \<and> fst kv \<le> tip)) \<and>
    (fst (check_blocks g tip m) \<longleftrightarrow> (\<forall>h' \<le> tip. check_block h' (g h') m)) \<and>
    (check_blocks g tip m = (False, valid) \<longrightarrow>
      (\<exists>h' \<le> tip. \<not> check_block h' (g h') m \<and> valid \<le> max 1 h' \<and>
        (\<forall>kv \<in> set m. fst kv < h' \<longrightarrow> g (fst kv) = snd kv \<and> fst kv < valid)))"
  by (intro conjI impI) (rule checkpoints_say [OF assms]; assumption?)+

theorem checkpoints_exact_witness:
  "is_in_checkpoint_zone 5 (snd (add_checkpoint 7 (pod_to_hex (replicate 32 1)) []))"
proof -
  have "built (snd (add_checkpoint 7 (pod_to_hex (replicate 32 1)) []))" by (intro built.intros)
  moreover have "snd (add_checkpoint 7 (pod_to_hex (replicate 32 1)) []) = [(7, replicate 32 1)]"
    using parse_hex_text [of "replicate 32 1" "[]"]
    by (simp add: add_checkpoint_def parse_tpod_from_hex_string_def pod_to_hex_def)
  ultimately show ?thesis using conjunct1 [OF checkpoints_exact] by force
qed

end
