(* ===== verification/Offers.thy ===== *)
theory Offers
  imports Crypto HexText TxPool
begin

section \<open>The market of offers (bc_offers_service, bc_attachment_services_manager)\<close>

text \<open>
  A transaction may carry service attachments. The service with the identifier \<open>M\<close> keeps the offers of a market: an
  attachment adds an offer, replaces an offer by a new one, or cancels an offer. When a block is taken off the chain,
  its attachments are given back to the service in the opposite order. The theory holds the offers and the commands,
  the service with its three pairs of handlers and the trimming of old offers, the manager that finds the service of
  an attachment, and the loops of the chain over the attachments of a transaction. The locale \<open>undo_log\<close> is the
  contract between the loops and a service.
\<close>

subsection \<open>Offers and commands (offers_service_basics.h, offers_services_helpers.h)\<close>

record offer_details =
  od_offer_type :: u8
  od_amount_primary :: u64
  od_amount_target :: u64
  od_bonus :: bytes
  od_target :: bytes
  od_primary :: bytes
  od_location_country :: bytes
  od_location_city :: bytes
  od_contacts :: bytes
  od_comment :: bytes
  od_payment_types :: bytes
  od_deal_option :: bytes
  od_category :: bytes
  od_expiration_time :: u8

record offer_details_ex = offer_details +
  odx_tx_hash :: hash
  odx_tx_original_hash :: hash
  odx_index_in_tx :: u64
  odx_timestamp :: u64
  odx_fee :: u64
  odx_security :: public_key
  odx_stopped :: bool

record offer_details_ex_with_hash = offer_details_ex +
  odeh_h :: hash
  odeh_nxt_offer :: bytes

type_synonym odeh = offer_details_ex_with_hash

record cancel_offer =
  co_tx_id :: hash
  co_offer_index :: u64
  co_sig :: signature

record update_offer =
  uo_tx_id :: hash
  uo_offer_index :: u64
  uo_sig :: signature
  uo_of :: offer_details

record update_offer_details =
  uod_wallet_id :: u64
  uod_tx_id :: hash
  uod_no :: u64
  uod_od :: offer_details_ex

record offer_id =
  oi_tx_id :: hash
  oi_index :: u64

definition BC_OFFERS_SERVICE_INSTRUCTION_ADD :: bytes where "BC_OFFERS_SERVICE_INSTRUCTION_ADD = [0x41, 0x44, 0x44]"
definition BC_OFFERS_SERVICE_INSTRUCTION_UPD :: bytes where "BC_OFFERS_SERVICE_INSTRUCTION_UPD = [0x55, 0x50, 0x44]"

text \<open>\<open>*(uint64_t*)&r ^= index\<close> changes the first eight bytes of the hash.\<close>

definition offer_id_from_hash_and_index :: "hash \<Rightarrow> u64 \<Rightarrow> hash" where
  "offer_id_from_hash_and_index tx_id index = store64 (load64 tx_id XOR index) @ drop 8 tx_id"

definition offer_id_of :: "offer_id \<Rightarrow> hash" where
  "offer_id_of oid = offer_id_from_hash_and_index (oi_tx_id oid) (oi_index oid)"

text \<open>
  What the service takes from libraries and from the node: the decompression of zlib, the JSON readers and the binary
  writer of epee, the hash of a transaction and the clock of the runtime configuration. The bodies come in the three
  forms that the readers of the three commands accept.
\<close>

record market_view =
  mv_unpack :: "bytes \<Rightarrow> bytes option"
  mv_load_offer :: "bytes \<Rightarrow> offer_details option"
  mv_load_update :: "bytes \<Rightarrow> update_offer option"
  mv_load_cancel :: "bytes \<Rightarrow> cancel_offer option"
  mv_store_offer :: "offer_details \<Rightarrow> bytes"
  mv_transaction_hash :: "transaction \<Rightarrow> hash"
  mv_core_time :: u64

definition make_update_sig_blob :: "market_view \<Rightarrow> update_offer \<Rightarrow> bytes" where
  "make_update_sig_blob mv uo = uo_tx_id uo @ store64 (uo_offer_index uo) @ mv_store_offer mv (uo_of uo)"

definition make_cancel_sig_blob :: "cancel_offer \<Rightarrow> bytes" where
  "make_cancel_sig_blob co = co_tx_id co @ store64 (co_offer_index co)"

definition is_service_attachment :: "extra_v \<Rightarrow> bool" where
  "is_service_attachment at = (case at of TxServiceAttachment _ \<Rightarrow> True | _ \<Rightarrow> False)"

definition get_service_attachments_count_in_tx :: "transaction \<Rightarrow> u64" where
  "get_service_attachments_count_in_tx tx = fold (\<lambda>at cnt. if is_service_attachment at then cnt + 1 else cnt) (attachment tx) 0"

text \<open>The overload of \<open>get_tx_fee\<close> that returns the fee, and zero where the other one fails.\<close>

definition get_tx_fee_or_zero :: "transaction \<Rightarrow> u64" where
  "get_tx_fee_or_zero tx = (case get_tx_fee tx of None \<Rightarrow> 0 | Some r \<Rightarrow> r)"

fun get_offer_secure_key_loop :: "extra_v list \<Rightarrow> u64 \<Rightarrow> u64 \<Rightarrow> public_key" where
  "get_offer_secure_key_loop [] index cnt = null_pkey"
| "get_offer_secure_key_loop (TxServiceAttachment txsa # as) index cnt =
     (if service_id txsa = BC_OFFERS_SERVICE_ID
      then if cnt \<noteq> index then get_offer_secure_key_loop as index (cnt + 1)
           else if security txsa = [] then null_pkey
           else last (security txsa)
      else get_offer_secure_key_loop as index cnt)"
| "get_offer_secure_key_loop (a # as) index cnt = get_offer_secure_key_loop as index cnt"

definition get_offer_secure_key_by_index_from_tx :: "transaction \<Rightarrow> u64 \<Rightarrow> public_key" where
  "get_offer_secure_key_by_index_from_tx tx index = get_offer_secure_key_loop (attachment tx) index 0"

subsection \<open>The service\<close>

datatype core_event =
    AddOffer offer_details_ex
  | RemoveOffer offer_details_ex
  | UpdateOffer update_offer_details

text \<open>
  The container is the list of the offers in the order of their insertion, at most one for an identifier; the events
  are those given to the handler, the latest first.
\<close>

record bc_offers_service =
  m_offers :: "odeh list"
  m_last_trimed_height :: u64
  m_last_seen_block_id :: hash
  m_disabled :: bool
  core_events :: "core_event list"

definition empty_offers_service :: bc_offers_service where
  "empty_offers_service = \<lparr>m_offers = [], m_last_trimed_height = 0, m_last_seen_block_id = null_hash, m_disabled = False,
     core_events = []\<rparr>"

definition rise_core_event :: "core_event \<Rightarrow> bc_offers_service \<Rightarrow> bc_offers_service" where
  "rise_core_event ev st = st\<lparr>core_events := ev # core_events st\<rparr>"

definition find_offer :: "hash \<Rightarrow> bc_offers_service \<Rightarrow> odeh option" where
  "find_offer k st = List.find (\<lambda>off. odeh_h off = k) (m_offers st)"

text \<open>Writing through an iterator, and erasing what it points to.\<close>

definition change_offer :: "hash \<Rightarrow> (odeh \<Rightarrow> odeh) \<Rightarrow> bc_offers_service \<Rightarrow> bc_offers_service" where
  "change_offer k f st = st\<lparr>m_offers := map (\<lambda>off. if odeh_h off = k then f off else off) (m_offers st)\<rparr>"

definition erase_offer :: "hash \<Rightarrow> bc_offers_service \<Rightarrow> bc_offers_service" where
  "erase_offer k st = st\<lparr>m_offers := filter (\<lambda>off. odeh_h off \<noteq> k) (m_offers st)\<rparr>"

text \<open>The identifier is unique: inserting a second offer with it changes nothing.\<close>

definition put_offer_to_container :: "odeh \<Rightarrow> bc_offers_service \<Rightarrow> bool \<times> bc_offers_service" where
  "put_offer_to_container offer st =
     (True, if find_offer (odeh_h offer) st = None then st\<lparr>m_offers := m_offers st @ [offer]\<rparr> else st)"

definition validate_modify_order_signature :: "odeh \<Rightarrow> bytes \<Rightarrow> signature \<Rightarrow> bool" where
  "validate_modify_order_signature off blob sig =
     (if odx_stopped off then False else check_signature (cn_fast_hash blob) (odx_security off) sig)"

definition validate_cancel_order :: "cancel_offer \<Rightarrow> bc_offers_service \<Rightarrow> hash option" where
  "validate_cancel_order co st =
     (let k = offer_id_from_hash_and_index (co_tx_id co) (co_offer_index co)
      in case find_offer k st of
           None \<Rightarrow> None
         | Some off \<Rightarrow> if validate_modify_order_signature off (make_cancel_sig_blob co) (co_sig co) then Some k else None)"

text \<open>The offer that a command makes: its own part, then what the service fills in.\<close>

definition new_offer :: "offer_details \<Rightarrow> hash \<Rightarrow> u64 \<Rightarrow> u64 \<Rightarrow> u64 \<Rightarrow> public_key \<Rightarrow> odeh" where
  "new_offer od tx_hash i ts fee sec =
     offer_details.extend od
       \<lparr>odx_tx_hash = tx_hash, odx_tx_original_hash = null_hash, odx_index_in_tx = i, odx_timestamp = ts, odx_fee = fee,
        odx_security = sec, odx_stopped = False, odeh_h = offer_id_from_hash_and_index tx_hash i, odeh_nxt_offer = []\<rparr>"

definition ex_of :: "odeh \<Rightarrow> offer_details_ex" where
  "ex_of off = offer_details_ex.truncate off"

text \<open>Where the service runs, the transaction has at least the attachment in hand, so the division is one by a positive number.\<close>

definition offer_fee :: "transaction \<Rightarrow> u64" where
  "offer_fee tx = get_tx_fee_or_zero tx div get_service_attachments_count_in_tx tx"

definition handle_push_add :: "market_view \<Rightarrow> offer_details \<Rightarrow> tx_service_attachment \<Rightarrow> u64 \<Rightarrow> transaction \<Rightarrow> u64 \<Rightarrow>
    bc_offers_service \<Rightarrow> bool \<times> bc_offers_service" where
  "handle_push_add mv od a i tx ts st =
     (if security a = [] then (False, st)
      else let offer = new_offer od (mv_transaction_hash mv tx) i ts (offer_fee tx) (last (security a));
               (r, st) = put_offer_to_container offer st
           in (True, if r then rise_core_event (AddOffer (ex_of offer)) st else st))"

definition handle_push_update :: "market_view \<Rightarrow> update_offer \<Rightarrow> tx_service_attachment \<Rightarrow> u64 \<Rightarrow> transaction \<Rightarrow>
    bc_offers_service \<Rightarrow> bool \<times> bc_offers_service" where
  "handle_push_update mv uo a i tx st =
     (let k = offer_id_from_hash_and_index (uo_tx_id uo) (uo_offer_index uo)
      in case find_offer k st of
           None \<Rightarrow> (False, st)
         | Some it \<Rightarrow>
             if \<not> validate_modify_order_signature it (make_update_sig_blob mv uo) (uo_sig uo) then (False, st)
             else if security a = [] then (False, st)
             else let new_off = new_offer (uo_of uo) (mv_transaction_hash mv tx) i (odx_timestamp it) (offer_fee tx) (last (security a));
                      (_, st) = put_offer_to_container new_off st;
                      st = change_offer k (\<lambda>off. off\<lparr>odeh_nxt_offer := pod_to_hex (odeh_h new_off), odx_stopped := True\<rparr>) st
                  in (True, rise_core_event (UpdateOffer \<lparr>uod_wallet_id = 0, uod_tx_id = uo_tx_id uo, uod_no = uo_offer_index uo,
                        uod_od = ex_of new_off\<rparr>) st))"

definition handle_push_cancel :: "cancel_offer \<Rightarrow> bc_offers_service \<Rightarrow> bool \<times> bc_offers_service" where
  "handle_push_cancel co st =
     (case validate_cancel_order co st of
        None \<Rightarrow> (False, st)
      | Some k \<Rightarrow>
          let st = change_offer k (\<lambda>off. off\<lparr>odx_stopped := True\<rparr>) st
          in (True, case find_offer k st of None \<Rightarrow> st | Some off \<Rightarrow> rise_core_event (RemoveOffer (ex_of off)) st))"

definition handle_pop_add :: "market_view \<Rightarrow> u64 \<Rightarrow> transaction \<Rightarrow> bc_offers_service \<Rightarrow> bool \<times> bc_offers_service" where
  "handle_pop_add mv i tx st =
     (let k = offer_id_from_hash_and_index (mv_transaction_hash mv tx) i
      in case find_offer k st of
           None \<Rightarrow> (True, st)
         | Some off \<Rightarrow> (True, erase_offer k (rise_core_event (RemoveOffer (ex_of off)) st)))"

definition handle_pop_update :: "market_view \<Rightarrow> update_offer \<Rightarrow> u64 \<Rightarrow> transaction \<Rightarrow> bc_offers_service \<Rightarrow>
    bool \<times> bc_offers_service" where
  "handle_pop_update mv uo i tx st =
     (let k = offer_id_from_hash_and_index (mv_transaction_hash mv tx) i;
          original = offer_id_from_hash_and_index (uo_tx_id uo) (uo_offer_index uo)
      in case find_offer k st of
           None \<Rightarrow> (False, st)
         | Some it \<Rightarrow>
             (case find_offer original st of
                None \<Rightarrow> (False, st)
              | Some original_it \<Rightarrow>
                  let st = rise_core_event (RemoveOffer (ex_of it)) st;
                      st = change_offer original (\<lambda>off. off\<lparr>odx_stopped := False, odeh_nxt_offer := []\<rparr>) st;
                      st = erase_offer k st
                  in (True, rise_core_event (AddOffer ((ex_of original_it)\<lparr>odx_stopped := False\<rparr>)) st)))"

definition handle_pop_cancel :: "cancel_offer \<Rightarrow> bc_offers_service \<Rightarrow> bool \<times> bc_offers_service" where
  "handle_pop_cancel co st =
     (let k = offer_id_from_hash_and_index (co_tx_id co) (co_offer_index co)
      in case find_offer k st of
           None \<Rightarrow> (False, st)
         | Some off \<Rightarrow>
             if \<not> odx_stopped off then (False, st)
             else (True, rise_core_event (AddOffer ((ex_of off)\<lparr>odx_stopped := False\<rparr>))
                    (change_offer k (\<lambda>off. off\<lparr>odx_stopped := False\<rparr>) st)))"

text \<open>The loop of \<open>trim_offers\<close> over the index by time stamp stops at the first offer that is not old.\<close>

definition OFFER_MAXIMUM_LIFE_TIME :: u64 where "OFFER_MAXIMUM_LIFE_TIME = 60 * 60 * 24 * 30"
definition CURRENCY_BLOCKS_PER_DAY :: u64 where "CURRENCY_BLOCKS_PER_DAY = (60 * 60 * 24) div 60"

fun old_offers :: "u64 \<Rightarrow> odeh list \<Rightarrow> hash list" where
  "old_offers current_time [] = []"
| "old_offers current_time (it # index) =
     (if odx_timestamp it + OFFER_MAXIMUM_LIFE_TIME < current_time then odeh_h it # old_offers current_time index else [])"

definition trim_offers :: "u64 \<Rightarrow> bc_offers_service \<Rightarrow> bc_offers_service" where
  "trim_offers current_time st =
     fold erase_offer (old_offers current_time (sort_key odx_timestamp (m_offers st))) st"

definition handle_entry_push :: "market_view \<Rightarrow> tx_service_attachment \<Rightarrow> u64 \<Rightarrow> transaction \<Rightarrow> u64 \<Rightarrow> u64 \<Rightarrow>
    bc_offers_service \<Rightarrow> bc_offers_service" where
  "handle_entry_push mv a i tx h ts st =
     (if m_disabled st then st
      else case mv_unpack mv (body a) of
             None \<Rightarrow> st
           | Some json_buff \<Rightarrow>
               if instruction a = BC_OFFERS_SERVICE_INSTRUCTION_ADD
               then case mv_load_offer mv json_buff of None \<Rightarrow> st | Some od \<Rightarrow> snd (handle_push_add mv od a i tx ts st)
               else if instruction a = BC_OFFERS_SERVICE_INSTRUCTION_UPD
               then case mv_load_update mv json_buff of None \<Rightarrow> st | Some uo \<Rightarrow> snd (handle_push_update mv uo a i tx st)
               else if instruction a = BC_OFFERS_SERVICE_INSTRUCTION_DEL
               then case mv_load_cancel mv json_buff of None \<Rightarrow> st | Some co \<Rightarrow> snd (handle_push_cancel co st)
               else st)"

definition trim_once_a_day :: "market_view \<Rightarrow> u64 \<Rightarrow> bc_offers_service \<Rightarrow> bc_offers_service" where
  "trim_once_a_day mv h st =
     (if m_last_trimed_height st \<noteq> h \<and> h mod CURRENCY_BLOCKS_PER_DAY = 0
      then (trim_offers (mv_core_time mv) st)\<lparr>m_last_trimed_height := h\<rparr> else st)"

definition handle_entry_pop :: "market_view \<Rightarrow> tx_service_attachment \<Rightarrow> u64 \<Rightarrow> transaction \<Rightarrow> u64 \<Rightarrow>
    bc_offers_service \<Rightarrow> bc_offers_service" where
  "handle_entry_pop mv a i tx h st =
     (if m_disabled st then st
      else case mv_unpack mv (body a) of
             None \<Rightarrow> st
           | Some json_buff \<Rightarrow>
               trim_once_a_day mv h
                 (if instruction a = BC_OFFERS_SERVICE_INSTRUCTION_ADD
                  then case mv_load_offer mv json_buff of None \<Rightarrow> st | Some od \<Rightarrow> snd (handle_pop_add mv i tx st)
                  else if instruction a = BC_OFFERS_SERVICE_INSTRUCTION_UPD
                  then case mv_load_update mv json_buff of None \<Rightarrow> st | Some uo \<Rightarrow> snd (handle_pop_update mv uo i tx st)
                  else if instruction a = BC_OFFERS_SERVICE_INSTRUCTION_DEL
                  then case mv_load_cancel mv json_buff of None \<Rightarrow> st | Some co \<Rightarrow> snd (handle_pop_cancel co st)
                  else st))"

definition validate_entry :: "market_view \<Rightarrow> tx_service_attachment \<Rightarrow> bc_offers_service \<Rightarrow> bool" where
  "validate_entry mv a st =
     (if service_id a \<noteq> BC_OFFERS_SERVICE_ID then True
      else if instruction a \<noteq> BC_OFFERS_SERVICE_INSTRUCTION_DEL then True
      else case mv_unpack mv (body a) of
             None \<Rightarrow> False
           | Some json_buff \<Rightarrow>
               (case mv_load_cancel mv json_buff of None \<Rightarrow> False | Some co \<Rightarrow> validate_cancel_order co st \<noteq> None))"

definition set_last_seen_block_id :: "hash \<Rightarrow> bc_offers_service \<Rightarrow> bc_offers_service" where
  "set_last_seen_block_id h st = st\<lparr>m_last_seen_block_id := h\<rparr>"

definition clear_offers :: "bc_offers_service \<Rightarrow> bc_offers_service" where
  "clear_offers st = st\<lparr>m_last_trimed_height := 0, m_last_seen_block_id := null_hash, m_offers := []\<rparr>"

definition get_offer_by_id :: "bc_offers_service \<Rightarrow> offer_id \<Rightarrow> offer_details_ex list" where
  "get_offer_by_id st oid =
     (let of_id = offer_id_of oid
      in if of_id = null_hash then []
         else case find_offer of_id st of
                None \<Rightarrow> []
              | Some off \<Rightarrow>
                  (case (if odeh_nxt_offer off = [] then Some off
                         else case parse_tpod_from_hex_string 32 (odeh_nxt_offer off) of
                                None \<Rightarrow> Some off
                              | Some nxt_h \<Rightarrow> find_offer nxt_h st) of
                     None \<Rightarrow> []
                   | Some it \<Rightarrow>
                       [if odx_tx_hash it \<noteq> oi_tx_id oid then (ex_of it)\<lparr>odx_tx_original_hash := oi_tx_id oid\<rparr> else ex_of it]))"

definition get_offers_by_id :: "bc_offers_service \<Rightarrow> offer_id list \<Rightarrow> offer_details_ex list" where
  "get_offers_by_id st ids = concat (map (get_offer_by_id st) ids)"

text \<open>
  \<open>resync_market\<close> fills the market from the transactions of the blocks from the height \<open>start_height\<close> on; \<open>chain\<close> holds
  what \<open>get_block_by_height\<close> and \<open>get_tx\<close> return for the blocks, and a missing transaction ends the run.
\<close>

fun resync_attachments :: "market_view \<Rightarrow> transaction \<Rightarrow> u64 \<Rightarrow> u64 \<Rightarrow> extra_v list \<Rightarrow> u64 \<Rightarrow> bc_offers_service \<Rightarrow>
    bc_offers_service" where
  "resync_attachments mv tx h ts [] cnt st = st"
| "resync_attachments mv tx h ts (TxServiceAttachment a # as) cnt st =
     resync_attachments mv tx h ts as (cnt + 1)
       (if service_id a = BC_OFFERS_SERVICE_ID then handle_entry_push mv a cnt tx h ts st else st)"
| "resync_attachments mv tx h ts (a # as) cnt st = resync_attachments mv tx h ts as cnt st"

fun resync_txs :: "market_view \<Rightarrow> u64 \<Rightarrow> u64 \<Rightarrow> transaction option list \<Rightarrow> bc_offers_service \<Rightarrow> bool \<times> bc_offers_service" where
  "resync_txs mv h ts [] st = (True, st)"
| "resync_txs mv h ts (None # txs) st = (False, st)"
| "resync_txs mv h ts (Some tx # txs) st = resync_txs mv h ts txs (resync_attachments mv tx h ts (attachment tx) 0 st)"

fun resync_blocks :: "market_view \<Rightarrow> u64 \<Rightarrow> (u64 \<times> transaction option list) list \<Rightarrow> bc_offers_service \<Rightarrow>
    bool \<times> bc_offers_service" where
  "resync_blocks mv h [] st = (True, st)"
| "resync_blocks mv h ((ts, txs) # bs) st =
     (case resync_txs mv h ts txs st of
        (False, st) \<Rightarrow> (False, st)
      | (True, st) \<Rightarrow> resync_blocks mv (h + 1) bs st)"

definition resync_market :: "market_view \<Rightarrow> u64 \<Rightarrow> (u64 \<times> transaction option list) list \<Rightarrow> bc_offers_service \<Rightarrow>
    bool \<times> bc_offers_service" where
  "resync_market mv start_height chain st = resync_blocks mv start_height chain (clear_offers st)"

subsection \<open>The manager of the services and the loops of the chain\<close>

text \<open>A service is its state with its virtual methods; the configuration is of any type.\<close>

record ('s, 'c) i_bc_service =
  srv_state :: 's
  srv_push :: "tx_service_attachment \<Rightarrow> u64 \<Rightarrow> transaction \<Rightarrow> u64 \<Rightarrow> hash \<Rightarrow> u64 \<Rightarrow> 's \<Rightarrow> 's"
  srv_pop :: "tx_service_attachment \<Rightarrow> u64 \<Rightarrow> transaction \<Rightarrow> u64 \<Rightarrow> u64 \<Rightarrow> 's \<Rightarrow> 's"
  srv_validate :: "tx_service_attachment \<Rightarrow> u64 \<Rightarrow> transaction \<Rightarrow> 's \<Rightarrow> bool"
  srv_set_core_runtime_config :: "'c \<Rightarrow> 's \<Rightarrow> 's"

record ('s, 'c) bc_attachment_services_manager =
  mgr_services :: "bytes \<rightharpoonup> ('s, 'c) i_bc_service"
  mgr_core_runtime_config :: 'c

type_synonym ('s, 'c) services = "('s, 'c) bc_attachment_services_manager"

definition srv_update :: "('s \<Rightarrow> 's) \<Rightarrow> ('s, 'c) i_bc_service \<Rightarrow> ('s, 'c) i_bc_service" where
  "srv_update f srv = srv\<lparr>srv_state := f (srv_state srv)\<rparr>"

definition add_service :: "bytes \<Rightarrow> ('s, 'c) i_bc_service option \<Rightarrow> ('s, 'c) services \<Rightarrow> bool \<times> ('s, 'c) services" where
  "add_service k pservice m =
     (case pservice of
        None \<Rightarrow> (False, m)
      | Some srv \<Rightarrow>
          if mgr_services m k \<noteq> None then (False, m)
          else (True, m\<lparr>mgr_services :=
            (mgr_services m)(k \<mapsto> srv_update (srv_set_core_runtime_config srv (mgr_core_runtime_config m)) srv)\<rparr>))"

definition set_core_runtime_config :: "'c \<Rightarrow> ('s, 'c) services \<Rightarrow> ('s, 'c) services" where
  "set_core_runtime_config rtc m =
     m\<lparr>mgr_core_runtime_config := rtc,
       mgr_services := (\<lambda>k. map_option (\<lambda>srv. srv_update (srv_set_core_runtime_config srv rtc) srv) (mgr_services m k))\<rparr>"

definition manager_deinit :: "('s, 'c) services \<Rightarrow> ('s, 'c) services" where
  "manager_deinit m = m\<lparr>mgr_services := (\<lambda>_. None)\<rparr>"

definition manager_validate_entry :: "('s, 'c) services \<Rightarrow> tx_service_attachment \<Rightarrow> u64 \<Rightarrow> transaction \<Rightarrow> bool" where
  "manager_validate_entry m a i tx =
     (case mgr_services m (service_id a) of None \<Rightarrow> False | Some srv \<Rightarrow> srv_validate srv a i tx (srv_state srv))"

definition manager_entry_push :: "tx_service_attachment \<Rightarrow> u64 \<Rightarrow> transaction \<Rightarrow> u64 \<Rightarrow> hash \<Rightarrow> u64 \<Rightarrow>
    ('s, 'c) services \<Rightarrow> ('s, 'c) services" where
  "manager_entry_push a i tx h bl_id ts m =
     (case mgr_services m (service_id a) of
        None \<Rightarrow> m
      | Some srv \<Rightarrow> m\<lparr>mgr_services := (mgr_services m)(service_id a \<mapsto> srv_update (srv_push srv a i tx h bl_id ts) srv)\<rparr>)"

definition manager_entry_pop :: "tx_service_attachment \<Rightarrow> u64 \<Rightarrow> transaction \<Rightarrow> u64 \<Rightarrow> u64 \<Rightarrow>
    ('s, 'c) services \<Rightarrow> ('s, 'c) services" where
  "manager_entry_pop a i tx h ts m =
     (case mgr_services m (service_id a) of
        None \<Rightarrow> m
      | Some srv \<Rightarrow> m\<lparr>mgr_services := (mgr_services m)(service_id a \<mapsto> srv_update (srv_pop srv a i tx h ts) srv)\<rparr>)"

text \<open>The loops of blockchain_storage.cpp; the second one counts down while it goes through the attachments from the end.\<close>

fun process_attachments_loop :: "transaction \<Rightarrow> u64 \<Rightarrow> hash \<Rightarrow> u64 \<Rightarrow> extra_v list \<Rightarrow> u64 \<Rightarrow> ('s, 'c) services \<Rightarrow>
    ('s, 'c) services" where
  "process_attachments_loop tx h bl_id ts [] cnt m = m"
| "process_attachments_loop tx h bl_id ts (TxServiceAttachment a # as) cnt m =
     process_attachments_loop tx h bl_id ts as (cnt + 1) (manager_entry_push a cnt tx h bl_id ts m)"
| "process_attachments_loop tx h bl_id ts (a # as) cnt m = process_attachments_loop tx h bl_id ts as cnt m"

definition process_blockchain_tx_attachments :: "transaction \<Rightarrow> u64 \<Rightarrow> hash \<Rightarrow> u64 \<Rightarrow> ('s, 'c) services \<Rightarrow>
    ('s, 'c) services" where
  "process_blockchain_tx_attachments tx h bl_id ts m = process_attachments_loop tx h bl_id ts (attachment tx) 0 m"

fun unprocess_attachments_loop :: "transaction \<Rightarrow> u64 \<Rightarrow> u64 \<Rightarrow> extra_v list \<Rightarrow> u64 \<Rightarrow> ('s, 'c) services \<Rightarrow>
    ('s, 'c) services" where
  "unprocess_attachments_loop tx h ts [] cnt m = m"
| "unprocess_attachments_loop tx h ts (TxServiceAttachment a # as) cnt m =
     unprocess_attachments_loop tx h ts as (cnt - 1) (manager_entry_pop a cnt tx h ts m)"
| "unprocess_attachments_loop tx h ts (a # as) cnt m = unprocess_attachments_loop tx h ts as cnt m"

definition unprocess_blockchain_tx_attachments :: "transaction \<Rightarrow> u64 \<Rightarrow> u64 \<Rightarrow> ('s, 'c) services \<Rightarrow> ('s, 'c) services" where
  "unprocess_blockchain_tx_attachments tx h ts m =
     (let cnt_serv_attach = get_service_attachments_count_in_tx tx
      in if cnt_serv_attach = 0 then m
         else unprocess_attachments_loop tx h ts (rev (attachment tx)) (cnt_serv_attach - 1) m)"

text \<open>The node registers one service, the market.\<close>

definition offers_service :: "market_view \<Rightarrow> bc_offers_service \<Rightarrow> (bc_offers_service, 'c) i_bc_service" where
  "offers_service mv st =
     \<lparr>srv_state = st,
      srv_push = (\<lambda>a i tx h bl_id ts. handle_entry_push mv a i tx h ts),
      srv_pop = (\<lambda>a i tx h ts. handle_entry_pop mv a i tx h),
      srv_validate = (\<lambda>a i tx. validate_entry mv a),
      srv_set_core_runtime_config = (\<lambda>_ st. st)\<rparr>"

definition with_market :: "market_view \<Rightarrow> bc_offers_service \<Rightarrow> (bc_offers_service, unit) services" where
  "with_market mv st = \<lparr>mgr_services = [BC_OFFERS_SERVICE_ID \<mapsto> offers_service mv st], mgr_core_runtime_config = ()\<rparr>"

end
