(* ===== verification/Market.thy ===== *)
theory Market
  imports Offers
begin

section \<open>What the market keeps through a reorganisation\<close>

text \<open>
  The lemmas and theorems about the service of Offers.thy: what every command does to the container, the contract
  \<open>undo_log\<close> with its two interpretations (the attachments of one transaction, and the transactions of the chain), who
  can close an offer, what a late cancellation does, and what the trimming removes.
\<close>

subsection \<open>What every operation does to the container\<close>

lemma find_offer_Some:
  "find_offer k st = Some off \<Longrightarrow> off \<in> set (m_offers st) \<and> odeh_h off = k"
  by (auto simp: find_offer_def find_Some_iff in_set_conv_nth)

lemma find_offer_None: "find_offer k st = None \<longleftrightarrow> k \<notin> odeh_h ` set (m_offers st)"
  by (auto simp: find_offer_def find_None_iff)

definition market_ok :: "bc_offers_service \<Rightarrow> bool" where
  "market_ok st \<longleftrightarrow> distinct (map odeh_h (m_offers st)) \<and>
     (\<forall>off \<in> set (m_offers st). odeh_nxt_offer off \<noteq> [] \<longrightarrow> odx_stopped off)"

lemma find_offer_unique:
  "market_ok st \<Longrightarrow> off \<in> set (m_offers st) \<Longrightarrow> find_offer (odeh_h off) st = Some off"
proof -
  assume m: "market_ok st" and off: "off \<in> set (m_offers st)"
  then obtain x where x: "find_offer (odeh_h off) st = Some x" using find_offer_None by fastforce
  then have "x \<in> set (m_offers st)" "odeh_h x = odeh_h off" using find_offer_Some by blast+
  then show ?thesis using m off x by (auto simp: market_ok_def distinct_map dest: inj_onD)
qed

lemma new_offer_parts [simp]:
  "odeh_h (new_offer od t i ts fee sec) = offer_id_from_hash_and_index t i"
  "odeh_nxt_offer (new_offer od t i ts fee sec) = []"
  "\<not> odx_stopped (new_offer od t i ts fee sec)"
  by (simp_all add: new_offer_def offer_details.extend_def)

lemma reopened_offer:
  "\<not> odx_stopped off \<Longrightarrow> odeh_nxt_offer off = [] \<Longrightarrow>
    off\<lparr>odx_stopped := False, odeh_nxt_offer := []\<rparr> = off \<and> off\<lparr>odx_stopped := False\<rparr> = off"
  by (cases off) simp

lemma change_offer_parts [simp]:
  "m_offers (change_offer k f st) = map (\<lambda>off. if odeh_h off = k then f off else off) (m_offers st)"
  "m_last_trimed_height (change_offer k f st) = m_last_trimed_height st" "m_disabled (change_offer k f st) = m_disabled st"
  "m_last_seen_block_id (change_offer k f st) = m_last_seen_block_id st"
  by (simp_all add: change_offer_def)

lemma erase_offer_parts [simp]:
  "m_offers (erase_offer k st) = filter (\<lambda>off. odeh_h off \<noteq> k) (m_offers st)"
  "m_last_trimed_height (erase_offer k st) = m_last_trimed_height st" "m_disabled (erase_offer k st) = m_disabled st"
  "m_last_seen_block_id (erase_offer k st) = m_last_seen_block_id st"
  by (simp_all add: erase_offer_def)

lemma rise_core_event_parts [simp]:
  "m_offers (rise_core_event e st) = m_offers st"
  "m_last_trimed_height (rise_core_event e st) = m_last_trimed_height st" "m_disabled (rise_core_event e st) = m_disabled st"
  "m_last_seen_block_id (rise_core_event e st) = m_last_seen_block_id st" "find_offer k (rise_core_event e st) = find_offer k st"
  by (simp_all add: rise_core_event_def find_offer_def)

text \<open>Two states with the same container and registers, whatever events were given to the handler.\<close>

definition same_market :: "bc_offers_service \<Rightarrow> bc_offers_service \<Rightarrow> bool" where
  "same_market st st' \<longleftrightarrow> m_offers st = m_offers st' \<and> m_last_trimed_height st = m_last_trimed_height st' \<and>
     m_last_seen_block_id st = m_last_seen_block_id st' \<and> m_disabled st = m_disabled st'"

lemma same_market_refl [simp]: "same_market st st" by (simp add: same_market_def)

lemma same_market_find: "same_market st st' \<Longrightarrow> find_offer k st = find_offer k st'"
  by (simp add: same_market_def find_offer_def)

text \<open>The container after a command: what the three pushes do when they are accepted.\<close>

lemma push_add_container:
  assumes "find_offer (offer_id_from_hash_and_index (mv_transaction_hash mv tx) i) st = None"
  shows "same_market (snd (handle_push_add mv od a i tx ts st)) st \<and> security a = [] \<or>
    same_market (snd (handle_push_add mv od a i tx ts st)) (st\<lparr>m_offers := m_offers st @
      [new_offer od (mv_transaction_hash mv tx) i ts (offer_fee tx) (last (security a))]\<rparr>)"
  using assms by (simp add: handle_push_add_def put_offer_to_container_def same_market_def Let_def)

lemma push_update_container:
  assumes "find_offer (offer_id_from_hash_and_index (mv_transaction_hash mv tx) i) st = None"
  shows "same_market (snd (handle_push_update mv uo a i tx st)) st \<or>
    (\<exists>off new_off k. find_offer k st = Some off \<and> k = offer_id_from_hash_and_index (uo_tx_id uo) (uo_offer_index uo) \<and>
      \<not> odx_stopped off \<and> check_signature (cn_fast_hash (make_update_sig_blob mv uo)) (odx_security off) (uo_sig uo) \<and>
      odeh_h new_off = offer_id_from_hash_and_index (mv_transaction_hash mv tx) i \<and> odeh_nxt_offer new_off = [] \<and>
      \<not> odx_stopped new_off \<and>
      same_market (snd (handle_push_update mv uo a i tx st))
        (change_offer k (\<lambda>off. off\<lparr>odeh_nxt_offer := pod_to_hex (odeh_h new_off), odx_stopped := True\<rparr>)
           (st\<lparr>m_offers := m_offers st @ [new_off]\<rparr>)))"
proof (cases "find_offer (offer_id_from_hash_and_index (uo_tx_id uo) (uo_offer_index uo)) st")
  case None
  then show ?thesis by (simp add: handle_push_update_def Let_def)
next
  case (Some off)
  show ?thesis
  proof (cases "validate_modify_order_signature off (make_update_sig_blob mv uo) (uo_sig uo) \<and> security a \<noteq> []")
    case False
    then show ?thesis using Some by (auto simp: handle_push_update_def Let_def)
  next
    case True
    let ?n = "new_offer (uo_of uo) (mv_transaction_hash mv tx) i (odx_timestamp off) (offer_fee tx) (last (security a))"
    have "same_market (snd (handle_push_update mv uo a i tx st))
        (change_offer (offer_id_from_hash_and_index (uo_tx_id uo) (uo_offer_index uo))
          (\<lambda>off. off\<lparr>odeh_nxt_offer := pod_to_hex (odeh_h ?n), odx_stopped := True\<rparr>)
           (st\<lparr>m_offers := m_offers st @ [?n]\<rparr>))"
      using True Some assms
      by (simp add: handle_push_update_def put_offer_to_container_def same_market_def Let_def)
    moreover have "\<not> odx_stopped off \<and> check_signature (cn_fast_hash (make_update_sig_blob mv uo)) (odx_security off) (uo_sig uo)"
      using True by (simp add: validate_modify_order_signature_def split: if_split_asm)
    ultimately show ?thesis using Some by (intro disjI2 exI [of _ off] exI [of _ ?n]) auto
  qed
qed

lemma push_cancel_container:
  "same_market (snd (handle_push_cancel co st)) st \<or>
    (\<exists>off k. find_offer k st = Some off \<and> k = offer_id_from_hash_and_index (co_tx_id co) (co_offer_index co) \<and>
      \<not> odx_stopped off \<and> check_signature (cn_fast_hash (make_cancel_sig_blob co)) (odx_security off) (co_sig co) \<and>
      same_market (snd (handle_push_cancel co st)) (change_offer k (\<lambda>off. off\<lparr>odx_stopped := True\<rparr>) st))"
  by (auto simp: handle_push_cancel_def validate_cancel_order_def validate_modify_order_signature_def Let_def
      same_market_def split: option.split if_split_asm)

lemma same_market_sym: "same_market st st' \<Longrightarrow> same_market st' st" by (simp add: same_market_def)

lemma same_market_trans: "same_market st st' \<Longrightarrow> same_market st' st'' \<Longrightarrow> same_market st st''" by (simp add: same_market_def)

lemma erase_absent: "find_offer k st = None \<Longrightarrow> filter (\<lambda>off. odeh_h off \<noteq> k) (m_offers st) = m_offers st"
  by (auto simp: find_offer_None intro!: filter_True)

lemma pop_add_container:
  "same_market (snd (handle_pop_add mv i tx st)) (erase_offer (offer_id_from_hash_and_index (mv_transaction_hash mv tx) i) st)"
proof (cases "find_offer (offer_id_from_hash_and_index (mv_transaction_hash mv tx) i) st")
  case None
  then show ?thesis using erase_absent [OF None] by (simp add: handle_pop_add_def same_market_def)
qed (simp add: handle_pop_add_def same_market_def)

lemma pop_update_container:
  assumes "find_offer (offer_id_from_hash_and_index (mv_transaction_hash mv tx) i) st = Some it"
    and "find_offer (offer_id_from_hash_and_index (uo_tx_id uo) (uo_offer_index uo)) st = Some original_it"
  shows "same_market (snd (handle_pop_update mv uo i tx st))
    (erase_offer (offer_id_from_hash_and_index (mv_transaction_hash mv tx) i)
      (change_offer (offer_id_from_hash_and_index (uo_tx_id uo) (uo_offer_index uo))
        (\<lambda>off. off\<lparr>odx_stopped := False, odeh_nxt_offer := []\<rparr>) st))"
  using assms by (simp add: handle_pop_update_def same_market_def Let_def)

lemma pop_update_absent:
  "find_offer (offer_id_from_hash_and_index (mv_transaction_hash mv tx) i) st = None \<Longrightarrow> handle_pop_update mv uo i tx st = (False, st)"
  by (simp add: handle_pop_update_def)

lemma pop_cancel_container:
  "find_offer (offer_id_from_hash_and_index (co_tx_id co) (co_offer_index co)) st = Some off \<Longrightarrow> odx_stopped off \<Longrightarrow>
   same_market (snd (handle_pop_cancel co st))
    (change_offer (offer_id_from_hash_and_index (co_tx_id co) (co_offer_index co)) (\<lambda>off. off\<lparr>odx_stopped := False\<rparr>) st)"
  by (simp add: handle_pop_cancel_def same_market_def)

lemma pop_cancel_open:
  "\<forall>off. find_offer (offer_id_from_hash_and_index (co_tx_id co) (co_offer_index co)) st = Some off \<longrightarrow> \<not> odx_stopped off \<Longrightarrow>
   handle_pop_cancel co st = (False, st)"
  by (simp add: handle_pop_cancel_def Let_def split: option.split)

lemma find_map_same: "(\<And>x. P (g x) = P x) \<Longrightarrow> List.find P (map g xs) = map_option g (List.find P xs)"
  by (induction xs) simp_all

lemma find_offer_changed:
  assumes "\<And>x. odeh_h (f x) = odeh_h x"
  shows "find_offer k (change_offer k' f st) = map_option (\<lambda>off. if odeh_h off = k' then f off else off) (find_offer k st)"
  unfolding find_offer_def change_offer_parts by (rule find_map_same) (simp add: assms)

lemma changed_ids [simp]:
  "(\<And>x. odeh_h (f x) = odeh_h x) \<Longrightarrow> odeh_h ` set (m_offers (change_offer k f st)) = odeh_h ` set (m_offers st)"
  unfolding change_offer_parts set_map image_image by (rule image_cong) simp_all

lemma map_change_undone:
  "(\<And>x. x \<in> set xs \<Longrightarrow> odeh_h x = k \<Longrightarrow> g (f x) = x) \<Longrightarrow> (\<And>x. odeh_h (f x) = odeh_h x) \<Longrightarrow>
    map (\<lambda>x. if odeh_h x = k then g x else x) (map (\<lambda>x. if odeh_h x = k then f x else x) xs) = xs"
  by (simp add: map_idI)

text \<open>The cancellation of an offer that is there and already stopped: the one command whose pop is not the inverse of its push.\<close>

definition cancels_stopped :: "market_view \<Rightarrow> tx_service_attachment \<Rightarrow> bc_offers_service \<Rightarrow> bool" where
  "cancels_stopped mv a st =
     (if instruction a = BC_OFFERS_SERVICE_INSTRUCTION_DEL
      then case Option.bind (mv_unpack mv (body a)) (mv_load_cancel mv) of
             None \<Rightarrow> False
           | Some co \<Rightarrow>
               (case find_offer (offer_id_from_hash_and_index (co_tx_id co) (co_offer_index co)) st of
                  None \<Rightarrow> False
                | Some off \<Rightarrow> odx_stopped off)
      else False)"

lemma instructions_differ [simp]:
  "BC_OFFERS_SERVICE_INSTRUCTION_ADD \<noteq> BC_OFFERS_SERVICE_INSTRUCTION_DEL"
  "BC_OFFERS_SERVICE_INSTRUCTION_UPD \<noteq> BC_OFFERS_SERVICE_INSTRUCTION_DEL"
  "BC_OFFERS_SERVICE_INSTRUCTION_ADD \<noteq> BC_OFFERS_SERVICE_INSTRUCTION_UPD"
  "BC_OFFERS_SERVICE_INSTRUCTION_DEL \<noteq> BC_OFFERS_SERVICE_INSTRUCTION_ADD"
  "BC_OFFERS_SERVICE_INSTRUCTION_DEL \<noteq> BC_OFFERS_SERVICE_INSTRUCTION_UPD"
  "BC_OFFERS_SERVICE_INSTRUCTION_UPD \<noteq> BC_OFFERS_SERVICE_INSTRUCTION_ADD"
  by (simp_all add: BC_OFFERS_SERVICE_INSTRUCTION_ADD_def BC_OFFERS_SERVICE_INSTRUCTION_DEL_def
      BC_OFFERS_SERVICE_INSTRUCTION_UPD_def)

lemma undo_add:
  assumes "find_offer (offer_id_from_hash_and_index (mv_transaction_hash mv tx) i) st = None"
  shows "same_market (snd (handle_pop_add mv i tx (snd (handle_push_add mv od a i tx ts st)))) st"
proof -
  let ?st = "snd (handle_push_add mv od a i tx ts st)" and ?k = "offer_id_from_hash_and_index (mv_transaction_hash mv tx) i"
  have "same_market (erase_offer ?k ?st) st"
    using push_add_container [OF assms, of od a ts] erase_absent [OF assms] by (auto simp: same_market_def)
  then show ?thesis by (rule same_market_trans [OF pop_add_container])
qed

lemma undo_update:
  assumes "market_ok st" and "find_offer (offer_id_from_hash_and_index (mv_transaction_hash mv tx) i) st = None"
  shows "same_market (snd (handle_pop_update mv uo i tx (snd (handle_push_update mv uo a i tx st)))) st"
proof -
  let ?st = "snd (handle_push_update mv uo a i tx st)" and ?k = "offer_id_from_hash_and_index (mv_transaction_hash mv tx) i"
    and ?o = "offer_id_from_hash_and_index (uo_tx_id uo) (uo_offer_index uo)"
  from push_update_container [OF assms(2), of uo a] show ?thesis
  proof (elim disjE exE conjE)
    assume s: "same_market ?st st"
    then have "find_offer ?k ?st = None" using assms(2) by (simp add: same_market_find)
    from pop_update_absent [OF this] s show ?thesis by simp
  next
    fix off new_off k
    assume f: "find_offer k st = Some off" "k = ?o" "\<not> odx_stopped off" "odeh_h new_off = ?k"
      and s: "same_market ?st (change_offer k (\<lambda>off. off\<lparr>odeh_nxt_offer := pod_to_hex (odeh_h new_off), odx_stopped := True\<rparr>)
           (st\<lparr>m_offers := m_offers st @ [new_off]\<rparr>))" (is "same_market _ ?st1")
    have off: "off \<in> set (m_offers st)" "odeh_h off = ?o" using find_offer_Some [OF f(1)] f(2) by simp_all
    then have ne: "?k \<noteq> ?o" using assms(2) by (metis find_offer_None imageI)
    have m: "m_offers ?st = m_offers ?st1" using s by (simp only: same_market_def)
    have e: "m_offers ?st = map (\<lambda>x. if odeh_h x = ?o then x\<lparr>odeh_nxt_offer := pod_to_hex (odeh_h new_off), odx_stopped := True\<rparr> else x)
          (m_offers st) @ [new_off]"
      unfolding m f(2) using f(4) ne by simp
    have "odeh_h ` set (m_offers ?st) = odeh_h ` set (m_offers st @ [new_off])"
      unfolding m by (subst changed_ids) simp_all
    then have "find_offer ?k ?st \<noteq> None" "find_offer ?o ?st \<noteq> None"
      using off f(4) unfolding find_offer_None by (metis image_eqI in_set_conv_decomp UnCI set_append)+
    then obtain x y where "find_offer ?k ?st = Some x" "find_offer ?o ?st = Some y" by blast
    from pop_update_container [OF this]
    have "same_market (snd (handle_pop_update mv uo i tx ?st)) (erase_offer ?k (change_offer ?o
        (\<lambda>off. off\<lparr>odx_stopped := False, odeh_nxt_offer := []\<rparr>) ?st))" .
    moreover have "m_offers (erase_offer ?k (change_offer ?o (\<lambda>off. off\<lparr>odx_stopped := False, odeh_nxt_offer := []\<rparr>) ?st)) = m_offers st"
    proof -
      have "map (\<lambda>x. if odeh_h x = ?o then x\<lparr>odx_stopped := False, odeh_nxt_offer := []\<rparr> else x)
        (map (\<lambda>x. if odeh_h x = ?o then x\<lparr>odeh_nxt_offer := pod_to_hex (odeh_h new_off), odx_stopped := True\<rparr> else x) (m_offers st)) =
        m_offers st"
      proof (rule map_change_undone)
        fix x assume x: "x \<in> set (m_offers st)" "odeh_h x = ?o"
        then have "x = off" using find_offer_unique [OF assms(1), of x] f(1,2) by simp
        then have "\<not> odx_stopped x" "odeh_nxt_offer x = []" using f(3) assms(1) x(1) by (auto simp: market_ok_def)
        then show "x\<lparr>odeh_nxt_offer := pod_to_hex (odeh_h new_off), odx_stopped := True\<rparr>\<lparr>odx_stopped := False, odeh_nxt_offer := []\<rparr> = x"
          using reopened_offer [of x] by simp
      qed simp
      then show ?thesis unfolding erase_offer_parts change_offer_parts e using f(4) ne erase_absent [OF assms(2)]
        by (simp del: map_map)
    qed
    ultimately show ?thesis using s by (simp add: same_market_def)
  qed
qed

lemma undo_cancel:
  assumes "market_ok st"
    and "\<forall>off. find_offer (offer_id_from_hash_and_index (co_tx_id co) (co_offer_index co)) st = Some off \<longrightarrow> \<not> odx_stopped off"
  shows "same_market (snd (handle_pop_cancel co (snd (handle_push_cancel co st)))) st"
proof -
  let ?st = "snd (handle_push_cancel co st)" and ?o = "offer_id_from_hash_and_index (co_tx_id co) (co_offer_index co)"
  from push_cancel_container [of co st] show ?thesis
  proof (elim disjE exE conjE)
    assume s: "same_market ?st st"
    then have "handle_pop_cancel co ?st = (False, ?st)"
      using assms(2) by (intro pop_cancel_open) (simp add: same_market_find [OF s])
    then show ?thesis using s by simp
  next
    fix off k
    assume f: "find_offer k st = Some off" "k = ?o" "\<not> odx_stopped off"
      and s: "same_market ?st (change_offer k (\<lambda>off. off\<lparr>odx_stopped := True\<rparr>) st)"
    have off: "odeh_h off = ?o" using find_offer_Some [OF f(1)] f(2) by simp
    have "find_offer ?o ?st = Some (off\<lparr>odx_stopped := True\<rparr>)"
      using f(1,2) off by (simp add: same_market_find [OF s] find_offer_changed)
    from pop_cancel_container [OF this] have p: "same_market (snd (handle_pop_cancel co ?st))
      (change_offer ?o (\<lambda>off. off\<lparr>odx_stopped := False\<rparr>) ?st)" by simp
    have "map (\<lambda>x. if odeh_h x = ?o then x\<lparr>odx_stopped := False\<rparr> else x)
        (map (\<lambda>x. if odeh_h x = ?o then x\<lparr>odx_stopped := True\<rparr> else x) (m_offers st)) = m_offers st"
    proof (rule map_change_undone)
      fix x assume x: "x \<in> set (m_offers st)" "odeh_h x = ?o"
      then have "x = off" using find_offer_unique [OF assms(1), of x] f(1,2) by simp
      then show "x\<lparr>odx_stopped := True\<rparr>\<lparr>odx_stopped := False\<rparr> = x" using f(3) by (cases x) simp
    qed simp
    then show ?thesis using p s f(2) by (simp add: same_market_def)
  qed
qed

text \<open>A push keeps the container well formed.\<close>

lemma market_ok_same: "same_market st st' \<Longrightarrow> market_ok st' \<Longrightarrow> market_ok st"
  by (simp add: same_market_def market_ok_def)

lemma market_ok_insert:
  "market_ok st \<Longrightarrow> find_offer (odeh_h n) st = None \<Longrightarrow> odeh_nxt_offer n = [] \<Longrightarrow> market_ok (st\<lparr>m_offers := m_offers st @ [n]\<rparr>)"
  by (auto simp: market_ok_def find_offer_None)

lemma market_ok_change:
  assumes "market_ok st" and "\<And>x. odeh_h (f x) = odeh_h x" and "\<And>x. odx_stopped (f x)"
  shows "market_ok (change_offer k f st)"
proof -
  have "map odeh_h (m_offers (change_offer k f st)) = map odeh_h (m_offers st)" using assms(2) by simp
  then have "distinct (map odeh_h (m_offers (change_offer k f st)))" using assms(1) by (simp only: market_ok_def)
  then show ?thesis using assms(1,3) by (auto simp: market_ok_def simp del: map_map)
qed

lemma market_ok_event: "market_ok (rise_core_event e st) \<longleftrightarrow> market_ok st" by (simp add: market_ok_def)

lemma push_add_ok: "market_ok st \<Longrightarrow> market_ok (snd (handle_push_add mv od a i tx ts st))"
  using market_ok_insert [of st "new_offer od (mv_transaction_hash mv tx) i ts (offer_fee tx) (last (security a))"]
  by (auto simp: handle_push_add_def put_offer_to_container_def Let_def market_ok_def)

lemma push_update_ok:
  assumes "market_ok st" shows "market_ok (snd (handle_push_update mv uo a i tx st))"
proof (cases "find_offer (offer_id_from_hash_and_index (uo_tx_id uo) (uo_offer_index uo)) st")
  case None
  then show ?thesis using assms by (simp add: handle_push_update_def Let_def)
next
  case (Some off)
  have p: "market_ok (snd (put_offer_to_container (new_offer od t j ts fee sec) st))" for od t j ts fee sec
    using market_ok_insert [OF assms] assms by (simp add: put_offer_to_container_def)
  show ?thesis
    by (simp add: handle_push_update_def Let_def split_beta Some assms market_ok_event market_ok_change [OF p])
qed

lemma push_cancel_ok:
  assumes "market_ok st" shows "market_ok (snd (handle_push_cancel co st))"
  using push_cancel_container [of co st] market_ok_change [OF assms] assms
  by (elim disjE exE conjE) (auto elim!: market_ok_same)

lemma entry_push_ok: "market_ok st \<Longrightarrow> market_ok (handle_entry_push mv a i tx h ts st)"
  by (simp add: handle_entry_push_def push_add_ok push_update_ok push_cancel_ok split: option.split)

subsection \<open>Giving a log back\<close>

text \<open>
  The contract between a log and its reader: a push that the reader accepts is undone by the pop of the same entry, up
  to what the reader does not look at. The two loops over the attachments of a transaction rest on it, and the chain of
  transactions does again.
\<close>

fun accepts_all :: "('e \<Rightarrow> 's \<Rightarrow> 's) \<Rightarrow> ('e \<Rightarrow> 's \<Rightarrow> bool) \<Rightarrow> 'e list \<Rightarrow> 's \<Rightarrow> bool" where
  "accepts_all push accepts [] s \<longleftrightarrow> True"
| "accepts_all push accepts (e # es) s \<longleftrightarrow> accepts e s \<and> accepts_all push accepts es (push e s)"

text \<open>The states that a log can lead to: entries are added at its end and taken off there.\<close>

inductive log_run :: "('e \<Rightarrow> 's \<Rightarrow> 's) \<Rightarrow> ('e \<Rightarrow> 's \<Rightarrow> 's) \<Rightarrow> ('e \<Rightarrow> 's \<Rightarrow> bool) \<Rightarrow> 's \<Rightarrow> 'e list \<Rightarrow> 's \<Rightarrow> bool"
  for push pop accepts start where
  log_start: "log_run push pop accepts start [] start"
| log_add: "log_run push pop accepts start es s \<Longrightarrow> accepts e s \<Longrightarrow> log_run push pop accepts start (es @ [e]) (push e s)"
| log_remove: "log_run push pop accepts start (es @ [e]) s \<Longrightarrow> log_run push pop accepts start es (pop e s)"

inductive_cases log_run_empty: "log_run push pop accepts start [] s"

locale undo_log =
  fixes push pop :: "'e \<Rightarrow> 's \<Rightarrow> 's" and accepts :: "'e \<Rightarrow> 's \<Rightarrow> bool" and same :: "'s \<Rightarrow> 's \<Rightarrow> bool"
  assumes same_refl: "same s s"
    and same_sym: "same s t \<Longrightarrow> same t s"
    and same_trans: "same s t \<Longrightarrow> same t u \<Longrightarrow> same s u"
    and push_same: "same s t \<Longrightarrow> same (push e s) (push e t)"
    and pop_same: "same s t \<Longrightarrow> same (pop e s) (pop e t)"
    and accepts_same: "same s t \<Longrightarrow> accepts e s \<Longrightarrow> accepts e t"
    and pop_push: "accepts e s \<Longrightarrow> same (pop e (push e s)) s"
begin

lemma fold_pop_same: "same s t \<Longrightarrow> same (fold pop es s) (fold pop es t)"
  by (induction es arbitrary: s t) (simp_all add: pop_same)

lemma fold_push_same: "same s t \<Longrightarrow> same (fold push es s) (fold push es t)"
  by (induction es arbitrary: s t) (simp_all add: push_same)

lemma accepts_all_same: "same s t \<Longrightarrow> accepts_all push accepts es s \<Longrightarrow> accepts_all push accepts es t"
  by (induction es arbitrary: s t) (auto intro: accepts_same push_same)

lemma unwinds: "accepts_all push accepts es s \<Longrightarrow> same (fold pop (rev es) (fold push es s)) s"
proof (induction es arbitrary: s)
  case (Cons e es)
  then have "same (fold pop (rev es) (fold push es (push e s))) (push e s)" "accepts e s" by simp_all
  then have "same (pop e (fold pop (rev es) (fold push es (push e s)))) s" by (blast intro: pop_same pop_push same_trans)
  then show ?case by simp
qed (simp add: same_refl)

lemma run_is_replay: "log_run push pop accepts start es s \<Longrightarrow>
    same s (fold push es start) \<and> accepts_all push accepts es start"
proof (induction rule: log_run.induct)
  case log_start
  then show ?case by (simp add: same_refl)
next
  case (log_add es s e)
  have "accepts_all push accepts (es @ [e]) t \<longleftrightarrow> accepts_all push accepts es t \<and> accepts e (fold push es t)" for t
    by (induction es arbitrary: t) simp_all
  then show ?case using log_add by (auto intro: push_same accepts_same)
next
  case (log_remove es e s)
  have a: "accepts_all push accepts (es @ [e]) t \<longleftrightarrow> accepts_all push accepts es t \<and> accepts e (fold push es t)" for t
    by (induction es arbitrary: t) simp_all
  have "same (pop e s) (pop e (push e (fold push es start)))" using log_remove.IH by (auto intro: pop_same)
  then show ?case using log_remove.IH a by (blast intro: same_trans pop_push)
qed

end

subsection \<open>The handlers of the market as such a log\<close>

definition market_push :: "market_view \<Rightarrow> transaction \<Rightarrow> u64 \<Rightarrow> u64 \<Rightarrow> tx_service_attachment \<times> u64 \<Rightarrow> bc_offers_service \<Rightarrow>
    bc_offers_service" where
  "market_push mv tx h ts e st =
     (if service_id (fst e) = BC_OFFERS_SERVICE_ID then handle_entry_push mv (fst e) (snd e) tx h ts st else st)"

definition market_pop :: "market_view \<Rightarrow> transaction \<Rightarrow> u64 \<Rightarrow> tx_service_attachment \<times> u64 \<Rightarrow> bc_offers_service \<Rightarrow>
    bc_offers_service" where
  "market_pop mv tx h e st =
     (if service_id (fst e) = BC_OFFERS_SERVICE_ID then handle_entry_pop mv (fst e) (snd e) tx h st else st)"

text \<open>
  When the market gives an entry back exactly: the identifier that it would make is new, it does not cancel a stopped
  offer, and the pop is not the first one at the height of a daily trimming.
\<close>

definition market_accepts :: "market_view \<Rightarrow> transaction \<Rightarrow> u64 \<Rightarrow> tx_service_attachment \<times> u64 \<Rightarrow> bc_offers_service \<Rightarrow> bool" where
  "market_accepts mv tx h e st \<longleftrightarrow> service_id (fst e) = BC_OFFERS_SERVICE_ID \<longrightarrow> market_ok st \<and>
     (instruction (fst e) = BC_OFFERS_SERVICE_INSTRUCTION_DEL \<or>
      find_offer (offer_id_from_hash_and_index (mv_transaction_hash mv tx) (snd e)) st = None) \<and>
     \<not> cancels_stopped mv (fst e) st \<and> (m_last_trimed_height st = h \<or> h mod CURRENCY_BLOCKS_PER_DAY \<noteq> 0)"

lemma same_market_iff: "same_market st st' \<longleftrightarrow> (\<exists>ev. st' = st\<lparr>core_events := ev\<rparr>)"
proof
  assume "same_market st st'"
  then have "st' = st\<lparr>core_events := core_events st'\<rparr>" by (cases st; cases st') (simp add: same_market_def)
  then show "\<exists>ev. st' = st\<lparr>core_events := ev\<rparr>" by blast
qed (auto simp: same_market_def)

lemma find_offer_events [simp]: "find_offer k (st\<lparr>core_events := ev\<rparr>) = find_offer k st"
  by (simp add: find_offer_def)

lemma pushes_same:
  assumes "same_market st st'"
  shows "same_market (snd (handle_push_add mv od a i tx ts st)) (snd (handle_push_add mv od a i tx ts st'))"
    and "same_market (snd (handle_push_update mv uo a i tx st)) (snd (handle_push_update mv uo a i tx st'))"
    and "same_market (snd (handle_push_cancel co st)) (snd (handle_push_cancel co st'))"
proof -
  obtain ev where st': "st' = st\<lparr>core_events := ev\<rparr>" using assms by (auto simp: same_market_iff)
  show "same_market (snd (handle_push_add mv od a i tx ts st)) (snd (handle_push_add mv od a i tx ts st'))"
    by (simp add: st' handle_push_add_def put_offer_to_container_def same_market_def Let_def)
  show "same_market (snd (handle_push_update mv uo a i tx st)) (snd (handle_push_update mv uo a i tx st'))"
    by (auto simp: st' handle_push_update_def put_offer_to_container_def same_market_def Let_def split: option.split)
  show "same_market (snd (handle_push_cancel co st)) (snd (handle_push_cancel co st'))"
    by (simp add: st' handle_push_cancel_def validate_cancel_order_def same_market_def Let_def split: option.split)
qed

lemma pops_same:
  assumes "same_market st st'"
  shows "same_market (snd (handle_pop_add mv i tx st)) (snd (handle_pop_add mv i tx st'))"
    and "same_market (snd (handle_pop_update mv uo i tx st)) (snd (handle_pop_update mv uo i tx st'))"
    and "same_market (snd (handle_pop_cancel co st)) (snd (handle_pop_cancel co st'))"
proof -
  obtain ev where st': "st' = st\<lparr>core_events := ev\<rparr>" using assms by (auto simp: same_market_iff)
  show "same_market (snd (handle_pop_add mv i tx st)) (snd (handle_pop_add mv i tx st'))"
    by (simp add: st' handle_pop_add_def same_market_def Let_def split: option.split)
  show "same_market (snd (handle_pop_update mv uo i tx st)) (snd (handle_pop_update mv uo i tx st'))"
    by (simp add: st' handle_pop_update_def same_market_def Let_def split: option.split)
  show "same_market (snd (handle_pop_cancel co st)) (snd (handle_pop_cancel co st'))"
    by (simp add: st' handle_pop_cancel_def same_market_def Let_def split: option.split)
qed

lemma fold_erase_offers: "m_offers (fold erase_offer ks st) = filter (\<lambda>off. odeh_h off \<notin> set ks) (m_offers st)"
proof (induction ks arbitrary: st)
  case (Cons k ks)
  show ?case by (simp add: Cons.IH)
qed simp

lemma fold_erase_registers:
  "m_last_trimed_height (fold erase_offer ks st) = m_last_trimed_height st \<and> m_disabled (fold erase_offer ks st) = m_disabled st \<and>
   m_last_seen_block_id (fold erase_offer ks st) = m_last_seen_block_id st"
  by (induction ks arbitrary: st) simp_all

lemma trim_same: "same_market st st' \<Longrightarrow> same_market (trim_once_a_day mv h st) (trim_once_a_day mv h st')"
  by (simp add: same_market_def trim_once_a_day_def trim_offers_def fold_erase_offers fold_erase_registers)

lemma entry_push_same:
  "same_market st st' \<Longrightarrow> same_market (handle_entry_push mv a i tx h ts st) (handle_entry_push mv a i tx h ts st')"
  using pushes_same [of st st'] by (simp add: handle_entry_push_def same_market_def split: option.split)

lemma entry_pop_same:
  assumes "same_market st st'"
  shows "same_market (handle_entry_pop mv a i tx h st) (handle_entry_pop mv a i tx h st')"
proof -
  have "m_disabled st = m_disabled st'" using assms by (simp add: same_market_def)
  then show ?thesis using pops_same [OF assms] assms
    by (simp add: handle_entry_pop_def trim_same split: option.split)
qed

lemma events_ignored [simp]:
  "cancels_stopped mv a (st\<lparr>core_events := ev\<rparr>) = cancels_stopped mv a st" "market_ok (st\<lparr>core_events := ev\<rparr>) = market_ok st"
  unfolding cancels_stopped_def market_ok_def find_offer_events by (rule refl, simp)

lemma market_accepts_same: "same_market st st' \<Longrightarrow> market_accepts mv tx h e st \<Longrightarrow> market_accepts mv tx h e st'"
  by (auto simp: same_market_iff market_accepts_def)

lemma pushes_enabled:
  "m_disabled (snd (handle_push_add mv od a i tx ts st)) = m_disabled st"
  "m_disabled (snd (handle_push_update mv uo a i tx st)) = m_disabled st"
  "m_disabled (snd (handle_push_cancel co st)) = m_disabled st"
  by (simp_all add: handle_push_add_def handle_push_update_def handle_push_cancel_def put_offer_to_container_def Let_def
      split: option.split)

lemma trim_not_due: "m_last_trimed_height s = h \<or> h mod CURRENCY_BLOCKS_PER_DAY \<noteq> 0 \<Longrightarrow> trim_once_a_day mv h s = s"
  unfolding trim_once_a_day_def by (rule if_not_P) metis

lemma pop_push_entry:
  assumes "market_accepts mv tx h' (a, i) st" and "service_id a = BC_OFFERS_SERVICE_ID"
  shows "same_market (handle_entry_pop mv a i tx h' (handle_entry_push mv a i tx h ts st)) st"
proof -
  let ?k = "offer_id_from_hash_and_index (mv_transaction_hash mv tx) i"
  have ok: "market_ok st" "\<not> cancels_stopped mv a st"
    and fresh: "instruction a \<noteq> BC_OFFERS_SERVICE_INSTRUCTION_DEL \<Longrightarrow> find_offer ?k st = None"
    and h: "m_last_trimed_height st = h' \<or> h' mod CURRENCY_BLOCKS_PER_DAY \<noteq> 0"
    using assms by (auto simp: market_accepts_def)
  have trim: "trim_once_a_day mv h' s = s" if "same_market s st" for s
    using that h by (intro trim_not_due) (simp add: same_market_def)
  show ?thesis
  proof (cases "m_disabled st \<or> mv_unpack mv (body a) = None")
    case True
    then show ?thesis by (auto simp: handle_entry_push_def handle_entry_pop_def)
  next
    case False
    then obtain js where js: "mv_unpack mv (body a) = Some js" and en: "\<not> m_disabled st" by blast
    have en': "\<not> m_disabled (handle_entry_push mv a i tx h ts st)"
      using en pushes_enabled by (auto simp: handle_entry_push_def split: option.split)
    consider (add) "instruction a = BC_OFFERS_SERVICE_INSTRUCTION_ADD" | (upd) "instruction a = BC_OFFERS_SERVICE_INSTRUCTION_UPD"
      | (del) "instruction a = BC_OFFERS_SERVICE_INSTRUCTION_DEL"
      | (none) "instruction a \<noteq> BC_OFFERS_SERVICE_INSTRUCTION_ADD" "instruction a \<noteq> BC_OFFERS_SERVICE_INSTRUCTION_UPD"
          "instruction a \<noteq> BC_OFFERS_SERVICE_INSTRUCTION_DEL" by blast
    then show ?thesis
    proof cases
      case add
      show ?thesis
      proof (cases "mv_load_offer mv js")
        case (Some od)
        note u = undo_add [OF fresh, of od a ts] 
        show ?thesis using en' u trim [OF u] js en add Some by (simp add: handle_entry_push_def handle_entry_pop_def)
      qed (use add js en trim in \<open>simp add: handle_entry_push_def handle_entry_pop_def\<close>)
    next
      case upd
      show ?thesis
      proof (cases "mv_load_update mv js")
        case (Some uo)
        note u = undo_update [OF ok(1) fresh, of uo a]
        show ?thesis using en' u trim [OF u] js en upd Some by (simp add: handle_entry_push_def handle_entry_pop_def)
      qed (use upd js en trim in \<open>simp add: handle_entry_push_def handle_entry_pop_def\<close>)
    next
      case del
      show ?thesis
      proof (cases "mv_load_cancel mv js")
        case (Some co)
        have "\<forall>off. find_offer (offer_id_from_hash_and_index (co_tx_id co) (co_offer_index co)) st = Some off \<longrightarrow> \<not> odx_stopped off"
          using ok(2) del js Some by (auto simp: cancels_stopped_def)
        note u = undo_cancel [OF ok(1) this]
        show ?thesis using en' u trim [OF u] js en del Some by (simp add: handle_entry_push_def handle_entry_pop_def)
      qed (use del js en trim in \<open>simp add: handle_entry_push_def handle_entry_pop_def\<close>)
    next
      case none
      then show ?thesis using js en trim by (simp add: handle_entry_push_def handle_entry_pop_def)
    qed
  qed
qed

interpretation entry_log: undo_log "market_push mv tx h ts" "market_pop mv tx h'" "market_accepts mv tx h'" same_market
proof unfold_locales
  show "same_market st st" for st by simp
  show "same_market s t \<Longrightarrow> same_market t s" for s t by (rule same_market_sym)
  show "same_market s t \<Longrightarrow> same_market t u \<Longrightarrow> same_market s u" for s t u by (rule same_market_trans)
  show "same_market s t \<Longrightarrow> same_market (market_push mv tx h ts e s) (market_push mv tx h ts e t)" for s t e
    by (simp add: market_push_def entry_push_same)
  show "same_market s t \<Longrightarrow> same_market (market_pop mv tx h' e s) (market_pop mv tx h' e t)" for s t e
    by (simp add: market_pop_def entry_pop_same)
  show "same_market s t \<Longrightarrow> market_accepts mv tx h' e s \<Longrightarrow> market_accepts mv tx h' e t" for s t e
    by (rule market_accepts_same)
  show "market_accepts mv tx h' e s \<Longrightarrow> same_market (market_pop mv tx h' e (market_push mv tx h ts e s)) s" for s e
    by (cases e) (simp add: market_push_def market_pop_def pop_push_entry)
qed

text \<open>The service attachments of a transaction with their numbers.\<close>

fun numbered :: "u64 \<Rightarrow> extra_v list \<Rightarrow> (tx_service_attachment \<times> u64) list" where
  "numbered cnt [] = []"
| "numbered cnt (TxServiceAttachment a # as) = (a, cnt) # numbered (cnt + 1) as"
| "numbered cnt (a # as) = numbered cnt as"

lemma numbered_other: "\<not> is_service_attachment a \<Longrightarrow> numbered cnt (a # as) = numbered cnt as"
  by (cases a) (simp_all add: is_service_attachment_def)

lemma push_manager:
  "manager_entry_push a i tx h bl_id ts (with_market mv st) = with_market mv (market_push mv tx h ts (a, i) st)"
  by (simp add: manager_entry_push_def with_market_def market_push_def offers_service_def srv_update_def)

lemma pop_manager:
  "manager_entry_pop a i tx h ts (with_market mv st) = with_market mv (market_pop mv tx h (a, i) st)"
  by (simp add: manager_entry_pop_def with_market_def market_pop_def offers_service_def srv_update_def)

lemma process_loop_fold:
  "process_attachments_loop tx h bl_id ts as cnt (with_market mv st) = with_market mv (fold (market_push mv tx h ts) (numbered cnt as) st)"
proof (induction as arbitrary: cnt st)
  case (Cons a as)
  then show ?case by (cases a) (simp_all add: push_manager)
qed simp

lemma resync_loop_fold: "resync_attachments mv tx h ts as cnt st = fold (market_push mv tx h ts) (numbered cnt as) st"
proof (induction as arbitrary: cnt st)
  case (Cons a as)
  then show ?case by (cases a) (simp_all add: market_push_def)
qed simp

lemma numbered_length: "length (numbered cnt as) = length (filter is_service_attachment as)"
proof (induction as arbitrary: cnt)
  case (Cons a as)
  then show ?case by (cases a) (simp_all add: is_service_attachment_def)
qed simp

lemma numbered_append: "numbered cnt (xs @ ys) = numbered cnt xs @ numbered (cnt + of_nat (length (filter is_service_attachment xs))) ys"
proof (induction xs arbitrary: cnt)
  case (Cons a as)
  then show ?case by (cases a) (simp_all add: is_service_attachment_def algebra_simps)
qed simp

lemma service_count: "get_service_attachments_count_in_tx tx = of_nat (length (filter is_service_attachment (attachment tx)))"
proof -
  have "fold (\<lambda>at cnt. if is_service_attachment at then cnt + 1 else cnt) as c = c + of_nat (length (filter is_service_attachment as))"
    for as and c :: u64
    by (induction as arbitrary: c) (simp_all add: algebra_simps)
  then show ?thesis by (simp add: get_service_attachments_count_in_tx_def)
qed

lemma unprocess_loop_fold:
  "unprocess_attachments_loop tx h ts (rev as) (cnt + of_nat (length (filter is_service_attachment as)) - 1) (with_market mv st) =
    with_market mv (fold (market_pop mv tx h) (rev (numbered cnt as)) st)"
proof (induction as arbitrary: st rule: rev_induct)
  case (snoc a as)
  show ?case
  proof (cases a)
    case (TxServiceAttachment sa)
    have "cnt + of_nat (length (filter is_service_attachment (as @ [a]))) - 1 = cnt + of_nat (length (filter is_service_attachment as))"
      using TxServiceAttachment by (simp add: is_service_attachment_def)
    then show ?thesis using TxServiceAttachment snoc.IH by (simp add: numbered_append pop_manager)
  qed (use snoc.IH in \<open>simp_all add: numbered_append is_service_attachment_def\<close>)
qed simp

text \<open>A transaction as an entry of the log of the chain: with its block's height and time, and the height at which it is taken off.\<close>

record chain_entry =
  ce_tx :: transaction
  ce_height :: u64
  ce_time :: u64
  ce_pop_height :: u64

definition tx_push :: "market_view \<Rightarrow> chain_entry \<Rightarrow> bc_offers_service \<Rightarrow> bc_offers_service" where
  "tx_push mv e st = fold (market_push mv (ce_tx e) (ce_height e) (ce_time e)) (numbered 0 (attachment (ce_tx e))) st"

definition tx_pop :: "market_view \<Rightarrow> chain_entry \<Rightarrow> bc_offers_service \<Rightarrow> bc_offers_service" where
  "tx_pop mv e st = fold (market_pop mv (ce_tx e) (ce_pop_height e)) (rev (numbered 0 (attachment (ce_tx e)))) st"

definition tx_accepts :: "market_view \<Rightarrow> chain_entry \<Rightarrow> bc_offers_service \<Rightarrow> bool" where
  "tx_accepts mv e st \<longleftrightarrow> accepts_all (market_push mv (ce_tx e) (ce_height e) (ce_time e)) (market_accepts mv (ce_tx e) (ce_pop_height e))
     (numbered 0 (attachment (ce_tx e))) st"

lemma process_is_push:
  "process_blockchain_tx_attachments (ce_tx e) (ce_height e) bl_id (ce_time e) (with_market mv st) = with_market mv (tx_push mv e st)"
  by (simp add: process_blockchain_tx_attachments_def process_loop_fold tx_push_def)

lemma unprocess_is_pop:
  assumes "length (attachment (ce_tx e)) < 2 ^ 64"
  shows "unprocess_blockchain_tx_attachments (ce_tx e) (ce_pop_height e) ts (with_market mv st) = with_market mv (tx_pop mv e st)"
proof -
  let ?n = "length (filter is_service_attachment (attachment (ce_tx e)))"
  have n: "?n < 2 ^ 64" using length_filter_le [of is_service_attachment "attachment (ce_tx e)"] assms by linarith
  have e: "numbered 0 (attachment (ce_tx e)) = []" if "get_service_attachments_count_in_tx (ce_tx e) = 0"
  proof -
    have "unat (of_nat ?n :: u64) = ?n" using n by (simp add: unat_of_nat)
    then have "?n = 0" using that by (simp add: service_count)
    then show ?thesis using numbered_length [of 0 "attachment (ce_tx e)"] by simp
  qed
  show ?thesis using e unprocess_loop_fold [of "ce_tx e" "ce_pop_height e" ts "attachment (ce_tx e)" 0 mv st]
    by (simp add: unprocess_blockchain_tx_attachments_def tx_pop_def service_count Let_def)
qed

interpretation tx_log: undo_log "tx_push mv" "tx_pop mv" "tx_accepts mv" same_market
proof unfold_locales
  show "same_market st st" for st by simp
  show "same_market s t \<Longrightarrow> same_market t s" for s t by (rule same_market_sym)
  show "same_market s t \<Longrightarrow> same_market t u \<Longrightarrow> same_market s u" for s t u by (rule same_market_trans)
  show "same_market s t \<Longrightarrow> same_market (tx_push mv e s) (tx_push mv e t)" for s t e
    unfolding tx_push_def by (rule entry_log.fold_push_same)
  show "same_market s t \<Longrightarrow> same_market (tx_pop mv e s) (tx_pop mv e t)" for s t e
    unfolding tx_pop_def by (rule entry_log.fold_pop_same)
  show "same_market s t \<Longrightarrow> tx_accepts mv e s \<Longrightarrow> tx_accepts mv e t" for s t e
    unfolding tx_accepts_def by (rule entry_log.accepts_all_same)
  show "tx_accepts mv e s \<Longrightarrow> same_market (tx_pop mv e (tx_push mv e s)) s" for s e
    unfolding tx_accepts_def tx_push_def tx_pop_def by (rule entry_log.unwinds)
qed

lemma resync_txs_fold:
  "resync_txs mv h ts (map Some txs) st = (True, fold (\<lambda>tx. tx_push mv \<lparr>ce_tx = tx, ce_height = h, ce_time = ts, ce_pop_height = p\<rparr>) txs st)"
  by (induction txs arbitrary: st) (simp_all add: tx_push_def resync_loop_fold)

fun chain_entries :: "u64 \<Rightarrow> (u64 \<times> transaction list) list \<Rightarrow> (transaction \<times> u64 \<times> u64) list" where
  "chain_entries h [] = []"
| "chain_entries h ((ts, txs) # bs) = map (\<lambda>tx. (tx, h, ts)) txs @ chain_entries (h + 1) bs"

lemma resync_blocks_fold:
  "resync_blocks mv h (map (\<lambda>(ts, txs). (ts, map Some txs)) bs) st =
    (True, fold (\<lambda>(tx, h, ts). tx_push mv \<lparr>ce_tx = tx, ce_height = h, ce_time = ts, ce_pop_height = 0\<rparr>) (chain_entries h bs) st)"
proof (induction bs arbitrary: h st)
  case (Cons b bs)
  show ?case by (cases b) (simp add: Cons.IH resync_txs_fold [where p = 0] fold_map comp_def)
qed simp

lemma tx_push_pop_height: "tx_push mv (e\<lparr>ce_pop_height := p\<rparr>) = tx_push mv e"
  by (rule ext) (simp add: tx_push_def)

text \<open>C17: Taking a transaction off gives the market back, if the market can give back each of its entries when it is
  pushed (\<open>tx_accepts\<close>): the market is enabled and its identifiers are unique, a new offer or an update gets an identifier that
  is not in use, a cancellation does not name an offer that is stopped already, and the height at which the transaction
  comes off does not make the pop trim old offers. Then the two loops over the attachments of the transaction, run one
  after the other over the services of the node, leave the offers, the registers and the other services as they were. Without
  these conditions it does not hold in general: a cancellation of an offer that is stopped already is ignored when it is
  pushed and reopens the offer when it is popped.\<close>
theorem market_unwinds:
  assumes "length (attachment (ce_tx e)) < 2 ^ 64" and "tx_accepts mv e st"
  shows "\<exists>st'. unprocess_blockchain_tx_attachments (ce_tx e) (ce_pop_height e) ts
      (process_blockchain_tx_attachments (ce_tx e) (ce_height e) bl_id (ce_time e) (with_market mv st)) = with_market mv st' \<and>
    same_market st' st"
  using tx_log.pop_push [OF assms(2)] unfolding process_is_push unprocess_is_pop [OF assms(1)] by blast

text \<open>C16: The market follows the chain, for histories in which every transaction that is added is one whose entries the
  market can give back at that point (\<open>tx_accepts\<close>: enabled market, unique and unused identifiers, no cancellation of an
  offer that is stopped already, no height that trims old offers): however such transactions were added at the end of the
  chain and taken off it, starting from the empty market, the market is the one that \<open>resync_market\<close> computes from the
  blocks that are left, and resyncing succeeds.\<close>
theorem market_follows_chain:
  assumes "log_run (tx_push mv) (tx_pop mv) (tx_accepts mv) empty_offers_service es st"
    and "map (\<lambda>e. (ce_tx e, ce_height e, ce_time e)) es = chain_entries h0 bs" and "\<not> m_disabled old"
  shows "\<exists>st'. resync_market mv h0 (map (\<lambda>(ts, txs). (ts, map Some txs)) bs) old = (True, st') \<and> same_market st st'"
proof -
  let ?push = "\<lambda>(tx, h, ts). tx_push mv \<lparr>ce_tx = tx, ce_height = h, ce_time = ts, ce_pop_height = 0\<rparr>"
  have "same_market empty_offers_service (clear_offers old)"
    using assms(3) by (simp add: empty_offers_service_def clear_offers_def same_market_def)
  then have "same_market (fold (tx_push mv) es empty_offers_service) (fold (tx_push mv) es (clear_offers old))"
    by (rule tx_log.fold_push_same)
  moreover have "fold (tx_push mv) es s = fold ?push (map (\<lambda>e. (ce_tx e, ce_height e, ce_time e)) es) s" for s
  proof (induction es arbitrary: s)
    case (Cons e es)
    have "tx_push mv \<lparr>ce_tx = ce_tx e, ce_height = ce_height e, ce_time = ce_time e, ce_pop_height = 0\<rparr> = tx_push mv e"
      by (rule ext) (simp add: tx_push_def)
    then show ?case by (simp add: Cons.IH)
  qed simp
  moreover have "same_market st (fold (tx_push mv) es empty_offers_service)" using tx_log.run_is_replay [OF assms(1)] by simp
  ultimately have "same_market st (fold ?push (chain_entries h0 bs) (clear_offers old))"
    using assms(2) same_market_trans by (metis (no_types, lifting))
  then show ?thesis by (simp add: resync_market_def resync_blocks_fold)
qed

lemma put_offer_keeps: "off \<in> set (m_offers st) \<Longrightarrow> off \<in> set (m_offers (snd (put_offer_to_container n st)))"
  by (simp add: put_offer_to_container_def)

lemma change_offer_keeps:
  "off \<in> set (m_offers st) \<Longrightarrow> (if odeh_h off = k then f off else off) \<in> set (m_offers (change_offer k f st))"
  by auto

lemma entry_push_cases:
  assumes "P st" and "\<And>od. P (snd (handle_push_add mv od a i tx ts st))"
    and "\<And>js uo. mv_unpack mv (body a) = Some js \<Longrightarrow> mv_load_update mv js = Some uo \<Longrightarrow> P (snd (handle_push_update mv uo a i tx st))"
    and "\<And>js co. mv_unpack mv (body a) = Some js \<Longrightarrow> mv_load_cancel mv js = Some co \<Longrightarrow> P (snd (handle_push_cancel co st))"
  shows "P (handle_entry_push mv a i tx h ts st)"
  using assms by (simp add: handle_entry_push_def split: option.split)

text \<open>C18: Only its owner closes an offer, and nothing else ever changes in one: after any service attachment of any
  transaction every offer is still there as it was, except that it may have been stopped and given its successor, and
  then it was open and the body of the attachment is an update or a cancellation of this very offer whose signature
  verifies under the key the offer was made with.\<close>
theorem offers_closed_by_owner:
  assumes "off \<in> set (m_offers st)" and "market_ok st"
  shows "\<exists>off' \<in> set (m_offers (handle_entry_push mv a i tx h ts st)).
    off' = off \<or> \<not> odx_stopped off \<and> off' = off\<lparr>odx_stopped := True, odeh_nxt_offer := odeh_nxt_offer off'\<rparr> \<and>
      (\<exists>js. mv_unpack mv (body a) = Some js \<and>
        ((\<exists>co. mv_load_cancel mv js = Some co \<and> offer_id_from_hash_and_index (co_tx_id co) (co_offer_index co) = odeh_h off \<and>
           check_signature (cn_fast_hash (make_cancel_sig_blob co)) (odx_security off) (co_sig co)) \<or>
         (\<exists>uo. mv_load_update mv js = Some uo \<and> offer_id_from_hash_and_index (uo_tx_id uo) (uo_offer_index uo) = odeh_h off \<and>
           check_signature (cn_fast_hash (make_update_sig_blob mv uo)) (odx_security off) (uo_sig uo))))"
    (is "\<exists>off' \<in> _. ?P off'")
proof -
  have same: "\<exists>off' \<in> set (m_offers st'). ?P off'" if "off \<in> set (m_offers st')" for st' using that by blast
  have add: "off \<in> set (m_offers (snd (handle_push_add mv od a i tx ts st)))" for od
    using assms(1) by (simp add: handle_push_add_def Let_def put_offer_to_container_def)
  have upd: "\<exists>off' \<in> set (m_offers (snd (handle_push_update mv uo a i tx st))). ?P off'"
    if js: "mv_unpack mv (body a) = Some js" "mv_load_update mv js = Some uo" for js uo
  proof (cases "fst (handle_push_update mv uo a i tx st)")
    case False
    then have "handle_push_update mv uo a i tx st = (False, st)"
      by (simp add: handle_push_update_def Let_def split_beta split: option.split_asm if_split_asm)
    then show ?thesis using same [OF assms(1)] by (simp only: snd_conv)
  next
    case True
    let ?k = "offer_id_from_hash_and_index (uo_tx_id uo) (uo_offer_index uo)"
    obtain it where it: "find_offer ?k st = Some it" "validate_modify_order_signature it (make_update_sig_blob mv uo) (uo_sig uo)"
      "security a \<noteq> []"
      using True by (auto simp: handle_push_update_def Let_def split_beta split: option.splits if_splits)
    let ?n = "new_offer (uo_of uo) (mv_transaction_hash mv tx) i (odx_timestamp it) (offer_fee tx) (last (security a))"
    let ?f = "\<lambda>off. off\<lparr>odeh_nxt_offer := pod_to_hex (odeh_h ?n), odx_stopped := True\<rparr> :: odeh"
    have m: "m_offers (snd (handle_push_update mv uo a i tx st)) = m_offers (change_offer ?k ?f (snd (put_offer_to_container ?n st)))"
      using it by (simp add: handle_push_update_def Let_def split_beta del: change_offer_parts)
    have "(if odeh_h off = ?k then ?f off else off) \<in> set (m_offers (snd (handle_push_update mv uo a i tx st)))"
      unfolding m by (rule change_offer_keeps [OF put_offer_keeps [OF assms(1)]])
    moreover have "?P (if odeh_h off = ?k then ?f off else off)"
    proof (cases "odeh_h off = ?k")
      case True
      have "it = off" using find_offer_unique [OF assms(2,1)] it(1) True by simp
      then have "\<not> odx_stopped off" "check_signature (cn_fast_hash (make_update_sig_blob mv uo)) (odx_security off) (uo_sig uo)"
        using it(2) by (simp_all add: validate_modify_order_signature_def split: if_split_asm)
      then show ?thesis using True js by simp
    qed simp
    ultimately show ?thesis by blast
  qed
  have del: "\<exists>off' \<in> set (m_offers (snd (handle_push_cancel co st))). ?P off'"
    if js: "mv_unpack mv (body a) = Some js" "mv_load_cancel mv js = Some co" for js co
    using push_cancel_container [of co st]
  proof (elim disjE exE conjE)
    assume "same_market (snd (handle_push_cancel co st)) st"
    then show ?thesis using assms(1) by (intro same) (simp add: same_market_def)
  next
    fix it k
    assume it: "find_offer k st = Some it" "k = offer_id_from_hash_and_index (co_tx_id co) (co_offer_index co)" "\<not> odx_stopped it"
      "check_signature (cn_fast_hash (make_cancel_sig_blob co)) (odx_security it) (co_sig co)"
      and s: "same_market (snd (handle_push_cancel co st)) (change_offer k (\<lambda>off. off\<lparr>odx_stopped := True\<rparr>) st)"
    have "(if odeh_h off = k then off\<lparr>odx_stopped := True\<rparr> else off) \<in> set (m_offers (snd (handle_push_cancel co st)))"
      using change_offer_keeps [OF assms(1)] s by (simp add: same_market_def del: change_offer_parts)
    moreover have "?P (if odeh_h off = k then off\<lparr>odx_stopped := True\<rparr> else off)"
    proof (cases "odeh_h off = k")
      case True
      have "it = off" using find_offer_unique [OF assms(2,1)] it(1) True by simp
      then show ?thesis using True js it by simp
    qed simp
    ultimately show ?thesis by blast
  qed
  show ?thesis
    by (rule entry_push_cases) (use same [OF assms(1)] same [OF add] upd del in blast)+
qed

text \<open>C24: A cancellation that came too late reopens the offer: if the transaction of a block cancels an offer that is
  stopped already, the market ignores it, but when the block is taken off, the offer is open, although it was stopped
  before the block. The result of the push is not kept, so the pop cannot know that there is nothing to undo.\<close>
theorem stopped_cancel_reopens:
  assumes "attachment tx = [TxServiceAttachment a]" and "service_id a = BC_OFFERS_SERVICE_ID"
    and "instruction a = BC_OFFERS_SERVICE_INSTRUCTION_DEL" and "\<not> m_disabled st"
    and "mv_unpack mv (body a) = Some js" and "mv_load_cancel mv js = Some co"
    and "find_offer (offer_id_from_hash_and_index (co_tx_id co) (co_offer_index co)) st = Some off" and "odx_stopped off"
    and "h' mod CURRENCY_BLOCKS_PER_DAY \<noteq> 0"
  shows "process_blockchain_tx_attachments tx h bl_id ts (with_market mv st) = with_market mv st \<and>
    (\<exists>st'. unprocess_blockchain_tx_attachments tx h' ts' (with_market mv st) = with_market mv st' \<and>
       find_offer (odeh_h off) st' = Some (off\<lparr>odx_stopped := False\<rparr>))"
proof -
  let ?k = "offer_id_from_hash_and_index (co_tx_id co) (co_offer_index co)"
    and ?e = "\<lparr>ce_tx = tx, ce_height = h, ce_time = ts, ce_pop_height = h'\<rparr>"
  have k: "?k = odeh_h off" using find_offer_Some [OF assms(7)] by simp
  have "handle_push_cancel co st = (False, st)"
    using assms(7,8) by (simp add: handle_push_cancel_def validate_cancel_order_def validate_modify_order_signature_def Let_def)
  then have push: "tx_push mv ?e st = st" using assms by (simp add: tx_push_def market_push_def handle_entry_push_def)
  have trim: "trim_once_a_day mv h' s = s" for s using assms(9) by (intro trim_not_due disjI2)
  have "tx_pop mv ?e st = snd (handle_pop_cancel co st)"
    using assms trim by (simp add: tx_pop_def market_pop_def handle_entry_pop_def)
  moreover have "same_market (snd (handle_pop_cancel co st)) (change_offer ?k (\<lambda>off. off\<lparr>odx_stopped := False\<rparr>) st)"
    by (rule pop_cancel_container [OF assms(7,8)])
  ultimately have "find_offer (odeh_h off) (tx_pop mv ?e st) = Some (off\<lparr>odx_stopped := False\<rparr>)"
    using same_market_find assms(7) k by (simp add: find_offer_changed)
  moreover have "length (attachment (ce_tx ?e)) < 2 ^ 64" using assms(1) by simp
  ultimately show ?thesis
    using process_is_push [of ?e bl_id mv st] push unprocess_is_pop [of ?e ts' mv st] by auto
qed

text \<open>The trimming.\<close>

lemma old_offers_filter:
  assumes "sorted (map odx_timestamp xs)" and "\<And>off. off \<in> set xs \<Longrightarrow> unat (odx_timestamp off) + 2592000 < 2 ^ 64"
  shows "old_offers now xs = map odeh_h (filter (\<lambda>off. odx_timestamp off + OFFER_MAXIMUM_LIFE_TIME < now) xs)"
  using assms
proof (induction xs)
  case (Cons x xs)
  have v: "unat (odx_timestamp off + OFFER_MAXIMUM_LIFE_TIME) = unat (odx_timestamp off) + 2592000" if "off \<in> set (x # xs)" for off
    using Cons.prems(2) [OF that] by (simp add: OFFER_MAXIMUM_LIFE_TIME_def unat_add_no_wrap)
  show ?case
  proof (cases "odx_timestamp x + OFFER_MAXIMUM_LIFE_TIME < now")
    case True
    then show ?thesis using Cons by simp
  next
    case False
    have "\<not> odx_timestamp off + OFFER_MAXIMUM_LIFE_TIME < now" if "off \<in> set xs" for off
    proof -
      have "odx_timestamp x \<le> odx_timestamp off" using Cons.prems(1) that by simp
      then have "unat (odx_timestamp x + OFFER_MAXIMUM_LIFE_TIME) \<le> unat (odx_timestamp off + OFFER_MAXIMUM_LIFE_TIME)"
        using v [of x] v [of off] that by (simp add: word_le_nat_alt)
      then show ?thesis using False by (simp add: word_less_nat_alt)
    qed
    then show ?thesis using False by simp
  qed
qed simp

text \<open>The trimming removes exactly the offers older than thirty days: although its loop stops at the first offer of the
  index that is not old, no later one is missed as long as the sums of the time stamps and the life time fit.\<close>
theorem trim_offers_exact:
  assumes "market_ok st" and "\<forall>off \<in> set (m_offers st). unat (odx_timestamp off) + 2592000 < 2 ^ 64"
  shows "m_offers (trim_offers now st) = filter (\<lambda>off. \<not> unat (odx_timestamp off) + 2592000 < unat now) (m_offers st)"
proof -
  let ?old = "\<lambda>off. odx_timestamp off + OFFER_MAXIMUM_LIFE_TIME < now"
  have v: "?old off \<longleftrightarrow> unat (odx_timestamp off) + 2592000 < unat now" if "off \<in> set (m_offers st)" for off
    using assms(2) that by (simp add: OFFER_MAXIMUM_LIFE_TIME_def word_less_nat_alt unat_add_no_wrap)
  have "old_offers now (sort_key odx_timestamp (m_offers st)) = map odeh_h (filter ?old (sort_key odx_timestamp (m_offers st)))"
    using assms(2) by (intro old_offers_filter) simp_all
  then have "set (old_offers now (sort_key odx_timestamp (m_offers st))) = odeh_h ` {off \<in> set (m_offers st). ?old off}"
    by auto
  moreover have "odeh_h off \<in> odeh_h ` {off \<in> set (m_offers st). ?old off} \<longleftrightarrow> ?old off" if "off \<in> set (m_offers st)" for off
    using that assms(1) by (auto simp: market_ok_def distinct_map dest: inj_onD)
  ultimately show ?thesis
    using v by (auto simp: trim_offers_def fold_erase_offers intro!: filter_cong)
qed

subsection \<open>Instances\<close>

text \<open>A market whose bodies are read as they are, one command each.\<close>

definition demo_details :: offer_details where
  "demo_details = \<lparr>od_offer_type = 0, od_amount_primary = 5, od_amount_target = 7, od_bonus = [], od_target = [0x42], od_primary = [],
     od_location_country = [], od_location_city = [], od_contacts = [], od_comment = [], od_payment_types = [], od_deal_option = [],
     od_category = [], od_expiration_time = 3\<rparr>"

definition demo_view :: market_view where
  "demo_view = \<lparr>mv_unpack = Some, mv_load_offer = (\<lambda>_. Some demo_details), mv_load_update = (\<lambda>_. None),
     mv_load_cancel = (\<lambda>_. Some \<lparr>co_tx_id = replicate 32 1, co_offer_index = 0, co_sig = replicate 64 0\<rparr>),
     mv_store_offer = (\<lambda>_. []), mv_transaction_hash = (\<lambda>_. replicate 32 1), mv_core_time = 0\<rparr>"

definition demo_attachment :: "bytes \<Rightarrow> tx_service_attachment" where
  "demo_attachment command = \<lparr>service_id = BC_OFFERS_SERVICE_ID, instruction = command, body = [], security = [replicate 32 2], sa_flags = 0\<rparr>"

definition demo_entry :: "bytes \<Rightarrow> chain_entry" where
  "demo_entry command = \<lparr>ce_tx = simple_tx\<lparr>attachment := [TxServiceAttachment (demo_attachment command)]\<rparr>, ce_height = 9, ce_time = 4,
     ce_pop_height = 10\<rparr>"

lemma demo_accepted: "tx_accepts demo_view (demo_entry BC_OFFERS_SERVICE_INSTRUCTION_ADD) empty_offers_service"
  by (simp add: tx_accepts_def demo_entry_def demo_attachment_def market_accepts_def market_ok_def empty_offers_service_def
      find_offer_def cancels_stopped_def CURRENCY_BLOCKS_PER_DAY_def)

theorem market_unwinds_witness:
  "\<exists>st'. unprocess_blockchain_tx_attachments (ce_tx (demo_entry BC_OFFERS_SERVICE_INSTRUCTION_ADD)) 10 0
      (process_blockchain_tx_attachments (ce_tx (demo_entry BC_OFFERS_SERVICE_INSTRUCTION_ADD)) 9 [] 4
        (with_market demo_view empty_offers_service)) = with_market demo_view st' \<and> same_market st' empty_offers_service"
  using market_unwinds [OF _ demo_accepted, of 0 "[]"] by (simp add: demo_entry_def)

theorem market_follows_chain_witness:
  "\<exists>st'. resync_market demo_view 9 [(4, [Some (ce_tx (demo_entry BC_OFFERS_SERVICE_INSTRUCTION_ADD))])] empty_offers_service = (True, st') \<and>
    same_market (tx_push demo_view (demo_entry BC_OFFERS_SERVICE_INSTRUCTION_ADD) empty_offers_service) st'"
proof -
  let ?e = "demo_entry BC_OFFERS_SERVICE_INSTRUCTION_ADD"
  have "log_run (tx_push demo_view) (tx_pop demo_view) (tx_accepts demo_view) empty_offers_service ([] @ [?e])
    (tx_push demo_view ?e empty_offers_service)"
    by (intro log_add log_start demo_accepted)
  then show ?thesis
    using market_follows_chain [of demo_view "[?e]" _ 9 "[(4, [ce_tx ?e])]" empty_offers_service]
    by (simp add: demo_entry_def empty_offers_service_def)
qed

definition demo_offer :: odeh where
  "demo_offer = new_offer demo_details (replicate 32 1) 0 4 1 (replicate 32 2)"

lemma offer_id_zero: "8 \<le> length k \<Longrightarrow> offer_id_from_hash_and_index k 0 = k"
  by (simp add: offer_id_from_hash_and_index_def store_load64)

lemma demo_offer_parts: "odeh_h demo_offer = replicate 32 1" "odx_timestamp demo_offer = 4"
  by (simp_all add: demo_offer_def offer_id_zero, simp add: new_offer_def offer_details.extend_def)

theorem offers_closed_by_owner_witness:
  "\<exists>off' \<in> set (m_offers (handle_entry_push demo_view (demo_attachment BC_OFFERS_SERVICE_INSTRUCTION_DEL) 0 simple_tx 9 4
      (empty_offers_service\<lparr>m_offers := [demo_offer]\<rparr>))).
    off' = demo_offer \<or> off' = demo_offer\<lparr>odx_stopped := True, odeh_nxt_offer := odeh_nxt_offer off'\<rparr>"
proof -
  let ?st = "empty_offers_service\<lparr>m_offers := [demo_offer]\<rparr>"
  have "demo_offer \<in> set (m_offers ?st)" "market_ok ?st" by (simp_all add: market_ok_def demo_offer_def)
  from offers_closed_by_owner [OF this, of demo_view "demo_attachment BC_OFFERS_SERVICE_INSTRUCTION_DEL" 0 simple_tx 9 4]
  show ?thesis by blast
qed

theorem stopped_cancel_reopens_witness:
  "\<exists>st'. unprocess_blockchain_tx_attachments (ce_tx (demo_entry BC_OFFERS_SERVICE_INSTRUCTION_DEL)) 10 0
      (with_market demo_view (empty_offers_service\<lparr>m_offers := [demo_offer\<lparr>odx_stopped := True\<rparr>]\<rparr>)) = with_market demo_view st' \<and>
    find_offer (replicate 32 1) st' = Some demo_offer"
proof -
  let ?st = "empty_offers_service\<lparr>m_offers := [demo_offer\<lparr>odx_stopped := True\<rparr>]\<rparr>"
    and ?a = "demo_attachment BC_OFFERS_SERVICE_INSTRUCTION_DEL" and ?o = "demo_offer\<lparr>odx_stopped := True\<rparr>"
    and ?co = "\<lparr>co_tx_id = replicate 32 1, co_offer_index = 0, co_sig = replicate 64 0\<rparr>"
  have "offer_id_from_hash_and_index (replicate 32 1) 0 = replicate 32 1" by (simp add: offer_id_zero)
  then have f: "find_offer (offer_id_from_hash_and_index (co_tx_id ?co) (co_offer_index ?co)) ?st = Some ?o"
    by (simp add: find_offer_def demo_offer_parts)
  have o: "?o\<lparr>odx_stopped := False\<rparr> = demo_offer" by (simp add: demo_offer_def new_offer_def offer_details.extend_def)
  have c: "attachment (ce_tx (demo_entry BC_OFFERS_SERVICE_INSTRUCTION_DEL)) = [TxServiceAttachment ?a]" by (simp add: demo_entry_def)
  have a: "service_id ?a = BC_OFFERS_SERVICE_ID" "instruction ?a = BC_OFFERS_SERVICE_INSTRUCTION_DEL" "\<not> m_disabled ?st"
    "mv_unpack demo_view (body ?a) = Some []" "mv_load_cancel demo_view [] = Some ?co" "odx_stopped ?o" "odeh_h ?o = replicate 32 1"
    by (simp_all add: demo_attachment_def empty_offers_service_def demo_view_def demo_offer_parts)
  have h: "(10 :: u64) mod CURRENCY_BLOCKS_PER_DAY \<noteq> 0" by code_simp
  from conjunct2 [OF stopped_cancel_reopens [OF c a(1-5) f a(6) h, of 0 "[]" 0]] show ?thesis unfolding o a(7) by blast
qed

theorem trim_offers_exact_witness:
  "m_offers (trim_offers 2592005 (empty_offers_service\<lparr>m_offers := [demo_offer]\<rparr>)) = [] \<and>
   m_offers (trim_offers 2592004 (empty_offers_service\<lparr>m_offers := [demo_offer]\<rparr>)) = [demo_offer]"
  using trim_offers_exact [of "empty_offers_service\<lparr>m_offers := [demo_offer]\<rparr>" 2592005]
    trim_offers_exact [of "empty_offers_service\<lparr>m_offers := [demo_offer]\<rparr>" 2592004]
  by (simp add: market_ok_def demo_offer_parts, simp add: demo_offer_def)

end
