(* ===== verification/ChainStore.thy ===== *)
theory ChainStore
  imports Offers Checkpoints Difficulty BlockTemplate
begin

section \<open>The store of the main chain (blockchain_storage)\<close>

text \<open>
  The tables of the main chain and the operations that add a transaction or a block to them and take it off again: the
  transactions with the flags of their spent outputs, the spent key images, the index of the outputs of an amount, the
  multisig outputs, the aliases with their history, and the blocks. Every operation returns whether it succeeded together
  with the state it leaves, also when it fails half-way.
\<close>

subsection \<open>Entries and tables (blockchain_storage_basic.h)\<close>

record transaction_chain_entry =
  tce_tx :: transaction
  tce_keeper_block_height :: u64
  tce_global_output_indexes :: "u64 list"
  tce_spent_flags :: "bool list"

record block_extended_info =
  bei_bl :: block
  bei_height :: u64
  bei_block_cumulative_size :: u64
  bei_cumulative_diff_adjusted :: wide_difficulty_type
  bei_cumulative_diff_precise :: wide_difficulty_type
  bei_difficulty :: wide_difficulty_type
  bei_already_generated_coins :: u64
  bei_stake_hash :: hash
  bei_this_block_tx_fee_median :: u64
  bei_effective_tx_fee_median :: u64

text \<open>A block of an alternative chain: where the indexes of its outputs of an amount begin, and the keys of these outputs.\<close>

record alt_block_extended_info = block_extended_info +
  abei_gindex_lookup_table :: "u64 \<rightharpoonup> u64"
  abei_outputs_pub_keys :: "u64 \<rightharpoonup> public_key list"

record gindex_increment =
  gi_amount :: u64
  gi_increment :: u32

record global_output_entry =
  go_tx_id :: hash
  go_out_no :: u32

record ms_output_entry =
  mo_tx_id :: hash
  mo_out_no :: u32
  mo_spent_height :: u32

datatype alias_event =
    AliasAdded extra_alias_entry
  | AliasUpdated extra_alias_entry account_public_address

text \<open>
  A table of the database is a map, \<open>m_db_outputs\<close> the list of the outputs of every amount. The alias events are those
  raised, the latest first; an event of an update carries the old address.
\<close>

record blockchain_storage =
  bs_blocks :: "block_extended_info list"
  bs_blocks_index :: "hash \<rightharpoonup> u64"
  bs_transactions :: "hash \<rightharpoonup> transaction_chain_entry"
  bs_spent_keys :: "key_image \<rightharpoonup> u64"
  bs_outputs :: "u64 \<Rightarrow> global_output_entry list"
  bs_multisig_outs :: "hash \<rightharpoonup> ms_output_entry"
  bs_aliases :: "bytes \<rightharpoonup> extra_alias_entry_base list"
  bs_addr_to_alias :: "account_public_address \<rightharpoonup> bytes set"
  bs_per_block_gindex_incs :: "u32 \<rightharpoonup> gindex_increment list"
  bs_services :: "(bc_offers_service, unit) services"
  bs_tx_pool :: tx_memory_pool
  bs_current_fee_median :: u64
  bs_current_fee_median_effective_index :: u64
  bs_checkpoints :: checkpoints
  bs_is_in_checkpoint_zone :: bool
  bs_current_pruned_rs_height :: u64
  bs_current_block_cumul_sz_limit :: u64
  bs_diff_cache :: difficulty_cache
  bs_invalid_blocks :: "hash \<rightharpoonup> block_extended_info"
  bs_alternative_chains :: "hash \<rightharpoonup> alt_block_extended_info"
  bs_alternative_chains_txs :: "hash \<rightharpoonup> nat"
  bs_altblocks_keyimages :: "key_image \<rightharpoonup> hash list"
  bs_alias_events :: "alias_event list"

text \<open>
  What the store gets from elsewhere: the hashes and sizes of serialized objects, the hash of the proof of work, the clock,
  the configuration, the order in which an unordered map holds its keys, and what the pool sees of a state of the store.
\<close>

record chain_view =
  cv_transaction_hash :: "transaction \<Rightarrow> hash"
  cv_block_hash :: "block \<Rightarrow> hash"
  cv_longhash :: "block \<Rightarrow> hash"
  cv_blob_size :: "transaction \<Rightarrow> u64"
  cv_multisig_out_id :: "transaction \<Rightarrow> nat \<Rightarrow> hash"
  cv_alias_sign_hash :: "extra_alias_entry \<Rightarrow> hash"
  cv_attachment_details :: "extra_v list \<Rightarrow> extra_attachment_info"
  cv_core_time :: u64
  cv_alias_validation_pubkey :: public_key
  cv_pos_minimum_heigh :: u64
  cv_min_coinstake_age :: u64
  cv_amounts :: "(u64 \<Rightarrow> u32) \<Rightarrow> u64 list"
  cv_node_view :: "blockchain_storage \<Rightarrow> node_view"

type_synonym outcome = "bool \<times> blockchain_storage"

subsection \<open>Queries\<close>

definition get_current_blockchain_size :: "blockchain_storage \<Rightarrow> u64" where
  "get_current_blockchain_size st = of_nat (length (bs_blocks st))"

definition bs_top_block_height :: "blockchain_storage \<Rightarrow> u64" where
  "bs_top_block_height st = of_nat (length (bs_blocks st)) - 1"

definition bs_have_tx :: "hash \<Rightarrow> blockchain_storage \<Rightarrow> bool" where
  "bs_have_tx tx_id st \<longleftrightarrow> bs_transactions st tx_id \<noteq> None"

definition bs_have_tx_keyimg_as_spent :: "key_image \<Rightarrow> u64 \<Rightarrow> blockchain_storage \<Rightarrow> bool" where
  "bs_have_tx_keyimg_as_spent key_im before_height st =
     (case bs_spent_keys st key_im of None \<Rightarrow> False | Some h \<Rightarrow> h < before_height)"

definition get_tx :: "hash \<Rightarrow> blockchain_storage \<Rightarrow> transaction option" where
  "get_tx tx_id st = map_option tce_tx (bs_transactions st tx_id)"

definition has_multisig_output :: "hash \<Rightarrow> blockchain_storage \<Rightarrow> bool" where
  "has_multisig_output multisig_id st \<longleftrightarrow> bs_multisig_outs st multisig_id \<noteq> None"

definition get_tx_outputs_gindexs :: "hash \<Rightarrow> blockchain_storage \<Rightarrow> u64 list option" where
  "get_tx_outputs_gindexs tx_id st =
     (case bs_transactions st tx_id of
        None \<Rightarrow> None
      | Some tce \<Rightarrow> if tce_global_output_indexes tce = [] then None else Some (tce_global_output_indexes tce))"

definition get_alias_info :: "bytes \<Rightarrow> blockchain_storage \<Rightarrow> extra_alias_entry_base option" where
  "get_alias_info al st =
     (case bs_aliases st al of None \<Rightarrow> None | Some history \<Rightarrow> if history = [] then None else Some (last history))"

definition output_key :: "global_output_entry \<Rightarrow> blockchain_storage \<Rightarrow> public_key option" where
  "output_key out st =
     (case bs_transactions st (go_tx_id out) of
        None \<Rightarrow> None
      | Some e \<Rightarrow>
          if length (vout (tce_tx e)) \<le> unat (go_out_no out) then None
          else case out_target (vout (tce_tx e) ! unat (go_out_no out)) of
                 TxoutToKey k \<Rightarrow> Some (out_key k)
               | TxoutMultisig _ \<Rightarrow> None)"

text \<open>The keys of all outputs of an amount; a broken index gives \<open>None\<close>.\<close>

definition get_outs :: "u64 \<Rightarrow> blockchain_storage \<Rightarrow> public_key list option" where
  "get_outs amount st = map_option_list (\<lambda>out. output_key out st) (bs_outputs st amount)"

text \<open>The loop runs down to the block of height zero, which it returns without a look at its time.\<close>

fun older_from :: "nat \<Rightarrow> u64 \<Rightarrow> block_extended_info list \<Rightarrow> nat" where
  "older_from 0 ts bs = 0"
| "older_from (Suc index) ts bs = (if timestamp (bei_bl (bs ! Suc index)) < ts then Suc index else older_from index ts bs)"

definition get_block_h_older_then :: "u64 \<Rightarrow> blockchain_storage \<Rightarrow> u64" where
  "get_block_h_older_then ts st =
     (let last_block_timestamp = timestamp (bei_bl (last (bs_blocks st)))
      in if last_block_timestamp \<le> ts then bs_top_block_height st
         else let difference = last_block_timestamp - ts;
                  n_blocks = difference div DIFFICULTY_TOTAL_TARGET
              in if bs_top_block_height st \<le> n_blocks then 0
                 else of_nat (older_from (unat (bs_top_block_height st - n_blocks)) ts (bs_blocks st)))"

text \<open>The last difficulties of the two kinds of blocks, looked for from the top down to height 1, and zero when there is none.\<close>

fun last_difficulties :: "nat \<Rightarrow> block_extended_info list \<Rightarrow> wide_difficulty_type \<times> wide_difficulty_type \<Rightarrow>
    wide_difficulty_type \<times> wide_difficulty_type" where
  "last_difficulties 0 bs (pow, pos) = (pow, pos)"
| "last_difficulties (Suc h) bs (pow, pos) =
     (if pow \<noteq> 0 \<and> pos \<noteq> 0 then (pow, pos)
      else last_difficulties h bs
        (let bei = bs ! Suc h
         in if is_pos_block (bei_bl bei) then (pow, if pos = 0 then bei_difficulty bei else pos)
            else (if pow = 0 then bei_difficulty bei else pow, pos)))"

definition adjusted_difficulty :: "wide_difficulty_type \<Rightarrow> block_extended_info list \<Rightarrow> wide_difficulty_type \<times> wide_difficulty_type \<Rightarrow>
    wide_difficulty_type" where
  "adjusted_difficulty next_diff bs d =
     (let (pow, pos) = d
      in if pos = 0 then next_diff
         else let pow = (if pow = 0 then bei_difficulty (bs ! 0) else pow)
              in next_diff * pow div pos)"

definition get_adjusted_cumulative_difficulty_for_next_pos :: "wide_difficulty_type \<Rightarrow> blockchain_storage \<Rightarrow>
    wide_difficulty_type" where
  "get_adjusted_cumulative_difficulty_for_next_pos next_diff st =
     (if bs_blocks st = [] then next_diff
      else adjusted_difficulty next_diff (bs_blocks st) (last_difficulties (length (bs_blocks st) - 1) (bs_blocks st) (0, 0)))"

fun last_x_from :: "bool \<Rightarrow> nat \<Rightarrow> block_extended_info list \<Rightarrow> nat" where
  "last_x_from pos 0 bs = 0"
| "last_x_from pos (Suc i) bs = (if is_pos_block (bei_bl (bs ! Suc i)) = pos then Suc i else last_x_from pos i bs)"

definition get_last_x_block_height :: "bool \<Rightarrow> blockchain_storage \<Rightarrow> nat" where
  "get_last_x_block_height pos st =
     (if bs_blocks st = [] then 0 else last_x_from pos (length (bs_blocks st) - 1) (bs_blocks st))"

subsection \<open>Times of the last blocks\<close>

text \<open>\<open>misc_utils::median\<close> of misc_language.h; the sum of the two in the middle wraps.\<close>

definition median :: "u64 list \<Rightarrow> u64" where
  "median v =
     (if v = [] then 0
      else if length v = 1 then v ! 0
      else let n = length v div 2; v = sort v
           in if length v mod 2 \<noteq> 0 then v ! n else (v ! (n - 1) + v ! n) div 2)"

definition complete_timestamps_vector :: "nat \<Rightarrow> u64 list \<Rightarrow> nat \<Rightarrow> blockchain_storage \<Rightarrow> u64 list option" where
  "complete_timestamps_vector start_top_height timestamps elements_count st =
     (if elements_count \<le> length timestamps then Some timestamps
      else let need_elements = elements_count - length timestamps
           in if length (bs_blocks st) \<le> start_top_height then None
              else let stop_offset = (if need_elements < start_top_height then start_top_height - need_elements + 1 else 1)
                   in Some (timestamps @ map (\<lambda>i. timestamp (bei_bl (bs_blocks st ! i))) [stop_offset..<start_top_height + 1]))"

definition get_last_n_blocks_timestamps :: "nat \<Rightarrow> blockchain_storage \<Rightarrow> u64 list" where
  "get_last_n_blocks_timestamps n st =
     (if bs_blocks st = [] then []
      else case complete_timestamps_vector (length (bs_blocks st) - 1) [] n st of None \<Rightarrow> [] | Some ts \<Rightarrow> ts)"

text \<open>The cache of the medians is emptied whenever the blocks change, and not modelled.\<close>

definition get_last_n_blocks_timestamps_median :: "nat \<Rightarrow> blockchain_storage \<Rightarrow> u64" where
  "get_last_n_blocks_timestamps_median n st = median (get_last_n_blocks_timestamps n st)"

definition BLOCKCHAIN_TIMESTAMP_CHECK_WINDOW :: nat where "BLOCKCHAIN_TIMESTAMP_CHECK_WINDOW = 60"
definition TX_EXPIRATION_TIMESTAMP_CHECK_WINDOW :: nat where "TX_EXPIRATION_TIMESTAMP_CHECK_WINDOW = 20"

definition get_last_timestamps_check_window_median :: "blockchain_storage \<Rightarrow> u64" where
  "get_last_timestamps_check_window_median st = get_last_n_blocks_timestamps_median BLOCKCHAIN_TIMESTAMP_CHECK_WINDOW st"

definition get_tx_expiration_median :: "blockchain_storage \<Rightarrow> u64" where
  "get_tx_expiration_median st = get_last_n_blocks_timestamps_median TX_EXPIRATION_TIMESTAMP_CHECK_WINDOW st"

definition bs_is_tx_expired :: "transaction \<Rightarrow> blockchain_storage \<Rightarrow> bool" where
  "bs_is_tx_expired tx st = is_tx_expired tx (get_tx_expiration_median st)"

subsection \<open>The flags of spent outputs\<close>

definition update_spent_tx_flags :: "hash \<Rightarrow> nat \<Rightarrow> bool \<Rightarrow> blockchain_storage \<Rightarrow> outcome" where
  "update_spent_tx_flags tx_id n spent st =
     (case bs_transactions st tx_id of
        None \<Rightarrow> (False, st)
      | Some tce \<Rightarrow>
          if length (tce_spent_flags tce) \<le> n then (False, st)
          else (True, st\<lparr>bs_transactions :=
            (bs_transactions st)(tx_id \<mapsto> tce\<lparr>tce_spent_flags := (tce_spent_flags tce)[n := spent]\<rparr>)\<rparr>))"

definition update_spent_global_index :: "u64 \<Rightarrow> u64 \<Rightarrow> bool \<Rightarrow> blockchain_storage \<Rightarrow> outcome" where
  "update_spent_global_index amount global_index spent st =
     (let outs = bs_outputs st amount
      in if outs = [] then (False, st)
         else if length outs \<le> unat global_index then (False, st)
         else let out = outs ! unat global_index
              in update_spent_tx_flags (go_tx_id out) (unat (go_out_no out)) spent st)"

definition update_spent_for_input :: "u64 \<Rightarrow> txout_v \<Rightarrow> bool \<Rightarrow> blockchain_storage \<Rightarrow> outcome" where
  "update_spent_for_input amount off spent st =
     (case off of
        RefById r \<Rightarrow> update_spent_tx_flags (ref_tx_id r) (unat (ref_n r)) spent st
      | GlobalIndex i \<Rightarrow> update_spent_global_index amount i spent st)"

definition update_spent_multisig :: "hash \<Rightarrow> u64 \<Rightarrow> blockchain_storage \<Rightarrow> outcome" where
  "update_spent_multisig multisig_id spent_height st =
     (case bs_multisig_outs st multisig_id of
        None \<Rightarrow> (False, st)
      | Some ms \<Rightarrow>
          let st = st\<lparr>bs_multisig_outs := (bs_multisig_outs st)(multisig_id \<mapsto> ms\<lparr>mo_spent_height := ucast spent_height\<rparr>)\<rparr>
          in update_spent_tx_flags (mo_tx_id ms) (unat (mo_out_no ms)) (spent_height \<noteq> 0) st)"

text \<open>The visitors of the inputs.\<close>

definition add_input :: "u64 \<Rightarrow> txin_v \<Rightarrow> blockchain_storage \<Rightarrow> outcome" where
  "add_input bl_height i st =
     (case i of
        TxinGen _ \<Rightarrow> (True, st)
      | TxinToKey k \<Rightarrow>
          if bs_spent_keys st (tk_k_image k) \<noteq> None then (False, st)
          else let st = st\<lparr>bs_spent_keys := (bs_spent_keys st)(tk_k_image k \<mapsto> bl_height)\<rparr>
               in if length (tk_key_offsets k) = 1
                  then update_spent_for_input (tk_amount k) (tk_key_offsets k ! 0) True st
                  else (True, st)
      | TxinMultisig ms \<Rightarrow> update_spent_multisig (ms_multisig_out_id ms) bl_height st)"

fun add_inputs :: "u64 \<Rightarrow> txin_v list \<Rightarrow> blockchain_storage \<Rightarrow> outcome" where
  "add_inputs bl_height [] st = (True, st)"
| "add_inputs bl_height (i # is) st =
     (case add_input bl_height i st of
        (False, st) \<Rightarrow> (False, st)
      | (True, st) \<Rightarrow> add_inputs bl_height is st)"

definition purge_input :: "bool \<Rightarrow> txin_v \<Rightarrow> blockchain_storage \<Rightarrow> outcome" where
  "purge_input strict_check i st =
     (case i of
        TxinGen _ \<Rightarrow> (True, st)
      | TxinToKey k \<Rightarrow>
          let r = (bs_spent_keys st (tk_k_image k) \<noteq> None);
              st = st\<lparr>bs_spent_keys := (bs_spent_keys st)(tk_k_image k := None)\<rparr>
          in if \<not> r \<and> strict_check then (False, st)
             else if length (tk_key_offsets k) = 1
             then update_spent_for_input (tk_amount k) (tk_key_offsets k ! 0) False st
             else (True, st)
      | TxinMultisig ms \<Rightarrow> update_spent_multisig (ms_multisig_out_id ms) 0 st)"

fun purge_inputs :: "bool \<Rightarrow> txin_v list \<Rightarrow> blockchain_storage \<Rightarrow> outcome" where
  "purge_inputs strict_check [] st = (True, st)"
| "purge_inputs strict_check (i # is) st =
     (let (r, st) = purge_input strict_check i st
      in if strict_check \<and> \<not> r then (False, st) else purge_inputs strict_check is st)"

definition purge_transaction_keyimages_from_blockchain :: "transaction \<Rightarrow> bool \<Rightarrow> blockchain_storage \<Rightarrow> outcome" where
  "purge_transaction_keyimages_from_blockchain tx strict_check st = purge_inputs strict_check (vin tx) st"

subsection \<open>The index of the outputs\<close>

text \<open>The outputs of a transaction go to the index in their order; the indexes they get are returned as well.\<close>

fun push_outs :: "chain_view \<Rightarrow> transaction \<Rightarrow> hash \<Rightarrow> nat \<Rightarrow> tx_out list \<Rightarrow> u64 list \<Rightarrow> blockchain_storage \<Rightarrow>
    bool \<times> u64 list \<times> blockchain_storage" where
  "push_outs cv tx tx_id i [] global_indexes st = (True, global_indexes, st)"
| "push_outs cv tx tx_id i (ot # ots) global_indexes st =
     (case out_target ot of
        TxoutToKey _ \<Rightarrow>
          let outs = bs_outputs st (out_amount ot) @ [\<lparr>go_tx_id = tx_id, go_out_no = of_nat i\<rparr>];
              st = st\<lparr>bs_outputs := (bs_outputs st)(out_amount ot := outs)\<rparr>
          in push_outs cv tx tx_id (i + 1) ots (global_indexes @ [of_nat (length outs) - 1]) st
      | TxoutMultisig _ \<Rightarrow>
          let multisig_out_id = cv_multisig_out_id cv tx i
          in if multisig_out_id = null_hash then (False, global_indexes, st)
             else if bs_multisig_outs st multisig_out_id \<noteq> None then (False, global_indexes, st)
             else let st = st\<lparr>bs_multisig_outs :=
                        (bs_multisig_outs st)(multisig_out_id \<mapsto> \<lparr>mo_tx_id = tx_id, mo_out_no = of_nat i, mo_spent_height = 0\<rparr>)\<rparr>
                  in push_outs cv tx tx_id (i + 1) ots (global_indexes @ [0]) st)"

definition push_transaction_to_global_outs_index :: "chain_view \<Rightarrow> transaction \<Rightarrow> hash \<Rightarrow> u64 list \<Rightarrow> blockchain_storage \<Rightarrow>
    bool \<times> u64 list \<times> blockchain_storage" where
  "push_transaction_to_global_outs_index cv tx tx_id global_indexes st = push_outs cv tx tx_id 0 (vout tx) global_indexes st"

text \<open>The outputs from the last one on; \<open>i\<close> is the number of the outputs that are left.\<close>

fun pop_outs :: "chain_view \<Rightarrow> transaction \<Rightarrow> hash \<Rightarrow> tx_out list \<Rightarrow> blockchain_storage \<Rightarrow> outcome" where
  "pop_outs cv tx tx_id [] st = (True, st)"
| "pop_outs cv tx tx_id (ot # ots) st =
     (let i = length ots
      in case out_target ot of
           TxoutToKey _ \<Rightarrow>
             let outs = bs_outputs st (out_amount ot)
             in if outs = [] then (False, st)
                else if go_tx_id (last outs) \<noteq> tx_id then (False, st)
                else if unat (go_out_no (last outs)) \<noteq> i then (False, st)
                else pop_outs cv tx tx_id ots (st\<lparr>bs_outputs := (bs_outputs st)(out_amount ot := butlast outs)\<rparr>)
         | TxoutMultisig _ \<Rightarrow>
             let multisig_out_id = cv_multisig_out_id cv tx i
             in if multisig_out_id = null_hash then (False, st)
                else if bs_multisig_outs st multisig_out_id = None then (False, st)
                else pop_outs cv tx tx_id ots (st\<lparr>bs_multisig_outs := (bs_multisig_outs st)(multisig_out_id := None)\<rparr>))"

definition pop_transaction_from_global_index :: "chain_view \<Rightarrow> transaction \<Rightarrow> hash \<Rightarrow> blockchain_storage \<Rightarrow> outcome" where
  "pop_transaction_from_global_index cv tx tx_id st = pop_outs cv tx tx_id (rev (vout tx)) st"

subsection \<open>Aliases\<close>

definition ALIAS_VERY_INITAL_COST :: u64 where "ALIAS_VERY_INITAL_COST = 10000"
definition ALIAS_MINIMUM_PUBLIC_SHORT_NAME_ALLOWED :: nat where "ALIAS_MINIMUM_PUBLIC_SHORT_NAME_ALLOWED = 6"

definition ALIAS_MEDIAN_RECALC_INTERWAL :: u64 where "ALIAS_MEDIAN_RECALC_INTERWAL = CURRENCY_BLOCKS_PER_DAY"

definition get_tx_fee_median_effective_index :: "u64 \<Rightarrow> u64" where
  "get_tx_fee_median_effective_index h =
     (if h \<le> ALIAS_MEDIAN_RECALC_INTERWAL + 1 then 0
      else let h = h - 1 in h - h mod ALIAS_MEDIAN_RECALC_INTERWAL)"

text \<open>The exception is \<open>None\<close>.\<close>

definition tx_fee_median_for_height :: "u64 \<Rightarrow> blockchain_storage \<Rightarrow> u64 option" where
  "tx_fee_median_for_height h st =
     (let effective_index = get_tx_fee_median_effective_index h
      in if length (bs_blocks st) \<le> unat effective_index then None
         else Some (bei_effective_tx_fee_median (bs_blocks st ! unat effective_index)))"

text \<open>The median is kept in the store together with the index of the block that it comes from.\<close>

definition get_tx_fee_median :: "blockchain_storage \<Rightarrow> (u64 \<times> blockchain_storage) option" where
  "get_tx_fee_median st =
     (let h = of_nat (length (bs_blocks st));
          use_initial_cost = (\<lambda>st. let m = (if bs_current_fee_median st = 0 then ALIAS_VERY_INITAL_COST else bs_current_fee_median st)
                               in Some (m, st\<lparr>bs_current_fee_median := m\<rparr>))
      in if bs_current_fee_median_effective_index st \<noteq> get_tx_fee_median_effective_index h
         then (case tx_fee_median_for_height h st of
                 None \<Rightarrow> None
               | Some m \<Rightarrow> use_initial_cost (st\<lparr>bs_current_fee_median := m,
                   bs_current_fee_median_effective_index := get_tx_fee_median_effective_index h\<rparr>))
         else use_initial_cost st)"

definition get_alias_cost :: "bytes \<Rightarrow> blockchain_storage \<Rightarrow> (u64 \<times> blockchain_storage) option" where
  "get_alias_cost al st =
     (case get_tx_fee_median st of
        None \<Rightarrow> None
      | Some (median_fee, st) \<Rightarrow>
          let median_fee = (if median_fee = 0 then ALIAS_VERY_INITAL_COST else median_fee)
          in Some (get_alias_cost_from_fee al median_fee, st))"

text \<open>The exception counts as a failure here; it can only come up while the chain has no block at all.\<close>

definition validate_alias_reward :: "transaction \<Rightarrow> bytes \<Rightarrow> blockchain_storage \<Rightarrow> outcome" where
  "validate_alias_reward tx al st =
     (case get_alias_cost al st of
        None \<Rightarrow> (False, st)
      | Some (fee_for_alias, st) \<Rightarrow> (fee_for_alias \<le> get_amount_for_zero_pubkeys tx, st))"

definition history_of :: "bytes \<Rightarrow> blockchain_storage \<Rightarrow> extra_alias_entry_base list" where
  "history_of al st = (case bs_aliases st al of None \<Rightarrow> [] | Some history \<Rightarrow> history)"

definition names_of :: "account_public_address \<Rightarrow> blockchain_storage \<Rightarrow> bytes set" where
  "names_of addr st = (case bs_addr_to_alias st addr of None \<Rightarrow> {} | Some names \<Rightarrow> names)"

definition base_of :: "extra_alias_entry \<Rightarrow> extra_alias_entry_base" where
  "base_of ai = extra_alias_entry_base.truncate ai"

definition prevalidate_alias_info :: "chain_view \<Rightarrow> transaction \<Rightarrow> extra_alias_entry \<Rightarrow> blockchain_storage \<Rightarrow> outcome" where
  "prevalidate_alias_info cv tx eae st =
     (if \<not> validate_alias_name (m_alias eae) then (False, st)
      else if history_of (m_alias eae) st \<noteq> [] then (True, st)
      else case validate_alias_reward tx (m_alias eae) st of
          (False, st) \<Rightarrow> (False, st)
        | (True, st) \<Rightarrow>
            if length (m_alias eae) < ALIAS_MINIMUM_PUBLIC_SHORT_NAME_ALLOWED
            then (length (m_sign eae) = 1 \<and>
                    check_signature (cv_alias_sign_hash cv eae) (cv_alias_validation_pubkey cv) (last (m_sign eae)), st)
            else (True, st))"

definition put_names :: "account_public_address \<Rightarrow> bytes set \<Rightarrow> blockchain_storage \<Rightarrow> blockchain_storage" where
  "put_names addr names st = st\<lparr>bs_addr_to_alias := (bs_addr_to_alias st)(addr := (if names = {} then None else Some names))\<rparr>"

definition put_history :: "bytes \<Rightarrow> extra_alias_entry_base list \<Rightarrow> blockchain_storage \<Rightarrow> blockchain_storage" where
  "put_history al history st = st\<lparr>bs_aliases := (bs_aliases st)(al := (if history = [] then None else Some history))\<rparr>"

text \<open>The names of an address are read and stored under the address of the last entry of the history.\<close>

definition put_alias_info :: "chain_view \<Rightarrow> extra_alias_entry \<Rightarrow> blockchain_storage \<Rightarrow> outcome" where
  "put_alias_info cv ai st =
     (if m_alias ai = [] then (False, st)
      else let history = history_of (m_alias ai) st
           in if history = []
              then let st = put_history (m_alias ai) [base_of ai] st;
                       st = put_names (m_address ai) (insert (m_alias ai) (names_of (m_address ai) st)) st
                   in (True, st\<lparr>bs_alias_events := AliasAdded ai # bs_alias_events st\<rparr>)
              else if length (m_sign ai) \<noteq> 1 then (False, st)
              else let old = m_address (last history)
                   in if \<not> check_signature (cv_alias_sign_hash cv ai) (m_spend_public_key old) (last (m_sign ai)) then (False, st)
                      else let st = (if bs_addr_to_alias st old = None then st
                                     else put_names old (names_of old st - {m_alias ai}) st);
                               st = put_history (m_alias ai) (history @ [base_of ai]) st;
                               st = put_names (m_address ai) (insert (m_alias ai) (names_of (m_address ai) st)) st
                           in (True, st\<lparr>bs_alias_events := AliasUpdated ai old # bs_alias_events st\<rparr>))"

definition pop_alias_info :: "extra_alias_entry \<Rightarrow> blockchain_storage \<Rightarrow> outcome" where
  "pop_alias_info ai st =
     (if m_alias ai = [] then (False, st)
      else let history = history_of (m_alias ai) st
           in if history = [] then (False, st)
              else let addr = m_address (last history)
                   in if bs_addr_to_alias st addr \<noteq> None \<and> m_alias ai \<notin> names_of addr st then (False, st)
                      else let st = (if bs_addr_to_alias st addr = None then st
                                     else put_names addr (names_of addr st - {m_alias ai}) st);
                               rest = butlast history;
                               st = put_history (m_alias ai) rest st
                           in (True, if rest = [] then st
                                     else put_names (m_address (last rest))
                                       (insert (m_alias ai) (names_of (m_address (last rest)) st)) st))"

definition process_blockchain_tx_extra :: "chain_view \<Rightarrow> transaction \<Rightarrow> blockchain_storage \<Rightarrow> outcome" where
  "process_blockchain_tx_extra cv tx st =
     (case parse_and_validate_tx_extra tx of
        None \<Rightarrow> (False, st)
      | Some ei \<Rightarrow>
          (case ei_alias ei of
             None \<Rightarrow> (True, st)
           | Some ai \<Rightarrow>
               if m_alias ai = [] then (True, st)
               else case prevalidate_alias_info cv tx ai st of
                   (False, st) \<Rightarrow> (False, st)
                 | (True, st) \<Rightarrow> put_alias_info cv ai st))"

definition unprocess_blockchain_tx_extra :: "transaction \<Rightarrow> blockchain_storage \<Rightarrow> outcome" where
  "unprocess_blockchain_tx_extra tx st =
     (case parse_and_validate_tx_extra tx of
        None \<Rightarrow> (False, st)
      | Some ei \<Rightarrow>
          (case ei_alias ei of
             None \<Rightarrow> (True, st)
           | Some ai \<Rightarrow> if m_alias ai = [] then (True, st) else pop_alias_info ai st))"

subsection \<open>A transaction of a block\<close>

definition add_transaction_from_block :: "chain_view \<Rightarrow> transaction \<Rightarrow> hash \<Rightarrow> hash \<Rightarrow> u64 \<Rightarrow> u64 \<Rightarrow> blockchain_storage \<Rightarrow>
    outcome" where
  "add_transaction_from_block cv tx tx_id bl_id bl_height ts st =
     (if bs_is_tx_expired tx st then (False, st)
      else case process_blockchain_tx_extra cv tx st of
        (False, st) \<Rightarrow> (False, st)
      | (True, st) \<Rightarrow>
          let st = st\<lparr>bs_services := process_blockchain_tx_attachments tx bl_height bl_id ts (bs_services st)\<rparr>
          in case add_inputs bl_height (vin tx) st of
               (False, st) \<Rightarrow>
                 let (r, st) = purge_transaction_keyimages_from_blockchain tx False st
                 in if \<not> r then (False, st)
                    else let (r, st) = unprocess_blockchain_tx_extra tx st
                         in if \<not> r then (False, st)
                            else (False, st\<lparr>bs_services := unprocess_blockchain_tx_attachments tx bl_height ts (bs_services st)\<rparr>)
             | (True, st) \<Rightarrow>
                 if bs_transactions st tx_id \<noteq> None
                 then let (_, st) = purge_transaction_keyimages_from_blockchain tx True st;
                          (r, st) = unprocess_blockchain_tx_extra tx st
                      in if \<not> r then (False, st)
                         else (False, st\<lparr>bs_services := unprocess_blockchain_tx_attachments tx bl_height ts (bs_services st)\<rparr>)
                 else (case push_transaction_to_global_outs_index cv tx tx_id [] st of
                         (False, _, st) \<Rightarrow> (False, st)
                       | (True, global_indexes, st) \<Rightarrow>
                           (True, st\<lparr>bs_transactions := (bs_transactions st)(tx_id \<mapsto>
                              \<lparr>tce_tx = tx, tce_keeper_block_height = bl_height, tce_global_output_indexes = global_indexes,
                               tce_spent_flags = replicate (length (vout tx)) False\<rparr>)\<rparr>)))"

text \<open>\<open>m_tx_pool.add_tx\<close> for a transaction that comes from the chain; undefined behaviour of the pool counts as a failure.\<close>

definition initial_tvc :: tx_verification_context where
  "initial_tvc = \<lparr>m_should_be_relayed = False, m_verification_failed = False, m_verification_impossible = False,
     m_added_to_pool = False\<rparr>"

definition pool_add_from_chain :: "chain_view \<Rightarrow> transaction \<Rightarrow> u64 \<Rightarrow> blockchain_storage \<Rightarrow> bool \<times> tx_memory_pool" where
  "pool_add_from_chain cv tx min_fee st =
     (case add_tx (cv_node_view cv st) tx min_fee (cv_transaction_hash cv tx) (cv_blob_size cv tx) True True initial_tvc (bs_tx_pool st) of
        None \<Rightarrow> (False, bs_tx_pool st)
      | Some (r, _, pool) \<Rightarrow> (r, pool))"

text \<open>The result, the fee, and the state.\<close>

definition purge_transaction_from_blockchain :: "chain_view \<Rightarrow> hash \<Rightarrow> bool \<Rightarrow> blockchain_storage \<Rightarrow> bool \<times> u64 \<times> blockchain_storage" where
  "purge_transaction_from_blockchain cv tx_id add_to_pool st =
     (case bs_transactions st tx_id of
        None \<Rightarrow> (False, 0, st)
      | Some tce \<Rightarrow>
          let tx = tce_tx tce;
              fee = get_tx_fee_or_zero tx
          in case purge_transaction_keyimages_from_blockchain tx True st of
               (False, st) \<Rightarrow> (False, fee, st)
             | (True, st) \<Rightarrow>
                 (case unprocess_blockchain_tx_extra tx st of
                    (False, st) \<Rightarrow> (False, fee, st)
                  | (True, st) \<Rightarrow>
                      let st = st\<lparr>bs_services :=
                            unprocess_blockchain_tx_attachments tx (get_current_blockchain_size st) 0 (bs_services st)\<rparr>;
                          (added_to_the_pool, pool) =
                            (if add_to_pool \<and> \<not> is_coinbase tx then pool_add_from_chain cv tx 0 st else (True, bs_tx_pool st));
                          st = st\<lparr>bs_tx_pool := pool\<rparr>
                      in if \<not> added_to_the_pool then (False, fee, st)
                         else let (res, st) = pop_transaction_from_global_index cv tx tx_id st
                              in (res, fee, st\<lparr>bs_transactions := (bs_transactions st)(tx_id := None)\<rparr>)))"

text \<open>
  The transactions of a block go off in the opposite order, the one of the miner last, and every failure only spoils the
  result. The list holds the first \<open>processed_tx_count\<close> identifiers, the last one first.
\<close>

fun purge_transactions_loop :: "chain_view \<Rightarrow> bool \<Rightarrow> hash list \<Rightarrow> bool \<Rightarrow> u64 \<Rightarrow> blockchain_storage \<Rightarrow>
    bool \<times> u64 \<times> blockchain_storage" where
  "purge_transactions_loop cv add_txs_to_pool [] res fee_total st = (res, fee_total, st)"
| "purge_transactions_loop cv add_txs_to_pool (h # hs) res fee_total st =
     (let (r, fee, st) = purge_transaction_from_blockchain cv h add_txs_to_pool st
      in purge_transactions_loop cv add_txs_to_pool hs (r \<and> res) (fee_total + fee) st)"

definition purge_block_data_from_blockchain :: "chain_view \<Rightarrow> block \<Rightarrow> nat \<Rightarrow> bool \<Rightarrow> blockchain_storage \<Rightarrow>
    bool \<times> u64 \<times> blockchain_storage" where
  "purge_block_data_from_blockchain cv bl processed_tx_count add_txs_to_pool st =
     (if length (tx_hashes bl) < processed_tx_count then (False, 0, st)
      else let (res, fee_total, st) =
                 purge_transactions_loop cv add_txs_to_pool (rev (take processed_tx_count (tx_hashes bl))) True 0 st;
               (r, _, st) = purge_transaction_from_blockchain cv (cv_transaction_hash cv (miner_tx bl)) True st
           in (r \<and> res, fee_total, st))"

end
