(* ===== verification/ChainInputs.thy ===== *)
theory ChainInputs
  imports ChainStore Market PoolRuns "HOL-Library.Sublist"
begin

section \<open>Checking the inputs of a transaction against the chain (blockchain_storage)\<close>

text \<open>
  Which outputs an input refers to, whether they can be spent, and whether the signatures of the input are right: the
  function \<open>check_tx_inputs\<close> with everything it calls. A failed check is \<open>None\<close>, and so is an exception, which no caller
  below \<open>add_new_block\<close> catches; otherwise the result is the greatest height of a block that the inputs refer to.
\<close>

subsection \<open>What a signature covers (currency_format_utils)\<close>

definition TX_FLAG_SIGNATURE_MODE_SEPARATE :: u64 where "TX_FLAG_SIGNATURE_MODE_SEPARATE = 1"

definition signed_separately :: "transaction \<Rightarrow> bool" where
  "signed_separately tx \<longleftrightarrow> get_tx_flags tx AND TX_FLAG_SIGNATURE_MODE_SEPARATE \<noteq> 0"

definition get_txin_etc_options :: "txin_v \<Rightarrow> txin_etc_details_v list" where
  "get_txin_etc_options i =
     (case i of TxinGen _ \<Rightarrow> [] | TxinToKey k \<Rightarrow> tk_etc_details k | TxinMultisig m \<Rightarrow> ms_etc_details m)"

definition signed_parts_of :: "txin_etc_details_v list \<Rightarrow> signed_parts option" where
  "signed_parts_of = first_of (\<lambda>e. case e of SignedParts p \<Rightarrow> Some p | EtcAttachmentInfo _ \<Rightarrow> None)"

definition attachment_info_of_input :: "txin_etc_details_v list \<Rightarrow> extra_attachment_info option" where
  "attachment_info_of_input = first_of (\<lambda>e. case e of SignedParts _ \<Rightarrow> None | EtcAttachmentInfo a \<Rightarrow> Some a)"

definition attachment_info_of_extra :: "extra_v list \<Rightarrow> extra_attachment_info option" where
  "attachment_info_of_extra = first_of (\<lambda>e. case e of ExtraAttachmentInfo a \<Rightarrow> Some a | _ \<Rightarrow> None)"

text \<open>The loop over the inputs up to the signed one: the numbers of the signed outputs, extra entries and attachments.\<close>

fun signed_counts :: "txin_v list \<Rightarrow> nat \<times> nat \<times> nat \<Rightarrow> (nat \<times> nat \<times> nat) option" where
  "signed_counts [] c = Some c"
| "signed_counts (i # is) (outs, extras, atts) =
     (case signed_parts_of (get_txin_etc_options i) of
        None \<Rightarrow> None
      | Some so \<Rightarrow>
          if unat (n_outs so) < outs \<or> unat (n_extras so) < extras then None
          else (case attachment_info_of_input (get_txin_etc_options i) of
                  None \<Rightarrow> signed_counts is (unat (n_outs so), unat (n_extras so), atts)
                | Some eai \<Rightarrow>
                    if unat (eai_cnt eai) < atts then None
                    else signed_counts is (unat (n_outs so), unat (n_extras so), unat (eai_cnt eai))))"

definition prepare_prefix_hash_for_sign :: "chain_view \<Rightarrow> transaction \<Rightarrow> nat \<Rightarrow> hash \<Rightarrow> hash" where
  "prepare_prefix_hash_for_sign cv tx in_index tx_id =
     (if length (vin tx) \<le> in_index then null_hash
      else if \<not> signed_separately tx then tx_id
      else case signed_counts (take (in_index + 1) (vin tx))
             (0, 0, case attachment_info_of_extra (extra tx) of None \<Rightarrow> 0 | Some eai \<Rightarrow> unat (eai_cnt eai)) of
          None \<Rightarrow> null_hash
        | Some (outs, extras, atts) \<Rightarrow>
            if in_index = length (vin tx) - 1
            then (if outs = length (vout tx) \<and> extras = length (extra tx) \<and> atts = length (attachment tx) then tx_id else null_hash)
            else if length (vout tx) < outs \<or> length (extra tx) < extras \<or> length (attachment tx) < atts then null_hash
            else cv_transaction_hash cv (tx\<lparr>vin := take (in_index + 1) (vin tx), vout := take outs (vout tx),
                   extra := take extras (extra tx), attachment := take atts (attachment tx)\<rparr>))"

definition validate_attachment_info :: "chain_view \<Rightarrow> extra_attachment_info option \<Rightarrow> extra_v list \<Rightarrow> bool \<Rightarrow> bool" where
  "validate_attachment_info cv info attachments allow_no_info \<longleftrightarrow>
     (if info = None \<and> allow_no_info then True
      else let eai = (case info of None \<Rightarrow> \<lparr>eai_sz = 0, eai_hsh = null_hash, eai_cnt = 0\<rparr> | Some a \<Rightarrow> a)
           in (info \<noteq> None) = (attachments \<noteq> []) \<and> unat (eai_cnt eai) \<le> length attachments \<and>
              eai = cv_attachment_details cv (take (unat (eai_cnt eai)) attachments))"

subsection \<open>The outputs that an input refers to\<close>

definition bs_is_tx_spendtime_unlocked :: "chain_view \<Rightarrow> u64 \<Rightarrow> blockchain_storage \<Rightarrow> bool" where
  "bs_is_tx_spendtime_unlocked cv unlock_time st =
     is_tx_spendtime_unlocked unlock_time (get_current_blockchain_size st) (cv_core_time cv)"

definition referred_output :: "blockchain_storage \<Rightarrow> u64 \<Rightarrow> txout_v \<Rightarrow> (hash \<times> nat) option" where
  "referred_output st amount off =
     (case off of
        RefById r \<Rightarrow> Some (ref_tx_id r, unat (ref_n r))
      | GlobalIndex i \<Rightarrow>
          if length (bs_outputs st amount) \<le> unat i then None
          else Some (go_tx_id (bs_outputs st amount ! unat i), unat (go_out_no (bs_outputs st amount ! unat i))))"

text \<open>The visitor gets the transaction and the output, and gives the key to collect or refuses it.\<close>

definition handle_output :: "chain_view \<Rightarrow> blockchain_storage \<Rightarrow> transaction \<Rightarrow> tx_out \<Rightarrow> public_key option" where
  "handle_output cv st tx out =
     (if \<not> bs_is_tx_spendtime_unlocked cv (get_tx_unlock_time tx) st then None
      else case out_target out of TxoutMultisig _ \<Rightarrow> None | TxoutToKey k \<Rightarrow> Some (out_key k))"

fun scan_offsets :: "(transaction \<Rightarrow> tx_out \<Rightarrow> public_key option) \<Rightarrow> blockchain_storage \<Rightarrow> u64 \<Rightarrow> u64 \<Rightarrow> txout_v list \<Rightarrow>
    public_key list \<Rightarrow> u64 \<Rightarrow> (public_key list \<times> u64) option" where
  "scan_offsets vis st amount fakes [] keys max_height = Some (keys, max_height)"
| "scan_offsets vis st amount fakes (off # offs) keys max_height =
     (case referred_output st amount off of
        None \<Rightarrow> None
      | Some (tx_id, n) \<Rightarrow>
          (case bs_transactions st tx_id of
             None \<Rightarrow> None
           | Some e \<Rightarrow>
               if length (vout (tce_tx e)) \<le> n then None
               else (case out_target (vout (tce_tx e) ! n) of
                       TxoutMultisig _ \<Rightarrow> None
                     | TxoutToKey outtk \<Rightarrow>
                         if \<not> is_mixattr_applicable_for_fake_outs_counter (mix_attr outtk) fakes then None
                         else (case vis (tce_tx e) (vout (tce_tx e) ! n) of
                                 None \<Rightarrow> None
                               | Some key \<Rightarrow>
                                   scan_offsets vis st amount fakes offs (keys @ [key])
                                     (if max_height < tce_keeper_block_height e then tce_keeper_block_height e else max_height)))))"

definition scan_outputkeys_for_indexes :: "(transaction \<Rightarrow> tx_out \<Rightarrow> public_key option) \<Rightarrow> txin_to_key \<Rightarrow> u64 \<Rightarrow>
    blockchain_storage \<Rightarrow> (public_key list \<times> u64) option" where
  "scan_outputkeys_for_indexes vis k max_height st =
     (if bs_outputs st (tk_amount k) = [] then None
      else case relative_output_offsets_to_absolute (tk_key_offsets k) of
          None \<Rightarrow> None
        | Some absolute_offsets \<Rightarrow>
            scan_offsets vis st (tk_amount k) (of_nat (length (tk_key_offsets k)) - 1) absolute_offsets [] max_height)"

definition get_output_keys_for_input_with_checks :: "chain_view \<Rightarrow> txin_to_key \<Rightarrow> u64 \<Rightarrow> blockchain_storage \<Rightarrow>
    (public_key list \<times> u64) option" where
  "get_output_keys_for_input_with_checks cv k max_height st =
     scan_outputkeys_for_indexes (handle_output cv st) k max_height st"

subsection \<open>One input\<close>

definition etc_attachments_ok :: "chain_view \<Rightarrow> transaction \<Rightarrow> nat \<Rightarrow> txin_etc_details_v list \<Rightarrow> bool" where
  "etc_attachments_ok cv tx in_index etc \<longleftrightarrow>
     (if signed_separately tx
      then validate_attachment_info cv (attachment_info_of_input etc) (attachment tx) (in_index \<noteq> length (vin tx) - 1)
      else attachment_info_of_input etc = None)"

definition extra_sign_needed :: "transaction \<Rightarrow> nat \<Rightarrow> bool" where
  "extra_sign_needed tx in_index \<longleftrightarrow> signed_separately tx \<and> in_index = length (vin tx) - 1"

text \<open>An abort of the cryptographic functions counts as a failure.\<close>

definition check_tokey_input :: "chain_view \<Rightarrow> transaction \<Rightarrow> nat \<Rightarrow> txin_to_key \<Rightarrow> hash \<Rightarrow> signature list \<Rightarrow> public_key list \<Rightarrow>
    blockchain_storage \<Rightarrow> bool" where
  "check_tokey_input cv tx in_index k tx_prefix_hash sig output_keys st \<longleftrightarrow>
     (if length (tk_key_offsets k) \<noteq> length output_keys then False
      else if bs_is_in_checkpoint_zone st then True
      else if \<not> etc_attachments_ok cv tx in_index (tk_etc_details k) then False
      else if length output_keys + (if extra_sign_needed tx in_index then 1 else 0) \<noteq> length sig then False
      else let h = prepare_prefix_hash_for_sign cv tx in_index tx_prefix_hash
           in if h = null_hash then False
              else if validate_key_image (tk_k_image k) \<noteq> Some True then False
              else if check_ring_signature h (tk_k_image k) (zip output_keys sig) \<noteq> Some True then False
              else extra_sign_needed tx in_index \<longrightarrow>
                check_signature tx_prefix_hash (get_tx_pub_key_from_extra tx) (last sig))"

definition check_tx_input_to_key :: "chain_view \<Rightarrow> transaction \<Rightarrow> nat \<Rightarrow> txin_to_key \<Rightarrow> hash \<Rightarrow> signature list \<Rightarrow> u64 \<Rightarrow>
    blockchain_storage \<Rightarrow> u64 option" where
  "check_tx_input_to_key cv tx in_index k tx_prefix_hash sig max_height st =
     (case get_output_keys_for_input_with_checks cv k max_height st of
        None \<Rightarrow> None
      | Some (output_keys, max_height) \<Rightarrow>
          if check_tokey_input cv tx in_index k tx_prefix_hash sig output_keys st then Some max_height else None)"

text \<open>The loop over the signatures of a multisig input: a key that does not fit is skipped for good.\<close>

fun match_signatures :: "hash \<Rightarrow> public_key list \<Rightarrow> signature list \<Rightarrow> bool" where
  "match_signatures h ks [] \<longleftrightarrow> True"
| "match_signatures h [] (s # ss) \<longleftrightarrow> False"
| "match_signatures h (k # ks) (s # ss) \<longleftrightarrow>
     (if check_signature h k s then match_signatures h ks ss else match_signatures h ks (s # ss))"

definition check_ms_input :: "chain_view \<Rightarrow> transaction \<Rightarrow> nat \<Rightarrow> txin_multisig \<Rightarrow> hash \<Rightarrow> transaction \<Rightarrow> nat \<Rightarrow>
    blockchain_storage \<Rightarrow> bool" where
  "check_ms_input cv tx in_index m tx_prefix_hash source_tx out_n st \<longleftrightarrow>
     (if \<not> bs_is_tx_spendtime_unlocked cv (get_tx_unlock_time source_tx) st then False
      else if length (vout source_tx) \<le> out_n then False
      else case out_target (vout source_tx ! out_n) of
          TxoutToKey _ \<Rightarrow> False
        | TxoutMultisig out_ms \<Rightarrow>
            if ms_sigs_count m \<noteq> minimum_sigs out_ms then False
            else if out_amount (vout source_tx ! out_n) \<noteq> ms_amount m then False
            else if bs_is_in_checkpoint_zone st then True
            else if \<not> etc_attachments_ok cv tx in_index (ms_etc_details m) then False
            else if length (signatures tx) \<le> in_index then False
            else let sigs = signatures tx ! in_index
                 in if unat (ms_sigs_count m) + (if extra_sign_needed tx in_index then 1 else 0) \<noteq> length sigs then False
                    else let h = prepare_prefix_hash_for_sign cv tx in_index tx_prefix_hash
                         in if h = null_hash then False
                            else if length (ms_keys out_ms) < unat (ms_sigs_count m) then False
                            else if \<not> match_signatures h (ms_keys out_ms) (take (unat (ms_sigs_count m)) sigs) then False
                            else extra_sign_needed tx in_index \<longrightarrow>
                              check_signature tx_prefix_hash (get_tx_pub_key_from_extra tx) (last sigs))"

text \<open>The height of the source replaces the one found so far.\<close>

definition check_tx_input_multisig :: "chain_view \<Rightarrow> transaction \<Rightarrow> nat \<Rightarrow> txin_multisig \<Rightarrow> hash \<Rightarrow> blockchain_storage \<Rightarrow>
    u64 option" where
  "check_tx_input_multisig cv tx in_index m tx_prefix_hash st =
     (case bs_multisig_outs st (ms_multisig_out_id m) of
        None \<Rightarrow> None
      | Some e \<Rightarrow>
          let n = unat (mo_out_no e)
          in if mo_spent_height e \<noteq> 0 then None
             else case bs_transactions st (mo_tx_id e) of
               None \<Rightarrow> None
             | Some src \<Rightarrow>
                 if length (vout (tce_tx src)) \<le> n then None
                 else (case out_target (vout (tce_tx src) ! n) of
                         TxoutToKey _ \<Rightarrow> None
                       | TxoutMultisig _ \<Rightarrow>
                           if length (tce_spent_flags src) \<le> n then None
                           else if tce_spent_flags src ! n then None
                           else if check_ms_input cv tx in_index m tx_prefix_hash (tce_tx src) n st
                           then Some (tce_keeper_block_height src) else None))"

subsection \<open>All inputs\<close>

definition UINT64_MAX :: u64 where "UINT64_MAX = 0xFFFFFFFFFFFFFFFF"

fun check_inputs_from :: "chain_view \<Rightarrow> transaction \<Rightarrow> hash \<Rightarrow> blockchain_storage \<Rightarrow> nat \<Rightarrow> txin_v list \<Rightarrow> u64 \<Rightarrow> u64 option" where
  "check_inputs_from cv tx tx_prefix_hash st sig_index [] max_height = Some max_height"
| "check_inputs_from cv tx tx_prefix_hash st sig_index (i # is) max_height =
     (if \<not> bs_is_in_checkpoint_zone st \<and> length (signatures tx) \<le> sig_index then None
      else let psig = (if bs_is_in_checkpoint_zone st then [] else signatures tx ! sig_index)
           in case (case i of
                      TxinGen _ \<Rightarrow> Some max_height
                    | TxinToKey k \<Rightarrow>
                        if tk_key_offsets k = [] then None
                        else if bs_have_tx_keyimg_as_spent (tk_k_image k) UINT64_MAX st then None
                        else check_tx_input_to_key cv tx sig_index k tx_prefix_hash psig max_height st
                    | TxinMultisig m \<Rightarrow> check_tx_input_multisig cv tx sig_index m tx_prefix_hash st) of
                None \<Rightarrow> None
              | Some max_height \<Rightarrow> check_inputs_from cv tx tx_prefix_hash st (sig_index + 1) is max_height)"

definition check_tx_inputs :: "chain_view \<Rightarrow> transaction \<Rightarrow> hash \<Rightarrow> blockchain_storage \<Rightarrow> u64 option" where
  "check_tx_inputs cv tx tx_prefix_hash st =
     (case check_inputs_from cv tx tx_prefix_hash st 0 (vin tx) 0 of
        None \<Rightarrow> None
      | Some max_height \<Rightarrow>
          if bs_is_in_checkpoint_zone st then Some max_height
          else if length (signatures tx) \<noteq> length (vin tx) then None
          else if \<not> signed_separately tx \<and>
            \<not> validate_attachment_info cv (attachment_info_of_extra (extra tx)) (attachment tx) False then None
          else Some max_height)"

text \<open>The variant for the pool also finds the block of that height.\<close>

definition check_tx_inputs_with_id :: "chain_view \<Rightarrow> transaction \<Rightarrow> hash \<Rightarrow> blockchain_storage \<Rightarrow> (u64 \<times> hash) option" where
  "check_tx_inputs_with_id cv tx tx_prefix_hash st =
     (case check_tx_inputs cv tx tx_prefix_hash st of
        None \<Rightarrow> None
      | Some max_used_block_height \<Rightarrow>
          if length (bs_blocks st) \<le> unat max_used_block_height then None
          else Some (max_used_block_height, cv_block_hash cv (bei_bl (bs_blocks st ! unat max_used_block_height))))"

definition is_multisig_output_spent :: "hash \<Rightarrow> blockchain_storage \<Rightarrow> bool" where
  "is_multisig_output_spent multisig_id st \<longleftrightarrow>
     (case bs_multisig_outs st multisig_id of
        None \<Rightarrow> False
      | Some e \<Rightarrow>
          (case bs_transactions st (mo_tx_id e) of
             None \<Rightarrow> True
           | Some src \<Rightarrow>
               if length (tce_spent_flags src) \<le> unat (mo_out_no e) then True
               else tce_spent_flags src ! unat (mo_out_no e)))"

definition bs_have_tx_keyimges_as_spent :: "transaction \<Rightarrow> blockchain_storage \<Rightarrow> bool" where
  "bs_have_tx_keyimges_as_spent tx st \<longleftrightarrow>
     list_ex (\<lambda>i. case i of
         TxinGen _ \<Rightarrow> False
       | TxinToKey k \<Rightarrow> bs_have_tx_keyimg_as_spent (tk_k_image k) UINT64_MAX st
       | TxinMultisig m \<Rightarrow> is_multisig_output_spent (ms_multisig_out_id m) st) (vin tx)"

section \<open>What the check of the inputs guarantees, and what it does not\<close>

subsection \<open>The signatures of a multisig input\<close>

lemma match_signatures_iff:
  "match_signatures h keys sigs \<longleftrightarrow> (\<exists>ks. subseq ks keys \<and> list_all2 (check_signature h) ks sigs)"
proof (induction h keys sigs rule: match_signatures.induct)
  case (2 h s ss)
  then show ?case by (auto simp: list_all2_Cons2)
next
  case (3 h k ks s ss)
  show ?case
  proof (cases "check_signature h k s")
    case True
    have "(\<exists>ks'. subseq ks' ks \<and> list_all2 (check_signature h) ks' ss) \<longleftrightarrow>
        (\<exists>ks'. subseq ks' (k # ks) \<and> list_all2 (check_signature h) ks' (s # ss))"
    proof
      assume "\<exists>ks'. subseq ks' ks \<and> list_all2 (check_signature h) ks' ss"
      then obtain ks' where "subseq ks' ks" "list_all2 (check_signature h) ks' ss" by blast
      then show "\<exists>ks'. subseq ks' (k # ks) \<and> list_all2 (check_signature h) ks' (s # ss)"
        using True by (intro exI [of _ "k # ks'"]) simp
    next
      assume "\<exists>ks'. subseq ks' (k # ks) \<and> list_all2 (check_signature h) ks' (s # ss)"
      then obtain k1 ks1 where s: "subseq (k1 # ks1) (k # ks)" and l: "list_all2 (check_signature h) ks1 ss"
        by (auto simp: list_all2_Cons2)
      from s have "subseq ks1 ks" by (cases "k1 = k") (auto dest: subseq_Cons')
      then show "\<exists>ks'. subseq ks' ks \<and> list_all2 (check_signature h) ks' ss" using l by blast
    qed
    then show ?thesis using 3 True by simp
  next
    case False
    have "subseq ks' (k # ks) \<and> list_all2 (check_signature h) ks' (s # ss) \<longleftrightarrow>
        subseq ks' ks \<and> list_all2 (check_signature h) ks' (s # ss)" for ks'
    proof (cases ks')
      case (Cons k1 ks1)
      then show ?thesis using False by (cases "k1 = k") auto
    qed simp
    then show ?thesis using 3 False by simp
  qed
qed auto

text \<open>C10: Although the loop never goes back to a key, it finds the signatures of any positions of the list of keys in their order:
  it accepts exactly when the signatures are good, one by one, for a subsequence of the list. Every position is used at
  most once; a key that the list contains twice counts twice, so that \<open>[K, K]\<close> accepts two copies of one
  signature by \<open>K\<close>.\<close>
theorem multisig_signatures_exact:
  "match_signatures h keys sigs \<longleftrightarrow> (\<exists>ks. subseq ks keys \<and> list_all2 (check_signature h) ks sigs)"
  by (rule match_signatures_iff)

subsection \<open>Every input is good\<close>

text \<open>The output that an offset refers to exists, is not locked, and belongs to the key.\<close>

definition spendable_key :: "chain_view \<Rightarrow> blockchain_storage \<Rightarrow> u64 \<Rightarrow> txout_v \<Rightarrow> public_key \<Rightarrow> bool" where
  "spendable_key cv st amount off key \<longleftrightarrow>
     (case referred_output st amount off of
        None \<Rightarrow> False
      | Some (t, n) \<Rightarrow>
          (case bs_transactions st t of
             None \<Rightarrow> False
           | Some e \<Rightarrow> n < length (vout (tce_tx e)) \<and> handle_output cv st (tce_tx e) (vout (tce_tx e) ! n) = Some key))"

lemma scan_offsets_keys:
  "scan_offsets (handle_output cv st) st amount fakes offs keys mh = Some (keys', mh') \<Longrightarrow>
    \<exists>new. keys' = keys @ new \<and> list_all2 (spendable_key cv st amount) offs new"
proof (induction offs arbitrary: keys mh)
  case (Cons off offs)
  from Cons.prems obtain t n e key mh1 where
    o: "referred_output st amount off = Some (t, n)" "bs_transactions st t = Some e" "n < length (vout (tce_tx e))"
    "handle_output cv st (tce_tx e) (vout (tce_tx e) ! n) = Some key"
    and r: "scan_offsets (handle_output cv st) st amount fakes offs (keys @ [key]) mh1 = Some (keys', mh')"
    by (auto split: option.splits prod.splits txout_target_v.splits if_split_asm simp: not_le)
  from Cons.IH [OF r] obtain new where "keys' = keys @ key # new" "list_all2 (spendable_key cv st amount) offs new" by auto
  moreover have "spendable_key cv st amount off key" using o by (simp add: spendable_key_def)
  ultimately show ?case by (intro exI [of _ "key # new"]) simp
qed simp

text \<open>What an accepted input has.\<close>

definition input_good :: "chain_view \<Rightarrow> blockchain_storage \<Rightarrow> transaction \<Rightarrow> hash \<Rightarrow> nat \<Rightarrow> bool" where
  "input_good cv st tx ph i \<longleftrightarrow>
     (let h = prepare_prefix_hash_for_sign cv tx i ph; sigs = signatures tx ! i
      in case vin tx ! i of
           TxinGen _ \<Rightarrow> True
         | TxinToKey k \<Rightarrow>
             \<not> bs_have_tx_keyimg_as_spent (tk_k_image k) UINT64_MAX st \<and> validate_key_image (tk_k_image k) = Some True \<and>
             (\<exists>offs ring. relative_output_offsets_to_absolute (tk_key_offsets k) = Some offs \<and>
                length ring = length (tk_key_offsets k) \<and> ring \<noteq> [] \<and> list_all2 (spendable_key cv st (tk_amount k)) offs ring \<and>
                h \<noteq> null_hash \<and> check_ring_signature h (tk_k_image k) (zip ring sigs) = Some True)
         | TxinMultisig m \<Rightarrow>
             (\<exists>e src out_ms ks. bs_multisig_outs st (ms_multisig_out_id m) = Some e \<and> mo_spent_height e = 0 \<and>
                bs_transactions st (mo_tx_id e) = Some src \<and> \<not> tce_spent_flags src ! unat (mo_out_no e) \<and>
                out_target (vout (tce_tx src) ! unat (mo_out_no e)) = TxoutMultisig out_ms \<and>
                out_amount (vout (tce_tx src) ! unat (mo_out_no e)) = ms_amount m \<and>
                h \<noteq> null_hash \<and> length ks = unat (minimum_sigs out_ms) \<and> subseq ks (ms_keys out_ms) \<and>
                list_all2 (check_signature h) ks (take (length ks) sigs)))"

lemma multisig_input_good:
  assumes "check_tx_input_multisig cv tx i m ph st = Some mh" and "\<not> bs_is_in_checkpoint_zone st" and "vin tx ! i = TxinMultisig m"
  shows "input_good cv st tx ph i"
proof -
  from assms(1) obtain e src out_ms where e: "bs_multisig_outs st (ms_multisig_out_id m) = Some e" "mo_spent_height e = 0"
    "bs_transactions st (mo_tx_id e) = Some src" "\<not> tce_spent_flags src ! unat (mo_out_no e)"
    "out_target (vout (tce_tx src) ! unat (mo_out_no e)) = TxoutMultisig out_ms"
    "check_ms_input cv tx i m ph (tce_tx src) (unat (mo_out_no e)) st"
    by (auto simp: check_tx_input_multisig_def Let_def split: option.splits if_split_asm txout_target_v.splits)
  then have c: "ms_sigs_count m = minimum_sigs out_ms" "out_amount (vout (tce_tx src) ! unat (mo_out_no e)) = ms_amount m"
    "prepare_prefix_hash_for_sign cv tx i ph \<noteq> null_hash"
    "match_signatures (prepare_prefix_hash_for_sign cv tx i ph) (ms_keys out_ms) (take (unat (ms_sigs_count m)) (signatures tx ! i))"
    "unat (ms_sigs_count m) \<le> length (signatures tx ! i)"
    using assms(2) by (auto simp: check_ms_input_def Let_def split: if_split_asm)
  from c(4) obtain ks where k: "subseq ks (ms_keys out_ms)"
    "list_all2 (check_signature (prepare_prefix_hash_for_sign cv tx i ph)) ks (take (unat (ms_sigs_count m)) (signatures tx ! i))"
    unfolding match_signatures_iff by blast
  have "length ks = unat (minimum_sigs out_ms)" using list_all2_lengthD [OF k(2)] c(1,5) by simp
  then show ?thesis unfolding input_good_def Let_def assms(3) using e c k by auto
qed

lemma to_key_input_good:
  assumes "check_tx_input_to_key cv tx i k ph (signatures tx ! i) mh st = Some mh'" and "\<not> bs_is_in_checkpoint_zone st"
    and "vin tx ! i = TxinToKey k" and "tk_key_offsets k \<noteq> []" and "\<not> bs_have_tx_keyimg_as_spent (tk_k_image k) UINT64_MAX st"
  shows "input_good cv st tx ph i"
proof -
  from assms(1) obtain keys where g: "get_output_keys_for_input_with_checks cv k mh st = Some (keys, mh')"
    and c: "check_tokey_input cv tx i k ph (signatures tx ! i) keys st"
    by (auto simp: check_tx_input_to_key_def split: option.splits if_split_asm)
  from g obtain offs where o: "relative_output_offsets_to_absolute (tk_key_offsets k) = Some offs"
    "scan_offsets (handle_output cv st) st (tk_amount k) (of_nat (length (tk_key_offsets k)) - 1) offs [] mh = Some (keys, mh')"
    by (auto simp: get_output_keys_for_input_with_checks_def scan_outputkeys_for_indexes_def split: option.splits if_split_asm)
  have "list_all2 (spendable_key cv st (tk_amount k)) offs keys" using scan_offsets_keys [OF o(2)] by auto
  moreover have "validate_key_image (tk_k_image k) = Some True" "length keys = length (tk_key_offsets k)"
    "prepare_prefix_hash_for_sign cv tx i ph \<noteq> null_hash"
    "check_ring_signature (prepare_prefix_hash_for_sign cv tx i ph) (tk_k_image k) (zip keys (signatures tx ! i)) = Some True"
    using c assms(2) by (auto simp: check_tokey_input_def Let_def split: if_split_asm)
  ultimately show ?thesis unfolding input_good_def Let_def assms(3) using assms(4,5) o(1) by auto
qed

lemma checked_from_good:
  assumes "check_inputs_from cv tx ph st n is mh = Some mh'" and "\<not> bs_is_in_checkpoint_zone st"
    and "\<And>i. i < length is \<Longrightarrow> vin tx ! (n + i) = is ! i" and "i < length is"
  shows "input_good cv st tx ph (n + i)"
  using assms
proof (induction "is" arbitrary: n mh i)
  case (Cons x xs)
  have x: "vin tx ! n = x" using Cons.prems(3) [of 0] by simp
  from Cons.prems(1,2) obtain mh1 where r: "check_inputs_from cv tx ph st (n + 1) xs mh1 = Some mh'"
    and c: "case x of TxinGen _ \<Rightarrow> True
      | TxinToKey k \<Rightarrow> tk_key_offsets k \<noteq> [] \<and> \<not> bs_have_tx_keyimg_as_spent (tk_k_image k) UINT64_MAX st \<and>
          check_tx_input_to_key cv tx n k ph (signatures tx ! n) mh st = Some mh1
      | TxinMultisig m \<Rightarrow> check_tx_input_multisig cv tx n m ph st = Some mh1"
    by (cases x) (auto simp: Let_def split: option.splits if_split_asm)
  have first: "input_good cv st tx ph n"
  proof (cases x)
    case (TxinGen g)
    then show ?thesis using x by (simp add: input_good_def)
  next
    case (TxinToKey k)
    then show ?thesis using x c Cons.prems(2) by (intro to_key_input_good) auto
  next
    case (TxinMultisig m)
    then show ?thesis using x c Cons.prems(2) by (intro multisig_input_good) auto
  qed
  show ?case
  proof (cases i)
    case (Suc j)
    have "input_good cv st tx ph (n + 1 + j)"
    proof (rule Cons.IH [OF r Cons.prems(2)])
      show "vin tx ! (n + 1 + i) = xs ! i" if "i < length xs" for i
        using Cons.prems(3) [of "Suc i"] that by simp
      show "j < length xs" using Cons.prems(4) Suc by simp
    qed
    then show ?thesis using Suc by simp
  qed (use first in simp)
qed simp

text \<open>C7: What a transaction with checked inputs has, outside of the checkpoint zone: the key image of every ring is unspent and
  valid, every member of the ring is the key of an existing output whose transaction is not locked, and the ring signature is
  good for the hash that covers the input; a multisig input spends an unspent output of its own amount with as many good
  signatures as the output demands, by a subsequence of the list of keys of the output (a key that the list repeats
  may sign repeatedly). In the checkpoint zone none of the signatures and key images is checked.\<close>
theorem checked_inputs_good:
  assumes "check_tx_inputs cv tx ph st = Some mh" and "\<not> bs_is_in_checkpoint_zone st" and "i < length (vin tx)"
  shows "input_good cv st tx ph i"
proof -
  from assms(1) obtain mh' where "check_inputs_from cv tx ph st 0 (vin tx) 0 = Some mh'"
    by (auto simp: check_tx_inputs_def split: option.splits)
  from checked_from_good [OF this assms(2) _ assms(3)] show ?thesis by simp
qed

subsection \<open>What is not checked\<close>

text \<open>The store with other amounts in all its transactions; the index of the amounts stays.\<close>

definition reprice :: "(u64 \<Rightarrow> u64) \<Rightarrow> blockchain_storage \<Rightarrow> blockchain_storage" where
  "reprice f st = st\<lparr>bs_transactions := (\<lambda>t. map_option (\<lambda>e. e\<lparr>tce_tx := (tce_tx e)\<lparr>vout :=
     map (\<lambda>out. out\<lparr>out_amount := f (out_amount out)\<rparr>) (vout (tce_tx e))\<rparr>\<rparr>) (bs_transactions st t))\<rparr>"

lemma absolute_refs: "list_all is_ref offs \<Longrightarrow> relative_output_offsets_to_absolute offs = Some offs"
proof (cases offs)
  case (Cons x xs)
  assume "list_all is_ref offs"
  then have "absolute_from x xs = Some xs" using Cons by (cases xs) (auto elim!: is_ref.elims)
  then show ?thesis using Cons by simp
qed simp

lemma handle_output_repriced:
  "handle_output cv (reprice f st) (tx\<lparr>vout := outs\<rparr>) (out\<lparr>out_amount := a\<rparr>) = handle_output cv st tx out"
  by (simp add: handle_output_def bs_is_tx_spendtime_unlocked_def get_tx_unlock_time_def get_current_blockchain_size_def reprice_def)

lemma scan_offsets_repriced:
  "list_all is_ref offs \<Longrightarrow> scan_offsets (handle_output cv (reprice f st)) (reprice f st) amount fakes offs keys mh =
    scan_offsets (handle_output cv st) st amount fakes offs keys mh"
proof (induction offs arbitrary: keys mh)
  case (Cons off offs)
  then obtain r where r: "off = RefById r" by (cases off) auto
  show ?case
  proof (cases "bs_transactions st (ref_tx_id r)")
    case None
    then show ?thesis using r by (simp add: referred_output_def reprice_def)
  next
    case (Some e)
    then have t: "bs_transactions (reprice f st) (ref_tx_id r) = Some (e\<lparr>tce_tx := (tce_tx e)\<lparr>vout :=
        map (\<lambda>out. out\<lparr>out_amount := f (out_amount out)\<rparr>) (vout (tce_tx e))\<rparr>\<rparr>)"
      by (simp add: reprice_def)
    show ?thesis
    proof (cases "unat (ref_n r) < length (vout (tce_tx e))")
      case True
      then show ?thesis using r Some t Cons
        by (auto simp: referred_output_def handle_output_repriced not_le split: option.split txout_target_v.split)
    next
      case False
      then show ?thesis using r Some t by (simp add: referred_output_def)
    qed
  qed
qed simp

text \<open>C8: An input that refers to its outputs by the identifiers of their transactions is never compared with their amounts:
  whatever amounts the outputs in the store have, the check of the input has the same outcome. An input of a large amount
  can refer to an output of a small one.\<close>
theorem ref_by_id_amount_unchecked:
  assumes "list_all is_ref (tk_key_offsets k)"
  shows "check_tx_input_to_key cv tx i k ph sig mh (reprice f st) = check_tx_input_to_key cv tx i k ph sig mh st"
proof -
  have "get_output_keys_for_input_with_checks cv k mh (reprice f st) = get_output_keys_for_input_with_checks cv k mh st"
    using absolute_refs [OF assms] scan_offsets_repriced [OF assms]
    by (simp add: get_output_keys_for_input_with_checks_def scan_outputkeys_for_indexes_def, simp add: reprice_def)
  moreover have "check_tokey_input cv tx i k ph sig keys (reprice f st) = check_tokey_input cv tx i k ph sig keys st" for keys
    by (simp add: check_tokey_input_def reprice_def)
  ultimately show ?thesis by (simp add: check_tx_input_to_key_def split: option.split)
qed

lemma ms_input_again:
  assumes "signatures tx = [s, s]" "vin tx = [TxinMultisig m, TxinMultisig m]" "\<not> signed_separately tx"
  shows "check_tx_input_multisig cv tx 1 m ph st = check_tx_input_multisig cv tx 0 m ph st"
proof -
  have f: "prepare_prefix_hash_for_sign cv tx 1 ph = ph" "prepare_prefix_hash_for_sign cv tx 0 ph = ph"
    "etc_attachments_ok cv tx 1 etc = etc_attachments_ok cv tx 0 etc" "extra_sign_needed tx 1 = False" "extra_sign_needed tx 0 = False"
    "(length (signatures tx) \<le> 1) = False" "(length (signatures tx) \<le> 0) = False" "signatures tx ! 1 = s" "signatures tx ! 0 = s" for etc
    using assms by (simp_all add: etc_attachments_ok_def extra_sign_needed_def prepare_prefix_hash_for_sign_def)
  have "check_ms_input cv tx 1 m ph src n st = check_ms_input cv tx 0 m ph src n st" for src n
    unfolding check_ms_input_def by (simp only: f)
  note eq = this
  show ?thesis unfolding check_tx_input_multisig_def eq by (rule refl)
qed

text \<open>C9: A multisig output can be spent twice by the same transaction: when its first input is good, a second copy of it with the
  same signatures is good as well, the amount counts twice, the key images are all different because there are none, and the
  store marks the output twice without complaint.\<close>
theorem multisig_spent_twice:
  assumes "vin tx = [TxinMultisig m, TxinMultisig m]" and "signatures tx = [s, s]" and "\<not> signed_separately tx"
    and "validate_attachment_info cv (attachment_info_of_extra (extra tx)) (attachment tx) False"
    and "check_tx_input_multisig cv tx 0 m ph st = Some mh" and "ms_amount m \<noteq> 0"
  shows "check_tx_inputs cv tx ph st = Some mh \<and> get_inputs_money_amount tx = Some (2 * ms_amount m) \<and>
    check_tx_inputs_keyimages_diff tx \<and> fst (add_inputs h (vin tx) st)"
proof -
  have "check_tx_inputs cv tx ph st = Some mh"
    using assms ms_input_again [OF assms(2,1,3), of cv ph st] by (simp add: check_tx_inputs_def Let_def)
  moreover have "get_inputs_money_amount tx = Some (2 * ms_amount m)"
    using assms(1,6) by (simp add: get_inputs_money_amount_def get_amount_from_variant_def)
  moreover have "check_tx_inputs_keyimages_diff tx" using assms(1) by (simp add: check_tx_inputs_keyimages_diff_def)
  moreover from assms(5) obtain e src where "bs_multisig_outs st (ms_multisig_out_id m) = Some e"
    "bs_transactions st (mo_tx_id e) = Some src" "unat (mo_out_no e) < length (tce_spent_flags src)"
    by (auto simp: check_tx_input_multisig_def Let_def not_le split: option.splits if_split_asm txout_target_v.splits)
  then have "fst (add_inputs h (vin tx) st)"
    using assms(1) by (simp add: add_input_def update_spent_multisig_def update_spent_tx_flags_def Let_def)
  ultimately show ?thesis by blast
qed

text \<open>A multisig input forgets the heights of the inputs before it: the height that is reported for all inputs is at most the
  one of its own source when it is the last, however high the others are.\<close>
theorem multisig_forgets_height:
  assumes "vin tx = is @ [TxinMultisig m]" and "check_tx_inputs cv tx ph st = Some mh"
  shows "Some mh = check_tx_input_multisig cv tx (length is) m ph st"
proof -
  have "check_inputs_from cv tx ph st n (is @ [TxinMultisig m]) h = Some mh \<Longrightarrow>
      check_tx_input_multisig cv tx (n + length is) m ph st = Some mh" for n h
  proof (induction "is" arbitrary: n h)
    case (Cons x xs)
    then obtain h' where "check_inputs_from cv tx ph st (n + 1) (xs @ [TxinMultisig m]) h' = Some mh"
      by (auto simp: Let_def split: option.splits if_split_asm)
    from Cons.IH [OF this] show ?case by simp
  qed (auto simp: Let_def split: option.splits if_split_asm)
  moreover have "check_inputs_from cv tx ph st 0 (is @ [TxinMultisig m]) 0 = Some mh"
    using assms by (auto simp: check_tx_inputs_def split: option.splits if_split_asm)
  ultimately show ?thesis by fastforce
qed

subsection \<open>Instances\<close>

definition demo_chain_view :: chain_view where
  "demo_chain_view = \<lparr>cv_transaction_hash = (\<lambda>_. [1]), cv_block_hash = (\<lambda>_. [2]), cv_longhash = (\<lambda>_. [3]), cv_blob_size = (\<lambda>_. 300),
     cv_multisig_out_id = (\<lambda>_ n. [11, of_nat n]), cv_alias_sign_hash = (\<lambda>_. [4]),
     cv_attachment_details = (\<lambda>as. \<lparr>eai_sz = 0, eai_hsh = null_hash, eai_cnt = of_nat (length as)\<rparr>), cv_core_time = 1000,
     cv_alias_validation_pubkey = [5], cv_pos_minimum_heigh = 0, cv_min_coinstake_age = 10, cv_amounts = (\<lambda>_. []),
     cv_node_view = (\<lambda>_. calm_view)\<rparr>"

text \<open>A transaction with a multisig output that demands no signature and an output to a key, and the store that has it twice.\<close>

definition source_tx :: transaction where
  "source_tx = \<lparr>tx_version = 1, vin = [], vout = [\<lparr>out_amount = 5, out_target = TxoutMultisig \<lparr>minimum_sigs = 0, ms_keys = []\<rparr>\<rparr>,
       \<lparr>out_amount = 5, out_target = TxoutToKey \<lparr>out_key = [7], mix_attr = 0\<rparr>\<rparr>],
     extra = [], signatures = [], attachment = []\<rparr>"

definition source_entry :: "u64 \<Rightarrow> transaction_chain_entry" where
  "source_entry h = \<lparr>tce_tx = source_tx, tce_keeper_block_height = h, tce_global_output_indexes = [0, 0], tce_spent_flags = [False, False]\<rparr>"

definition demo_store :: "bool \<Rightarrow> blockchain_storage" where
  "demo_store zone = \<lparr>bs_blocks = [], bs_blocks_index = Map.empty, bs_transactions = [[1] \<mapsto> source_entry 3, [2] \<mapsto> source_entry 9],
     bs_spent_keys = Map.empty, bs_outputs = (\<lambda>a. if a = 5 then [\<lparr>go_tx_id = [1], go_out_no = 1\<rparr>, \<lparr>go_tx_id = [2], go_out_no = 1\<rparr>] else []),
     bs_multisig_outs = [[11] \<mapsto> \<lparr>mo_tx_id = [1], mo_out_no = 0, mo_spent_height = 0\<rparr>, [12] \<mapsto> \<lparr>mo_tx_id = [2], mo_out_no = 0, mo_spent_height = 0\<rparr>],
     bs_aliases = Map.empty, bs_addr_to_alias = Map.empty, bs_per_block_gindex_incs = Map.empty, bs_services = with_market demo_view empty_offers_service,
     bs_tx_pool = empty_pool, bs_current_fee_median = 0, bs_current_fee_median_effective_index = 0, bs_checkpoints = [],
     bs_is_in_checkpoint_zone = zone, bs_current_pruned_rs_height = 0, bs_current_block_cumul_sz_limit = 0,
     bs_diff_cache = difficulty_cache_init, bs_invalid_blocks = Map.empty, bs_alternative_chains = Map.empty,
     bs_alternative_chains_txs = Map.empty, bs_altblocks_keyimages = Map.empty, bs_alias_events = []\<rparr>"

definition demo_ms :: "hash \<Rightarrow> txin_multisig" where
  "demo_ms mid = \<lparr>ms_amount = 5, ms_multisig_out_id = mid, ms_sigs_count = 0, ms_etc_details = []\<rparr>"

definition ms_spender :: "hash list \<Rightarrow> transaction" where
  "ms_spender mids = \<lparr>tx_version = 1, vin = map (TxinMultisig \<circ> demo_ms) mids, vout = [], extra = [], signatures = map (\<lambda>_. []) mids, attachment = []\<rparr>"

lemma demo_ms_input:
  assumes "mid = [11] \<and> h = 3 \<or> mid = [12] \<and> h = 9" and "length mids = length sigs" "i < length sigs" "sigs = map (\<lambda>_. []) mids"
  shows "check_tx_input_multisig demo_chain_view (ms_spender mids) i (demo_ms mid) [8] (demo_store False) = Some h"
proof -
  have "length ([8] :: hash) \<noteq> length null_hash" by (simp add: null_hash_def)
  then have n: "([8] :: hash) \<noteq> null_hash" by metis
  have u: "bs_is_tx_spendtime_unlocked demo_chain_view (get_tx_unlock_time source_tx) (demo_store False)"
    by (simp add: bs_is_tx_spendtime_unlocked_def get_tx_unlock_time_def source_tx_def is_tx_spendtime_unlocked_def
        CURRENCY_MAX_BLOCK_NUMBER_def)
  have "check_ms_input demo_chain_view (ms_spender mids) i (demo_ms mid) [8] source_tx 0 (demo_store False)"
    using assms(2-4) n u
    by (simp add: check_ms_input_def source_tx_def demo_ms_def ms_spender_def demo_store_def
        etc_attachments_ok_def extra_sign_needed_def signed_separately_def get_tx_flags_def
        attachment_info_of_input_def prepare_prefix_hash_for_sign_def Let_def)
  then show ?thesis using assms(1)
    by (auto simp: check_tx_input_multisig_def demo_store_def source_entry_def demo_ms_def Let_def) (simp_all add: source_tx_def)
qed

lemma demo_attachments: "validate_attachment_info demo_chain_view None [] False"
  by (simp add: validate_attachment_info_def demo_chain_view_def)

lemma ms_spender_parts: "\<not> signed_separately (ms_spender mids)" "extra (ms_spender mids) = []" "attachment (ms_spender mids) = []"
  "attachment_info_of_extra [] = None"
  by (simp_all add: ms_spender_def signed_separately_def get_tx_flags_def attachment_info_of_extra_def)

lemma demo_inputs_checked:
  "check_tx_inputs demo_chain_view (ms_spender [[12], [11]]) [8] (demo_store False) = Some 3"
proof -
  have z: "\<not> bs_is_in_checkpoint_zone (demo_store False)" by (simp add: demo_store_def)
  have "check_tx_input_multisig demo_chain_view (ms_spender [[12], [11]]) 0 (demo_ms [12]) [8] (demo_store False) = Some 9"
    "check_tx_input_multisig demo_chain_view (ms_spender [[12], [11]]) (Suc 0) (demo_ms [11]) [8] (demo_store False) = Some 3"
    by (rule demo_ms_input [where sigs = "[[], []]"], simp_all)+
  moreover have "vin (ms_spender [[12], [11]]) = [TxinMultisig (demo_ms [12]), TxinMultisig (demo_ms [11])]"
    "signatures (ms_spender [[12], [11]]) = [[], []]"
    by (simp_all add: ms_spender_def)
  ultimately show ?thesis using z demo_attachments by (simp add: check_tx_inputs_def ms_spender_parts)
qed

theorem checked_inputs_good_witness:
  "input_good demo_chain_view (demo_store False) (ms_spender [[12], [11]]) [8] 1"
  by (rule checked_inputs_good [OF demo_inputs_checked]) (simp_all add: demo_store_def ms_spender_def)

theorem multisig_forgets_height_witness:
  "check_tx_input_multisig demo_chain_view (ms_spender [[12], [11]]) 0 (demo_ms [12]) [8] (demo_store False) = Some 9 \<and>
   Some 3 = check_tx_input_multisig demo_chain_view (ms_spender [[12], [11]]) 1 (demo_ms [11]) [8] (demo_store False)"
  using multisig_forgets_height [OF _ demo_inputs_checked, of "[TxinMultisig (demo_ms [12])]" "demo_ms [11]"]
    demo_ms_input [of "[12]" 9 "[[12], [11]]" "[[], []]" 0]
  by (simp add: ms_spender_def)

theorem multisig_spent_twice_witness:
  "check_tx_inputs demo_chain_view (ms_spender [[11], [11]]) [8] (demo_store False) = Some 3 \<and>
   get_inputs_money_amount (ms_spender [[11], [11]]) = Some 10"
proof -
  have "check_tx_input_multisig demo_chain_view (ms_spender [[11], [11]]) 0 (demo_ms [11]) [8] (demo_store False) = Some 3"
    by (rule demo_ms_input [where sigs = "[[], []]"]) simp_all
  from multisig_spent_twice [OF _ _ ms_spender_parts(1) _ this, of "[]"]
  have "check_tx_inputs demo_chain_view (ms_spender [[11], [11]]) [8] (demo_store False) = Some 3 \<and>
      get_inputs_money_amount (ms_spender [[11], [11]]) = Some (2 * ms_amount (demo_ms [11]))"
    using demo_attachments by (simp add: ms_spender_parts) (simp add: ms_spender_def demo_ms_def)
  then show ?thesis by (simp add: demo_ms_def)
qed

definition ref_input :: txin_to_key where
  "ref_input = \<lparr>tk_amount = 5, tk_key_offsets = [RefById \<lparr>ref_tx_id = [1], ref_n = 1\<rparr>], tk_k_image = [6], tk_etc_details = []\<rparr>"

text \<open>An input of the amount 5 that refers to an output of the amount 1.\<close>
theorem ref_by_id_amount_unchecked_witness:
  "check_tx_input_to_key demo_chain_view simple_tx 0 ref_input [8] [] 0 (reprice (\<lambda>_. 1) (demo_store True)) = Some 3"
proof -
  have u: "bs_is_tx_spendtime_unlocked demo_chain_view (get_tx_unlock_time source_tx) (demo_store True)"
    by (simp add: bs_is_tx_spendtime_unlocked_def get_tx_unlock_time_def source_tx_def is_tx_spendtime_unlocked_def
        CURRENCY_MAX_BLOCK_NUMBER_def)
  then have "handle_output demo_chain_view (demo_store True) source_tx (vout source_tx ! 1) = Some [7]"
    by (simp add: handle_output_def) (simp add: source_tx_def)
  moreover have "bs_outputs (demo_store True) 5 \<noteq> []" "bs_transactions (demo_store True) [1] = Some (source_entry 3)"
    by (simp_all add: demo_store_def)
  moreover have "length (vout source_tx) = 2" "out_target (vout source_tx ! 1) = TxoutToKey \<lparr>out_key = [7], mix_attr = 0\<rparr>"
    by (simp_all add: source_tx_def)
  ultimately have "get_output_keys_for_input_with_checks demo_chain_view ref_input 0 (demo_store True) = Some ([[7]], 3)"
    by (simp add: get_output_keys_for_input_with_checks_def scan_outputkeys_for_indexes_def ref_input_def referred_output_def
        source_entry_def is_mixattr_applicable_for_fake_outs_counter_def)
  then have "check_tx_input_to_key demo_chain_view simple_tx 0 ref_input [8] [] 0 (demo_store True) = Some 3"
    by (simp add: check_tx_input_to_key_def check_tokey_input_def ref_input_def) (simp add: demo_store_def)
  then show ?thesis using ref_by_id_amount_unchecked [of ref_input demo_chain_view simple_tx 0 "[8]" "[]" 0 "\<lambda>_. 1" "demo_store True"]
    by (simp add: ref_input_def)
qed

end
