(* ===== verification/ChainLaws.thy ===== *)
theory ChainLaws
  imports ChainStore Market
begin

section \<open>Adding and removing transactions are inverse\<close>

text \<open>
  What the operations of ChainStore.thy do to each of the tables, and the law that ties them together: a transaction that was
  added to the store can always be purged again, and the purge restores every table.
\<close>

subsection \<open>What the operations on inputs do to the tables\<close>

text \<open>The output that an input marks: the transaction and the number of the output.\<close>

definition marked_output :: "blockchain_storage \<Rightarrow> txin_v \<Rightarrow> (hash \<times> nat) option" where
  "marked_output st i =
     (case i of
        TxinGen _ \<Rightarrow> None
      | TxinToKey k \<Rightarrow>
          if length (tk_key_offsets k) = 1
          then (case tk_key_offsets k ! 0 of
                  RefById r \<Rightarrow> Some (ref_tx_id r, unat (ref_n r))
                | GlobalIndex g \<Rightarrow>
                    if unat g < length (bs_outputs st (tk_amount k))
                    then Some (go_tx_id (bs_outputs st (tk_amount k) ! unat g), unat (go_out_no (bs_outputs st (tk_amount k) ! unat g)))
                    else None)
          else None
      | TxinMultisig ms \<Rightarrow> map_option (\<lambda>m. (mo_tx_id m, unat (mo_out_no m))) (bs_multisig_outs st (ms_multisig_out_id ms)))"

definition set_flag :: "bool \<Rightarrow> (hash \<times> nat) option \<Rightarrow> (hash \<rightharpoonup> transaction_chain_entry) \<Rightarrow> (hash \<rightharpoonup> transaction_chain_entry)" where
  "set_flag spent target m =
     (case target of
        None \<Rightarrow> m
      | Some (t, n) \<Rightarrow>
          (case m t of
             None \<Rightarrow> m
           | Some e \<Rightarrow> m(t \<mapsto> e\<lparr>tce_spent_flags := (tce_spent_flags e)[n := spent]\<rparr>)))"

definition set_image :: "u64 option \<Rightarrow> txin_v \<Rightarrow> (key_image \<rightharpoonup> u64) \<Rightarrow> (key_image \<rightharpoonup> u64)" where
  "set_image h i m = (case i of TxinToKey k \<Rightarrow> m(tk_k_image k := h) | _ \<Rightarrow> m)"

definition set_ms_height :: "u32 \<Rightarrow> txin_v \<Rightarrow> (hash \<rightharpoonup> ms_output_entry) \<Rightarrow> (hash \<rightharpoonup> ms_output_entry)" where
  "set_ms_height h i m =
     (case i of
        TxinMultisig ms \<Rightarrow>
          (case m (ms_multisig_out_id ms) of
             None \<Rightarrow> m
           | Some e \<Rightarrow> m(ms_multisig_out_id ms \<mapsto> e\<lparr>mo_spent_height := h\<rparr>))
      | _ \<Rightarrow> m)"

text \<open>The flag and the tables that an input needs for its marking to succeed.\<close>

definition flag_at :: "(hash \<rightharpoonup> transaction_chain_entry) \<Rightarrow> (hash \<times> nat) option \<Rightarrow> bool option" where
  "flag_at m target =
     (case target of
        None \<Rightarrow> None
      | Some (t, n) \<Rightarrow>
          (case m t of None \<Rightarrow> None | Some e \<Rightarrow> if n < length (tce_spent_flags e) then Some (tce_spent_flags e ! n) else None))"

definition marks :: "txin_v \<Rightarrow> bool" where
  "marks i = (case i of TxinGen _ \<Rightarrow> False | TxinToKey k \<Rightarrow> length (tk_key_offsets k) = 1 | TxinMultisig _ \<Rightarrow> True)"

lemma update_flags_result:
  "update_spent_tx_flags t n spent st =
    (if flag_at (bs_transactions st) (Some (t, n)) = None then (False, st)
     else (True, st\<lparr>bs_transactions := set_flag spent (Some (t, n)) (bs_transactions st)\<rparr>))"
  by (simp add: update_spent_tx_flags_def flag_at_def set_flag_def split: option.split)

text \<open>An input that is added or purged writes one key image, one height and one flag.\<close>

definition input_written :: "u64 option \<Rightarrow> u32 \<Rightarrow> bool \<Rightarrow> (hash \<times> nat) option \<Rightarrow> txin_v \<Rightarrow> blockchain_storage \<Rightarrow>
    blockchain_storage" where
  "input_written img h flag target i st = st\<lparr>bs_spent_keys := set_image img i (bs_spent_keys st),
     bs_multisig_outs := set_ms_height h i (bs_multisig_outs st),
     bs_transactions := set_flag flag target (bs_transactions st)\<rparr>"

definition flag_written :: "u64 \<Rightarrow> txin_v \<Rightarrow> bool" where
  "flag_written h i \<longleftrightarrow> h \<noteq> 0 \<or> (case i of TxinMultisig _ \<Rightarrow> False | _ \<Rightarrow> True)"

lemma set_flag_None [simp]: "set_flag b None m = m"
  by (simp add: set_flag_def)

lemma flag_at_None [simp]: "flag_at m None = None"
  by (simp add: flag_at_def)

lemma update_for_input_result:
  assumes "length (tk_key_offsets k) = 1"
  shows "update_spent_for_input (tk_amount k) (tk_key_offsets k ! 0) spent st =
    (if flag_at (bs_transactions st) (marked_output st (TxinToKey k)) = None then (False, st)
     else (True, st\<lparr>bs_transactions := set_flag spent (marked_output st (TxinToKey k)) (bs_transactions st)\<rparr>))"
  using assms
  by (auto simp: update_spent_for_input_def update_spent_global_index_def marked_output_def update_flags_result Let_def not_less
      split: txout_v.split)

lemma marked_output_keys [simp]:
  "marked_output (st\<lparr>bs_spent_keys := m\<rparr>) i = marked_output st i"
  by (simp add: marked_output_def split: txin_v.split txout_v.split)

lemma add_input_success:
  "add_input h i st = (True, st') \<longleftrightarrow>
    (case i of TxinToKey k \<Rightarrow> bs_spent_keys st (tk_k_image k) = None | _ \<Rightarrow> True) \<and>
    (marks i \<longrightarrow> flag_at (bs_transactions st) (marked_output st i) \<noteq> None) \<and>
    st' = input_written (Some h) (ucast h) (flag_written h i) (marked_output st i) i st"
proof (cases i)
  case (TxinGen g)
  then show ?thesis by (auto simp: add_input_def marks_def input_written_def marked_output_def set_image_def set_ms_height_def)
next
  case (TxinToKey k)
  show ?thesis
  proof (cases "length (tk_key_offsets k) = 1")
    case True
    then show ?thesis using TxinToKey
      by (auto simp: add_input_def marks_def input_written_def set_image_def set_ms_height_def flag_written_def
          update_for_input_result Let_def split: if_splits)
  next
    case False
    then show ?thesis using TxinToKey
      by (auto simp: add_input_def marks_def input_written_def set_image_def set_ms_height_def marked_output_def)
  qed
next
  case (TxinMultisig ms)
  then show ?thesis
    by (auto simp: add_input_def marks_def input_written_def set_image_def set_ms_height_def marked_output_def flag_written_def
      update_spent_multisig_def update_flags_result Let_def split: option.splits if_splits)
qed

lemma purge_input_success:
  "purge_input True i st = (True, st') \<longleftrightarrow>
    (case i of TxinToKey k \<Rightarrow> bs_spent_keys st (tk_k_image k) \<noteq> None | _ \<Rightarrow> True) \<and>
    (marks i \<longrightarrow> flag_at (bs_transactions st) (marked_output st i) \<noteq> None) \<and>
    st' = input_written None 0 False (marked_output st i) i st"
proof (cases i)
  case (TxinGen g)
  then show ?thesis by (auto simp: purge_input_def marks_def input_written_def marked_output_def set_image_def set_ms_height_def)
next
  case (TxinToKey k)
  show ?thesis
  proof (cases "length (tk_key_offsets k) = 1")
    case True
    then show ?thesis using TxinToKey
      by (auto simp: purge_input_def marks_def input_written_def set_image_def set_ms_height_def
          update_for_input_result Let_def split: if_splits)
  next
    case False
    then show ?thesis using TxinToKey
      by (auto simp: purge_input_def marks_def input_written_def set_image_def set_ms_height_def marked_output_def Let_def)
  qed
next
  case (TxinMultisig ms)
  then show ?thesis
    by (auto simp: purge_input_def marks_def input_written_def set_image_def set_ms_height_def marked_output_def
      update_spent_multisig_def update_flags_result Let_def split: option.splits if_splits)
qed


subsection \<open>The tables after a list of inputs\<close>

definition image_of :: "txin_v \<Rightarrow> key_image list" where
  "image_of i = (case i of TxinToKey k \<Rightarrow> [tk_k_image k] | _ \<Rightarrow> [])"

definition input_images :: "txin_v list \<Rightarrow> key_image list" where
  "input_images is = concat (map image_of is)"

lemma input_images_simps [simp]:
  "input_images [] = []" "input_images (i # is) = image_of i @ input_images is"
  by (simp_all add: input_images_def)

definition ms_id_of :: "txin_v \<Rightarrow> hash option" where
  "ms_id_of i = (case i of TxinMultisig ms \<Rightarrow> Some (ms_multisig_out_id ms) | _ \<Rightarrow> None)"

definition tx_shape :: "(hash \<rightharpoonup> transaction_chain_entry) \<Rightarrow> hash \<Rightarrow> (transaction_chain_entry \<times> nat) option" where
  "tx_shape m t = map_option (\<lambda>e. (e\<lparr>tce_spent_flags := []\<rparr>, length (tce_spent_flags e))) (m t)"

lemma tx_shape_set_flag [simp]: "tx_shape (set_flag b x m) = tx_shape m"
  by (rule ext) (auto simp: tx_shape_def set_flag_def split: option.split)

lemma flag_at_set_flag: "flag_at (set_flag b t m) x = (if x = t \<and> flag_at m x \<noteq> None then Some b else flag_at m x)"
  by (auto simp: flag_at_def set_flag_def nth_list_update split: option.splits)

lemma flag_at_set_flag_None: "flag_at (set_flag b t m) x = None \<longleftrightarrow> flag_at m x = None"
  by (cases "x = t") (simp_all add: flag_at_set_flag)

lemma tx_shape_dom: "tx_shape m = tx_shape m' \<Longrightarrow> (m t = None) = (m' t = None)"
  by (metis tx_shape_def map_option_is_None)

text \<open>A table of transactions is determined by its entries without flags and by the flags of its outputs.\<close>

lemma transactions_eqI:
  assumes s: "tx_shape m = tx_shape m'" and f: "\<And>x. flag_at m x = flag_at m' x"
  shows "m = m'"
proof
  fix t
  show "m t = m' t"
  proof (cases "m t")
    case None
    then show ?thesis using tx_shape_dom [OF s] by metis
  next
    case (Some e)
    then obtain e' where e': "m' t = Some e'" using tx_shape_dom [OF s, of t] by auto
    have a: "e\<lparr>tce_spent_flags := []\<rparr> = e'\<lparr>tce_spent_flags := []\<rparr>" and l: "length (tce_spent_flags e) = length (tce_spent_flags e')"
      using fun_cong [OF s, of t] Some e' by (simp_all add: tx_shape_def)
    have "tce_spent_flags e ! n = tce_spent_flags e' ! n" if "n < length (tce_spent_flags e)" for n
      using f [of "Some (t, n)"] Some e' that l by (simp add: flag_at_def)
    then have "tce_spent_flags e = tce_spent_flags e'" using l by (simp add: nth_equalityI)
    then have "e = e'" using a by (cases e; cases e') simp
    then show ?thesis using Some e' by simp
  qed
qed

lemma set_image_fold_None: "fold (set_image None) is m k = (if k \<in> set (input_images is) then None else m k)"
  by (induction "is" arbitrary: m) (auto simp: set_image_def image_of_def split: txin_v.splits)

lemma set_image_fold_Some: "fold (set_image (Some h)) is m k = (if k \<in> set (input_images is) then Some h else m k)"
  by (induction "is" arbitrary: m) (auto simp: set_image_def image_of_def split: txin_v.splits)

lemma set_ms_height_at: "set_ms_height h i m k =
    (if ms_id_of i = Some k then map_option (\<lambda>e. e\<lparr>mo_spent_height := h\<rparr>) (m k) else m k)"
  by (auto simp: set_ms_height_def ms_id_of_def split: txin_v.split option.split)

lemma set_ms_height_fold: "fold (set_ms_height h) is m k =
    (if Some k \<in> ms_id_of ` set is then map_option (\<lambda>e. e\<lparr>mo_spent_height := h\<rparr>) (m k) else m k)"
proof (induction "is" arbitrary: m)
  case (Cons i "is")
  have "map_option (\<lambda>e. e\<lparr>mo_spent_height := h\<rparr>) (map_option (\<lambda>e. e\<lparr>mo_spent_height := h\<rparr>) x)
      = map_option (\<lambda>e. e\<lparr>mo_spent_height := h\<rparr>) x" for x
    by (cases x) simp_all
  then show ?case using Cons by (auto simp: set_ms_height_at)
qed simp

lemma input_written_parts [simp]:
  "bs_spent_keys (input_written img h b t i st) = set_image img i (bs_spent_keys st)"
  "bs_multisig_outs (input_written img h b t i st) = set_ms_height h i (bs_multisig_outs st)"
  "bs_transactions (input_written img h b t i st) = set_flag b t (bs_transactions st)"
  "bs_outputs (input_written img h b t i st) = bs_outputs st"
  by (simp_all add: input_written_def)

lemma marked_output_written [simp]: "marked_output (input_written img h b t i st) = marked_output st"
proof
  fix j
  have "map_option (\<lambda>m. (mo_tx_id m, unat (mo_out_no m))) (set_ms_height h i (bs_multisig_outs st) k) =
      map_option (\<lambda>m. (mo_tx_id m, unat (mo_out_no m))) (bs_multisig_outs st k)" for k
    by (simp add: set_ms_height_at option.map_comp comp_def)
  then show "marked_output (input_written img h b t i st) j = marked_output st j"
    by (simp add: marked_output_def split: txin_v.split txout_v.split)
qed

text \<open>The tables of inputs of a state: what the two operations on inputs can change.\<close>

definition with_tables :: "(key_image \<rightharpoonup> u64) \<Rightarrow> (hash \<rightharpoonup> ms_output_entry) \<Rightarrow> (hash \<rightharpoonup> transaction_chain_entry) \<Rightarrow> blockchain_storage \<Rightarrow>
    blockchain_storage" where
  "with_tables ks ms txs st = st\<lparr>bs_spent_keys := ks, bs_multisig_outs := ms, bs_transactions := txs\<rparr>"

lemma with_tables_written [simp]:
  "with_tables ks ms txs (input_written img h b t i st) = with_tables ks ms txs st"
  by (simp add: with_tables_def input_written_def)

lemma add_inputs_success:
  assumes "add_inputs h is st = (True, st')"
  obtains txs where
    "st' = with_tables (fold (set_image (Some h)) is (bs_spent_keys st)) (fold (set_ms_height (ucast h)) is (bs_multisig_outs st)) txs st"
    "tx_shape txs = tx_shape (bs_transactions st)"
    "\<And>x. x \<notin> marked_output st ` set is \<Longrightarrow> flag_at txs x = flag_at (bs_transactions st) x"
    "distinct (input_images is)" "\<And>k. k \<in> set (input_images is) \<Longrightarrow> bs_spent_keys st k = None"
    "\<And>i. i \<in> set is \<Longrightarrow> marks i \<Longrightarrow> flag_at (bs_transactions st) (marked_output st i) \<noteq> None"
  using assms
proof (induction "is" arbitrary: st thesis)
  case Nil
  from Nil.prems(2) show ?case
    by (intro Nil.prems(1) [of "bs_transactions st"]) (simp_all add: with_tables_def)
next
  case (Cons i "is")
  let ?st = "input_written (Some h) (ucast h) (flag_written h i) (marked_output st i) i st"
  from Cons.prems(2) have a: "add_input h i st = (True, ?st)" and r: "add_inputs h is ?st = (True, st')"
    by (auto split: prod.split_asm bool.split_asm simp: add_input_success)
  from Cons.IH [OF _ r] obtain txs where t:
    "st' = with_tables (fold (set_image (Some h)) is (bs_spent_keys ?st)) (fold (set_ms_height (ucast h)) is (bs_multisig_outs ?st)) txs ?st"
    "tx_shape txs = tx_shape (bs_transactions ?st)"
    "\<And>x. x \<notin> marked_output ?st ` set is \<Longrightarrow> flag_at txs x = flag_at (bs_transactions ?st) x"
    "distinct (input_images is)" "\<And>k. k \<in> set (input_images is) \<Longrightarrow> bs_spent_keys ?st k = None"
    "\<And>i. i \<in> set is \<Longrightarrow> marks i \<Longrightarrow> flag_at (bs_transactions ?st) (marked_output ?st i) \<noteq> None"
    by metis
  have im: "\<forall>k \<in> set (image_of i). bs_spent_keys st k = None \<and> bs_spent_keys ?st k = Some h" and
    ar: "marks i \<longrightarrow> flag_at (bs_transactions st) (marked_output st i) \<noteq> None"
    using a by (auto simp: add_input_success image_of_def set_image_def split: txin_v.splits)
  have other: "bs_spent_keys ?st k = None \<Longrightarrow> bs_spent_keys st k = None" for k
    by (auto simp: set_image_def split: txin_v.split_asm if_splits)
  show ?case
  proof (rule Cons.prems(1))
    show "st' = with_tables (fold (set_image (Some h)) (i # is) (bs_spent_keys st))
        (fold (set_ms_height (ucast h)) (i # is) (bs_multisig_outs st)) txs st"
      using t(1) by simp
    show "tx_shape txs = tx_shape (bs_transactions st)" using t(2) by simp
    show "flag_at txs x = flag_at (bs_transactions st) x" if "x \<notin> marked_output st ` set (i # is)" for x
      using t(3) [of x] that by (simp add: flag_at_set_flag)
    have "set (image_of i) \<inter> set (input_images is) = {}" using im t(5) by fastforce
    moreover have "distinct (image_of i)" by (simp add: image_of_def split: txin_v.split)
    ultimately show "distinct (input_images (i # is))" using t(4) by simp
    show "bs_spent_keys st k = None" if "k \<in> set (input_images (i # is))" for k
      using that im t(5) other by auto
    show "flag_at (bs_transactions st) (marked_output st j) \<noteq> None" if "j \<in> set (i # is)" "marks j" for j
      using that ar t(6) [of j] by (auto simp: flag_at_set_flag split: if_splits)
  qed
qed

lemma purge_inputs_success:
  assumes "distinct (input_images is)" "\<And>k. k \<in> set (input_images is) \<Longrightarrow> bs_spent_keys st k \<noteq> None"
    "\<And>i. i \<in> set is \<Longrightarrow> marks i \<Longrightarrow> flag_at (bs_transactions st) (marked_output st i) \<noteq> None"
  obtains txs where
    "purge_inputs True is st = (True, with_tables (fold (set_image None) is (bs_spent_keys st)) (fold (set_ms_height 0) is (bs_multisig_outs st)) txs st)"
    "tx_shape txs = tx_shape (bs_transactions st)"
    "\<And>x. flag_at txs x = (if x \<in> marked_output st ` set is \<and> flag_at (bs_transactions st) x \<noteq> None then Some False
       else flag_at (bs_transactions st) x)"
  using assms
proof (induction "is" arbitrary: st thesis)
  case Nil
  show ?case by (rule Nil.prems(1) [of "bs_transactions st"]) (simp_all add: with_tables_def)
next
  case (Cons i "is")
  let ?st = "input_written None 0 False (marked_output st i) i st"
  have p: "purge_input True i st = (True, ?st)"
    unfolding purge_input_success using Cons.prems(3,4) by (auto simp: image_of_def split: txin_v.split)
  have d: "distinct (input_images is)" using Cons.prems(2) by simp
  have k: "bs_spent_keys ?st k \<noteq> None" if "k \<in> set (input_images is)" for k
    using Cons.prems(2,3) that by (auto simp: set_image_def image_of_def split: txin_v.splits if_splits)
  have f: "flag_at (bs_transactions ?st) (marked_output ?st j) \<noteq> None" if "j \<in> set is" "marks j" for j
    using Cons.prems(4) [of j] that by (simp add: flag_at_set_flag_None)
  from Cons.IH [OF _ d k f] obtain txs where t:
    "purge_inputs True is ?st = (True, with_tables (fold (set_image None) is (bs_spent_keys ?st)) (fold (set_ms_height 0) is (bs_multisig_outs ?st)) txs ?st)"
    "tx_shape txs = tx_shape (bs_transactions ?st)"
    "\<And>x. flag_at txs x = (if x \<in> marked_output ?st ` set is \<and> flag_at (bs_transactions ?st) x \<noteq> None then Some False
       else flag_at (bs_transactions ?st) x)"
    by metis
  show ?case
  proof (rule Cons.prems(1))
    show "purge_inputs True (i # is) st = (True, with_tables (fold (set_image None) (i # is) (bs_spent_keys st))
        (fold (set_ms_height 0) (i # is) (bs_multisig_outs st)) txs st)"
      using t(1) p by simp
    show "tx_shape txs = tx_shape (bs_transactions st)" using t(2) by simp
    show "flag_at txs x = (if x \<in> marked_output st ` set (i # is) \<and> flag_at (bs_transactions st) x \<noteq> None then Some False
       else flag_at (bs_transactions st) x)" for x
      using t(3) [of x] by (auto simp: flag_at_set_flag)
  qed
qed


subsection \<open>The index of the outputs\<close>

definition is_ms_out :: "tx_out \<Rightarrow> bool" where
  "is_ms_out ot = (case out_target ot of TxoutToKey _ \<Rightarrow> False | TxoutMultisig _ \<Rightarrow> True)"

fun ms_out_ids :: "chain_view \<Rightarrow> transaction \<Rightarrow> nat \<Rightarrow> tx_out list \<Rightarrow> hash set" where
  "ms_out_ids cv tx i [] = {}"
| "ms_out_ids cv tx i (ot # ots) = (if is_ms_out ot then {cv_multisig_out_id cv tx i} else {}) \<union> ms_out_ids cv tx (i + 1) ots"

lemma ms_out_ids_append: "ms_out_ids cv tx i (xs @ ys) = ms_out_ids cv tx i xs \<union> ms_out_ids cv tx (i + length xs) ys"
  by (induction xs arbitrary: i) auto

lemma push_outs_append:
  "push_outs cv tx t i (xs @ ys) gi st =
    (case push_outs cv tx t i xs gi st of
       (True, gi', st') \<Rightarrow> push_outs cv tx t (i + length xs) ys gi' st'
     | (False, r) \<Rightarrow> (False, r))"
proof (induction xs arbitrary: i gi st)
  case (Cons ot xs)
  have "i + length (ot # xs) = (i + 1) + length xs" by simp
  then show ?case using Cons.IH [of "i + 1"]
    by (cases "out_target ot") (auto simp only: append_Cons push_outs.simps Let_def txout_target_v.case prod.case bool.case split: if_split)
qed simp

text \<open>What a successful push does to the two tables, and that the pop from the end is its inverse, also when the flags of
  multisig outputs changed meanwhile.\<close>

lemma push_outs_success:
  assumes "push_outs cv tx t i ots gi st = (True, gi', st')"
  shows "\<exists>outs ms. st' = st\<lparr>bs_outputs := outs, bs_multisig_outs := ms\<rparr> \<and>
    (\<forall>a. \<exists>new. outs a = bs_outputs st a @ new) \<and>
    (\<forall>k. k \<in> ms_out_ids cv tx i ots \<longrightarrow> bs_multisig_outs st k = None \<and> ms k \<noteq> None) \<and>
    (\<forall>k. k \<notin> ms_out_ids cv tx i ots \<longrightarrow> ms k = bs_multisig_outs st k)"
  using assms
proof (induction ots arbitrary: i gi st)
  case Nil
  then have "st' = st\<lparr>bs_outputs := bs_outputs st, bs_multisig_outs := bs_multisig_outs st\<rparr>" by simp
  then show ?case by fastforce
next
  case (Cons ot ots)
  show ?case
  proof (cases "out_target ot")
    case (TxoutToKey k)
    let ?outs = "bs_outputs st (out_amount ot) @ [\<lparr>go_tx_id = t, go_out_no = of_nat i\<rparr>]"
    let ?st = "st\<lparr>bs_outputs := (bs_outputs st)(out_amount ot := ?outs)\<rparr>"
    from Cons.prems TxoutToKey obtain g where "push_outs cv tx t (i + 1) ots g ?st = (True, gi', st')"
      by (auto simp: Let_def)
    from Cons.IH [OF this] obtain outs ms where r: "st' = ?st\<lparr>bs_outputs := outs, bs_multisig_outs := ms\<rparr>"
      "\<And>a. \<exists>new. outs a = bs_outputs ?st a @ new"
      "\<And>k. k \<in> ms_out_ids cv tx (i + 1) ots \<Longrightarrow> bs_multisig_outs ?st k = None \<and> ms k \<noteq> None"
      "\<And>k. k \<notin> ms_out_ids cv tx (i + 1) ots \<Longrightarrow> ms k = bs_multisig_outs ?st k" by blast
    have "\<exists>new. outs a = bs_outputs st a @ new" for a
      using r(2) [of a] by (auto split: if_splits)
    then show ?thesis using r TxoutToKey
      by (intro exI [of _ outs] exI [of _ ms]) (simp add: is_ms_out_def)
  next
    case (TxoutMultisig k)
    let ?id = "cv_multisig_out_id cv tx i"
    let ?st = "st\<lparr>bs_multisig_outs := (bs_multisig_outs st)(?id \<mapsto> \<lparr>mo_tx_id = t, mo_out_no = of_nat i, mo_spent_height = 0\<rparr>)\<rparr>"
    from Cons.prems TxoutMultisig obtain g where "push_outs cv tx t (i + 1) ots g ?st = (True, gi', st')"
      and n: "bs_multisig_outs st ?id = None"
      by (auto simp: Let_def split: if_splits)
    from Cons.IH [OF this(1)] obtain outs ms where r: "st' = ?st\<lparr>bs_outputs := outs, bs_multisig_outs := ms\<rparr>"
      "\<And>a. \<exists>new. outs a = bs_outputs ?st a @ new"
      "\<And>k. k \<in> ms_out_ids cv tx (i + 1) ots \<Longrightarrow> bs_multisig_outs ?st k = None \<and> ms k \<noteq> None"
      "\<And>k. k \<notin> ms_out_ids cv tx (i + 1) ots \<Longrightarrow> ms k = bs_multisig_outs ?st k" by blast
    have "k \<in> ms_out_ids cv tx i (ot # ots) \<Longrightarrow> bs_multisig_outs st k = None \<and> ms k \<noteq> None" for k
      using r(3,4) [of k] n TxoutMultisig by (cases "k = ?id") (auto simp: is_ms_out_def split: if_splits)
    moreover have "k \<notin> ms_out_ids cv tx i (ot # ots) \<Longrightarrow> ms k = bs_multisig_outs st k" for k
      using r(4) [of k] TxoutMultisig by (auto simp: is_ms_out_def split: if_splits)
    ultimately show ?thesis using r(1,2)
      by (intro exI [of _ outs] exI [of _ ms]) simp
  qed
qed

lemma pop_push_outs:
  assumes "push_outs cv tx t 0 ots gi st = (True, gi', st')" and "length ots \<le> 2 ^ 32"
    and "bs_outputs st2 = bs_outputs st'" and "\<And>k. k \<in> ms_out_ids cv tx 0 ots \<Longrightarrow> bs_multisig_outs st2 k \<noteq> None"
  shows "pop_outs cv tx t (rev ots) st2 = (True, st2\<lparr>bs_outputs := bs_outputs st,
    bs_multisig_outs := bs_multisig_outs st2 |` (- ms_out_ids cv tx 0 ots)\<rparr>)"
  using assms
proof (induction ots arbitrary: gi' st' st2 rule: rev_induct)
  case Nil
  then show ?case by simp
next
  case (snoc ot ots)
  from snoc.prems(1) obtain g1 st1 where p: "push_outs cv tx t 0 ots gi st = (True, g1, st1)"
    and q: "push_outs cv tx t (length ots) [ot] g1 st1 = (True, gi', st')"
    by (auto simp: push_outs_append split: prod.splits bool.splits)
  have l: "length ots < 2 ^ 32" using snoc.prems(2) by simp
  show ?case
  proof (cases "out_target ot")
    case (TxoutToKey k)
    then have st': "st' = st1\<lparr>bs_outputs := (bs_outputs st1)(out_amount ot :=
        bs_outputs st1 (out_amount ot) @ [\<lparr>go_tx_id = t, go_out_no = of_nat (length ots)\<rparr>])\<rparr>"
      using q by (auto simp: Let_def)
    let ?st2 = "st2\<lparr>bs_outputs := bs_outputs st1\<rparr>"
    have "unat (of_nat (length ots) :: u32) = length ots" using l by (simp add: unat_of_nat)
    moreover have "bs_outputs st2 (out_amount ot) = bs_outputs st1 (out_amount ot) @ [\<lparr>go_tx_id = t, go_out_no = of_nat (length ots)\<rparr>]"
      unfolding snoc.prems(3) st' by simp
    moreover have "(bs_outputs st2)(out_amount ot := bs_outputs st1 (out_amount ot)) = bs_outputs st1"
      unfolding snoc.prems(3) st' by simp
    ultimately have "pop_outs cv tx t (rev (ots @ [ot])) st2 = pop_outs cv tx t (rev ots) ?st2"
      using TxoutToKey by (simp add: Let_def)
    moreover have "pop_outs cv tx t (rev ots) ?st2 = (True, ?st2\<lparr>bs_outputs := bs_outputs st,
        bs_multisig_outs := bs_multisig_outs ?st2 |` (- ms_out_ids cv tx 0 ots)\<rparr>)"
      using l snoc.prems(4) by (intro snoc.IH [OF p]) (simp_all add: ms_out_ids_append)
    ultimately show ?thesis using TxoutToKey by (simp add: ms_out_ids_append is_ms_out_def)
  next
    case (TxoutMultisig k)
    let ?id = "cv_multisig_out_id cv tx (length ots)"
    have st': "bs_outputs st' = bs_outputs st1" and n: "bs_multisig_outs st1 ?id = None" "?id \<noteq> null_hash"
      using q TxoutMultisig by (auto simp: Let_def split: if_splits)
    let ?st2 = "st2\<lparr>bs_multisig_outs := (bs_multisig_outs st2)(?id := None)\<rparr>"
    have ids: "ms_out_ids cv tx 0 (ots @ [ot]) = insert ?id (ms_out_ids cv tx 0 ots)"
      using TxoutMultisig by (auto simp: ms_out_ids_append is_ms_out_def)
    have "pop_outs cv tx t (rev (ots @ [ot])) st2 = pop_outs cv tx t (rev ots) ?st2"
      using TxoutMultisig n(2) snoc.prems(4) [of ?id] ids by (auto simp: Let_def)
    moreover have "?id \<notin> ms_out_ids cv tx 0 ots" using push_outs_success [OF p] n(1) by auto
    then have "bs_multisig_outs ?st2 k \<noteq> None" if "k \<in> ms_out_ids cv tx 0 ots" for k
      using snoc.prems(4) [of k] ids that by auto
    then have "pop_outs cv tx t (rev ots) ?st2 = (True, ?st2\<lparr>bs_outputs := bs_outputs st,
        bs_multisig_outs := bs_multisig_outs ?st2 |` (- ms_out_ids cv tx 0 ots)\<rparr>)"
      using l snoc.prems(3) st' by (intro snoc.IH [OF p]) simp_all
    moreover have "((bs_multisig_outs st2)(?id := None)) |` (- ms_out_ids cv tx 0 ots) =
        bs_multisig_outs st2 |` (- ms_out_ids cv tx 0 (ots @ [ot]))"
      unfolding ids by (rule ext) (simp add: restrict_map_def)
    ultimately show ?thesis by simp
  qed
qed

subsection \<open>The tables of the aliases\<close>

text \<open>No history is empty, and the names of an address are those whose last entry has it.\<close>

definition names_with :: "(bytes \<rightharpoonup> extra_alias_entry_base list) \<Rightarrow> account_public_address \<Rightarrow> bytes set" where
  "names_with al addr = {n. \<exists>h. al n = Some h \<and> m_address (last h) = addr}"

definition addr_table :: "(bytes \<rightharpoonup> extra_alias_entry_base list) \<Rightarrow> account_public_address \<rightharpoonup> bytes set" where
  "addr_table al addr = (if names_with al addr = {} then None else Some (names_with al addr))"

definition aliases_ok :: "blockchain_storage \<Rightarrow> bool" where
  "aliases_ok st \<longleftrightarrow> (\<forall>n. bs_aliases st n \<noteq> Some []) \<and> bs_addr_to_alias st = addr_table (bs_aliases st)"

lemma names_of_ok: "aliases_ok st \<Longrightarrow> names_of addr st = names_with (bs_aliases st) addr"
  by (simp add: aliases_ok_def names_of_def addr_table_def)

lemma history_of_ok:
  assumes "aliases_ok st"
  shows "bs_aliases st n = (if history_of n st = [] then None else Some (history_of n st))"
  using assms by (cases "bs_aliases st n") (auto simp: aliases_ok_def history_of_def)

lemma names_with_upd:
  "names_with (al(n := (if h = [] then None else Some h))) addr =
    (if h \<noteq> [] \<and> m_address (last h) = addr then insert n (names_with al addr) else names_with al addr - {n})"
  by (auto simp: names_with_def)

text \<open>What the two operations leave is in order, and their effect on the histories.\<close>

definition with_aliases :: "(bytes \<rightharpoonup> extra_alias_entry_base list) \<Rightarrow> alias_event list \<Rightarrow> blockchain_storage \<Rightarrow> blockchain_storage" where
  "with_aliases al ev st = st\<lparr>bs_aliases := al, bs_addr_to_alias := addr_table al, bs_alias_events := ev\<rparr>"

lemma with_aliases_ok: "(\<And>n. al n \<noteq> Some []) \<Longrightarrow> aliases_ok (with_aliases al ev st)"
  by (simp add: aliases_ok_def with_aliases_def)

lemma put_names_parts [simp]:
  "bs_aliases (put_names addr ns st) = bs_aliases st" "history_of n (put_names addr ns st) = history_of n st"
  "bs_alias_events (put_names addr ns st) = bs_alias_events st"
  "names_of addr' (put_names addr ns st) = (if addr' = addr then ns else names_of addr' st)"
  by (auto simp: put_names_def history_of_def names_of_def)

lemma put_history_parts [simp]:
  "names_of addr (put_history n h st) = names_of addr st" "bs_alias_events (put_history n h st) = bs_alias_events st"
  "bs_addr_to_alias (put_history n h st) = bs_addr_to_alias st"
  "bs_aliases (put_history n h st) = (bs_aliases st)(n := (if h = [] then None else Some h))"
  by (simp_all add: put_history_def names_of_def)

text \<open>A name leaves an address and comes to another.\<close>

definition name_dropped :: "bytes \<Rightarrow> account_public_address \<Rightarrow> (account_public_address \<rightharpoonup> bytes set) \<Rightarrow> (account_public_address \<rightharpoonup> bytes set)" where
  "name_dropped n a t = (case t a of None \<Rightarrow> t | Some ns \<Rightarrow> t(a := (if ns - {n} = {} then None else Some (ns - {n}))))"

definition name_given :: "bytes \<Rightarrow> account_public_address \<Rightarrow> (account_public_address \<rightharpoonup> bytes set) \<Rightarrow> (account_public_address \<rightharpoonup> bytes set)" where
  "name_given n a t = t(a \<mapsto> insert n (case t a of None \<Rightarrow> {} | Some ns \<Rightarrow> ns))"

definition names_moved :: "account_public_address option \<Rightarrow> account_public_address option \<Rightarrow> bytes \<Rightarrow>
    (account_public_address \<rightharpoonup> bytes set) \<Rightarrow> (account_public_address \<rightharpoonup> bytes set)" where
  "names_moved frm into n t =
     (let t = (case frm of None \<Rightarrow> t | Some a \<Rightarrow> name_dropped n a t)
      in case into of None \<Rightarrow> t | Some a \<Rightarrow> name_given n a t)"

lemma drop_name:
  "(if bs_addr_to_alias st a = None then st else put_names a (names_of a st - {n}) st) =
    st\<lparr>bs_addr_to_alias := name_dropped n a (bs_addr_to_alias st)\<rparr>"
  by (auto simp: name_dropped_def put_names_def names_of_def)

lemma give_name: "put_names a (insert n (names_of a st)) st = st\<lparr>bs_addr_to_alias := name_given n a (bs_addr_to_alias st)\<rparr>"
  by (simp add: name_given_def put_names_def names_of_def)

definition holder :: "extra_alias_entry_base list \<Rightarrow> account_public_address option" where
  "holder h = (if h = [] then None else Some (m_address (last h)))"

lemma names_moved_table:
  assumes "al n = (if h = [] then None else Some h)"
  shows "names_moved (holder h) (holder h') n (addr_table al) = addr_table (al(n := (if h' = [] then None else Some h')))"
proof
  fix a
  have n: "n \<in> names_with al b \<longleftrightarrow> holder h = Some b" for b
    using assms by (auto simp: names_with_def holder_def)
  have u: "names_with (al(n := (if h' = [] then None else Some h'))) b =
      (if holder h' = Some b then insert n (names_with al b) else names_with al b - {n})" for b
    unfolding names_with_upd by (simp add: holder_def)
  show "names_moved (holder h) (holder h') n (addr_table al) a = addr_table (al(n := (if h' = [] then None else Some h'))) a"
    unfolding addr_table_def [of "al(n := _)"] u
    using n by (cases "holder h"; cases "holder h'") (auto simp: names_moved_def name_dropped_def name_given_def addr_table_def Let_def)
qed

lemma with_aliasesI:
  assumes ok: "aliases_ok st" and h: "history_of n st = h"
    and st': "st' = st\<lparr>bs_aliases := (bs_aliases st)(n := (if h' = [] then None else Some h')),
      bs_addr_to_alias := names_moved (holder h) (holder h') n (bs_addr_to_alias st), bs_alias_events := ev\<rparr>"
  shows "st' = with_aliases ((bs_aliases st)(n := (if h' = [] then None else Some h'))) ev st"
proof -
  have "bs_addr_to_alias st = addr_table (bs_aliases st)" using ok by (simp add: aliases_ok_def)
  moreover have "bs_aliases st n = (if h = [] then None else Some h)" using history_of_ok [OF ok, of n] h by simp
  ultimately show ?thesis unfolding st' with_aliases_def by (simp add: names_moved_table del: fun_upd_apply)
qed

lemma put_alias_info_guards:
  "fst (put_alias_info cv ai st) \<longleftrightarrow> m_alias ai \<noteq> [] \<and> (history_of (m_alias ai) st \<noteq> [] \<longrightarrow> length (m_sign ai) = 1 \<and>
    check_signature (cv_alias_sign_hash cv ai) (m_spend_public_key (m_address (last (history_of (m_alias ai) st)))) (last (m_sign ai)))"
  by (simp add: put_alias_info_def Let_def)

lemma put_alias_info_state:
  assumes "fst (put_alias_info cv ai st)"
  shows "\<exists>ev. snd (put_alias_info cv ai st) = st\<lparr>bs_aliases := (bs_aliases st)(m_alias ai := Some (history_of (m_alias ai) st @ [base_of ai])),
      bs_addr_to_alias := names_moved (holder (history_of (m_alias ai) st)) (Some (m_address ai)) (m_alias ai) (bs_addr_to_alias st),
      bs_alias_events := ev\<rparr>"
proof (cases "history_of (m_alias ai) st = []")
  case True
  then have "snd (put_alias_info cv ai st) = st\<lparr>bs_aliases := (bs_aliases st)(m_alias ai := Some (history_of (m_alias ai) st @ [base_of ai])),
      bs_addr_to_alias := names_moved (holder (history_of (m_alias ai) st)) (Some (m_address ai)) (m_alias ai) (bs_addr_to_alias st),
      bs_alias_events := AliasAdded ai # bs_alias_events st\<rparr>"
    using assms [unfolded put_alias_info_guards]
    by (simp add: put_alias_info_def Let_def give_name put_history_def names_moved_def holder_def)
  then show ?thesis by blast
next
  case False
  let ?old = "m_address (last (history_of (m_alias ai) st))"
  have "snd (put_alias_info cv ai st) = st\<lparr>bs_aliases := (bs_aliases st)(m_alias ai := Some (history_of (m_alias ai) st @ [base_of ai])),
      bs_addr_to_alias := names_moved (holder (history_of (m_alias ai) st)) (Some (m_address ai)) (m_alias ai) (bs_addr_to_alias st),
      bs_alias_events := AliasUpdated ai ?old # bs_alias_events st\<rparr>"
    using assms [unfolded put_alias_info_guards] False unfolding put_alias_info_def drop_name
    by (simp add: Let_def give_name put_history_def names_moved_def holder_def del: put_names_parts)
  then show ?thesis by blast
qed

lemma put_alias_info_success:
  assumes ok: "aliases_ok st" and r: "put_alias_info cv ai st = (True, st')"
  obtains ev where
    "st' = with_aliases ((bs_aliases st)(m_alias ai := Some (history_of (m_alias ai) st @ [base_of ai]))) ev st"
    "m_alias ai \<noteq> []"
proof -
  let ?h = "history_of (m_alias ai) st"
  have b: "holder (?h @ [base_of ai]) = Some (m_address ai)" by (simp add: holder_def base_of_def extra_alias_entry_base.defs)
  from r have "fst (put_alias_info cv ai st)" "snd (put_alias_info cv ai st) = st'" by simp_all
  then obtain ev where "st' = st\<lparr>bs_aliases := (bs_aliases st)(m_alias ai := Some (?h @ [base_of ai])),
      bs_addr_to_alias := names_moved (holder ?h) (holder (?h @ [base_of ai])) (m_alias ai) (bs_addr_to_alias st),
      bs_alias_events := ev\<rparr>" using put_alias_info_state b by metis
  then have "st' = with_aliases ((bs_aliases st)(m_alias ai := Some (?h @ [base_of ai]))) ev st"
    using with_aliasesI [OF ok refl, where st' = st' and n = "m_alias ai" and h' = "?h @ [base_of ai]" and ev = ev] by simp
  moreover have "m_alias ai \<noteq> []" using \<open>fst (put_alias_info cv ai st)\<close> put_alias_info_guards by blast
  ultimately show thesis by (intro that)
qed

lemma pop_alias_info_success:
  assumes ok: "aliases_ok st" and n: "m_alias ai \<noteq> []" and h: "history_of (m_alias ai) st = h" "h \<noteq> []"
  shows "pop_alias_info ai st = (True, with_aliases
    ((bs_aliases st)(m_alias ai := (if butlast h = [] then None else Some (butlast h)))) (bs_alias_events st) st)"
proof -
  have "bs_aliases st (m_alias ai) = Some h" using history_of_ok [OF ok, of "m_alias ai"] h by simp
  then have m: "m_alias ai \<in> names_of (m_address (last h)) st" using names_of_ok [OF ok] by (auto simp: names_with_def)
  have "pop_alias_info ai st = (True, st\<lparr>bs_aliases := (bs_aliases st)(m_alias ai := (if butlast h = [] then None else Some (butlast h))),
      bs_addr_to_alias := names_moved (holder h) (holder (butlast h)) (m_alias ai) (bs_addr_to_alias st),
      bs_alias_events := bs_alias_events st\<rparr>)"
    using n h m unfolding pop_alias_info_def drop_name give_name
    by (simp add: Let_def put_history_def names_moved_def holder_def del: put_names_parts)
  then show ?thesis using with_aliasesI [OF ok h(1)] by metis
qed

text \<open>The check of a registration only changes the median that is kept.\<close>

lemma fee_median_state:
  assumes "get_tx_fee_median st = Some (m, st')"
  shows "\<exists>c d. st' = st\<lparr>bs_current_fee_median := c, bs_current_fee_median_effective_index := d\<rparr>"
proof -
  have "st' = st\<lparr>bs_current_fee_median := bs_current_fee_median st',
      bs_current_fee_median_effective_index := bs_current_fee_median_effective_index st'\<rparr>"
    using assms by (auto simp: get_tx_fee_median_def Let_def split: if_splits option.splits)
  then show ?thesis by blast
qed

lemma prevalidate_state:
  assumes "prevalidate_alias_info cv tx ai st = (r, st')"
  shows "\<exists>c d. st' = st\<lparr>bs_current_fee_median := c, bs_current_fee_median_effective_index := d\<rparr>"
proof -
  have same: "\<exists>c d. st = st\<lparr>bs_current_fee_median := c, bs_current_fee_median_effective_index := d\<rparr>"
    by (intro exI [of _ "bs_current_fee_median st"] exI [of _ "bs_current_fee_median_effective_index st"]) simp
  have "\<exists>c d. snd (validate_alias_reward tx (m_alias ai) st) =
      st\<lparr>bs_current_fee_median := c, bs_current_fee_median_effective_index := d\<rparr>"
    using same fee_median_state by (force simp: validate_alias_reward_def get_alias_cost_def Let_def split: option.split)
  moreover have "st' = st \<or> st' = snd (validate_alias_reward tx (m_alias ai) st)"
    using assms by (auto simp: prevalidate_alias_info_def split: if_splits prod.splits bool.splits)
  ultimately show ?thesis using same by blast
qed

lemma extra_processed:
  assumes ok: "aliases_ok st" and r: "process_blockchain_tx_extra cv tx st = (True, st1)"
  obtains al ev c d where "st1 = with_aliases al ev (st\<lparr>bs_current_fee_median := c, bs_current_fee_median_effective_index := d\<rparr>)"
    "\<And>n. al n \<noteq> Some []"
    "\<And>st2. bs_aliases st2 = al \<Longrightarrow> aliases_ok st2 \<Longrightarrow>
      unprocess_blockchain_tx_extra tx st2 = (True, with_aliases (bs_aliases st) (bs_alias_events st2) st2)"
proof (cases "\<exists>ei ai. parse_and_validate_tx_extra tx = Some ei \<and> ei_alias ei = Some ai \<and> m_alias ai \<noteq> []")
  case True
  then obtain ei ai where p: "parse_and_validate_tx_extra tx = Some ei" "ei_alias ei = Some ai" "m_alias ai \<noteq> []" by blast
  then obtain st0 where p0: "prevalidate_alias_info cv tx ai st = (True, st0)" and p1: "put_alias_info cv ai st0 = (True, st1)"
    using r by (auto simp: process_blockchain_tx_extra_def split: if_splits prod.splits bool.splits)
  obtain c d where st0: "st0 = st\<lparr>bs_current_fee_median := c, bs_current_fee_median_effective_index := d\<rparr>"
    using prevalidate_state [OF p0] by blast
  have same: "bs_aliases st0 = bs_aliases st" "history_of n st0 = history_of n st" "aliases_ok st0" for n
    using ok unfolding st0 by (simp_all add: history_of_def aliases_ok_def)
  obtain ev where "st1 = with_aliases ((bs_aliases st0)(m_alias ai := Some (history_of (m_alias ai) st0 @ [base_of ai]))) ev st0"
    by (rule put_alias_info_success [OF same(3) p1])
  then have e: "st1 = with_aliases ((bs_aliases st)(m_alias ai := Some (history_of (m_alias ai) st @ [base_of ai]))) ev
      (st\<lparr>bs_current_fee_median := c, bs_current_fee_median_effective_index := d\<rparr>)"
    unfolding same(1,2) by (simp only: st0)
  show thesis
  proof (rule that [OF e])
    show "((bs_aliases st)(m_alias ai := Some (history_of (m_alias ai) st @ [base_of ai]))) n \<noteq> Some []" for n
      using ok by (simp add: aliases_ok_def)
    fix st2 assume a: "bs_aliases st2 = (bs_aliases st)(m_alias ai := Some (history_of (m_alias ai) st @ [base_of ai]))"
      and ok2: "aliases_ok st2"
    have h: "history_of (m_alias ai) st2 = history_of (m_alias ai) st @ [base_of ai]" by (simp add: history_of_def a)
    have "(bs_aliases st2)(m_alias ai := (if history_of (m_alias ai) st = [] then None else Some (history_of (m_alias ai) st)))
        = bs_aliases st"
      unfolding a by (rule ext) (simp add: history_of_ok [OF ok])
    moreover have "history_of (m_alias ai) st @ [base_of ai] \<noteq> []" by simp
    ultimately have "pop_alias_info ai st2 = (True, with_aliases (bs_aliases st) (bs_alias_events st2) st2)"
      using pop_alias_info_success [OF ok2 p(3) h] by (simp only: butlast_snoc not_False_eq_True simp_thms)
    then show "unprocess_blockchain_tx_extra tx st2 = (True, with_aliases (bs_aliases st) (bs_alias_events st2) st2)"
      using p by (simp add: unprocess_blockchain_tx_extra_def)
  qed
next
  case False
  have st1: "st1 = st" using r False
    by (auto simp: process_blockchain_tx_extra_def split: option.splits if_splits)
  have w: "with_aliases (bs_aliases s) (bs_alias_events s) s = s" if "aliases_ok s" for s
    using that by (simp add: with_aliases_def aliases_ok_def)
  show thesis
  proof (rule that [where al = "bs_aliases st" and ev = "bs_alias_events st" and c = "bs_current_fee_median st" and d = "bs_current_fee_median_effective_index st"])
    show "st1 = with_aliases (bs_aliases st) (bs_alias_events st) (st\<lparr>bs_current_fee_median := bs_current_fee_median st,
        bs_current_fee_median_effective_index := bs_current_fee_median_effective_index st\<rparr>)" using w [OF ok] st1 by simp
    show "bs_aliases st n \<noteq> Some []" for n using ok by (simp add: aliases_ok_def)
    fix st2 assume a: "bs_aliases st2 = bs_aliases st" and ok2: "aliases_ok st2"
    have "parse_and_validate_tx_extra tx \<noteq> None"
      using r by (auto simp: process_blockchain_tx_extra_def split: option.splits)
    then have "unprocess_blockchain_tx_extra tx st2 = (True, st2)"
      using False by (auto simp: unprocess_blockchain_tx_extra_def split: option.splits)
    then show "unprocess_blockchain_tx_extra tx st2 = (True, with_aliases (bs_aliases st) (bs_alias_events st2) st2)"
      using w [OF ok2] a by simp
  qed
qed

subsection \<open>A transaction that goes off again\<close>

text \<open>The tables without the blocks, the events and the pool.\<close>

definition same_tables :: "blockchain_storage \<Rightarrow> blockchain_storage \<Rightarrow> bool" where
  "same_tables st st' \<longleftrightarrow> bs_transactions st = bs_transactions st' \<and> bs_spent_keys st = bs_spent_keys st' \<and>
     bs_outputs st = bs_outputs st' \<and> bs_multisig_outs st = bs_multisig_outs st' \<and>
     bs_aliases st = bs_aliases st' \<and> bs_addr_to_alias st = bs_addr_to_alias st'"

definition same_blocks :: "blockchain_storage \<Rightarrow> blockchain_storage \<Rightarrow> bool" where
  "same_blocks st st' \<longleftrightarrow> bs_blocks st = bs_blocks st' \<and> bs_blocks_index st = bs_blocks_index st' \<and>
     bs_per_block_gindex_incs st = bs_per_block_gindex_incs st'"

text \<open>No output that the transaction refers to is marked as spent: what check_tx_inputs makes sure of.\<close>

definition inputs_unspent :: "transaction \<Rightarrow> blockchain_storage \<Rightarrow> bool" where
  "inputs_unspent tx st \<longleftrightarrow> (\<forall>i \<in> set (vin tx). flag_at (bs_transactions st) (marked_output st i) \<noteq> Some True \<and>
     (case ms_id_of i of None \<Rightarrow> True | Some k \<Rightarrow>
        (case bs_multisig_outs st k of None \<Rightarrow> True | Some m \<Rightarrow> mo_spent_height m = 0)))"

lemma add_transaction_success:
  assumes "add_transaction_from_block cv tx tx_id bl_id h ts st = (True, st')"
  obtains st1 st2 gi st3 where "process_blockchain_tx_extra cv tx st = (True, st1)"
    "add_inputs h (vin tx) (st1\<lparr>bs_services := process_blockchain_tx_attachments tx h bl_id ts (bs_services st1)\<rparr>) = (True, st2)"
    "bs_transactions st2 tx_id = None" "push_outs cv tx tx_id 0 (vout tx) [] st2 = (True, gi, st3)"
    "st' = st3\<lparr>bs_transactions := (bs_transactions st3)(tx_id \<mapsto>
       \<lparr>tce_tx = tx, tce_keeper_block_height = h, tce_global_output_indexes = gi,
        tce_spent_flags = replicate (length (vout tx)) False\<rparr>)\<rparr>"
  using assms
  by (auto simp: add_transaction_from_block_def push_transaction_to_global_outs_index_def Let_def
      split: if_splits prod.splits bool.splits)

lemma tx_shape_without: "tx_shape (m(t := None)) = (tx_shape m)(t := None)"
  by (rule ext) (simp add: tx_shape_def)

lemma tx_shape_with: "tx_shape (m(t \<mapsto> e)) = (tx_shape m)(t \<mapsto> (e\<lparr>tce_spent_flags := []\<rparr>, length (tce_spent_flags e)))"
  by (rule ext) (simp add: tx_shape_def)

lemma flag_at_without: "flag_at (m(t := None)) x = (if \<exists>n. x = Some (t, n) then None else flag_at m x)"
  by (auto simp: flag_at_def split: option.split)

lemma flag_at_with: "\<forall>n. x \<noteq> Some (t, n) \<Longrightarrow> flag_at (m(t \<mapsto> e)) x = flag_at m x"
  by (auto simp: flag_at_def split: option.split)

lemma flag_at_dom: "flag_at m (Some (t, n)) \<noteq> None \<Longrightarrow> m t \<noteq> None"
  by (auto simp: flag_at_def split: option.splits)

text \<open>An output that an input refers to keeps its place when outputs are added.\<close>

lemma marked_output_stable:
  assumes "flag_at m (marked_output st i) \<noteq> None"
    and "\<And>a. \<exists>new. bs_outputs st' a = bs_outputs st a @ new"
    and "\<And>k e. bs_multisig_outs st k = Some e \<Longrightarrow>
      \<exists>e'. bs_multisig_outs st' k = Some e' \<and> mo_tx_id e' = mo_tx_id e \<and> mo_out_no e' = mo_out_no e"
  shows "marked_output st' i = marked_output st i"
proof (cases i)
  case (TxinGen g)
  then show ?thesis by (simp add: marked_output_def)
next
  case (TxinToKey k)
  obtain new where n: "bs_outputs st' (tk_amount k) = bs_outputs st (tk_amount k) @ new" using assms(2) by blast
  from assms(1) have "marked_output st i \<noteq> None" by (metis flag_at_None)
  then show ?thesis using TxinToKey n
    by (auto simp: marked_output_def nth_append split: txout_v.splits if_splits)
next
  case (TxinMultisig ms)
  from assms(1) have "marked_output st i \<noteq> None" by (metis flag_at_None)
  then obtain e where "bs_multisig_outs st (ms_multisig_out_id ms) = Some e"
    using TxinMultisig by (auto simp: marked_output_def)
  then show ?thesis using TxinMultisig assms(3) by (fastforce simp: marked_output_def)
qed

text \<open>An input that marks nothing has no target.\<close>

lemma unmarked_output: "\<not> marks i \<Longrightarrow> marked_output st i = None"
  by (simp add: marks_def marked_output_def split: txin_v.splits)

text \<open>The inputs of an added transaction can be purged, whatever outputs came after them.\<close>

lemma added_inputs_purged:
  assumes add: "add_inputs h is st = (True, st2)" and un: "\<forall>i \<in> set is. flag_at (bs_transactions st) (marked_output st i) \<noteq> Some True"
    and ms: "\<And>i k m. i \<in> set is \<Longrightarrow> ms_id_of i = Some k \<Longrightarrow> bs_multisig_outs st k = Some m \<Longrightarrow> mo_spent_height m = 0"
    and fresh: "bs_transactions st2 t = None"
    and X: "bs_spent_keys X = bs_spent_keys st2" "bs_transactions X = (bs_transactions st2)(t \<mapsto> e)"
      "\<And>a. \<exists>new. bs_outputs X a = bs_outputs st2 a @ new"
      "\<And>k m. bs_multisig_outs st2 k = Some m \<Longrightarrow> bs_multisig_outs X k = Some m"
  obtains ks mo txs where "purge_inputs True is X = (True, with_tables ks mo txs X)"
    "ks = bs_spent_keys st" "txs(t := None) = bs_transactions st"
    "\<And>k. mo k = None \<longleftrightarrow> bs_multisig_outs X k = None"
    "\<And>k. bs_multisig_outs st k \<noteq> None \<Longrightarrow> mo k = bs_multisig_outs st k"
proof -
  obtain txs2 where a:
    "st2 = with_tables (fold (set_image (Some h)) is (bs_spent_keys st)) (fold (set_ms_height (ucast h)) is (bs_multisig_outs st)) txs2 st"
    "tx_shape txs2 = tx_shape (bs_transactions st)"
    "\<And>x. x \<notin> marked_output st ` set is \<Longrightarrow> flag_at txs2 x = flag_at (bs_transactions st) x"
    "distinct (input_images is)" "\<And>k. k \<in> set (input_images is) \<Longrightarrow> bs_spent_keys st k = None"
    "\<And>i. i \<in> set is \<Longrightarrow> marks i \<Longrightarrow> flag_at (bs_transactions st) (marked_output st i) \<noteq> None"
    using add_inputs_success [OF add] by metis
  have t2: "bs_transactions st2 = txs2" "bs_outputs st2 = bs_outputs st"
    "bs_multisig_outs st2 = fold (set_ms_height (ucast h)) is (bs_multisig_outs st)"
    "bs_spent_keys st2 = fold (set_image (Some h)) is (bs_spent_keys st)"
    unfolding a(1) by (simp_all add: with_tables_def)
  have fresh0: "bs_transactions st t = None" using fresh a(2) tx_shape_dom t2(1) by metis
  have same: "marked_output X i = marked_output st i" if "i \<in> set is" for i
  proof (cases "marks i")
    case True
    show ?thesis
    proof (rule marked_output_stable [OF a(6) [OF that True]])
      show "\<exists>new. bs_outputs X a = bs_outputs st a @ new" for a using X(3) [of a] t2(2) by simp
      fix k e assume "bs_multisig_outs st k = Some e"
      then have "\<exists>e'. bs_multisig_outs st2 k = Some e' \<and> mo_tx_id e' = mo_tx_id e \<and> mo_out_no e' = mo_out_no e"
        by (auto simp: t2(3) set_ms_height_fold)
      then show "\<exists>e'. bs_multisig_outs X k = Some e' \<and> mo_tx_id e' = mo_tx_id e \<and> mo_out_no e' = mo_out_no e"
        using X(4) by blast
    qed
  qed (simp add: unmarked_output)
  have other: "\<forall>n. x \<noteq> Some (t, n)" if "flag_at (bs_transactions st) x \<noteq> None" for x
    using that fresh0 flag_at_dom by metis
  have known: "flag_at txs2 x = None \<longleftrightarrow> flag_at (bs_transactions st) x = None" for x
  proof (cases x)
    case (Some tn)
    obtain t' n where tn: "tn = (t', n)" by force
    have s: "tx_shape txs2 t' = tx_shape (bs_transactions st) t'" using a(2) by simp
    then show ?thesis unfolding Some tn
      by (cases "txs2 t'"; cases "bs_transactions st t'") (simp_all add: flag_at_def tx_shape_def)
  qed simp
  have flagX: "flag_at (bs_transactions X) (marked_output X i) \<noteq> None" if "i \<in> set is" "marks i" for i
  proof -
    have f: "flag_at (bs_transactions st) (marked_output st i) \<noteq> None" by (rule a(6) [OF that])
    have "flag_at (bs_transactions X) (marked_output st i) = flag_at txs2 (marked_output st i)"
      unfolding X(2) t2(1) by (rule flag_at_with [OF other [OF f]])
    then show ?thesis using f known same [OF that(1)] by metis
  qed
  have im: "bs_spent_keys X k \<noteq> None" if "k \<in> set (input_images is)" for k
    using that by (simp add: X(1) t2(4) set_image_fold_Some)
  obtain txs where p:
    "purge_inputs True is X = (True, with_tables (fold (set_image None) is (bs_spent_keys X)) (fold (set_ms_height 0) is (bs_multisig_outs X)) txs X)"
    "tx_shape txs = tx_shape (bs_transactions X)"
    "\<And>x. flag_at txs x = (if x \<in> marked_output X ` set is \<and> flag_at (bs_transactions X) x \<noteq> None then Some False
       else flag_at (bs_transactions X) x)"
    using purge_inputs_success [OF a(4) im flagX] by metis
  show thesis
  proof (rule that [OF p(1)])
    show "fold (set_image None) is (bs_spent_keys X) = bs_spent_keys st"
      by (rule ext) (simp add: set_image_fold_None X(1) t2(4) set_image_fold_Some a(5))
    show "txs(t := None) = bs_transactions st"
    proof (rule transactions_eqI)
      show "tx_shape (txs(t := None)) = tx_shape (bs_transactions st)"
        unfolding tx_shape_without p(2) X(2) t2(1) tx_shape_with a(2)
        by (rule ext) (simp add: tx_shape_def fresh0)
      fix x
      show "flag_at (txs(t := None)) x = flag_at (bs_transactions st) x"
      proof (cases "\<exists>n. x = Some (t, n)")
        case True
        then show ?thesis using other [of x] by (cases "flag_at (bs_transactions st) x") (auto simp: flag_at_without)
      next
        case False
        then have xX: "flag_at (bs_transactions X) x = flag_at txs2 x" unfolding X(2) t2(1) by (intro flag_at_with) blast
        have "marked_output X ` set is = marked_output st ` set is" using same by simp
        then have "flag_at txs x = flag_at (bs_transactions st) x"
          unfolding p(3) xX using known [of x] a(3) [of x] un by auto
        then show ?thesis using False by (simp add: flag_at_without)
      qed
    qed
    show "fold (set_ms_height 0) is (bs_multisig_outs X) k = None \<longleftrightarrow> bs_multisig_outs X k = None" for k
      by (simp add: set_ms_height_fold)
    show "fold (set_ms_height 0) is (bs_multisig_outs X) k = bs_multisig_outs st k" if there: "bs_multisig_outs st k \<noteq> None" for k
    proof -
      obtain m where m: "bs_multisig_outs st k = Some m" using there by blast
      have z: "m\<lparr>mo_spent_height := 0\<rparr> = m" if "mo_spent_height m = 0" using that by (cases m) simp
      show ?thesis
      proof (cases "Some k \<in> ms_id_of ` set is")
        case True
        then have "bs_multisig_outs X k = Some (m\<lparr>mo_spent_height := ucast h\<rparr>)"
          by (intro X(4)) (simp add: t2(3) set_ms_height_fold m)
        moreover obtain i where "i \<in> set is" "ms_id_of i = Some k" using True by (metis imageE)
        then have "mo_spent_height m = 0" by (rule ms [OF _ _ m])
        ultimately show ?thesis using True z m by (simp add: set_ms_height_fold)
      next
        case False
        then have "bs_multisig_outs X k = Some m"
          by (intro X(4)) (simp add: t2(3) set_ms_height_fold m)
        then show ?thesis using False m by (simp add: set_ms_height_fold)
      qed
    qed
  qed
qed

lemma with_aliases_parts [simp]:
  "bs_transactions (with_aliases al ev st) = bs_transactions st" "bs_spent_keys (with_aliases al ev st) = bs_spent_keys st"
  "bs_outputs (with_aliases al ev st) = bs_outputs st" "bs_multisig_outs (with_aliases al ev st) = bs_multisig_outs st"
  "bs_services (with_aliases al ev st) = bs_services st" "bs_blocks (with_aliases al ev st) = bs_blocks st"
  "bs_blocks_index (with_aliases al ev st) = bs_blocks_index st" "bs_tx_pool (with_aliases al ev st) = bs_tx_pool st"
  "bs_per_block_gindex_incs (with_aliases al ev st) = bs_per_block_gindex_incs st"
  "bs_aliases (with_aliases al ev st) = al" "bs_addr_to_alias (with_aliases al ev st) = addr_table al"
  by (simp_all add: with_aliases_def)

lemma with_tables_parts [simp]:
  "bs_transactions (with_tables ks ms txs st) = txs" "bs_spent_keys (with_tables ks ms txs st) = ks"
  "bs_outputs (with_tables ks ms txs st) = bs_outputs st" "bs_multisig_outs (with_tables ks ms txs st) = ms"
  "bs_services (with_tables ks ms txs st) = bs_services st" "bs_blocks (with_tables ks ms txs st) = bs_blocks st"
  "bs_blocks_index (with_tables ks ms txs st) = bs_blocks_index st" "bs_tx_pool (with_tables ks ms txs st) = bs_tx_pool st"
  "bs_per_block_gindex_incs (with_tables ks ms txs st) = bs_per_block_gindex_incs st"
  "bs_aliases (with_tables ks ms txs st) = bs_aliases st" "bs_addr_to_alias (with_tables ks ms txs st) = bs_addr_to_alias st"
  by (simp_all add: with_tables_def)

text \<open>The state of the pool after a transaction came back to it; a pool that refuses it makes the purge fail.\<close>

definition pool_takes :: "chain_view \<Rightarrow> transaction \<Rightarrow> bool \<Rightarrow> bool" where
  "pool_takes cv tx add_to_pool \<longleftrightarrow> (add_to_pool \<and> \<not> is_coinbase tx \<longrightarrow> (\<forall>st. fst (pool_add_from_chain cv tx 0 st)))"

definition fresh_for :: "market_view \<Rightarrow> chain_entry \<Rightarrow> bc_offers_service \<Rightarrow> blockchain_storage \<Rightarrow> bool" where
  "fresh_for mv e s st \<longleftrightarrow> inputs_unspent (ce_tx e) st \<and> length (vout (ce_tx e)) \<le> 2 ^ 32 \<and> length (attachment (ce_tx e)) < 2 ^ 64 \<and>
     tx_accepts mv e s"

lemma purge_steps:
  assumes "bs_transactions st t = Some e" "tce_tx e = tx" "purge_inputs True (vin tx) st = (True, st1)"
    and "unprocess_blockchain_tx_extra tx st1 = (True, st2)"
    and "(if p \<and> \<not> is_coinbase tx then pool_add_from_chain cv tx 0 (st2\<lparr>bs_services := sv\<rparr>) else (True, bs_tx_pool st2)) = (True, pl)"
    and "unprocess_blockchain_tx_attachments tx (get_current_blockchain_size st2) 0 (bs_services st2) = sv"
    and "pop_outs cv tx t (rev (vout tx)) (st2\<lparr>bs_services := sv, bs_tx_pool := pl\<rparr>) = (res, st3)"
  shows "purge_transaction_from_blockchain cv t p st =
    (res, get_tx_fee_or_zero tx, st3\<lparr>bs_transactions := (bs_transactions st3)(t := None)\<rparr>)"
  unfolding purge_transaction_from_blockchain_def purge_transaction_keyimages_from_blockchain_def
    pop_transaction_from_global_index_def assms(1)
  using assms(2-7) by (simp add: Let_def split del: if_split cong: if_cong)

lemma purge_undoes_add:
  assumes add: "add_transaction_from_block cv (ce_tx e) t bl_id (ce_height e) (ce_time e) st = (True, st')"
    and ok: "aliases_ok st" and serv: "bs_services st = with_market mv s" and fresh: "fresh_for mv e s st"
    and X: "same_tables X st'" "bs_services X = with_market mv s'" "same_market s' (tx_push mv e s)"
    and ph: "ce_pop_height e = get_current_blockchain_size X" and pool: "pool_takes cv (ce_tx e) p"
  shows "\<exists>Y s2. purge_transaction_from_blockchain cv t p X = (True, get_tx_fee_or_zero (ce_tx e), Y) \<and> same_tables Y st \<and>
    same_blocks Y X \<and> bs_services Y = with_market mv s2 \<and> same_market s2 s \<and> (\<not> p \<longrightarrow> bs_tx_pool Y = bs_tx_pool X)"
proof -
  let ?tx = "ce_tx e"
  obtain st1 st2 gi st3 where a: "process_blockchain_tx_extra cv ?tx st = (True, st1)"
    and ai: "add_inputs (ce_height e) (vin ?tx) (st1\<lparr>bs_services := process_blockchain_tx_attachments ?tx (ce_height e) bl_id (ce_time e) (bs_services st1)\<rparr>) = (True, st2)"
    and n: "bs_transactions st2 t = None" and po: "push_outs cv ?tx t 0 (vout ?tx) [] st2 = (True, gi, st3)"
    and st': "st' = st3\<lparr>bs_transactions := (bs_transactions st3)(t \<mapsto>
       \<lparr>tce_tx = ?tx, tce_keeper_block_height = ce_height e, tce_global_output_indexes = gi,
        tce_spent_flags = replicate (length (vout ?tx)) False\<rparr>)\<rparr>" (is "_ = st3\<lparr>bs_transactions := (bs_transactions st3)(t \<mapsto> ?e)\<rparr>")
    by (rule add_transaction_success [OF add])
  obtain al ev c d where al: "st1 = with_aliases al ev (st\<lparr>bs_current_fee_median := c, bs_current_fee_median_effective_index := d\<rparr>)" "\<And>n. al n \<noteq> Some []"
    "\<And>st2. bs_aliases st2 = al \<Longrightarrow> aliases_ok st2 \<Longrightarrow>
      unprocess_blockchain_tx_extra ?tx st2 = (True, with_aliases (bs_aliases st) (bs_alias_events st2) st2)"
    by (rule extra_processed [OF ok a]) blast
  let ?st1 = "st1\<lparr>bs_services := process_blockchain_tx_attachments ?tx (ce_height e) bl_id (ce_time e) (bs_services st1)\<rparr>"
  obtain outs ms where o3: "st3 = st2\<lparr>bs_outputs := outs, bs_multisig_outs := ms\<rparr>" "\<And>a. \<exists>new. outs a = bs_outputs st2 a @ new"
    "\<And>k. k \<in> ms_out_ids cv ?tx 0 (vout ?tx) \<Longrightarrow> bs_multisig_outs st2 k = None \<and> ms k \<noteq> None"
    "\<And>k. k \<notin> ms_out_ids cv ?tx 0 (vout ?tx) \<Longrightarrow> ms k = bs_multisig_outs st2 k"
    using push_outs_success [OF po] by blast
  have X1: "bs_spent_keys X = bs_spent_keys st2" "bs_transactions X = (bs_transactions st2)(t \<mapsto> ?e)" "bs_outputs X = outs"
    "bs_multisig_outs X = ms" "bs_aliases X = bs_aliases st2" "bs_addr_to_alias X = bs_addr_to_alias st2"
    using X(1) unfolding st' o3(1) same_tables_def by simp_all
  obtain txs2 where w2: "st2 = with_tables (fold (set_image (Some (ce_height e))) (vin ?tx) (bs_spent_keys ?st1))
      (fold (set_ms_height (ucast (ce_height e))) (vin ?tx) (bs_multisig_outs ?st1)) txs2 ?st1"
    using add_inputs_success [OF ai] by metis
  have st1: "bs_spent_keys ?st1 = bs_spent_keys st" "bs_transactions ?st1 = bs_transactions st" "bs_outputs ?st1 = bs_outputs st"
    "bs_multisig_outs ?st1 = bs_multisig_outs st" "marked_output ?st1 i = marked_output st i" for i
    unfolding al(1) by (simp_all add: marked_output_def split: txin_v.split txout_v.split)
  have st2: "bs_outputs st2 = bs_outputs st" "bs_aliases st2 = al" "bs_addr_to_alias st2 = addr_table al"
    "bs_multisig_outs st2 = fold (set_ms_height (ucast (ce_height e))) (vin ?tx) (bs_multisig_outs st)"
    unfolding w2 al(1) by simp_all
  have okX: "aliases_ok X" using al(2) by (simp add: aliases_ok_def X1 st2)
  obtain ks mo txs where p: "purge_inputs True (vin ?tx) X = (True, with_tables ks mo txs X)"
    "ks = bs_spent_keys ?st1" "txs(t := None) = bs_transactions ?st1"
    "\<And>k. mo k = None \<longleftrightarrow> bs_multisig_outs X k = None"
    "\<And>k. bs_multisig_outs ?st1 k \<noteq> None \<Longrightarrow> mo k = bs_multisig_outs ?st1 k"
  proof (rule added_inputs_purged [OF ai, where X = X and t = t and e = ?e])
    show "\<forall>i \<in> set (vin ?tx). flag_at (bs_transactions ?st1) (marked_output ?st1 i) \<noteq> Some True"
      using fresh unfolding st1 by (simp add: fresh_for_def inputs_unspent_def)
    show "mo_spent_height m = 0" if "i \<in> set (vin ?tx)" "ms_id_of i = Some k" "bs_multisig_outs ?st1 k = Some m" for i k m
      using fresh that unfolding st1 by (force simp: fresh_for_def inputs_unspent_def)
    show "bs_transactions st2 t = None" by (rule n)
    show "\<exists>new. bs_outputs X a = bs_outputs st2 a @ new" for a using o3(2) X1(3) by simp
    show "bs_multisig_outs X k = Some m" if "bs_multisig_outs st2 k = Some m" for k m
      using that o3(3,4) [of k] X1(4) by force
  qed (use X1 in blast)+
  let ?Y1 = "with_aliases (bs_aliases st) (bs_alias_events X) (with_tables ks mo txs X)"
  have e1: "unprocess_blockchain_tx_extra ?tx (with_tables ks mo txs X) = (True, ?Y1)"
    using al(3) [of "with_tables ks mo txs X"] okX by (simp add: X1 st2 aliases_ok_def) (simp add: with_tables_def)
  have m: "unprocess_blockchain_tx_attachments ?tx (get_current_blockchain_size ?Y1) 0 (bs_services ?Y1) = with_market mv (tx_pop mv e s')"
    using unprocess_is_pop [of e 0 mv s'] fresh ph X(2) by (simp add: fresh_for_def get_current_blockchain_size_def)
  have sm: "same_market (tx_pop mv e s') s"
    using tx_log.pop_same [OF X(3)] tx_log.pop_push fresh same_market_trans unfolding fresh_for_def by blast
  let ?Y2 = "?Y1\<lparr>bs_services := with_market mv (tx_pop mv e s')\<rparr>"
  obtain pl where pl: "(if p \<and> \<not> is_coinbase ?tx then pool_add_from_chain cv ?tx 0 ?Y2 else (True, bs_tx_pool ?Y1)) = (True, pl)"
    "\<not> p \<longrightarrow> pl = bs_tx_pool ?Y1"
  proof (cases "p \<and> \<not> is_coinbase ?tx")
    case True
    then have "fst (pool_add_from_chain cv ?tx 0 ?Y2)" using pool unfolding pool_takes_def by blast
    then show thesis using True that [of "snd (pool_add_from_chain cv ?tx 0 ?Y2)"] by (simp add: prod_eq_iff)
  next
    case False
    show thesis by (rule that [of "bs_tx_pool ?Y1"]) (use False in auto)
  qed
  let ?Y3 = "?Y1\<lparr>bs_services := with_market mv (tx_pop mv e s'), bs_tx_pool := pl\<rparr>"
  have l: "length (vout ?tx) \<le> 2 ^ 32" using fresh by (simp add: fresh_for_def)
  have po3: "pop_outs cv ?tx t (rev (vout ?tx)) ?Y3 = (True, ?Y3\<lparr>bs_outputs := bs_outputs st2,
      bs_multisig_outs := bs_multisig_outs ?Y3 |` (- ms_out_ids cv ?tx 0 (vout ?tx))\<rparr>)"
    using o3(3) p(4) by (intro pop_push_outs [OF po l]) (simp_all add: o3(1) X1)
  let ?Y = "?Y3\<lparr>bs_outputs := bs_outputs st2, bs_multisig_outs := mo |` (- ms_out_ids cv ?tx 0 (vout ?tx)),
      bs_transactions := txs(t := None)\<rparr>"
  have "purge_transaction_from_blockchain cv t p X = (True, get_tx_fee_or_zero ?tx, ?Y)"
    using purge_steps [OF _ _ p(1) e1 pl(1) m po3, where e = "?e"] by (simp add: X1(2))
  moreover have "mo |` (- ms_out_ids cv ?tx 0 (vout ?tx)) = bs_multisig_outs st"
  proof
    fix k
    show "(mo |` (- ms_out_ids cv ?tx 0 (vout ?tx))) k = bs_multisig_outs st k"
    proof (cases "k \<in> ms_out_ids cv ?tx 0 (vout ?tx)")
      case True
      then have "bs_multisig_outs st k = None" using o3(3) [of k] by (simp add: st2 set_ms_height_fold split: if_splits)
      then show ?thesis using True by simp
    next
      case False
      show ?thesis
      proof (cases "bs_multisig_outs st k")
        case None
        then have "ms k = None" using o3(4) [OF False] by (simp add: st2 set_ms_height_fold)
        then show ?thesis using None p(4) [of k] X1(4) by (simp add: restrict_map_def)
      qed (use False p(5) [of k] st1 in simp)
    qed
  qed
  then have "same_tables ?Y st"
    using ok p(2,3) unfolding st1 by (simp add: same_tables_def st2 aliases_ok_def)
  moreover have "same_blocks ?Y X" by (simp add: same_blocks_def)
  moreover have "\<not> p \<longrightarrow> bs_tx_pool ?Y = bs_tx_pool X" using pl(2) by simp
  moreover have "bs_services ?Y = with_market mv (tx_pop mv e s')" by simp
  ultimately show ?thesis using sm by blast
qed

end
