(* ===== verification/ChainBlocks.thy ===== *)
theory ChainBlocks
  imports ChainInputs ChainLaws BlockReward HexText
begin

section \<open>Blocks of the main chain (blockchain_storage)\<close>

text \<open>
  What a block has to satisfy to become the top of the main chain, what its addition does to the store, and how it comes off
  again: the checks of its time, of its difficulty and its proof (work or stake), of the transaction of the miner and of the
  other transactions, the entry that is appended, and the paths on which a failure takes back the transactions added so far.
\<close>

subsection \<open>Context and constants\<close>

record block_verification_context =
  bv_added_to_main_chain :: bool
  bv_verification_failed :: bool
  bv_marked_as_orphaned :: bool
  bv_already_exists :: bool
  bv_added_to_altchain :: bool
  bv_height_difference :: u64

definition CURRENCY_BLOCK_FUTURE_TIME_LIMIT :: u64 where "CURRENCY_BLOCK_FUTURE_TIME_LIMIT = 60 * 60 * 2"
definition CURRENCY_POS_BLOCK_FUTURE_TIME_LIMIT :: u64 where "CURRENCY_POS_BLOCK_FUTURE_TIME_LIMIT = 60 * 20"
definition CURRENCY_MINED_MONEY_UNLOCK_WINDOW :: u64 where "CURRENCY_MINED_MONEY_UNLOCK_WINDOW = 10"
definition CURRENCY_REWARD_BLOCKS_WINDOW :: nat where "CURRENCY_REWARD_BLOCKS_WINDOW = 400"
definition ALIAS_COST_PERIOD :: u64 where "ALIAS_COST_PERIOD = CURRENCY_BLOCKS_PER_DAY * 7"
definition POS_SCAN_WINDOW :: u64 where "POS_SCAN_WINDOW = 60 * 10"
definition POS_SCAN_STEP :: u64 where "POS_SCAN_STEP = 15"
definition POS_MAC_ACTUAL_TIMESTAMP_TO_MINED :: u64 where "POS_MAC_ACTUAL_TIMESTAMP_TO_MINED = POS_SCAN_WINDOW + 100"
definition POS_STARTER_KERNEL_HASH :: bytes where
  "POS_STARTER_KERNEL_HASH = map of_char ''bd82e18d42a7ad239588b24fd356d63cc82717e1fae8f6a492cd25d62fda263f''"
definition get_tx_minimum_fee :: "u64 \<Rightarrow> u64" where "get_tx_minimum_fee bl_height = 1000000"

text \<open>A check either throws, or rejects, or passes with a result.\<close>

datatype 'a checked = Thrown | Rejected | Passed 'a

subsection \<open>Looking at the chain\<close>

definition get_top_block_id :: "chain_view \<Rightarrow> blockchain_storage \<Rightarrow> hash" where
  "get_top_block_id cv st = (if bs_blocks st = [] then null_hash else cv_block_hash cv (bei_bl (last (bs_blocks st))))"

definition get_block_id_by_height :: "chain_view \<Rightarrow> u64 \<Rightarrow> blockchain_storage \<Rightarrow> hash" where
  "get_block_id_by_height cv bl_height st =
     (if length (bs_blocks st) \<le> unat bl_height then null_hash else cv_block_hash cv (bei_bl (bs_blocks st ! unat bl_height)))"

definition checked_get_height_by_id :: "hash \<Rightarrow> blockchain_storage \<Rightarrow> u64 option" where
  "checked_get_height_by_id bl_id st =
     (case bs_blocks_index st bl_id of
        None \<Rightarrow> None
      | Some h \<Rightarrow> if length (bs_blocks st) \<le> unat h then None else Some h)"

definition have_block :: "hash \<Rightarrow> blockchain_storage \<Rightarrow> bool" where
  "have_block bl_id st \<longleftrightarrow> bs_blocks_index st bl_id \<noteq> None \<or> bs_alternative_chains st bl_id \<noteq> None \<or> bs_invalid_blocks st bl_id \<noteq> None"

definition total_coins :: "blockchain_storage \<Rightarrow> u64" where
  "total_coins st = (if bs_blocks st = [] then 0 else bei_already_generated_coins (last (bs_blocks st)))"

text \<open>
  The last blocks carry their heights and the hashes of those before them. The second attempt, with the caches of the database
  emptied, sees the same tables.
\<close>

definition prev_link_ok :: "chain_view \<Rightarrow> block_extended_info list \<Rightarrow> nat \<Rightarrow> bool" where
  "prev_link_ok cv bs bl_height \<longleftrightarrow> bei_height (bs ! bl_height) = of_nat bl_height \<and>
     prev_id (bei_bl (bs ! bl_height)) = cv_block_hash cv (bei_bl (bs ! (bl_height - 1)))"

definition validate_blockchain_prev_links :: "chain_view \<Rightarrow> nat \<Rightarrow> blockchain_storage \<Rightarrow> bool" where
  "validate_blockchain_prev_links cv last_n_blocks_to_check st \<longleftrightarrow>
     (if length (bs_blocks st) < 2 \<or> last_n_blocks_to_check < 1 then True
      else list_all (prev_link_ok cv (bs_blocks st))
        [max 1 (length (bs_blocks st) - last_n_blocks_to_check)..<length (bs_blocks st)])"

text \<open>
  The blocks that \<open>enum_blockchain\<close> shows to its visitor, as far as the visitor goes on: the alternative chain from its head
  down, then the main chain from the block before the split down to height 1. An alternative chain is a list of the entries
  that the iterators point at, with their keys.
\<close>

type_synonym alt_chain = "(hash \<times> alt_block_extended_info) list"

definition alt_bei :: "hash \<times> alt_block_extended_info \<Rightarrow> block_extended_info" where
  "alt_bei e = block_extended_info.truncate (snd e)"

definition enum_blockchain :: "alt_chain \<Rightarrow> u64 \<Rightarrow> blockchain_storage \<Rightarrow> block_extended_info list" where
  "enum_blockchain alts split_height st =
     rev (map alt_bei alts) @
     (if bs_blocks st = [] then []
      else let main_chain_start_offset =
                 (if split_height \<noteq> 0 then unat split_height - 1
                  else (if alts \<noteq> [] then unat (bei_height (snd (hd alts))) else length (bs_blocks st)) - 1)
           in rev (drop 1 (take (main_chain_start_offset + 1) (bs_blocks st))))"

definition get_last_block_of_type :: "bool \<Rightarrow> alt_chain \<Rightarrow> u64 \<Rightarrow> blockchain_storage \<Rightarrow> block_extended_info option" where
  "get_last_block_of_type looking_for_pos alts split_height st =
     List.find (\<lambda>bei. is_pos_block (bei_bl bei) = looking_for_pos) (enum_blockchain alts split_height st)"

subsection \<open>Times\<close>

definition get_adjusted_time :: "chain_view \<Rightarrow> u64" where
  "get_adjusted_time cv = cv_core_time cv"

definition check_block_timestamp :: "chain_view \<Rightarrow> u64 list \<Rightarrow> block \<Rightarrow> bool" where
  "check_block_timestamp cv timestamps b \<longleftrightarrow>
     (if length timestamps < BLOCKCHAIN_TIMESTAMP_CHECK_WINDOW then True
      else if is_pos_block b \<and> get_adjusted_time cv + CURRENCY_POS_BLOCK_FUTURE_TIME_LIMIT < timestamp b then False
      else \<not> timestamp b < median timestamps)"

definition check_block_timestamp_main :: "chain_view \<Rightarrow> block \<Rightarrow> blockchain_storage \<Rightarrow> bool" where
  "check_block_timestamp_main cv b st \<longleftrightarrow>
     (if get_adjusted_time cv + CURRENCY_BLOCK_FUTURE_TIME_LIMIT < timestamp b then False
      else if is_pos_block b \<and> get_adjusted_time cv + CURRENCY_POS_BLOCK_FUTURE_TIME_LIMIT < timestamp b then False
      else check_block_timestamp cv (get_last_n_blocks_timestamps BLOCKCHAIN_TIMESTAMP_CHECK_WINDOW st) b)"

subsection \<open>Difficulties\<close>

text \<open>The blocks of a kind, the last ones first and without the genesis block, and at most as many as the window holds.\<close>

definition difficulty_blocks :: "bool \<Rightarrow> block_extended_info list \<Rightarrow> block_extended_info list" where
  "difficulty_blocks pos bs = take DIFFICULTY_WINDOW (filter (\<lambda>bei. is_pos_block (bei_bl bei) = pos) bs)"

definition retarget :: "bool \<Rightarrow> block_extended_info list \<Rightarrow> wide_difficulty_type option" where
  "retarget pos bs =
     next_difficulty (map (timestamp \<circ> bei_bl) (difficulty_blocks pos bs)) (map bei_cumulative_diff_precise (difficulty_blocks pos bs))
       (if pos then DIFFICULTY_POS_TARGET else DIFFICULTY_POW_TARGET)"

definition get_next_diff_conditional :: "bool \<Rightarrow> blockchain_storage \<Rightarrow> (wide_difficulty_type \<times> blockchain_storage) option" where
  "get_next_diff_conditional pos st =
     (if bs_blocks st = [] then Some (DIFFICULTY_STARTER, st)
      else case retarget pos (rev (drop 1 (bs_blocks st))) of
          None \<Rightarrow> None
        | Some diff \<Rightarrow> Some (diff, st\<lparr>bs_diff_cache := difficulty_cache_set (bs_diff_cache st) diff pos (length (bs_blocks st))\<rparr>))"

definition get_cached_next_difficulty :: "bool \<Rightarrow> blockchain_storage \<Rightarrow> (wide_difficulty_type \<times> blockchain_storage) option" where
  "get_cached_next_difficulty pos st =
     (let (cached_diff, c) = difficulty_cache_get (bs_diff_cache st) pos (length (bs_blocks st));
          st = st\<lparr>bs_diff_cache := c\<rparr>
      in if cached_diff \<noteq> 0 then Some (cached_diff, st) else get_next_diff_conditional pos st)"

definition get_next_diff_conditional2 :: "bool \<Rightarrow> alt_chain \<Rightarrow> u64 \<Rightarrow> blockchain_storage \<Rightarrow> wide_difficulty_type option" where
  "get_next_diff_conditional2 pos alts split_height st =
     (if bs_blocks st = [] then Some DIFFICULTY_STARTER
      else retarget pos (takeWhile (\<lambda>bei. bei_height bei \<noteq> 0) (enum_blockchain alts split_height st)))"

definition get_current_sequence_factor :: "bool \<Rightarrow> blockchain_storage \<Rightarrow> nat" where
  "get_current_sequence_factor pos st = length (takeWhile (\<lambda>bei. is_pos_block (bei_bl bei) = pos) (rev (drop 1 (bs_blocks st))))"

primrec correct_difficulty_with_sequence_factor :: "nat \<Rightarrow> wide_difficulty_type \<Rightarrow> wide_difficulty_type" where
  "correct_difficulty_with_sequence_factor 0 diff = diff"
| "correct_difficulty_with_sequence_factor (Suc n) diff = correct_difficulty_with_sequence_factor n (diff - diff div 4)"

text \<open>\<open>std::memcmp\<close> is below zero.\<close>

fun memcmp_less :: "bytes \<Rightarrow> bytes \<Rightarrow> bool" where
  "memcmp_less (x # xs) (y # ys) \<longleftrightarrow> x < y \<or> x = y \<and> memcmp_less xs ys"
| "memcmp_less _ _ \<longleftrightarrow> False"

definition is_reorganize_required :: "block_extended_info \<Rightarrow> block_extended_info \<Rightarrow> hash \<Rightarrow> bool" where
  "is_reorganize_required main_chain_bei alt_chain_bei proof_alt \<longleftrightarrow>
     (if bei_cumulative_diff_adjusted main_chain_bei < bei_cumulative_diff_adjusted alt_chain_bei then True
      else if bei_cumulative_diff_adjusted alt_chain_bei < bei_cumulative_diff_adjusted main_chain_bei then False
      else if \<not> is_pos_block (bei_bl main_chain_bei) then False
      else memcmp_less (bei_stake_hash main_chain_bei) proof_alt)"

subsection \<open>The proof of stake\<close>

record stake_modifier_type =
  last_pow_id :: hash
  last_pos_kernel_id :: hash

record stake_kernel =
  stake_modifier :: stake_modifier_type
  block_timestamp :: u64
  kimage :: key_image

text \<open>Without a block of work above the genesis block the function throws.\<close>

definition build_stake_modifier :: "chain_view \<Rightarrow> alt_chain \<Rightarrow> u64 \<Rightarrow> blockchain_storage \<Rightarrow> stake_modifier_type checked" where
  "build_stake_modifier cv alts split_height st =
     (case get_last_block_of_type False alts split_height st of
        None \<Rightarrow> Thrown
      | Some pbei_last_pow \<Rightarrow>
          (case (case get_last_block_of_type True alts split_height st of
                   Some pbei_last_pos \<Rightarrow> Some (bei_stake_hash pbei_last_pos)
                 | None \<Rightarrow> parse_tpod_from_hex_string 32 POS_STARTER_KERNEL_HASH) of
             None \<Rightarrow> Rejected
           | Some kernel_id \<Rightarrow>
               Passed \<lparr>last_pow_id = cv_block_hash cv (bei_bl pbei_last_pow), last_pos_kernel_id = kernel_id\<rparr>))"

text \<open>The kernel as it lies in memory, packed and little endian.\<close>

definition kernel_bytes :: "stake_kernel \<Rightarrow> bytes" where
  "kernel_bytes k = last_pow_id (stake_modifier k) @ last_pos_kernel_id (stake_modifier k) @ store64 (block_timestamp k) @ kimage k"

definition build_kernel :: "block \<Rightarrow> stake_modifier_type \<Rightarrow> (stake_kernel \<times> u64) option" where
  "build_kernel bl sm =
     (if \<not> is_pos_coinbase (miner_tx bl) then None
      else case vin (miner_tx bl) ! 1 of
          TxinToKey k \<Rightarrow>
            if tk_key_offsets k = [] then None
            else Some (\<lparr>stake_modifier = sm, block_timestamp = timestamp bl, kimage = tk_k_image k\<rparr>, tk_amount k)
        | _ \<Rightarrow> None)"

text \<open>The last checks, of the signature of the stake and its age; in an alternative chain they are made elsewhere.\<close>

definition check_stake_input :: "chain_view \<Rightarrow> block \<Rightarrow> txin_to_key \<Rightarrow> hash \<Rightarrow> bool \<Rightarrow> alt_chain \<Rightarrow> u64 \<Rightarrow> blockchain_storage \<Rightarrow> bool" where
  "check_stake_input cv b k bl_id for_altchain alts split_height st \<longleftrightarrow>
     (if length (signatures (miner_tx b)) \<noteq> 1 then False
      else case (if for_altchain then Some 0
                 else check_tx_input_to_key cv (miner_tx b) 1 k bl_id (signatures (miner_tx b) ! 0) 0 st) of
          None \<Rightarrow> False
        | Some max_related_block_height \<Rightarrow>
            let block_height = (if for_altchain then split_height + of_nat (length alts) else of_nat (length (bs_blocks st)));
                coinstake_age = block_height - max_related_block_height - 1
            in cv_min_coinstake_age cv \<le> coinstake_age)"

definition actual_time_ok :: "block \<Rightarrow> bool" where
  "actual_time_ok b \<longleftrightarrow>
     (let actual_ts = get_actual_timestamp b
      in \<not> (timestamp b < actual_ts \<and> POS_MAC_ACTUAL_TIMESTAMP_TO_MINED < actual_ts - timestamp b \<or>
            actual_ts < timestamp b \<and> POS_MAC_ACTUAL_TIMESTAMP_TO_MINED < timestamp b - actual_ts))"

text \<open>The result is the amount, the difficulty that the kernel was held against, and the hash of the kernel.\<close>

definition validate_pos_block :: "chain_view \<Rightarrow> block \<Rightarrow> wide_difficulty_type \<Rightarrow> hash \<Rightarrow> bool \<Rightarrow> alt_chain \<Rightarrow> u64 \<Rightarrow> blockchain_storage \<Rightarrow>
    (u64 \<times> wide_difficulty_type \<times> hash) checked" where
  "validate_pos_block cv b basic_diff bl_id for_altchain alts split_height st =
     (if \<not> is_pos_block b then Rejected
      else if timestamp b mod POS_SCAN_STEP \<noteq> 0 then Rejected
      else case vin (miner_tx b) ! 1 of
          TxinToKey k \<Rightarrow>
            if \<not> for_altchain \<and> bs_have_tx_keyimg_as_spent (tk_k_image k) UINT64_MAX st then Rejected
            else if \<not> actual_time_ok b then Rejected
            else (case build_stake_modifier cv alts split_height st of
                    Thrown \<Rightarrow> Thrown
                  | Rejected \<Rightarrow> Rejected
                  | Passed sm \<Rightarrow>
                      (case build_kernel b sm of
                         None \<Rightarrow> Rejected
                       | Some (sk, amount) \<Rightarrow>
                           if amount = 0 then Rejected
                           else let proof_hash = cn_fast_hash (kernel_bytes sk);
                                    final_diff = basic_diff div ucast amount
                                in if \<not> check_hash proof_hash final_diff then Rejected
                                   else if \<not> check_stake_input cv b k bl_id for_altchain alts split_height st then Rejected
                                   else Passed (amount, final_diff, proof_hash)))
        | _ \<Rightarrow> Rejected)"

subsection \<open>The transaction of the miner\<close>

definition prevalidate_miner_transaction :: "block \<Rightarrow> u64 \<Rightarrow> bool \<Rightarrow> bool" where
  "prevalidate_miner_transaction b bl_height pos \<longleftrightarrow>
     (if \<not> (if pos then is_pos_coinbase (miner_tx b) else is_pow_coinbase (miner_tx b)) then False
      else if get_block_height (miner_tx b) \<noteq> bl_height then False
      else if get_tx_unlock_time (miner_tx b) \<noteq> bl_height + CURRENCY_MINED_MONEY_UNLOCK_WINDOW then False
      else if \<not> check_outs_overflow (miner_tx b) then False
      else attachment (miner_tx b) = [])"

definition get_backward_blocks_sizes :: "nat \<Rightarrow> nat \<Rightarrow> blockchain_storage \<Rightarrow> u64 list option" where
  "get_backward_blocks_sizes from_height n st =
     (if length (bs_blocks st) \<le> from_height then None
      else let start_offset = from_height + 1 - min (from_height + 1) n
           in Some (map (\<lambda>i. bei_block_cumulative_size (bs_blocks st ! i)) [start_offset..<from_height + 1]))"

definition get_last_n_blocks_sizes :: "nat \<Rightarrow> blockchain_storage \<Rightarrow> u64 list option" where
  "get_last_n_blocks_sizes n st =
     (if bs_blocks st = [] then Some [] else get_backward_blocks_sizes (length (bs_blocks st) - 1) n st)"

text \<open>The result is the base reward.\<close>

definition validate_miner_transaction :: "block \<Rightarrow> u64 \<Rightarrow> u64 \<Rightarrow> u64 \<Rightarrow> blockchain_storage \<Rightarrow> u64 option" where
  "validate_miner_transaction b cumulative_block_size fee already_generated_coins st =
     (let money_in_use = get_outs_money_amount (miner_tx b)
      in case (if is_pos_block b then (case vin (miner_tx b) ! 1 of TxinToKey k \<Rightarrow> Some (tk_amount k) | _ \<Rightarrow> None) else Some 0) of
           None \<Rightarrow> None
         | Some pos_income \<Rightarrow>
             (case get_last_n_blocks_sizes CURRENCY_REWARD_BLOCKS_WINDOW st of
                None \<Rightarrow> None
              | Some last_blocks_sizes \<Rightarrow>
                  (case get_block_reward (is_pos_block b) (median last_blocks_sizes) cumulative_block_size already_generated_coins
                          (get_block_height (miner_tx b)) of
                     None \<Rightarrow> None
                   | Some base_reward \<Rightarrow>
                       if base_reward + pos_income + fee < money_in_use then None
                       else if base_reward + pos_income + fee \<noteq> money_in_use then None
                       else Some base_reward)))"

definition update_next_comulative_size_limit :: "blockchain_storage \<Rightarrow> blockchain_storage" where
  "update_next_comulative_size_limit st =
     (let sz = (case get_last_n_blocks_sizes CURRENCY_REWARD_BLOCKS_WINDOW st of None \<Rightarrow> [] | Some sz \<Rightarrow> sz);
          m = median sz;
          m = (if m \<le> CURRENCY_BLOCK_GRANTED_FULL_REWARD_ZONE then CURRENCY_BLOCK_GRANTED_FULL_REWARD_ZONE else m)
      in st\<lparr>bs_current_block_cumul_sz_limit := m * 2\<rparr>)"

subsection \<open>Blocks known as invalid\<close>

definition add_block_as_invalid_entry :: "chain_view \<Rightarrow> block_extended_info \<Rightarrow> hash \<Rightarrow> blockchain_storage \<Rightarrow> outcome" where
  "add_block_as_invalid_entry cv bei h st =
     (if bs_invalid_blocks st h \<noteq> None then (False, st)
      else let st = st\<lparr>bs_invalid_blocks := (bs_invalid_blocks st)(h \<mapsto> bei)\<rparr>
           in (validate_blockchain_prev_links cv 10 st, st))"

definition empty_bei :: "block \<Rightarrow> block_extended_info" where
  "empty_bei bl = \<lparr>bei_bl = bl, bei_height = 0, bei_block_cumulative_size = 0, bei_cumulative_diff_adjusted = 0,
     bei_cumulative_diff_precise = 0, bei_difficulty = 0, bei_already_generated_coins = 0, bei_stake_hash = null_hash,
     bei_this_block_tx_fee_median = 0, bei_effective_tx_fee_median = 0\<rparr>"

definition add_block_as_invalid :: "chain_view \<Rightarrow> block \<Rightarrow> hash \<Rightarrow> blockchain_storage \<Rightarrow> outcome" where
  "add_block_as_invalid cv bl h st = add_block_as_invalid_entry cv (empty_bei bl) h st"

subsection \<open>The outputs of a block by their amounts\<close>

definition push_block_to_per_block_increments :: "chain_view \<Rightarrow> u64 \<Rightarrow> (u64 \<Rightarrow> u32) \<Rightarrow> blockchain_storage \<Rightarrow> blockchain_storage" where
  "push_block_to_per_block_increments cv bl_height gindices st =
     st\<lparr>bs_per_block_gindex_incs := (bs_per_block_gindex_incs st)(ucast bl_height \<mapsto>
       map (\<lambda>a. \<lparr>gi_amount = a, gi_increment = gindices a\<rparr>) (cv_amounts cv gindices))\<rparr>"

definition pop_block_from_per_block_increments :: "u64 \<Rightarrow> blockchain_storage \<Rightarrow> blockchain_storage" where
  "pop_block_from_per_block_increments bl_height st =
     st\<lparr>bs_per_block_gindex_incs := (bs_per_block_gindex_incs st)(ucast bl_height := None)\<rparr>"

subsection \<open>The transactions of a block\<close>

text \<open>The block did not get through: the transactions added so far are taken back, whether or not that works.\<close>

definition purge_failed_block :: "chain_view \<Rightarrow> block \<Rightarrow> nat \<Rightarrow> blockchain_storage \<Rightarrow> blockchain_storage" where
  "purge_failed_block cv bl tx_processed_count st = snd (snd (purge_block_data_from_blockchain cv bl tx_processed_count True st))"

text \<open>A transaction that spoils the block goes back to the pool, and to its black list.\<close>

definition return_bad_tx :: "chain_view \<Rightarrow> transaction \<Rightarrow> u64 \<Rightarrow> blockchain_storage \<Rightarrow> blockchain_storage" where
  "return_bad_tx cv tx bl_height st =
     (let (add_res, pool) = pool_add_from_chain cv tx (get_tx_minimum_fee bl_height) st
      in st\<lparr>bs_tx_pool := add_transaction_to_black_list (cv_node_view cv st) tx pool\<rparr>)"

definition prune_tx :: "transaction \<Rightarrow> transaction" where
  "prune_tx tx = tx\<lparr>signatures := [], attachment := []\<rparr>"

record block_totals =
  bt_processed :: nat
  bt_fee_summary :: u64
  bt_cumulative_size :: u64
  bt_block_fees :: "u64 list"
  bt_gindices :: "u64 \<Rightarrow> u32"

text \<open>The loop over the hashes of the block; a failure is the state after everything has been taken back.\<close>

fun block_txs_loop :: "chain_view \<Rightarrow> block \<Rightarrow> hash \<Rightarrow> u64 \<Rightarrow> hash list \<Rightarrow> block_totals \<Rightarrow> blockchain_storage \<Rightarrow>
    blockchain_storage + (block_totals \<times> blockchain_storage)" where
  "block_txs_loop cv bl bl_id bl_height [] bt st = Inr (bt, st)"
| "block_txs_loop cv bl bl_id bl_height (tx_id # tx_ids) bt st =
     (case take_tx (cv_node_view cv st) tx_id (bs_tx_pool st) of
        None \<Rightarrow> Inl (purge_failed_block cv bl (bt_processed bt) st)
      | Some ((tx, blob_size, fee), pool) \<Rightarrow>
          let st = st\<lparr>bs_tx_pool := pool\<rparr>;
              gindices = append_per_block_increments_for_tx tx (bt_gindices bt);
              tx = (if bs_is_in_checkpoint_zone st then prune_tx tx else tx)
          in if check_tx_inputs cv tx tx_id st = None
             then Inl (snd (add_block_as_invalid cv bl bl_id
                    (purge_failed_block cv bl (bt_processed bt) (return_bad_tx cv tx bl_height st))))
             else (case add_transaction_from_block cv tx tx_id bl_id (get_current_blockchain_size st) (get_actual_timestamp bl) st of
                     (False, st) \<Rightarrow> Inl (purge_failed_block cv bl (bt_processed bt) (return_bad_tx cv tx bl_height st))
                   | (True, st) \<Rightarrow>
                       block_txs_loop cv bl bl_id bl_height tx_ids
                         \<lparr>bt_processed = bt_processed bt + 1, bt_fee_summary = bt_fee_summary bt + fee,
                          bt_cumulative_size = bt_cumulative_size bt + blob_size,
                          bt_block_fees = bt_block_fees bt @ (if fee \<noteq> 0 then [fee] else []), bt_gindices = gindices\<rparr> st))"

subsection \<open>The entry of a block\<close>

definition aliases_count :: "blockchain_storage \<Rightarrow> u64" where
  "aliases_count st = of_nat (card (dom (bs_aliases st)))"

definition next_cumulative_diff_precise :: "bool \<Rightarrow> wide_difficulty_type \<Rightarrow> blockchain_storage \<Rightarrow> wide_difficulty_type" where
  "next_cumulative_diff_precise is_pos current_diff st =
     (let last_x_h = get_last_x_block_height is_pos st
      in if last_x_h \<noteq> 0 then bei_cumulative_diff_precise (bs_blocks st ! last_x_h) + current_diff else current_diff)"

definition next_cumulative_diff_adjusted :: "chain_view \<Rightarrow> bool \<Rightarrow> wide_difficulty_type \<Rightarrow> blockchain_storage \<Rightarrow> wide_difficulty_type" where
  "next_cumulative_diff_adjusted cv is_pos current_diff st =
     (let last_adjusted = (if bs_blocks st = [] then 0 else bei_cumulative_diff_adjusted (last (bs_blocks st)));
          delta = (if is_pos then get_adjusted_cumulative_difficulty_for_next_pos current_diff st else current_diff);
          delta = (if cv_pos_minimum_heigh cv \<le> get_current_blockchain_size st
                   then correct_difficulty_with_sequence_factor (get_current_sequence_factor is_pos st) delta else delta)
      in last_adjusted + delta)"

text \<open>The medians of the blocks of the last week, from the newest one down to height 1; those without fees do not count.\<close>

definition recent_fee_medians :: "blockchain_storage \<Rightarrow> u64 list" where
  "recent_fee_medians st =
     filter (\<lambda>m. m \<noteq> 0) (map (\<lambda>i. bei_this_block_tx_fee_median (bs_blocks st ! i))
       (rev [max 1 (length (bs_blocks st) - unat ALIAS_COST_PERIOD)..<length (bs_blocks st)]))"

definition next_effective_fee_median :: "blockchain_storage \<Rightarrow> (u64 \<times> blockchain_storage) option" where
  "next_effective_fee_median st =
     (let h = get_current_blockchain_size st
      in if h mod ALIAS_MEDIAN_RECALC_INTERWAL \<noteq> 0 then get_tx_fee_median st
         else if h = 0 then Some (0, st)
         else Some (median (recent_fee_medians st), st))"

definition on_block_added :: "blockchain_storage \<Rightarrow> blockchain_storage" where
  "on_block_added st = update_next_comulative_size_limit st"

definition block_entry :: "chain_view \<Rightarrow> block \<Rightarrow> wide_difficulty_type \<Rightarrow> hash \<Rightarrow> u64 \<Rightarrow> u64 \<Rightarrow> block_totals \<Rightarrow> blockchain_storage \<Rightarrow>
    block_extended_info" where
  "block_entry cv bl current_diff proof_hash base_reward effective_median bt st =
     \<lparr>bei_bl = bl, bei_height = get_current_blockchain_size st, bei_block_cumulative_size = bt_cumulative_size bt,
      bei_cumulative_diff_adjusted = next_cumulative_diff_adjusted cv (is_pos_block bl) current_diff st,
      bei_cumulative_diff_precise = next_cumulative_diff_precise (is_pos_block bl) current_diff st,
      bei_difficulty = current_diff, bei_already_generated_coins = total_coins st + base_reward,
      bei_stake_hash = (if is_pos_block bl then proof_hash else null_hash),
      bei_this_block_tx_fee_median = (if bt_block_fees bt \<noteq> [] then median (bt_block_fees bt) else 0),
      bei_effective_tx_fee_median = effective_median\<rparr>"

definition append_block :: "chain_view \<Rightarrow> hash \<Rightarrow> block_extended_info \<Rightarrow> (u64 \<Rightarrow> u32) \<Rightarrow> blockchain_storage \<Rightarrow> blockchain_storage" where
  "append_block cv bl_id bei gindices st =
     (let st = st\<lparr>bs_blocks_index := (bs_blocks_index st)(bl_id \<mapsto> bei_height bei)\<rparr>;
          st = push_block_to_per_block_increments cv (bei_height bei) gindices st
      in on_block_added (st\<lparr>bs_blocks := bs_blocks st @ [bei]\<rparr>))"

text \<open>The result is the state, when an exception ends the function, or what it returns.\<close>

type_synonym block_outcome = "blockchain_storage + (bool \<times> block_verification_context \<times> blockchain_storage)"

definition verification_failed :: "block_verification_context \<Rightarrow> blockchain_storage \<Rightarrow> block_outcome" where
  "verification_failed bvc st = Inr (False, bvc\<lparr>bv_verification_failed := True\<rparr>, st)"

text \<open>What comes after the loop over the transactions.\<close>

definition connect_block :: "chain_view \<Rightarrow> block \<Rightarrow> hash \<Rightarrow> wide_difficulty_type \<Rightarrow> hash \<Rightarrow> u64 \<Rightarrow> block_totals \<Rightarrow>
    block_verification_context \<Rightarrow> blockchain_storage \<Rightarrow> block_outcome" where
  "connect_block cv bl bl_id current_diff proof_hash aliases_before bt bvc st =
     (let failed = verification_failed bvc (purge_failed_block cv bl (bt_processed bt) st)
      in if MAX_ALIAS_PER_BLOCK < aliases_count st - aliases_before then failed
         else case validate_miner_transaction bl (bt_cumulative_size bt) (bt_fee_summary bt) (total_coins st) st of
             None \<Rightarrow> failed
           | Some base_reward \<Rightarrow>
               if bs_blocks_index st bl_id \<noteq> None then failed
               else (case next_effective_fee_median st of
                       None \<Rightarrow> Inl st
                     | Some (effective_median, st) \<Rightarrow>
                         Inr (True, bvc\<lparr>bv_added_to_main_chain := True\<rparr>,
                           append_block cv bl_id (block_entry cv bl current_diff proof_hash base_reward effective_median bt st)
                             (bt_gindices bt) st)))"

subsection \<open>A block for the main chain\<close>

definition check_block_proof :: "chain_view \<Rightarrow> block \<Rightarrow> wide_difficulty_type \<Rightarrow> hash \<Rightarrow> blockchain_storage \<Rightarrow> hash checked" where
  "check_block_proof cv bl current_diff bl_id st =
     (if is_pos_block bl
      then (case validate_pos_block cv bl current_diff bl_id False [] 0 st of
              Thrown \<Rightarrow> Thrown | Rejected \<Rightarrow> Rejected | Passed (_, _, proof_hash) \<Rightarrow> Passed proof_hash)
      else if check_hash (cv_longhash cv bl) current_diff then Passed (cv_longhash cv bl) else Rejected)"

text \<open>From the transaction of the miner on.\<close>

definition add_block_txs :: "chain_view \<Rightarrow> block \<Rightarrow> hash \<Rightarrow> wide_difficulty_type \<Rightarrow> hash \<Rightarrow> u64 \<Rightarrow>
    block_verification_context \<Rightarrow> blockchain_storage \<Rightarrow> block_outcome" where
  "add_block_txs cv bl bl_id current_diff proof_hash bl_height bvc st =
     (let aliases_before = aliases_count st;
          coinbase_blob_size = cv_blob_size cv (miner_tx bl)
      in case add_transaction_from_block cv (miner_tx bl) (cv_transaction_hash cv (miner_tx bl)) bl_id bl_height (get_actual_timestamp bl) st of
           (False, st) \<Rightarrow> verification_failed bvc st
         | (True, st) \<Rightarrow>
             (case block_txs_loop cv bl bl_id bl_height (tx_hashes bl)
                     \<lparr>bt_processed = 0, bt_fee_summary = 0,
                      bt_cumulative_size = (if CURRENCY_COINBASE_BLOB_RESERVED_SIZE < coinbase_blob_size then coinbase_blob_size else 0),
                      bt_block_fees = [], bt_gindices = append_per_block_increments_for_tx (miner_tx bl) (\<lambda>_. 0)\<rparr> st of
                Inl st \<Rightarrow> verification_failed bvc st
              | Inr (bt, st) \<Rightarrow> connect_block cv bl bl_id current_diff proof_hash aliases_before bt bvc st))"

definition handle_block_to_main_chain :: "chain_view \<Rightarrow> block \<Rightarrow> hash \<Rightarrow> block_verification_context \<Rightarrow> blockchain_storage \<Rightarrow>
    block_outcome" where
  "handle_block_to_main_chain cv bl bl_id bvc st =
     (if prev_id bl \<noteq> get_top_block_id cv st then Inr (False, bvc, st)
      else if \<not> check_block_timestamp_main cv bl st then verification_failed bvc st
      else let h = get_current_blockchain_size st;
               st = st\<lparr>bs_is_in_checkpoint_zone := is_in_checkpoint_zone h (bs_checkpoints st)\<rparr>
           in if bs_is_in_checkpoint_zone st \<and> \<not> check_block h bl_id (bs_checkpoints st) then verification_failed bvc st
              else if is_pos_block bl \<and> h < cv_pos_minimum_heigh cv then verification_failed bvc st
              else case get_next_diff_conditional (is_pos_block bl) st of
                  None \<Rightarrow> Inl st
                | Some (current_diff, st) \<Rightarrow>
                    if current_diff = 0 then verification_failed bvc st
                    else (case check_block_proof cv bl current_diff bl_id st of
                            Thrown \<Rightarrow> Inl st
                          | Rejected \<Rightarrow> verification_failed bvc st
                          | Passed proof_hash \<Rightarrow>
                              if \<not> prevalidate_miner_transaction bl h (is_pos_block bl) then verification_failed bvc st
                              else add_block_txs cv bl bl_id current_diff proof_hash h bvc st))"

subsection \<open>Taking blocks off\<close>

text \<open>What the pool does when a block goes is nothing.\<close>

definition pop_block_from_blockchain :: "chain_view \<Rightarrow> bool \<Rightarrow> blockchain_storage \<Rightarrow> outcome" where
  "pop_block_from_blockchain cv add_txs_to_pool st =
     (if length (bs_blocks st) \<le> 1 then (False, st)
      else let bei = last (bs_blocks st);
               (r, fee_total, st) = purge_block_data_from_blockchain cv (bei_bl bei) (length (tx_hashes (bei_bl bei))) add_txs_to_pool st
           in if \<not> r then (False, st)
              else let st = pop_block_from_per_block_increments (bei_height bei) st;
                       st = st\<lparr>bs_blocks_index := (bs_blocks_index st)(cv_block_hash cv (bei_bl bei) := None)\<rparr>
                   in (True, st\<lparr>bs_blocks := butlast (bs_blocks st)\<rparr>))"

text \<open>The loop; the first argument bounds its rounds.\<close>

fun truncate_loop :: "chain_view \<Rightarrow> nat \<Rightarrow> u64 \<Rightarrow> blockchain_storage \<Rightarrow> outcome" where
  "truncate_loop cv 0 to_height st = (False, st)"
| "truncate_loop cv (Suc n) to_height st =
     (if \<not> to_height < get_current_blockchain_size st then (True, st)
      else case pop_block_from_blockchain cv False st of
          (False, st) \<Rightarrow> (False, st)
        | (True, st) \<Rightarrow> truncate_loop cv n to_height st)"

definition clear_altblocks :: "blockchain_storage \<Rightarrow> blockchain_storage" where
  "clear_altblocks st = st\<lparr>bs_alternative_chains := Map.empty, bs_alternative_chains_txs := Map.empty, bs_altblocks_keyimages := Map.empty\<rparr>"

definition truncate_blockchain :: "chain_view \<Rightarrow> u64 \<Rightarrow> blockchain_storage \<Rightarrow> outcome" where
  "truncate_blockchain cv to_height st =
     (let (res, st) = truncate_loop cv (length (bs_blocks st) + 1) to_height st in (res, clear_altblocks st))"

text \<open>The transactions of the blocks from the top down to a height go to the pool.\<close>

fun rollback_txs :: "chain_view \<Rightarrow> hash list \<Rightarrow> blockchain_storage \<Rightarrow> outcome" where
  "rollback_txs cv [] st = (True, st)"
| "rollback_txs cv (tx_id # tx_ids) st =
     (case bs_transactions st tx_id of
        None \<Rightarrow> (False, st)
      | Some e \<Rightarrow>
          if is_coinbase (tce_tx e) then rollback_txs cv tx_ids st
          else let (r, pool) = pool_add_from_chain cv (tce_tx e) 0 st;
                   st = st\<lparr>bs_tx_pool := pool\<rparr>
               in if \<not> r then (False, st) else rollback_txs cv tx_ids st)"

definition rollback_blockchain_switching :: "chain_view \<Rightarrow> nat \<Rightarrow> blockchain_storage \<Rightarrow> outcome" where
  "rollback_blockchain_switching cv rollback_height st =
     rollback_txs cv (concat (map (tx_hashes \<circ> bei_bl) (rev (drop rollback_height (bs_blocks st))))) st"

subsection \<open>Pruning below the checkpoints\<close>

fun prune_txs :: "u64 \<Rightarrow> hash list \<Rightarrow> blockchain_storage \<Rightarrow> outcome" where
  "prune_txs bl_height [] st = (True, st)"
| "prune_txs bl_height (h # hs) st =
     (case bs_transactions st h of
        None \<Rightarrow> (False, st)
      | Some e \<Rightarrow>
          if tce_keeper_block_height e \<noteq> bl_height then (False, st)
          else prune_txs bl_height hs (st\<lparr>bs_transactions := (bs_transactions st)(h \<mapsto> e\<lparr>tce_tx := prune_tx (tce_tx e)\<rparr>)\<rparr>))"

definition prune_ring_signatures_and_attachments :: "nat \<Rightarrow> blockchain_storage \<Rightarrow> outcome" where
  "prune_ring_signatures_and_attachments bl_height st =
     (if length (bs_blocks st) \<le> bl_height then (False, st)
      else prune_txs (of_nat bl_height) (tx_hashes (bei_bl (bs_blocks st ! bl_height))) st)"

fun prune_blocks :: "nat list \<Rightarrow> blockchain_storage \<Rightarrow> outcome" where
  "prune_blocks [] st = (True, st)"
| "prune_blocks (h # hs) st =
     (case prune_ring_signatures_and_attachments h st of (False, st) \<Rightarrow> (False, st) | (True, st) \<Rightarrow> prune_blocks hs st)"

definition prune_ring_signatures_and_attachments_if_need :: "blockchain_storage \<Rightarrow> outcome" where
  "prune_ring_signatures_and_attachments_if_need st =
     (let top_height = get_top_checkpoint_height (bs_checkpoints st)
      in if bs_blocks st \<noteq> [] \<and> top_height \<noteq> 0 \<and> bs_current_pruned_rs_height st < top_height
         then (case prune_blocks [unat (bs_current_pruned_rs_height st)..<min (length (bs_blocks st)) (unat top_height + 1)] st of
                 (False, st) \<Rightarrow> (False, st)
               | (True, st) \<Rightarrow> (True, st\<lparr>bs_current_pruned_rs_height := top_height\<rparr>))
         else (True, st))"

definition set_checkpoints :: "checkpoints \<Rightarrow> blockchain_storage \<Rightarrow> outcome" where
  "set_checkpoints chk_pts st = (True, st\<lparr>bs_checkpoints := chk_pts\<rparr>)"

text \<open>The result, the size of the valid chain, and the state.\<close>

definition validate_checkpoints :: "chain_view \<Rightarrow> blockchain_storage \<Rightarrow> (bool \<times> u64) \<times> blockchain_storage" where
  "validate_checkpoints cv st =
     (let st = (if get_current_blockchain_size st < get_top_checkpoint_height (bs_checkpoints st)
                then st\<lparr>bs_is_in_checkpoint_zone := True\<rparr> else st);
          st = snd (prune_ring_signatures_and_attachments_if_need st)
      in (check_blocks (\<lambda>h. get_block_id_by_height cv h st) (bs_top_block_height st) (bs_checkpoints st), st))"

end
