(* ===== verification/ChainRuns.thy ===== *)
theory ChainRuns
  imports ChainBlocks
begin

section \<open>Adding and removing blocks\<close>

text \<open>
  What the operations of ChainBlocks.thy do to the blocks of the chain: the operations on transactions leave them alone, a block
  that is handled becomes the new top or changes nothing, and the steps of a chain keep its blocks linked.
\<close>

subsection \<open>What the operations on transactions leave alone\<close>

text \<open>The blocks with their tables, and what stands beside them: the checkpoints and the alternative chains.\<close>

type_synonym beside = "checkpoints \<times> (hash \<rightharpoonup> alt_block_extended_info) \<times> (hash \<rightharpoonup> nat) \<times> (key_image \<rightharpoonup> hash list)"

definition beside_blocks :: "blockchain_storage \<Rightarrow> beside" where
  "beside_blocks st = (bs_checkpoints st, bs_alternative_chains st, bs_alternative_chains_txs st, bs_altblocks_keyimages st)"

definition blocks_part :: "blockchain_storage \<Rightarrow> block_extended_info list \<times> (hash \<rightharpoonup> u64) \<times> (u32 \<rightharpoonup> gindex_increment list) \<times> beside" where
  "blocks_part st = (bs_blocks st, bs_blocks_index st, bs_per_block_gindex_incs st, beside_blocks st)"

lemma blocks_part_upd [simp]:
  "blocks_part (st\<lparr>bs_transactions := a\<rparr>) = blocks_part st" "blocks_part (st\<lparr>bs_spent_keys := b\<rparr>) = blocks_part st"
  "blocks_part (st\<lparr>bs_outputs := c\<rparr>) = blocks_part st" "blocks_part (st\<lparr>bs_multisig_outs := d\<rparr>) = blocks_part st"
  "blocks_part (st\<lparr>bs_aliases := e\<rparr>) = blocks_part st" "blocks_part (st\<lparr>bs_addr_to_alias := f\<rparr>) = blocks_part st"
  "blocks_part (st\<lparr>bs_services := g\<rparr>) = blocks_part st" "blocks_part (st\<lparr>bs_tx_pool := h\<rparr>) = blocks_part st"
  "blocks_part (st\<lparr>bs_current_fee_median := i\<rparr>) = blocks_part st"
  "blocks_part (st\<lparr>bs_current_fee_median_effective_index := i\<rparr>) = blocks_part st"
  "blocks_part (st\<lparr>bs_is_in_checkpoint_zone := z\<rparr>) = blocks_part st"
  "blocks_part (st\<lparr>bs_current_pruned_rs_height := i\<rparr>) = blocks_part st"
  "blocks_part (st\<lparr>bs_current_block_cumul_sz_limit := i\<rparr>) = blocks_part st"
  "blocks_part (st\<lparr>bs_diff_cache := k\<rparr>) = blocks_part st" "blocks_part (st\<lparr>bs_invalid_blocks := l\<rparr>) = blocks_part st"
  "blocks_part (st\<lparr>bs_alias_events := y\<rparr>) = blocks_part st"
  by (simp_all add: blocks_part_def beside_blocks_def)

named_theorems keeps "the operations that leave the blocks as they are"

lemma update_flags_keeps [keeps]: "update_spent_tx_flags t n b st = (r, st') \<Longrightarrow> blocks_part st' = blocks_part st"
  by (auto simp: update_spent_tx_flags_def split: option.splits if_split_asm)

lemma update_global_keeps [keeps]: "update_spent_global_index a i b st = (r, st') \<Longrightarrow> blocks_part st' = blocks_part st"
  by (auto simp: update_spent_global_index_def Let_def split: if_split_asm dest: keeps)

lemma update_input_keeps [keeps]: "update_spent_for_input a off b st = (r, st') \<Longrightarrow> blocks_part st' = blocks_part st"
  by (auto simp: update_spent_for_input_def split: txout_v.splits dest: keeps)

lemma update_multisig_keeps [keeps]: "update_spent_multisig k h st = (r, st') \<Longrightarrow> blocks_part st' = blocks_part st"
  by (auto simp: update_spent_multisig_def Let_def split: option.splits dest: keeps)

lemma add_input_keeps [keeps]: "add_input h i st = (r, st') \<Longrightarrow> blocks_part st' = blocks_part st"
  by (auto simp: add_input_def Let_def split: txin_v.splits if_split_asm dest!: keeps)

lemma add_inputs_keeps [keeps]: "add_inputs h is st = (r, st') \<Longrightarrow> blocks_part st' = blocks_part st"
  by (induction h "is" st rule: add_inputs.induct) (auto split: prod.splits bool.splits dest!: add_input_keeps)

lemma purge_input_keeps [keeps]: "purge_input s i st = (r, st') \<Longrightarrow> blocks_part st' = blocks_part st"
  by (auto simp: purge_input_def Let_def split: txin_v.splits if_split_asm dest!: keeps)

lemma purge_inputs_keeps [keeps]: "purge_inputs s is st = (r, st') \<Longrightarrow> blocks_part st' = blocks_part st"
  by (induction s "is" st rule: purge_inputs.induct) (auto simp: Let_def split: prod.splits if_split_asm dest!: purge_input_keeps)

lemma purge_keyimages_keeps [keeps]:
  "purge_transaction_keyimages_from_blockchain tx s st = (r, st') \<Longrightarrow> blocks_part st' = blocks_part st"
  unfolding purge_transaction_keyimages_from_blockchain_def by (rule keeps)

lemma push_outs_keeps [keeps]: "push_outs cv tx t i os gi st = (r, gi', st') \<Longrightarrow> blocks_part st' = blocks_part st"
  by (induction cv tx t i os gi st rule: push_outs.induct) (auto simp: Let_def split: txout_target_v.splits if_split_asm)

lemma push_index_keeps [keeps]:
  "push_transaction_to_global_outs_index cv tx t gi st = (r, gi', st') \<Longrightarrow> blocks_part st' = blocks_part st"
  unfolding push_transaction_to_global_outs_index_def by (rule keeps)

lemma pop_outs_keeps [keeps]: "pop_outs cv tx t os st = (r, st') \<Longrightarrow> blocks_part st' = blocks_part st"
  by (induction cv tx t os st rule: pop_outs.induct) (auto simp: Let_def split: txout_target_v.splits if_split_asm)

lemma pop_index_keeps [keeps]: "pop_transaction_from_global_index cv tx t st = (r, st') \<Longrightarrow> blocks_part st' = blocks_part st"
  unfolding pop_transaction_from_global_index_def by (rule keeps)

lemma put_names_keeps [simp]: "blocks_part (put_names a n st) = blocks_part st" by (simp add: put_names_def)
lemma put_history_keeps [simp]: "blocks_part (put_history a n st) = blocks_part st" by (simp add: put_history_def)

lemma put_alias_keeps [keeps]: "put_alias_info cv ai st = (r, st') \<Longrightarrow> blocks_part st' = blocks_part st"
  by (auto simp: put_alias_info_def Let_def split: if_split_asm)

lemma pop_alias_keeps [keeps]: "pop_alias_info ai st = (r, st') \<Longrightarrow> blocks_part st' = blocks_part st"
  by (auto simp: pop_alias_info_def Let_def split: if_split_asm)

lemma fee_median_keeps [keeps]: "get_tx_fee_median st = Some (m, st') \<Longrightarrow> blocks_part st' = blocks_part st"
  by (auto simp: get_tx_fee_median_def Let_def split: if_split_asm option.splits)

lemma prevalidate_keeps [keeps]: "prevalidate_alias_info cv tx ai st = (r, st') \<Longrightarrow> blocks_part st' = blocks_part st"
  by (auto simp: prevalidate_alias_info_def validate_alias_reward_def get_alias_cost_def Let_def
      split: if_split_asm option.splits prod.splits bool.splits dest: keeps)

lemma process_extra_keeps [keeps]: "process_blockchain_tx_extra cv tx st = (r, st') \<Longrightarrow> blocks_part st' = blocks_part st"
  by (auto simp: process_blockchain_tx_extra_def split: option.splits if_split_asm prod.splits bool.splits dest!: prevalidate_keeps put_alias_keeps)

lemma unprocess_extra_keeps [keeps]: "unprocess_blockchain_tx_extra tx st = (r, st') \<Longrightarrow> blocks_part st' = blocks_part st"
  by (auto simp: unprocess_blockchain_tx_extra_def split: option.splits if_split_asm dest: keeps)

lemma add_transaction_keeps [keeps]:
  "add_transaction_from_block cv tx t b h ts st = (r, st') \<Longrightarrow> blocks_part st' = blocks_part st"
  by (auto simp: add_transaction_from_block_def Let_def split: if_split_asm prod.splits bool.splits
      dest!: process_extra_keeps add_inputs_keeps purge_keyimages_keeps unprocess_extra_keeps push_index_keeps)

lemma purge_transaction_keeps [keeps]:
  "purge_transaction_from_blockchain cv t p st = (r, f, st') \<Longrightarrow> blocks_part st' = blocks_part st"
  by (auto simp: purge_transaction_from_blockchain_def Let_def split: if_split_asm prod.splits bool.splits option.splits
      dest!: unprocess_extra_keeps purge_keyimages_keeps pop_index_keeps)

lemma purge_loop_keeps [keeps]:
  "purge_transactions_loop cv p hs res f st = (r, f', st') \<Longrightarrow> blocks_part st' = blocks_part st"
  by (induction cv p hs res f st rule: purge_transactions_loop.induct) (auto simp: Let_def split: prod.splits dest!: purge_transaction_keeps)

lemma purge_block_keeps [keeps]:
  "purge_block_data_from_blockchain cv bl n p st = (r, f, st') \<Longrightarrow> blocks_part st' = blocks_part st"
  by (auto simp: purge_block_data_from_blockchain_def Let_def split: prod.splits if_split_asm dest!: purge_loop_keeps purge_transaction_keeps)

lemma purge_failed_keeps [simp]: "blocks_part (purge_failed_block cv bl n st) = blocks_part st"
  unfolding purge_failed_block_def by (metis purge_block_keeps prod.collapse)

lemma return_bad_tx_keeps [simp]: "blocks_part (return_bad_tx cv tx h st) = blocks_part st"
  by (simp add: return_bad_tx_def split: prod.split)

lemma invalid_block_keeps [simp]: "blocks_part (snd (add_block_as_invalid cv bl h st)) = blocks_part st"
  by (simp add: add_block_as_invalid_def add_block_as_invalid_entry_def Let_def)

text \<open>The state in either result of the loop.\<close>

definition loop_state :: "blockchain_storage + (block_totals \<times> blockchain_storage) \<Rightarrow> blockchain_storage" where
  "loop_state r = (case r of Inl st \<Rightarrow> st | Inr (bt, st) \<Rightarrow> st)"

lemma loop_state_simps [simp]: "loop_state (Inl st) = st" "loop_state (Inr (bt, st)) = st"
  by (simp_all add: loop_state_def)

lemma block_txs_keeps: "blocks_part (loop_state (block_txs_loop cv bl bl_id h ids bt st)) = blocks_part st"
proof (induction ids arbitrary: bt st)
  case (Cons tx_id ids)
  show ?case
    by (auto simp: Let_def Cons.IH split: option.split prod.split bool.split dest!: add_transaction_keeps)
qed simp

subsection \<open>The blocks after a block was handled\<close>

text \<open>The block is the new top, with an entry in the index and one in the table of the increments.\<close>

definition block_appended :: "block \<Rightarrow> hash \<Rightarrow> blockchain_storage \<Rightarrow> blockchain_storage \<Rightarrow> bool" where
  "block_appended bl bl_id st st' \<longleftrightarrow>
     (\<exists>bei incs. bei_bl bei = bl \<and> bei_height bei = get_current_blockchain_size st \<and> bs_blocks_index st bl_id = None \<and>
        blocks_part st' = (bs_blocks st @ [bei], (bs_blocks_index st)(bl_id \<mapsto> get_current_blockchain_size st),
          (bs_per_block_gindex_incs st)(ucast (get_current_blockchain_size st) \<mapsto> incs), beside_blocks st))"

definition block_outcome_ok :: "block \<Rightarrow> hash \<Rightarrow> blockchain_storage \<Rightarrow> block_outcome \<Rightarrow> bool" where
  "block_outcome_ok bl bl_id st r =
     (case r of Inl st' \<Rightarrow> blocks_part st' = blocks_part st
      | Inr (True, _, st') \<Rightarrow> block_appended bl bl_id st st'
      | Inr (False, _, st') \<Rightarrow> blocks_part st' = blocks_part st)"

lemma block_outcome_simps [simp]:
  "block_outcome_ok bl bl_id st (Inl st') \<longleftrightarrow> blocks_part st' = blocks_part st"
  "block_outcome_ok bl bl_id st (Inr (b, bvc, st')) \<longleftrightarrow> (if b then block_appended bl bl_id st st' else blocks_part st' = blocks_part st)"
  "block_outcome_ok bl bl_id st (verification_failed bvc st') \<longleftrightarrow> blocks_part st' = blocks_part st"
  by (simp_all add: block_outcome_ok_def verification_failed_def split: bool.split)

lemma blocks_part_parts:
  "blocks_part st = blocks_part st' \<Longrightarrow> bs_blocks st = bs_blocks st' \<and> bs_blocks_index st = bs_blocks_index st' \<and>
    bs_per_block_gindex_incs st = bs_per_block_gindex_incs st' \<and> beside_blocks st = beside_blocks st' \<and>
    get_current_blockchain_size st = get_current_blockchain_size st'"
  by (simp add: blocks_part_def get_current_blockchain_size_def)

lemma outcome_ok_cong:
  assumes "blocks_part st = blocks_part st'"
  shows "block_outcome_ok bl bl_id st r = block_outcome_ok bl bl_id st' r"
  using blocks_part_parts [OF assms] assms
  by (auto simp: block_outcome_ok_def block_appended_def split: sum.split prod.split bool.split)

lemma next_median_keeps: "next_effective_fee_median st = Some (m, st') \<Longrightarrow> blocks_part st' = blocks_part st"
  by (auto simp: next_effective_fee_median_def Let_def split: if_split_asm dest: fee_median_keeps)

lemma appended_entry:
  assumes "blocks_part st1 = blocks_part st" and "bei_bl bei = bl" and "bei_height bei = get_current_blockchain_size st1"
    and "bs_blocks_index st bl_id = None"
  shows "block_appended bl bl_id st (append_block cv bl_id bei g st1)"
  unfolding block_appended_def
  using blocks_part_parts [OF assms(1)] assms(2-4)
  by (intro exI [of _ bei] exI [of _ "map (\<lambda>a. \<lparr>gi_amount = a, gi_increment = g a\<rparr>) (cv_amounts cv g)"])
    (simp add: append_block_def on_block_added_def update_next_comulative_size_limit_def push_block_to_per_block_increments_def
      Let_def blocks_part_def beside_blocks_def)

lemma connect_block_blocks: "block_outcome_ok bl bl_id st (connect_block cv bl bl_id d ph ab bt bvc st)"
  unfolding connect_block_def Let_def
  by (auto split: option.split dest: next_median_keeps intro!: appended_entry simp: block_entry_def)

lemma add_block_txs_blocks: "block_outcome_ok bl bl_id st (add_block_txs cv bl bl_id d ph h bvc st)"
proof (cases "add_transaction_from_block cv (miner_tx bl) (cv_transaction_hash cv (miner_tx bl)) bl_id h (get_actual_timestamp bl) st")
  case (Pair r st1)
  have k: "blocks_part st1 = blocks_part st" using Pair by (rule keeps)
  define bt where "bt = \<lparr>bt_processed = 0, bt_fee_summary = 0,
    bt_cumulative_size = (if CURRENCY_COINBASE_BLOB_RESERVED_SIZE < cv_blob_size cv (miner_tx bl) then cv_blob_size cv (miner_tx bl) else 0),
    bt_block_fees = [], bt_gindices = append_per_block_increments_for_tx (miner_tx bl) (\<lambda>_. 0)\<rparr>"
  have l: "blocks_part (loop_state (block_txs_loop cv bl bl_id h (tx_hashes bl) bt st1)) = blocks_part st"
    using block_txs_keeps k by simp
  have e: "add_block_txs cv bl bl_id d ph h bvc st = (if \<not> r then verification_failed bvc st1
      else case block_txs_loop cv bl bl_id h (tx_hashes bl) bt st1 of
        Inl st \<Rightarrow> verification_failed bvc st
      | Inr (bt, st2) \<Rightarrow> connect_block cv bl bl_id d ph (aliases_count st) bt bvc st2)"
    unfolding add_block_txs_def Pair Let_def bt_def by (cases r) simp_all
  show ?thesis
  proof (cases "block_txs_loop cv bl bl_id h (tx_hashes bl) bt st1")
    case (Inl st2)
    then show ?thesis using e k l by (cases r) simp_all
  next
    case (Inr q)
    obtain bt2 st2 where q: "q = (bt2, st2)" by (cases q)
    have "blocks_part st2 = blocks_part st" using l Inr q by simp
    from outcome_ok_cong [OF this] have "block_outcome_ok bl bl_id st (connect_block cv bl bl_id d ph (aliases_count st) bt2 bvc st2)"
      using connect_block_blocks by metis
    then show ?thesis using e k Inr q by (cases r) simp_all
  qed
qed

lemma next_diff_keeps: "get_next_diff_conditional pos st = Some (d, st') \<Longrightarrow> blocks_part st' = blocks_part st"
  by (auto simp: get_next_diff_conditional_def split: if_split_asm option.splits)

lemma handle_block_blocks: "block_outcome_ok bl bl_id st (handle_block_to_main_chain cv bl bl_id bvc st)"
proof -
  have z: "blocks_part (st\<lparr>bs_is_in_checkpoint_zone := z\<rparr>) = blocks_part st" for z by simp
  have a: "block_outcome_ok bl bl_id st (add_block_txs cv bl bl_id d ph h bvc st')" if "blocks_part st' = blocks_part st" for d ph h st'
    using add_block_txs_blocks outcome_ok_cong [OF that] by blast
  show ?thesis
    unfolding handle_block_to_main_chain_def Let_def
    by (auto split: option.split checked.split dest!: next_diff_keeps intro!: a)
qed

subsection \<open>The links between the blocks\<close>

text \<open>
  Every block carries its height, is found in the index under its hash, names the one before it, and has an entry in the table
  of the increments; neither table has anything else.
\<close>

abbreviation id_of :: "chain_view \<Rightarrow> block_extended_info \<Rightarrow> hash" where
  "id_of cv bei \<equiv> cv_block_hash cv (bei_bl bei)"

definition linked :: "chain_view \<Rightarrow> block_extended_info list \<times> (hash \<rightharpoonup> u64) \<times> (u32 \<rightharpoonup> gindex_increment list) \<times> 'a \<Rightarrow> bool" where
  "linked cv p = (case p of (bs, idx, incs, _) \<Rightarrow>
     length bs < 2 ^ 32 \<and>
     (\<forall>h < length bs. bei_height (bs ! h) = of_nat h \<and> idx (id_of cv (bs ! h)) = Some (of_nat h) \<and>
        (0 < h \<longrightarrow> prev_id (bei_bl (bs ! h)) = id_of cv (bs ! (h - 1)))) \<and>
     dom idx = id_of cv ` set bs \<and> dom incs = of_nat ` {..<length bs})"

definition chain_linked :: "chain_view \<Rightarrow> blockchain_storage \<Rightarrow> bool" where
  "chain_linked cv st \<longleftrightarrow> linked cv (blocks_part st)"

lemma of_nat_u32_inj: "i < 2 ^ 32 \<Longrightarrow> j < 2 ^ 32 \<Longrightarrow> (of_nat i :: u32) = of_nat j \<longleftrightarrow> i = j"
  by (simp add: word_of_nat_eq_iff take_bit_nat_eq_self)

lemma of_nat_u64_inj: "i < 2 ^ 32 \<Longrightarrow> j < 2 ^ 32 \<Longrightarrow> (of_nat i :: u64) = of_nat j \<longleftrightarrow> i = j"
  by (simp add: word_of_nat_eq_iff take_bit_nat_eq_self)

lemma ucast_of_nat_u32: "n < 2 ^ 32 \<Longrightarrow> (ucast (of_nat n :: u64) :: u32) = of_nat n"
  by (simp add: unsigned_of_nat take_bit_nat_eq_self)

lemma linked_append:
  assumes l: "linked cv (bs, idx, incs, c)" and n: "length bs + 1 < 2 ^ 32" and "bei_height bei = of_nat (length bs)"
    and "idx (id_of cv bei) = None" and p: "bs \<noteq> [] \<longrightarrow> prev_id (bei_bl bei) = id_of cv (last bs)"
  shows "linked cv (bs @ [bei], idx(id_of cv bei \<mapsto> of_nat (length bs)), incs(of_nat (length bs) \<mapsto> x), c')"
proof -
  have i: "idx (id_of cv (bs ! h)) = Some (of_nat h)" "bei_height (bs ! h) = of_nat h" if "h < length bs" for h
    using l that by (auto simp: linked_def)
  have "id_of cv (bs ! h) \<noteq> id_of cv bei" if "h < length bs" for h using i(1) [OF that] assms(4) by auto
  then show ?thesis using l n assms(3) p i
    by (auto simp: linked_def nth_append last_conv_nth less_Suc_eq lessThan_Suc)
qed

lemma linked_butlast:
  assumes l: "linked cv (bs, idx, incs, c)" and "bs \<noteq> []"
  shows "linked cv (butlast bs, idx(id_of cv (last bs) := None), incs(ucast (bei_height (last bs)) := None), c')"
proof -
  obtain xs y where b: "bs = xs @ [y]" using assms(2) by (metis append_butlast_last_id)
  have n: "length xs < 2 ^ 32" and "bei_height y = of_nat (length xs)" and iy: "idx (id_of cv y) = Some (of_nat (length xs))"
    using l unfolding linked_def b by (auto dest: spec [of _ "length xs"])
  then have hy: "(ucast (bei_height y) :: u32) = of_nat (length xs)" using n by (simp add: ucast_of_nat_u32)
  have i: "idx (id_of cv (xs ! h)) = Some (of_nat h)" if "h < length xs" for h
    using l that unfolding linked_def b by (auto dest!: spec [of _ h] simp: nth_append)
  have ne: "id_of cv (xs ! h) \<noteq> id_of cv y" if "h < length xs" for h
    using i [OF that] iy that n of_nat_u64_inj [of h "length xs"] by auto
  have "dom (idx(id_of cv y := None)) = id_of cv ` set xs"
  proof -
    have "id_of cv y \<notin> id_of cv ` set xs" using ne by (metis image_iff in_set_conv_nth)
    then show ?thesis using l by (simp add: linked_def b)
  qed
  moreover have "dom (incs(of_nat (length xs) := None)) = of_nat ` {..<length xs}"
  proof -
    have "(of_nat (length xs) :: u32) \<notin> of_nat ` {..<length xs}"
    proof
      assume "(of_nat (length xs) :: u32) \<in> of_nat ` {..<length xs}"
      then obtain h where "h < length xs" "(of_nat (length xs) :: u32) = of_nat h" by blast
      then show False using n of_nat_u32_inj [of "length xs" h] by simp
    qed
    then show ?thesis using l by (simp add: linked_def b lessThan_Suc)
  qed
  moreover have "bei_height (xs ! h) = of_nat h \<and> idx (id_of cv (xs ! h)) = Some (of_nat h) \<and>
      (0 < h \<longrightarrow> prev_id (bei_bl (xs ! h)) = id_of cv (xs ! (h - 1)))" if "h < length xs" for h
    using l that unfolding linked_def b by (auto dest!: spec [of _ h] simp: nth_append)
  ultimately show ?thesis using n ne hy by (auto simp: linked_def b)
qed

lemma linked_links:
  assumes "linked cv (blocks_part st)"
  shows "validate_blockchain_prev_links cv n st"
  using assms
  by (auto simp: validate_blockchain_prev_links_def linked_def blocks_part_def prev_link_ok_def list_all_iff)

subsection \<open>Every history of the chain\<close>

text \<open>The steps of the chain: a block is handled, at any time of the clock, blocks come off, the checkpoints change or are checked.\<close>

inductive chain_step :: "chain_view \<Rightarrow> blockchain_storage \<Rightarrow> blockchain_storage \<Rightarrow> bool" for cv where
  handled: "handle_block_to_main_chain (cv\<lparr>cv_core_time := t\<rparr>) bl (cv_block_hash cv bl) bvc st = Inr (r, bvc', st') \<Longrightarrow>
    length (bs_blocks st') < 2 ^ 32 \<Longrightarrow> chain_step cv st st'"
| thrown: "handle_block_to_main_chain (cv\<lparr>cv_core_time := t\<rparr>) bl (cv_block_hash cv bl) bvc st = Inl st' \<Longrightarrow> chain_step cv st st'"
| popped: "pop_block_from_blockchain cv p st = (r, st') \<Longrightarrow> chain_step cv st st'"
| truncated: "truncate_blockchain cv h st = (r, st') \<Longrightarrow> chain_step cv st st'"
| rolled_back: "rollback_blockchain_switching cv k st = (r, st') \<Longrightarrow> chain_step cv st st'"
| checkpoints_set: "set_checkpoints c st = (r, st') \<Longrightarrow> chain_step cv st st'"
| checkpoints_checked: "validate_checkpoints cv st = (r, st') \<Longrightarrow> chain_step cv st st'"

lemma pop_block_linked:
  assumes "pop_block_from_blockchain cv p st = (r, st')" and "linked cv (blocks_part st)"
  shows "linked cv (blocks_part st') \<and> (if r then bs_blocks st' = butlast (bs_blocks st) else bs_blocks st' = bs_blocks st)"
proof (cases "length (bs_blocks st) \<le> 1")
  case False
  obtain q f X where X: "purge_block_data_from_blockchain cv (bei_bl (last (bs_blocks st))) (length (tx_hashes (bei_bl (last (bs_blocks st))))) p st = (q, f, X)"
    by (cases "purge_block_data_from_blockchain cv (bei_bl (last (bs_blocks st))) (length (tx_hashes (bei_bl (last (bs_blocks st))))) p st")
  have k: "blocks_part X = blocks_part st" using X by (rule keeps)
  have "bs_blocks st \<noteq> []" using False by auto
  from linked_butlast [OF assms(2) [unfolded blocks_part_def] this] show ?thesis
    using assms(1) X k blocks_part_parts [OF k] False assms(2)
    by (auto simp: pop_block_from_blockchain_def Let_def pop_block_from_per_block_increments_def blocks_part_def split: if_split_asm)
qed (use assms in \<open>simp add: pop_block_from_blockchain_def\<close>)

lemma truncate_loop_linked:
  "truncate_loop cv n h st = (r, st') \<Longrightarrow> linked cv (blocks_part st) \<Longrightarrow> linked cv (blocks_part st')"
proof (induction n arbitrary: st)
  case (Suc n)
  then show ?case
    by (auto split: if_split_asm prod.splits bool.splits dest: pop_block_linked)
qed simp

lemma clear_altblocks_linked: "linked cv (blocks_part (clear_altblocks st)) = linked cv (blocks_part st)"
  by (simp add: clear_altblocks_def linked_def blocks_part_def)

lemma rollback_keeps: "rollback_txs cv hs st = (r, st') \<Longrightarrow> blocks_part st' = blocks_part st"
  by (induction hs arbitrary: st) (auto simp: Let_def split: option.splits if_split_asm prod.splits)

lemma prune_txs_keeps: "prune_txs h hs st = (r, st') \<Longrightarrow> blocks_part st' = blocks_part st"
  by (induction hs arbitrary: st) (auto split: option.splits if_split_asm)

lemma prune_blocks_keeps: "prune_blocks hs st = (r, st') \<Longrightarrow> blocks_part st' = blocks_part st"
  by (induction hs arbitrary: st)
    (auto simp: prune_ring_signatures_and_attachments_def split: prod.splits bool.splits if_split_asm dest!: prune_txs_keeps)

lemma prune_if_need_keeps: "prune_ring_signatures_and_attachments_if_need st = (r, st') \<Longrightarrow> blocks_part st' = blocks_part st"
  by (auto simp: prune_ring_signatures_and_attachments_if_need_def Let_def split: prod.splits bool.splits if_split_asm dest!: prune_blocks_keeps)

lemma validate_checkpoints_keeps: "validate_checkpoints cv st = (r, st') \<Longrightarrow> blocks_part st' = blocks_part st"
proof -
  have "blocks_part (snd (prune_ring_signatures_and_attachments_if_need s)) = blocks_part s" for s
    by (metis prune_if_need_keeps prod.collapse)
  then show "validate_checkpoints cv st = (r, st') \<Longrightarrow> blocks_part st' = blocks_part st"
    by (auto simp: validate_checkpoints_def Let_def split: if_split_asm)
qed

lemma handled_linked:
  assumes "block_outcome_ok bl (cv_block_hash cv bl) st (Inr (True, bvc, st'))" and l: "linked cv (blocks_part st)"
    and n: "length (bs_blocks st') < 2 ^ 32" and p: "prev_id bl = get_top_block_id cv st"
  shows "linked cv (blocks_part st')"
proof -
  let ?n = "length (bs_blocks st)"
  obtain bei incs where b: "bei_bl bei = bl" "bei_height bei = of_nat ?n" "bs_blocks_index st (cv_block_hash cv bl) = None"
    "blocks_part st' = (bs_blocks st @ [bei], (bs_blocks_index st)(cv_block_hash cv bl \<mapsto> of_nat ?n),
       (bs_per_block_gindex_incs st)(ucast (of_nat ?n :: u64) \<mapsto> incs), beside_blocks st)"
    using assms(1) by (auto simp: block_appended_def get_current_blockchain_size_def)
  have n1: "?n + 1 < 2 ^ 32" using b(4) n by (simp add: blocks_part_def)
  have "linked cv (bs_blocks st, bs_blocks_index st, bs_per_block_gindex_incs st, beside_blocks st)"
    using l by (simp add: blocks_part_def)
  from linked_append [OF this n1, of bei] show ?thesis
    using b p n1 by (simp add: get_top_block_id_def ucast_of_nat_u32)
qed

lemma handled_refers_to_top:
  "handle_block_to_main_chain cv bl bl_id bvc st = Inr (True, bvc', st') \<Longrightarrow> prev_id bl = get_top_block_id cv st"
  by (auto simp: handle_block_to_main_chain_def split: if_split_asm)

lemma step_linked: "chain_step cv st st' \<Longrightarrow> linked cv (blocks_part st) \<Longrightarrow> linked cv (blocks_part st')"
proof (induction rule: chain_step.induct)
  case (handled t bl bvc st r bvc' st')
  let ?cv = "cv\<lparr>cv_core_time := t\<rparr>"
  have o: "block_outcome_ok bl (cv_block_hash cv bl) st (Inr (r, bvc', st'))"
    using handle_block_blocks [of bl "cv_block_hash cv bl" st ?cv bvc] handled(1) by simp
  show ?case
  proof (cases r)
    case True
    then have "prev_id bl = get_top_block_id cv st"
      using handled_refers_to_top [of ?cv bl] handled(1) by (simp add: get_top_block_id_def)
    then show ?thesis using handled_linked [OF _ handled(3,2)] o True by simp
  qed (use o handled in simp)
next
  case (thrown t bl bvc st st')
  then show ?case using handle_block_blocks [of bl "cv_block_hash cv bl" st "cv\<lparr>cv_core_time := t\<rparr>" bvc] by simp
next
  case (popped p st r st')
  then show ?case using pop_block_linked by blast
next
  case (truncated h st r st')
  then show ?case
    by (auto simp: truncate_blockchain_def clear_altblocks_linked simp del: truncate_loop.simps split: prod.splits dest: truncate_loop_linked)
next
  case (rolled_back k st r st')
  then show ?case by (auto simp: rollback_blockchain_switching_def dest: rollback_keeps)
next
  case (checkpoints_set c st r st')
  then have "st' = st\<lparr>bs_checkpoints := c\<rparr>" by (simp add: set_checkpoints_def)
  then show ?case using checkpoints_set(2) by (simp add: linked_def blocks_part_def)
next
  case (checkpoints_checked st r st')
  then show ?case by (simp add: validate_checkpoints_keeps)
qed

text \<open>C14: Whatever blocks arrive, whatever becomes of them, and however often blocks are taken off again: every block of the main
  chain carries its height and the hash of the block before it, the index finds exactly the blocks of the chain, each at its
  height, and the table of the increments covers exactly their heights; in particular the consistency check
  \<open>validate_blockchain_prev_links\<close>, whose failure the code reports as an epic failure, never fails.\<close>
theorem chain_always_linked:
  assumes "(chain_step cv)\<^sup>*\<^sup>* st st'" and "chain_linked cv st"
  shows "chain_linked cv st' \<and> validate_blockchain_prev_links cv n st'"
  using assms
proof (induction rule: rtranclp_induct)
  case base
  then show ?case by (simp add: chain_linked_def linked_links)
next
  case (step y z)
  then show ?case by (metis chain_linked_def step_linked linked_links)
qed

text \<open>The state in which the transactions of a block are added: the zone and the cache of the difficulties are set before.\<close>

definition headed :: "blockchain_storage \<Rightarrow> bool \<Rightarrow> difficulty_cache \<Rightarrow> blockchain_storage" where
  "headed st z c = st\<lparr>bs_is_in_checkpoint_zone := z, bs_diff_cache := c\<rparr>"

subsection \<open>Instances\<close>

text \<open>A chain of one block, a clock, and a block of work for it whose coinbase pays the reward; its hash is the smallest one.\<close>

definition block_view :: chain_view where
  "block_view = demo_chain_view\<lparr>cv_block_hash := (\<lambda>b. if nonce b = 0 then [9] else [2]), cv_longhash := (\<lambda>_. replicate 32 0)\<rparr>"

definition coinbase_tx :: "u64 \<Rightarrow> u64 \<Rightarrow> transaction" where
  "coinbase_tx h amount = \<lparr>tx_version = 1, vin = [TxinGen \<lparr>gen_height = h\<rparr>],
     vout = [\<lparr>out_amount = amount, out_target = TxoutToKey \<lparr>out_key = [7], mix_attr = 0\<rparr>\<rparr>],
     extra = [EtcTxDetailsUnlockTime (h + CURRENCY_MINED_MONEY_UNLOCK_WINDOW)], signatures = [], attachment = []\<rparr>"

definition demo_block :: "u64 \<Rightarrow> hash \<Rightarrow> u64 \<Rightarrow> hash list \<Rightarrow> block" where
  "demo_block h prev amount txs = \<lparr>major_version = 1, minor_version = 0, timestamp = 500, prev_id = prev, nonce = h, block_flags = 0,
     miner_tx = coinbase_tx h amount, tx_hashes = txs\<rparr>"

definition spent_entry :: transaction_chain_entry where
  "spent_entry = \<lparr>tce_tx = \<lparr>tx_version = 1, vin = [TxinToKey ref_input], vout = [], extra = [], signatures = [], attachment = []\<rparr>,
     tce_keeper_block_height = 0, tce_global_output_indexes = [], tce_spent_flags = []\<rparr>"

text \<open>The genesis block is said to hold a transaction that spends a key image.\<close>

definition genesis_store :: blockchain_storage where
  "genesis_store = (demo_store False)\<lparr>bs_blocks := [empty_bei (demo_block 0 null_hash 0 [])], bs_blocks_index := [[9] \<mapsto> 0],
     bs_per_block_gindex_incs := [0 \<mapsto> []], bs_transactions := [[3] \<mapsto> spent_entry], bs_spent_keys := [tk_k_image ref_input \<mapsto> 0], bs_outputs := (\<lambda>_. []), bs_multisig_outs := Map.empty\<rparr>"

abbreviation first_reward :: u64 where
  "first_reward \<equiv> get_base_block_reward False 0 1"

lemma zero_hash_passes: "check_hash (replicate 32 0) 1"
  by code_simp

lemma genesis_parts [simp]:
  "bs_blocks genesis_store = [empty_bei (demo_block 0 null_hash 0 [])]" "bs_blocks_index genesis_store = [[9] \<mapsto> 0]"
  "bs_transactions genesis_store = [[3] \<mapsto> spent_entry]" "bs_checkpoints genesis_store = []" "bs_multisig_outs genesis_store = Map.empty"
  "bs_per_block_gindex_incs genesis_store = [0 \<mapsto> []]" "bs_spent_keys genesis_store = [tk_k_image ref_input \<mapsto> 0]"
  "bs_aliases genesis_store = Map.empty" "bs_addr_to_alias genesis_store = Map.empty" "bs_outputs genesis_store = (\<lambda>_. [])"
  "bs_services genesis_store = with_market demo_view empty_offers_service" "bs_current_fee_median_effective_index genesis_store = 0"
  "bs_tx_pool genesis_store = empty_pool" "bs_diff_cache genesis_store = difficulty_cache_init"
  by (simp_all add: genesis_store_def demo_store_def)

lemma empty_bei_block [simp]: "bei_bl (empty_bei bl) = bl" by (simp add: empty_bei_def)

lemma demo_block_parts [simp]:
  "prev_id (demo_block h p a ts) = p" "timestamp (demo_block h p a ts) = 500" "miner_tx (demo_block h p a ts) = coinbase_tx h a"
  "tx_hashes (demo_block h p a ts) = ts" "nonce (demo_block h p a ts) = h" "\<not> is_pos_block (demo_block h p a ts)"
  "get_actual_timestamp (demo_block h p a ts) = 500"
  by (simp_all add: demo_block_def is_pos_block_def get_actual_timestamp_def)

lemma coinbase_parts [simp]:
  "vin (coinbase_tx h a) = [TxinGen \<lparr>gen_height = h\<rparr>]" "attachment (coinbase_tx h a) = []" "length (vout (coinbase_tx h a)) = 1"
  "is_coinbase (coinbase_tx h a)"
  by (simp_all add: coinbase_tx_def is_coinbase_def)

lemma coinbase_prevalidated:
  "prevalidate_miner_transaction (demo_block h p a ts) h False"
  by (simp add: prevalidate_miner_transaction_def is_pow_coinbase_def get_block_height_def get_tx_unlock_time_def check_outs_overflow_def)
    (simp add: coinbase_tx_def)

lemma block_view_parts [simp]:
  "cv_longhash block_view b = replicate 32 0" "cv_block_hash block_view b = (if nonce b = 0 then [9] else [2])"
  "cv_core_time block_view = 1000" "cv_transaction_hash block_view t = [1]" "cv_blob_size block_view t = 300"
  "cv_amounts block_view g = []" "cv_pos_minimum_heigh block_view = 0"
  by (simp_all add: block_view_def demo_chain_view_def)

text \<open>The coinbase as it is added.\<close>

definition coinbase_added :: "u64 \<Rightarrow> u64 \<Rightarrow> blockchain_storage \<Rightarrow> blockchain_storage" where
  "coinbase_added h a st = st\<lparr>bs_outputs := (bs_outputs st)(a := bs_outputs st a @ [\<lparr>go_tx_id = [1], go_out_no = 0\<rparr>]),
     bs_transactions := (bs_transactions st)([1] \<mapsto> \<lparr>tce_tx = coinbase_tx h a, tce_keeper_block_height = h,
       tce_global_output_indexes = [of_nat (length (bs_outputs st a))], tce_spent_flags = [False]\<rparr>)\<rparr>"

lemma coinbase_adds:
  assumes "bs_transactions st [1] = None"
  shows "add_transaction_from_block block_view (coinbase_tx h a) [1] bl_id h 500 st = (True, coinbase_added h a st)"
proof -
  have e: "\<not> bs_is_tx_expired (coinbase_tx h a) st"
    by (simp add: bs_is_tx_expired_def is_tx_expired_def get_tx_expiration_time_def coinbase_tx_def)
  have p: "process_blockchain_tx_extra block_view (coinbase_tx h a) st = (True, st)"
    by (simp add: process_blockchain_tx_extra_def parse_and_validate_tx_extra_def coinbase_tx_def extra_handler_def)
  have s: "process_blockchain_tx_attachments (coinbase_tx h a) h bl_id 500 (bs_services st) = bs_services st"
    by (simp add: process_blockchain_tx_attachments_def)
  have i: "add_inputs h (vin (coinbase_tx h a)) st = (True, st)" by (simp add: add_input_def)
  have u: "st\<lparr>bs_services := bs_services st\<rparr> = st" by simp
  have o: "push_transaction_to_global_outs_index block_view (coinbase_tx h a) [1] [] st =
    (True, [of_nat (length (bs_outputs st a))],
      st\<lparr>bs_outputs := (bs_outputs st)(a := bs_outputs st a @ [\<lparr>go_tx_id = [1], go_out_no = 0\<rparr>])\<rparr>)"
    by (simp add: push_transaction_to_global_outs_index_def coinbase_tx_def Let_def)
  show ?thesis
    unfolding add_transaction_from_block_def p using e assms
    by (simp add: s u i [simplified] o coinbase_added_def Let_def)
qed


lemma zone_parts:
  "blocks_part (coinbase_added h a st) = blocks_part st" "bs_blocks (coinbase_added h a st) = bs_blocks st"
  "bs_blocks_index (coinbase_added h a st) = bs_blocks_index st" "bs_aliases (coinbase_added h a st) = bs_aliases st"
  "bs_current_fee_median_effective_index (coinbase_added h a st) = bs_current_fee_median_effective_index st"
  "bs_tx_pool (coinbase_added h a st) = bs_tx_pool st"
  by (simp_all add: coinbase_added_def)

lemma genesis_top: "get_top_block_id block_view genesis_store = [9]" "get_current_blockchain_size genesis_store = 1"
  by (simp_all add: get_top_block_id_def get_current_blockchain_size_def)

definition genesis_headed :: blockchain_storage where
  "genesis_headed = headed genesis_store False (difficulty_cache_set difficulty_cache_init 1 False 1)"

text \<open>The checks of the head of the block pass.\<close>

lemma demo_block_headed:
  "handle_block_to_main_chain block_view (demo_block 1 [9] a ts) [2] bvc genesis_store =
    add_block_txs block_view (demo_block 1 [9] a ts) [2] 1 (replicate 32 0) 1 bvc genesis_headed"
proof -
  have t: "check_block_timestamp_main block_view (demo_block 1 [9] a ts) genesis_store"
    by (simp add: check_block_timestamp_main_def check_block_timestamp_def get_adjusted_time_def CURRENCY_BLOCK_FUTURE_TIME_LIMIT_def
        get_last_n_blocks_timestamps_def complete_timestamps_vector_def BLOCKCHAIN_TIMESTAMP_CHECK_WINDOW_def)
  have z: "is_in_checkpoint_zone 1 (bs_checkpoints genesis_store) = False"
    by (simp add: is_in_checkpoint_zone_def)
  have d: "get_next_diff_conditional False (genesis_store\<lparr>bs_is_in_checkpoint_zone := False\<rparr>) = Some (1, genesis_headed)"
    by (simp add: get_next_diff_conditional_def retarget_def difficulty_blocks_def next_difficulty_def DIFFICULTY_STARTER_def
        genesis_headed_def headed_def)
  have p: "check_block_proof block_view (demo_block 1 [9] a ts) 1 [2] st = Passed (replicate 32 0)" for st
    by (simp only: check_block_proof_def demo_block_parts block_view_parts zero_hash_passes if_True if_False)
  show ?thesis
    unfolding handle_block_to_main_chain_def Let_def genesis_top z
    by (simp add: t d p coinbase_prevalidated genesis_top)
qed

lemma demo_block_txs:
  "add_block_txs block_view (demo_block 1 [9] a ts) [2] 1 (replicate 32 0) 1 bvc genesis_headed =
    (case block_txs_loop block_view (demo_block 1 [9] a ts) [2] 1 ts
         \<lparr>bt_processed = 0, bt_fee_summary = 0, bt_cumulative_size = 0, bt_block_fees = [],
          bt_gindices = append_per_block_increments_for_tx (coinbase_tx 1 a) (\<lambda>_. 0)\<rparr> (coinbase_added 1 a genesis_headed) of
       Inl st \<Rightarrow> verification_failed bvc st
     | Inr (bt, st) \<Rightarrow> connect_block block_view (demo_block 1 [9] a ts) [2] 1 (replicate 32 0) 0 bt bvc st)"
proof -
  have "bs_transactions genesis_headed [1] = None" by (simp add: genesis_headed_def headed_def)
  from coinbase_adds [OF this] show ?thesis
    by (simp add: add_block_txs_def aliases_count_def genesis_headed_def headed_def CURRENCY_COINBASE_BLOB_RESERVED_SIZE_def Let_def)
qed

text \<open>The block that pays its reward is connected.\<close>

lemma demo_block_added:
  obtains st' where "handle_block_to_main_chain block_view (demo_block 1 [9] first_reward []) [2] bvc genesis_store =
    Inr (True, bvc\<lparr>bv_added_to_main_chain := True\<rparr>, st')"
proof -
  let ?bl = "demo_block 1 [9] first_reward []"
  let ?st = "coinbase_added 1 first_reward genesis_headed"
  have st: "bs_blocks ?st = [empty_bei (demo_block 0 null_hash 0 [])]" "bs_blocks_index ?st [2] = None" "bs_aliases ?st = Map.empty"
    "bs_current_fee_median_effective_index ?st = 0"
    by (simp_all add: zone_parts genesis_headed_def headed_def)
  have v: "validate_miner_transaction ?bl 0 0 (total_coins ?st) ?st = Some first_reward"
  proof -
    have "get_outs_money_amount (coinbase_tx 1 first_reward) = first_reward" by (simp add: get_outs_money_amount_def coinbase_tx_def)
    moreover have "get_block_height (coinbase_tx 1 first_reward) = 1"
      by (simp add: get_block_height_def)
    moreover have "total_coins ?st = 0" by (simp add: total_coins_def st empty_bei_def)
    moreover have "\<exists>sz. get_last_n_blocks_sizes CURRENCY_REWARD_BLOCKS_WINDOW ?st = Some sz"
      by (simp add: get_last_n_blocks_sizes_def get_backward_blocks_sizes_def st Let_def)
    moreover have "get_block_reward False m 0 0 1 = Some first_reward" for m
      by (simp add: get_block_reward_def Let_def)
    ultimately show ?thesis by (auto simp: validate_miner_transaction_def Let_def)
  qed
  have m: "\<exists>m st'. next_effective_fee_median ?st = Some (m, st')"
    by (simp add: next_effective_fee_median_def get_current_blockchain_size_def st get_tx_fee_median_def
        ALIAS_MEDIAN_RECALC_INTERWAL_def CURRENCY_BLOCKS_PER_DAY_def get_tx_fee_median_effective_index_def Let_def)
  have "\<exists>st'. connect_block block_view ?bl [2] 1 (replicate 32 0) 0
      \<lparr>bt_processed = 0, bt_fee_summary = 0, bt_cumulative_size = 0, bt_block_fees = [], bt_gindices = g\<rparr> bvc ?st =
      Inr (True, bvc\<lparr>bv_added_to_main_chain := True\<rparr>, st')" for g
    using v m st by (auto simp: connect_block_def aliases_count_def Let_def)
  then show thesis using that by (auto simp: demo_block_headed demo_block_txs)
qed

lemma genesis_linked: "chain_linked cv genesis_store \<longleftrightarrow> id_of cv (empty_bei (demo_block 0 null_hash 0 [])) = [9]"
  by (auto simp: chain_linked_def linked_def blocks_part_def empty_bei_def)

theorem chain_always_linked_witness:
  "\<exists>st' bvc. chain_step block_view genesis_store st' \<and> bs_blocks st' \<noteq> bs_blocks genesis_store \<and>
    chain_linked block_view st' \<and> validate_blockchain_prev_links block_view 10 st'"
proof -
  define bvc where "bvc = \<lparr>bv_added_to_main_chain = False, bv_verification_failed = False, bv_marked_as_orphaned = False,
    bv_already_exists = False, bv_added_to_altchain = False, bv_height_difference = 0\<rparr>"
  let ?bl = "demo_block 1 [9] first_reward []"
  obtain st' where h: "handle_block_to_main_chain block_view ?bl [2] bvc genesis_store = Inr (True, bvc\<lparr>bv_added_to_main_chain := True\<rparr>, st')"
    by (rule demo_block_added)
  have "block_appended ?bl [2] genesis_store st'"
    using handle_block_blocks [of ?bl "[2]" genesis_store block_view bvc] h by simp
  then have b: "length (bs_blocks st') = 2" by (auto simp: block_appended_def blocks_part_def)
  have "handle_block_to_main_chain (block_view\<lparr>cv_core_time := 1000\<rparr>) ?bl (cv_block_hash block_view ?bl) bvc genesis_store =
      Inr (True, bvc\<lparr>bv_added_to_main_chain := True\<rparr>, st')"
    using h by (simp add: block_view_def demo_chain_view_def)
  then have s: "chain_step block_view genesis_store st'" by (rule handled) (simp add: b)
  have "chain_linked block_view st' \<and> validate_blockchain_prev_links block_view 10 st'"
    using chain_always_linked [of block_view genesis_store st' 10] s by (simp add: r_into_rtranclp genesis_linked)
  moreover have "bs_blocks st' \<noteq> bs_blocks genesis_store"
  proof
    assume "bs_blocks st' = bs_blocks genesis_store"
    then have "length (bs_blocks st') = 1" by simp
    then show False using b by simp
  qed
  ultimately show ?thesis using s by blast
qed

end
