(* ===== verification/ChainUndo.thy ===== *)
theory ChainUndo
  imports ChainRuns
begin

section \<open>Unwinding a block\<close>

text \<open>
  The effects of a block on the tables, the aliases and the market are taken back: when a block comes off the chain, and when a
  block fails after some of its transactions were added. The proofs rest on the law of ChainLaws.thy for one transaction.
\<close>

subsection \<open>What an added transaction leaves\<close>

lemma added_rest:
  assumes "add_transaction_from_block cv tx t bl_id h ts st = (True, st')" and "aliases_ok st"
  shows "aliases_ok st' \<and> bs_services st' = process_blockchain_tx_attachments tx h bl_id ts (bs_services st) \<and> bs_tx_pool st' = bs_tx_pool st"
proof -
  obtain st1 st2 gi st3 where a: "process_blockchain_tx_extra cv tx st = (True, st1)"
    and ai: "add_inputs h (vin tx) (st1\<lparr>bs_services := process_blockchain_tx_attachments tx h bl_id ts (bs_services st1)\<rparr>) = (True, st2)"
    and po: "push_outs cv tx t 0 (vout tx) [] st2 = (True, gi, st3)"
    and st': "st' = st3\<lparr>bs_transactions := (bs_transactions st3)(t \<mapsto>
       \<lparr>tce_tx = tx, tce_keeper_block_height = h, tce_global_output_indexes = gi,
        tce_spent_flags = replicate (length (vout tx)) False\<rparr>)\<rparr>"
    by (rule add_transaction_success [OF assms(1)])
  obtain al ev c d where al: "st1 = with_aliases al ev (st\<lparr>bs_current_fee_median := c, bs_current_fee_median_effective_index := d\<rparr>)"
    "\<And>n. al n \<noteq> Some []"
    by (rule extra_processed [OF assms(2) a]) blast
  obtain outs ms where o3: "st3 = st2\<lparr>bs_outputs := outs, bs_multisig_outs := ms\<rparr>"
    using push_outs_success [OF po] by blast
  obtain txs2 ks mo where w2: "st2 = with_tables ks mo txs2 (st1\<lparr>bs_services := process_blockchain_tx_attachments tx h bl_id ts (bs_services st1)\<rparr>)"
    using add_inputs_success [OF ai] by metis
  show ?thesis unfolding st' o3 w2 al(1) using al(2) by (simp add: aliases_ok_def)
qed

subsection \<open>The transactions added so far\<close>

text \<open>
  The transaction as an entry of the log of the market, taken off when the chain has the size \<open>ph\<close>.
\<close>

definition entry_of :: "block \<Rightarrow> u64 \<Rightarrow> transaction \<Rightarrow> blockchain_storage \<Rightarrow> chain_entry" where
  "entry_of bl ph tx st = \<lparr>ce_tx = tx, ce_height = get_current_blockchain_size st, ce_time = get_actual_timestamp bl, ce_pop_height = ph\<rparr>"

definition same_store :: "blockchain_storage \<Rightarrow> blockchain_storage \<Rightarrow> bool" where
  "same_store st st' \<longleftrightarrow> same_tables st st' \<and> bs_services st = bs_services st' \<and> bs_blocks st = bs_blocks st'"

text \<open>A run of additions: between them only the pool and the registers of the store change.\<close>

inductive txs_added :: "market_view \<Rightarrow> chain_view \<Rightarrow> block \<Rightarrow> hash \<Rightarrow> u64 \<Rightarrow> bool \<Rightarrow> bc_offers_service \<Rightarrow> blockchain_storage \<Rightarrow>
    hash list \<Rightarrow> bc_offers_service \<Rightarrow> blockchain_storage \<Rightarrow> bool"
  for mv cv bl bl_id ph p s0 st0 where
  none: "txs_added mv cv bl bl_id ph p s0 st0 [] s0 st0"
| one_more: "txs_added mv cv bl bl_id ph p s0 st0 ts s st \<Longrightarrow> same_store st1 st \<Longrightarrow> fresh_for mv (entry_of bl ph tx st1) s st1 \<Longrightarrow>
    pool_takes cv tx p \<Longrightarrow>
    add_transaction_from_block cv tx t bl_id (get_current_blockchain_size st1) (get_actual_timestamp bl) st1 = (True, st2) \<Longrightarrow>
    txs_added mv cv bl bl_id ph p s0 st0 (ts @ [t]) (tx_push mv (entry_of bl ph tx st1) s) st2"

lemma txs_added_state:
  assumes "txs_added mv cv bl bl_id ph p s0 st0 ts s st" and "aliases_ok st0" and "bs_services st0 = with_market mv s0"
  shows "aliases_ok st \<and> bs_services st = with_market mv s \<and> bs_blocks st = bs_blocks st0"
  using assms
proof (induction rule: txs_added.induct)
  case (one_more ts s st st1 tx t st2)
  have ok1: "aliases_ok st1" "bs_services st1 = with_market mv s" "bs_blocks st1 = bs_blocks st0"
    using one_more by (auto simp: same_store_def same_tables_def aliases_ok_def)
  have "bs_blocks st2 = bs_blocks st1" using add_transaction_keeps [OF one_more.hyps(5)] by (simp add: blocks_part_def)
  moreover have "aliases_ok st2 \<and> bs_services st2 = with_market mv (tx_push mv (entry_of bl ph tx st1) s)"
    using added_rest [OF one_more.hyps(5) ok1(1)] ok1(2) process_is_push [of "entry_of bl ph tx st1" bl_id mv s]
    by (simp add: entry_of_def)
  ultimately show ?case using ok1(3) by simp
qed simp

lemma purge_one:
  assumes add: "add_transaction_from_block cv tx t bl_id (get_current_blockchain_size st) (get_actual_timestamp bl) st = (True, st')"
    and "aliases_ok st" and "bs_services st = with_market mv s" and "fresh_for mv (entry_of bl ph tx st) s st"
    and "same_tables X st'" and "bs_services X = with_market mv s'" and "same_market s' (tx_push mv (entry_of bl ph tx st) s)"
    and "ph = get_current_blockchain_size X" and "pool_takes cv tx p"
  shows "\<exists>f Y s2. purge_transaction_from_blockchain cv t p X = (True, f, Y) \<and> same_tables Y st \<and> same_blocks Y X \<and>
    bs_services Y = with_market mv s2 \<and> same_market s2 s"
  using purge_undoes_add [of cv "entry_of bl ph tx st" t bl_id st st' mv s X s' p] assms
  by (simp add: entry_of_def) blast

lemma txs_added_purged:
  assumes "txs_added mv cv bl bl_id ph p s0 st0 ts s st" and "aliases_ok st0" and "bs_services st0 = with_market mv s0"
    and "same_tables X st" and "bs_services X = with_market mv s'" and "same_market s' s" and "ph = get_current_blockchain_size X"
  shows "\<exists>f' Y s2. purge_transactions_loop cv p (rev ts) res f X = (res, f', Y) \<and> same_tables Y st0 \<and> same_blocks Y X \<and>
    bs_services Y = with_market mv s2 \<and> same_market s2 s0"
  using assms
proof (induction arbitrary: X s' f rule: txs_added.induct)
  case none
  then show ?case by (auto simp: same_blocks_def)
next
  case (one_more ts s st st1 tx t st2)
  have st: "aliases_ok st1" "bs_services st1 = with_market mv s"
    using txs_added_state [OF one_more.hyps(1) one_more.prems(1,2)] one_more.hyps(2)
    by (auto simp: same_store_def same_tables_def aliases_ok_def)
  obtain f1 Y s2 where y: "purge_transaction_from_blockchain cv t p X = (True, f1, Y)" "same_tables Y st1" "same_blocks Y X"
    "bs_services Y = with_market mv s2" "same_market s2 s"
    using purge_one [OF one_more.hyps(5) st one_more.hyps(3) one_more.prems(3-6) one_more.hyps(4)] by blast
  have ph: "ph = get_current_blockchain_size Y" using one_more.prems(6) y(3) by (simp add: same_blocks_def get_current_blockchain_size_def)
  have "same_tables Y st" using y(2) one_more.hyps(2) by (simp add: same_store_def same_tables_def)
  from one_more.IH [OF one_more.prems(1,2) this y(4,5) ph, of "f + f1"]
  obtain f' Z s3 where "purge_transactions_loop cv p (rev ts) res (f + f1) Y = (res, f', Z)" "same_tables Z st0" "same_blocks Z Y"
    "bs_services Z = with_market mv s3" "same_market s3 s0" by blast
  moreover have "same_blocks Z X" if "same_blocks Z Y" using that y(3) by (simp add: same_blocks_def)
  ultimately show ?case using y(1) by auto
qed

subsection \<open>The whole block\<close>

text \<open>
  What the transactions of a block need for their effects to be undone: no output that they mark as spent was marked before,
  their numbers of outputs and attachments are within the types, the market accepts their commands, the pool takes back what
  goes to it, and none of them gets past the check of its inputs only to be refused by the tables.
\<close>

fun txs_fresh :: "market_view \<Rightarrow> chain_view \<Rightarrow> block \<Rightarrow> hash \<Rightarrow> u64 \<Rightarrow> bool \<Rightarrow> hash list \<Rightarrow> bc_offers_service \<Rightarrow> blockchain_storage \<Rightarrow> bool" where
  "txs_fresh mv cv bl bl_id ph p [] s st \<longleftrightarrow> True"
| "txs_fresh mv cv bl bl_id ph p (t # ts) s st \<longleftrightarrow>
     (case take_tx (cv_node_view cv st) t (bs_tx_pool st) of
        None \<Rightarrow> True
      | Some ((tx, blob_size, fee), pool) \<Rightarrow>
          let st = st\<lparr>bs_tx_pool := pool\<rparr>;
              tx = (if bs_is_in_checkpoint_zone st then prune_tx tx else tx)
          in check_tx_inputs cv tx t st \<noteq> None \<longrightarrow>
               fresh_for mv (entry_of bl ph tx st) s st \<and> pool_takes cv tx p \<and>
               (case add_transaction_from_block cv tx t bl_id (get_current_blockchain_size st) (get_actual_timestamp bl) st of
                  (False, _) \<Rightarrow> False
                | (True, st') \<Rightarrow> txs_fresh mv cv bl bl_id ph p ts (tx_push mv (entry_of bl ph tx st) s) st'))"

definition block_fresh :: "market_view \<Rightarrow> chain_view \<Rightarrow> block \<Rightarrow> hash \<Rightarrow> u64 \<Rightarrow> bool \<Rightarrow> bc_offers_service \<Rightarrow> blockchain_storage \<Rightarrow> bool" where
  "block_fresh mv cv bl bl_id ph p s st \<longleftrightarrow>
     fresh_for mv (entry_of bl ph (miner_tx bl) st) s st \<and>
     (case add_transaction_from_block cv (miner_tx bl) (cv_transaction_hash cv (miner_tx bl)) bl_id
             (get_current_blockchain_size st) (get_actual_timestamp bl) st of
        (False, _) \<Rightarrow> False
      | (True, st') \<Rightarrow> txs_fresh mv cv bl bl_id ph p (tx_hashes bl) (tx_push mv (entry_of bl ph (miner_tx bl) st) s) st')"

text \<open>How the loop ends: all transactions are added, or those added so far are purged again.\<close>

definition loop_end :: "market_view \<Rightarrow> chain_view \<Rightarrow> block \<Rightarrow> hash \<Rightarrow> u64 \<Rightarrow> bool \<Rightarrow> bc_offers_service \<Rightarrow> blockchain_storage \<Rightarrow>
    blockchain_storage + (block_totals \<times> blockchain_storage) \<Rightarrow> bool" where
  "loop_end mv cv bl bl_id ph p s0 st0 r =
     (case r of
        Inr (bt, st) \<Rightarrow> bt_processed bt = length (tx_hashes bl) \<and> (\<exists>s. txs_added mv cv bl bl_id ph p s0 st0 (tx_hashes bl) s st)
      | Inl st \<Rightarrow> \<exists>ts rest s st1 X. tx_hashes bl = ts @ rest \<and> txs_added mv cv bl bl_id ph p s0 st0 ts s st1 \<and>
          same_store X st1 \<and> same_store st (purge_failed_block cv bl (length ts) X))"

lemma same_store_refl [simp]: "same_store st st" by (simp add: same_store_def same_tables_def)

lemma same_store_upd [simp]:
  "same_store (st\<lparr>bs_tx_pool := q\<rparr>) st" "same_store (st\<lparr>bs_invalid_blocks := i\<rparr>) st"
  by (simp_all add: same_store_def same_tables_def)

lemma same_store_trans: "same_store a b \<Longrightarrow> same_store b c \<Longrightarrow> same_store a c"
  by (simp add: same_store_def same_tables_def)

lemma invalid_same_store: "same_store (snd (add_block_as_invalid cv bl h st)) st"
  by (simp add: add_block_as_invalid_def add_block_as_invalid_entry_def Let_def)

lemma bad_tx_same_store: "same_store (return_bad_tx cv tx h st) st"
  by (simp add: return_bad_tx_def split: prod.split)

lemma loop_ends:
  assumes "txs_added mv cv bl bl_id ph p s0 st0 ts s st" and "txs_fresh mv cv bl bl_id ph p rest s st"
    and "bt_processed bt = length ts" and "tx_hashes bl = ts @ rest"
  shows "loop_end mv cv bl bl_id ph p s0 st0 (block_txs_loop cv bl bl_id h rest bt st)"
  using assms
proof (induction rest arbitrary: ts s st bt)
  case Nil
  then show ?case by (auto simp: loop_end_def)
next
  case (Cons t rest)
  show ?case
  proof (cases "take_tx (cv_node_view cv st) t (bs_tx_pool st)")
    case None
    have "loop_end mv cv bl bl_id ph p s0 st0 (Inl (purge_failed_block cv bl (length ts) st))"
      unfolding loop_end_def using Cons.prems(1,4) same_store_refl by (simp del: same_store_refl) blast
    then show ?thesis using None Cons.prems(3) by simp
  next
    case (Some q)
    obtain tx0 sz fee pool where q: "q = ((tx0, sz, fee), pool)" by (metis prod.exhaust)
    define st1 where "st1 = st\<lparr>bs_tx_pool := pool\<rparr>"
    define tx where "tx = (if bs_is_in_checkpoint_zone st1 then prune_tx tx0 else tx0)"
    have same: "same_store st1 st" by (simp add: st1_def)
    show ?thesis
    proof (cases "check_tx_inputs cv tx t st1")
      case None
      have r: "same_store (return_bad_tx cv tx h st1) st" by (rule same_store_trans [OF bad_tx_same_store same])
      have "loop_end mv cv bl bl_id ph p s0 st0 (Inl (snd (add_block_as_invalid cv bl bl_id
          (purge_failed_block cv bl (length ts) (return_bad_tx cv tx h st1)))))"
        unfolding loop_end_def using Cons.prems(1,4) r invalid_same_store [of cv bl bl_id] by (simp only: sum.case) blast
      then show ?thesis using Some q None Cons.prems(3) unfolding tx_def st1_def by (simp add: Let_def)
    next
      case (Some mh)
      then have f: "fresh_for mv (entry_of bl ph tx st1) s st1" "pool_takes cv tx p"
        "case add_transaction_from_block cv tx t bl_id (get_current_blockchain_size st1) (get_actual_timestamp bl) st1 of
           (False, _) \<Rightarrow> False | (True, st') \<Rightarrow> txs_fresh mv cv bl bl_id ph p rest (tx_push mv (entry_of bl ph tx st1) s) st'"
        using Cons.prems(2) \<open>take_tx _ _ _ = Some q\<close> q unfolding tx_def st1_def by (simp_all add: Let_def)
      then obtain st2 where add: "add_transaction_from_block cv tx t bl_id (get_current_blockchain_size st1) (get_actual_timestamp bl) st1 = (True, st2)"
        and fr: "txs_fresh mv cv bl bl_id ph p rest (tx_push mv (entry_of bl ph tx st1) s) st2"
        by (auto split: prod.splits bool.splits)
      have e: "block_txs_loop cv bl bl_id h (t # rest) bt st = block_txs_loop cv bl bl_id h rest
          \<lparr>bt_processed = bt_processed bt + 1, bt_fee_summary = bt_fee_summary bt + fee,
           bt_cumulative_size = bt_cumulative_size bt + sz, bt_block_fees = bt_block_fees bt @ (if fee \<noteq> 0 then [fee] else []),
           bt_gindices = append_per_block_increments_for_tx tx0 (bt_gindices bt)\<rparr> st2"
        using \<open>take_tx _ _ _ = Some q\<close> q Some add unfolding tx_def st1_def by (simp add: Let_def)
      show ?thesis unfolding e
        by (rule Cons.IH [OF one_more [OF Cons.prems(1) same f(1,2) add] fr]) (use Cons.prems(3,4) in simp_all)
    qed
  qed
qed

lemma block_data_purged:
  assumes m: "add_transaction_from_block cv (miner_tx bl) (cv_transaction_hash cv (miner_tx bl)) bl_id
      (get_current_blockchain_size st) (get_actual_timestamp bl) st = (True, st1)"
    and ok: "aliases_ok st" "bs_services st = with_market mv s" "fresh_for mv (entry_of bl ph (miner_tx bl) st) s st" "is_coinbase (miner_tx bl)"
    and ts: "txs_added mv cv bl bl_id ph p (tx_push mv (entry_of bl ph (miner_tx bl) st) s) st1 ts s1 st2" "tx_hashes bl = ts @ rest"
    and X: "same_tables X st2" "bs_services X = with_market mv s'" "same_market s' s1" "ph = get_current_blockchain_size X"
  shows "\<exists>f Y s2. purge_block_data_from_blockchain cv bl (length ts) p X = (True, f, Y) \<and> same_tables Y st \<and> same_blocks Y X \<and>
    bs_services Y = with_market mv s2 \<and> same_market s2 s"
proof -
  have st1: "aliases_ok st1" "bs_services st1 = with_market mv (tx_push mv (entry_of bl ph (miner_tx bl) st) s)"
    using added_rest [OF m ok(1)] ok(2) process_is_push [of "entry_of bl ph (miner_tx bl) st" bl_id mv s] by (simp_all add: entry_of_def)
  obtain f' Y s2 where y: "purge_transactions_loop cv p (rev ts) True 0 X = (True, f', Y)" "same_tables Y st1" "same_blocks Y X"
    "bs_services Y = with_market mv s2" "same_market s2 (tx_push mv (entry_of bl ph (miner_tx bl) st) s)"
    using txs_added_purged [OF ts(1) st1 X] by blast
  have ph: "ph = get_current_blockchain_size Y" using X(4) y(3) by (simp add: same_blocks_def get_current_blockchain_size_def)
  have "pool_takes cv (miner_tx bl) True" using ok(4) by (simp add: pool_takes_def)
  then obtain f Z s3 where z: "purge_transaction_from_blockchain cv (cv_transaction_hash cv (miner_tx bl)) True Y = (True, f, Z)"
    "same_tables Z st" "same_blocks Z Y" "bs_services Z = with_market mv s3" "same_market s3 s"
    using purge_one [OF m ok(1,2,3) y(2,4,5) ph] by blast
  have "same_blocks Z X" using y(3) z(3) by (simp add: same_blocks_def)
  then show ?thesis using y(1) z ts(2) by (auto simp: purge_block_data_from_blockchain_def)
qed

subsection \<open>From the transactions to the chain\<close>

lemma headed_parts [simp]:
  "same_store (headed st z c) st" "blocks_part (headed st z c) = blocks_part st" "aliases_ok (headed st z c) = aliases_ok st"
  "bs_services (headed st z c) = bs_services st" "get_current_blockchain_size (headed st z c) = get_current_blockchain_size st"
  by (simp_all add: headed_def same_store_def same_tables_def aliases_ok_def get_current_blockchain_size_def)

lemma next_diff_headed:
  assumes "get_next_diff_conditional pos st = Some (d, st')"
  shows "\<exists>c. st' = st\<lparr>bs_diff_cache := c\<rparr>"
proof (cases "bs_blocks st = []")
  case True
  then show ?thesis using assms by (intro exI [of _ "bs_diff_cache st"]) (simp add: get_next_diff_conditional_def)
qed (use assms in \<open>auto simp: get_next_diff_conditional_def split: option.splits\<close>)

lemma prevalidated_coinbase: "prevalidate_miner_transaction bl h pos \<Longrightarrow> is_coinbase (miner_tx bl)"
  by (auto simp: prevalidate_miner_transaction_def is_pos_coinbase_def is_pow_coinbase_def split: if_split_asm)

lemma handle_reaches:
  assumes "handle_block_to_main_chain cv bl bl_id bvc st = Inr (r, bvc', st')"
  obtains (txs) z c d ph where "add_block_txs cv bl bl_id d ph (get_current_blockchain_size st) bvc (headed st z c) = Inr (r, bvc', st')"
      "is_coinbase (miner_tx bl)"
  | (head) z c where "\<not> r" "st' = headed st z c"
proof -
  define z where "z = is_in_checkpoint_zone (get_current_blockchain_size st) (bs_checkpoints st)"
  define st1 where "st1 = st\<lparr>bs_is_in_checkpoint_zone := z\<rparr>"
  have st: "st = headed st (bs_is_in_checkpoint_zone st) (bs_diff_cache st)" by (simp add: headed_def)
  have st1: "st1 = headed st z (bs_diff_cache st)" by (simp add: headed_def st1_def)
  consider "\<not> r \<and> (st' = st \<or> st' = st1)"
    | d st2 where "get_next_diff_conditional (is_pos_block bl) st1 = Some (d, st2)" "\<not> r" "st' = st2"
    | d st2 ph where "get_next_diff_conditional (is_pos_block bl) st1 = Some (d, st2)"
        "prevalidate_miner_transaction bl (get_current_blockchain_size st) (is_pos_block bl)"
        "add_block_txs cv bl bl_id d ph (get_current_blockchain_size st) bvc st2 = Inr (r, bvc', st')"
    using assms unfolding handle_block_to_main_chain_def Let_def verification_failed_def
    by (auto simp: z_def st1_def split: if_split_asm option.splits checked.splits)
  then show thesis
  proof cases
    case 1
    then show ?thesis using head st st1 by metis
  next
    case 2
    then show ?thesis using head next_diff_headed [OF 2(1)] by (auto simp: st1_def headed_def)
  next
    case 3
    then show ?thesis using txs next_diff_headed [OF 3(1)] prevalidated_coinbase by (auto simp: st1_def headed_def)
  qed
qed

lemma add_block_txs_cases:
  assumes a: "add_block_txs cv bl bl_id d ph h bvc st = Inr (r, bvc', st')" and h: "h = get_current_blockchain_size st"
    and ok: "aliases_ok st" "bs_services st = with_market mv s" and f: "block_fresh mv cv bl bl_id n p s st"
  obtains st1 where "add_transaction_from_block cv (miner_tx bl) (cv_transaction_hash cv (miner_tx bl)) bl_id h (get_actual_timestamp bl) st = (True, st1)"
    and "fresh_for mv (entry_of bl n (miner_tx bl) st) s st"
    and "(\<exists>bt st2 s2. txs_added mv cv bl bl_id n p (tx_push mv (entry_of bl n (miner_tx bl) st) s) st1 (tx_hashes bl) s2 st2 \<and>
            bt_processed bt = length (tx_hashes bl) \<and> connect_block cv bl bl_id d ph (aliases_count st) bt bvc st2 = Inr (r, bvc', st')) \<or>
         \<not> r \<and> loop_end mv cv bl bl_id n p (tx_push mv (entry_of bl n (miner_tx bl) st) s) st1 (Inl st')"
proof -
  obtain st1 where m: "add_transaction_from_block cv (miner_tx bl) (cv_transaction_hash cv (miner_tx bl)) bl_id h (get_actual_timestamp bl) st = (True, st1)"
    and ff: "fresh_for mv (entry_of bl n (miner_tx bl) st) s st"
      "txs_fresh mv cv bl bl_id n p (tx_hashes bl) (tx_push mv (entry_of bl n (miner_tx bl) st) s) st1"
    using f h unfolding block_fresh_def by (auto split: prod.splits bool.splits)
  define bt where "bt = \<lparr>bt_processed = 0, bt_fee_summary = 0,
    bt_cumulative_size = (if CURRENCY_COINBASE_BLOB_RESERVED_SIZE < cv_blob_size cv (miner_tx bl) then cv_blob_size cv (miner_tx bl) else 0),
    bt_block_fees = [], bt_gindices = append_per_block_increments_for_tx (miner_tx bl) (\<lambda>_. 0)\<rparr>"
  let ?s1 = "tx_push mv (entry_of bl n (miner_tx bl) st) s"
  have l: "loop_end mv cv bl bl_id n p ?s1 st1 (block_txs_loop cv bl bl_id h (tx_hashes bl) bt st1)"
    by (rule loop_ends [OF none ff(2)]) (simp_all add: bt_def)
  have e: "(case block_txs_loop cv bl bl_id h (tx_hashes bl) bt st1 of
      Inl st \<Rightarrow> verification_failed bvc st | Inr (bt, st2) \<Rightarrow> connect_block cv bl bl_id d ph (aliases_count st) bt bvc st2) = Inr (r, bvc', st')"
    using a unfolding add_block_txs_def m Let_def bt_def by simp
  show thesis
  proof (cases "block_txs_loop cv bl bl_id h (tx_hashes bl) bt st1")
    case (Inl st2)
    then show ?thesis using that [OF m ff(1)] e l by (simp add: verification_failed_def)
  next
    case (Inr q)
    obtain bt2 st2 where q: "q = (bt2, st2)" by (cases q)
    from l obtain s2 where "txs_added mv cv bl bl_id n p ?s1 st1 (tx_hashes bl) s2 st2" "bt_processed bt2 = length (tx_hashes bl)"
      using Inr q by (auto simp: loop_end_def)
    then show ?thesis using that [OF m ff(1)] e Inr q by auto
  qed
qed


subsection \<open>The block is undone\<close>

lemma median_state:
  assumes "next_effective_fee_median st = Some (m, st')"
  shows "same_store st' st \<and> aliases_ok st' = aliases_ok st"
proof -
  consider "st' = st" | "get_tx_fee_median st = Some (m, st')"
    using assms by (auto simp: next_effective_fee_median_def Let_def split: if_split_asm)
  then show ?thesis
  proof cases
    case 2
    then show ?thesis using fee_median_state [OF 2] by (auto simp: same_store_def same_tables_def aliases_ok_def)
  qed simp
qed

lemma appended_parts:
  "same_tables (append_block cv bl_id bei g st) st" "bs_services (append_block cv bl_id bei g st) = bs_services st"
  "bs_blocks (append_block cv bl_id bei g st) = bs_blocks st @ [bei]"
  by (simp_all add: append_block_def on_block_added_def update_next_comulative_size_limit_def push_block_to_per_block_increments_def
      same_tables_def Let_def)

lemma connect_success:
  assumes "connect_block cv bl bl_id d ph ab bt bvc st = Inr (True, bvc', st')"
  obtains bei where "bei_bl bei = bl" "same_tables st' st" "bs_services st' = bs_services st" "bs_blocks st' = bs_blocks st @ [bei]"
proof -
  obtain r m st3 where m: "next_effective_fee_median st = Some (m, st3)"
    and st': "st' = append_block cv bl_id (block_entry cv bl d ph r m bt st3) (bt_gindices bt) st3"
    using assms unfolding connect_block_def Let_def verification_failed_def
    by (auto split: if_split_asm option.splits)
  have s: "same_store st3 st" using median_state [OF m] by simp
  show thesis
    by (rule that [of "block_entry cv bl d ph r m bt st3"])
      (use s appended_parts in \<open>auto simp: st' block_entry_def same_store_def same_tables_def\<close>)
qed

lemma connect_failure:
  assumes "connect_block cv bl bl_id d ph ab bt bvc st = Inr (False, bvc', st')"
  shows "st' = purge_failed_block cv bl (bt_processed bt) st"
  using assms unfolding connect_block_def Let_def verification_failed_def by (auto split: if_split_asm option.splits)

lemma popped_blocks:
  assumes "chain_linked cv st" and "bs_blocks st' = bs_blocks st @ [bei]" and "block_appended bl (cv_block_hash cv bl) st st'"
    and "bei_bl bei = bl" and n: "length (bs_blocks st) + 1 < 2 ^ 32" and Y: "same_blocks Y st'"
  shows "same_blocks ((pop_block_from_per_block_increments (bei_height bei) Y)
    \<lparr>bs_blocks_index := (bs_blocks_index Y)(cv_block_hash cv bl := None), bs_blocks := butlast (bs_blocks Y)\<rparr>) st"
proof -
  obtain b incs where b: "bei_height b = get_current_blockchain_size st" "bs_blocks_index st (cv_block_hash cv bl) = None"
    "blocks_part st' = (bs_blocks st @ [b], (bs_blocks_index st)(cv_block_hash cv bl \<mapsto> get_current_blockchain_size st),
       (bs_per_block_gindex_incs st)(ucast (get_current_blockchain_size st) \<mapsto> incs), beside_blocks st)"
    using assms(3) by (auto simp: block_appended_def)
  have h: "bei_height bei = of_nat (length (bs_blocks st))" using assms(2) b by (auto simp: blocks_part_def get_current_blockchain_size_def)
  have "dom (bs_per_block_gindex_incs st) = of_nat ` {..<length (bs_blocks st)}"
    using assms(1) by (simp add: chain_linked_def linked_def blocks_part_def)
  moreover have "(of_nat (length (bs_blocks st)) :: u32) \<notin> of_nat ` {..<length (bs_blocks st)}"
  proof
    assume "(of_nat (length (bs_blocks st)) :: u32) \<in> of_nat ` {..<length (bs_blocks st)}"
    then obtain k where "k < length (bs_blocks st)" "(of_nat (length (bs_blocks st)) :: u32) = of_nat k" by blast
    then show False using n of_nat_u32_inj [of "length (bs_blocks st)" k] by simp
  qed
  ultimately have i: "bs_per_block_gindex_incs st (of_nat (length (bs_blocks st))) = None" by (metis domIff)
  have u: "(ucast (of_nat (length (bs_blocks st)) :: u64) :: u32) = of_nat (length (bs_blocks st))" using n by (intro ucast_of_nat_u32) simp
  show ?thesis
    using Y b(2,3) assms(2) i u h
    by (simp add: same_blocks_def blocks_part_def pop_block_from_per_block_increments_def get_current_blockchain_size_def fun_upd_idem)
qed


text \<open>C12: A block that was added to the main chain comes off again without a trace, under these conditions: its transactions were fresh
  when they were added (their references unspent, their offers and commands accepted by the market, none of its cancellations too
  late) and the pool takes them back, the table of the aliases is consistent, the chain is linked, and the block is neither the
  first nor beyond 32-bit heights. Then \<open>pop_block_from_blockchain\<close> succeeds on the state after the addition and leaves the blocks, their index and
  increments, the transactions, the key images, the outputs, the multisig outputs, the aliases and the market as they were before
  the block was handled. Without the condition on the market this does not hold: a cancellation of an offer that is
  stopped already reopens the offer when its block comes off.\<close>
theorem popped_block_undone:
  assumes added: "handle_block_to_main_chain cv bl (cv_block_hash cv bl) bvc st = Inr (True, bvc', st')"
    and ok: "aliases_ok st" "bs_services st = with_market mv s" "chain_linked cv st"
    and n: "bs_blocks st \<noteq> []" "length (bs_blocks st) + 1 < 2 ^ 32"
    and fresh: "\<And>z c. block_fresh mv cv bl (cv_block_hash cv bl) (get_current_blockchain_size st + 1) p s (headed st z c)"
  shows "\<exists>Y s2. pop_block_from_blockchain cv p st' = (True, Y) \<and> same_tables Y st \<and> same_blocks Y st \<and>
    bs_services Y = with_market mv s2 \<and> same_market s2 s"
proof -
  let ?id = "cv_block_hash cv bl" and ?n = "get_current_blockchain_size st + 1"
  have app: "block_appended bl ?id st st'" using handle_block_blocks [of bl ?id st cv bvc] added by simp
  obtain z c d ph where a: "add_block_txs cv bl ?id d ph (get_current_blockchain_size st) bvc (headed st z c) = Inr (True, bvc', st')"
    and cb: "is_coinbase (miner_tx bl)"
    using added by (rule handle_reaches) auto
  let ?h = "headed st z c"
  have h: "aliases_ok ?h" "bs_services ?h = with_market mv s" "get_current_blockchain_size st = get_current_blockchain_size ?h"
    using ok by simp_all
  obtain st1 where m: "add_transaction_from_block cv (miner_tx bl) (cv_transaction_hash cv (miner_tx bl)) ?id
      (get_current_blockchain_size ?h) (get_actual_timestamp bl) ?h = (True, st1)"
    and f: "fresh_for mv (entry_of bl ?n (miner_tx bl) ?h) s ?h"
    and rest: "\<exists>bt st2 s2. txs_added mv cv bl ?id ?n p (tx_push mv (entry_of bl ?n (miner_tx bl) ?h) s) st1 (tx_hashes bl) s2 st2 \<and>
        bt_processed bt = length (tx_hashes bl) \<and> connect_block cv bl ?id d ph (aliases_count ?h) bt bvc st2 = Inr (True, bvc', st')"
    using add_block_txs_cases [OF a h(3,1,2) fresh [of z c]] h(3) by (metis (no_types, lifting))
  then obtain bt st2 s2 where ts: "txs_added mv cv bl ?id ?n p (tx_push mv (entry_of bl ?n (miner_tx bl) ?h) s) st1 (tx_hashes bl) s2 st2"
    and con: "connect_block cv bl ?id d ph (aliases_count ?h) bt bvc st2 = Inr (True, bvc', st')" by blast
  obtain bei where bei: "bei_bl bei = bl" "same_tables st' st2" "bs_services st' = bs_services st2" "bs_blocks st' = bs_blocks st2 @ [bei]"
    using connect_success [OF con] by blast
  have st1: "aliases_ok st1" "bs_services st1 = with_market mv (tx_push mv (entry_of bl ?n (miner_tx bl) ?h) s)"
    using added_rest [OF m h(1)] h(2) process_is_push [of "entry_of bl ?n (miner_tx bl) ?h" ?id mv s] by (simp_all add: entry_of_def)
  have st2: "bs_services st2 = with_market mv s2" "bs_blocks st2 = bs_blocks st"
    using txs_added_state [OF ts st1] add_transaction_keeps [OF m] by (auto simp: blocks_part_def headed_def)
  have bl: "bs_blocks st' = bs_blocks st @ [bei]" using bei(4) st2(2) by simp
  have n': "?n = get_current_blockchain_size st'" using bl by (simp add: get_current_blockchain_size_def)
  obtain fee Y s3 where Y: "purge_block_data_from_blockchain cv bl (length (tx_hashes bl)) p st' = (True, fee, Y)"
    "same_tables Y ?h" "same_blocks Y st'" "bs_services Y = with_market mv s3" "same_market s3 s"
    using block_data_purged [OF m h(1,2) f cb ts, of "[]" st' s2] bei(2,3) st2(1) n' by auto
  let ?Z = "(pop_block_from_per_block_increments (bei_height bei) Y)
    \<lparr>bs_blocks_index := (bs_blocks_index Y)(?id := None), bs_blocks := butlast (bs_blocks Y)\<rparr>"
  have "pop_block_from_blockchain cv p st' = (True, ?Z)"
    using Y(1) n(1) bei(1) by (simp add: pop_block_from_blockchain_def bl Let_def pop_block_from_per_block_increments_def)
  moreover have "same_blocks ?Z st" by (rule popped_blocks [OF ok(3) bl app bei(1) n(2) Y(3)])
  moreover have "same_tables ?Z st" using Y(2) by (simp add: same_tables_def pop_block_from_per_block_increments_def headed_def)
  moreover have "bs_services ?Z = with_market mv s3" using Y(4) by (simp add: pop_block_from_per_block_increments_def)
  ultimately show ?thesis using Y(5) by blast
qed

text \<open>What \<open>handle_block_to_main_chain\<close> takes back by itself when it gives up: if the transactions of the block were fresh and the
  pool takes back what goes to it, then wherever it gives up - a transaction that is missing or does not pass, too many aliases,
  a wrong reward, a block that the index has already - the transactions that were added before are taken back, and the blocks,
  their index, the transactions, the key images, the outputs, the multisig outputs, the aliases and the market are as before.\<close>
lemma failed_block_undone:
  assumes rejected: "handle_block_to_main_chain cv bl bl_id bvc st = Inr (False, bvc', st')"
    and ok: "aliases_ok st" "bs_services st = with_market mv s"
    and fresh: "\<And>z c. block_fresh mv cv bl bl_id (get_current_blockchain_size st) True s (headed st z c)"
  shows "\<exists>s2. same_tables st' st \<and> same_blocks st' st \<and> bs_services st' = with_market mv s2 \<and> same_market s2 s"
proof -
  have blocks: "same_blocks st' st"
    using handle_block_blocks [of bl bl_id st cv bvc] rejected by (simp add: blocks_part_def same_blocks_def)
  show ?thesis
  proof (rule handle_reaches [OF rejected])
    fix z c assume "st' = headed st z c"
    then show ?thesis using blocks ok(2) by (intro exI [of _ s]) (simp add: same_tables_def headed_def)
  next
    fix z c d ph assume txs: "add_block_txs cv bl bl_id d ph (get_current_blockchain_size st) bvc (headed st z c) = Inr (False, bvc', st')"
      "is_coinbase (miner_tx bl)"
    let ?h = "headed st z c" and ?n = "get_current_blockchain_size st"
    have h: "aliases_ok ?h" "bs_services ?h = with_market mv s" "?n = get_current_blockchain_size ?h"
      using ok by simp_all
    have undone: "\<exists>s2. same_tables (purge_failed_block cv bl (length ts) X) st \<and>
        bs_services (purge_failed_block cv bl (length ts) X) = with_market mv s2 \<and> same_market s2 s"
      if m: "add_transaction_from_block cv (miner_tx bl) (cv_transaction_hash cv (miner_tx bl)) bl_id
          (get_current_blockchain_size ?h) (get_actual_timestamp bl) ?h = (True, st1)"
        and f: "fresh_for mv (entry_of bl ?n (miner_tx bl) ?h) s ?h"
        and ts: "txs_added mv cv bl bl_id ?n True (tx_push mv (entry_of bl ?n (miner_tx bl) ?h) s) st1 ts s1 st2" "tx_hashes bl = ts @ rest"
        and X: "same_store X st2" for st1 ts rest s1 st2 X
    proof -
      have st1: "aliases_ok st1" "bs_services st1 = with_market mv (tx_push mv (entry_of bl ?n (miner_tx bl) ?h) s)"
        using added_rest [OF m h(1)] h(2) process_is_push [of "entry_of bl ?n (miner_tx bl) ?h" bl_id mv s] by (simp_all add: entry_of_def)
      have x: "same_tables X st2" "bs_services X = with_market mv s1" "?n = get_current_blockchain_size X"
        using txs_added_state [OF ts(1) st1] add_transaction_keeps [OF m] X
        by (auto simp: same_store_def blocks_part_def headed_def get_current_blockchain_size_def)
      obtain fee Y s2 where "purge_block_data_from_blockchain cv bl (length ts) True X = (True, fee, Y)" "same_tables Y ?h"
        "bs_services Y = with_market mv s2" "same_market s2 s"
        using block_data_purged [OF m h(1,2) f txs(2) ts x(1,2) same_market_refl x(3)] by blast
      then show ?thesis by (auto simp: purge_failed_block_def same_tables_def headed_def)
    qed
    obtain st1 where m: "add_transaction_from_block cv (miner_tx bl) (cv_transaction_hash cv (miner_tx bl)) bl_id
          (get_current_blockchain_size ?h) (get_actual_timestamp bl) ?h = (True, st1)"
      and f: "fresh_for mv (entry_of bl ?n (miner_tx bl) ?h) s ?h"
      and rest: "(\<exists>bt st2 s2. txs_added mv cv bl bl_id ?n True (tx_push mv (entry_of bl ?n (miner_tx bl) ?h) s) st1 (tx_hashes bl) s2 st2 \<and>
            bt_processed bt = length (tx_hashes bl) \<and> connect_block cv bl bl_id d ph (aliases_count ?h) bt bvc st2 = Inr (False, bvc', st')) \<or>
         loop_end mv cv bl bl_id ?n True (tx_push mv (entry_of bl ?n (miner_tx bl) ?h) s) st1 (Inl st')"
      using add_block_txs_cases [OF txs(1) h(3,1,2) fresh [of z c]] h(3) by (metis (no_types, lifting))
    obtain ts rest' s1 st2 X where e: "txs_added mv cv bl bl_id ?n True (tx_push mv (entry_of bl ?n (miner_tx bl) ?h) s) st1 ts s1 st2"
      "tx_hashes bl = ts @ rest'" "same_store X st2" "same_store st' (purge_failed_block cv bl (length ts) X)"
    proof -
      from rest show thesis
      proof (elim disjE exE conjE)
        fix bt st2 s2
        assume "txs_added mv cv bl bl_id ?n True (tx_push mv (entry_of bl ?n (miner_tx bl) ?h) s) st1 (tx_hashes bl) s2 st2"
          and "bt_processed bt = length (tx_hashes bl)"
          and "connect_block cv bl bl_id d ph (aliases_count ?h) bt bvc st2 = Inr (False, bvc', st')"
        then show thesis using that [of "tx_hashes bl" s2 st2 "[]" st2] connect_failure by force
      qed (use that in \<open>auto simp: loop_end_def\<close>)
    qed
    from undone [OF m f e(1,2,3)] e(4) blocks show ?thesis by (auto simp: same_store_def same_tables_def)
  qed
qed

subsection \<open>Instances\<close>

lemma coinbase_fresh:
  assumes "is_coinbase tx" "length (vin tx) = 1" "attachment tx = []" "length (vout tx) = 1"
  shows "fresh_for mv \<lparr>ce_tx = tx, ce_height = h, ce_time = ts, ce_pop_height = ph\<rparr> s st"
  using assms
  by (auto simp: fresh_for_def inputs_unspent_def tx_accepts_def is_coinbase_def marked_output_def ms_id_of_def
      split: list.splits txin_v.splits)

lemma genesis_aliases: "aliases_ok genesis_store" "bs_services genesis_store = with_market demo_view empty_offers_service"
  by (simp_all add: aliases_ok_def addr_table_def names_with_def fun_eq_iff)

lemma demo_block_fresh:
  assumes "ts = [] \<or> ts = [[77]]"
  shows "block_fresh demo_view block_view (demo_block 1 [9] a ts) bl_id ph p empty_offers_service (headed genesis_store z c)"
proof -
  let ?st = "headed genesis_store z c"
  have f: "fresh_for demo_view (entry_of (demo_block 1 [9] a ts) ph (coinbase_tx 1 a) ?st) s ?st" for s
    unfolding entry_of_def by (rule coinbase_fresh) simp_all
  have t: "take_tx v [77] (bs_tx_pool (coinbase_added 1 a ?st)) = None" for v
    by (simp add: zone_parts headed_def take_tx_def empty_pool_def)
  have "bs_transactions ?st [1] = None" by (simp add: headed_def)
  from coinbase_adds [OF this] show ?thesis
    using assms f t by (auto simp: block_fresh_def genesis_top)
qed

theorem popped_block_undone_witness:
  "\<exists>bvc st' Y s2. handle_block_to_main_chain block_view (demo_block 1 [9] first_reward []) [2] bvc genesis_store =
      Inr (True, bvc\<lparr>bv_added_to_main_chain := True\<rparr>, st') \<and>
    pop_block_from_blockchain block_view True st' = (True, Y) \<and> same_tables Y genesis_store \<and> same_blocks Y genesis_store \<and>
    bs_services Y = with_market demo_view s2 \<and> same_market s2 empty_offers_service"
proof -
  let ?bl = "demo_block 1 [9] first_reward []"
  define bvc where "bvc = \<lparr>bv_added_to_main_chain = False, bv_verification_failed = False, bv_marked_as_orphaned = False,
    bv_already_exists = False, bv_added_to_altchain = False, bv_height_difference = 0\<rparr>"
  obtain st' where h: "handle_block_to_main_chain block_view ?bl [2] bvc genesis_store = Inr (True, bvc\<lparr>bv_added_to_main_chain := True\<rparr>, st')"
    by (rule demo_block_added)
  then have h': "handle_block_to_main_chain block_view ?bl (cv_block_hash block_view ?bl) bvc genesis_store =
      Inr (True, bvc\<lparr>bv_added_to_main_chain := True\<rparr>, st')" by simp
  have "\<exists>Y s2. pop_block_from_blockchain block_view True st' = (True, Y) \<and> same_tables Y genesis_store \<and> same_blocks Y genesis_store \<and>
      bs_services Y = with_market demo_view s2 \<and> same_market s2 empty_offers_service"
    by (rule popped_block_undone [OF h' genesis_aliases]) (simp_all add: genesis_linked demo_block_fresh)
  then show ?thesis using h by blast
qed

text \<open>The second block names a transaction that the pool does not have.\<close>

lemma unknown_tx_refused:
  obtains st' where "handle_block_to_main_chain block_view (demo_block 1 [9] 5 [[77]]) [2] bvc genesis_store =
    Inr (False, bvc\<lparr>bv_verification_failed := True\<rparr>, st')"
proof -
  have "take_tx v [77] (bs_tx_pool (coinbase_added 1 5 genesis_headed)) = None" for v
    by (simp add: zone_parts genesis_headed_def headed_def take_tx_def empty_pool_def)
  then have "\<exists>st'. handle_block_to_main_chain block_view (demo_block 1 [9] 5 [[77]]) [2] bvc genesis_store =
      Inr (False, bvc\<lparr>bv_verification_failed := True\<rparr>, st')"
    by (simp add: demo_block_headed demo_block_txs verification_failed_def)
  then show thesis using that by blast
qed

end
