(* ===== verification/ChainAlt.thy ===== *)
theory ChainAlt
  imports ChainUndo
begin

section \<open>Alternative chains (blockchain_storage)\<close>

text \<open>
  Blocks beside the main chain: their checks against the main chain below the split and the blocks of their own branch, the
  tables that are kept of them in memory, and the switch of the main chain to a branch that has become the better one.
\<close>

subsection \<open>Bookkeeping\<close>

definition is_tx_related_to_altblock :: "hash \<Rightarrow> blockchain_storage \<Rightarrow> bool" where
  "is_tx_related_to_altblock tx_id st \<longleftrightarrow> bs_alternative_chains_txs st tx_id \<noteq> None"

text \<open>A counter that is not there counts as zero, and one that falls to zero is erased.\<close>

definition count_tx :: "hash \<Rightarrow> (hash \<rightharpoonup> nat) \<Rightarrow> (hash \<rightharpoonup> nat)" where
  "count_tx tx_id m = m(tx_id \<mapsto> (case m tx_id of None \<Rightarrow> 0 | Some n \<Rightarrow> n) + 1)"

definition uncount_tx :: "hash \<Rightarrow> (hash \<rightharpoonup> nat) \<Rightarrow> (hash \<rightharpoonup> nat)" where
  "uncount_tx tx_id m = (case m tx_id of None \<Rightarrow> m | Some n \<Rightarrow> m(tx_id := (if n - 1 = 0 then None else Some (n - 1))))"

definition add_alt_block_txs_hashs :: "block \<Rightarrow> blockchain_storage \<Rightarrow> blockchain_storage" where
  "add_alt_block_txs_hashs b st = st\<lparr>bs_alternative_chains_txs := fold count_tx (tx_hashes b) (bs_alternative_chains_txs st)\<rparr>"

definition purge_alt_block_txs_hashs :: "block \<Rightarrow> blockchain_storage \<Rightarrow> blockchain_storage" where
  "purge_alt_block_txs_hashs b st = st\<lparr>bs_alternative_chains_txs := fold uncount_tx (tx_hashes b) (bs_alternative_chains_txs st)\<rparr>"

definition append_altblock_keyimages_to_big_heap :: "hash \<Rightarrow> key_image list \<Rightarrow> blockchain_storage \<Rightarrow> blockchain_storage" where
  "append_altblock_keyimages_to_big_heap block_id alt_block_keyimages st =
     st\<lparr>bs_altblocks_keyimages := fold (\<lambda>ki m. m(ki \<mapsto> (case m ki of None \<Rightarrow> [] | Some ids \<Rightarrow> ids) @ [block_id]))
       alt_block_keyimages (bs_altblocks_keyimages st)\<rparr>"

definition purge_keyimage_from_big_heap :: "key_image \<Rightarrow> hash \<Rightarrow> blockchain_storage \<Rightarrow> outcome" where
  "purge_keyimage_from_big_heap ki h st =
     (case bs_altblocks_keyimages st ki of
        None \<Rightarrow> (False, st)
      | Some ids \<Rightarrow>
          if h \<notin> set ids then (False, st)
          else let ids = remove1 h ids
               in (True, st\<lparr>bs_altblocks_keyimages := (bs_altblocks_keyimages st)(ki := (if ids = [] then None else Some ids))\<rparr>))"

text \<open>First the pool is asked, then the chain.\<close>

definition get_transaction_from_pool_or_db :: "hash \<Rightarrow> u64 \<Rightarrow> blockchain_storage \<Rightarrow> transaction option" where
  "get_transaction_from_pool_or_db tx_id min_allowed_block_height st =
     (case m_db_transactions (bs_tx_pool st) tx_id of
        Some txe \<Rightarrow> Some (td_tx txe)
      | None \<Rightarrow>
          (case bs_transactions st tx_id of
             None \<Rightarrow> None
           | Some e \<Rightarrow> if tce_keeper_block_height e < min_allowed_block_height then None else Some (tce_tx e)))"

text \<open>The key images of the inputs of a transaction, and of a block: that of the stake and those of the transactions that are found.\<close>

definition key_inputs :: "transaction \<Rightarrow> key_image list" where
  "key_inputs tx = concat (map (\<lambda>i. case i of TxinToKey k \<Rightarrow> [tk_k_image k] | _ \<Rightarrow> []) (vin tx))"

definition altblock_keyimages :: "block \<Rightarrow> blockchain_storage \<Rightarrow> key_image list" where
  "altblock_keyimages b st =
     (if is_pos_block b then (case vin (miner_tx b) ! 1 of TxinToKey k \<Rightarrow> [tk_k_image k] | _ \<Rightarrow> []) else []) @
     concat (map (\<lambda>tx_id. case get_transaction_from_pool_or_db tx_id 0 st of None \<Rightarrow> [] | Some tx \<Rightarrow> key_inputs tx) (tx_hashes b))"

definition purge_altblock_keyimages_from_big_heap :: "block \<Rightarrow> hash \<Rightarrow> blockchain_storage \<Rightarrow> blockchain_storage" where
  "purge_altblock_keyimages_from_big_heap b h st =
     fold (\<lambda>ki st. snd (purge_keyimage_from_big_heap ki h st)) (altblock_keyimages b st) st"

definition do_erase_altblock :: "chain_view \<Rightarrow> hash \<times> alt_block_extended_info \<Rightarrow> blockchain_storage \<Rightarrow> blockchain_storage" where
  "do_erase_altblock cv it st =
     (let b = bei_bl (snd it);
          st = purge_altblock_keyimages_from_big_heap b (cv_block_hash cv b) st;
          st = purge_alt_block_txs_hashs b st
      in st\<lparr>bs_alternative_chains := (bs_alternative_chains st)(fst it := None)\<rparr>)"

definition CURRENCY_ALT_BLOCK_LIVETIME_COUNT :: u64 where
  "CURRENCY_ALT_BLOCK_LIVETIME_COUNT = CURRENCY_BLOCKS_PER_DAY * 7"

text \<open>The list is the order in which the container holds its entries.\<close>

definition prune_aged_alt_blocks :: "chain_view \<Rightarrow> hash list \<Rightarrow> blockchain_storage \<Rightarrow> outcome" where
  "prune_aged_alt_blocks cv order st =
     (let current_height = get_current_blockchain_size st
      in (True, fold (\<lambda>h st. case bs_alternative_chains st h of
             None \<Rightarrow> st
           | Some abei \<Rightarrow>
               if bei_height abei < current_height \<and> CURRENCY_ALT_BLOCK_LIVETIME_COUNT < current_height - bei_height abei
               then do_erase_altblock cv (h, abei) st else st) order st))"

subsection \<open>The branch of a block\<close>

text \<open>From the parent of a block down; the branch begins with the entry next to the main chain. A circle would never end.\<close>

partial_function (option) alt_walk :: "(hash \<rightharpoonup> alt_block_extended_info) \<Rightarrow> hash \<Rightarrow> alt_chain \<Rightarrow> alt_chain option" where
  "alt_walk m h acc = (case m h of None \<Rightarrow> Some acc | Some abei \<Rightarrow> alt_walk m (prev_id (bei_bl abei)) ((h, abei) # acc))"

text \<open>A branch that does not connect to the main chain is refused; a missing block of the main chain throws.\<close>

definition build_alt_subchain :: "chain_view \<Rightarrow> block \<Rightarrow> blockchain_storage \<Rightarrow> alt_chain checked option" where
  "build_alt_subchain cv b st =
     map_option (\<lambda>alts.
       if alts = [] then Passed []
       else let h = bei_height (snd (hd alts))
            in if get_current_blockchain_size st < h then Rejected
               else if length (bs_blocks st) \<le> unat (h - 1) then Thrown
               else if cv_block_hash cv (bei_bl (bs_blocks st ! unat (h - 1))) \<noteq> prev_id (bei_bl (snd (hd alts))) then Rejected
               else Passed alts) (alt_walk (bs_alternative_chains st) (prev_id b) [])"

definition alt_timestamps :: "alt_chain \<Rightarrow> u64 \<Rightarrow> blockchain_storage \<Rightarrow> u64 list option" where
  "alt_timestamps alts height_main_prev st =
     (let timestamps = take BLOCKCHAIN_TIMESTAMP_CHECK_WINDOW (map (timestamp \<circ> bei_bl \<circ> snd) (rev alts))
      in if length timestamps < BLOCKCHAIN_TIMESTAMP_CHECK_WINDOW
         then complete_timestamps_vector (unat (if alts = [] then height_main_prev else bei_height (snd (hd alts)) - 1)) timestamps
                BLOCKCHAIN_TIMESTAMP_CHECK_WINDOW st
         else Some timestamps)"

text \<open>The blocks before a block of a branch, the newest first, down to height 1 of the main chain.\<close>

definition blocks_before :: "alt_chain \<Rightarrow> u64 \<Rightarrow> blockchain_storage \<Rightarrow> block_extended_info list" where
  "blocks_before alts connection_height st =
     rev (map alt_bei alts) @ rev (drop 1 (take (unat connection_height) (bs_blocks st)))"

definition get_current_sequence_factor_for_alt :: "alt_chain \<Rightarrow> bool \<Rightarrow> u64 \<Rightarrow> blockchain_storage \<Rightarrow> nat" where
  "get_current_sequence_factor_for_alt alts pos connection_height st =
     length (takeWhile (\<lambda>bei. is_pos_block (bei_bl bei) = pos) (blocks_before alts connection_height st))"

text \<open>The loop goes on until both difficulties are found.\<close>

definition note_difficulty :: "block_extended_info \<Rightarrow> wide_difficulty_type \<times> wide_difficulty_type \<Rightarrow>
    wide_difficulty_type \<times> wide_difficulty_type" where
  "note_difficulty bei d =
     (let (pow, pos) = d
      in if pow \<noteq> 0 \<and> pos \<noteq> 0 then (pow, pos)
         else if is_pos_block (bei_bl bei) then (pow, if pos = 0 then bei_difficulty bei else pos)
         else (if pow = 0 then bei_difficulty bei else pow, pos))"

definition get_adjusted_cumulative_difficulty_for_next_alt_pos :: "alt_chain \<Rightarrow> wide_difficulty_type \<Rightarrow> u64 \<Rightarrow> blockchain_storage \<Rightarrow>
    wide_difficulty_type" where
  "get_adjusted_cumulative_difficulty_for_next_alt_pos alts next_diff connection_height st =
     adjusted_difficulty next_diff (bs_blocks st) (fold note_difficulty (blocks_before alts connection_height st) (0, 0))"

text \<open>A height beyond the main chain makes the assertion return \<open>false\<close>, which is the difficulty zero.\<close>

definition get_last_alt_x_block_cumulative_precise_difficulty :: "alt_chain \<Rightarrow> u64 \<Rightarrow> bool \<Rightarrow> blockchain_storage \<Rightarrow>
    wide_difficulty_type" where
  "get_last_alt_x_block_cumulative_precise_difficulty alts block_height pos st =
     (case List.find (\<lambda>bei. is_pos_block (bei_bl bei) = pos) (rev (map alt_bei alts)) of
        Some bei \<Rightarrow> bei_cumulative_diff_precise bei
      | None \<Rightarrow>
          let main_chain_first_block = (if alts = [] then block_height - 1 else bei_height (snd (hd alts)) - 1)
          in if length (bs_blocks st) \<le> unat main_chain_first_block then 0
             else (case List.find (\<lambda>bei. is_pos_block (bei_bl bei) = pos)
                     (rev (drop 1 (take (unat main_chain_first_block + 1) (bs_blocks st)))) of
                     Some bei \<Rightarrow> bei_cumulative_diff_precise bei
                   | None \<Rightarrow> 0))"

subsection \<open>The outputs of a branch\<close>

text \<open>
  The number of the outputs of every amount that the main chain had at a height, for the amounts that it got outputs of since;
  a failed assertion throws.
\<close>

definition gindex_increments_from :: "u64 \<Rightarrow> blockchain_storage \<Rightarrow> gindex_increment list option" where
  "gindex_increments_from h st =
     map_option concat (those (map (\<lambda>i. bs_per_block_gindex_incs st (of_nat i)) [unat h..<length (bs_blocks st)]))"

definition add_increment :: "gindex_increment \<Rightarrow> (u64 \<rightharpoonup> u64) \<Rightarrow> (u64 \<rightharpoonup> u64)" where
  "add_increment el m = m(gi_amount el \<mapsto> (case m (gi_amount el) of None \<Rightarrow> 0 | Some n \<Rightarrow> n) + ucast (gi_increment el))"

definition calculate_local_gindex_lookup_table_for_height :: "u64 \<Rightarrow> blockchain_storage \<Rightarrow> (u64 \<rightharpoonup> u64) option" where
  "calculate_local_gindex_lookup_table_for_height h st =
     (if card (dom (bs_per_block_gindex_incs st)) \<noteq> length (bs_blocks st) then None
      else case gindex_increments_from h st of
          None \<Rightarrow> None
        | Some incs \<Rightarrow>
            let sums = fold add_increment incs Map.empty;
                in_mainchain = (\<lambda>a. of_nat (length (bs_outputs st a)))
            in if list_ex (\<lambda>el. in_mainchain (gi_amount el) < the (sums (gi_amount el))) incs then None
               else Some (\<lambda>a. map_option (\<lambda>n. in_mainchain a - n) (sums a)))"

text \<open>The keys of a transaction are appended; an amount that is new begins where the main chain ends.\<close>

definition add_alt_out :: "blockchain_storage \<Rightarrow> tx_out \<Rightarrow> alt_block_extended_info \<Rightarrow> alt_block_extended_info" where
  "add_alt_out st out abei =
     (case out_target out of
        TxoutMultisig _ \<Rightarrow> abei
      | TxoutToKey k \<Rightarrow>
          let a = out_amount out;
              abei = (if abei_gindex_lookup_table abei a = None
                      then abei\<lparr>abei_gindex_lookup_table := (abei_gindex_lookup_table abei)(a \<mapsto> of_nat (length (bs_outputs st a)))\<rparr>
                      else abei);
              keys = (case abei_outputs_pub_keys abei a of None \<Rightarrow> [] | Some ks \<Rightarrow> ks)
          in abei\<lparr>abei_outputs_pub_keys := (abei_outputs_pub_keys abei)(a \<mapsto> keys @ [out_key k])\<rparr>)"

definition update_alt_out_indexes_for_tx_in_block :: "transaction \<Rightarrow> alt_block_extended_info \<Rightarrow> blockchain_storage \<Rightarrow>
    alt_block_extended_info" where
  "update_alt_out_indexes_for_tx_in_block tx abei st = fold (add_alt_out st) (vout tx) abei"

text \<open>The key of an output of the branch; an output below the branch is looked for in the main chain.\<close>

datatype alt_key = BrokenTable | InBranch public_key | InMainChain

fun alt_output_key :: "u64 \<Rightarrow> u64 \<Rightarrow> alt_block_extended_info list \<Rightarrow> alt_key" where
  "alt_output_key amount gindex [] = InMainChain"
| "alt_output_key amount gindex (abei # abeis) =
     (case abei_gindex_lookup_table abei amount of
        None \<Rightarrow> InMainChain
      | Some start \<Rightarrow>
          if start \<le> gindex
          then let keys = (case abei_outputs_pub_keys abei amount of None \<Rightarrow> [] | Some ks \<Rightarrow> ks)
               in if length keys \<le> unat (gindex - start) then BrokenTable else InBranch (keys ! unat (gindex - start))
          else alt_output_key amount gindex abeis)"

text \<open>
  The loop over the offsets: the keys and the greatest height of a source. A key that is found in the branch ends the loop.
\<close>

fun alt_ring_keys :: "alt_block_extended_info list \<Rightarrow> bool \<Rightarrow> u64 \<Rightarrow> u64 \<Rightarrow> u64 \<Rightarrow> u64 \<Rightarrow> txout_v list \<Rightarrow> u64 \<Rightarrow>
    blockchain_storage \<Rightarrow> (public_key list \<times> u64) option" where
  "alt_ring_keys abeis touched outs_for_amount amount fakes split_height [] max_height st = Some ([], max_height)"
| "alt_ring_keys abeis touched outs_for_amount amount fakes split_height (off # offs) max_height st =
     (let in_main = (\<lambda>tx_id out_n.
            case bs_transactions st tx_id of
              None \<Rightarrow> None
            | Some p \<Rightarrow>
                if length (vout (tce_tx p)) \<le> out_n then None
                else (case out_target (vout (tce_tx p) ! out_n) of
                        TxoutMultisig _ \<Rightarrow> None
                      | TxoutToKey out_tk \<Rightarrow>
                          if \<not> is_mixattr_applicable_for_fake_outs_counter (mix_attr out_tk) fakes then None
                          else if split_height \<le> tce_keeper_block_height p then None
                          else map_option (\<lambda>(keys, m). (out_key out_tk # keys, m))
                            (alt_ring_keys abeis touched outs_for_amount amount fakes split_height offs
                              (if max_height < tce_keeper_block_height p then tce_keeper_block_height p else max_height) st)))
      in case off of
           RefById r \<Rightarrow> in_main (ref_tx_id r) (unat (ref_n r))
         | GlobalIndex i \<Rightarrow>
             if outs_for_amount \<le> i then None
             else (case (if touched then alt_output_key amount i abeis else InMainChain) of
                     BrokenTable \<Rightarrow> None
                   | InBranch key \<Rightarrow> Some ([key], max_height)
                   | InMainChain \<Rightarrow>
                       if length (bs_outputs st amount) \<le> unat i then None
                       else in_main (go_tx_id (bs_outputs st amount ! unat i)) (unat (go_out_no (bs_outputs st amount ! unat i)))))"

subsection \<open>The inputs of a branch\<close>

text \<open>
  The result is the collected key images with the new one, and the greatest height of a source in the main chain.
\<close>

definition validate_alt_block_input :: "chain_view \<Rightarrow> transaction \<Rightarrow> key_image list \<Rightarrow> hash \<Rightarrow> nat \<Rightarrow> signature list \<Rightarrow> u64 \<Rightarrow>
    alt_chain \<Rightarrow> hash list \<Rightarrow> blockchain_storage \<Rightarrow> (key_image list \<times> u64) option" where
  "validate_alt_block_input cv input_tx collected input_tx_hash input_index input_sigs split_height alts alt_chain_block_ids st =
     (if length (vin input_tx) \<le> input_index then None
      else case vin input_tx ! input_index of
          TxinToKey input \<Rightarrow>
            if (case bs_spent_keys st (tk_k_image input) of None \<Rightarrow> False | Some h \<Rightarrow> h < split_height) then None
            else if tk_k_image input \<in> set collected then None
            else if (case bs_altblocks_keyimages st (tk_k_image input) of
                       None \<Rightarrow> False
                     | Some ids \<Rightarrow> list_ex (\<lambda>h. h \<in> set alt_chain_block_ids) ids) then None
            else (case relative_output_offsets_to_absolute (tk_key_offsets input) of
                    None \<Rightarrow> None
                  | Some offs \<Rightarrow>
                      if offs = [] \<or> length offs \<noteq> length (tk_key_offsets input) then None
                      else let in_branch = (if alts = [] then None else abei_gindex_lookup_table (snd (last alts)) (tk_amount input));
                               outs_for_amount = (case in_branch of
                                   None \<Rightarrow> of_nat (length (bs_outputs st (tk_amount input))) | Some n \<Rightarrow> n)
                           in (case alt_ring_keys (rev (map snd alts)) (in_branch \<noteq> None) outs_for_amount (tk_amount input)
                                      (of_nat (length offs) - 1) split_height offs 0 st of
                                 None \<Rightarrow> None
                               | Some (keys, max_related_block_height) \<Rightarrow>
                                   if check_tokey_input cv input_tx input_index input input_tx_hash input_sigs keys st
                                   then Some (tk_k_image input # collected, max_related_block_height) else None))
        | _ \<Rightarrow> None)"

text \<open>A transaction of the branch: it spends the multisig output itself, or has it, or neither.\<close>

fun ms_output_of :: "chain_view \<Rightarrow> transaction \<Rightarrow> hash \<Rightarrow> nat \<Rightarrow> tx_out list \<Rightarrow> nat option" where
  "ms_output_of cv tx multisig_out_id n [] = None"
| "ms_output_of cv tx multisig_out_id n (out # outs) =
     (if (case out_target out of TxoutMultisig _ \<Rightarrow> True | TxoutToKey _ \<Rightarrow> False) \<and> cv_multisig_out_id cv tx n = multisig_out_id
      then Some n else ms_output_of cv tx multisig_out_id (n + 1) outs)"

definition spends_multisig :: "hash \<Rightarrow> transaction \<Rightarrow> bool" where
  "spends_multisig multisig_out_id tx =
     list_ex (\<lambda>i. case i of TxinMultisig m \<Rightarrow> ms_multisig_out_id m = multisig_out_id | _ \<Rightarrow> False) (vin tx)"

text \<open>The transactions of a branch, from its last block down, in each the one of the miner first; one of them may be missing.\<close>

definition branch_txs :: "alt_chain \<Rightarrow> u64 \<Rightarrow> blockchain_storage \<Rightarrow> transaction option list" where
  "branch_txs alts split_height st =
     concat (map (\<lambda>e. Some (miner_tx (bei_bl (snd e))) #
       map (\<lambda>tx_id. get_transaction_from_pool_or_db tx_id split_height st) (tx_hashes (bei_bl (snd e)))) (rev alts))"

fun find_ms_source :: "chain_view \<Rightarrow> transaction \<Rightarrow> nat \<Rightarrow> txin_multisig \<Rightarrow> hash \<Rightarrow> transaction option list \<Rightarrow> blockchain_storage \<Rightarrow>
    bool" where
  "find_ms_source cv input_tx n input h [] st \<longleftrightarrow> False"
| "find_ms_source cv input_tx n input h (None # txs) st \<longleftrightarrow> False"
| "find_ms_source cv input_tx n input h (Some tx # txs) st \<longleftrightarrow>
     (if spends_multisig (ms_multisig_out_id input) tx then False
      else case ms_output_of cv tx (ms_multisig_out_id input) 0 (vout tx) of
          Some out_n \<Rightarrow> check_ms_input cv input_tx n input h tx out_n st
        | None \<Rightarrow> find_ms_source cv input_tx n input h txs st)"

definition validate_alt_block_ms_input :: "chain_view \<Rightarrow> transaction \<Rightarrow> hash \<Rightarrow> nat \<Rightarrow> u64 \<Rightarrow> alt_chain \<Rightarrow> blockchain_storage \<Rightarrow> bool" where
  "validate_alt_block_ms_input cv input_tx input_tx_hash input_index split_height alts st \<longleftrightarrow>
     (if length (vin input_tx) \<le> input_index then False
      else case vin input_tx ! input_index of
          TxinMultisig input \<Rightarrow>
            let scan = find_ms_source cv input_tx input_index input input_tx_hash (branch_txs alts split_height st) st
            in (case bs_multisig_outs st (ms_multisig_out_id input) of
                  None \<Rightarrow> scan
                | Some p \<Rightarrow>
                    if mo_spent_height p \<noteq> 0 \<and> ucast (mo_spent_height p) < split_height then False
                    else (case bs_transactions st (mo_tx_id p) of
                            None \<Rightarrow> False
                          | Some source \<Rightarrow>
                              if tce_keeper_block_height source < split_height
                              then check_ms_input cv input_tx input_index input input_tx_hash (tce_tx source) (unat (mo_out_no p)) st
                              else scan))
        | _ \<Rightarrow> False)"

subsection \<open>The transactions of a block of a branch\<close>

fun validate_alt_tx_inputs :: "chain_view \<Rightarrow> transaction \<Rightarrow> hash \<Rightarrow> u64 \<Rightarrow> alt_chain \<Rightarrow> hash list \<Rightarrow> nat list \<Rightarrow> key_image list \<Rightarrow>
    blockchain_storage \<Rightarrow> key_image list option" where
  "validate_alt_tx_inputs cv tx tx_id split_height alts ids [] collected st = Some collected"
| "validate_alt_tx_inputs cv tx tx_id split_height alts ids (n # ns) collected st =
     (case vin tx ! n of
        TxinGen _ \<Rightarrow> None
      | TxinToKey _ \<Rightarrow>
          (case validate_alt_block_input cv tx collected tx_id n (signatures tx ! n) split_height alts ids st of
             None \<Rightarrow> None
           | Some (collected, _) \<Rightarrow> validate_alt_tx_inputs cv tx tx_id split_height alts ids ns collected st)
      | TxinMultisig _ \<Rightarrow>
          if validate_alt_block_ms_input cv tx tx_id n split_height alts st
          then validate_alt_tx_inputs cv tx tx_id split_height alts ids ns collected st else None)"

fun validate_alt_txs :: "chain_view \<Rightarrow> u64 \<Rightarrow> alt_chain \<Rightarrow> hash list \<Rightarrow> hash list \<Rightarrow> key_image list \<times> alt_block_extended_info \<Rightarrow>
    blockchain_storage \<Rightarrow> (key_image list \<times> alt_block_extended_info) option" where
  "validate_alt_txs cv split_height alts ids [] (collected, abei) st = Some (collected, abei)"
| "validate_alt_txs cv split_height alts ids (tx_id # tx_ids) (collected, abei) st =
     (case get_transaction_from_pool_or_db tx_id split_height st of
        None \<Rightarrow> None
      | Some tx \<Rightarrow>
          if length (signatures tx) \<noteq> length (vin tx) then None
          else (case validate_alt_tx_inputs cv tx tx_id split_height alts ids [0..<length (vin tx)] collected st of
                  None \<Rightarrow> None
                | Some collected \<Rightarrow>
                    validate_alt_txs cv split_height alts ids tx_ids (collected, update_alt_out_indexes_for_tx_in_block tx abei st) st))"

text \<open>The table that a block of a branch begins with: that of the block before, moved on by its outputs, or that of the split.\<close>

definition alt_gindex_start :: "alt_chain \<Rightarrow> u64 \<Rightarrow> blockchain_storage \<Rightarrow> (u64 \<rightharpoonup> u64) checked" where
  "alt_gindex_start alts split_height st =
     (if alts = []
      then (case calculate_local_gindex_lookup_table_for_height split_height st of None \<Rightarrow> Thrown | Some t \<Rightarrow> Passed t)
      else let prev = snd (last alts);
               t = abei_gindex_lookup_table prev;
               keys = abei_outputs_pub_keys prev
           in if \<not> dom keys \<subseteq> dom t then Rejected
              else Passed (\<lambda>a. map_option (\<lambda>n. n + (case keys a of None \<Rightarrow> 0 | Some ks \<Rightarrow> of_nat (length ks))) (t a)))"

text \<open>The stake of a block, checked in a way of its own.\<close>

definition validate_alt_stake :: "chain_view \<Rightarrow> block \<Rightarrow> hash \<Rightarrow> u64 \<Rightarrow> u64 \<Rightarrow> alt_chain \<Rightarrow> hash list \<Rightarrow> blockchain_storage \<Rightarrow>
    key_image list option" where
  "validate_alt_stake cv b h bl_height split_height alts ids st =
     (if \<not> is_pos_coinbase (miner_tx b) then None
      else case validate_alt_block_input cv (miner_tx b) [] h 1 (signatures (miner_tx b) ! 0) split_height alts ids st of
          None \<Rightarrow> None
        | Some (collected, max_related_block_height) \<Rightarrow>
            let coinstake_age = bl_height - max_related_block_height - 1
            in if cv_min_coinstake_age cv \<le> coinstake_age then Some collected else None)"

definition validate_alt_block_txs :: "chain_view \<Rightarrow> block \<Rightarrow> hash \<Rightarrow> alt_block_extended_info \<Rightarrow> alt_chain \<Rightarrow> u64 \<Rightarrow>
    blockchain_storage \<Rightarrow> (key_image list \<times> alt_block_extended_info) checked" where
  "validate_alt_block_txs cv b h abei alts split_height st =
     (let ids = h # map (\<lambda>e. cv_block_hash cv (bei_bl (snd e))) alts
      in case alt_gindex_start alts split_height st of
           Thrown \<Rightarrow> Thrown
         | Rejected \<Rightarrow> Rejected
         | Passed t \<Rightarrow>
             let abei = abei\<lparr>abei_gindex_lookup_table := t\<rparr>
             in (case (if is_pos_block b then validate_alt_stake cv b (cv_block_hash cv b) (bei_height abei) split_height alts ids st
                       else Some []) of
                   None \<Rightarrow> Rejected
                 | Some collected \<Rightarrow>
                     (case validate_alt_txs cv split_height alts ids (tx_hashes b)
                              (collected, update_alt_out_indexes_for_tx_in_block (miner_tx b) abei st) st of
                        None \<Rightarrow> Rejected | Some r \<Rightarrow> Passed r)))"

subsection \<open>A block for a branch\<close>

text \<open>What the caller gets back besides its context: the proof and the branch up to the block.\<close>

record alt_result =
  ar_result :: bool
  ar_proof :: hash
  ar_alt_chain :: alt_chain
  ar_bvc :: block_verification_context

definition empty_abei :: "block \<Rightarrow> u64 \<Rightarrow> alt_block_extended_info" where
  "empty_abei b h = block_extended_info.extend ((empty_bei b)\<lparr>bei_height := h\<rparr>)
     (alt_block_extended_info.fields Map.empty Map.empty)"

definition alt_declined :: "alt_chain \<Rightarrow> block_verification_context \<Rightarrow> alt_result" where
  "alt_declined alts bvc = \<lparr>ar_result = False, ar_proof = null_hash, ar_alt_chain = alts, ar_bvc = bvc\<lparr>bv_verification_failed := True\<rparr>\<rparr>"

definition alt_block_proof :: "chain_view \<Rightarrow> block \<Rightarrow> wide_difficulty_type \<Rightarrow> hash \<Rightarrow> alt_chain \<Rightarrow> u64 \<Rightarrow> blockchain_storage \<Rightarrow>
    hash checked" where
  "alt_block_proof cv b current_diff h alts connection_height st =
     (if is_pos_block b
      then (case validate_pos_block cv b current_diff h True alts connection_height st of
              Thrown \<Rightarrow> Thrown | Rejected \<Rightarrow> Rejected | Passed (_, _, stake_hash) \<Rightarrow> Passed stake_hash)
      else if check_hash (cv_longhash cv b) current_diff then Passed (cv_longhash cv b) else Rejected)"

text \<open>The difficulties of the new entry.\<close>

definition alt_entry :: "chain_view \<Rightarrow> alt_block_extended_info \<Rightarrow> wide_difficulty_type \<Rightarrow> hash \<Rightarrow> alt_chain \<Rightarrow> u64 \<Rightarrow> u64 \<Rightarrow>
    blockchain_storage \<Rightarrow> alt_block_extended_info" where
  "alt_entry cv abei current_diff proof_hash alts height_main_prev connection_height st =
     (let is_pos = is_pos_block (bei_bl abei);
          before = (if alts = [] then bei_cumulative_diff_adjusted (bs_blocks st ! unat height_main_prev)
                    else bei_cumulative_diff_adjusted (snd (last alts)));
          delta = (if is_pos then get_adjusted_cumulative_difficulty_for_next_alt_pos alts current_diff connection_height st else current_diff);
          delta = (if cv_pos_minimum_heigh cv \<le> bei_height abei
                   then correct_difficulty_with_sequence_factor (get_current_sequence_factor_for_alt alts is_pos connection_height st) delta
                   else delta)
      in abei\<lparr>bei_difficulty := current_diff, bei_cumulative_diff_adjusted := before + delta,
           bei_cumulative_diff_precise := get_last_alt_x_block_cumulative_precise_difficulty alts (bei_height abei) is_pos st + current_diff,
           bei_stake_hash := (if is_pos then proof_hash else null_hash)\<rparr>)"

text \<open>The checks in front of the difficulty; the result is the height of the connection.\<close>

definition alt_head_ok :: "chain_view \<Rightarrow> block \<Rightarrow> hash \<Rightarrow> alt_chain \<Rightarrow> u64 \<Rightarrow> blockchain_storage \<Rightarrow> (u64 \<times> u64) option" where
  "alt_head_ok cv b h alts height_main_prev st =
     (case alt_timestamps alts height_main_prev st of
        None \<Rightarrow> None
      | Some timestamps \<Rightarrow>
          if \<not> check_block_timestamp cv timestamps b then None
          else let bl_height = (if alts = [] then height_main_prev + 1 else bei_height (snd (last alts)) + 1);
                   connection_height = (if alts = [] then bl_height else bei_height (snd (hd alts)))
               in if get_block_height (miner_tx b) \<noteq> bl_height then None
                  else if connection_height = 0 then None
                  else if is_in_checkpoint_zone bl_height (bs_checkpoints st) \<and> \<not> check_block bl_height h (bs_checkpoints st) then None
                  else if is_pos_block b \<and> bl_height < cv_pos_minimum_heigh cv then None
                  else Some (bl_height, connection_height))"

definition insert_alt_block :: "hash \<Rightarrow> alt_block_extended_info \<Rightarrow> key_image list \<Rightarrow> blockchain_storage \<Rightarrow> blockchain_storage" where
  "insert_alt_block h abei keyimages st =
     add_alt_block_txs_hashs (bei_bl abei) (append_altblock_keyimages_to_big_heap h keyimages
       (st\<lparr>bs_alternative_chains := (bs_alternative_chains st)(h \<mapsto> abei)\<rparr>))"

text \<open>From the difficulty on; an exception ends as a failed verification.\<close>

definition add_alt_block :: "chain_view \<Rightarrow> block \<Rightarrow> hash \<Rightarrow> alt_chain \<Rightarrow> u64 \<Rightarrow> u64 \<Rightarrow> u64 \<Rightarrow> block_verification_context \<Rightarrow>
    blockchain_storage \<Rightarrow> alt_result \<times> blockchain_storage" where
  "add_alt_block cv b h alts height_main_prev bl_height connection_height bvc st =
     (case get_next_diff_conditional2 (is_pos_block b) alts connection_height st of
        None \<Rightarrow> (alt_declined alts bvc, st)
      | Some current_diff \<Rightarrow>
          if current_diff = 0 then (alt_declined alts bvc, st)
          else (case alt_block_proof cv b current_diff h alts connection_height st of
                  Passed proof_hash \<Rightarrow>
                    if \<not> prevalidate_miner_transaction b bl_height (is_pos_block b) then (alt_declined alts bvc, st)
                    else (case validate_alt_block_txs cv b h (empty_abei b bl_height) alts connection_height st of
                            Passed (keyimages, abei) \<Rightarrow>
                              let abei = alt_entry cv abei current_diff proof_hash alts height_main_prev connection_height st
                              in if bs_alternative_chains st h \<noteq> None then (alt_declined alts bvc, st)
                                 else (\<lparr>ar_result = True, ar_proof = proof_hash, ar_alt_chain = alts @ [(h, abei)],
                                         ar_bvc = bvc\<lparr>bv_height_difference := (if bl_height \<le> bs_top_block_height st
                                             then bs_top_block_height st - bl_height else 0), bv_added_to_altchain := True\<rparr>\<rparr>,
                                       insert_alt_block h abei keyimages st)
                          | _ \<Rightarrow> (alt_declined alts bvc, st))
                | _ \<Rightarrow> (alt_declined alts bvc, st)))"

definition handle_alternative_block :: "chain_view \<Rightarrow> block \<Rightarrow> hash \<Rightarrow> block_verification_context \<Rightarrow> blockchain_storage \<Rightarrow>
    (alt_result \<times> blockchain_storage) option" where
  "handle_alternative_block cv b h bvc st =
     (if is_height_passed_zone (get_block_height (miner_tx b)) (bs_top_block_height st) (bs_checkpoints st)
      then Some (alt_declined [] bvc, st)
      else map_option (\<lambda>r. case r of
          Passed alts \<Rightarrow>
            (case (if alts = [] then checked_get_height_by_id (prev_id b) st else Some 0) of
               None \<Rightarrow>
                 let ok = validate_blockchain_prev_links cv 10 st
                 in (\<lparr>ar_result = ok, ar_proof = null_hash, ar_alt_chain = alts, ar_bvc = bvc\<lparr>bv_marked_as_orphaned := True\<rparr>\<rparr>, st)
             | Some height_main_prev \<Rightarrow>
                 (case alt_head_ok cv b h alts height_main_prev st of
                    None \<Rightarrow> (alt_declined alts bvc, st)
                  | Some (bl_height, connection_height) \<Rightarrow>
                      add_alt_block cv b h alts height_main_prev bl_height connection_height bvc st))
        | _ \<Rightarrow> (alt_declined [] bvc, st)) (build_alt_subchain cv b st))"

subsection \<open>Switching the main chain\<close>

definition empty_bvc :: block_verification_context where
  "empty_bvc = \<lparr>bv_added_to_main_chain = False, bv_verification_failed = False, bv_marked_as_orphaned = False,
     bv_already_exists = False, bv_added_to_altchain = False, bv_height_difference = 0\<rparr>"

text \<open>The first argument counts the blocks that have to go; the blocks that went are collected, the lowest first.\<close>

fun disconnect_blocks :: "chain_view \<Rightarrow> nat \<Rightarrow> block list \<Rightarrow> blockchain_storage \<Rightarrow> (bool \<times> block list) \<times> blockchain_storage" where
  "disconnect_blocks cv 0 disconnected st = ((True, disconnected), st)"
| "disconnect_blocks cv (Suc n) disconnected st =
     (let b = bei_bl (last (bs_blocks st))
      in case pop_block_from_blockchain cv True st of
           (False, st) \<Rightarrow> ((False, disconnected), st)
         | (True, st) \<Rightarrow>
             if \<not> validate_blockchain_prev_links cv 10 st then ((False, b # disconnected), st)
             else disconnect_blocks cv n (b # disconnected) st)"

text \<open>The blocks of the branch that were not connected, beginning with the one that failed; an exception is a state.\<close>

fun connect_branch :: "chain_view \<Rightarrow> alt_chain \<Rightarrow> blockchain_storage \<Rightarrow> blockchain_storage + (alt_chain \<times> blockchain_storage)" where
  "connect_branch cv [] st = Inr ([], st)"
| "connect_branch cv (e # es) st =
     (case handle_block_to_main_chain cv (bei_bl (snd e)) (cv_block_hash cv (bei_bl (snd e))) empty_bvc st of
        Inl st \<Rightarrow> Inl st
      | Inr (r, bvc, st) \<Rightarrow> if \<not> r \<or> \<not> bv_added_to_main_chain bvc then Inr (e # es, st) else connect_branch cv es st)"

definition reject_branch :: "chain_view \<Rightarrow> alt_chain \<Rightarrow> blockchain_storage \<Rightarrow> blockchain_storage" where
  "reject_branch cv es st =
     fold (\<lambda>e st. do_erase_altblock cv e (snd (add_block_as_invalid_entry cv (alt_bei e) (fst e) st))) es st"

text \<open>The old blocks become a branch. The result is whether they all do; \<open>None\<close> is a circle of blocks.\<close>

fun push_old_chain :: "chain_view \<Rightarrow> block list \<Rightarrow> blockchain_storage \<Rightarrow> outcome option" where
  "push_old_chain cv [] st = Some (True, st)"
| "push_old_chain cv (b # bs) st =
     (case handle_alternative_block cv b (cv_block_hash cv b) empty_bvc st of
        None \<Rightarrow> None
      | Some (r, st) \<Rightarrow> if \<not> ar_result r then Some (False, st) else push_old_chain cv bs st)"

text \<open>The results are the value, \<open>had_rollback\<close> and the state, or the state when an exception ends the function.\<close>

type_synonym switch_outcome = "blockchain_storage + (bool \<times> bool \<times> blockchain_storage)"

text \<open>When the old blocks do not fit, the function gives up in the middle but goes on to report success.\<close>

definition finish_switch :: "chain_view \<Rightarrow> alt_chain \<Rightarrow> block list \<Rightarrow> nat \<Rightarrow> blockchain_storage \<Rightarrow> switch_outcome option" where
  "finish_switch cv alts disconnected split_height st =
     map_option (\<lambda>(pushed, st).
       let st1 = (if pushed then st else snd (rollback_blockchain_switching cv split_height st))
       in if \<not> pushed \<and> \<not> validate_blockchain_prev_links cv 10 st1 then Inr (False, True, st1)
          else Inr (True, \<not> pushed, fold (do_erase_altblock cv) alts st1)) (push_old_chain cv disconnected st)"

definition switch_to_alternative_blockchain :: "chain_view \<Rightarrow> alt_chain \<Rightarrow> blockchain_storage \<Rightarrow> switch_outcome option" where
  "switch_to_alternative_blockchain cv alts st =
     (if \<not> validate_blockchain_prev_links cv 10 st then Some (Inr (False, False, st))
      else if alts = [] then Some (Inr (False, False, st))
      else let split_height = unat (bei_height (snd (hd alts)))
           in if length (bs_blocks st) < split_height then Some (Inr (False, False, st))
              else case disconnect_blocks cv (length (bs_blocks st) - split_height) [] st of
                  ((False, _), st) \<Rightarrow> Some (Inr (False, False, st))
                | ((True, disconnected), st) \<Rightarrow>
                    (case connect_branch cv alts st of
                       Inl st \<Rightarrow> Some (Inl st)
                     | Inr (left, st) \<Rightarrow>
                         if left = [] then finish_switch cv alts disconnected split_height st
                         else let st = snd (rollback_blockchain_switching cv split_height st)
                              in Some (Inr (False, True, reject_branch cv left st))))"

subsection \<open>A new block\<close>

text \<open>
  The transaction of the database around a block: an abort brings the tables of the database back, and leaves what is kept in
  memory, or in the database of the pool, as it is. A commit empties the cache of the difficulties.
\<close>

definition abort_transaction :: "blockchain_storage \<Rightarrow> blockchain_storage \<Rightarrow> blockchain_storage" where
  "abort_transaction before st =
     st\<lparr>bs_blocks := bs_blocks before, bs_blocks_index := bs_blocks_index before, bs_transactions := bs_transactions before,
       bs_spent_keys := bs_spent_keys before, bs_outputs := bs_outputs before, bs_multisig_outs := bs_multisig_outs before,
       bs_aliases := bs_aliases before, bs_addr_to_alias := bs_addr_to_alias before,
       bs_per_block_gindex_incs := bs_per_block_gindex_incs before, bs_current_pruned_rs_height := bs_current_pruned_rs_height before,
       bs_current_block_cumul_sz_limit := bs_current_block_cumul_sz_limit before\<rparr>"

definition commit_transaction :: "blockchain_storage \<Rightarrow> blockchain_storage" where
  "commit_transaction st = st\<lparr>bs_diff_cache := difficulty_cache_reset (bs_diff_cache st)\<rparr>"

definition finalize_pool :: "blockchain_storage \<Rightarrow> blockchain_storage" where
  "finalize_pool st = st\<lparr>bs_tx_pool := on_finalize_db_transaction (bs_tx_pool st)\<rparr>"

text \<open>The pending events go: they are dropped, or delivered to the listeners.\<close>

definition clear_events :: "blockchain_storage \<Rightarrow> blockchain_storage" where
  "clear_events st = st\<lparr>bs_alias_events := []\<rparr>"

definition on_abort_transaction :: "blockchain_storage \<Rightarrow> blockchain_storage" where
  "on_abort_transaction st = clear_events st"

type_synonym new_block_outcome = "bool \<times> block_verification_context \<times> blockchain_storage"

text \<open>What the handlers of exceptions do; the transaction, which outlives them, is aborted when the function returns.\<close>

definition block_thrown :: "blockchain_storage \<Rightarrow> block_verification_context \<Rightarrow> blockchain_storage \<Rightarrow> new_block_outcome" where
  "block_thrown before bvc st =
     (False, bvc\<lparr>bv_verification_failed := True, bv_added_to_main_chain := False\<rparr>,
      abort_transaction before (on_abort_transaction (finalize_pool st)))"

text \<open>The branch of a new block has become the better one.\<close>

definition reorganize :: "chain_view \<Rightarrow> alt_chain \<Rightarrow> block_verification_context \<Rightarrow> blockchain_storage \<Rightarrow> blockchain_storage \<Rightarrow>
    new_block_outcome option" where
  "reorganize cv alts bvc before st =
     map_option (\<lambda>r. case r of
         Inl st \<Rightarrow> block_thrown before (bvc\<lparr>bv_added_to_altchain := False\<rparr>) st
       | Inr (r, had_rollback, st) \<Rightarrow>
           let bvc = bvc\<lparr>bv_added_to_altchain := False\<rparr>;
               bvc = (if r then bvc\<lparr>bv_added_to_main_chain := True\<rparr> else bvc\<lparr>bv_verification_failed := True\<rparr>)
           in if had_rollback then (r, bvc, abort_transaction before st)
              else let st = commit_transaction st
                   in if \<not> validate_blockchain_prev_links cv 10 st then (False, bvc, st)
                      else (r, bvc, finalize_pool st)) (switch_to_alternative_blockchain cv alts st)"

definition add_alternative_block :: "chain_view \<Rightarrow> block \<Rightarrow> hash \<Rightarrow> block_verification_context \<Rightarrow> blockchain_storage \<Rightarrow>
    new_block_outcome option" where
  "add_alternative_block cv bl h bvc st =
     (case handle_alternative_block cv bl h (bvc\<lparr>bv_added_to_main_chain := False\<rparr>) st of
        None \<Rightarrow> None
      | Some (a, st') \<Rightarrow>
          let r = ar_result a; bvc = ar_bvc a
          in if \<not> r \<or> bv_verification_failed bvc
             then if \<not> validate_blockchain_prev_links cv 10 st' then Some (False, bvc, abort_transaction st st')
                  else Some (r, bvc, abort_transaction st (finalize_pool st'))
             else if bv_added_to_altchain bvc \<and>
                 is_reorganize_required (last (bs_blocks st')) (alt_bei (h, the (bs_alternative_chains st' h))) (ar_proof a)
             then reorganize cv (ar_alt_chain a) bvc st st'
             else Some (r, bvc, abort_transaction st st'))"

definition add_main_block :: "chain_view \<Rightarrow> block \<Rightarrow> hash \<Rightarrow> block_verification_context \<Rightarrow> blockchain_storage \<Rightarrow> new_block_outcome" where
  "add_main_block cv bl h bvc st =
     (case handle_block_to_main_chain cv bl h bvc st of
        Inl st' \<Rightarrow> block_thrown st bvc st'
      | Inr (r, bvc, st') \<Rightarrow>
          if bv_verification_failed bvc \<or> \<not> r
          then (r, bvc, abort_transaction st (clear_events (on_abort_transaction (finalize_pool st'))))
          else let st' = commit_transaction st'
               in if \<not> validate_blockchain_prev_links cv 10 st' then (False, bvc, st')
                  else (r, bvc, clear_events (finalize_pool st')))"

definition add_new_block :: "chain_view \<Rightarrow> block \<Rightarrow> block_verification_context \<Rightarrow> blockchain_storage \<Rightarrow> new_block_outcome option" where
  "add_new_block cv bl bvc st =
     (let h = cv_block_hash cv bl
      in if have_block h st then Some (False, bvc\<lparr>bv_already_exists := True\<rparr>, st)
         else if prev_id bl \<noteq> get_top_block_id cv st then add_alternative_block cv bl h bvc st
         else Some (add_main_block cv bl h bvc st))"

text \<open>A block that was relayed is held against its proof before it is passed on.\<close>

definition pre_validate_relayed_block :: "chain_view \<Rightarrow> block \<Rightarrow> hash \<Rightarrow> block_verification_context \<Rightarrow> blockchain_storage \<Rightarrow>
    new_block_outcome" where
  "pre_validate_relayed_block cv bl h bvc st =
     (if prev_id bl \<noteq> get_top_block_id cv st
      then (True, bvc\<lparr>bv_added_to_main_chain := False, bv_verification_failed := False\<rparr>, st)
      else case get_cached_next_difficulty (is_pos_block bl) st of
          None \<Rightarrow> (False, bvc\<lparr>bv_verification_failed := True\<rparr>, st)
        | Some (current_diffic, st) \<Rightarrow>
            if current_diffic = 0 then (False, bvc\<lparr>bv_verification_failed := True\<rparr>, st)
            else (case check_block_proof cv bl current_diffic h st of
                    Passed _ \<Rightarrow> (True, bvc\<lparr>bv_added_to_main_chain := True\<rparr>, st)
                  | _ \<Rightarrow> (False, bvc\<lparr>bv_verification_failed := True\<rparr>, st)))"

end
