(* ===== verification/ChainSpends.thy ===== *)
theory ChainSpends
  imports ChainAlt
begin

section \<open>No key image is spent twice, and refused blocks leave nothing behind\<close>

text \<open>
  The abstraction of the store to its table of key images and to the inputs of its transactions, the two operations on it, and
  the steps of the chain as runs of them: new blocks with everything that \<open>add_new_block\<close> does about them, from a refusal to
  a reorganisation that fails halfway.
\<close>

subsection \<open>The key images and who spends them\<close>

text \<open>The table of the key images, and of each transaction its height and the key images of its inputs.\<close>

type_synonym spend_tables = "(key_image \<rightharpoonup> u64) \<times> (hash \<rightharpoonup> u64 \<times> key_image list)"

definition spender :: "transaction_chain_entry \<Rightarrow> u64 \<times> key_image list" where
  "spender e = (tce_keeper_block_height e, input_images (vin (tce_tx e)))"

definition spends :: "blockchain_storage \<Rightarrow> spend_tables" where
  "spends st = (bs_spent_keys st, map_option spender \<circ> bs_transactions st)"

definition spent_exactly_once :: "spend_tables \<Rightarrow> bool" where
  "spent_exactly_once p = (case p of (K, T) \<Rightarrow>
     (\<forall>k h. K k = Some h \<longleftrightarrow> (\<exists>t ks. T t = Some (h, ks) \<and> k \<in> set ks)) \<and>
     (\<forall>t h ks. T t = Some (h, ks) \<longrightarrow> distinct ks) \<and>
     (\<forall>t t' x x' k. T t = Some x \<longrightarrow> T t' = Some x' \<longrightarrow> k \<in> set (snd x) \<longrightarrow> k \<in> set (snd x') \<longrightarrow> t = t'))"

definition spends_in :: "hash \<Rightarrow> u64 \<Rightarrow> key_image list \<Rightarrow> spend_tables \<Rightarrow> spend_tables" where
  "spends_in t h ks p = ((\<lambda>k. if k \<in> set ks then Some h else fst p k), (snd p)(t \<mapsto> (h, ks)))"

definition spends_out :: "hash \<Rightarrow> key_image list \<Rightarrow> spend_tables \<Rightarrow> spend_tables" where
  "spends_out t ks p = ((\<lambda>k. if k \<in> set ks then None else fst p k), (snd p)(t := None))"

lemma spent_in:
  assumes "spent_exactly_once p" and "snd p t = None" and "distinct ks" and "\<And>k. k \<in> set ks \<Longrightarrow> fst p k = None"
  shows "spent_exactly_once (spends_in t h ks p)"
proof -
  obtain K T where p: "p = (K, T)" by (cases p)
  have no: "k \<notin> set ks'" if "k \<in> set ks" "T t' = Some (h', ks')" for k t' h' ks'
    using assms(1,4) that by (fastforce simp: p spent_exactly_once_def)
  have a: "K k = Some h' \<longleftrightarrow> (\<exists>t ks. T t = Some (h', ks) \<and> k \<in> set ks)" for k h'
    using assms(1) by (simp add: p spent_exactly_once_def)
  have b: "T t' = Some (h', ks') \<Longrightarrow> distinct ks'" for t' h' ks'
    using assms(1) by (simp add: p spent_exactly_once_def)
  have c: "T t1 = Some x \<Longrightarrow> T t2 = Some x' \<Longrightarrow> k \<in> set (snd x) \<Longrightarrow> k \<in> set (snd x') \<Longrightarrow> t1 = t2" for t1 t2 x x' k
    using assms(1) unfolding p spent_exactly_once_def prod.case by (elim conjE) metis
  have "T t = None" using assms(2) p by simp
  show ?thesis
    unfolding spent_exactly_once_def spends_in_def p prod.case fst_conv snd_conv
  proof (intro conjI allI impI)
    fix k h'
    show "(if k \<in> set ks then Some h else K k) = Some h' \<longleftrightarrow>
        (\<exists>t' ks'. (T(t \<mapsto> (h, ks))) t' = Some (h', ks') \<and> k \<in> set ks')"
      using no a [of k h'] \<open>T t = None\<close> by (auto split: if_split_asm) (metis option.distinct(1))
  next
    fix t' h' ks' assume "(T(t \<mapsto> (h, ks))) t' = Some (h', ks')"
    then show "distinct ks'" using b assms(3) by (auto split: if_split_asm)
  next
    fix t1 t2 x x' k
    assume "(T(t \<mapsto> (h, ks))) t1 = Some x" "(T(t \<mapsto> (h, ks))) t2 = Some x'" "k \<in> set (snd x)" "k \<in> set (snd x')"
    then show "t1 = t2" using c no by (cases x; cases x') (auto split: if_split_asm)
  qed
qed

lemma spent_out:
  assumes "spent_exactly_once p" and "snd p t = Some (h, ks)"
  shows "spent_exactly_once (spends_out t ks p)"
proof -
  obtain K T where p: "p = (K, T)" by (cases p)
  have t: "T t = Some (h, ks)" using assms(2) p by simp
  have a: "K k = Some h' \<longleftrightarrow> (\<exists>t ks. T t = Some (h', ks) \<and> k \<in> set ks)" for k h'
    using assms(1) by (simp add: p spent_exactly_once_def)
  have b: "T t' = Some (h', ks') \<Longrightarrow> distinct ks'" for t' h' ks'
    using assms(1) by (simp add: p spent_exactly_once_def)
  have c: "T t1 = Some x \<Longrightarrow> T t2 = Some x' \<Longrightarrow> k \<in> set (snd x) \<Longrightarrow> k \<in> set (snd x') \<Longrightarrow> t1 = t2" for t1 t2 x x' k
    using assms(1) unfolding p spent_exactly_once_def prod.case by (elim conjE) metis
  have other: "k \<in> set ks \<Longrightarrow> T t' = Some (h', ks') \<Longrightarrow> k \<in> set ks' \<Longrightarrow> t' = t" for k t' h' ks'
    using c [of t' "(h', ks')" t "(h, ks)" k] t by simp
  show ?thesis
    unfolding spent_exactly_once_def spends_out_def p prod.case fst_conv snd_conv
  proof (intro conjI allI impI)
    fix k h'
    show "(if k \<in> set ks then None else K k) = Some h' \<longleftrightarrow> (\<exists>t' ks'. (T(t := None)) t' = Some (h', ks') \<and> k \<in> set ks')"
    proof (cases "k \<in> set ks")
      case True
      then show ?thesis using other by auto
    next
      case False
      then have "(\<exists>t' ks'. (T(t := None)) t' = Some (h', ks') \<and> k \<in> set ks') \<longleftrightarrow> (\<exists>t' ks'. T t' = Some (h', ks') \<and> k \<in> set ks')"
        using t by (metis fun_upd_apply option.distinct(1) option.inject prod.inject)
      then show ?thesis using False a by simp
    qed
  next
    fix t' h' ks' assume "(T(t := None)) t' = Some (h', ks')"
    then show "distinct ks'" using b by (auto split: if_split_asm)
  next
    fix t1 t2 x x' k
    assume "(T(t := None)) t1 = Some x" "(T(t := None)) t2 = Some x'" "k \<in> set (snd x)" "k \<in> set (snd x')"
    then show "t1 = t2" using c by (auto split: if_split_asm)
  qed
qed

subsection \<open>What the operations do to them\<close>

lemma spends_upd [simp]:
  "spends (st\<lparr>bs_outputs := c\<rparr>) = spends st" "spends (st\<lparr>bs_multisig_outs := d\<rparr>) = spends st"
  "spends (st\<lparr>bs_aliases := e\<rparr>) = spends st" "spends (st\<lparr>bs_addr_to_alias := f\<rparr>) = spends st"
  "spends (st\<lparr>bs_services := g\<rparr>) = spends st" "spends (st\<lparr>bs_tx_pool := h\<rparr>) = spends st"
  "spends (st\<lparr>bs_current_fee_median := i\<rparr>) = spends st" "spends (st\<lparr>bs_current_fee_median_effective_index := i\<rparr>) = spends st"
  "spends (st\<lparr>bs_alias_events := y\<rparr>) = spends st" "spends (st\<lparr>bs_blocks := b\<rparr>) = spends st"
  "spends (st\<lparr>bs_blocks_index := j\<rparr>) = spends st" "spends (st\<lparr>bs_per_block_gindex_incs := l\<rparr>) = spends st"
  "spends (st\<lparr>bs_checkpoints := m\<rparr>) = spends st" "spends (st\<lparr>bs_is_in_checkpoint_zone := z\<rparr>) = spends st"
  "spends (st\<lparr>bs_current_pruned_rs_height := i\<rparr>) = spends st" "spends (st\<lparr>bs_diff_cache := dc\<rparr>) = spends st"
  "spends (st\<lparr>bs_alternative_chains := n\<rparr>) = spends st" "spends (st\<lparr>bs_alternative_chains_txs := q\<rparr>) = spends st"
  "spends (st\<lparr>bs_altblocks_keyimages := r\<rparr>) = spends st" "spends (st\<lparr>bs_invalid_blocks := iv\<rparr>) = spends st"
  by (simp_all add: spends_def)

lemma spends_same_tables: "same_tables st st' \<Longrightarrow> spends st = spends st'"
  by (simp add: same_tables_def spends_def)

lemma spender_shape: "tx_shape m = tx_shape m' \<Longrightarrow> map_option spender \<circ> m = map_option spender \<circ> m'"
proof
  fix t assume "tx_shape m = tx_shape m'"
  then have "tx_shape m t = tx_shape m' t" by simp
  then show "(map_option spender \<circ> m) t = (map_option spender \<circ> m') t"
  proof (cases "m t"; cases "m' t")
    fix e e' assume "m t = Some e" "m' t = Some e'"
    with \<open>tx_shape m t = tx_shape m' t\<close> show ?thesis by (cases e; cases e') (simp add: tx_shape_def spender_def)
  qed (simp_all add: tx_shape_def)
qed

lemma put_alias_spends: "put_alias_info cv ai st = (r, st') \<Longrightarrow> spends st' = spends st"
  by (auto simp: put_alias_info_def put_names_def put_history_def Let_def split: if_split_asm)

lemma pop_alias_spends: "pop_alias_info ai st = (r, st') \<Longrightarrow> spends st' = spends st"
  by (auto simp: pop_alias_info_def put_names_def put_history_def Let_def split: if_split_asm)

lemma process_extra_spends:
  assumes "process_blockchain_tx_extra cv tx st = (r, st')"
  shows "spends st' = spends st"
proof -
  have p: "spends s' = spends s" if p: "prevalidate_alias_info cv tx ai s = (q, s')" for ai q s s'
    using prevalidate_state [OF p] by auto
  show ?thesis
    using assms by (auto simp: process_blockchain_tx_extra_def split: option.splits if_split_asm prod.splits bool.splits
        dest!: p put_alias_spends)
qed

lemma unprocess_extra_spends: "unprocess_blockchain_tx_extra tx st = (r, st') \<Longrightarrow> spends st' = spends st"
  by (auto simp: unprocess_blockchain_tx_extra_def split: option.splits if_split_asm dest: pop_alias_spends)

lemma push_outs_spends: "push_outs cv tx t i os gi st = (r, gi', st') \<Longrightarrow> spends st' = spends st"
  by (induction cv tx t i os gi st rule: push_outs.induct) (auto simp: Let_def split: txout_target_v.splits if_split_asm)

lemma pop_outs_spends: "pop_outs cv tx t os st = (r, st') \<Longrightarrow> spends st' = spends st"
  by (induction cv tx t os st rule: pop_outs.induct) (auto simp: Let_def split: txout_target_v.splits if_split_asm)

lemma add_inputs_spends:
  assumes "add_inputs h is st = (True, st')"
  shows "spends st' = ((\<lambda>k. if k \<in> set (input_images is) then Some h else fst (spends st) k), snd (spends st)) \<and>
    distinct (input_images is) \<and> (\<forall>k \<in> set (input_images is). fst (spends st) k = None)"
proof -
  obtain txs where t: "st' = with_tables (fold (set_image (Some h)) is (bs_spent_keys st)) (fold (set_ms_height (ucast h)) is (bs_multisig_outs st)) txs st"
    "tx_shape txs = tx_shape (bs_transactions st)" "distinct (input_images is)"
    "\<And>k. k \<in> set (input_images is) \<Longrightarrow> bs_spent_keys st k = None"
    using add_inputs_success [OF assms] by metis
  show ?thesis using t(3,4) spender_shape [OF t(2)]
    by (auto simp: t(1) spends_def with_tables_def set_image_fold_Some)
qed

lemma purge_inputs_spends:
  "purge_inputs True is st = (True, st') \<Longrightarrow>
    spends st' = ((\<lambda>k. if k \<in> set (input_images is) then None else fst (spends st) k), snd (spends st))"
proof (induction "is" arbitrary: st)
  case (Cons i "is")
  let ?st = "input_written None 0 False (marked_output st i) i st"
  from Cons.prems have a: "purge_input True i st = (True, ?st)" and r: "purge_inputs True is ?st = (True, st')"
    by (auto split: prod.split_asm if_split_asm simp: purge_input_success)
  have f: "fst (spends ?st) = (\<lambda>k. if k \<in> set (image_of i) then None else fst (spends st) k)"
    by (auto simp: spends_def set_image_def image_of_def fun_eq_iff split: txin_v.split)
  have g: "snd (spends ?st) = snd (spends st)" unfolding spends_def snd_conv by (rule spender_shape) simp
  show ?case unfolding Cons.IH [OF r] f g by (intro arg_cong2 [where f = Pair] ext) simp_all
qed (simp add: spends_def)

lemma added_spends:
  assumes "add_transaction_from_block cv tx t bl_id h ts st = (True, st')"
  shows "spends st' = spends_in t h (input_images (vin tx)) (spends st) \<and> snd (spends st) t = None \<and>
    distinct (input_images (vin tx)) \<and> (\<forall>k \<in> set (input_images (vin tx)). fst (spends st) k = None)"
proof -
  obtain st1 st2 gi st3 where a: "process_blockchain_tx_extra cv tx st = (True, st1)"
    and ai: "add_inputs h (vin tx) (st1\<lparr>bs_services := process_blockchain_tx_attachments tx h bl_id ts (bs_services st1)\<rparr>) = (True, st2)"
    and n: "bs_transactions st2 t = None" and po: "push_outs cv tx t 0 (vout tx) [] st2 = (True, gi, st3)"
    and st': "st' = st3\<lparr>bs_transactions := (bs_transactions st3)(t \<mapsto>
       \<lparr>tce_tx = tx, tce_keeper_block_height = h, tce_global_output_indexes = gi,
        tce_spent_flags = replicate (length (vout tx)) False\<rparr>)\<rparr>"
    by (rule add_transaction_success [OF assms])
  have e: "spends st1 = spends st" "spends st3 = spends st2" using process_extra_spends [OF a] push_outs_spends [OF po] by simp_all
  have "spends st' = (fst (spends st3), (snd (spends st3))(t \<mapsto> (h, input_images (vin tx))))"
    by (auto simp: st' spends_def spender_def fun_eq_iff)
  moreover have "snd (spends st2) t = None" using n by (simp add: spends_def)
  ultimately show ?thesis using add_inputs_spends [OF ai] e by (simp add: spends_in_def cong: if_cong)
qed

lemma purged_spends:
  assumes "purge_transaction_from_blockchain cv t p st = (True, f, st')"
  shows "\<exists>h ks. snd (spends st) t = Some (h, ks) \<and> spends st' = spends_out t ks (spends st)"
proof -
  obtain e st1 st2 sv pl st4 where e: "bs_transactions st t = Some e" "purge_inputs True (vin (tce_tx e)) st = (True, st1)"
    "unprocess_blockchain_tx_extra (tce_tx e) st1 = (True, st2)"
    "pop_outs cv (tce_tx e) t (rev (vout (tce_tx e))) (st2\<lparr>bs_services := sv, bs_tx_pool := pl\<rparr>) = (True, st4)"
    "st' = st4\<lparr>bs_transactions := (bs_transactions st4)(t := None)\<rparr>"
    using assms unfolding purge_transaction_from_blockchain_def purge_transaction_keyimages_from_blockchain_def
      pop_transaction_from_global_index_def Let_def
    by (simp split: option.split_asm prod.split_asm bool.split_asm if_split_asm)
  have s: "spends st4 = spends st1" using unprocess_extra_spends [OF e(3)] pop_outs_spends [OF e(4)] by simp
  have "spends st' = (fst (spends st4), (snd (spends st4))(t := None))" by (auto simp: e(5) spends_def fun_eq_iff)
  then have "spends st' = spends_out t (input_images (vin (tce_tx e))) (spends st)"
    using purge_inputs_spends [OF e(2)] s by (simp add: spends_out_def)
  moreover have "snd (spends st) t = Some (tce_keeper_block_height e, input_images (vin (tce_tx e)))"
    using e(1) by (simp add: spends_def spender_def)
  ultimately show ?thesis by blast
qed

subsection \<open>Blocks\<close>

definition spent_once :: "blockchain_storage \<Rightarrow> bool" where
  "spent_once st \<longleftrightarrow> spent_exactly_once (spends st)"

lemma added_once:
  assumes "add_transaction_from_block cv tx t bl_id h ts st = (True, st')" and "spent_once st"
  shows "spent_once st'"
  using added_spends [OF assms(1)] assms(2) spent_in by (simp add: spent_once_def)

lemma purged_once:
  assumes "purge_transaction_from_blockchain cv t p st = (True, f, st')" and "spent_once st"
  shows "spent_once st'"
  using purged_spends [OF assms(1)] assms(2) spent_out by (metis spent_once_def)

lemma once_cong: "spends st' = spends st \<Longrightarrow> spent_once st' = spent_once st"
  by (simp add: spent_once_def)

lemma loop_once:
  "block_txs_loop cv bl bl_id h ids bt st = Inr (bt', st') \<Longrightarrow> spent_once st \<Longrightarrow> spent_once st'"
proof (induction ids arbitrary: bt st)
  case (Cons t ids)
  from Cons.prems(1) obtain tx bt1 pool st1 where a: "add_transaction_from_block cv tx t bl_id
      (get_current_blockchain_size (st\<lparr>bs_tx_pool := pool\<rparr>)) (get_actual_timestamp bl) (st\<lparr>bs_tx_pool := pool\<rparr>) = (True, st1)"
    and r: "block_txs_loop cv bl bl_id h ids bt1 st1 = Inr (bt', st')"
    by (auto simp: Let_def split: option.splits if_split_asm prod.splits bool.splits)
  have "spent_once (st\<lparr>bs_tx_pool := pool\<rparr>)" using Cons.prems(2) by (simp add: spent_once_def)
  from Cons.IH [OF r added_once [OF a this]] show ?case .
qed simp

lemma accepted_once:
  assumes h: "handle_block_to_main_chain cv bl bl_id bvc st = Inr (True, bvc', st')" and once: "spent_once st"
  shows "spent_once st'"
  using h
proof (rule handle_reaches)
  fix z c d ph assume a: "add_block_txs cv bl bl_id d ph (get_current_blockchain_size st) bvc (headed st z c) = Inr (True, bvc', st')"
  have o: "spent_once (headed st z c)" using once by (simp add: headed_def spent_once_def)
  obtain st1 bt bt' st2 n where m: "add_transaction_from_block cv (miner_tx bl) (cv_transaction_hash cv (miner_tx bl)) bl_id
      (get_current_blockchain_size st) (get_actual_timestamp bl) (headed st z c) = (True, st1)"
    and l: "block_txs_loop cv bl bl_id (get_current_blockchain_size st) (tx_hashes bl) bt st1 = Inr (bt', st2)"
    and con: "connect_block cv bl bl_id d ph n bt' bvc st2 = Inr (True, bvc', st')"
    using a unfolding add_block_txs_def Let_def verification_failed_def
    by (auto split: prod.split_asm bool.split_asm sum.split_asm)
  have "same_tables st' st2" using connect_success [OF con] by blast
  then show ?thesis using loop_once [OF l added_once [OF m o]] once_cong [OF spends_same_tables] by blast
qed simp

lemma purge_loop_result: "purge_transactions_loop cv p hs False f st = (res, f', st') \<Longrightarrow> \<not> res"
  by (induction hs arbitrary: f st) (auto simp: Let_def split: prod.split_asm)

lemma purge_loop_once:
  "purge_transactions_loop cv p hs True f st = (True, f', st') \<Longrightarrow> spent_once st \<Longrightarrow> spent_once st'"
proof (induction hs arbitrary: f st)
  case (Cons h hs)
  obtain r g st1 where one: "purge_transaction_from_blockchain cv h p st = (r, g, st1)"
    by (cases "purge_transaction_from_blockchain cv h p st")
  with Cons.prems(1) have l: "purge_transactions_loop cv p hs r (f + g) st1 = (True, f', st')" by (simp add: Let_def)
  then have r by (metis purge_loop_result)
  with one have "spent_once st1" using purged_once Cons.prems(2) by metis
  then show ?case using Cons.IH l \<open>r\<close> by metis
qed simp

lemma popped_once:
  assumes "pop_block_from_blockchain cv p st = (True, st')" and "spent_once st"
  shows "spent_once st'"
proof -
  let ?bl = "bei_bl (last (bs_blocks st))"
  obtain f X where X: "purge_block_data_from_blockchain cv ?bl (length (tx_hashes ?bl)) p st = (True, f, X)" "spends st' = spends X"
    using assms(1) unfolding pop_block_from_blockchain_def pop_block_from_per_block_increments_def Let_def
    by (auto split: if_split_asm prod.split_asm)
  obtain f1 Y f2 where "purge_transactions_loop cv p (rev (tx_hashes ?bl)) True 0 st = (True, f1, Y)"
    "purge_transaction_from_blockchain cv (cv_transaction_hash cv (miner_tx ?bl)) True Y = (True, f2, X)"
    using X(1) unfolding purge_block_data_from_blockchain_def Let_def by (auto split: if_split_asm prod.split_asm)
  then show ?thesis using purge_loop_once purged_once assms(2) once_cong [OF X(2)] by metis
qed

lemma truncated_once:
  "truncate_loop cv n h st = (True, st') \<Longrightarrow> spent_once st \<Longrightarrow> spent_once st'"
proof (induction n arbitrary: st)
  case (Suc n)
  then show ?case by (auto split: if_split_asm prod.splits bool.splits dest: popped_once)
qed simp

subsection \<open>Side steps\<close>

lemma rollback_spends: "rollback_txs cv hs st = (r, st') \<Longrightarrow> spends st' = spends st"
  by (induction hs arbitrary: st) (auto simp: Let_def split: option.splits if_split_asm prod.splits)

lemma pruned_spends:
  assumes "bs_transactions st h = Some e"
  shows "spends (st\<lparr>bs_transactions := (bs_transactions st)(h \<mapsto> e\<lparr>tce_tx := prune_tx (tce_tx e)\<rparr>)\<rparr>) = spends st"
  using assms by (auto simp: spends_def spender_def prune_tx_def fun_eq_iff)

lemma prune_txs_spends: "prune_txs h hs st = (r, st') \<Longrightarrow> spends st' = spends st"
  by (induction hs arbitrary: st) (auto split: option.splits if_split_asm simp: pruned_spends)

lemma prune_blocks_spends: "prune_blocks hs st = (r, st') \<Longrightarrow> spends st' = spends st"
  by (induction hs arbitrary: st)
    (auto simp: prune_ring_signatures_and_attachments_def split: prod.splits bool.splits if_split_asm dest!: prune_txs_spends)

lemma prune_if_need_spends: "prune_ring_signatures_and_attachments_if_need st = (r, st') \<Longrightarrow> spends st' = spends st"
  by (auto simp: prune_ring_signatures_and_attachments_if_need_def Let_def split: prod.splits bool.splits if_split_asm
      dest!: prune_blocks_spends)

lemma validate_checkpoints_spends: "validate_checkpoints cv st = (r, st') \<Longrightarrow> spends st' = spends st"
proof -
  have "spends (snd (prune_ring_signatures_and_attachments_if_need s)) = spends s" for s
    by (metis prune_if_need_spends prod.collapse)
  then show "validate_checkpoints cv st = (r, st') \<Longrightarrow> spends st' = spends st"
    by (auto simp: validate_checkpoints_def Let_def split: if_split_asm)
qed

subsection \<open>Branches and reorganisations\<close>

lemma erase_spends: "spends (do_erase_altblock cv e st) = spends st"
proof -
  have "spends (snd (purge_keyimage_from_big_heap ki h st)) = spends st" for ki h st
    by (simp add: purge_keyimage_from_big_heap_def Let_def split: option.split)
  then have "spends (fold (\<lambda>ki st. snd (purge_keyimage_from_big_heap ki h st)) kis st) = spends st" for kis h st
    by (induction kis arbitrary: st) simp_all
  then show ?thesis
    by (simp add: do_erase_altblock_def purge_altblock_keyimages_from_big_heap_def purge_alt_block_txs_hashs_def Let_def)
qed

lemma erase_all_spends: "spends (fold (do_erase_altblock cv) es st) = spends st"
  by (induction es arbitrary: st) (simp_all add: erase_spends)

lemma reject_branch_spends: "spends (reject_branch cv es st) = spends st"
proof (induction es arbitrary: st)
  case (Cons e es)
  have "spends (snd (add_block_as_invalid_entry cv b h st)) = spends st" for b h st
    by (simp add: add_block_as_invalid_entry_def Let_def)
  with Cons show ?case by (simp add: reject_branch_def erase_spends)
qed (simp add: reject_branch_def)

lemma insert_alt_spends: "spends (insert_alt_block h abei kis st) = spends st"
  by (simp add: insert_alt_block_def add_alt_block_txs_hashs_def append_altblock_keyimages_to_big_heap_def)

definition alt_stored :: "hash \<Rightarrow> blockchain_storage \<Rightarrow> alt_result \<times> blockchain_storage \<Rightarrow> bool" where
  "alt_stored h st p \<longleftrightarrow> \<not> bv_added_to_main_chain (ar_bvc (fst p)) \<and> (snd p = st \<or> (\<exists>abei kis. snd p = insert_alt_block h abei kis st))"

lemma alt_stored_simps:
  "\<not> bv_added_to_main_chain (ar_bvc a) \<Longrightarrow> alt_stored h st (a, st)"
  "\<not> bv_added_to_main_chain (ar_bvc a) \<Longrightarrow> alt_stored h st (a, insert_alt_block h abei kis st)"
  by (auto simp: alt_stored_def)

lemma add_alt_stored:
  assumes "\<not> bv_added_to_main_chain bvc"
  shows "alt_stored h st (add_alt_block cv b h alts m l c bvc st)"
proof -
  have d: "alt_stored h st (alt_declined x bvc, st)" for x
    using assms by (simp add: alt_stored_simps alt_declined_def)
  show ?thesis
    unfolding add_alt_block_def Let_def
    by (simp add: d assms alt_stored_simps split: option.split checked.split prod.split)
qed

lemma handle_alternative_state:
  assumes "handle_alternative_block cv b h bvc st = Some (a, st')" and "\<not> bv_added_to_main_chain bvc"
  shows "(st' = st \<or> (\<exists>abei kis. st' = insert_alt_block h abei kis st)) \<and> \<not> bv_added_to_main_chain (ar_bvc a)"
proof -
  have d: "alt_stored h st (alt_declined x bvc, st)" for x
    using assms(2) by (simp add: alt_stored_simps alt_declined_def)
  have "pred_option (alt_stored h st) (handle_alternative_block cv b h bvc st)"
    unfolding handle_alternative_block_def Let_def
    by (simp add: d assms(2) alt_stored_simps add_alt_stored option.pred_map split: option.split checked.split prod.split)
      (simp add: pred_option_def d assms(2) alt_stored_simps add_alt_stored split: option.split checked.split prod.split)
  then show ?thesis unfolding assms(1) by (simp add: alt_stored_def)
qed

lemma handle_alternative_spends:
  assumes "handle_alternative_block cv b h bvc st = Some (a, st')" and "\<not> bv_added_to_main_chain bvc"
  shows "spends st' = spends st"
  using handle_alternative_state [OF assms] insert_alt_spends by auto

lemma push_old_spends: "push_old_chain cv bs st = Some (r, st') \<Longrightarrow> spends st' = spends st"
  by (induction bs arbitrary: st)
    (auto split: option.splits prod.splits if_split_asm dest!: handle_alternative_spends simp: empty_bvc_def)

lemma rolled_back_spends: "spends (snd (rollback_blockchain_switching cv k st)) = spends st"
proof -
  have "spends (snd (rollback_txs cv hs st)) = spends st" for hs
    using rollback_spends [of cv hs st] by (cases "rollback_txs cv hs st") simp
  then show ?thesis by (simp add: rollback_blockchain_switching_def)
qed

lemma aborted_spends: "spends (abort_transaction before st) = spends before"
  by (simp add: abort_transaction_def spends_def)

lemma committed_spends:
  "spends (commit_transaction st) = spends st" "spends (finalize_pool st) = spends st" "spends (clear_events st) = spends st"
  "spends (on_abort_transaction st) = spends st"
  by (simp_all add: commit_transaction_def finalize_pool_def clear_events_def on_abort_transaction_def)

lemma disconnected_once:
  "disconnect_blocks cv n acc st = ((True, d), st') \<Longrightarrow> spent_once st \<Longrightarrow> spent_once st'"
  by (induction n arbitrary: acc st)
    (auto simp: Let_def split: prod.splits bool.splits if_split_asm dest: popped_once)

lemma connected_once:
  "connect_branch cv es st = Inr ([], st') \<Longrightarrow> spent_once st \<Longrightarrow> spent_once st'"
  by (induction es arbitrary: st) (auto split: sum.splits prod.splits if_split_asm dest: accepted_once)

text \<open>
  When a reorganisation cannot take off one of the blocks of the main chain, the function that switches returns \<open>false\<close>
  without asking for a rollback, and \<open>add_new_block\<close> commits what has been done so far. This is the one case that the
  theorems exclude: \<open>comes_off\<close> says that the blocks above the split, if there are any to take off, come off.
\<close>

definition comes_off :: "chain_view \<Rightarrow> alt_chain \<Rightarrow> blockchain_storage \<Rightarrow> bool" where
  "comes_off cv alts st \<longleftrightarrow>
     alts = [] \<or> length (bs_blocks st) < unat (bei_height (snd (hd alts))) \<or>
     fst (fst (disconnect_blocks cv (length (bs_blocks st) - unat (bei_height (snd (hd alts)))) [] st))"

definition reorganizes_cleanly :: "chain_view \<Rightarrow> block \<Rightarrow> block_verification_context \<Rightarrow> blockchain_storage \<Rightarrow> bool" where
  "reorganizes_cleanly cv bl bvc st \<longleftrightarrow>
     prev_id bl = get_top_block_id cv st \<or>
     (case handle_alternative_block cv bl (cv_block_hash cv bl) (bvc\<lparr>bv_added_to_main_chain := False\<rparr>) st of
        None \<Rightarrow> True
      | Some (a, st') \<Rightarrow> comes_off cv (ar_alt_chain a) st')"

text \<open>The outcomes of a switch: nothing was touched, the change is to be rolled back, or the branch is connected.\<close>

lemma switch_cases:
  assumes "switch_to_alternative_blockchain cv alts st = Some (Inr (r, had_rollback, st'))" and "comes_off cv alts st"
  obtains (untouched) "\<not> r" "\<not> had_rollback" "st' = st"
  | (rolled_back) "had_rollback"
  | (switched) st1 d st2 where "r" "\<not> had_rollback" "alts \<noteq> []"
      "disconnect_blocks cv (length (bs_blocks st) - unat (bei_height (snd (hd alts)))) [] st = ((True, d), st1)"
      "connect_branch cv alts st1 = Inr ([], st2)" "spends st' = spends st2"
proof (cases "\<not> validate_blockchain_prev_links cv 10 st \<or> alts = [] \<or> length (bs_blocks st) < unat (bei_height (snd (hd alts)))")
  case True
  then show thesis using assms(1) untouched by (auto simp: switch_to_alternative_blockchain_def Let_def split: if_split_asm)
next
  case False
  let ?n = "length (bs_blocks st) - unat (bei_height (snd (hd alts)))"
  obtain d st1 where d: "disconnect_blocks cv ?n [] st = ((True, d), st1)"
    using assms(2) False unfolding comes_off_def by (cases "disconnect_blocks cv ?n [] st") auto
  have sw: "(case connect_branch cv alts st1 of
       Inl st \<Rightarrow> Some (Inl st)
     | Inr (left, st) \<Rightarrow>
         if left = [] then finish_switch cv alts d (unat (bei_height (snd (hd alts)))) st
         else let st = snd (rollback_blockchain_switching cv (unat (bei_height (snd (hd alts)))) st)
              in Some (Inr (False, True, reject_branch cv left st))) = Some (Inr (r, had_rollback, st'))"
    using assms(1) False by (simp add: switch_to_alternative_blockchain_def Let_def d)
  then obtain left st2 where c: "connect_branch cv alts st1 = Inr (left, st2)" by (auto split: sum.split_asm prod.split_asm)
  show thesis
  proof (cases "left = []")
    case True
    then have "finish_switch cv alts d (unat (bei_height (snd (hd alts)))) st2 = Some (Inr (r, had_rollback, st'))"
      using sw c by simp
    then obtain pushed st3 where p: "push_old_chain cv d st2 = Some (pushed, st3)"
      and f: "(let st1 = (if pushed then st3 else snd (rollback_blockchain_switching cv (unat (bei_height (snd (hd alts)))) st3))
         in if \<not> pushed \<and> \<not> validate_blockchain_prev_links cv 10 st1 then Inr (False, True, st1)
            else Inr (True, \<not> pushed, fold (do_erase_altblock cv) alts st1)) = (Inr (r, had_rollback, st') :: switch_outcome)"
      by (auto simp: finish_switch_def)
    show thesis
    proof (cases pushed)
      case True
      then have "r" "\<not> had_rollback" "spends st' = spends st3" using f by (auto simp: Let_def erase_all_spends)
      then show thesis using switched d c \<open>left = []\<close> push_old_spends [OF p] False by simp
    qed (use f rolled_back in \<open>auto simp: Let_def split: if_split_asm\<close>)
  qed (use sw c rolled_back in \<open>auto simp: Let_def\<close>)
qed

text \<open>A reorganisation leaves the tables of before, or it is complete.\<close>

lemma reorganize_cases:
  assumes "reorganize cv alts bvc before st = Some (r, bvc', st')" and "comes_off cv alts st" and "\<not> bv_added_to_main_chain bvc"
  obtains (kept) "\<not> r" "\<not> bv_added_to_main_chain bvc'" "st' = commit_transaction st \<or> st' = finalize_pool (commit_transaction st)"
  | (aborted) x where "st' = abort_transaction before x"
  | (switched) st1 d st2 where "bv_added_to_main_chain bvc'" "alts \<noteq> []"
      "disconnect_blocks cv (length (bs_blocks st) - unat (bei_height (snd (hd alts)))) [] st = ((True, d), st1)"
      "connect_branch cv alts st1 = Inr ([], st2)" "spends st' = spends st2"
proof -
  obtain out where o: "switch_to_alternative_blockchain cv alts st = Some out"
    using assms(1) by (auto simp: reorganize_def)
  show thesis
  proof (cases out)
    case (Inl x)
    then show thesis using assms(1) o aborted by (auto simp: reorganize_def block_thrown_def)
  next
    case (Inr y)
    obtain q h x where y: "y = (q, h, x)" by (cases y)
    have sw: "switch_to_alternative_blockchain cv alts st = Some (Inr (q, h, x))" using o Inr y by simp
    show thesis using sw assms(2)
    proof (cases rule: switch_cases)
      case untouched
      then show thesis using assms(1,3) sw kept by (auto simp: reorganize_def Let_def split: if_split_asm)
    next
      case rolled_back
      then show thesis using assms(1) sw aborted by (auto simp: reorganize_def Let_def split: if_split_asm)
    next
      case (switched st1 d st2)
      then have "spends st' = spends st2" "bv_added_to_main_chain bvc'"
        using assms(1) sw by (auto simp: reorganize_def Let_def committed_spends split: if_split_asm)
      with switched that(3) show thesis by blast
    qed
  qed
qed

definition refused_tables :: "blockchain_storage \<Rightarrow> blockchain_storage \<Rightarrow> bool" where
  "refused_tables st' st \<longleftrightarrow> same_tables st' st \<and> same_blocks st' st"

lemma refused_trans: "refused_tables st1 st2 \<Longrightarrow> refused_tables st2 st3 \<Longrightarrow> refused_tables st1 st3"
  by (simp add: refused_tables_def same_tables_def same_blocks_def)

lemma refused_spends: "refused_tables st' st \<Longrightarrow> spends st' = spends st"
  by (simp add: refused_tables_def spends_same_tables)

lemma refused_states [simp]:
  "refused_tables (abort_transaction before st) st0 = refused_tables before st0"
  "refused_tables (commit_transaction st) st0 = refused_tables st st0"
  "refused_tables (finalize_pool st) st0 = refused_tables st st0"
  "refused_tables (clear_events st) st0 = refused_tables st st0"
  "refused_tables (on_abort_transaction st) st0 = refused_tables st st0"
  "refused_tables (insert_alt_block h abei kis st) st0 = refused_tables st st0"
  "refused_tables st st"
  by (simp_all add: refused_tables_def same_tables_def same_blocks_def abort_transaction_def commit_transaction_def
      finalize_pool_def clear_events_def on_abort_transaction_def insert_alt_block_def add_alt_block_txs_hashs_def
      append_altblock_keyimages_to_big_heap_def)

lemma accepted_is_added:
  assumes "handle_block_to_main_chain cv bl bl_id bvc st = Inr (True, bvc', st')"
  shows "bv_added_to_main_chain bvc'"
  using assms
proof (rule handle_reaches)
  fix z c d ph assume "add_block_txs cv bl bl_id d ph (get_current_blockchain_size st) bvc (headed st z c) = Inr (True, bvc', st')"
  then show ?thesis unfolding add_block_txs_def connect_block_def Let_def verification_failed_def
    by (auto split: prod.split_asm bool.split_asm sum.split_asm if_split_asm option.split_asm)
qed simp

text \<open>A new block is refused with the tables of before, or it extends the chain, or it completes a better branch.\<close>

lemma new_block_cases:
  assumes new: "add_new_block cv bl bvc st = Some (r, bvc', st')" and clean: "reorganizes_cleanly cv bl bvc st"
  obtains (refused) "refused_tables st' st"
  | (extended) bvc1 st1 where "handle_block_to_main_chain cv bl (cv_block_hash cv bl) bvc st = Inr (True, bvc1, st1)"
      "bv_added_to_main_chain bvc'" "spends st' = spends st1"
  | (switched) alts st0 st1 n d st2 where "bv_added_to_main_chain bvc'" "spends st0 = spends st"
      "disconnect_blocks cv n [] st0 = ((True, d), st1)" "connect_branch cv alts st1 = Inr ([], st2)" "spends st' = spends st2"
proof -
  let ?h = "cv_block_hash cv bl"
  consider "st' = st" | "add_alternative_block cv bl ?h bvc st = Some (r, bvc', st')" "prev_id bl \<noteq> get_top_block_id cv st"
    | "add_main_block cv bl ?h bvc st = (r, bvc', st')"
    using new by (auto simp: add_new_block_def Let_def split: if_split_asm)
  then show thesis
  proof cases
    case 1
    then show thesis by (intro refused) simp
  next
    case 2
    then obtain a st0 where a: "handle_alternative_block cv bl ?h (bvc\<lparr>bv_added_to_main_chain := False\<rparr>) st = Some (a, st0)"
      by (auto simp: add_alternative_block_def split: option.splits)
    have off: "comes_off cv (ar_alt_chain a) st0" using clean a 2(2) by (simp add: reorganizes_cleanly_def)
    have st0: "refused_tables st0 st" using handle_alternative_state [OF a] by auto
    consider x where "st' = abort_transaction st x"
      | "reorganize cv (ar_alt_chain a) (ar_bvc a) st st0 = Some (r, bvc', st')"
      using 2(1) a by (auto simp: add_alternative_block_def Let_def split: if_split_asm)
    then show thesis
    proof cases
      case (1 x)
      then show thesis by (intro refused) simp
    next
      case 2
      have nb: "\<not> bv_added_to_main_chain (ar_bvc a)" using handle_alternative_state [OF a] by simp
      from 2 off nb show thesis
      proof (cases rule: reorganize_cases)
        case kept
        then have "refused_tables st' st" using st0 by auto
        then show thesis by (rule refused)
      next
        case (aborted x)
        then have "refused_tables st' st" by auto
        then show thesis by (rule refused)
      next
        case (switched st1 d st2)
        show thesis by (rule that(3) [OF switched(1) refused_spends [OF st0] switched(3,4,5)])
      qed
    qed
  next
    case 3
    show thesis
    proof (cases "handle_block_to_main_chain cv bl ?h bvc st")
      case (Inl x)
      then have "st' = abort_transaction st (on_abort_transaction (finalize_pool x))"
        using 3 by (simp add: add_main_block_def block_thrown_def)
      then show thesis by (intro refused) simp
    next
      case (Inr y)
      obtain q bvc1 x where y: "y = (q, bvc1, x)" by (cases y)
      show thesis
      proof (cases "bv_verification_failed bvc1 \<or> \<not> q")
        case True
        then have "refused_tables st' st" using 3 Inr y by (auto simp: add_main_block_def)
        then show thesis by (rule refused)
      next
        case False
        then have h: "handle_block_to_main_chain cv bl ?h bvc st = Inr (True, bvc1, x)" using Inr y by simp
        have "bvc' = bvc1" "spends st' = spends x"
          using 3 Inr y False by (auto simp: add_main_block_def Let_def committed_spends split: if_split_asm)
        then show thesis using extended [OF h] accepted_is_added [OF h] by simp
      qed
    qed
  qed
qed

subsection \<open>Every history\<close>

text \<open>
  The steps of a chain: a new block goes through \<open>add_new_block\<close>, which may add it to the main chain, put it beside it, switch to
  its branch, refuse it at any point, or fail with an exception or halfway through a switch; blocks come off; transactions
  go back to the pool; the checkpoints change or are checked. A block that is to come off comes off.
\<close>

inductive spend_step :: "chain_view \<Rightarrow> blockchain_storage \<Rightarrow> blockchain_storage \<Rightarrow> bool" for cv where
  new_block: "add_new_block (cv\<lparr>cv_core_time := t\<rparr>) bl bvc st = Some (r, bvc', st') \<Longrightarrow>
    reorganizes_cleanly (cv\<lparr>cv_core_time := t\<rparr>) bl bvc st \<Longrightarrow> spend_step cv st st'"
| block_popped: "pop_block_from_blockchain cv p st = (True, st') \<Longrightarrow> spend_step cv st st'"
| chain_truncated: "truncate_blockchain cv h st = (True, st') \<Longrightarrow> spend_step cv st st'"
| txs_returned: "rollback_blockchain_switching cv k st = (r, st') \<Longrightarrow> spend_step cv st st'"
| new_checkpoints: "set_checkpoints c st = (r, st') \<Longrightarrow> spend_step cv st st'"
| checked_checkpoints: "validate_checkpoints cv st = (x, st') \<Longrightarrow> spend_step cv st st'"

lemma spend_step_once: "spend_step cv st st' \<Longrightarrow> spent_once st \<Longrightarrow> spent_once st'"
proof (induction rule: spend_step.induct)
  case (new_block t bl bvc st r bvc' st')
  from new_block.hyps show ?case
  proof (cases rule: new_block_cases)
    case refused
    then show ?thesis using new_block.prems once_cong [OF refused_spends] by blast
  next
    case (extended bvc1 st1)
    then show ?thesis using new_block.prems accepted_once once_cong by blast
  next
    case (switched alts st0 st1 n d st2)
    then show ?thesis using new_block.prems disconnected_once connected_once once_cong by metis
  qed
next
  case (block_popped p st st')
  then show ?case using popped_once by blast
next
  case (chain_truncated h st st')
  then obtain X where "truncate_loop cv (length (bs_blocks st) + 1) h st = (True, X)" "spends st' = spends X"
    unfolding truncate_blockchain_def clear_altblocks_def by (auto simp del: truncate_loop.simps split: prod.splits)
  then show ?case using truncated_once chain_truncated(2) once_cong by metis
next
  case (txs_returned k st r st')
  then show ?case using rollback_spends once_cong by (metis rollback_blockchain_switching_def)
next
  case (new_checkpoints c st r st')
  then have "st' = st\<lparr>bs_checkpoints := c\<rparr>" by (simp add: set_checkpoints_def)
  then show ?case using new_checkpoints(2) by (simp add: spent_once_def)
next
  case (checked_checkpoints st x st')
  then show ?case using validate_checkpoints_spends once_cong by metis
qed

text \<open>C11: No key image is spent twice on the main chain. Through every sequence of new blocks, whatever \<open>add_new_block\<close> does with
  them - extending the chain, refusing them at any point, putting them beside the chain, switching to their branch, rolling a
  failed switch back -, of blocks that come off, of truncations and of changes of the checkpoints, the table of the spent
  key images holds exactly the key images of the transactions of the chain, each with the height of its transaction, no
  transaction spends one twice, and no two transactions spend the same one. The one case left out is a block that fails to come
  off in the middle of a switch or of a truncation: the code then keeps what has been undone so far.\<close>
theorem no_double_spend:
  assumes "(spend_step cv)\<^sup>*\<^sup>* st st'" and "spent_once st"
  shows "(bs_spent_keys st' k = Some h \<longleftrightarrow>
      (\<exists>t e. bs_transactions st' t = Some e \<and> tce_keeper_block_height e = h \<and> k \<in> set (input_images (vin (tce_tx e))))) \<and>
    (\<forall>t e. bs_transactions st' t = Some e \<longrightarrow> distinct (input_images (vin (tce_tx e)))) \<and>
    (\<forall>t t' e e'. bs_transactions st' t = Some e \<longrightarrow> bs_transactions st' t' = Some e' \<longrightarrow>
      k \<in> set (input_images (vin (tce_tx e))) \<longrightarrow> k \<in> set (input_images (vin (tce_tx e'))) \<longrightarrow> t = t')"
proof -
  have o: "spent_once st'" using assms by (induction rule: rtranclp_induct) (auto dest: spend_step_once)
  have T: "snd (spends st') t = Some (x, ks) \<longleftrightarrow>
      (\<exists>e. bs_transactions st' t = Some e \<and> tce_keeper_block_height e = x \<and> input_images (vin (tce_tx e)) = ks)" for t x ks
    by (auto simp: spends_def spender_def)
  have a: "bs_spent_keys st' k = Some h \<longleftrightarrow> (\<exists>t ks. snd (spends st') t = Some (h, ks) \<and> k \<in> set ks)"
    and b: "\<And>t x ks. snd (spends st') t = Some (x, ks) \<Longrightarrow> distinct ks"
    and c: "\<And>t t' x x'. snd (spends st') t = Some x \<Longrightarrow> snd (spends st') t' = Some x' \<Longrightarrow> k \<in> set (snd x) \<Longrightarrow>
      k \<in> set (snd x') \<Longrightarrow> t = t'"
    using o unfolding spent_once_def spent_exactly_once_def spends_def prod.case snd_conv by (blast+)
  have i: "snd (spends st') t = Some (spender e)" if "bs_transactions st' t = Some e" for t e using that by (simp add: spends_def)
  show ?thesis
  proof (intro conjI allI impI)
    show "bs_spent_keys st' k = Some h \<longleftrightarrow>
        (\<exists>t e. bs_transactions st' t = Some e \<and> tce_keeper_block_height e = h \<and> k \<in> set (input_images (vin (tce_tx e))))"
      unfolding a T by blast
  next
    fix t e assume "bs_transactions st' t = Some e"
    then show "distinct (input_images (vin (tce_tx e)))" using b T by blast
  next
    fix t t' e e'
    assume "bs_transactions st' t = Some e" "bs_transactions st' t' = Some e'"
      "k \<in> set (input_images (vin (tce_tx e)))" "k \<in> set (input_images (vin (tce_tx e')))"
    then show "t = t'" using c [OF i i] by (simp add: spender_def)
  qed
qed

lemma demo_block_new:
  "\<not> have_block [2] genesis_store" "cv_block_hash block_view (demo_block 1 [9] a ts) = [2]"
  "get_top_block_id block_view genesis_store = [9]"
  by (simp_all add: genesis_store_def demo_store_def have_block_def get_top_block_id_def block_view_def demo_block_def)

text \<open>The block is added to the genesis store, whose transaction spends a key image.\<close>
theorem no_double_spend_witness:
  "\<exists>st'. spend_step block_view genesis_store st' \<and> bs_blocks st' \<noteq> bs_blocks genesis_store \<and>
    (bs_spent_keys st' [6] = Some 0 \<longleftrightarrow>
      (\<exists>t e. bs_transactions st' t = Some e \<and> tce_keeper_block_height e = 0 \<and> [6] \<in> set (input_images (vin (tce_tx e)))))"
proof -
  let ?bl = "demo_block 1 [9] first_reward []"
  obtain x where h: "handle_block_to_main_chain block_view ?bl [2] empty_bvc genesis_store =
      Inr (True, empty_bvc\<lparr>bv_added_to_main_chain := True\<rparr>, x)"
    by (rule demo_block_added)
  have e: "\<not> bv_verification_failed (empty_bvc\<lparr>bv_added_to_main_chain := True\<rparr>)" by (simp add: empty_bvc_def)
  have m: "\<exists>r st'. add_main_block block_view ?bl [2] empty_bvc genesis_store = (r, empty_bvc\<lparr>bv_added_to_main_chain := True\<rparr>, st') \<and>
      bs_blocks st' = bs_blocks x"
    by (cases "validate_blockchain_prev_links block_view 10 (commit_transaction x)")
      (auto simp: add_main_block_def h e Let_def commit_transaction_def finalize_pool_def clear_events_def)
  then obtain r st' where n: "add_new_block block_view ?bl empty_bvc genesis_store =
      Some (r, empty_bvc\<lparr>bv_added_to_main_chain := True\<rparr>, st')" and b: "bs_blocks st' = bs_blocks x"
    by (auto simp: add_new_block_def demo_block_new)
  have "block_appended ?bl [2] genesis_store x"
    using handle_block_blocks [of ?bl "[2]" genesis_store block_view empty_bvc] h by simp
  then have "length (bs_blocks st') = 2" by (auto simp: b block_appended_def blocks_part_def)
  moreover have "block_view\<lparr>cv_core_time := 1000\<rparr> = block_view"
    by (simp add: block_view_def demo_chain_view_def)
  moreover have "reorganizes_cleanly block_view ?bl empty_bvc genesis_store"
    by (simp add: reorganizes_cleanly_def demo_block_new)
  ultimately have s: "spend_step block_view genesis_store st'" using spend_step.new_block [where cv = block_view and t = 1000] n by metis
  have "spends genesis_store = spends_in [3] 0 [[6]] (Map.empty, Map.empty)"
    by (simp add: spends_def spends_in_def spender_def spent_entry_def ref_input_def image_of_def fun_eq_iff)
  then have o: "spent_once genesis_store"
    by (simp add: spent_once_def) (rule spent_in, simp_all add: spent_exactly_once_def)
  have "length (bs_blocks st') \<noteq> length (bs_blocks genesis_store)" using \<open>length (bs_blocks st') = 2\<close> by simp
  then show ?thesis
    using s no_double_spend [OF _ o, of block_view st' "[6]" 0] by (metis r_into_rtranclp)
qed

subsection \<open>Refused blocks\<close>



end
