(* ===== verification/Spec2Isabelle.thy ===== *)
theory Spec2Isabelle
  imports Varint Difficulty TreeHash CurveTables PoolRuns Amounts Base58 Peerlist Crypto Chacha Checkpoints Market ChainInputs ChainLaws ChainSpends
begin

text \<open>
  A verification development for the core of the Virie node, a cryptocurrency node in C and C++ (src/src). It follows the
  code function by function: data are records and datatypes with the alternatives of the source, machine integers are words
  of their width, a failed assertion, an exception or a \<open>false\<close> is a value (\<open>None\<close>, or \<open>False\<close> together with the
  state that is left), and a function that changes members of its object returns the changed state.

  The parts of the program and how they call each other. A transaction that arrives goes to the pool (tx_pool.cpp), which
  checks its form (tx_validation.cpp, currency_format_utils.cpp), asks the chain (blockchain_storage.cpp) for its inputs, and
  keeps it until a miner takes it into a block (fill_block_template) or it grows stale. A block that arrives is checked by the
  chain against its time, its proof of work or stake (difficulty.cpp), the checkpoints (checkpoints.cpp) and the reward of the
  miner; its transactions are taken from the pool, their inputs checked, and their effects written to the tables of the chain
  and to the market of offers (bc_offers_service.cpp); every one of these effects is undone when the block comes off again.
  Below lie the cryptography (crypto/*.c, crypto.cpp) with keys, signatures, ring signatures and hashes, the text encodings
  (base58.cpp, varint.h, hexadecimal, amounts), and, beside it all, the lists of peers (net_peerlist.h, net_node.inl).

  The theories, from the bottom up, with the code they model:

  Prelude: types of machine integers, bytes in little and big endian order, shared lemmas and the collections of facts.
  IntUtil: common/int-util.h. Varint: common/varint.h. HexText: the hexadecimal functions of epee/string_tools.h and
  bc_payments_id.h. Base58: common/base58.cpp. Amounts: print_money, parse_amount and decompose_amount_into_digits.
  Keccak: crypto/keccak.c and hash.c. TreeHash: crypto/tree-hash.c. Chacha: crypto/chacha8.c.
  LimbMachine, ScalarOps, FieldOps, GroupOps, ScalarMult, CurveTables: crypto/crypto-ops.c and crypto-ops-data.c, from limbs
  to points; an \<open>int32_t\<close> or \<open>int64_t\<close> assignment wraps in the model, and the lemmas show that on the inputs of the
  callers none does. Crypto: crypto/crypto.cpp and random.c.
  Difficulty: difficulty.cpp and difficulty_cache.cpp. Checkpoints: checkpoints.cpp. BlockReward: get_block_reward.
  Transactions: currency_basic.h and the functions of currency_format_utils.cpp and tx_validation.cpp on one transaction.
  TxPool, BlockTemplate: tx_pool.cpp; PoolRuns: the pool as a step relation, and its properties.
  Offers, Market: bc_offers_service.cpp, offers_services_helpers.cpp, bc_attachments_service_manager.cpp and core_tools.h, and
  their properties.
  ChainStore: the state of blockchain_storage.cpp (the record \<open>blockchain_storage\<close>, a field for every table) and the
  operations on transactions and aliases; ChainLaws: what each operation does to each table, and that a purge undoes an
  addition. ChainInputs: check_tx_inputs with all it calls, and its properties. ChainBlocks: handle_block_to_main_chain with all
  it calls (times, difficulties, the proofs of work and stake, the transaction of the miner, the entry of the block),
  pop_block_from_blockchain, truncate_blockchain, rollback_blockchain_switching, checkpoints and pruning. ChainRuns: the blocks
  as a step relation; ChainUndo: a block comes off, or fails in handle_block_to_main_chain, and everything is as before.
  ChainAlt: handle_alternative_block with all it calls, switch_to_alternative_blockchain, and add_new_block with its transaction
  of the database (db_abstract_accessor.h). ChainSpends: what add_new_block leaves behind when a block is refused, and that no key
  image is spent twice.
  Peerlist: net_peerlist.h and the address rules of net_node.inl, with the lists that are stored and loaded again.

  What the groups of lemmas show. Encodings: round trips, and which texts a reader accepts. Arithmetic: the limbs stay within
  bounds, no addition overflows, and the routine computes the mathematical function (products modulo \<open>2 ^ 255 - 19\<close>, scalars
  modulo the group order, the coordinates of the addition law of the curve, and multiples as counts of such additions; that \<open>Z\<close> is never zero and that
  the table \<open>ge_base\<close> holds the multiples of the base point are not shown). Hashes: the optimised rounds agree with the
  specification, and two lists with one tree hash exhibit a collision among the inputs of their own trees. Signatures: acceptance is exactly the equation of the scheme with both
  scalars reduced. Pool, peers and market: the invariants of every reachable state by rule induction on their step relations,
  and that undoing restores under the conditions that each theorem names; the peer lists are followed through restarts. Chain: accepted inputs have all that the checks are there for, and the places where a check is
  missing, each as a theorem about the code as it is. The chain of blocks stays linked in every history; a block that comes off
  restores the tables, by the law for one transaction carried over the transactions of the block; a block that add_new_block
  refuses leaves the tables of the chain alone, a reorganisation that is rolled back included; and the table of
  the spent key images is exactly what the transactions of the chain spend. Both leave out a block of the main chain
  that fails to come off during a switch, whose half-done state the code commits.

  The interfaces are locales, interpreted on the model where the code provides the operation: \<open>std_permute\<close> and
  \<open>std_sort\<close> (std::sort on offsets), \<open>db_enumeration\<close> (the order of the database), \<open>peers_index\<close> (the multi-index
  container of the peers), \<open>cond_move\<close> (branch-free selection), \<open>node_hash\<close> (the tree hash), and \<open>undo_log\<close>
  (operations that are undone in the opposite order, for the attachments of one transaction and for the transactions of the
  chain).

  Parameters, for what is not code under src or not modelled: \<open>node_view\<close> (what the pool asks of the chain, the clock, the
  services and the database), \<open>market_view\<close> (readers of serialized offers, hashes), \<open>chain_view\<close> (hashes and sizes of
  serialized objects, the hash of the proof of work, the clock, the configuration, the order of an unordered map, and what the
  pool sees of a state of the chain), the first filling of the random generator, and the bytes of a buffer of chacha8 that are
  never written.

  Bounds and fuel. Recursion is structural wherever the loop of the code has a counter. The other loops have a measure, or a
  bound on their rounds that a lemma shows to be enough. The walk down a branch of alternative blocks is a partial function,
  since it would not end on a circle; \<open>add_new_block\<close> is then \<open>None\<close>.

  Not modelled. Locks, logging, profiling and the caches of the database; failures of writes to the database; the functions
  that fill structures of the RPC and of the protocol; serialization, whose objects appear through their hashes and sizes; the
  threads and sessions of the network, the miners, the wallet and the user interfaces; vendored libraries. The file
  PROJECT.json lists every part with its reason.
\<close>

end
